(* ===== verification/Prelude.thy ===== *)
theory Prelude
  imports Main "HOL-Library.AList" "HOL-Library.Multiset" "HOL-Library.Char_ord"
    "HOL-Library.List_Lexorder" "HOL-Library.Code_Target_Nat"
begin

text \<open>
  What every component shares: the collections of facts the proofs draw on, the sequencing
  combinator for fallible code, the arithmetic of a 64-bit Go \<open>int\<close> and of a Go
  \<open>time.Duration\<close>, and generic lemmas on lists and on association lists.

  A Go map that the code iterates is an association list with distinct keys: the position of a
  binding stands for the (unspecified) order in which Go visits it, so a result that must not
  depend on that order is stated as a theorem about permuted lists. The lemmas on
  \<^const>\<open>AList.update\<close>, \<^const>\<open>AList.delete\<close> and on filtering carry those proofs.
\<close>

section \<open>Collections\<close>

named_theorems valid_simps \<open>the \<open>IsValid\<close> methods and other predicates on enums\<close>
named_theorems inv_intros \<open>preservation of the components' invariants\<close>
named_theorems op_defs \<open>definitions of the operations of a component, for case analysis\<close>

section \<open>Sequencing fallible code\<close>

text \<open>
  \<open>x, err := f(); if err != nil { return err }; ...\<close> is \<open>and_then (f \<dots>) (\<lambda>x. \<dots>)\<close>.
\<close>

fun and_then :: "'e + 'a \<Rightarrow> ('a \<Rightarrow> 'e + 'b) \<Rightarrow> 'e + 'b" where
  "and_then (Inl e) f = Inl e"
| "and_then (Inr x) f = f x"

lemma and_then_Inr_iff [simp]: "and_then m f = Inr y \<longleftrightarrow> (\<exists>x. m = Inr x \<and> f x = Inr y)"
  by (cases m) auto

lemma and_then_Inl_iff:
  "and_then m f = Inl e \<longleftrightarrow> m = Inl e \<or> (\<exists>x. m = Inr x \<and> f x = Inl e)"
  by (cases m) auto

text \<open>\<open>if cond { return err }\<close>\<close>

definition guard :: "'e \<Rightarrow> bool \<Rightarrow> 'e + unit" where
  "guard e b = (if b then Inr () else Inl e)"

lemma guard_simps [simp]:
  "guard e True = Inr ()" "guard e False = Inl e"
  "guard e b = Inr u \<longleftrightarrow> b" "guard e b = Inl e' \<longleftrightarrow> \<not> b \<and> e' = e"
  by (auto simp: guard_def)

section \<open>Machine integers and durations\<close>

text \<open>Two's-complement wrap-around of a 64-bit signed integer.\<close>

definition int64 :: "int \<Rightarrow> int" where
  "int64 x = (x + 2 ^ 63) mod 2 ^ 64 - 2 ^ 63"

lemma int64_id: "- (2 ^ 63) \<le> x \<Longrightarrow> x < 2 ^ 63 \<Longrightarrow> int64 x = x"
  by (simp add: int64_def)

lemma int64_bounds: "- (2 ^ 63) \<le> int64 x" "int64 x < 2 ^ 63"
proof -
  have "0 \<le> (x + 2 ^ 63) mod 2 ^ 64" "(x + 2 ^ 63) mod 2 ^ 64 < 2 ^ 64"
    by simp_all
  then show "- (2 ^ 63) \<le> int64 x" "int64 x < 2 ^ 63"
    by (auto simp: int64_def)
qed

text \<open>Go's integer division truncates towards zero.\<close>

definition quot :: "int \<Rightarrow> int \<Rightarrow> int" where
  "quot a b = sgn a * sgn b * (\<bar>a\<bar> div \<bar>b\<bar>)"

lemma quot_nonneg: "0 \<le> a \<Longrightarrow> 0 < b \<Longrightarrow> quot a b = a div b"
  by (cases "a = 0") (auto simp: quot_def)

text \<open>Instants are nanoseconds since the Unix epoch, durations nanoseconds.\<close>

type_synonym go_time = int
type_synonym duration = int

abbreviation (input) Nanosecond :: duration where "Nanosecond \<equiv> 1"
abbreviation (input) Microsecond :: duration where "Microsecond \<equiv> 1000"
abbreviation (input) Millisecond :: duration where "Millisecond \<equiv> 1000000"
abbreviation (input) Second :: duration where "Second \<equiv> 1000000000"
abbreviation (input) Minute :: duration where "Minute \<equiv> 60000000000"
abbreviation (input) Hour :: duration where "Hour \<equiv> 3600000000000"
abbreviation (input) Day :: duration where "Day \<equiv> 86400000000000"

text \<open>
  \<open>t.Truncate(d)\<close> rounds down to a multiple of \<open>d\<close> since the zero time. The zero time is a
  whole number of days before the epoch, so for a minute, an hour and a day the multiples are
  those since the epoch.
\<close>

definition Truncate :: "go_time \<Rightarrow> duration \<Rightarrow> go_time" where
  "Truncate t d = t div d * d"

lemma Truncate_bounds: "0 < d \<Longrightarrow> Truncate t d \<le> t \<and> t < Truncate t d + d"
proof -
  assume "0 < d"
  then have "t mod d < d" "0 \<le> t mod d" by simp_all
  moreover have "t = t div d * d + t mod d" by simp
  ultimately show ?thesis unfolding Truncate_def by linarith
qed

lemma Truncate_same_window:
  assumes "0 < d" "Truncate t d \<le> u" "u < Truncate t d + d"
  shows "Truncate u d = Truncate t d"
proof -
  have "u = t div d * d + (u - t div d * d)" by simp
  moreover have "0 \<le> u - t div d * d" "u - t div d * d < d"
    using assms by (auto simp: Truncate_def)
  ultimately have "u div d = t div d"
    by (metis assms(1) div_mult_self3 div_pos_pos_trivial add.left_neutral add.commute
        less_irrefl mult.commute)
  then show ?thesis by (simp add: Truncate_def)
qed

section \<open>Association lists\<close>

abbreviation keys_of :: "('k \<times> 'v) list \<Rightarrow> 'k list" where
  "keys_of m \<equiv> List.map fst m"

definition wf_alist :: "('k \<times> 'v) list \<Rightarrow> bool" where
  "wf_alist m \<longleftrightarrow> distinct (keys_of m)"

lemma wf_alist_Nil [simp, intro]: "wf_alist []"
  by (simp add: wf_alist_def)

lemma wf_alist_update [simp, intro]: "wf_alist m \<Longrightarrow> wf_alist (AList.update k v m)"
  by (simp add: wf_alist_def distinct_update)

lemma wf_alist_delete [simp, intro]: "wf_alist m \<Longrightarrow> wf_alist (AList.delete k m)"
  by (simp add: wf_alist_def distinct_delete)

lemma wf_alist_filter [simp, intro]: "wf_alist m \<Longrightarrow> wf_alist (filter P m)"
  by (simp add: wf_alist_def distinct_map_filter)

lemma map_of_filter_alist:
  "wf_alist m \<Longrightarrow> map_of (filter P m) k =
     (case map_of m k of None \<Rightarrow> None | Some v \<Rightarrow> if P (k, v) then Some v else None)"
proof (induction m)
  case Nil
  then show ?case by simp
next
  case (Cons kv m)
  obtain k' v' where kv: "kv = (k', v')" by (cases kv)
  from Cons.prems kv have wf: "wf_alist m" and notin: "k' \<notin> set (keys_of m)"
    by (auto simp: wf_alist_def)
  then have none: "map_of m k' = None" by (simp add: map_of_eq_None_iff)
  show ?case using Cons.IH [OF wf] none by (auto simp: kv split: option.splits)
qed

lemma map_of_mem: "wf_alist m \<Longrightarrow> (k, v) \<in> set m \<longleftrightarrow> map_of m k = Some v"
  by (simp add: wf_alist_def)

lemma length_update:
  "length (AList.update k v m) = (if map_of m k = None then Suc (length m) else length m)"
  by (induction m) auto

lemma delete_absent: "map_of m k = None \<Longrightarrow> AList.delete k m = m"
  by (induction m) (auto split: if_splits)

lemma length_delete:
  "wf_alist m \<Longrightarrow> length (AList.delete k m) =
     (if map_of m k = None then length m else length m - 1)"
proof (induction m)
  case Nil
  then show ?case by simp
next
  case (Cons kv m)
  obtain k' v' where kv: "kv = (k', v')" by (cases kv)
  from Cons.prems have wf: "wf_alist m" by (auto simp: wf_alist_def)
  show ?case
  proof (cases "k' = k")
    case True
    with Cons.prems kv have "map_of m k = None" by (auto simp: wf_alist_def map_of_eq_None_iff)
    with True show ?thesis by (simp add: kv delete_absent)
  next
    case False
    have "map_of m k \<noteq> None \<Longrightarrow> length m > 0" by (cases m) auto
    with False Cons.IH [OF wf] show ?thesis by (auto simp: kv)
  qed
qed

lemma length_delete_less: "k \<in> set (keys_of m) \<Longrightarrow> length (AList.delete k m) < length m"
proof -
  assume "k \<in> set (keys_of m)"
  then obtain v where "(k, v) \<in> set m" by auto
  then show ?thesis unfolding AList.delete_eq by (rule length_filter_less) simp
qed

lemma update_absent: "map_of m k = None \<Longrightarrow> AList.update k v m = m @ [(k, v)]"
  by (induction m) (auto split: if_splits)

lemma delete_update_absent:
  "map_of m k = None \<Longrightarrow> AList.delete k (AList.update k v m) = m"
  by (induction m) (auto split: if_splits)

lemma map_of_perm:
  "wf_alist m \<Longrightarrow> mset m = mset m' \<Longrightarrow> map_of m = map_of m'"
proof -
  assume wf: "wf_alist m" and perm: "mset m = mset m'"
  then have "mset (keys_of m) = mset (keys_of m')" by (simp add: mset_map)
  then have wf': "wf_alist m'" using wf
    by (metis mset_eq_imp_distinct_iff wf_alist_def)
  have "set m = set m'" using perm by (rule mset_eq_setD)
  then show ?thesis using wf wf' by (metis map_of_inject_set wf_alist_def)
qed

section \<open>Lists\<close>

lemma hd_drop_conv: "n < length xs \<Longrightarrow> drop n xs = xs ! n # drop (Suc n) xs"
  by (rule Cons_nth_drop_Suc [symmetric])

lemma find_Some_conv:
  "find P xs = Some x \<Longrightarrow> P x \<and> x \<in> set xs"
  by (induction xs) (auto split: if_splits)

end
