(* ===== verification/GoStrings.thy ===== *)
theory GoStrings
  imports Prelude "HOL-Library.Sublist"
begin

text \<open>
  Go strings and the parts of packages \<open>strings\<close>, \<open>unicode\<close> and \<open>unicode/utf8\<close> the code uses.
  A Go string is a sequence of bytes: here a \<open>string\<close>, each \<open>char\<close> one byte, so \<^const>\<open>length\<close>
  is Go's \<open>len\<close> and the lexicographic order of \<open>List_Lexorder\<close> over \<open>Char_ord\<close> is Go's byte-wise
  \<open><\<close>. Ranging over a string decodes UTF-8, one rune at a time, and an invalid byte yields the
  replacement rune \<open>0xFFFD\<close> and advances by one: \<open>decodeRune\<close> and \<open>runes\<close> below.
\<close>

section \<open>Bytes\<close>

abbreviation byte :: "char \<Rightarrow> nat" where
  "byte \<equiv> of_char"

text \<open>The comparisons \<open>lo <= c && c <= hi\<close> of the code.\<close>

definition char_between :: "char \<Rightarrow> char \<Rightarrow> char \<Rightarrow> bool" where
  "char_between lo hi c \<longleftrightarrow> byte lo \<le> byte c \<and> byte c \<le> byte hi"

abbreviation is_lower :: "char \<Rightarrow> bool" where "is_lower \<equiv> char_between CHR ''a'' CHR ''z''"
abbreviation is_upper :: "char \<Rightarrow> bool" where "is_upper \<equiv> char_between CHR ''A'' CHR ''Z''"
abbreviation is_digit :: "char \<Rightarrow> bool" where "is_digit \<equiv> char_between CHR ''0'' CHR ''9''"

section \<open>UTF-8\<close>

definition RuneError :: nat where "RuneError = 65533"

text \<open>
  The table of \<open>unicode/utf8\<close>: the number of bytes of the sequence a first byte opens, with the
  range the second byte must be in; further bytes are continuation bytes.
\<close>

definition first_byte :: "nat \<Rightarrow> (nat \<times> nat \<times> nat) option" where
  "first_byte b =
     (if b < 128 then Some (1, 0, 0)
      else if b < 194 then None
      else if b < 224 then Some (2, 128, 191)
      else if b = 224 then Some (3, 160, 191)
      else if b = 237 then Some (3, 128, 159)
      else if b < 240 then Some (3, 128, 191)
      else if b = 240 then Some (4, 144, 191)
      else if b < 244 then Some (4, 128, 191)
      else if b = 244 then Some (4, 128, 143)
      else None)"

definition continuation :: "nat \<Rightarrow> bool" where
  "continuation b \<longleftrightarrow> 128 \<le> b \<and> b \<le> 191"

text \<open>\<open>utf8.RuneStart\<close>: \<open>b&0xC0 != 0x80\<close>.\<close>

definition RuneStart :: "char \<Rightarrow> bool" where
  "RuneStart c \<longleftrightarrow> \<not> continuation (byte c)"

text \<open>
  The rune encoded at the head of a string and its length, \<open>None\<close> where there is no valid
  encoding there.
\<close>

definition head_rune :: "string \<Rightarrow> (nat \<times> nat) option" where
  "head_rune s =
     (case s of [] \<Rightarrow> None
      | c0 # s1 \<Rightarrow>
         (case first_byte (byte c0) of
            None \<Rightarrow> None
          | Some (n, lo, hi) \<Rightarrow>
             if n = 1 then Some (byte c0, 1)
             else (case s1 of [] \<Rightarrow> None
              | c1 # s2 \<Rightarrow>
                 if byte c1 < lo \<or> hi < byte c1 then None
                 else if n = 2 then Some ((byte c0 - 192) * 64 + (byte c1 - 128), 2)
                 else (case s2 of [] \<Rightarrow> None
                  | c2 # s3 \<Rightarrow>
                     if \<not> continuation (byte c2) then None
                     else if n = 3
                       then Some ((byte c0 - 224) * 4096 + (byte c1 - 128) * 64
                                  + (byte c2 - 128), 3)
                     else (case s3 of [] \<Rightarrow> None
                      | c3 # _ \<Rightarrow>
                         if \<not> continuation (byte c3) then None
                         else Some ((byte c0 - 240) * 262144 + (byte c1 - 128) * 4096
                                    + (byte c2 - 128) * 64 + (byte c3 - 128), 4))))))"

text \<open>\<open>utf8.DecodeRuneInString\<close>\<close>

definition decodeRune :: "string \<Rightarrow> nat \<times> nat" where
  "decodeRune s =
     (if s = [] then (RuneError, 0)
      else (case head_rune s of None \<Rightarrow> (RuneError, 1) | Some rn \<Rightarrow> rn))"

text \<open>\<open>for _, r := range s\<close>\<close>

fun runes :: "string \<Rightarrow> nat list" where
  "runes [] = []"
| "runes (c # cs) =
     fst (decodeRune (c # cs)) # runes (drop (snd (decodeRune (c # cs)) - 1) cs)"

text \<open>\<open>utf8.ValidString\<close>\<close>

fun ValidString :: "string \<Rightarrow> bool" where
  "ValidString [] = True"
| "ValidString (c # cs) =
     (case head_rune (c # cs) of
        None \<Rightarrow> False
      | Some (_, n) \<Rightarrow> ValidString (drop (n - 1) cs))"

text \<open>\<open>strings.ToValidUTF8(s, "")\<close> drops every byte that starts no valid encoding.\<close>

fun ToValidUTF8 :: "string \<Rightarrow> string" where
  "ToValidUTF8 [] = []"
| "ToValidUTF8 (c # cs) =
     (case head_rune (c # cs) of
        None \<Rightarrow> ToValidUTF8 cs
      | Some (_, n) \<Rightarrow> take n (c # cs) @ ToValidUTF8 (drop (n - 1) cs))"

subsection \<open>Lemmas on decoding\<close>

lemma head_rune_Nil [simp]: "head_rune [] = None"
  by (simp add: head_rune_def)

lemma first_byte_ascii: "b < 128 \<Longrightarrow> first_byte b = Some (1, 0, 0)"
  by (simp add: first_byte_def)

lemma head_rune_ascii: "byte c < 128 \<Longrightarrow> head_rune (c # cs) = Some (byte c, 1)"
  by (simp add: head_rune_def first_byte_def)

lemma first_byte_Some:
  "first_byte b = Some (n, lo, hi) \<Longrightarrow>
     n = 1 \<and> b < 128 \<or> n = 2 \<and> 194 \<le> b \<and> 128 \<le> lo \<and> hi \<le> 191
     \<or> n = 3 \<and> 224 \<le> b \<and> 128 \<le> lo \<and> hi \<le> 191 \<and> (b = 224 \<longrightarrow> 160 \<le> lo)
     \<or> n = 4 \<and> 240 \<le> b \<and> 128 \<le> lo \<and> hi \<le> 191 \<and> (b = 240 \<longrightarrow> 144 \<le> lo)"
  by (auto simp: first_byte_def split: if_splits)

text \<open>The four shapes of a valid encoding.\<close>

lemma head_rune_shape:
  assumes h: "head_rune s = Some (r, n)"
  obtains (one) c0 s1 where "s = c0 # s1" "n = 1" "r = byte c0" "byte c0 < 128"
  | (two) c0 c1 s2 lo hi where "s = c0 # c1 # s2" "n = 2" "first_byte (byte c0) = Some (2, lo, hi)"
      "lo \<le> byte c1" "byte c1 \<le> hi" "r = (byte c0 - 192) * 64 + (byte c1 - 128)"
  | (three) c0 c1 c2 s3 lo hi where "s = c0 # c1 # c2 # s3" "n = 3"
      "first_byte (byte c0) = Some (3, lo, hi)" "lo \<le> byte c1" "byte c1 \<le> hi"
      "continuation (byte c2)"
      "r = (byte c0 - 224) * 4096 + (byte c1 - 128) * 64 + (byte c2 - 128)"
  | (four) c0 c1 c2 c3 s4 lo hi where "s = c0 # c1 # c2 # c3 # s4" "n = 4"
      "first_byte (byte c0) = Some (4, lo, hi)" "lo \<le> byte c1" "byte c1 \<le> hi"
      "continuation (byte c2)" "continuation (byte c3)"
      "r = (byte c0 - 240) * 262144 + (byte c1 - 128) * 4096 + (byte c2 - 128) * 64
           + (byte c3 - 128)"
proof -
  obtain c0 s1 where s: "s = c0 # s1" using h by (cases s) auto
  obtain m lo hi where f: "first_byte (byte c0) = Some (m, lo, hi)"
    using h by (auto simp: head_rune_def s split: option.splits)
  note d = head_rune_def s f
  note m = first_byte_Some [OF f]
  show thesis
  proof (cases "m = 1")
    case True
    with m h s show thesis by (intro one) (auto simp: d)
  next
    case m1: False
    obtain c1 s2 where s1: "s1 = c1 # s2" using h m1 by (cases s1) (auto simp: d)
    have c1: "lo \<le> byte c1" "byte c1 \<le> hi"
      using h m1 by (auto simp: d s1 split: if_splits)
    show thesis
    proof (cases "m = 2")
      case True
      with h c1 show thesis by (intro two [of c0 c1 s2 lo hi]) (auto simp: d s1)
    next
      case m2: False
      obtain c2 s3 where s2: "s2 = c2 # s3" using h m1 m2 c1 by (cases s2) (auto simp: d s1)
      have c2: "continuation (byte c2)"
        using h m1 m2 c1 by (simp add: d s1 s2 split: if_splits)
      show thesis
      proof (cases "m = 3")
        case True
        with h c1 c2 show thesis
          by (intro three [of c0 c1 c2 s3 lo hi]) (auto simp: d s1 s2)
      next
        case m3: False
        with m m1 m2 have m4: "m = 4" by auto
        obtain c3 s4 where s3: "s3 = c3 # s4"
          using h m4 c1 c2 by (cases s3) (auto simp: d s1 s2)
        have c3: "continuation (byte c3)"
          using h m4 c1 c2 by (simp add: d s1 s2 s3 split: if_splits)
        from h m4 c1 c2 c3 show thesis
          by (intro four [of c0 c1 c2 c3 s4 lo hi]) (auto simp: d s1 s2 s3)
      qed
    qed
  qed
qed

lemma head_rune_len: "head_rune s = Some (r, n) \<Longrightarrow> 1 \<le> n \<and> n \<le> 4 \<and> n \<le> length s"
  by (erule head_rune_shape) auto

text \<open>The encoding at the head of a string is read from its own bytes only.\<close>

lemma head_rune_append:
  assumes "head_rune s = Some (r, n)"
  shows "head_rune (take n s @ t) = Some (r, n)"
  using assms
proof (cases rule: head_rune_shape)
  case one
  then show ?thesis by (simp add: head_rune_ascii)
next
  case two
  then show ?thesis by (simp add: head_rune_def)
next
  case three
  then show ?thesis by (simp add: head_rune_def)
next
  case four
  then show ?thesis by (simp add: head_rune_def)
qed

lemma head_rune_append2:
  assumes "head_rune s = Some (r, n)"
  shows "head_rune (s @ t) = Some (r, n)"
proof -
  have "s @ t = take n s @ (drop n s @ t)" by simp
  with head_rune_append [OF assms] show ?thesis by metis
qed

lemma head_rune_take:
  assumes "head_rune (take k s) = Some rn"
  shows "head_rune s = Some rn"
proof -
  obtain r n where rn: "rn = (r, n)" by (cases rn)
  have "head_rune (take k s @ drop k s) = Some (r, n)"
    using assms unfolding rn by (rule head_rune_append2)
  then show ?thesis by (simp only: append_take_drop_id rn)
qed

text \<open>An encoding of more than one byte has no byte below 128, and encodes no rune below 128.\<close>

lemma head_rune_bytes:
  assumes "head_rune s = Some (r, n)"
  shows "n = 1 \<and> r = byte (hd s) \<and> r < 128 \<or>
    n \<noteq> 1 \<and> 128 \<le> r \<and> 128 \<le> byte (hd s)
      \<and> (\<forall>k. 0 < k \<and> k < n \<longrightarrow> continuation (byte (s ! k)))"
  using assms
proof (cases rule: head_rune_shape)
  case one
  then show ?thesis by simp
next
  case (two c0 c1 s2 lo hi)
  from first_byte_Some [OF two(3)] have "194 \<le> byte c0" "128 \<le> byte c1" "byte c1 \<le> 191"
    using two by auto
  moreover have "0 < k \<and> k < 2 \<longleftrightarrow> k = 1" for k :: nat by auto
  ultimately show ?thesis using two by (simp add: continuation_def)
next
  case (three c0 c1 c2 s3 lo hi)
  from first_byte_Some [OF three(3)] have b: "224 \<le> byte c0" "128 \<le> byte c1" "byte c1 \<le> 191"
    "byte c0 = 224 \<longrightarrow> 160 \<le> byte c1"
    using three by auto
  then have "128 \<le> r" unfolding three(7) by (cases "byte c0 = 224") auto
  moreover have "0 < k \<and> k < 3 \<longleftrightarrow> k = 1 \<or> k = 2" for k :: nat by auto
  ultimately show ?thesis using b three by (simp add: continuation_def)
next
  case (four c0 c1 c2 c3 s4 lo hi)
  from first_byte_Some [OF four(3)] have b: "240 \<le> byte c0" "128 \<le> byte c1" "byte c1 \<le> 191"
    "byte c0 = 240 \<longrightarrow> 144 \<le> byte c1"
    using four by auto
  then have "128 \<le> r" unfolding four(8) by (cases "byte c0 = 240") auto
  moreover have "0 < k \<and> k < 4 \<longleftrightarrow> k = 1 \<or> k = 2 \<or> k = 3" for k :: nat by auto
  ultimately show ?thesis using b four by (auto simp: continuation_def)
qed

text \<open>
  A rune below 128 occurs in the decoded string exactly when that byte occurs in the string: no
  multi-byte sequence hides an ASCII character, and none is made of one.
\<close>

lemma set_take_drop: "set (take n xs) \<union> set (drop n xs) = set xs"
  by (metis append_take_drop_id set_append)

lemma head_rune_high:
  assumes "head_rune s = Some (r, n)" "n \<noteq> 1" "x \<in> set (take n s)"
  shows "128 \<le> byte x"
proof -
  from head_rune_len [OF assms(1)] have n: "1 \<le> n" "n \<le> length s" by auto
  obtain k where k: "k < n" "x = s ! k"
    using assms(3) n(2) by (auto simp: in_set_conv_nth)
  from head_rune_bytes [OF assms(1)] assms(2)
  have "128 \<le> byte (hd s)" "\<forall>k. 0 < k \<and> k < n \<longrightarrow> continuation (byte (s ! k))"
    by auto
  moreover have "s \<noteq> []" using n by auto
  ultimately show ?thesis using k
    by (cases "k = 0") (auto simp: hd_conv_nth continuation_def)
qed

lemma ascii_rune_iff: "r < 128 \<Longrightarrow> r \<in> set (runes s) \<longleftrightarrow> r \<in> byte ` set s"
proof (induction s rule: runes.induct)
  case 1
  then show ?case by simp
next
  case (2 c cs)
  show ?case
  proof (cases "head_rune (c # cs)")
    case None
    then have "\<not> byte c < 128" using head_rune_ascii [of c cs] by auto
    with None 2 show ?thesis by (auto simp: decodeRune_def RuneError_def)
  next
    case (Some rn)
    then obtain q n where q: "head_rune (c # cs) = Some (q, n)" by (cases rn) auto
    from head_rune_len [OF q] have n1: "1 \<le> n" by simp
    show ?thesis
    proof (cases "n = 1")
      case True
      then have "q = byte c" using head_rune_bytes [OF q] by auto
      with True q 2 show ?thesis by (auto simp: decodeRune_def)
    next
      case False
      then have q128: "128 \<le> q" using head_rune_bytes [OF q] by auto
      have take: "take n (c # cs) = c # take (n - 1) cs" using n1 by (cases n) auto
      have "x \<in> set (c # take (n - 1) cs) \<Longrightarrow> 128 \<le> byte x" for x
        using head_rune_high [OF q False] take by metis
      then have "r \<in> byte ` set (c # cs) \<longleftrightarrow> r \<in> byte ` set (drop (n - 1) cs)"
        using 2(2) set_take_drop [of "n - 1" cs] by (auto dest: leD)
      moreover have "r \<noteq> q" using q128 2(2) by simp
      ultimately show ?thesis using 2 q by (simp add: decodeRune_def)
    qed
  qed
qed

lemma high_rune_iff: "(\<exists>r \<in> set (runes s). 128 \<le> r) \<longleftrightarrow> (\<exists>c \<in> set s. 128 \<le> byte c)"
proof (induction s rule: runes.induct)
  case 1
  then show ?case by simp
next
  case (2 c cs)
  show ?case
  proof (cases "128 \<le> byte c")
    case True
    then have "128 \<le> fst (decodeRune (c # cs))"
      by (auto simp: decodeRune_def RuneError_def split: option.split dest!: head_rune_bytes)
    with True show ?thesis by auto
  next
    case False
    then have "decodeRune (c # cs) = (byte c, 1)"
      by (simp add: decodeRune_def head_rune_ascii)
    with False 2 show ?thesis by simp
  qed
qed

definition ascii :: "string \<Rightarrow> bool" where
  "ascii s \<longleftrightarrow> (\<forall>c \<in> set s. byte c < 128)"

lemma runes_ascii: "ascii s \<Longrightarrow> runes s = List.map byte s"
  by (induction s) (auto simp: ascii_def decodeRune_def head_rune_ascii)

text \<open>A check of every rune that only ASCII passes is a check of every byte.\<close>

lemma runes_all_iff:
  assumes "\<And>r. P r \<Longrightarrow> r < 128"
  shows "(\<forall>r \<in> set (runes s). P r) \<longleftrightarrow> (\<forall>c \<in> set s. P (byte c))"
proof
  assume all: "\<forall>r \<in> set (runes s). P r"
  then have "\<not> (\<exists>r \<in> set (runes s). 128 \<le> r)" using assms by fastforce
  then have "\<forall>c \<in> set s. byte c < 128" using high_rune_iff [of s] by force
  then show "\<forall>c \<in> set s. P (byte c)" using all ascii_rune_iff [of _ s] by fastforce
next
  assume all: "\<forall>c \<in> set s. P (byte c)"
  then have "ascii s" using assms by (auto simp: ascii_def)
  with all show "\<forall>r \<in> set (runes s). P r" by (simp add: runes_ascii)
qed

subsection \<open>Sanitising and truncating\<close>

lemma ValidString_head:
  "head_rune s = Some (r, n) \<Longrightarrow> ValidString s \<longleftrightarrow> ValidString (drop n s)"
proof -
  assume h: "head_rune s = Some (r, n)"
  then obtain c cs where s: "s = c # cs" by (cases s) auto
  with head_rune_len [OF h] h show ?thesis by (cases n) auto
qed

lemma ValidString_append: "head_rune s = Some (r, n) \<Longrightarrow> ValidString t \<Longrightarrow> ValidString (take n s @ t)"
  using ValidString_head [OF head_rune_append [of s r n t]] head_rune_len [of s r n] by auto

lemma ValidString_ToValidUTF8: "ValidString (ToValidUTF8 s)"
proof (induction s rule: ToValidUTF8.induct)
  case 1
  then show ?case by simp
next
  case (2 c cs)
  show ?case
  proof (cases "head_rune (c # cs)")
    case None
    with 2 show ?thesis by simp
  next
    case (Some rn)
    then obtain r n where h: "head_rune (c # cs) = Some (r, n)" by (cases rn) auto
    with 2 Some have "ValidString (ToValidUTF8 (drop (n - 1) cs))" by auto
    from ValidString_append [OF h this] h show ?thesis by simp
  qed
qed

lemma ToValidUTF8_valid: "ValidString s \<Longrightarrow> ToValidUTF8 s = s"
proof (induction s rule: ToValidUTF8.induct)
  case 1
  then show ?case by simp
next
  case (2 c cs)
  then obtain r n where h: "head_rune (c # cs) = Some (r, n)" by (auto split: option.splits)
  from head_rune_len [OF h] obtain m where n: "n = Suc m" by (cases n) auto
  from 2 h n show ?case by auto
qed

text \<open>Cutting a valid string before a byte that starts a rune leaves a valid string.\<close>

lemma ValidString_take:
  "ValidString s \<Longrightarrow> e < length s \<Longrightarrow> RuneStart (s ! e) \<Longrightarrow> ValidString (take e s)"
proof (induction s arbitrary: e rule: ValidString.induct)
  case 1
  then show ?case by simp
next
  case (2 c cs)
  then obtain r n where h: "head_rune (c # cs) = Some (r, n)" by (auto split: option.splits)
  from head_rune_len [OF h] have n: "1 \<le> n" "n \<le> length (c # cs)" by auto
  then have dr: "drop (n - 1) cs = drop n (c # cs)" by (cases n) auto
  show ?case
  proof (cases "e < n")
    case True
    then have "0 < e \<Longrightarrow> continuation (byte ((c # cs) ! e))"
      using head_rune_bytes [OF h] by (cases "n = 1") auto
    moreover have "\<not> continuation (byte ((c # cs) ! e))" using 2(4) by (simp add: RuneStart_def)
    ultimately have "e = 0" by blast
    then show ?thesis by simp
  next
    case False
    define k where "k = e - n"
    with False have e: "e = n + k" by simp
    have "ValidString (drop (n - 1) cs)" using 2(2) h by simp
    moreover have "k < length (drop (n - 1) cs)" "RuneStart (drop (n - 1) cs ! k)"
      using 2(3,4) n e by (auto simp: dr)
    ultimately have "ValidString (take k (drop (n - 1) cs))" using 2(1) h by blast
    from ValidString_append [OF h this] show ?thesis
      by (simp only: e dr take_add)
  qed
qed

section \<open>White space\<close>

text \<open>\<open>unicode.IsSpace\<close>\<close>

definition IsSpace :: "nat \<Rightarrow> bool" where
  "IsSpace r \<longleftrightarrow> r \<in> {9, 10, 11, 12, 13, 32, 133, 160, 5760, 8232, 8233, 8239, 8287, 12288}
     \<or> 8192 \<le> r \<and> r \<le> 8202"

text \<open>
  \<open>utf8.DecodeLastRuneInString\<close>: the last byte that starts a rune, at most four bytes from the
  end, must open an encoding that reaches exactly to the end.
\<close>

definition decodeLastRune :: "string \<Rightarrow> nat \<times> nat" where
  "decodeLastRune s =
     (if s = [] then (RuneError, 0)
      else if byte (last s) < 128 then (byte (last s), 1)
      else (case find (\<lambda>k. k \<le> length s \<and> RuneStart (s ! (length s - k))) [2, 3, 4] of
              None \<Rightarrow> (RuneError, 1)
            | Some k \<Rightarrow>
                (let (r, n) = decodeRune (drop (length s - k) s)
                 in if n = k then (r, n) else (RuneError, 1))))"

text \<open>\<open>strings.TrimSpace\<close> cuts leading, then trailing white space.\<close>

fun trimLeft :: "string \<Rightarrow> string" where
  "trimLeft [] = []"
| "trimLeft (c # cs) =
     (case decodeRune (c # cs) of (r, n) \<Rightarrow>
        if IsSpace r then trimLeft (drop (n - 1) cs) else c # cs)"

lemma decodeLastRune_len: "s \<noteq> [] \<Longrightarrow> 1 \<le> snd (decodeLastRune s)"
  by (auto simp: decodeLastRune_def Let_def split: option.split prod.split dest!: find_Some_conv
      simp del: find.simps)

function trimRight :: "string \<Rightarrow> string" where
  "trimRight s =
     (if s \<noteq> [] \<and> IsSpace (fst (decodeLastRune s))
      then trimRight (take (length s - snd (decodeLastRune s)) s) else s)"
  by pat_completeness auto
termination
proof (relation "measure length", goal_cases)
  case 1
  then show ?case by simp
next
  case (2 s)
  then have "1 \<le> snd (decodeLastRune s)" "length s > 0" using decodeLastRune_len by auto
  then show ?case by simp
qed

declare trimRight.simps [simp del]

definition TrimSpace :: "string \<Rightarrow> string" where
  "TrimSpace s = trimRight (trimLeft s)"

text \<open>\<open>containsWhitespace\<close> of the code: some rune is white space.\<close>

definition has_space :: "string \<Rightarrow> bool" where
  "has_space s \<longleftrightarrow> (\<exists>r \<in> set (runes s). IsSpace r)"

lemma trimRight_Nil [simp]: "trimRight [] = []"
  by (simp add: trimRight.simps)

lemma trimRight_prefix: "\<exists>k. trimRight s = take k s"
proof (induction s rule: trimRight.induct)
  case (1 s)
  show ?case
  proof (cases "s \<noteq> [] \<and> IsSpace (fst (decodeLastRune s))")
    case True
    then obtain k where "trimRight (take (length s - snd (decodeLastRune s)) s)
        = take k (take (length s - snd (decodeLastRune s)) s)" using 1 by blast
    with True show ?thesis
      by (subst trimRight.simps) (auto intro: exI [of _ "min k (length s - snd (decodeLastRune s))"])
  next
    case False
    then show ?thesis by (subst trimRight.simps) (auto intro: exI [of _ "length s"])
  qed
qed

lemma trimRight_idem: "trimRight (trimRight s) = trimRight s"
proof (induction s rule: trimRight.induct)
  case (1 s)
  show ?case
  proof (cases "s \<noteq> [] \<and> IsSpace (fst (decodeLastRune s))")
    case True
    with 1 show ?thesis by (simp add: trimRight.simps [of s])
  next
    case False
    then have "trimRight s = s" by (subst trimRight.simps) (simp only: if_False)
    then show ?thesis by simp
  qed
qed

lemma not_space_RuneError [simp]: "\<not> IsSpace RuneError"
  by (simp add: IsSpace_def RuneError_def)

lemma trimLeft_fix: "\<not> IsSpace (fst (decodeRune s)) \<Longrightarrow> trimLeft s = s"
  by (cases s) (auto split: prod.split)

lemma trimLeft_starts: "trimLeft s = [] \<or> \<not> IsSpace (fst (decodeRune (trimLeft s)))"
  by (induction s rule: trimLeft.induct) (auto split: prod.split)

lemma decodeRune_take:
  assumes "\<not> IsSpace (fst (decodeRune s))"
  shows "\<not> IsSpace (fst (decodeRune (take k s)))"
proof (cases "head_rune (take k s)")
  case None
  then show ?thesis by (simp add: decodeRune_def)
next
  case (Some rn)
  moreover from head_rune_take [OF Some] have "head_rune s = Some rn" .
  moreover from Some have "take k s \<noteq> []" by (metis head_rune_Nil option.distinct(1))
  moreover from this have "s \<noteq> []" by auto
  ultimately show ?thesis using assms by (simp add: decodeRune_def)
qed

lemma TrimSpace_idem [simp]: "TrimSpace (TrimSpace s) = TrimSpace s"
proof -
  obtain k where k: "trimRight (trimLeft s) = take k (trimLeft s)"
    using trimRight_prefix by blast
  have "trimLeft (take k (trimLeft s)) = take k (trimLeft s)"
    using trimLeft_starts [of s] decodeRune_take by (metis take_Nil trimLeft.simps(1) trimLeft_fix)
  then show ?thesis by (metis TrimSpace_def k trimRight_idem)
qed

lemma TrimSpace_Nil [simp]: "TrimSpace [] = []"
  by (simp add: TrimSpace_def)

text \<open>An ASCII string without white space is left as it is.\<close>

lemma TrimSpace_ascii:
  assumes "ascii s" "\<not> has_space s"
  shows "TrimSpace s = s"
proof (cases "s = []")
  case False
  have ns: "\<forall>c \<in> set s. \<not> IsSpace (byte c)"
    using assms by (simp add: has_space_def runes_ascii)
  have "decodeRune s = (byte (hd s), 1)"
    using False assms(1) by (cases s) (auto simp: decodeRune_def head_rune_ascii ascii_def)
  then have "trimLeft s = s" using ns False by (intro trimLeft_fix) auto
  moreover have "decodeLastRune s = (byte (last s), 1)"
    using False assms(1) by (simp add: decodeLastRune_def ascii_def)
  then have "trimRight s = s" using ns False by (subst trimRight.simps) auto
  ultimately show ?thesis by (simp add: TrimSpace_def)
qed simp

section \<open>Searching, splitting and case\<close>

text \<open>\<open>strings.Split\<close> at one byte.\<close>

fun split_at :: "char \<Rightarrow> string \<Rightarrow> string list" where
  "split_at d [] = [[]]"
| "split_at d (c # cs) =
     (if c = d then [] # split_at d cs
      else (case split_at d cs of [] \<Rightarrow> [[c]] | w # ws \<Rightarrow> (c # w) # ws))"

lemma split_at_nonempty [simp]: "split_at d s \<noteq> []"
  by (cases s) (auto split: list.split)

lemma split_at_absent: "d \<notin> set s \<Longrightarrow> split_at d s = [s]"
  by (induction s) auto

lemma split_at_append: "d \<notin> set s \<Longrightarrow> split_at d (s @ d # t) = s # split_at d t"
  by (induction s) auto

lemma split_at_pieces: "w \<in> set (split_at d s) \<Longrightarrow> d \<notin> set w \<and> set w \<subseteq> set s"
proof (induction s arbitrary: w)
  case Nil
  then show ?case by simp
next
  case (Cons c s)
  then show ?case
    by (cases "split_at d s") (fastforce split: if_splits)+
qed

text \<open>A string splits into two pieces exactly when the separator occurs once.\<close>

lemma split_at_two: "split_at d s = [a, b] \<longleftrightarrow> s = a @ d # b \<and> d \<notin> set a \<and> d \<notin> set b"
proof
  assume "split_at d s = [a, b]"
  then show "s = a @ d # b \<and> d \<notin> set a \<and> d \<notin> set b"
  proof (induction s arbitrary: a b)
    case Nil
    then show ?case by simp
  next
    case (Cons c s)
    show ?case
    proof (cases "c = d")
      case True
      with Cons.prems have "a = []" "split_at d s = [b]" by auto
      moreover from this(2) have "d \<notin> set b \<and> s = b"
      proof (induction s arbitrary: b)
        case Nil
        then show ?case by simp
      next
        case (Cons x s)
        then show ?case by (cases "split_at d s") (auto split: if_splits)
      qed
      ultimately show ?thesis using True by simp
    next
      case False
      with Cons.prems obtain w where "split_at d s = [w, b]" "a = c # w"
        by (auto split: list.splits)
      with Cons.IH False show ?thesis by auto
    qed
  qed
qed (auto simp: split_at_append split_at_absent)

text \<open>\<open>strings.ToLower\<close> on an ASCII string.\<close>

definition lower_char :: "char \<Rightarrow> char" where
  "lower_char c = (if is_upper c then char_of (byte c + 32) else c)"

definition ToLower :: "string \<Rightarrow> string" where
  "ToLower s = List.map lower_char s"

lemma byte_lower: "byte (lower_char c) = (if is_upper c then byte c + 32 else byte c)"
  by (auto simp: lower_char_def char_between_def)

lemma lower_char_idem [simp]: "lower_char (lower_char c) = lower_char c"
  by (auto simp: lower_char_def char_between_def)

lemma ToLower_idem [simp]: "ToLower (ToLower s) = ToLower s"
  by (simp add: ToLower_def)

lemma length_ToLower [simp]: "length (ToLower s) = length s"
  by (simp add: ToLower_def)

lemma ToLower_Nil_iff [simp]: "ToLower s = [] \<longleftrightarrow> s = []"
  by (simp add: ToLower_def)

lemma ToLower_append [simp]: "ToLower (s @ t) = ToLower s @ ToLower t"
  by (simp add: ToLower_def)

lemma ascii_ToLower [simp]: "ascii (ToLower s) \<longleftrightarrow> ascii s"
  by (auto simp: ascii_def ToLower_def byte_lower char_between_def)

text \<open>Whether a byte occurs in a string: \<open>strings.ContainsAny\<close> and \<open>ContainsRune\<close> for ASCII sets.\<close>

definition ContainsAny :: "string \<Rightarrow> string \<Rightarrow> bool" where
  "ContainsAny s chars \<longleftrightarrow> (\<exists>c \<in> set s. c \<in> set chars)"

definition HasPrefix :: "string \<Rightarrow> string \<Rightarrow> bool" where
  "HasPrefix s p \<longleftrightarrow> take (length p) s = p"

definition HasSuffix :: "string \<Rightarrow> string \<Rightarrow> bool" where
  "HasSuffix s p \<longleftrightarrow> length p \<le> length s \<and> drop (length s - length p) s = p"

fun Contains :: "string \<Rightarrow> string \<Rightarrow> bool" where
  "Contains [] p = (p = [])"
| "Contains (c # cs) p = (HasPrefix (c # cs) p \<or> Contains cs p)"

lemma Contains_iff: "Contains s p \<longleftrightarrow> (\<exists>a b. s = a @ p @ b)"
proof
  show "Contains s p \<Longrightarrow> \<exists>a b. s = a @ p @ b"
  proof (induction s)
    case Nil
    then show ?case by simp
  next
    case (Cons c s)
    show ?case
    proof (cases "HasPrefix (c # s) p")
      case True
      then have "c # s = [] @ p @ drop (length p) (c # s)"
        unfolding HasPrefix_def by (metis append.left_neutral append_take_drop_id)
      then show ?thesis by blast
    next
      case False
      with Cons obtain a b where "s = a @ p @ b" by auto
      then have "c # s = (c # a) @ p @ b" by simp
      then show ?thesis by blast
    qed
  qed
next
  assume "\<exists>a b. s = a @ p @ b"
  then obtain a b where "s = a @ p @ b" by blast
  then show "Contains s p"
  proof (induction a arbitrary: s)
    case Nil
    then have "HasPrefix s p" by (simp add: HasPrefix_def)
    then show ?case by (cases s) (auto simp: HasPrefix_def)
  next
    case (Cons c a)
    then show ?case by simp
  qed
qed

section \<open>Decimal numbers\<close>

text \<open>\<open>%d\<close> of \<open>fmt\<close> on an \<open>int\<close>.\<close>

definition digit_of :: "nat \<Rightarrow> char" where
  "digit_of n = char_of (48 + n mod 10)"

fun decimal :: "nat \<Rightarrow> string" where
  "decimal n = (if n < 10 then [digit_of n] else decimal (n div 10) @ [digit_of n])"

declare decimal.simps [simp del]

definition Itoa :: "int \<Rightarrow> string" where
  "Itoa i = (if i < 0 then CHR ''-'' # decimal (nat (- i)) else decimal (nat i))"

lemma byte_digit_of: "byte (digit_of n) = 48 + n mod 10"
  by (simp add: digit_of_def of_char_of)

lemma decimal_digits: "c \<in> set (decimal n) \<Longrightarrow> is_digit c"
proof (induction n rule: decimal.induct)
  case (1 n)
  then show ?case
    by (auto simp: decimal.simps [of n] char_between_def byte_digit_of split: if_splits)
qed

lemma decimal_nonempty [simp]: "decimal n \<noteq> []"
  by (subst decimal.simps) simp

text \<open>The number a string of digits stands for, and that printing is its inverse.\<close>

definition digits_value :: "string \<Rightarrow> nat" where
  "digits_value s = foldl (\<lambda>v c. v * 10 + (byte c - 48)) 0 s"

lemma digits_value_snoc [simp]: "digits_value (s @ [c]) = digits_value s * 10 + (byte c - 48)"
  by (simp add: digits_value_def)

lemma digits_value_decimal [simp]: "digits_value (decimal n) = n"
proof (induction n rule: decimal.induct)
  case (1 n)
  show ?case
  proof (cases "n < 10")
    case True
    then show ?thesis
      by (simp add: decimal.simps [of n] digits_value_def byte_digit_of)
  next
    case False
    then show ?thesis using 1 by (simp add: decimal.simps [of n] byte_digit_of)
  qed
qed

lemma decimal_inject [simp]: "decimal m = decimal n \<longleftrightarrow> m = n"
  by (metis digits_value_decimal)

end
