(* ===== verification/Domain.thy ===== *)
theory Domain
  imports GoStrings
begin

text \<open>
  The data model of \<open>internal/domain/types.go\<close> and \<open>constants.go\<close>, with the errors of the whole
  program. A Go enum is a string type with named constants: here a datatype with one constructor
  per constant and a last constructor \<open>\<dots>Text\<close> for any other string. \<open>\<dots>_of\<close> reads a string and
  \<open>text_of_\<dots>\<close> gives it back; the zero value of such a type is the text of the empty string.
\<close>

section \<open>Enums\<close>

datatype MessageStatus =
    MessageStatusQueued
  | MessageStatusSending
  | MessageStatusRetrying
  | MessageStatusSent
  | MessageStatusFailed
  | MessageStatusDelivered
  | MessageStatusBounced
  | MessageStatusComplained
  | MessageStatusText string

definition MessageStatus_of :: "string \<Rightarrow> MessageStatus" where
  "MessageStatus_of s =
     (if s = ''queued'' then MessageStatusQueued
      else if s = ''sending'' then MessageStatusSending
      else if s = ''retrying'' then MessageStatusRetrying
      else if s = ''sent'' then MessageStatusSent
      else if s = ''failed'' then MessageStatusFailed
      else if s = ''delivered'' then MessageStatusDelivered
      else if s = ''bounced'' then MessageStatusBounced
      else if s = ''complained'' then MessageStatusComplained
      else MessageStatusText s)"

fun text_of_MessageStatus :: "MessageStatus \<Rightarrow> string" where
  "text_of_MessageStatus MessageStatusQueued = ''queued''"
| "text_of_MessageStatus MessageStatusSending = ''sending''"
| "text_of_MessageStatus MessageStatusRetrying = ''retrying''"
| "text_of_MessageStatus MessageStatusSent = ''sent''"
| "text_of_MessageStatus MessageStatusFailed = ''failed''"
| "text_of_MessageStatus MessageStatusDelivered = ''delivered''"
| "text_of_MessageStatus MessageStatusBounced = ''bounced''"
| "text_of_MessageStatus MessageStatusComplained = ''complained''"
| "text_of_MessageStatus (MessageStatusText s) = s"

fun MessageStatus_IsValid :: "MessageStatus \<Rightarrow> bool" where
  "MessageStatus_IsValid MessageStatusQueued = True"
| "MessageStatus_IsValid MessageStatusSending = True"
| "MessageStatus_IsValid MessageStatusRetrying = True"
| "MessageStatus_IsValid MessageStatusSent = True"
| "MessageStatus_IsValid MessageStatusFailed = True"
| "MessageStatus_IsValid MessageStatusDelivered = True"
| "MessageStatus_IsValid MessageStatusBounced = True"
| "MessageStatus_IsValid MessageStatusComplained = True"
| "MessageStatus_IsValid _ = False"

lemma text_of_MessageStatus_of [simp]: "text_of_MessageStatus (MessageStatus_of s) = s"
  by (simp add: MessageStatus_of_def)

lemma MessageStatus_of_text [simp]: "MessageStatus_IsValid x \<Longrightarrow> MessageStatus_of (text_of_MessageStatus x) = x"
  by (cases x) (simp_all add: MessageStatus_of_def)

datatype AttemptStatus =
    AttemptStatusSending
  | AttemptStatusSent
  | AttemptStatusFailed
  | AttemptStatusText string

definition AttemptStatus_of :: "string \<Rightarrow> AttemptStatus" where
  "AttemptStatus_of s =
     (if s = ''sending'' then AttemptStatusSending
      else if s = ''sent'' then AttemptStatusSent
      else if s = ''failed'' then AttemptStatusFailed
      else AttemptStatusText s)"

fun text_of_AttemptStatus :: "AttemptStatus \<Rightarrow> string" where
  "text_of_AttemptStatus AttemptStatusSending = ''sending''"
| "text_of_AttemptStatus AttemptStatusSent = ''sent''"
| "text_of_AttemptStatus AttemptStatusFailed = ''failed''"
| "text_of_AttemptStatus (AttemptStatusText s) = s"

fun AttemptStatus_IsValid :: "AttemptStatus \<Rightarrow> bool" where
  "AttemptStatus_IsValid AttemptStatusSending = True"
| "AttemptStatus_IsValid AttemptStatusSent = True"
| "AttemptStatus_IsValid AttemptStatusFailed = True"
| "AttemptStatus_IsValid _ = False"

lemma text_of_AttemptStatus_of [simp]: "text_of_AttemptStatus (AttemptStatus_of s) = s"
  by (simp add: AttemptStatus_of_def)

lemma AttemptStatus_of_text [simp]: "AttemptStatus_IsValid x \<Longrightarrow> AttemptStatus_of (text_of_AttemptStatus x) = x"
  by (cases x) (simp_all add: AttemptStatus_of_def)

datatype FailureClass =
    FailureClassNone
  | FailureClassTemporary
  | FailureClassChannel
  | FailureClassMessagePermanent
  | FailureClassText string

definition FailureClass_of :: "string \<Rightarrow> FailureClass" where
  "FailureClass_of s =
     (if s = [] then FailureClassNone
      else if s = ''temporary_failure'' then FailureClassTemporary
      else if s = ''channel_failure'' then FailureClassChannel
      else if s = ''message_permanent_failure'' then FailureClassMessagePermanent
      else FailureClassText s)"

fun text_of_FailureClass :: "FailureClass \<Rightarrow> string" where
  "text_of_FailureClass FailureClassNone = []"
| "text_of_FailureClass FailureClassTemporary = ''temporary_failure''"
| "text_of_FailureClass FailureClassChannel = ''channel_failure''"
| "text_of_FailureClass FailureClassMessagePermanent = ''message_permanent_failure''"
| "text_of_FailureClass (FailureClassText s) = s"

fun FailureClass_IsValid :: "FailureClass \<Rightarrow> bool" where
  "FailureClass_IsValid FailureClassNone = True"
| "FailureClass_IsValid FailureClassTemporary = True"
| "FailureClass_IsValid FailureClassChannel = True"
| "FailureClass_IsValid FailureClassMessagePermanent = True"
| "FailureClass_IsValid _ = False"

lemma text_of_FailureClass_of [simp]: "text_of_FailureClass (FailureClass_of s) = s"
  by (simp add: FailureClass_of_def)

lemma FailureClass_of_text [simp]: "FailureClass_IsValid x \<Longrightarrow> FailureClass_of (text_of_FailureClass x) = x"
  by (cases x) (simp_all add: FailureClass_of_def)

datatype ProviderEventType =
    ProviderEventDelivered
  | ProviderEventBounced
  | ProviderEventComplained
  | ProviderEventTypeText string

definition ProviderEventType_of :: "string \<Rightarrow> ProviderEventType" where
  "ProviderEventType_of s =
     (if s = ''delivered'' then ProviderEventDelivered
      else if s = ''bounced'' then ProviderEventBounced
      else if s = ''complained'' then ProviderEventComplained
      else ProviderEventTypeText s)"

fun text_of_ProviderEventType :: "ProviderEventType \<Rightarrow> string" where
  "text_of_ProviderEventType ProviderEventDelivered = ''delivered''"
| "text_of_ProviderEventType ProviderEventBounced = ''bounced''"
| "text_of_ProviderEventType ProviderEventComplained = ''complained''"
| "text_of_ProviderEventType (ProviderEventTypeText s) = s"

fun ProviderEventType_IsValid :: "ProviderEventType \<Rightarrow> bool" where
  "ProviderEventType_IsValid ProviderEventDelivered = True"
| "ProviderEventType_IsValid ProviderEventBounced = True"
| "ProviderEventType_IsValid ProviderEventComplained = True"
| "ProviderEventType_IsValid _ = False"

lemma text_of_ProviderEventType_of [simp]: "text_of_ProviderEventType (ProviderEventType_of s) = s"
  by (simp add: ProviderEventType_of_def)

lemma ProviderEventType_of_text [simp]: "ProviderEventType_IsValid x \<Longrightarrow> ProviderEventType_of (text_of_ProviderEventType x) = x"
  by (cases x) (simp_all add: ProviderEventType_of_def)

datatype Provider =
    ProviderMock
  | ProviderResend
  | ProviderBrevo
  | ProviderText string

definition Provider_of :: "string \<Rightarrow> Provider" where
  "Provider_of s =
     (if s = ''mock'' then ProviderMock
      else if s = ''resend'' then ProviderResend
      else if s = ''brevo'' then ProviderBrevo
      else ProviderText s)"

fun text_of_Provider :: "Provider \<Rightarrow> string" where
  "text_of_Provider ProviderMock = ''mock''"
| "text_of_Provider ProviderResend = ''resend''"
| "text_of_Provider ProviderBrevo = ''brevo''"
| "text_of_Provider (ProviderText s) = s"

fun Provider_IsValid :: "Provider \<Rightarrow> bool" where
  "Provider_IsValid ProviderMock = True"
| "Provider_IsValid ProviderResend = True"
| "Provider_IsValid ProviderBrevo = True"
| "Provider_IsValid _ = False"

lemma text_of_Provider_of [simp]: "text_of_Provider (Provider_of s) = s"
  by (simp add: Provider_of_def)

lemma Provider_of_text [simp]: "Provider_IsValid x \<Longrightarrow> Provider_of (text_of_Provider x) = x"
  by (cases x) (simp_all add: Provider_of_def)

datatype Transport =
    TransportAPI
  | TransportSMTP
  | TransportText string

definition Transport_of :: "string \<Rightarrow> Transport" where
  "Transport_of s =
     (if s = ''api'' then TransportAPI
      else if s = ''smtp'' then TransportSMTP
      else TransportText s)"

fun text_of_Transport :: "Transport \<Rightarrow> string" where
  "text_of_Transport TransportAPI = ''api''"
| "text_of_Transport TransportSMTP = ''smtp''"
| "text_of_Transport (TransportText s) = s"

fun Transport_IsValid :: "Transport \<Rightarrow> bool" where
  "Transport_IsValid TransportAPI = True"
| "Transport_IsValid TransportSMTP = True"
| "Transport_IsValid _ = False"

lemma text_of_Transport_of [simp]: "text_of_Transport (Transport_of s) = s"
  by (simp add: Transport_of_def)

lemma Transport_of_text [simp]: "Transport_IsValid x \<Longrightarrow> Transport_of (text_of_Transport x) = x"
  by (cases x) (simp_all add: Transport_of_def)

datatype ErrorCode =
    ErrorCodeUnauthorized
  | ErrorCodeAppDisabled
  | ErrorCodeSceneNotFound
  | ErrorCodeSceneDisabled
  | ErrorCodeMessageNotFound
  | ErrorCodeWebhookDisabled
  | ErrorCodeMissingIdempotencyKey
  | ErrorCodeInvalidIdempotencyKey
  | ErrorCodeRequestTooLarge
  | ErrorCodeUnsupportedMediaType
  | ErrorCodeInvalidJSON
  | ErrorCodeInvalidQuery
  | ErrorCodeInvalidRecipient
  | ErrorCodeInvalidContext
  | ErrorCodeInvalidLocale
  | ErrorCodeInvalidTemplateVars
  | ErrorCodeMissingTemplateVar
  | ErrorCodeTemplateLocaleNotFound
  | ErrorCodeTemplateRenderFailed
  | ErrorCodeRateLimited
  | ErrorCodeSuppressedRecipient
  | ErrorCodeIdempotencyConflict
  | ErrorCodeRouteNotFound
  | ErrorCodeProviderUnavailable
  | ErrorCodeQueueFull
  | ErrorCodeInternal
  | ErrorCodeText string

definition ErrorCode_of :: "string \<Rightarrow> ErrorCode" where
  "ErrorCode_of s =
     (if s = ''unauthorized'' then ErrorCodeUnauthorized
      else if s = ''app_disabled'' then ErrorCodeAppDisabled
      else if s = ''scene_not_found'' then ErrorCodeSceneNotFound
      else if s = ''scene_disabled'' then ErrorCodeSceneDisabled
      else if s = ''message_not_found'' then ErrorCodeMessageNotFound
      else if s = ''webhook_disabled'' then ErrorCodeWebhookDisabled
      else if s = ''missing_idempotency_key'' then ErrorCodeMissingIdempotencyKey
      else if s = ''invalid_idempotency_key'' then ErrorCodeInvalidIdempotencyKey
      else if s = ''request_too_large'' then ErrorCodeRequestTooLarge
      else if s = ''unsupported_media_type'' then ErrorCodeUnsupportedMediaType
      else if s = ''invalid_json'' then ErrorCodeInvalidJSON
      else if s = ''invalid_query'' then ErrorCodeInvalidQuery
      else if s = ''invalid_recipient'' then ErrorCodeInvalidRecipient
      else if s = ''invalid_context'' then ErrorCodeInvalidContext
      else if s = ''invalid_locale'' then ErrorCodeInvalidLocale
      else if s = ''invalid_template_vars'' then ErrorCodeInvalidTemplateVars
      else if s = ''missing_template_var'' then ErrorCodeMissingTemplateVar
      else if s = ''template_locale_not_found'' then ErrorCodeTemplateLocaleNotFound
      else if s = ''template_render_failed'' then ErrorCodeTemplateRenderFailed
      else if s = ''rate_limited'' then ErrorCodeRateLimited
      else if s = ''suppressed_recipient'' then ErrorCodeSuppressedRecipient
      else if s = ''idempotency_conflict'' then ErrorCodeIdempotencyConflict
      else if s = ''route_not_found'' then ErrorCodeRouteNotFound
      else if s = ''provider_unavailable'' then ErrorCodeProviderUnavailable
      else if s = ''queue_full'' then ErrorCodeQueueFull
      else if s = ''internal_error'' then ErrorCodeInternal
      else ErrorCodeText s)"

fun text_of_ErrorCode :: "ErrorCode \<Rightarrow> string" where
  "text_of_ErrorCode ErrorCodeUnauthorized = ''unauthorized''"
| "text_of_ErrorCode ErrorCodeAppDisabled = ''app_disabled''"
| "text_of_ErrorCode ErrorCodeSceneNotFound = ''scene_not_found''"
| "text_of_ErrorCode ErrorCodeSceneDisabled = ''scene_disabled''"
| "text_of_ErrorCode ErrorCodeMessageNotFound = ''message_not_found''"
| "text_of_ErrorCode ErrorCodeWebhookDisabled = ''webhook_disabled''"
| "text_of_ErrorCode ErrorCodeMissingIdempotencyKey = ''missing_idempotency_key''"
| "text_of_ErrorCode ErrorCodeInvalidIdempotencyKey = ''invalid_idempotency_key''"
| "text_of_ErrorCode ErrorCodeRequestTooLarge = ''request_too_large''"
| "text_of_ErrorCode ErrorCodeUnsupportedMediaType = ''unsupported_media_type''"
| "text_of_ErrorCode ErrorCodeInvalidJSON = ''invalid_json''"
| "text_of_ErrorCode ErrorCodeInvalidQuery = ''invalid_query''"
| "text_of_ErrorCode ErrorCodeInvalidRecipient = ''invalid_recipient''"
| "text_of_ErrorCode ErrorCodeInvalidContext = ''invalid_context''"
| "text_of_ErrorCode ErrorCodeInvalidLocale = ''invalid_locale''"
| "text_of_ErrorCode ErrorCodeInvalidTemplateVars = ''invalid_template_vars''"
| "text_of_ErrorCode ErrorCodeMissingTemplateVar = ''missing_template_var''"
| "text_of_ErrorCode ErrorCodeTemplateLocaleNotFound = ''template_locale_not_found''"
| "text_of_ErrorCode ErrorCodeTemplateRenderFailed = ''template_render_failed''"
| "text_of_ErrorCode ErrorCodeRateLimited = ''rate_limited''"
| "text_of_ErrorCode ErrorCodeSuppressedRecipient = ''suppressed_recipient''"
| "text_of_ErrorCode ErrorCodeIdempotencyConflict = ''idempotency_conflict''"
| "text_of_ErrorCode ErrorCodeRouteNotFound = ''route_not_found''"
| "text_of_ErrorCode ErrorCodeProviderUnavailable = ''provider_unavailable''"
| "text_of_ErrorCode ErrorCodeQueueFull = ''queue_full''"
| "text_of_ErrorCode ErrorCodeInternal = ''internal_error''"
| "text_of_ErrorCode (ErrorCodeText s) = s"

fun ErrorCode_IsValid :: "ErrorCode \<Rightarrow> bool" where
  "ErrorCode_IsValid ErrorCodeUnauthorized = True"
| "ErrorCode_IsValid ErrorCodeAppDisabled = True"
| "ErrorCode_IsValid ErrorCodeSceneNotFound = True"
| "ErrorCode_IsValid ErrorCodeSceneDisabled = True"
| "ErrorCode_IsValid ErrorCodeMessageNotFound = True"
| "ErrorCode_IsValid ErrorCodeWebhookDisabled = True"
| "ErrorCode_IsValid ErrorCodeMissingIdempotencyKey = True"
| "ErrorCode_IsValid ErrorCodeInvalidIdempotencyKey = True"
| "ErrorCode_IsValid ErrorCodeRequestTooLarge = True"
| "ErrorCode_IsValid ErrorCodeUnsupportedMediaType = True"
| "ErrorCode_IsValid ErrorCodeInvalidJSON = True"
| "ErrorCode_IsValid ErrorCodeInvalidQuery = True"
| "ErrorCode_IsValid ErrorCodeInvalidRecipient = True"
| "ErrorCode_IsValid ErrorCodeInvalidContext = True"
| "ErrorCode_IsValid ErrorCodeInvalidLocale = True"
| "ErrorCode_IsValid ErrorCodeInvalidTemplateVars = True"
| "ErrorCode_IsValid ErrorCodeMissingTemplateVar = True"
| "ErrorCode_IsValid ErrorCodeTemplateLocaleNotFound = True"
| "ErrorCode_IsValid ErrorCodeTemplateRenderFailed = True"
| "ErrorCode_IsValid ErrorCodeRateLimited = True"
| "ErrorCode_IsValid ErrorCodeSuppressedRecipient = True"
| "ErrorCode_IsValid ErrorCodeIdempotencyConflict = True"
| "ErrorCode_IsValid ErrorCodeRouteNotFound = True"
| "ErrorCode_IsValid ErrorCodeProviderUnavailable = True"
| "ErrorCode_IsValid ErrorCodeQueueFull = True"
| "ErrorCode_IsValid ErrorCodeInternal = True"
| "ErrorCode_IsValid _ = False"

lemma text_of_ErrorCode_of [simp]: "text_of_ErrorCode (ErrorCode_of s) = s"
  by (simp add: ErrorCode_of_def)

lemma ErrorCode_of_text [simp]: "ErrorCode_IsValid x \<Longrightarrow> ErrorCode_of (text_of_ErrorCode x) = x"
  by (cases x) (simp_all add: ErrorCode_of_def)

datatype SuppressionReason =
    SuppressionReasonHardBounce
  | SuppressionReasonComplaint
  | SuppressionReasonManual
  | SuppressionReasonText string

definition SuppressionReason_of :: "string \<Rightarrow> SuppressionReason" where
  "SuppressionReason_of s =
     (if s = ''hard_bounce'' then SuppressionReasonHardBounce
      else if s = ''complaint'' then SuppressionReasonComplaint
      else if s = ''manual'' then SuppressionReasonManual
      else SuppressionReasonText s)"

fun text_of_SuppressionReason :: "SuppressionReason \<Rightarrow> string" where
  "text_of_SuppressionReason SuppressionReasonHardBounce = ''hard_bounce''"
| "text_of_SuppressionReason SuppressionReasonComplaint = ''complaint''"
| "text_of_SuppressionReason SuppressionReasonManual = ''manual''"
| "text_of_SuppressionReason (SuppressionReasonText s) = s"

fun SuppressionReason_IsValid :: "SuppressionReason \<Rightarrow> bool" where
  "SuppressionReason_IsValid SuppressionReasonHardBounce = True"
| "SuppressionReason_IsValid SuppressionReasonComplaint = True"
| "SuppressionReason_IsValid SuppressionReasonManual = True"
| "SuppressionReason_IsValid _ = False"

lemma text_of_SuppressionReason_of [simp]: "text_of_SuppressionReason (SuppressionReason_of s) = s"
  by (simp add: SuppressionReason_of_def)

lemma SuppressionReason_of_text [simp]: "SuppressionReason_IsValid x \<Longrightarrow> SuppressionReason_of (text_of_SuppressionReason x) = x"
  by (cases x) (simp_all add: SuppressionReason_of_def)

text \<open>The zero values.\<close>

abbreviation "NoMessageStatus \<equiv> MessageStatusText []"
abbreviation "NoAttemptStatus \<equiv> AttemptStatusText []"
abbreviation "NoProvider \<equiv> ProviderText []"
abbreviation "NoTransport \<equiv> TransportText []"
abbreviation "NoEventType \<equiv> ProviderEventTypeText []"
abbreviation "NoErrorCode \<equiv> ErrorCodeText []"
abbreviation "NoReason \<equiv> SuppressionReasonText []"

text \<open>\<open>ProviderEventType.MessageStatus\<close>\<close>

fun event_MessageStatus :: "ProviderEventType \<Rightarrow> MessageStatus" where
  "event_MessageStatus ProviderEventDelivered = MessageStatusDelivered"
| "event_MessageStatus ProviderEventBounced = MessageStatusBounced"
| "event_MessageStatus ProviderEventComplained = MessageStatusComplained"
| "event_MessageStatus _ = NoMessageStatus"

definition SupportsTransport :: "Provider \<Rightarrow> Transport \<Rightarrow> bool" where
  "SupportsTransport provider transport =
     (case provider of
        ProviderMock \<Rightarrow> transport = TransportAPI
      | ProviderResend \<Rightarrow> transport = TransportAPI \<or> transport = TransportSMTP
      | ProviderBrevo \<Rightarrow> transport = TransportAPI \<or> transport = TransportSMTP
      | _ \<Rightarrow> False)"

lemma SupportsTransport_valid:
  "SupportsTransport p t \<Longrightarrow> Provider_IsValid p \<and> Transport_IsValid t"
  by (cases p; cases t) (auto simp: SupportsTransport_def)

definition MinAPIKeyBytes :: nat where "MinAPIKeyBytes = 24"
definition MaxAPIKeyBytes :: nat where "MaxAPIKeyBytes = 128"

definition IsValidAPIKeyValue :: "string \<Rightarrow> bool" where
  "IsValidAPIKeyValue value \<longleftrightarrow>
     MinAPIKeyBytes \<le> length value \<and> length value \<le> MaxAPIKeyBytes
     \<and> (\<forall>char \<in> set (runes value). \<not> (char < 33 \<or> 126 < char))"

text \<open>The rune check of an API key is a check of its bytes.\<close>

lemma IsValidAPIKeyValue_bytes:
  "IsValidAPIKeyValue value \<longleftrightarrow>
     24 \<le> length value \<and> length value \<le> 128 \<and> (\<forall>c \<in> set value. 33 \<le> byte c \<and> byte c \<le> 126)"
proof -
  have "(\<forall>r \<in> set (runes value). \<not> (r < 33 \<or> 126 < r)) \<longleftrightarrow>
      (\<forall>c \<in> set value. \<not> (byte c < (33 :: nat) \<or> 126 < byte c))"
    by (rule runes_all_iff) simp
  then show ?thesis
    by (auto simp: IsValidAPIKeyValue_def MinAPIKeyBytes_def MaxAPIKeyBytes_def not_less)
qed

definition RoutePolicyWildcard :: string where "RoutePolicyWildcard = ''*''"

section \<open>Types\<close>

record RateLimitPolicy =
  SameEmailPerMinute :: int
  SameEmailPerDay :: int
  SameUserIPPerHour :: int
  SameCallerIPPerHour :: int

text \<open>A map from recipient domains to ordered channel codes; the code only looks keys up.\<close>

type_synonym RoutePolicy = "string \<rightharpoonup> string list"

record APIKeyMetadata =
  key_Name :: string
  key_Enabled :: bool
  key_KeyHash :: string

record Scene =
  scene_Code :: string
  scene_Name :: string
  scene_Enabled :: bool
  scene_Template :: string
  scene_RateLimit :: RateLimitPolicy
  scene_RoutePolicy :: RoutePolicy

record Template =
  tmpl_Code :: string
  tmpl_Locale :: string
  tmpl_Enabled :: bool
  tmpl_Subject :: string
  tmpl_RequiredVars :: "string list"
  tmpl_HTMLBody :: string
  tmpl_TextBody :: string

record App =
  app_Code :: string
  app_Name :: string
  app_Enabled :: bool
  app_DefaultLocale :: string
  app_AllowedLocales :: "string list"
  app_APIKeys :: "APIKeyMetadata list"
  app_Scenes :: "Scene list"
  app_Templates :: "Template list"

record ProviderAccount =
  acct_Code :: string
  acct_Provider :: Provider
  acct_Enabled :: bool
  acct_CredentialRefs :: "string \<rightharpoonup> string"

record SMTPSettings =
  smtp_Host :: string
  smtp_Port :: int
  smtp_Username :: string
  smtp_PasswordRef :: string

record ProviderChannel =
  chan_Code :: string
  chan_Account :: string
  chan_Transport :: Transport
  chan_Enabled :: bool
  chan_SenderDomain :: string
  chan_FromName :: string
  chan_From :: string
  chan_SMTP :: "SMTPSettings option"

record Message =
  msg_RequestID :: string
  msg_BusinessRequestID :: string
  msg_MessageID :: string
  msg_AppCode :: string
  msg_APIKeyName :: string
  msg_SceneCode :: string
  msg_ToEmail :: string
  msg_NormalizedToEmail :: string
  msg_ToDomain :: string
  msg_ToHash :: string
  msg_Locale :: string
  msg_Subject :: string
  msg_HTMLBody :: string
  msg_TextBody :: string
  msg_ProviderChannels :: "string list"
  msg_Status :: MessageStatus
  msg_IdempotencyHash :: string
  msg_RequestFingerprint :: string
  msg_CallerIP :: string
  msg_UserIP :: string
  msg_UserIDHash :: string
  msg_ErrorCode :: ErrorCode
  msg_ErrorMessage :: string

text \<open>The zero value \<open>domain.Message{}\<close>.\<close>

definition zero_Message :: Message where
  "zero_Message = \<lparr>msg_RequestID = [], msg_BusinessRequestID = [], msg_MessageID = [],
     msg_AppCode = [], msg_APIKeyName = [], msg_SceneCode = [], msg_ToEmail = [],
     msg_NormalizedToEmail = [], msg_ToDomain = [], msg_ToHash = [], msg_Locale = [],
     msg_Subject = [], msg_HTMLBody = [], msg_TextBody = [], msg_ProviderChannels = [],
     msg_Status = NoMessageStatus, msg_IdempotencyHash = [], msg_RequestFingerprint = [],
     msg_CallerIP = [], msg_UserIP = [], msg_UserIDHash = [], msg_ErrorCode = NoErrorCode,
     msg_ErrorMessage = []\<rparr>"

record Attempt =
  att_MessageID :: string
  att_AppCode :: string
  att_AttemptNo :: int
  att_Provider :: Provider
  att_ProviderAccountCode :: string
  att_ProviderChannelCode :: string
  att_Transport :: Transport
  att_Status :: AttemptStatus
  att_FailureClass :: FailureClass
  att_ErrorCode :: ErrorCode
  att_ErrorMessage :: string
  att_ProviderMessageID :: string
  att_DurationMS :: int

record ProviderEvent =
  ev_MessageID :: string
  ev_AppCode :: string
  ev_Provider :: Provider
  ev_ProviderAccountCode :: string
  ev_ProviderChannelCode :: string
  ev_ProviderMessageID :: string
  ev_EventType :: ProviderEventType
  ev_RecipientEmail :: string
  ev_EventPayload :: string
  ev_OccurredAt :: string

record SuppressionEntry =
  sup_AppCode :: string
  sup_Email :: string
  sup_NormalizedEmail :: string
  sup_Reason :: SuppressionReason

section \<open>Errors\<close>

text \<open>
  The rules of the rate limiter (\<open>lite.RateLimitRule\<close>), and every error type the program returns:
  the struct errors with their fields, the sentinel \<open>ErrMemoryQueueClosed\<close>, and errors made by
  \<open>fmt.Errorf\<close>, plain (\<open>Errorf\<close>) or wrapping another with \<open>%w\<close> (\<open>Wrapf\<close>).
\<close>

datatype RateLimitRule =
    RateLimitRuleEmailMinute
  | RateLimitRuleEmailDay
  | RateLimitRuleUserIPHour
  | RateLimitRuleCallerIPHour

datatype go_error =
    RequestValidationError ErrorCode string
  | RenderError ErrorCode string
  | RouteSelectionError ErrorCode string
  | APIError ErrorCode string
  | AuthError ErrorCode string
  | QueueFullError ErrorCode
  | IdempotencyConflictError ErrorCode
  | RateLimitExceededError ErrorCode RateLimitRule int int int
  | ErrMemoryQueueClosed
  | Errorf string
  | Wrapf string go_error

type_synonym 'a result = "go_error + 'a"

text \<open>\<open>errors.As\<close> and \<open>errors.Is\<close> look at the error at the end of the chain of wrappings.\<close>

fun root_error :: "go_error \<Rightarrow> go_error" where
  "root_error (Wrapf _ e) = root_error e"
| "root_error e = e"

end
