(* ===== verification/RateLimiter.thy ===== *)
theory RateLimiter
  imports Domain
begin

text \<open>
  The fixed-window rate limiter of \<open>internal/lite/rate_limiter.go\<close>. Its counters are a Go map that
  \<open>deleteExpired\<close> iterates, so they are an association list with distinct keys. \<open>Allow\<close> and
  \<open>Rollback\<close> are the bodies of the methods under the lock, with the clock reading as argument.
\<close>

section \<open>State\<close>

record RateLimitRequest =
  rl_AppCode :: string
  rl_SceneCode :: string
  rl_NormalizedToEmail :: string
  rl_UserIP :: string
  rl_CallerIP :: string
  rl_Policy :: RateLimitPolicy

record rateLimitCounterKey =
  rk_Rule :: RateLimitRule
  rk_AppCode :: string
  rk_SceneCode :: string
  rk_Subject :: string
  rk_WindowStart :: go_time

record RateLimitDecision =
  dec_Allowed :: bool
  dec_Rule :: "RateLimitRule option"
  dec_Limit :: int
  dec_CurrentCount :: int
  dec_RetryAfterSeconds :: int
  dec_consumed :: "rateLimitCounterKey list"

text \<open>The zero value \<open>RateLimitDecision{}\<close>; its empty rule is \<open>None\<close>.\<close>

definition zero_RateLimitDecision :: RateLimitDecision where
  "zero_RateLimitDecision = \<lparr>dec_Allowed = False, dec_Rule = None, dec_Limit = 0,
     dec_CurrentCount = 0, dec_RetryAfterSeconds = 0, dec_consumed = []\<rparr>"

record rateLimitCounter =
  rc_Count :: int
  rc_ExpiresAt :: go_time

record rateLimitCheck =
  ck_rule :: RateLimitRule
  ck_subject :: string
  ck_limit :: int
  ck_windowStart :: go_time
  ck_expiresAt :: go_time

type_synonym counters = "(rateLimitCounterKey \<times> rateLimitCounter) list"

fun text_of_RateLimitRule :: "RateLimitRule \<Rightarrow> string" where
  "text_of_RateLimitRule RateLimitRuleEmailMinute = ''email_minute''"
| "text_of_RateLimitRule RateLimitRuleEmailDay = ''email_day''"
| "text_of_RateLimitRule RateLimitRuleUserIPHour = ''user_ip_hour''"
| "text_of_RateLimitRule RateLimitRuleCallerIPHour = ''caller_ip_hour''"

section \<open>Operations\<close>

definition deleteExpired :: "go_time \<Rightarrow> counters \<Rightarrow> counters" where
  "deleteExpired now m = filter (\<lambda>(k, c). now < rc_ExpiresAt c) m"

text \<open>
  The start of the UTC day is the instant rounded down to a whole day; \<open>AddDate(0, 0, 1)\<close> in UTC
  adds 24 hours.
\<close>

definition rate_checks :: "RateLimitRequest \<Rightarrow> go_time \<Rightarrow> rateLimitCheck list" where
  "rate_checks request now =
     (let minuteStart = Truncate now Minute; hourStart = Truncate now Hour;
          dayStart = Truncate now Day
      in [\<lparr>ck_rule = RateLimitRuleEmailMinute, ck_subject = rl_NormalizedToEmail request,
           ck_limit = SameEmailPerMinute (rl_Policy request),
           ck_windowStart = minuteStart, ck_expiresAt = minuteStart + Minute\<rparr>,
          \<lparr>ck_rule = RateLimitRuleEmailDay, ck_subject = rl_NormalizedToEmail request,
           ck_limit = SameEmailPerDay (rl_Policy request),
           ck_windowStart = dayStart, ck_expiresAt = dayStart + Day\<rparr>,
          \<lparr>ck_rule = RateLimitRuleCallerIPHour, ck_subject = rl_CallerIP request,
           ck_limit = SameCallerIPPerHour (rl_Policy request),
           ck_windowStart = hourStart, ck_expiresAt = hourStart + Hour\<rparr>]
         @ (if rl_UserIP request \<noteq> [] then
              [\<lparr>ck_rule = RateLimitRuleUserIPHour, ck_subject = rl_UserIP request,
                ck_limit = SameUserIPPerHour (rl_Policy request),
                ck_windowStart = hourStart, ck_expiresAt = hourStart + Hour\<rparr>]
            else []))"

definition buildRateLimitChecks :: "RateLimitRequest \<Rightarrow> go_time \<Rightarrow> rateLimitCheck list result" where
  "buildRateLimitChecks request now =
     (case find (\<lambda>c. ck_limit c \<le> 0) (rate_checks request now) of
        Some c \<Rightarrow> Inl (Errorf (''rate limit '' @ text_of_RateLimitRule (ck_rule c)
                     @ '' must be greater than 0''))
      | None \<Rightarrow> Inr (rate_checks request now))"

definition check_key :: "rateLimitCheck \<Rightarrow> RateLimitRequest \<Rightarrow> rateLimitCounterKey" where
  "check_key c request = \<lparr>rk_Rule = ck_rule c, rk_AppCode = rl_AppCode request,
     rk_SceneCode = rl_SceneCode request, rk_Subject = ck_subject c,
     rk_WindowStart = ck_windowStart c\<rparr>"

definition retryAfterSeconds :: "go_time \<Rightarrow> go_time \<Rightarrow> int" where
  "retryAfterSeconds now expiresAt =
     (let d = expiresAt - now
      in if d \<le> 0 then 0 else quot (d + Second - Nanosecond) Second)"

text \<open>A missing key reads as the zero counter.\<close>

definition lookup_counter :: "counters \<Rightarrow> rateLimitCounterKey \<Rightarrow> rateLimitCounter" where
  "lookup_counter m k =
     (case map_of m k of None \<Rightarrow> \<lparr>rc_Count = 0, rc_ExpiresAt = 0\<rparr> | Some c \<Rightarrow> c)"

fun exceeded :: "RateLimitRequest \<Rightarrow> counters \<Rightarrow> rateLimitCheck list \<Rightarrow> rateLimitCheck option" where
  "exceeded request m [] = None"
| "exceeded request m (c # cs) =
     (if ck_limit c \<le> rc_Count (lookup_counter m (check_key c request)) then Some c
      else exceeded request m cs)"

fun consume :: "RateLimitRequest \<Rightarrow> rateLimitCheck list \<Rightarrow> counters \<Rightarrow> counters" where
  "consume request [] m = m"
| "consume request (c # cs) m =
     consume request cs
       (AList.update (check_key c request)
          \<lparr>rc_Count = rc_Count (lookup_counter m (check_key c request)) + 1,
           rc_ExpiresAt = ck_expiresAt c\<rparr> m)"

definition Allow ::
    "go_time \<Rightarrow> RateLimitRequest \<Rightarrow> counters \<Rightarrow> RateLimitDecision \<times> go_error option \<times> counters" where
  "Allow now request m =
     (let m1 = deleteExpired now m
      in case buildRateLimitChecks request now of
           Inl e \<Rightarrow> (zero_RateLimitDecision, Some e, m1)
         | Inr checks \<Rightarrow>
             (case exceeded request m1 checks of
                Some c \<Rightarrow>
                  (let retry = retryAfterSeconds now (ck_expiresAt c);
                       cnt = rc_Count (lookup_counter m1 (check_key c request))
                   in (\<lparr>dec_Allowed = False, dec_Rule = Some (ck_rule c), dec_Limit = ck_limit c,
                        dec_CurrentCount = cnt, dec_RetryAfterSeconds = retry, dec_consumed = []\<rparr>,
                       Some (RateLimitExceededError ErrorCodeRateLimited (ck_rule c) (ck_limit c)
                               cnt retry),
                       m1))
              | None \<Rightarrow>
                  (zero_RateLimitDecision\<lparr>dec_Allowed := True,
                     dec_consumed := map (\<lambda>c. check_key c request) checks\<rparr>,
                   None, consume request checks m1)))"

fun rollback_keys :: "rateLimitCounterKey list \<Rightarrow> counters \<Rightarrow> counters" where
  "rollback_keys [] m = m"
| "rollback_keys (k # ks) m =
     rollback_keys ks
       (case map_of m k of
          None \<Rightarrow> m
        | Some c \<Rightarrow> if rc_Count c \<le> 1 then AList.delete k m
                    else AList.update k (c\<lparr>rc_Count := rc_Count c - 1\<rparr>) m)"

definition Rollback :: "RateLimitDecision \<Rightarrow> counters \<Rightarrow> counters" where
  "Rollback d m =
     (if \<not> dec_Allowed d \<or> dec_consumed d = [] then m else rollback_keys (dec_consumed d) m)"

section \<open>The checks of a request\<close>

fun window_length :: "RateLimitRule \<Rightarrow> duration" where
  "window_length RateLimitRuleEmailMinute = Minute"
| "window_length RateLimitRuleEmailDay = Day"
| "window_length RateLimitRuleUserIPHour = Hour"
| "window_length RateLimitRuleCallerIPHour = Hour"

fun rule_limit :: "RateLimitPolicy \<Rightarrow> RateLimitRule \<Rightarrow> int" where
  "rule_limit p RateLimitRuleEmailMinute = SameEmailPerMinute p"
| "rule_limit p RateLimitRuleEmailDay = SameEmailPerDay p"
| "rule_limit p RateLimitRuleUserIPHour = SameUserIPPerHour p"
| "rule_limit p RateLimitRuleCallerIPHour = SameCallerIPPerHour p"

definition window_end :: "rateLimitCounterKey \<Rightarrow> go_time" where
  "window_end k = rk_WindowStart k + window_length (rk_Rule k)"

definition good_check :: "RateLimitRequest \<Rightarrow> go_time \<Rightarrow> rateLimitCheck \<Rightarrow> bool" where
  "good_check request now c \<longleftrightarrow>
     ck_limit c = rule_limit (rl_Policy request) (ck_rule c)
     \<and> ck_expiresAt c = window_end (check_key c request)
     \<and> ck_windowStart c \<le> now \<and> now < ck_expiresAt c"

lemma window_length_pos: "0 < window_length r"
  by (cases r) simp_all

lemma rate_checks_good: "c \<in> set (rate_checks request now) \<Longrightarrow> good_check request now c"
  using Truncate_bounds [of Minute now] Truncate_bounds [of Hour now] Truncate_bounds [of Day now]
  by (auto simp: rate_checks_def Let_def good_check_def window_end_def check_key_def
      split: if_splits)

lemma rate_check_keys_distinct:
  "distinct (map (\<lambda>c. check_key c request) (rate_checks request now))"
  by (auto simp: rate_checks_def Let_def check_key_def)

lemma buildRateLimitChecks_Inr:
  "buildRateLimitChecks request now = Inr checks \<Longrightarrow>
     checks = rate_checks request now \<and> (\<forall>c \<in> set checks. 0 < ck_limit c)"
  by (auto simp: buildRateLimitChecks_def find_None_iff split: option.splits)

lemma retryAfterSeconds_pos: "now < t \<Longrightarrow> 1 \<le> retryAfterSeconds now t"
proof -
  assume "now < t"
  moreover from this have "1 \<le> (t - now + 999999999) div 1000000000" by linarith
  ultimately show ?thesis by (simp add: retryAfterSeconds_def Let_def quot_nonneg add.commute)
qed

section \<open>Counters as a function of the key\<close>

abbreviation count_of :: "counters \<Rightarrow> rateLimitCounterKey \<Rightarrow> int" where
  "count_of m k \<equiv> rc_Count (lookup_counter m k)"

lemma wf_deleteExpired [simp]: "wf_alist m \<Longrightarrow> wf_alist (deleteExpired now m)"
  by (simp add: deleteExpired_def)

lemma map_of_deleteExpired:
  "wf_alist m \<Longrightarrow> map_of (deleteExpired now m) k =
     (case map_of m k of None \<Rightarrow> None | Some c \<Rightarrow> if now < rc_ExpiresAt c then Some c else None)"
  by (simp add: deleteExpired_def map_of_filter_alist split: option.split)

lemma wf_consume [simp]: "wf_alist m \<Longrightarrow> wf_alist (consume request cs m)"
  by (induction cs arbitrary: m) simp_all

lemma map_of_consume:
  "distinct (map (\<lambda>c. check_key c request) cs) \<Longrightarrow>
     map_of (consume request cs m) k =
       (case find (\<lambda>c. check_key c request = k) cs of
          None \<Rightarrow> map_of m k
        | Some c \<Rightarrow> Some \<lparr>rc_Count = count_of m k + 1, rc_ExpiresAt = ck_expiresAt c\<rparr>)"
proof (induction cs arbitrary: m)
  case (Cons c cs)
  show ?case
  proof (cases "check_key c request = k")
    case True
    moreover have "check_key c request \<notin> (\<lambda>c. check_key c request) ` set cs"
      using Cons.prems by simp
    ultimately have "find (\<lambda>c. check_key c request = k) cs = None"
      unfolding find_None_iff by (metis image_eqI)
    with True Cons show ?thesis by (simp add: update_conv')
  next
    case False
    with Cons show ?thesis
      by (auto simp: update_conv' lookup_counter_def split: option.splits)
  qed
qed simp

lemma exceeded_None_iff:
  "exceeded request m cs = None \<longleftrightarrow>
     (\<forall>c \<in> set cs. count_of m (check_key c request) < ck_limit c)"
  by (induction cs) auto

lemma exceeded_SomeD:
  "exceeded request m cs = Some c \<Longrightarrow>
     c \<in> set cs \<and> ck_limit c \<le> count_of m (check_key c request)"
  by (induction cs) (auto split: if_splits)

lemma wf_rollback_keys [simp]: "wf_alist m \<Longrightarrow> wf_alist (rollback_keys ks m)"
  by (induction ks arbitrary: m) (auto split: option.splits)

lemma map_of_rollback_keys:
  "wf_alist m \<Longrightarrow> distinct ks \<Longrightarrow>
     map_of (rollback_keys ks m) k =
       (if k \<in> set ks then
          (case map_of m k of
             None \<Rightarrow> None
           | Some c \<Rightarrow> if rc_Count c \<le> 1 then None else Some (c\<lparr>rc_Count := rc_Count c - 1\<rparr>))
        else map_of m k)"
proof (induction ks arbitrary: m)
  case (Cons j ks)
  define m' where "m' = (case map_of m j of
          None \<Rightarrow> m
        | Some c \<Rightarrow> if rc_Count c \<le> 1 then AList.delete j m
                    else AList.update j (c\<lparr>rc_Count := rc_Count c - 1\<rparr>) m)"
  have wf: "wf_alist m'" using Cons.prems(1) by (auto simp: m'_def split: option.splits)
  have "map_of m' k = (if k = j then (case map_of m k of
             None \<Rightarrow> None
           | Some c \<Rightarrow> if rc_Count c \<le> 1 then None else Some (c\<lparr>rc_Count := rc_Count c - 1\<rparr>))
          else map_of m k)"
    by (auto simp: m'_def update_conv' delete_conv' split: option.splits)
  then show ?case
    using Cons.IH [OF wf] Cons.prems(2) by (auto simp flip: m'_def)
qed simp

section \<open>Sequences of operations\<close>

text \<open>
  The accepted and later failed requests of concurrent handlers, as a sequence of calls: \<open>Rl_allow\<close>
  is one \<open>Allow\<close>, \<open>Rl_rollback i\<close> rolls back the \<open>i\<close>th of the admissions that still stand (the
  handler rolls its own decision back at most once), \<open>Rl_elapse\<close> lets time pass.
\<close>

datatype rlop = Rl_allow RateLimitRequest | Rl_rollback nat | Rl_elapse nat

record rlsys =
  rls_counters :: counters
  rls_now :: go_time
  rls_live :: "RateLimitDecision list"

definition rlsys_start :: "go_time \<Rightarrow> rlsys" where
  "rlsys_start t = \<lparr>rls_counters = [], rls_now = t, rls_live = []\<rparr>"

fun rlexec :: "rlop \<Rightarrow> rlsys \<Rightarrow> rlsys" where
  "rlexec (Rl_allow request) s =
     (case Allow (rls_now s) request (rls_counters s) of
        (d, _, m) \<Rightarrow> s\<lparr>rls_counters := m,
                       rls_live := rls_live s @ (if dec_Allowed d then [d] else [])\<rparr>)"
| "rlexec (Rl_rollback i) s =
     (if i < length (rls_live s) then
        s\<lparr>rls_counters := Rollback (rls_live s ! i) (rls_counters s),
          rls_live := take i (rls_live s) @ drop (Suc i) (rls_live s)\<rparr>
      else s)"
| "rlexec (Rl_elapse n) s = s\<lparr>rls_now := rls_now s + int n\<rparr>"

definition rlrun :: "rlop list \<Rightarrow> rlsys \<Rightarrow> rlsys" where
  "rlrun ops s = fold rlexec ops s"

definition live_count :: "RateLimitDecision list \<Rightarrow> rateLimitCounterKey \<Rightarrow> int" where
  "live_count ds k = int (length (filter (\<lambda>d. k \<in> set (dec_consumed d)) ds))"

definition rl_inv :: "rlsys \<Rightarrow> bool" where
  "rl_inv s \<longleftrightarrow>
     wf_alist (rls_counters s)
     \<and> (\<forall>d \<in> set (rls_live s). distinct (dec_consumed d) \<and> dec_Allowed d)
     \<and> (\<forall>k c. map_of (rls_counters s) k = Some c \<longrightarrow>
          rc_Count c = live_count (rls_live s) k \<and> 0 < live_count (rls_live s) k
          \<and> rc_ExpiresAt c = window_end k)
     \<and> (\<forall>k. map_of (rls_counters s) k = None \<longrightarrow> rls_now s < window_end k \<longrightarrow>
          live_count (rls_live s) k = 0)"

lemma live_count_Nil [simp]: "live_count [] k = 0"
  by (simp add: live_count_def)

lemma live_count_append [simp]: "live_count (ds @ ds') k = live_count ds k + live_count ds' k"
  by (simp add: live_count_def)

lemma live_count_single [simp]:
  "live_count (d # ds) k = (if k \<in> set (dec_consumed d) then 1 else 0) + live_count ds k"
  by (simp add: live_count_def)

lemma live_count_nonneg [simp]: "0 \<le> live_count ds k"
  by (simp add: live_count_def)

lemma live_count_Suc_pos [simp]: "0 < 1 + live_count ds k" "0 < live_count ds k + 1"
  using live_count_nonneg [of ds k] by linarith+

lemma live_count_remove:
  assumes "i < length ds"
  shows "live_count ds k = (if k \<in> set (dec_consumed (ds ! i)) then 1 else 0)
           + live_count (take i ds @ drop (Suc i) ds) k"
proof -
  have "ds = take i ds @ ds ! i # drop (Suc i) ds" using assms by (simp add: id_take_nth_drop)
  then have "live_count ds k = live_count (take i ds @ ds ! i # drop (Suc i) ds) k" by simp
  then show ?thesis by simp
qed

text \<open>While the invariant holds, the counter of a window that is still open is exact.\<close>

lemma rl_inv_count:
  assumes "rl_inv s" "rls_now s < window_end k"
  shows "count_of (deleteExpired (rls_now s) (rls_counters s)) k = live_count (rls_live s) k"
  using assms
  by (auto simp: rl_inv_def lookup_counter_def map_of_deleteExpired split: option.splits)

text \<open>The three outcomes of \<open>Allow\<close>.\<close>

lemma Allow_cases:
  obtains (config) e where "buildRateLimitChecks request now = Inl e"
      "Allow now request m = (zero_RateLimitDecision, Some e, deleteExpired now m)"
  | (limited) c d e where "c \<in> set (rate_checks request now)"
      "ck_limit c \<le> count_of (deleteExpired now m) (check_key c request)"
      "Allow now request m = (d, Some e, deleteExpired now m)" "\<not> dec_Allowed d \<and> dec_consumed d = []" "0 < ck_limit c"
      "e = RateLimitExceededError ErrorCodeRateLimited (ck_rule c) (ck_limit c)
             (count_of (deleteExpired now m) (check_key c request))
             (retryAfterSeconds now (ck_expiresAt c))"
  | (admitted) d where "\<forall>c \<in> set (rate_checks request now).
        0 < ck_limit c \<and> count_of (deleteExpired now m) (check_key c request) < ck_limit c"
      "Allow now request m
         = (d, None, consume request (rate_checks request now) (deleteExpired now m))"
      "dec_Allowed d"
      "dec_consumed d = map (\<lambda>c. check_key c request) (rate_checks request now)"
proof (cases "buildRateLimitChecks request now")
  case (Inl e)
  then show thesis by (intro config [of e]) (simp_all add: Allow_def)
next
  case (Inr checks)
  note checks = buildRateLimitChecks_Inr [OF Inr]
  show thesis
  proof (cases "exceeded request (deleteExpired now m) checks")
    case None
    show thesis
      by (rule admitted [of "zero_RateLimitDecision\<lparr>dec_Allowed := True,
             dec_consumed := map (\<lambda>c. check_key c request) checks\<rparr>"])
        (use Inr checks None exceeded_None_iff [THEN iffD1, OF None] in
          \<open>auto simp: Allow_def Let_def\<close>)
  next
    case (Some c)
    show thesis
      by (rule limited)
        (use Inr checks Some exceeded_SomeD [OF Some] in \<open>auto simp: Allow_def Let_def\<close>)
  qed
qed

text \<open>
  The counters that stand for a request, without reference to the checks: those of its App and scene for
  the current window of each rule, by recipient for the two email rules, by caller address, and by
  user address if there is one.
\<close>

definition counted :: "RateLimitRequest \<Rightarrow> go_time \<Rightarrow> rateLimitCounterKey \<Rightarrow> bool" where
  "counted request now k \<longleftrightarrow>
     rk_AppCode k = rl_AppCode request \<and> rk_SceneCode k = rl_SceneCode request
     \<and> rk_WindowStart k = Truncate now (window_length (rk_Rule k))
     \<and> (case rk_Rule k of
          RateLimitRuleEmailMinute \<Rightarrow> rk_Subject k = rl_NormalizedToEmail request
        | RateLimitRuleEmailDay \<Rightarrow> rk_Subject k = rl_NormalizedToEmail request
        | RateLimitRuleCallerIPHour \<Rightarrow> rk_Subject k = rl_CallerIP request
        | RateLimitRuleUserIPHour \<Rightarrow> rl_UserIP request \<noteq> [] \<and> rk_Subject k = rl_UserIP request)"

lemma rate_check_keys: "(\<lambda>c. check_key c request) ` set (rate_checks request now) = {k. counted request now k}"
proof (intro set_eqI iffI)
  fix k
  assume "k \<in> {k. counted request now k}"
  then show "k \<in> (\<lambda>c. check_key c request) ` set (rate_checks request now)"
    by (cases k; cases "rk_Rule k")
      (simp_all add: counted_def rate_checks_def Let_def check_key_def image_Un)
qed (auto simp: counted_def rate_checks_def Let_def check_key_def split: if_splits)

lemma check_is_counted: "c \<in> set (rate_checks request now) \<Longrightarrow> counted request now (check_key c request)"
  using rate_check_keys by blast

lemma rl_inv_expired:
  assumes "rl_inv s"
  shows "rl_inv (s\<lparr>rls_counters := deleteExpired (rls_now s) (rls_counters s)\<rparr>)"
  using assms by (fastforce simp: rl_inv_def map_of_deleteExpired split: option.splits if_splits)

lemma rl_inv_admit:
  assumes inv: "rl_inv s" and d: "dec_Allowed d"
    "dec_consumed d = map (\<lambda>c. check_key c request) (rate_checks request (rls_now s))"
  shows "rl_inv (s\<lparr>rls_counters := consume request (rate_checks request (rls_now s))
                     (deleteExpired (rls_now s) (rls_counters s)),
                   rls_live := rls_live s @ [d]\<rparr>)"
proof -
  define cs where "cs = rate_checks request (rls_now s)"
  define m1 where "m1 = deleteExpired (rls_now s) (rls_counters s)"
  have inv1: "rl_inv (s\<lparr>rls_counters := m1\<rparr>)" using rl_inv_expired [OF inv] by (simp add: m1_def)
  have keys: "distinct (map (\<lambda>c. check_key c request) cs)"
    by (simp add: cs_def rate_check_keys_distinct)
  have upd: "map_of (consume request cs m1) k =
      (if k \<in> set (dec_consumed d) then Some \<lparr>rc_Count = live_count (rls_live s) k + 1,
         rc_ExpiresAt = window_end k\<rparr> else map_of m1 k)" for k
  proof (cases "find (\<lambda>c. check_key c request = k) cs")
    case None
    then have "k \<notin> set (dec_consumed d)" using d by (auto simp: find_None_iff cs_def)
    then show ?thesis using None by (simp add: map_of_consume [OF keys])
  next
    case (Some c)
    then have c: "c \<in> set cs" "check_key c request = k" using find_Some_conv [OF Some] by simp_all
    then have "k \<in> set (dec_consumed d)" using d by (auto simp: cs_def)
    moreover have "ck_expiresAt c = window_end k" "rls_now s < window_end k"
      using rate_checks_good [of c request "rls_now s"] c by (auto simp: cs_def good_check_def)
    ultimately show ?thesis
      using Some rl_inv_count [OF inv, of k] by (simp add: map_of_consume [OF keys] m1_def)
  qed
  have "wf_alist (consume request cs m1)" using inv1 by (simp add: rl_inv_def)
  moreover have "distinct (dec_consumed d)" using keys d by (simp add: cs_def)
  ultimately show ?thesis
    unfolding cs_def [symmetric] m1_def [symmetric]
    using inv1 d(1) by (auto simp: rl_inv_def upd add.commute)
qed

lemma rl_inv_allow [inv_intros]:
  assumes "rl_inv s"
  shows "rl_inv (rlexec (Rl_allow request) s)"
proof (cases rule: Allow_cases [of request "rls_now s" "rls_counters s"])
  case (config e)
  then show ?thesis
    using rl_inv_expired [OF assms] by (simp add: zero_RateLimitDecision_def)
next
  case (limited c d e)
  then show ?thesis using rl_inv_expired [OF assms] by simp
next
  case (admitted d)
  then show ?thesis using rl_inv_admit [OF assms] by simp
qed

lemma rl_inv_rollback [inv_intros]:
  assumes inv: "rl_inv s"
  shows "rl_inv (rlexec (Rl_rollback i) s)"
proof (cases "i < length (rls_live s)")
  case True
  define d where "d = rls_live s ! i"
  define live where "live = take i (rls_live s) @ drop (Suc i) (rls_live s)"
  have d: "distinct (dec_consumed d)" "dec_Allowed d"
    using inv True by (auto simp: rl_inv_def d_def)
  have cnt: "live_count (rls_live s) k
      = (if k \<in> set (dec_consumed d) then 1 else 0) + live_count live k" for k
    using live_count_remove [OF True] by (simp add: d_def live_def)
  have wf: "wf_alist (rls_counters s)" using inv by (simp add: rl_inv_def)
  have upd: "map_of (Rollback d (rls_counters s)) k = (if k \<in> set (dec_consumed d) then
          (case map_of (rls_counters s) k of
             None \<Rightarrow> None
           | Some c \<Rightarrow> if rc_Count c \<le> 1 then None else Some (c\<lparr>rc_Count := rc_Count c - 1\<rparr>))
        else map_of (rls_counters s) k)" for k
    using d by (auto simp: Rollback_def map_of_rollback_keys [OF wf])
  have wf': "wf_alist (Rollback d (rls_counters s))" using wf by (simp add: Rollback_def)
  have live: "set live \<subseteq> set (rls_live s)"
    by (auto simp: live_def dest: in_set_takeD in_set_dropD)
  have some: "rc_Count c = live_count live k \<and> 0 < live_count live k
      \<and> rc_ExpiresAt c = window_end k"
    if new: "map_of (Rollback d (rls_counters s)) k = Some c" for k c
  proof -
    obtain c' where c': "map_of (rls_counters s) k = Some c'"
      using new by (cases "map_of (rls_counters s) k") (auto simp: upd split: if_splits)
    then have "rc_Count c' = live_count (rls_live s) k \<and> 0 < live_count (rls_live s) k
        \<and> rc_ExpiresAt c' = window_end k"
      using inv by (simp add: rl_inv_def)
    then show ?thesis using new c' cnt [of k] by (auto simp: upd split: if_splits)
  qed
  have none: "live_count live k = 0"
    if "map_of (Rollback d (rls_counters s)) k = None" "rls_now s < window_end k" for k
  proof (cases "map_of (rls_counters s) k")
    case None
    then have "live_count (rls_live s) k = 0" using inv that by (simp add: rl_inv_def)
    then show ?thesis using cnt [of k] live_count_nonneg [of live k]
      by (simp split: if_splits del: live_count_nonneg)
  next
    case (Some c)
    then have "rc_Count c = live_count (rls_live s) k" using inv by (simp add: rl_inv_def)
    then show ?thesis
      using that Some cnt [of k] live_count_nonneg [of live k]
      by (auto simp: upd split: if_splits simp del: live_count_nonneg)
  qed
  have "rl_inv (s\<lparr>rls_counters := Rollback d (rls_counters s), rls_live := live\<rparr>)"
    using inv wf' some none live by (auto simp: rl_inv_def)
  then show ?thesis using True by (simp add: d_def live_def)
qed (simp add: inv)

lemma rl_inv_elapse [inv_intros]: "rl_inv s \<Longrightarrow> rl_inv (rlexec (Rl_elapse n) s)"
  by (auto simp: rl_inv_def)

lemma rl_inv_start: "rl_inv (rlsys_start t)"
  by (simp add: rl_inv_def rlsys_start_def)

lemma rl_inv_exec: "rl_inv s \<Longrightarrow> rl_inv (rlexec op s)"
  by (cases op) (blast intro: inv_intros)+

lemma rl_inv_run: "rl_inv s \<Longrightarrow> rl_inv (rlrun ops s)"
  unfolding rlrun_def by (induction ops arbitrary: s) (simp_all add: rl_inv_exec)

text \<open>A key's admissions never outnumber the limits of the requests that could have used it.\<close>

definition limits_at_most :: "int \<Rightarrow> rateLimitCounterKey \<Rightarrow> rlop list \<Rightarrow> bool" where
  "limits_at_most L k ops \<longleftrightarrow>
     (\<forall>request. Rl_allow request \<in> set ops \<longrightarrow> rl_AppCode request = rk_AppCode k \<longrightarrow>
        rl_SceneCode request = rk_SceneCode k \<longrightarrow>
        rule_limit (rl_Policy request) (rk_Rule k) \<le> L)"

lemma live_count_exec:
  assumes inv: "rl_inv s" and le: "live_count (rls_live s) k \<le> L" and lim: "limits_at_most L k [op]"
  shows "live_count (rls_live (rlexec op s)) k \<le> L"
proof (cases op)
  case (Rl_allow request)
  show ?thesis
  proof (cases rule: Allow_cases [of request "rls_now s" "rls_counters s"])
    case (admitted d)
    show ?thesis
    proof (cases "k \<in> set (dec_consumed d)")
      case True
      then obtain c where c: "c \<in> set (rate_checks request (rls_now s))" "check_key c request = k"
        using admitted by auto
      then have good: "good_check request (rls_now s) c" by (intro rate_checks_good)
      have "rk_AppCode k = rl_AppCode request" "rk_SceneCode k = rl_SceneCode request"
        "rk_Rule k = ck_rule c" using c(2) by (auto simp: check_key_def)
      then have "ck_limit c \<le> L"
        using good lim Rl_allow by (auto simp: good_check_def limits_at_most_def)
      moreover have "live_count (rls_live s) k < ck_limit c"
        using admitted c rl_inv_count [OF inv, of k] good by (auto simp: good_check_def)
      ultimately show ?thesis using Rl_allow admitted True by simp
    next
      case False
      then show ?thesis using Rl_allow admitted le by simp
    qed
  qed (use Rl_allow le in \<open>simp_all add: zero_RateLimitDecision_def\<close>)
next
  case (Rl_rollback i)
  then show ?thesis
    using le live_count_remove [of i "rls_live s" k] by (auto split: if_splits)
qed (use le in simp)

lemma live_count_run:
  "rl_inv s \<Longrightarrow> live_count (rls_live s) k \<le> L \<Longrightarrow> limits_at_most L k ops \<Longrightarrow>
     live_count (rls_live (rlrun ops s)) k \<le> L"
  unfolding rlrun_def
proof (induction ops arbitrary: s)
  case (Cons op ops)
  then have "limits_at_most L k [op]" "limits_at_most L k ops"
    by (auto simp: limits_at_most_def)
  then show ?case using Cons by (simp add: rl_inv_exec live_count_exec)
qed simp

section \<open>Properties\<close>

text \<open>The example: two requests a minute to one address, then a third.\<close>

definition sample_policy :: RateLimitPolicy where
  "sample_policy = \<lparr>SameEmailPerMinute = 2, SameEmailPerDay = 5, SameUserIPPerHour = 7,
                    SameCallerIPPerHour = 9\<rparr>"

definition sample_request :: RateLimitRequest where
  "sample_request = \<lparr>rl_AppCode = ''app'', rl_SceneCode = ''login'',
     rl_NormalizedToEmail = ''a@b.co'', rl_UserIP = ''9.9.9.9'', rl_CallerIP = ''1.2.3.4'',
     rl_Policy = sample_policy\<rparr>"

definition sample_rate_key :: rateLimitCounterKey where
  "sample_rate_key = \<lparr>rk_Rule = RateLimitRuleEmailMinute, rk_AppCode = ''app'',
     rk_SceneCode = ''login'', rk_Subject = ''a@b.co'', rk_WindowStart = 0\<rparr>"

definition sample_rate_ops :: "rlop list" where
  "sample_rate_ops = [Rl_allow sample_request, Rl_elapse 1, Rl_allow sample_request,
     Rl_allow sample_request, Rl_rollback 0, Rl_allow sample_request]"

text \<open>
  C15. The limit holds: over every sequence of admissions, rollbacks and passing time, the
  admissions that stand in one window of one rule and subject never exceed a bound on the limits
  of the requests of that application and scene.
\<close>

theorem rate_limit_never_exceeded:
  assumes "limits_at_most L k ops" "0 \<le> L"
  shows "live_count (rls_live (rlrun ops (rlsys_start t))) k \<le> L"
  using assms by (intro live_count_run) (simp_all add: rl_inv_start, simp add: rlsys_start_def)

lemma rate_limit_never_exceeded_witness:
  "live_count (rls_live (rlrun sample_rate_ops (rlsys_start 0))) sample_rate_key \<le> 2
   \<and> limits_at_most 2 sample_rate_key sample_rate_ops"
proof -
  have lim: "limits_at_most 2 sample_rate_key sample_rate_ops"
    by (auto simp: limits_at_most_def sample_rate_ops_def sample_request_def sample_policy_def
        sample_rate_key_def)
  then show ?thesis using rate_limit_never_exceeded [OF lim, of 0] by simp
qed

text \<open>
  C16. The counters are exact: after any such sequence the counter of a window that is still open
  is the number of admissions in that window that have not been rolled back, so a rollback frees
  exactly what its admission took, whatever ran in between.
\<close>

theorem rate_counters_exact:
  assumes "rls_now s < window_end k" "s = rlrun ops (rlsys_start t)"
  shows "count_of (deleteExpired (rls_now s) (rls_counters s)) k = live_count (rls_live s) k"
  using rl_inv_count [OF rl_inv_run [OF rl_inv_start] assms(1) [unfolded assms(2)]]
  by (simp add: assms(2))

lemma rate_counters_exact_witness:
  "count_of (deleteExpired 1 (rls_counters (rlrun sample_rate_ops (rlsys_start 0))))
     sample_rate_key = 2"
proof -
  let ?s = "rlrun sample_rate_ops (rlsys_start 0)"
  have now: "rls_now ?s = 1" by code_simp
  have "rls_now ?s < window_end sample_rate_key"
    unfolding now by (simp add: window_end_def sample_rate_key_def)
  from rate_counters_exact [OF this refl] show ?thesis
    unfolding now by (rule trans) code_simp
qed

text \<open>
  C17. \<open>Allow\<close> is all or nothing. An admitted request raises by one the counter of each rule that
  applies to it, to at most the rule's positive limit, with the end of the window as its expiry, and leaves
  every other counter alone; exactly these counters are what its decision can give back. A rejected request
  changes no counter that has not expired and has nothing to give back; it is rejected because a
  rule that applies to it has no positive limit, or names such a rule with the count its counter
  has, which has reached the limit.
\<close>

theorem Allow_all_or_nothing:
  assumes wf: "wf_alist m"
  shows "case Allow now request m of
      (d, Some e, m') \<Rightarrow>
        \<not> dec_Allowed d \<and> dec_consumed d = [] \<and> m' = deleteExpired now m
        \<and> (case e of
             RateLimitExceededError code rule limit cnt retry \<Rightarrow>
               code = ErrorCodeRateLimited \<and> limit = rule_limit (rl_Policy request) rule \<and> 0 < limit
               \<and> limit \<le> cnt \<and> 1 \<le> retry
               \<and> (\<exists>k. counted request now k \<and> rk_Rule k = rule \<and> cnt = count_of (deleteExpired now m) k)
           | _ \<Rightarrow> \<exists>k. counted request now k \<and> rule_limit (rl_Policy request) (rk_Rule k) \<le> 0)
    | (d, None, m') \<Rightarrow>
        dec_Allowed d \<and> distinct (dec_consumed d) \<and> set (dec_consumed d) = {k. counted request now k}
        \<and> (\<forall>k. map_of m' k =
          (if counted request now k
           then Some \<lparr>rc_Count = count_of (deleteExpired now m) k + 1, rc_ExpiresAt = window_end k\<rparr>
           else map_of (deleteExpired now m) k))
        \<and> (\<forall>k. counted request now k \<longrightarrow>
             0 < rule_limit (rl_Policy request) (rk_Rule k) \<and> count_of m' k \<le> rule_limit (rl_Policy request) (rk_Rule k))"
proof (cases rule: Allow_cases [of request now m])
  case (config e)
  then obtain c msg where c: "e = Errorf msg" "find (\<lambda>c. ck_limit c \<le> 0) (rate_checks request now) = Some c"
    by (auto simp: buildRateLimitChecks_def split: option.splits)
  have mem: "c \<in> set (rate_checks request now)" "ck_limit c \<le> 0" using find_Some_conv [OF c(2)] by simp_all
  have "ck_limit c = rule_limit (rl_Policy request) (rk_Rule (check_key c request))"
    using rate_checks_good [OF mem(1)] by (simp add: good_check_def check_key_def)
  then show ?thesis using config c(1) mem check_is_counted [OF mem(1)]
    by (auto simp: zero_RateLimitDecision_def)
next
  case (limited c d e)
  have good: "good_check request now c" using limited(1) by (rule rate_checks_good)
  then have "1 \<le> retryAfterSeconds now (ck_expiresAt c)"
    by (simp add: good_check_def retryAfterSeconds_pos)
  moreover have "rk_Rule (check_key c request) = ck_rule c" by (simp add: check_key_def)
  ultimately show ?thesis using good limited check_is_counted [OF limited(1)] by (auto simp: good_check_def)
next
  case (admitted d)
  define cs where "cs = rate_checks request now"
  have keys: "distinct (map (\<lambda>c. check_key c request) cs)"
    by (simp add: cs_def rate_check_keys_distinct)
  have d: "{k. counted request now k} = (\<lambda>c. check_key c request) ` set cs"
    by (simp add: cs_def rate_check_keys)
  have upd: "map_of (consume request cs (deleteExpired now m)) k =
      (if counted request now k
       then Some \<lparr>rc_Count = count_of (deleteExpired now m) k + 1, rc_ExpiresAt = window_end k\<rparr>
       else map_of (deleteExpired now m) k)" for k
  proof (cases "find (\<lambda>c. check_key c request = k) cs")
    case None
    then have "k \<notin> {k. counted request now k}" unfolding d find_None_iff by auto
    then show ?thesis using None by (simp add: map_of_consume [OF keys])
  next
    case (Some c)
    then have c: "c \<in> set cs" "check_key c request = k" using find_Some_conv [OF Some] by simp_all
    then have "k \<in> {k. counted request now k}" unfolding d by auto
    moreover have "ck_expiresAt c = window_end k"
      using rate_checks_good [of c request now] c by (auto simp: cs_def good_check_def)
    ultimately show ?thesis using Some by (simp add: map_of_consume [OF keys])
  qed
  have room: "0 < rule_limit (rl_Policy request) (rk_Rule k)
      \<and> count_of (deleteExpired now m) k + 1 \<le> rule_limit (rl_Policy request) (rk_Rule k)"
    if "counted request now k" for k
  proof -
    have "k \<in> (\<lambda>c. check_key c request) ` set cs" using that d by blast
    then obtain c where c: "c \<in> set cs" "check_key c request = k" by auto
    then have "good_check request now c" by (auto simp: cs_def intro: rate_checks_good)
    then show ?thesis using admitted(1) c
      by (auto simp: good_check_def cs_def check_key_def)
  qed
  show ?thesis
    using admitted upd room keys by (simp add: cs_def rate_check_keys lookup_counter_def)
qed

lemma Allow_all_or_nothing_witness:
  "fst (snd (Allow 5 sample_request []))= None
   \<and> dec_Allowed (fst (Allow 5 sample_request []))
   \<and> wf_alist ([] :: counters)"
proof -
  have none: "fst (snd (Allow 5 sample_request [])) = None" by code_simp
  then show ?thesis
    using Allow_all_or_nothing [OF wf_alist_Nil, where now = 5 and request = sample_request]
    by (auto split: prod.splits option.splits)
qed

text \<open>
  Retry-After is right: for a check of a request it is positive, at most the window's length
  in seconds, it reaches the end of the window and overshoots by less than a second.
\<close>

theorem retryAfterSeconds_bounds:
  assumes "c \<in> set (rate_checks request now)"
  shows "1 \<le> retryAfterSeconds now (ck_expiresAt c)
    \<and> retryAfterSeconds now (ck_expiresAt c) * Second \<le> window_length (ck_rule c)
    \<and> ck_expiresAt c \<le> now + retryAfterSeconds now (ck_expiresAt c) * Second
    \<and> now + retryAfterSeconds now (ck_expiresAt c) * Second < ck_expiresAt c + Second"
proof -
  have good: "ck_windowStart c \<le> now" "now < ck_expiresAt c"
    "ck_expiresAt c = ck_windowStart c + window_length (ck_rule c)"
    using rate_checks_good [OF assms] by (auto simp: good_check_def window_end_def check_key_def)
  define d where "d = ck_expiresAt c - now"
  have d: "0 < d" "d \<le> window_length (ck_rule c)" using good by (auto simp: d_def)
  have eq: "retryAfterSeconds now (ck_expiresAt c) = (d + 999999999) div 1000000000"
    using d by (simp add: retryAfterSeconds_def Let_def quot_nonneg flip: d_def)
  have "\<exists>w. window_length (ck_rule c) = w * 1000000000"
    by (cases "ck_rule c") (auto intro: exI [of _ 60] exI [of _ 3600] exI [of _ 86400])
  then obtain w where w: "window_length (ck_rule c) = w * 1000000000" by blast
  have "(d + 999999999) div 1000000000 \<le> w" using d w by linarith
  moreover have "1 \<le> (d + 999999999) div 1000000000" using d by linarith
  moreover have "d \<le> (d + 999999999) div 1000000000 * 1000000000" by linarith
  moreover have "(d + 999999999) div 1000000000 * 1000000000 < d + 1000000000" by linarith
  ultimately show ?thesis unfolding eq using w d_def by linarith
qed

lemma retryAfterSeconds_bounds_witness:
  "retryAfterSeconds 5 (ck_expiresAt (rate_checks sample_request 5 ! 0)) = 60
   \<and> retryAfterSeconds 5 (ck_expiresAt (rate_checks sample_request 5 ! 0)) * Second \<le> Minute"
proof -
  have mem: "rate_checks sample_request 5 ! 0 \<in> set (rate_checks sample_request 5)"
    by (rule nth_mem) (simp add: rate_checks_def Let_def)
  have "ck_rule (rate_checks sample_request 5 ! 0) = RateLimitRuleEmailMinute" by code_simp
  moreover have "retryAfterSeconds 5 (ck_expiresAt (rate_checks sample_request 5 ! 0)) = 60"
    by code_simp
  ultimately show ?thesis using retryAfterSeconds_bounds [OF mem] by simp
qed

end
