(* ===== verification/Idempotency.thy ===== *)
theory Idempotency
  imports Domain "HOL-Library.Product_Lexorder"
begin

text \<open>
  The idempotency cache of \<open>internal/lite/idempotency_cache.go\<close>. Its entries are a Go map whose
  iteration order decides nothing: a theorem below shows that the entry an overflow evicts is the
  same for every order. Methods are their bodies under the lock, with the clock reading as
  argument; a reservation is a pointer that may be nil.
\<close>

section \<open>Keys\<close>

datatype idempotencyKey =
  idempotencyKey (ik_AppCode: string) (ik_SceneCode: string) (ik_IdempotencyHash: string)

definition newIdempotencyKey :: "string \<Rightarrow> string \<Rightarrow> string \<Rightarrow> idempotencyKey" where
  "newIdempotencyKey appCode sceneCode idempotencyHash
     = idempotencyKey appCode sceneCode idempotencyHash"

definition idempotencyKeyLess :: "idempotencyKey \<Rightarrow> idempotencyKey \<Rightarrow> bool" where
  "idempotencyKeyLess l r =
     (if ik_AppCode l \<noteq> ik_AppCode r then ik_AppCode l < ik_AppCode r
      else if ik_SceneCode l \<noteq> ik_SceneCode r then ik_SceneCode l < ik_SceneCode r
      else ik_IdempotencyHash l < ik_IdempotencyHash r)"

text \<open>The comparison is a linear order, and the library's order on keys from here on.\<close>

instantiation idempotencyKey :: linorder
begin

definition less_idempotencyKey :: "idempotencyKey \<Rightarrow> idempotencyKey \<Rightarrow> bool" where
  "less_idempotencyKey = idempotencyKeyLess"

definition less_eq_idempotencyKey :: "idempotencyKey \<Rightarrow> idempotencyKey \<Rightarrow> bool" where
  "less_eq_idempotencyKey l r \<longleftrightarrow> l = r \<or> idempotencyKeyLess l r"

instance
proof
  fix x y z :: idempotencyKey
  show "(x < y) = (x \<le> y \<and> \<not> y \<le> x)"
    by (cases x; cases y)
      (auto simp: less_idempotencyKey_def less_eq_idempotencyKey_def idempotencyKeyLess_def)
  show "x \<le> x" by (simp add: less_eq_idempotencyKey_def)
  show "x \<le> y \<Longrightarrow> y \<le> z \<Longrightarrow> x \<le> z"
    by (cases x; cases y; cases z)
      (auto simp: less_eq_idempotencyKey_def idempotencyKeyLess_def split: if_splits)
  show "x \<le> y \<Longrightarrow> y \<le> x \<Longrightarrow> x = y"
    by (cases x; cases y)
      (auto simp: less_eq_idempotencyKey_def idempotencyKeyLess_def split: if_splits)
  show "x \<le> y \<or> y \<le> x"
    by (cases x; cases y) (auto simp: less_eq_idempotencyKey_def idempotencyKeyLess_def)
qed

end

section \<open>State\<close>

datatype IdempotencyStatus = IdempotencyStatusQueued | IdempotencyStatusPending

datatype IdempotencyDecisionState = IdempotencyDecisionNew | IdempotencyDecisionReplay

text \<open>The status of a decision on a new request is the empty string, \<open>None\<close>.\<close>

record IdempotencyDecision =
  idec_State :: IdempotencyDecisionState
  idec_MessageID :: string
  idec_Status :: "IdempotencyStatus option"

definition new_decision :: IdempotencyDecision where
  "new_decision = \<lparr>idec_State = IdempotencyDecisionNew, idec_MessageID = [], idec_Status = None\<rparr>"

record idempotencyEntry =
  ie_MessageID :: string
  ie_RequestFingerprint :: string
  ie_Status :: IdempotencyStatus
  ie_CreatedAt :: go_time

type_synonym idem_entries = "(idempotencyKey \<times> idempotencyEntry) list"

record IdempotencyCache =
  ic_ttl :: duration
  ic_limit :: int
  ic_entries :: idem_entries

record IdempotencyReservation =
  ir_key :: idempotencyKey
  ir_used :: bool

abbreviation pending :: "idempotencyEntry \<Rightarrow> bool" where
  "pending e \<equiv> ie_Status e = IdempotencyStatusPending"

definition IdempotencyConflict :: go_error where
  "IdempotencyConflict = IdempotencyConflictError ErrorCodeIdempotencyConflict"

section \<open>Operations\<close>

definition NewIdempotencyCache :: "int \<Rightarrow> duration \<Rightarrow> IdempotencyCache result" where
  "NewIdempotencyCache capacity ttl =
     (if capacity \<le> 0 then Inl (Errorf ''idempotency cache capacity must be greater than 0'')
      else if ttl \<le> 0 then Inl (Errorf ''idempotency cache ttl must be greater than 0'')
      else Inr \<lparr>ic_ttl = ttl, ic_limit = capacity, ic_entries = []\<rparr>)"

definition expire :: "go_time \<Rightarrow> IdempotencyCache \<Rightarrow> IdempotencyCache" where
  "expire now c =
     c\<lparr>ic_entries := filter (\<lambda>(k, e). pending e \<or> now + (- ic_ttl c) < ie_CreatedAt e)
                       (ic_entries c)\<rparr>"

text \<open>One round of the loops that look for the entry to evict, over the entries as Go visits them.\<close>

definition older :: "idempotencyKey \<times> idempotencyEntry \<Rightarrow> idempotencyKey \<times> idempotencyEntry \<Rightarrow> bool"
where
  "older x y \<longleftrightarrow>
     ie_CreatedAt (snd x) < ie_CreatedAt (snd y)
     \<or> (ie_CreatedAt (snd x) = ie_CreatedAt (snd y) \<and> idempotencyKeyLess (fst x) (fst y))"

fun find_oldest ::
    "(idempotencyKey \<times> idempotencyEntry) option \<Rightarrow> idem_entries
     \<Rightarrow> (idempotencyKey \<times> idempotencyEntry) option" where
  "find_oldest best [] = best"
| "find_oldest best (x # m) =
     (if pending (snd x) then find_oldest best m
      else case best of
             None \<Rightarrow> find_oldest (Some x) m
           | Some b \<Rightarrow> find_oldest (Some (if older x b then x else b)) m)"

lemma find_oldest_cases:
  "find_oldest best m = Some b \<Longrightarrow> best = Some b \<or> (b \<in> set m \<and> \<not> pending (snd b))"
  by (induction best m rule: find_oldest.induct) (auto split: if_splits option.splits)

function evictOverflowExceptPending :: "int \<Rightarrow> idem_entries \<Rightarrow> bool \<times> idem_entries" where
  "evictOverflowExceptPending limit m =
     (if int (length m) \<le> limit then (True, m)
      else case find_oldest None m of
             None \<Rightarrow> (False, m)
           | Some b \<Rightarrow> evictOverflowExceptPending limit (AList.delete (fst b) m))"
  by pat_completeness auto
termination
proof (relation "measure (\<lambda>(limit, m). length m)", goal_cases)
  case (2 limit m b)
  then have "fst b \<in> set (keys_of m)" using find_oldest_cases [of None m b] by auto
  then show ?case by (simp add: length_delete_less)
qed simp

declare evictOverflowExceptPending.simps [simp del]

text \<open>\<open>evictOverflow\<close> is the same loop, but it does not spare the pending entries.\<close>

fun find_oldest_any ::
    "(idempotencyKey \<times> idempotencyEntry) option \<Rightarrow> idem_entries
     \<Rightarrow> (idempotencyKey \<times> idempotencyEntry) option" where
  "find_oldest_any best [] = best"
| "find_oldest_any best (x # m) =
     find_oldest_any (Some (case best of None \<Rightarrow> x | Some b \<Rightarrow> if older x b then x else b)) m"

lemma find_oldest_any_cases:
  "find_oldest_any best m = Some b \<Longrightarrow> best = Some b \<or> b \<in> set m"
  by (induction best m rule: find_oldest_any.induct) (fastforce split: if_splits option.splits)+

function evictOverflow :: "int \<Rightarrow> idem_entries \<Rightarrow> idem_entries" where
  "evictOverflow limit m =
     (if int (length m) \<le> limit then m
      else case find_oldest_any None m of
             None \<Rightarrow> m
           | Some b \<Rightarrow> evictOverflow limit (AList.delete (fst b) m))"
  by pat_completeness auto
termination
proof (relation "measure (\<lambda>(limit, m). length m)", goal_cases)
  case (2 limit m b)
  then have "fst b \<in> set (keys_of m)" using find_oldest_any_cases [of None m b] by auto
  then show ?case by (simp add: length_delete_less)
qed simp

declare evictOverflow.simps [simp del]

definition Check ::
    "go_time \<Rightarrow> string \<Rightarrow> string \<Rightarrow> string \<Rightarrow> string \<Rightarrow> IdempotencyCache
     \<Rightarrow> IdempotencyDecision result \<times> IdempotencyCache" where
  "Check now appCode sceneCode hash fingerprint c =
     (let c1 = expire now c
      in (case map_of (ic_entries c1) (newIdempotencyKey appCode sceneCode hash) of
            None \<Rightarrow> Inr new_decision
          | Some e \<Rightarrow>
              if ie_RequestFingerprint e \<noteq> fingerprint then Inl IdempotencyConflict
              else if pending e then Inl IdempotencyConflict
              else Inr \<lparr>idec_State = IdempotencyDecisionReplay, idec_MessageID = ie_MessageID e,
                        idec_Status = Some (ie_Status e)\<rparr>,
          c1))"

text \<open>A result without error is the reservation, nil for a replay, and the decision.\<close>

definition Reserve ::
    "go_time \<Rightarrow> string \<Rightarrow> string \<Rightarrow> string \<Rightarrow> string \<Rightarrow> IdempotencyCache
     \<Rightarrow> (IdempotencyReservation option \<times> IdempotencyDecision) result \<times> IdempotencyCache" where
  "Reserve now appCode sceneCode hash fingerprint c =
     (let c1 = expire now c; key = newIdempotencyKey appCode sceneCode hash
      in case map_of (ic_entries c1) key of
           Some e \<Rightarrow>
             if ie_RequestFingerprint e \<noteq> fingerprint then (Inl IdempotencyConflict, c1)
             else if ie_Status e = IdempotencyStatusQueued then
               (Inr (None, \<lparr>idec_State = IdempotencyDecisionReplay,
                            idec_MessageID = ie_MessageID e, idec_Status = Some (ie_Status e)\<rparr>), c1)
             else (Inl IdempotencyConflict, c1)
         | None \<Rightarrow>
             (let entry = \<lparr>ie_MessageID = [], ie_RequestFingerprint = fingerprint,
                           ie_Status = IdempotencyStatusPending, ie_CreatedAt = now\<rparr>
              in case evictOverflowExceptPending (ic_limit c1)
                        (AList.update key entry (ic_entries c1)) of
                   (False, m) \<Rightarrow>
                     (Inl (Errorf ''idempotency cache capacity is full''),
                      c1\<lparr>ic_entries := AList.delete key m\<rparr>)
                 | (True, m) \<Rightarrow>
                     if map_of m key = None then
                       (Inl (Errorf ''idempotency reservation evicted before completion''),
                        c1\<lparr>ic_entries := m\<rparr>)
                     else (Inr (Some \<lparr>ir_key = key, ir_used = False\<rparr>, new_decision),
                           c1\<lparr>ic_entries := m\<rparr>)))"

definition MarkQueued ::
    "go_time \<Rightarrow> string \<Rightarrow> string \<Rightarrow> string \<Rightarrow> string \<Rightarrow> string \<Rightarrow> IdempotencyCache
     \<Rightarrow> unit result \<times> IdempotencyCache" where
  "MarkQueued now appCode sceneCode hash fingerprint messageID c =
     (if messageID = [] then (Inl (Errorf ''message id is required''), c)
      else
        let c1 = expire now c; key = newIdempotencyKey appCode sceneCode hash;
            previous = map_of (ic_entries c1) key
        in case (case previous of
                   None \<Rightarrow> None
                 | Some e \<Rightarrow>
                     if ie_RequestFingerprint e \<noteq> fingerprint then Some IdempotencyConflict
                     else if pending e then Some IdempotencyConflict
                     else if ie_MessageID e \<noteq> [] \<and> ie_MessageID e \<noteq> messageID then
                       Some (Errorf ''idempotency key is already queued'')
                     else None) of
             Some err \<Rightarrow> (Inl err, c1)
           | None \<Rightarrow>
               (let entry = \<lparr>ie_MessageID = messageID, ie_RequestFingerprint = fingerprint,
                             ie_Status = IdempotencyStatusQueued, ie_CreatedAt = now\<rparr>
                in case evictOverflowExceptPending (ic_limit c1)
                          (AList.update key entry (ic_entries c1)) of
                     (False, m) \<Rightarrow>
                       (Inl (Errorf ''idempotency cache capacity is full''),
                        c1\<lparr>ic_entries := (case previous of Some p \<Rightarrow> AList.update key p m
                                           | None \<Rightarrow> AList.delete key m)\<rparr>)
                   | (True, m) \<Rightarrow>
                       if map_of m key = None then
                         (Inl (Errorf ''idempotency queued entry evicted before completion''),
                          c1\<lparr>ic_entries := (case previous of Some p \<Rightarrow> AList.update key p m
                                             | None \<Rightarrow> m)\<rparr>)
                       else (Inr (), c1\<lparr>ic_entries := m\<rparr>)))"

definition CompleteQueued ::
    "go_time \<Rightarrow> string \<Rightarrow> IdempotencyReservation option \<Rightarrow> IdempotencyCache
     \<Rightarrow> unit result \<times> IdempotencyReservation option \<times> IdempotencyCache" where
  "CompleteQueued now messageID r c =
     (case r of
        None \<Rightarrow> (Inl (Errorf ''idempotency reservation is required''), r, c)
      | Some r' \<Rightarrow>
          if messageID = [] then (Inl (Errorf ''message id is required''), r, c)
          else if ir_used r' then (Inl (Errorf ''idempotency reservation already used''), r, c)
          else
            let r1 = Some (r'\<lparr>ir_used := True\<rparr>)
            in case map_of (ic_entries c) (ir_key r') of
                 None \<Rightarrow> (Inl (Errorf ''idempotency reservation is no longer pending''), r1, c)
               | Some e \<Rightarrow>
                   if \<not> pending e then
                     (Inl (Errorf ''idempotency reservation is no longer pending''), r1, c)
                   else
                     (Inr (), r1, c\<lparr>ic_entries := AList.update (ir_key r')
                        (e\<lparr>ie_MessageID := messageID, ie_Status := IdempotencyStatusQueued,
                           ie_CreatedAt := now\<rparr>) (ic_entries c)\<rparr>))"

definition Release ::
    "IdempotencyReservation option \<Rightarrow> IdempotencyCache
     \<Rightarrow> IdempotencyReservation option \<times> IdempotencyCache" where
  "Release r c =
     (case r of
        None \<Rightarrow> (None, c)
      | Some r' \<Rightarrow>
          if ir_used r' then (r, c)
          else (Some (r'\<lparr>ir_used := True\<rparr>),
                case map_of (ic_entries c) (ir_key r') of
                  Some e \<Rightarrow>
                    if pending e then c\<lparr>ic_entries := AList.delete (ir_key r') (ic_entries c)\<rparr>
                    else c
                | None \<Rightarrow> c))"

section \<open>Eviction\<close>

definition age_key :: "idempotencyKey \<times> idempotencyEntry \<Rightarrow> go_time \<times> idempotencyKey" where
  "age_key x = (ie_CreatedAt (snd x), fst x)"

lemma older_iff: "older x y \<longleftrightarrow> age_key x < age_key y"
  by (auto simp: older_def age_key_def less_prod_def' less_idempotencyKey_def)

lemma find_oldest_None_iff:
  "find_oldest best m = None \<longleftrightarrow> best = None \<and> (\<forall>x \<in> set m. pending (snd x))"
  by (induction best m rule: find_oldest.induct) (auto split: option.splits)

lemma find_oldest_least:
  "find_oldest best m = Some b \<Longrightarrow>
     (\<forall>x \<in> set m. pending (snd x) \<or> age_key b \<le> age_key x)
     \<and> (\<forall>y. best = Some y \<longrightarrow> age_key b \<le> age_key y)"
proof (induction best m rule: find_oldest.induct)
  case (2 best x m)
  show ?case
  proof (cases "pending (snd x)")
    case False
    then show ?thesis
      using 2 by (cases best) (auto simp: older_iff split: if_splits)
  qed (use 2 in auto)
qed auto

text \<open>The victim does not depend on the order in which the map is visited.\<close>

lemma find_oldest_perm:
  assumes wf: "wf_alist m" and perm: "mset m = mset m'"
  shows "find_oldest None m = find_oldest None m'"
proof -
  have sets: "set m = set m'" using perm by (rule mset_eq_setD)
  show ?thesis
  proof (cases "find_oldest None m")
    case None
    then have "find_oldest None m' = None" using sets by (simp add: find_oldest_None_iff)
    with None show ?thesis by simp
  next
    case (Some b)
    then have "find_oldest None m' \<noteq> None"
      using sets find_oldest_None_iff [of None m] find_oldest_None_iff [of None m'] by auto
    then obtain b' where b': "find_oldest None m' = Some b'" by blast
    have "b \<in> set m" "\<not> pending (snd b)" "b' \<in> set m" "\<not> pending (snd b')"
      using find_oldest_cases [OF Some] find_oldest_cases [OF b'] sets by auto
    moreover from this have "age_key b = age_key b'"
      using find_oldest_least [OF Some] find_oldest_least [OF b'] sets by (intro order_antisym) auto
    moreover from this have "fst b = fst b'" by (simp add: age_key_def)
    moreover have "map_of m (fst x) = Some (snd x)" if "x \<in> set m" for x
      using that map_of_mem [OF wf, of "fst x" "snd x"] by simp
    ultimately have "snd b = snd b'" using sets by (metis option.inject)
    then have "b = b'" using \<open>fst b = fst b'\<close> by (simp add: prod_eq_iff)
    then show ?thesis using Some b' by simp
  qed
qed

lemma mset_delete_perm:
  "mset m = mset m' \<Longrightarrow> mset (AList.delete k m) = mset (AList.delete k m')"
  by (simp add: AList.delete_eq mset_filter)

lemma evict_perm:
  assumes "wf_alist m" "mset m = mset m'"
  shows "fst (evictOverflowExceptPending limit m) = fst (evictOverflowExceptPending limit m')
    \<and> mset (snd (evictOverflowExceptPending limit m))
        = mset (snd (evictOverflowExceptPending limit m'))"
  using assms
proof (induction limit m arbitrary: m' rule: evictOverflowExceptPending.induct)
  case (1 limit m)
  have len: "length m = length m'" using 1(3) by (metis size_mset)
  have old: "find_oldest None m = find_oldest None m'" using 1(2,3) by (rule find_oldest_perm)
  show ?case
  proof (cases "int (length m) \<le> limit \<or> find_oldest None m = None")
    case True
    then show ?thesis using len old 1(3)
      by (auto simp: evictOverflowExceptPending.simps [of limit m]
          evictOverflowExceptPending.simps [of limit m'])
  next
    case False
    then obtain b where b: "find_oldest None m = Some b" by auto
    have "mset (AList.delete (fst b) m) = mset (AList.delete (fst b) m')"
      using 1(3) by (rule mset_delete_perm)
    then have "fst (evictOverflowExceptPending limit (AList.delete (fst b) m))
        = fst (evictOverflowExceptPending limit (AList.delete (fst b) m'))
      \<and> mset (snd (evictOverflowExceptPending limit (AList.delete (fst b) m)))
        = mset (snd (evictOverflowExceptPending limit (AList.delete (fst b) m')))"
      using 1(1) [OF _ b] False 1(2) by simp
    moreover have "evictOverflowExceptPending limit m
        = evictOverflowExceptPending limit (AList.delete (fst b) m)"
      using False b by (simp add: evictOverflowExceptPending.simps [of limit m])
    moreover have "evictOverflowExceptPending limit m'
        = evictOverflowExceptPending limit (AList.delete (fst b) m')"
      using False b old len by (simp add: evictOverflowExceptPending.simps [of limit m'])
    ultimately show ?thesis by simp
  qed
qed

lemma evict_wf: "wf_alist m \<Longrightarrow> wf_alist (snd (evictOverflowExceptPending limit m))"
proof (induction limit m rule: evictOverflowExceptPending.induct)
  case (1 limit m)
  then show ?case
    by (cases "find_oldest None m") (simp_all add: evictOverflowExceptPending.simps [of limit m])
qed

text \<open>What an insertion into a cache within its limit comes to.\<close>

lemma evict_insert_cases:
  assumes wf: "wf_alist m" and len: "int (length m) \<le> limit"
  obtains (fits) "evictOverflowExceptPending limit (AList.update k x m) = (True, AList.update k x m)"
      "int (length (AList.update k x m)) \<le> limit"
  | (full) "evictOverflowExceptPending limit (AList.update k x m) = (False, AList.update k x m)"
      "map_of m k = None" "int (length m) = limit" "\<forall>y \<in> set m. pending (snd y)" "pending x"
  | (evicted) j e where
      "evictOverflowExceptPending limit (AList.update k x m) = (True, AList.delete j (AList.update k x m))"
      "map_of (AList.update k x m) j = Some e" "\<not> pending e" "map_of m k = None"
      "int (length (AList.delete j (AList.update k x m))) \<le> limit"
      "\<forall>y \<in> set (AList.update k x m). pending (snd y) \<or> age_key (j, e) \<le> age_key y"
proof -
  define m1 where "m1 = AList.update k x m"
  have wf1: "wf_alist m1" using wf by (simp add: m1_def)
  show thesis
  proof (cases "int (length m1) \<le> limit")
    case True
    then have "evictOverflowExceptPending limit m1 = (True, m1)"
      by (simp add: evictOverflowExceptPending.simps)
    then show thesis using fits True by (simp add: m1_def)
  next
    case False
    then have new: "map_of m k = None" and len1: "length m1 = Suc (length m)"
      using len by (auto simp: m1_def length_update split: if_splits)
    have m1: "set m1 = insert (k, x) (set m)"
      using new by (simp add: m1_def update_absent)
    show thesis
    proof (cases "find_oldest None m1")
      case None
      then have "evictOverflowExceptPending limit m1 = (False, m1)"
        using False by (simp add: evictOverflowExceptPending.simps)
      then show thesis
        using full new None m1 False len len1 by (simp add: m1_def [symmetric] find_oldest_None_iff)
    next
      case (Some b)
      obtain j e where b: "b = (j, e)" by (cases b)
      have mem: "(j, e) \<in> set m1" "\<not> pending e" using find_oldest_cases [OF Some] b by auto
      then have get: "map_of m1 j = Some e" using wf1 by (simp add: map_of_mem)
      have "length (AList.delete j m1) = length m" using wf1 get len1 by (simp add: length_delete)
      moreover have "evictOverflowExceptPending limit m1 = (True, AList.delete j m1)"
        using False Some b calculation len
        by (simp add: evictOverflowExceptPending.simps [of limit m1]
            evictOverflowExceptPending.simps [of limit "AList.delete j m1"])
      ultimately show thesis
        using evicted [of j e] get mem new len find_oldest_least [OF Some] b
        by (simp add: m1_def [symmetric])
    qed
  qed
qed

section \<open>Sequences of operations\<close>

text \<open>
  The calls of concurrent handlers on one cache; reservations are handed out and used by their
  number. The log holds every key, fingerprint and message id that has been completed or marked.
\<close>

datatype idop =
    Id_check string string string string
  | Id_reserve string string string string
  | Id_mark string string string string string
  | Id_complete nat string | Id_release nat | Id_elapse nat

record idsys =
  ids_cache :: IdempotencyCache
  ids_now :: go_time
  ids_res :: "IdempotencyReservation list"
  ids_log :: "(idempotencyKey \<times> string \<times> string) list"

definition idsys_start :: "IdempotencyCache \<Rightarrow> go_time \<Rightarrow> idsys" where
  "idsys_start c t = \<lparr>ids_cache = c, ids_now = t, ids_res = [], ids_log = []\<rparr>"

definition entry_fingerprint :: "IdempotencyCache \<Rightarrow> idempotencyKey \<Rightarrow> string" where
  "entry_fingerprint c k =
     (case map_of (ic_entries c) k of None \<Rightarrow> [] | Some e \<Rightarrow> ie_RequestFingerprint e)"

fun idexec :: "idop \<Rightarrow> idsys \<Rightarrow> idsys" where
  "idexec (Id_check a sc h f) s = s\<lparr>ids_cache := snd (Check (ids_now s) a sc h f (ids_cache s))\<rparr>"
| "idexec (Id_reserve a sc h f) s =
     (case Reserve (ids_now s) a sc h f (ids_cache s) of
        (Inr (Some r, _), c) \<Rightarrow> s\<lparr>ids_cache := c, ids_res := ids_res s @ [r]\<rparr>
      | (_, c) \<Rightarrow> s\<lparr>ids_cache := c\<rparr>)"
| "idexec (Id_mark a sc h f msg) s =
     (case MarkQueued (ids_now s) a sc h f msg (ids_cache s) of
        (e, c) \<Rightarrow> s\<lparr>ids_cache := c,
                   ids_log := ids_log s
                     @ (if isl e then [] else [(newIdempotencyKey a sc h, f, msg)])\<rparr>)"
| "idexec (Id_complete i msg) s =
     (if i < length (ids_res s) then
        (case CompleteQueued (ids_now s) msg (Some (ids_res s ! i)) (ids_cache s) of
           (e, r, c) \<Rightarrow>
             s\<lparr>ids_cache := c, ids_res := (ids_res s)[i := the r],
               ids_log := ids_log s @ (if isl e then [] else
                 [(ir_key (ids_res s ! i),
                   entry_fingerprint (ids_cache s) (ir_key (ids_res s ! i)), msg)])\<rparr>)
      else s)"
| "idexec (Id_release i) s =
     (if i < length (ids_res s) then
        (case Release (Some (ids_res s ! i)) (ids_cache s) of
           (r, c) \<Rightarrow> s\<lparr>ids_cache := c, ids_res := (ids_res s)[i := the r]\<rparr>)
      else s)"
| "idexec (Id_elapse n) s = s\<lparr>ids_now := ids_now s + int n\<rparr>"

definition idrun :: "idop list \<Rightarrow> idsys \<Rightarrow> idsys" where
  "idrun ops s = fold idexec ops s"

text \<open>
  The invariant: the cache is within its limit; the pending entries are exactly those of the
  reservations not yet used, one each; every queued entry was completed or marked.
\<close>

definition cache_ok :: "IdempotencyCache \<Rightarrow> bool" where
  "cache_ok c \<longleftrightarrow>
     wf_alist (ic_entries c) \<and> int (length (ic_entries c)) \<le> ic_limit c \<and> 0 < ic_limit c"

definition pending_keys :: "IdempotencyCache \<Rightarrow> idempotencyKey set" where
  "pending_keys c = {k. \<exists>e. map_of (ic_entries c) k = Some e \<and> pending e}"

definition open_keys :: "IdempotencyReservation list \<Rightarrow> idempotencyKey list" where
  "open_keys rs = map ir_key (filter (\<lambda>r. \<not> ir_used r) rs)"

definition log_ok :: "IdempotencyCache \<Rightarrow> (idempotencyKey \<times> string \<times> string) list \<Rightarrow> bool" where
  "log_ok c log \<longleftrightarrow>
     (\<forall>k e. map_of (ic_entries c) k = Some e \<longrightarrow> \<not> pending e \<longrightarrow>
        (k, ie_RequestFingerprint e, ie_MessageID e) \<in> set log)"

definition id_inv :: "idsys \<Rightarrow> bool" where
  "id_inv s \<longleftrightarrow>
     cache_ok (ids_cache s) \<and> distinct (open_keys (ids_res s))
     \<and> set (open_keys (ids_res s)) = pending_keys (ids_cache s)
     \<and> log_ok (ids_cache s) (ids_log s)"

lemma map_of_expire:
  "wf_alist (ic_entries c) \<Longrightarrow> map_of (ic_entries (expire now c)) k =
     (case map_of (ic_entries c) k of
        None \<Rightarrow> None
      | Some e \<Rightarrow> if pending e \<or> now - ic_ttl c < ie_CreatedAt e then Some e else None)"
  by (simp add: expire_def map_of_filter_alist split: option.split)

lemma expire_fields [simp]:
  "ic_ttl (expire now c) = ic_ttl c" "ic_limit (expire now c) = ic_limit c"
  by (simp_all add: expire_def)

lemma cache_ok_expire [simp]: "cache_ok c \<Longrightarrow> cache_ok (expire now c)"
  by (auto simp: cache_ok_def expire_def intro: order_trans [OF of_nat_mono [OF length_filter_le]])

lemma pending_keys_expire [simp]: "cache_ok c \<Longrightarrow> pending_keys (expire now c) = pending_keys c"
  by (auto simp: pending_keys_def cache_ok_def map_of_expire split: option.splits)

lemma log_ok_expire [simp]: "cache_ok c \<Longrightarrow> log_ok c log \<Longrightarrow> log_ok (expire now c) log"
  by (auto simp: log_ok_def cache_ok_def map_of_expire split: option.splits if_splits)

definition pending_entry :: "go_time \<Rightarrow> string \<Rightarrow> idempotencyEntry" where
  "pending_entry now fingerprint = \<lparr>ie_MessageID = [], ie_RequestFingerprint = fingerprint,
     ie_Status = IdempotencyStatusPending, ie_CreatedAt = now\<rparr>"

lemma Reserve_cases:
  assumes ok: "cache_ok c"
    and c1_def: "c1 = expire now c" and key_def: "key = newIdempotencyKey a sc h"
  obtains (conflict) e where "map_of (ic_entries c1) key = Some e"
      "ie_RequestFingerprint e \<noteq> f \<or> pending e"
      "Reserve now a sc h f c = (Inl IdempotencyConflict, c1)"
  | (replay) e where "map_of (ic_entries c1) key = Some e"
      "ie_RequestFingerprint e = f" "\<not> pending e"
      "Reserve now a sc h f c = (Inr (None, \<lparr>idec_State = IdempotencyDecisionReplay,
           idec_MessageID = ie_MessageID e, idec_Status = Some IdempotencyStatusQueued\<rparr>), c1)"
  | (full) "map_of (ic_entries c1) key = None" "int (length (ic_entries c1)) = ic_limit c"
      "\<forall>y \<in> set (ic_entries c1). pending (snd y)"
      "Reserve now a sc h f c = (Inl (Errorf ''idempotency cache capacity is full''), c1)"
  | (fits) "map_of (ic_entries c1) key = None"
      "int (length (AList.update key (pending_entry now f) (ic_entries c1))) \<le> ic_limit c"
      "Reserve now a sc h f c = (Inr (Some \<lparr>ir_key = key, ir_used = False\<rparr>, new_decision),
         c1\<lparr>ic_entries := AList.update key (pending_entry now f) (ic_entries c1)\<rparr>)"
  | (evicted) j e where "map_of (ic_entries c1) key = None" "j \<noteq> key"
      "map_of (ic_entries c1) j = Some e" "\<not> pending e"
      "\<forall>y \<in> set (ic_entries c1). pending (snd y) \<or> age_key (j, e) \<le> age_key y"
      "int (length (AList.delete j (AList.update key (pending_entry now f) (ic_entries c1))))
         \<le> ic_limit c"
      "Reserve now a sc h f c = (Inr (Some \<lparr>ir_key = key, ir_used = False\<rparr>, new_decision),
         c1\<lparr>ic_entries := AList.delete j
              (AList.update key (pending_entry now f) (ic_entries c1))\<rparr>)"
proof (cases "map_of (ic_entries c1) key")
  case (Some e)
  show thesis
  proof (cases "ie_RequestFingerprint e \<noteq> f \<or> pending e")
    case True
    then show thesis using conflict [of e] Some
      by (simp add: Reserve_def Let_def flip: c1_def key_def)
  next
    case False
    then have "ie_Status e = IdempotencyStatusQueued" by (cases "ie_Status e") auto
    then show thesis using replay [of e] False Some
      by (simp add: Reserve_def Let_def flip: c1_def key_def)
  qed
next
  case None
  have ok1: "wf_alist (ic_entries c1)" "int (length (ic_entries c1)) \<le> ic_limit c"
    using cache_ok_expire [OF ok, of now] by (simp_all add: cache_ok_def c1_def)
  have lim: "ic_limit c1 = ic_limit c" by (simp add: c1_def)
  note unfold = Reserve_def Let_def pending_entry_def lim
  show thesis
  proof (cases rule: evict_insert_cases [OF ok1, of key "pending_entry now f"])
    case 1
    then show thesis using fits None
      by (simp add: unfold update_conv' flip: c1_def key_def)
  next
    case 2
    then show thesis using full None
      by (simp add: unfold delete_update_absent flip: c1_def key_def)
  next
    case (3 j e)
    then have j: "j \<noteq> key" "map_of (ic_entries c1) j = Some e"
      by (auto simp: update_conv' pending_entry_def split: if_splits)
    have "set (ic_entries c1) \<subseteq> set (AList.update key (pending_entry now f) (ic_entries c1))"
      using None by (auto simp: update_absent)
    then have "\<forall>y \<in> set (ic_entries c1). pending (snd y) \<or> age_key (j, e) \<le> age_key y"
      using 3 by blast
    then show thesis using evicted [of j e] None 3 j
      by (simp add: unfold update_conv' delete_conv' flip: c1_def key_def)
  qed
qed

lemma open_keys_append: "open_keys (rs @ [r]) = open_keys rs @ (if ir_used r then [] else [ir_key r])"
  by (simp add: open_keys_def)

lemma cache_ok_wf: "cache_ok c \<Longrightarrow> wf_alist (ic_entries c)"
  by (simp add: cache_ok_def)

lemma id_inv_check [inv_intros]: "id_inv s \<Longrightarrow> id_inv (idexec (Id_check a sc h f) s)"
  by (auto simp: id_inv_def Check_def Let_def)

lemma id_inv_elapse [inv_intros]: "id_inv s \<Longrightarrow> id_inv (idexec (Id_elapse n) s)"
  by (simp add: id_inv_def)

text \<open>A fresh pending entry, with or without one queued entry evicted.\<close>

lemma id_inv_insert:
  assumes inv: "id_inv s" and c1: "c1 = expire (ids_now s) (ids_cache s)"
    and new: "map_of (ic_entries c1) key = None"
    and m: "wf_alist m" "int (length m) \<le> ic_limit (ids_cache s)"
      "map_of m = (map_of (ic_entries c1))(key \<mapsto> pending_entry t f)
       \<or> (\<exists>j e. j \<noteq> key \<and> map_of (ic_entries c1) j = Some e \<and> \<not> pending e
            \<and> map_of m = (map_of (ic_entries c1))(key \<mapsto> pending_entry t f, j := None))"
  shows "id_inv (s\<lparr>ids_cache := c1\<lparr>ic_entries := m\<rparr>,
                   ids_res := ids_res s @ [\<lparr>ir_key = key, ir_used = False\<rparr>]\<rparr>)"
proof -
  have ok: "cache_ok (ids_cache s)" using inv by (simp add: id_inv_def)
  have pend: "pending_keys c1 = set (open_keys (ids_res s))"
    using inv ok by (simp add: id_inv_def c1)
  have fresh: "key \<notin> set (open_keys (ids_res s))"
    using new unfolding pend [symmetric] by (simp add: pending_keys_def)
  have "pending_keys (c1\<lparr>ic_entries := m\<rparr>) = insert key (pending_keys c1)"
    using m(3) new by (auto simp: pending_keys_def pending_entry_def split: if_splits)
  moreover have "log_ok (c1\<lparr>ic_entries := m\<rparr>) (ids_log s)"
    using inv log_ok_expire [OF ok, of "ids_log s" "ids_now s", folded c1] m(3)
    by (auto simp: id_inv_def log_ok_def pending_entry_def split: if_splits)
  moreover have "cache_ok (c1\<lparr>ic_entries := m\<rparr>)" using ok m by (simp add: cache_ok_def c1)
  ultimately show ?thesis
    using inv pend fresh by (simp add: id_inv_def open_keys_append)
qed

lemma id_inv_expire: "id_inv s \<Longrightarrow> id_inv (s\<lparr>ids_cache := expire now (ids_cache s)\<rparr>)"
  by (simp add: id_inv_def)

lemma id_inv_reserve [inv_intros]:
  assumes inv: "id_inv s"
  shows "id_inv (idexec (Id_reserve a sc h f) s)"
proof -
  have ok: "cache_ok (ids_cache s)" using inv by (simp add: id_inv_def)
  have wf: "wf_alist (ic_entries (expire (ids_now s) (ids_cache s)))"
    using ok by (intro cache_ok_wf) simp
  show ?thesis
  proof (cases rule: Reserve_cases [OF ok refl refl, of "ids_now s" a sc h f])
    case 4
    show ?thesis
      using id_inv_insert [OF inv refl 4(1) _ 4(2) disjI1] wf 4(3) by (simp add: update_conv')
  next
    case (5 j e)
    show ?thesis
      using id_inv_insert [OF inv refl 5(1) _ 5(6) disjI2 [OF exI [of _ j]]] wf 5(2,3,4,7)
      by (simp add: update_conv' delete_conv')
  qed (use id_inv_expire [OF inv] in simp_all)
qed

definition queued_entry :: "go_time \<Rightarrow> string \<Rightarrow> string \<Rightarrow> idempotencyEntry" where
  "queued_entry now fingerprint messageID =
     \<lparr>ie_MessageID = messageID, ie_RequestFingerprint = fingerprint,
      ie_Status = IdempotencyStatusQueued, ie_CreatedAt = now\<rparr>"

lemma complete_entry:
  "e\<lparr>ie_MessageID := msg, ie_Status := IdempotencyStatusQueued, ie_CreatedAt := now\<rparr>
     = queued_entry now (ie_RequestFingerprint e) msg"
  by (cases e) (simp add: queued_entry_def)

lemma MarkQueued_cases:
  assumes ok: "cache_ok c"
    and c1_def: "c1 = expire now c" and key_def: "key = newIdempotencyKey a sc h"
  obtains (no_id) err where "MarkQueued now a sc h f msg c = (Inl err, c)"
  | (rejected) err where "MarkQueued now a sc h f msg c = (Inl err, c1)"
  | (marked) m where "MarkQueued now a sc h f msg c = (Inr (), c1\<lparr>ic_entries := m\<rparr>)"
      "key \<notin> pending_keys c1" "wf_alist m" "int (length m) \<le> ic_limit c"
      "map_of m = (map_of (ic_entries c1))(key \<mapsto> queued_entry now f msg)
       \<or> (\<exists>j e. j \<noteq> key \<and> map_of (ic_entries c1) j = Some e \<and> \<not> pending e
            \<and> map_of m = (map_of (ic_entries c1))(key \<mapsto> queued_entry now f msg, j := None))"
proof (cases "msg = []")
  case True
  then show thesis by (intro no_id) (simp add: MarkQueued_def)
next
  case msg: False
  have lim: "ic_limit c1 = ic_limit c" by (simp add: c1_def)
  note unfold = MarkQueued_def Let_def queued_entry_def lim c1_def [symmetric] key_def [symmetric]
  define reason where "reason = (case map_of (ic_entries c1) key of
                   None \<Rightarrow> None
                 | Some e \<Rightarrow>
                     if ie_RequestFingerprint e \<noteq> f then Some IdempotencyConflict
                     else if pending e then Some IdempotencyConflict
                     else if ie_MessageID e \<noteq> [] \<and> ie_MessageID e \<noteq> msg then
                       Some (Errorf ''idempotency key is already queued'')
                     else None)"
  show thesis
  proof (cases reason)
    case (Some err)
    then show thesis using msg rejected [of err]
      by (simp add: unfold reason_def [symmetric])
  next
    case None
    then have fresh: "key \<notin> pending_keys c1"
      by (auto simp: reason_def pending_keys_def split: option.splits if_splits)
    have ok1: "wf_alist (ic_entries c1)" "int (length (ic_entries c1)) \<le> ic_limit c"
      using cache_ok_expire [OF ok, of now] by (simp_all add: cache_ok_def c1_def)
    show thesis
    proof (cases rule: evict_insert_cases [OF ok1, of key "queued_entry now f msg"])
      case 1
      show thesis
        by (rule marked [of "AList.update key (queued_entry now f msg) (ic_entries c1)"])
          (use msg None 1 fresh ok1 in
            \<open>simp_all add: unfold reason_def [symmetric] update_conv'\<close>)
    next
      case 2
      then show thesis by (simp add: queued_entry_def)
    next
      case (3 j e)
      show thesis
      proof (cases "j = key")
        case True
        show thesis
          by (rule rejected) (use True msg None 3 in
            \<open>simp add: unfold reason_def [symmetric] delete_conv' delete_update_absent\<close>)
      next
        case False
        show thesis
          by (rule marked [of "AList.delete j (AList.update key (queued_entry now f msg) (ic_entries c1))"])
            (use False msg None 3 fresh ok1 in
              \<open>auto simp: unfold reason_def [symmetric] update_conv' delete_conv' split: if_splits\<close>)
      qed
    qed
  qed
qed

lemma log_ok_append: "log_ok c log \<Longrightarrow> log_ok c (log @ log')"
  by (auto simp: log_ok_def)

lemma id_inv_mark [inv_intros]:
  assumes inv: "id_inv s"
  shows "id_inv (idexec (Id_mark a sc h f msg) s)"
proof -
  let ?c1 = "expire (ids_now s) (ids_cache s)" and ?key = "newIdempotencyKey a sc h"
  have ok: "cache_ok (ids_cache s)" using inv by (simp add: id_inv_def)
  show ?thesis
  proof (cases rule: MarkQueued_cases [OF ok refl refl, of "ids_now s" a sc h f msg])
    case (3 m)
    have "pending_keys (?c1\<lparr>ic_entries := m\<rparr>) = pending_keys ?c1"
      using 3(2,5) by (auto simp: pending_keys_def queued_entry_def split: if_splits)
    moreover have "log_ok (?c1\<lparr>ic_entries := m\<rparr>) (ids_log s @ [(?key, f, msg)])"
      using inv log_ok_expire [OF ok, of "ids_log s" "ids_now s"] 3(5)
      by (auto simp: id_inv_def log_ok_def queued_entry_def split: if_splits)
    moreover have "cache_ok (?c1\<lparr>ic_entries := m\<rparr>)" using ok 3 by (simp add: cache_ok_def)
    ultimately show ?thesis using inv ok 3(1) by (simp add: id_inv_def)
  qed (use inv id_inv_expire [OF inv] in simp_all)
qed

lemma open_keys_use:
  "i < length rs \<Longrightarrow> \<not> ir_used (rs ! i) \<Longrightarrow> distinct (open_keys rs) \<Longrightarrow>
     distinct (open_keys (rs[i := r\<lparr>ir_used := True\<rparr>]))
     \<and> set (open_keys (rs[i := r\<lparr>ir_used := True\<rparr>])) = set (open_keys rs) - {ir_key (rs ! i)}"
proof (induction rs arbitrary: i)
  case (Cons x rs)
  then show ?case by (cases i) (auto simp: open_keys_def split: if_splits)
qed simp

lemma id_inv_open_entry:
  assumes "id_inv s" "i < length (ids_res s)" "\<not> ir_used (ids_res s ! i)"
  obtains e where "map_of (ic_entries (ids_cache s)) (ir_key (ids_res s ! i)) = Some e" "pending e"
proof -
  have "ir_key (ids_res s ! i) \<in> set (open_keys (ids_res s))"
    using assms(2,3) by (auto simp: open_keys_def)
  then show thesis using assms(1) that by (auto simp: id_inv_def pending_keys_def)
qed

lemma id_inv_complete [inv_intros]:
  assumes inv: "id_inv s"
  shows "id_inv (idexec (Id_complete i msg) s)"
proof (cases "i < length (ids_res s) \<and> \<not> ir_used (ids_res s ! i) \<and> msg \<noteq> []")
  case True
  define k where "k = ir_key (ids_res s ! i)"
  obtain e where e: "map_of (ic_entries (ids_cache s)) k = Some e" "pending e"
    using id_inv_open_entry [OF inv] True k_def by metis
  define e' where "e' = e\<lparr>ie_MessageID := msg, ie_Status := IdempotencyStatusQueued,
                           ie_CreatedAt := ids_now s\<rparr>"
  let ?m = "AList.update k e' (ic_entries (ids_cache s))"
  have ok: "cache_ok (ids_cache s)" using inv by (simp add: id_inv_def)
  have "cache_ok (ids_cache s\<lparr>ic_entries := ?m\<rparr>)"
    using ok e by (simp add: cache_ok_def length_update)
  moreover have "pending_keys (ids_cache s\<lparr>ic_entries := ?m\<rparr>) = pending_keys (ids_cache s) - {k}"
    by (auto simp: pending_keys_def update_conv' e'_def split: if_splits)
  moreover have "log_ok (ids_cache s\<lparr>ic_entries := ?m\<rparr>)
      (ids_log s @ [(k, entry_fingerprint (ids_cache s) k, msg)])"
    using inv e by (auto simp: id_inv_def log_ok_def update_conv' e'_def entry_fingerprint_def
        split: if_splits)
  ultimately show ?thesis
    using inv True e open_keys_use [of i "ids_res s" "ids_res s ! i"]
    by (simp add: id_inv_def CompleteQueued_def Let_def flip: k_def e'_def)
next
  case False
  then have "idexec (Id_complete i msg) s = s" by (auto simp: CompleteQueued_def Let_def)
  then show ?thesis using inv by simp
qed

lemma id_inv_release [inv_intros]:
  assumes inv: "id_inv s"
  shows "id_inv (idexec (Id_release i) s)"
proof (cases "i < length (ids_res s) \<and> \<not> ir_used (ids_res s ! i)")
  case True
  define k where "k = ir_key (ids_res s ! i)"
  obtain e where e: "map_of (ic_entries (ids_cache s)) k = Some e" "pending e"
    using id_inv_open_entry [OF inv] True k_def by metis
  let ?m = "AList.delete k (ic_entries (ids_cache s))"
  have ok: "cache_ok (ids_cache s)" using inv by (simp add: id_inv_def)
  have "cache_ok (ids_cache s\<lparr>ic_entries := ?m\<rparr>)"
    using ok by (auto simp: cache_ok_def length_delete)
  moreover have "pending_keys (ids_cache s\<lparr>ic_entries := ?m\<rparr>) = pending_keys (ids_cache s) - {k}"
    by (auto simp: pending_keys_def delete_conv' split: if_splits)
  moreover have "log_ok (ids_cache s\<lparr>ic_entries := ?m\<rparr>) (ids_log s)"
    using inv by (auto simp: id_inv_def log_ok_def delete_conv' split: if_splits)
  ultimately show ?thesis
    using inv True e open_keys_use [of i "ids_res s" "ids_res s ! i"]
    by (simp add: id_inv_def Release_def flip: k_def)
next
  case False
  then have "idexec (Id_release i) s = s" by (auto simp: Release_def)
  then show ?thesis using inv by simp
qed

lemma id_inv_start: "NewIdempotencyCache n ttl = Inr c \<Longrightarrow> id_inv (idsys_start c t)"
  by (auto simp: NewIdempotencyCache_def idsys_start_def id_inv_def cache_ok_def open_keys_def
      pending_keys_def log_ok_def split: if_splits)

lemma id_inv_exec: "id_inv s \<Longrightarrow> id_inv (idexec op s)"
  by (cases op) (blast intro: inv_intros)+

lemma id_inv_run: "id_inv s \<Longrightarrow> id_inv (idrun ops s)"
  unfolding idrun_def by (induction ops arbitrary: s) (simp_all add: id_inv_exec)

lemma id_inv_reachable: "NewIdempotencyCache n ttl = Inr c \<Longrightarrow> id_inv (idrun ops (idsys_start c t))"
  by (simp add: id_inv_start id_inv_run)

section \<open>Properties\<close>

text \<open>The example: a cache of one entry, a request reserved, completed and asked for again.\<close>

definition sample_cache :: IdempotencyCache where
  "sample_cache = \<lparr>ic_ttl = 10, ic_limit = 1, ic_entries = []\<rparr>"

definition sample_id_ops :: "idop list" where
  "sample_id_ops = [Id_reserve ''app'' ''login'' ''h1'' ''f1'', Id_elapse 1,
                    Id_reserve ''app'' ''login'' ''h2'' ''f2'']"

lemma sample_cache_new: "NewIdempotencyCache 1 10 = Inr sample_cache"
  by (simp add: NewIdempotencyCache_def sample_cache_def)

text \<open>
  C18. Over every sequence of checks, reservations, completions, releases and passing time, the
  cache holds at most its capacity of entries, and its pending entries are exactly those of the
  reservations that have not been used, each reservation with a key of its own: a pending entry
  neither expires nor is evicted, and none is left behind.
\<close>

theorem idempotency_pending_exact:
  assumes "NewIdempotencyCache n ttl = Inr c" "s = idrun ops (idsys_start c t)"
  shows "int (length (ic_entries (ids_cache s))) \<le> ic_limit (ids_cache s)
    \<and> pending_keys (ids_cache s) = set (open_keys (ids_res s))
    \<and> distinct (open_keys (ids_res s))"
  using id_inv_reachable [OF assms(1), of ops t] assms(2)
  by (simp add: id_inv_def cache_ok_def)

lemma idempotency_pending_exact_witness:
  "pending_keys (ids_cache (idrun sample_id_ops (idsys_start sample_cache 0)))
     = {newIdempotencyKey ''app'' ''login'' ''h1''}"
proof -
  let ?s = "idrun sample_id_ops (idsys_start sample_cache 0)"
  have "open_keys (ids_res ?s) = [newIdempotencyKey ''app'' ''login'' ''h1'']" by code_simp
  then show ?thesis using idempotency_pending_exact [OF sample_cache_new refl, of sample_id_ops 0]
    by simp
qed

text \<open>
  Completing a reservation cannot fail: after every such sequence, a reservation that was
  handed out and not used turns its key into a queued entry with the message id, whatever the
  other handlers did meanwhile.
\<close>

theorem CompleteQueued_succeeds:
  assumes "NewIdempotencyCache n ttl = Inr c" "s = idrun ops (idsys_start c t)"
    and "i < length (ids_res s)" "\<not> ir_used (ids_res s ! i)" "msg \<noteq> []"
  shows "\<exists>e. map_of (ic_entries (ids_cache s)) (ir_key (ids_res s ! i)) = Some e \<and> pending e
    \<and> CompleteQueued now msg (Some (ids_res s ! i)) (ids_cache s)
        = (Inr (), Some ((ids_res s ! i)\<lparr>ir_used := True\<rparr>),
           ids_cache s\<lparr>ic_entries := AList.update (ir_key (ids_res s ! i))
             (queued_entry now (ie_RequestFingerprint e) msg) (ic_entries (ids_cache s))\<rparr>)"
proof -
  have "id_inv s" using id_inv_reachable [OF assms(1)] assms(2) by simp
  then obtain e where "map_of (ic_entries (ids_cache s)) (ir_key (ids_res s ! i)) = Some e" "pending e"
    using id_inv_open_entry assms(3,4) by metis
  then show ?thesis using assms(4,5)
    by (intro exI [of _ e]) (simp add: CompleteQueued_def Let_def complete_entry)
qed

lemma CompleteQueued_succeeds_witness:
  "\<exists>r c. CompleteQueued 2 ''m1''
           (Some (ids_res (idrun sample_id_ops (idsys_start sample_cache 0)) ! 0))
           (ids_cache (idrun sample_id_ops (idsys_start sample_cache 0))) = (Inr (), r, c)"
proof -
  let ?s = "idrun sample_id_ops (idsys_start sample_cache 0)"
  have "0 < length (ids_res ?s)" "\<not> ir_used (ids_res ?s ! 0)" by code_simp+
  then show ?thesis
    using CompleteQueued_succeeds [OF sample_cache_new refl, of 0 sample_id_ops 0 "''m1''" 2]
    by auto
qed



text \<open>
  C21. A replay is truthful: after any sequence of calls, the message id that \<open>Reserve\<close> returns for a
  replay was completed or marked under that key and that request fingerprint.
\<close>

theorem Reserve_replays:
  assumes "NewIdempotencyCache n ttl = Inr c" "s = idrun ops (idsys_start c t)"
    and "Reserve (ids_now s) a sc h f (ids_cache s) = (Inr (None, d), c')"
  shows "idec_State d = IdempotencyDecisionReplay
    \<and> (newIdempotencyKey a sc h, f, idec_MessageID d) \<in> set (ids_log s)"
proof -
  have inv: "id_inv s" using id_inv_reachable [OF assms(1)] assms(2) by simp
  then have ok: "cache_ok (ids_cache s)" by (simp add: id_inv_def)
  have "log_ok (expire (ids_now s) (ids_cache s)) (ids_log s)"
    using inv ok by (simp add: id_inv_def)
  then show ?thesis
    using assms(3)
    by (cases rule: Reserve_cases [OF ok refl refl, of "ids_now s" a sc h f])
      (auto simp: log_ok_def)
qed

lemma Reserve_replays_witness:
  "(newIdempotencyKey ''app'' ''login'' ''h1'', ''f1'', ''m1'')
     \<in> set (ids_log (idrun [Id_reserve ''app'' ''login'' ''h1'' ''f1'', Id_complete 0 ''m1'']
               (idsys_start sample_cache 0)))"
proof -
  let ?ops = "[Id_reserve ''app'' ''login'' ''h1'' ''f1'', Id_complete 0 ''m1'']"
  let ?s = "idrun ?ops (idsys_start sample_cache 0)"
  let ?d = "\<lparr>idec_State = IdempotencyDecisionReplay, idec_MessageID = ''m1'',
             idec_Status = Some IdempotencyStatusQueued\<rparr>"
  have "Reserve (ids_now ?s) ''app'' ''login'' ''h1'' ''f1'' (ids_cache ?s)
      = (Inr (None, ?d), snd (Reserve (ids_now ?s) ''app'' ''login'' ''h1'' ''f1'' (ids_cache ?s)))"
    by code_simp
  from Reserve_replays [OF sample_cache_new refl this] show ?thesis by simp
qed

text \<open>
  A completed request is replayed, not repeated: once a reservation is completed at time \<open>t\<close>, a
  \<open>Reserve\<close> of its key before the TTL has passed returns the same message id for the same
  fingerprint and a conflict for any other.
\<close>

theorem Reserve_after_complete:
  assumes ok: "cache_ok c" and r: "ir_key r = newIdempotencyKey a sc h"
    and entry: "map_of (ic_entries c) (ir_key r) = Some e"
    and compl: "CompleteQueued t msg (Some r) c = (Inr (), r', c')"
    and time: "t \<le> t'" "t' < t + ic_ttl c"
  shows "fst (Reserve t' a sc h f c') =
    (if f = ie_RequestFingerprint e
     then Inr (None, \<lparr>idec_State = IdempotencyDecisionReplay, idec_MessageID = msg,
                      idec_Status = Some IdempotencyStatusQueued\<rparr>)
     else Inl IdempotencyConflict)"
proof -
  define e' where "e' = e\<lparr>ie_MessageID := msg, ie_Status := IdempotencyStatusQueued,
                           ie_CreatedAt := t\<rparr>"
  have c': "c' = c\<lparr>ic_entries := AList.update (ir_key r) e' (ic_entries c)\<rparr>"
    using compl entry by (auto simp: CompleteQueued_def Let_def e'_def split: if_splits)
  have "wf_alist (ic_entries c')" "ic_ttl c' = ic_ttl c" "ic_limit c' = ic_limit c"
    using ok by (simp_all add: c' cache_ok_def)
  then have "map_of (ic_entries (expire t' c')) (newIdempotencyKey a sc h) = Some e'"
    using time r by (simp add: map_of_expire c' update_conv' e'_def)
  then show ?thesis by (auto simp: Reserve_def Let_def e'_def)
qed

lemma Reserve_after_complete_witness:
  "fst (Reserve 4 ''app'' ''login'' ''h1'' ''f2''
         (ids_cache (idrun [Id_reserve ''app'' ''login'' ''h1'' ''f1'', Id_complete 0 ''m1'']
            (idsys_start sample_cache 0)))) = Inl IdempotencyConflict"
proof -
  define c where "c = ids_cache (idrun [Id_reserve ''app'' ''login'' ''h1'' ''f1'']
                                   (idsys_start sample_cache 0))"
  define c' where "c' = ids_cache (idrun [Id_reserve ''app'' ''login'' ''h1'' ''f1'',
                                      Id_complete 0 ''m1''] (idsys_start sample_cache 0))"
  let ?r = "\<lparr>ir_key = newIdempotencyKey ''app'' ''login'' ''h1'', ir_used = False\<rparr>"
  have c: "c = \<lparr>ic_ttl = 10, ic_limit = 1, ic_entries =
       [(newIdempotencyKey ''app'' ''login'' ''h1'', pending_entry 0 ''f1'')]\<rparr>"
    unfolding c_def by code_simp
  have c': "c' = \<lparr>ic_ttl = 10, ic_limit = 1, ic_entries =
       [(newIdempotencyKey ''app'' ''login'' ''h1'', queued_entry 0 ''f1'' ''m1'')]\<rparr>"
    unfolding c'_def by code_simp
  have "CompleteQueued 0 ''m1'' (Some ?r) c = (Inr (), Some (?r\<lparr>ir_used := True\<rparr>), c')"
    unfolding c c' by (simp add: CompleteQueued_def Let_def pending_entry_def queued_entry_def)
  moreover have "cache_ok c" unfolding c by (simp add: cache_ok_def wf_alist_def)
  ultimately have "fst (Reserve 4 ''app'' ''login'' ''h1'' ''f2'' c') = Inl IdempotencyConflict"
    using Reserve_after_complete [of c ?r "''app''" "''login''" "''h1''" "pending_entry 0 ''f1''"
        0 "''m1''" "Some (?r\<lparr>ir_used := True\<rparr>)" c' 4 "''f2''"]
    by (simp add: c pending_entry_def)
  then show ?thesis by (simp add: c'_def)
qed

text \<open>
  Map order does not matter: on two caches with the same entries in different orders, the order
  in which Go happens to visit the map, \<open>Reserve\<close> gives the same result and caches with the same
  entries; so the entry an overflow evicts is determined.
\<close>

theorem Reserve_map_order:
  assumes "cache_ok c" "mset m = mset (ic_entries c)"
  shows "fst (Reserve now a sc h f (c\<lparr>ic_entries := m\<rparr>)) = fst (Reserve now a sc h f c)
    \<and> mset (ic_entries (snd (Reserve now a sc h f (c\<lparr>ic_entries := m\<rparr>))))
        = mset (ic_entries (snd (Reserve now a sc h f c)))"
proof -
  let ?live = "\<lambda>(k, e). pending e \<or> now - ic_ttl c < ie_CreatedAt e"
  define m0 m1 where "m0 = filter ?live (ic_entries c)" and "m1 = filter ?live m"
  define key where "key = newIdempotencyKey a sc h"
  define x where "x = pending_entry now f"
  have wf: "wf_alist m0" using assms(1) by (simp add: m0_def cache_ok_def)
  have perm: "mset m0 = mset m1" using assms(2) by (simp add: m0_def m1_def)
  have get: "map_of m1 = map_of m0" using map_of_perm [OF wf perm] by simp
  show ?thesis
  proof (cases "map_of m0 key")
    case (Some e)
    then show ?thesis using perm get
      by (simp add: Reserve_def expire_def Let_def flip: m0_def m1_def key_def)
  next
    case None
    let ?u0 = "AList.update key x m0" and ?u1 = "AList.update key x m1"
    have "mset ?u0 = mset ?u1" using None get perm by (simp add: update_absent)
    from evict_perm [OF _ this, of "ic_limit c"] wf
    have ev: "fst (evictOverflowExceptPending (ic_limit c) ?u0)
          = fst (evictOverflowExceptPending (ic_limit c) ?u1)"
        "mset (snd (evictOverflowExceptPending (ic_limit c) ?u0))
          = mset (snd (evictOverflowExceptPending (ic_limit c) ?u1))"
      by simp_all
    have "wf_alist (snd (evictOverflowExceptPending (ic_limit c) ?u0))"
      using evict_wf wf by simp
    from map_of_perm [OF this ev(2)] show ?thesis
      using None get ev
      by (auto simp: Reserve_def expire_def Let_def x_def pending_entry_def
          split: prod.splits bool.splits intro: mset_delete_perm simp flip: m0_def m1_def key_def)
  qed
qed

lemma Reserve_map_order_witness:
  "\<exists>m m'. m \<noteq> m' \<and> mset m = mset m'
     \<and> mset (ic_entries (snd (Reserve 5 ''app'' ''login'' ''h3'' ''f3'' (sample_cache\<lparr>ic_limit := 2, ic_entries := m\<rparr>))))
       = mset (ic_entries (snd (Reserve 5 ''app'' ''login'' ''h3'' ''f3''
                 (sample_cache\<lparr>ic_limit := 2, ic_entries := m'\<rparr>))))"
proof -
  let ?a = "(newIdempotencyKey ''app'' ''login'' ''h1'', queued_entry 1 ''f1'' ''m1'')"
  let ?b = "(newIdempotencyKey ''app'' ''login'' ''h2'', queued_entry 1 ''f2'' ''m2'')"
  let ?c = "sample_cache\<lparr>ic_limit := 2, ic_entries := [?a, ?b]\<rparr>"
  have ok: "cache_ok ?c" by (simp add: cache_ok_def wf_alist_def newIdempotencyKey_def)
  have perm: "mset [?b, ?a] = mset (ic_entries ?c)" by simp
  have "[?b, ?a] \<noteq> [?a, ?b]" by (simp add: newIdempotencyKey_def)
  then show ?thesis
    using Reserve_map_order [OF ok perm, of 5 "''app''" "''login''" "''h3''" "''f3''"] perm
    by (intro exI [of _ "[?b, ?a]"] exI [of _ "[?a, ?b]"]) simp
qed

end
