(* ===== verification/Float64.thy ===== *)
theory Float64
  imports Complex_Main Prelude "HOL-Library.Log_Nat"
begin

text \<open>
  The \<open>float64\<close> of Go, IEEE 754 binary64 with the rounding to the nearest that Go uses: what the
  program does with it is convert integers, add, divide and test. A finite number is the rational
  it stands for; negative zero is not told from zero, as no operation here can.
\<close>

datatype float64 = NaN | Infinite bool | Finite rat

definition power_of_two :: "int \<Rightarrow> rat" where
  "power_of_two k = (if 0 \<le> k then 2 ^ nat k else 1 / 2 ^ nat (- k))"

text \<open>\<open>exponent x\<close> is \<open>e\<close> with \<open>2^e \<le> \<bar>x\<bar> < 2^(e+1)\<close>, but at least that of the subnormals.\<close>

definition exponent :: "rat \<Rightarrow> int" where
  "exponent x =
     (let (n, d) = quotient_of \<bar>x\<bar>; e = bitlen n - bitlen d
      in max (- 1022) (if power_of_two e \<le> \<bar>x\<bar> then e else e - 1))"

definition round_half_even :: "rat \<Rightarrow> int" where
  "round_half_even q =
     (let f = \<lfloor>q\<rfloor>; r = q - of_int f
      in if r < 1 / 2 then f else if 1 / 2 < r then f + 1 else if even f then f else f + 1)"

definition round64 :: "rat \<Rightarrow> float64" where
  "round64 x =
     (if x = 0 then Finite 0
      else
        let unit = power_of_two (exponent x - 52);
            y = of_int (round_half_even (x / unit)) * unit
        in if power_of_two 1024 \<le> \<bar>y\<bar> then Infinite (x < 0) else Finite y)"

definition float64_of_int :: "int \<Rightarrow> float64" where
  "float64_of_int n = round64 (of_int n)"

fun float_add :: "float64 \<Rightarrow> float64 \<Rightarrow> float64" where
  "float_add (Finite x) (Finite y) = round64 (x + y)"
| "float_add NaN y = NaN"
| "float_add x NaN = NaN"
| "float_add (Infinite s) (Infinite t) = (if s = t then Infinite s else NaN)"
| "float_add (Infinite s) (Finite y) = Infinite s"
| "float_add (Finite x) (Infinite t) = Infinite t"

fun float_div :: "float64 \<Rightarrow> float64 \<Rightarrow> float64" where
  "float_div NaN y = NaN"
| "float_div x NaN = NaN"
| "float_div (Infinite s) (Infinite t) = NaN"
| "float_div (Infinite s) (Finite y) = Infinite (s \<noteq> (y < 0))"
| "float_div (Finite x) (Infinite t) = Finite 0"
| "float_div (Finite x) (Finite y) =
     (if y = 0 then (if x = 0 then NaN else Infinite (x < 0)) else round64 (x / y))"

fun float_negative :: "float64 \<Rightarrow> bool" where
  "float_negative (Finite x) = (x < 0)"
| "float_negative (Infinite s) = s"
| "float_negative NaN = False"

fun is_finite :: "float64 \<Rightarrow> bool" where
  "is_finite (Finite _) = True"
| "is_finite _ = False"

lemma power_of_two_nat [simp]: "power_of_two (int k) = 2 ^ k"
  by (simp add: power_of_two_def)

lemma power_of_two_pos [simp]: "0 < power_of_two k"
  by (simp add: power_of_two_def)

lemma exponent_int:
  assumes "0 < n"
  shows "exponent (of_int n) = bitlen n - 1"
proof -
  have q: "quotient_of \<bar>rat_of_int n\<bar> = (n, 1)"
    using assms by (simp add: quotient_of_int flip: of_int_abs)
  have b: "2 ^ nat (bitlen n - 1) \<le> n \<and> n < 2 ^ nat (bitlen n)" using bitlen_bounds [OF assms] .
  have pos: "1 \<le> bitlen n" using assms by (metis bitlen_nonneg bitlen_eq_zero_iff int_one_le_iff_zero_less less_le not_less)
  have one: "bitlen 1 = 1" by (simp add: compute_bitlen)
  have "rat_of_int (2 ^ nat (bitlen n - 1)) \<le> of_int n" using b by (simp only: of_int_le_iff)
  then have "power_of_two (bitlen n - 1) \<le> \<bar>rat_of_int n\<bar>"
    using assms pos by (simp add: power_of_two_def)
  then show ?thesis using pos by (simp add: exponent_def q one)
qed

lemma round_half_even_int [simp]: "round_half_even (of_int n) = n"
  by (simp add: round_half_even_def)

lemma exponent_minus [simp]: "exponent (- x) = exponent x"
  by (simp add: exponent_def)

text \<open>Integers up to \<open>2^53\<close> are represented exactly.\<close>

lemma round64_int_pos:
  assumes "0 < n" "n \<le> 2 ^ 53"
  shows "\<exists>k. of_int n / power_of_two (exponent (of_int n) - 52) = of_int k"
proof (cases "n = 2 ^ 53")
  case True
  then have "bitlen n = 54" using bitlen_pow2 [of 1 53] by (simp add: compute_bitlen)
  then have "exponent (of_int n) - 52 = 1" using assms by (simp add: exponent_int)
  then show ?thesis using True by (intro exI [of _ "2 ^ 52"]) (simp add: power_of_two_def)
next
  case False
  then have lt: "n < 2 ^ 53" using assms by simp
  have "bitlen n \<le> 53" using assms lt by (simp add: bitlen_le_iff_power)
  then have "power_of_two (bitlen n - 1 - 52) = 1 / 2 ^ nat (53 - bitlen n)"
    by (auto simp: power_of_two_def)
  then have "of_int n / power_of_two (exponent (of_int n) - 52) = of_int (n * 2 ^ nat (53 - bitlen n))"
    using assms by (simp add: exponent_int)
  then show ?thesis by blast
qed

lemma round64_int:
  assumes "\<bar>n\<bar> \<le> 2 ^ 53"
  shows "round64 (of_int n) = Finite (of_int n)"
proof (cases "n = 0")
  case True
  then show ?thesis by (simp add: round64_def)
next
  case False
  define u where "u = power_of_two (exponent (rat_of_int n) - 52)"
  have "exponent (rat_of_int n) = exponent (of_int \<bar>n\<bar>)"
    by (cases "0 \<le> n") simp_all
  then obtain k where k: "of_int \<bar>n\<bar> / u = of_int k"
    using round64_int_pos [of "\<bar>n\<bar>"] False assms by (auto simp: u_def)
  have u_pos: "0 < u" by (simp add: u_def)
  have "of_int n / u = of_int (if 0 \<le> n then k else - k)"
    using k by (cases "0 \<le> n") (auto simp: divide_simps)
  then obtain m where m: "of_int n / u = of_int m" by blast
  then have "of_int (round_half_even (of_int n / u)) * u = of_int m * u" by simp
  also have "\<dots> = of_int n" using m u_pos by (simp add: divide_eq_eq)
  finally have "of_int (round_half_even (of_int n / u)) * u = of_int n" .
  moreover have "\<not> power_of_two 1024 \<le> \<bar>rat_of_int n\<bar>"
  proof -
    have "rat_of_int \<bar>n\<bar> \<le> rat_of_int (2 ^ 53)" using assms by (simp only: of_int_le_iff)
    then have "\<bar>rat_of_int n\<bar> \<le> 2 ^ 53" by (simp only: of_int_abs of_int_power of_int_numeral)
    also have "(2 :: rat) ^ 53 < 2 ^ nat 1024" by (rule power_strict_increasing) simp_all
    finally show ?thesis by (simp only: power_of_two_def not_le zero_le_numeral if_True)
  qed
  ultimately show ?thesis using False
    unfolding round64_def Let_def u_def [symmetric] by (simp only: of_int_eq_0_iff if_False)
qed

lemma float_add_int:
  assumes "\<bar>m + n\<bar> \<le> 2 ^ 53"
  shows "float_add (Finite (of_int m)) (Finite (of_int n)) = Finite (of_int (m + n))"
  using round64_int [OF assms] by simp

lemma float64_of_int: "\<bar>n\<bar> \<le> 2 ^ 53 \<Longrightarrow> float64_of_int n = Finite (of_int n)"
  by (simp add: float64_of_int_def round64_int)

end
