(* ===== verification/Email.thy ===== *)
theory Email
  imports Domain
begin

text \<open>
  Recipient addresses: the predicates of \<open>internal/domain/request_validation.go\<close> on addresses,
  identifiers, locales and visible ASCII, and the normalisation of \<open>internal/domain/helpers.go\<close>.
  Bytes are characters; a loop over \<open>range value\<close> is one over \<^const>\<open>runes\<close>.
\<close>

section \<open>Limits\<close>

definition maxRecipientBytes :: nat where "maxRecipientBytes = 254"
definition maxRecipientLocalBytes :: nat where "maxRecipientLocalBytes = 64"
definition maxSceneCodeBytes :: nat where "maxSceneCodeBytes = 64"
definition maxIdempotencyKeyBytes :: nat where "maxIdempotencyKeyBytes = 128"
definition maxTemplateVarNameBytes :: nat where "maxTemplateVarNameBytes = 64"

section \<open>Character classes\<close>

definition isASCII :: "string \<Rightarrow> bool" where
  "isASCII value \<longleftrightarrow> (\<forall>r \<in> set (runes value). \<not> 127 < r)"

definition isVisibleASCIIWithoutWhitespace :: "string \<Rightarrow> bool" where
  "isVisibleASCIIWithoutWhitespace value \<longleftrightarrow>
     \<not> (value = [] \<or> \<not> ValidString value)
     \<and> (\<forall>r \<in> set (runes value). \<not> (r < 33 \<or> 126 < r \<or> IsSpace r))"

definition containsWhitespace :: "string \<Rightarrow> bool" where
  "containsWhitespace value \<longleftrightarrow> (\<exists>r \<in> set (runes value). IsSpace r)"

definition lower_or_digit :: "char \<Rightarrow> bool" where
  "lower_or_digit c \<longleftrightarrow> is_lower c \<or> is_digit c"

text \<open>The loops over \<open>value[index]\<close>: every byte is allowed, the first and the last more strictly.\<close>

definition isRequestIdentifier :: "string \<Rightarrow> bool" where
  "isRequestIdentifier value \<longleftrightarrow>
     \<not> (value = [] \<or> maxSceneCodeBytes < length value)
     \<and> (\<forall>c \<in> set value. lower_or_digit c \<or> c = CHR ''_'' \<or> c = CHR ''-'')
     \<and> lower_or_digit (hd value) \<and> lower_or_digit (last value)"

definition isRequestLocaleFormat :: "string \<Rightarrow> bool" where
  "isRequestLocaleFormat locale =
     (if length locale \<noteq> 5 \<and> length locale \<noteq> 6 then False
      else let sep = length locale - 3
           in locale ! sep = CHR ''-'' \<and> (\<forall>c \<in> set (take sep locale). is_lower c)
              \<and> is_upper (locale ! (sep + 1)) \<and> is_upper (locale ! (sep + 2)))"

definition isAddrSpecLabel :: "string \<Rightarrow> bool" where
  "isAddrSpecLabel label \<longleftrightarrow>
     \<not> (label = [] \<or> 63 < length label)
     \<and> (\<forall>c \<in> set label. lower_or_digit c \<or> c = CHR ''-'')
     \<and> lower_or_digit (hd label) \<and> lower_or_digit (last label)"

definition isAddrSpecDomain :: "string \<Rightarrow> bool" where
  "isAddrSpecDomain value \<longleftrightarrow>
     \<not> (value = [] \<or> 253 < length value \<or> TrimSpace value \<noteq> value \<or> \<not> isASCII value)
     \<and> (\<forall>label \<in> set (split_at (CHR ''.'') value). isAddrSpecLabel label)"

definition local_part_char :: "char \<Rightarrow> bool" where
  "local_part_char c \<longleftrightarrow> is_upper c \<or> lower_or_digit c
     \<or> c \<in> set ''!#$%&'' \<or> byte c = (39 :: nat) \<or> c \<in> set ''*+/=?^_`{|}~-.''"

definition isAddrSpecLocalPart :: "string \<Rightarrow> bool" where
  "isAddrSpecLocalPart value \<longleftrightarrow>
     \<not> (value = [] \<or> maxRecipientLocalBytes < length value \<or> HasPrefix value ''.''
        \<or> HasSuffix value ''.'' \<or> Contains value ''..'')
     \<and> (\<forall>c \<in> set value. local_part_char c)"

section \<open>Addresses\<close>

text \<open>
  \<open>mail.ParseAddress\<close>, as far as the code uses it: it is called on an ASCII string without white space
  and without angle brackets, and the code keeps the result only when the parsed address is the
  input itself. Such an input has no display name and no angle-addr; a quoted local part, a comment
  or a group parses to another string. What is left is a dot-atom, an at sign and a dot-atom
  (or a domain literal in brackets, which \<open>isAddrSpecDomain\<close> refuses).
\<close>

definition isAtext :: "char \<Rightarrow> bool" where
  "isAtext c \<longleftrightarrow> 33 \<le> byte c \<and> byte c \<le> (126 :: nat)
     \<and> byte c \<notin> {40, 41, 60, 62, 91, 93, 58, 59, 64, 92, 44, 34 :: nat}"

definition dot_atom :: "string \<Rightarrow> bool" where
  "dot_atom s \<longleftrightarrow> s \<noteq> [] \<and> (\<forall>c \<in> set s. isAtext c) \<and> \<not> HasPrefix s ''.'' \<and> \<not> HasSuffix s ''.''
     \<and> \<not> Contains s ''..''"

definition ParseAddress_same :: "string \<Rightarrow> bool" where
  "ParseAddress_same s =
     (case split_at (CHR ''@'') s of
        [local_part, domain_part] \<Rightarrow>
          dot_atom local_part \<and> (dot_atom domain_part \<or> HasPrefix domain_part ''['')
      | _ \<Rightarrow> False)"

text \<open>The domain, or \<open>None\<close> for the pair of the empty string and \<open>false\<close>.\<close>

definition AddrSpecEmailDomain :: "string \<Rightarrow> string option" where
  "AddrSpecEmailDomain value =
     (let trimmed = TrimSpace value
      in if trimmed = [] \<or> maxRecipientBytes < length trimmed \<or> \<not> isASCII trimmed then None
         else if ContainsAny trimmed ''<>'' \<or> containsWhitespace trimmed then None
         else if \<not> ParseAddress_same trimmed then None
         else case split_at (CHR ''@'') trimmed of
                [local_part, domain_part] \<Rightarrow>
                  if \<not> isAddrSpecLocalPart local_part \<or> domain_part = []
                     \<or> maxRecipientLocalBytes < length local_part then None
                  else if \<not> isAddrSpecDomain (ToLower domain_part) then None
                  else Some (ToLower domain_part)
              | _ \<Rightarrow> None)"

definition IsAddrSpecEmail :: "string \<Rightarrow> bool" where
  "IsAddrSpecEmail value \<longleftrightarrow> AddrSpecEmailDomain value \<noteq> None"

definition NormalizeEmail :: "string \<Rightarrow> string" where
  "NormalizeEmail email = ToLower email"

definition NormalizeAddrSpecEmail :: "string \<Rightarrow> string option" where
  "NormalizeAddrSpecEmail value =
     (let trimmed = TrimSpace value
      in if \<not> IsAddrSpecEmail trimmed then None else Some (NormalizeEmail trimmed))"

text \<open>Helpers of \<open>helpers.go\<close> on header values: no rune below the space, no DEL.\<close>

definition IsSafeEmailHeaderValue :: "string \<Rightarrow> bool" where
  "IsSafeEmailHeaderValue value \<longleftrightarrow> (\<forall>r \<in> set (runes value). \<not> (r < 32 \<or> r = 127))"

definition IsSafeEmailDisplayName :: "string \<Rightarrow> bool" where
  "IsSafeEmailDisplayName value = IsSafeEmailHeaderValue value"

definition IsTemplateVarName :: "string \<Rightarrow> bool" where
  "IsTemplateVarName name \<longleftrightarrow>
     name \<noteq> [] \<and> length name \<le> maxTemplateVarNameBytes \<and> \<not> Contains name ''.''
     \<and> \<not> containsWhitespace name"

section \<open>Lemmas\<close>

lemma ValidString_ascii: "ascii s \<Longrightarrow> ValidString s"
  by (induction s) (simp_all add: ascii_def head_rune_ascii)

lemma isASCII_iff: "isASCII s \<longleftrightarrow> ascii s"
proof -
  have "isASCII s \<longleftrightarrow> \<not> (\<exists>r \<in> set (runes s). 128 \<le> r)" by (auto simp: isASCII_def)
  then show ?thesis unfolding high_rune_iff by (auto simp: ascii_def not_le)
qed

lemma containsWhitespace_has_space: "containsWhitespace s = has_space s"
  by (simp add: containsWhitespace_def has_space_def)

lemma atext_lower [simp]: "isAtext (lower_char c) = isAtext c"
  by (auto simp: isAtext_def byte_lower char_between_def)

text \<open>What the code asks of an accepted address.\<close>

definition addr_spec_form :: "string \<Rightarrow> string \<Rightarrow> string \<Rightarrow> bool" where
  "addr_spec_form t l d \<longleftrightarrow>
     t = l @ CHR ''@'' # d \<and> length t \<le> maxRecipientBytes
     \<and> isAddrSpecLocalPart l \<and> isAddrSpecDomain (ToLower d)"

lemma lower_or_digit_atext: "lower_or_digit c \<Longrightarrow> isAtext c"
  by (auto simp: lower_or_digit_def char_between_def isAtext_def)

lemma local_part_char_atext: "local_part_char c \<Longrightarrow> isAtext c"
  by (auto simp: local_part_char_def lower_or_digit_def char_between_def isAtext_def)

lemma split_at_sep: "split_at d (a @ d # t) = split_at d a @ split_at d t"
proof (induction a)
  case (Cons c a)
  then show ?case
    by (cases "split_at d a") (simp_all add: split_at_nonempty [THEN notE])
qed simp

lemma split_at_member: "c \<in> set s \<Longrightarrow> c \<noteq> d \<Longrightarrow> \<exists>w \<in> set (split_at d s). c \<in> set w"
  by (induction s) (auto split: list.splits)

text \<open>A separator at an end, or two in a row, leave an empty piece.\<close>

lemma split_at_empty_piece:
  "HasPrefix s [d] \<or> HasSuffix s [d] \<or> Contains s [d, d] \<Longrightarrow> [] \<in> set (split_at d s)"
proof (elim disjE)
  assume "HasPrefix s [d]"
  then show ?thesis by (cases s) (auto simp: HasPrefix_def)
next
  assume "HasSuffix s [d]"
  then have "s = take (length s - 1) s @ [d]"
    by (metis HasSuffix_def One_nat_def append_take_drop_id length_Cons list.size(3))
  then obtain a where "s = a @ d # []" by blast
  then show ?thesis using split_at_sep [of d a "[]"] by simp
next
  assume "Contains s [d, d]"
  then obtain a b where "s = a @ d # d # b" by (auto simp: Contains_iff)
  then show ?thesis using split_at_sep [of d a "d # b"] by simp
qed

lemma ToLower_shape:
  "HasPrefix s ''.'' \<Longrightarrow> HasPrefix (ToLower s) ''.''"
  "HasSuffix s ''.'' \<Longrightarrow> HasSuffix (ToLower s) ''.''"
  "Contains s ''..'' \<Longrightarrow> Contains (ToLower s) ''..''"
proof -
  have dot: "ToLower ''.'' = ''.''" "ToLower ''..'' = ''..''" by code_simp+
  show "HasPrefix s ''.'' \<Longrightarrow> HasPrefix (ToLower s) ''.''"
    unfolding HasPrefix_def using dot by (metis ToLower_def length_ToLower take_map)
  show "HasSuffix s ''.'' \<Longrightarrow> HasSuffix (ToLower s) ''.''"
    unfolding HasSuffix_def using dot by (metis ToLower_def length_ToLower drop_map)
  show "Contains s ''..'' \<Longrightarrow> Contains (ToLower s) ''..''"
    unfolding Contains_iff using dot by (metis ToLower_append)
qed

lemma isAddrSpecDomain_chars:
  assumes "isAddrSpecDomain (ToLower d)" "c \<in> set d"
  shows "isAtext c" "byte c < (128 :: nat)"
proof -
  have "lower_char c \<in> set (ToLower d)" using assms(2) by (simp add: ToLower_def)
  then have "lower_char c = CHR ''.'' \<or> lower_or_digit (lower_char c) \<or> lower_char c = CHR ''-''"
    using assms(1) split_at_member [of "lower_char c" "ToLower d" "CHR ''.''"]
    by (auto simp: isAddrSpecDomain_def isAddrSpecLabel_def)
  then have "isAtext (lower_char c)"
    using lower_or_digit_atext by (auto simp: isAtext_def)
  then have "isAtext c" by simp
  then show "isAtext c" "byte c < (128 :: nat)" by (simp_all add: isAtext_def)
qed

text \<open>
  The two tests of the parts settle everything: the tests for ASCII, white space and angle brackets
  and the parser refuse nothing more.
\<close>

lemma addr_spec_form_checks:
  assumes "addr_spec_form t l d"
  shows "t \<noteq> []" "isASCII t" "\<not> ContainsAny t ''<>''" "\<not> containsWhitespace t"
    "ParseAddress_same t" "split_at (CHR ''@'') t = [l, d]" "d \<noteq> []"
    "length l \<le> maxRecipientLocalBytes" "\<forall>c \<in> set t. isAtext c \<or> c = CHR ''@''"
proof -
  have t: "t = l @ CHR ''@'' # d" and l: "isAddrSpecLocalPart l" and d: "isAddrSpecDomain (ToLower d)"
    using assms by (simp_all add: addr_spec_form_def)
  have la: "isAtext c" if "c \<in> set l" for c
    using l that local_part_char_atext by (auto simp: isAddrSpecLocalPart_def)
  have da: "isAtext c" if "c \<in> set d" for c
    using isAddrSpecDomain_chars [OF d that] by simp
  show chars: "\<forall>c \<in> set t. isAtext c \<or> c = CHR ''@''" using la da t by auto
  then have asc: "ascii t" by (fastforce simp: ascii_def isAtext_def)
  show "t \<noteq> []" using t by simp
  show "isASCII t" using asc by (simp add: isASCII_iff)
  show "\<not> ContainsAny t ''<>''" using chars by (auto simp: ContainsAny_def isAtext_def)
  show "\<not> containsWhitespace t"
    using chars asc by (fastforce simp: containsWhitespace_def runes_ascii IsSpace_def isAtext_def)
  have "\<not> isAtext (CHR ''@'')" by code_simp
  then have "CHR ''@'' \<notin> set l" "CHR ''@'' \<notin> set d" using la da by blast+
  then show split: "split_at (CHR ''@'') t = [l, d]" using t by (simp add: split_at_two)
  show "d \<noteq> []" using d by (auto simp: isAddrSpecDomain_def)
  show "length l \<le> maxRecipientLocalBytes" using l by (simp add: isAddrSpecLocalPart_def)
  have "[] \<notin> set (split_at (CHR ''.'') (ToLower d))"
    using d by (auto simp: isAddrSpecDomain_def isAddrSpecLabel_def)
  then have "\<not> HasPrefix (ToLower d) ''.''" "\<not> HasSuffix (ToLower d) ''.''"
    "\<not> Contains (ToLower d) ''..''" using split_at_empty_piece by blast+
  then have "dot_atom d" using da \<open>d \<noteq> []\<close> ToLower_shape by (auto simp: dot_atom_def)
  moreover have "dot_atom l" using la l by (auto simp: dot_atom_def isAddrSpecLocalPart_def)
  ultimately show "ParseAddress_same t" using split by (simp add: ParseAddress_same_def)
qed

lemma AddrSpecEmailDomain_Some:
  "AddrSpecEmailDomain value = Some rd \<longleftrightarrow>
     (\<exists>l d. addr_spec_form (TrimSpace value) l d \<and> rd = ToLower d)"
proof
  assume "AddrSpecEmailDomain value = Some rd"
  then show "\<exists>l d. addr_spec_form (TrimSpace value) l d \<and> rd = ToLower d"
    by (auto simp: AddrSpecEmailDomain_def Let_def addr_spec_form_def split_at_two
        split: if_splits list.splits)
next
  assume "\<exists>l d. addr_spec_form (TrimSpace value) l d \<and> rd = ToLower d"
  then obtain l d where f: "addr_spec_form (TrimSpace value) l d" and rd: "rd = ToLower d" by blast
  then show "AddrSpecEmailDomain value = Some rd"
    using addr_spec_form_checks [OF f]
    by (auto simp: AddrSpecEmailDomain_def Let_def addr_spec_form_def)
qed

lemma local_part_lower [simp]: "local_part_char (lower_char c) = local_part_char c"
proof (cases "is_upper c")
  case True
  then have "is_lower (lower_char c)" by (simp add: char_between_def byte_lower)
  then show ?thesis using True by (simp add: local_part_char_def lower_or_digit_def)
next
  case False
  then show ?thesis by (simp add: lower_char_def)
qed

lemma lower_char_dot: "lower_char c = CHR ''.'' \<longleftrightarrow> c = CHR ''.''"
proof
  assume eq: "lower_char c = CHR ''.''"
  then have "byte (lower_char c) = (46 :: nat)" by simp
  then have "\<not> is_upper c" by (auto simp: byte_lower char_between_def split: if_splits)
  then show "c = CHR ''.''" using eq by (simp add: lower_char_def)
next
  show "c = CHR ''.'' \<Longrightarrow> lower_char c = CHR ''.''" by (simp add: lower_char_def char_between_def)
qed

lemma local_part_lower_whole: "isAddrSpecLocalPart (ToLower l) = isAddrSpecLocalPart l"
proof -
  have one: "HasPrefix (ToLower l) ''.'' = HasPrefix l ''.''"
    by (cases l) (auto simp: HasPrefix_def ToLower_def lower_char_dot)
  have two: "HasSuffix (ToLower l) ''.'' = HasSuffix l ''.''"
    by (cases l rule: rev_cases) (auto simp: HasSuffix_def ToLower_def lower_char_dot)
  have three: "Contains (ToLower l) ''..'' = Contains l ''..''"
  proof (induction l)
    case (Cons c cs)
    then show ?case
      by (cases cs) (auto simp: HasPrefix_def ToLower_def lower_char_dot)
  qed (simp add: ToLower_def)
  show ?thesis
    using one two three by (auto simp: isAddrSpecLocalPart_def ToLower_def)
qed

lemma addr_spec_form_lower:
  assumes "addr_spec_form t l d"
  shows "addr_spec_form (ToLower t) (ToLower l) (ToLower d)"
proof -
  have "lower_char (CHR ''@'') = CHR ''@''" by code_simp
  then show ?thesis
    using assms by (auto simp: addr_spec_form_def local_part_lower_whole)
      (simp_all add: ToLower_def)
qed

lemma addr_spec_form_trim: "addr_spec_form t l d \<Longrightarrow> TrimSpace t = t"
  using addr_spec_form_checks [of t l d]
  by (intro TrimSpace_ascii) (simp_all add: isASCII_iff containsWhitespace_has_space)

lemma AddrSpecEmailDomain_lower:
  "TrimSpace t = t \<Longrightarrow> AddrSpecEmailDomain t = Some rd \<Longrightarrow> AddrSpecEmailDomain (ToLower t) = Some rd"
  unfolding AddrSpecEmailDomain_Some
  using addr_spec_form_lower addr_spec_form_trim by fastforce

lemma NormalizeAddrSpecEmail_Some:
  "NormalizeAddrSpecEmail value = Some n \<longleftrightarrow>
     (\<exists>l d. addr_spec_form (TrimSpace value) l d) \<and> n = ToLower (TrimSpace value)"
proof -
  have "AddrSpecEmailDomain (TrimSpace value) \<noteq> None \<longleftrightarrow> (\<exists>l d. addr_spec_form (TrimSpace value) l d)"
    using AddrSpecEmailDomain_Some [of "TrimSpace value"] by auto
  then show ?thesis
    by (auto simp: NormalizeAddrSpecEmail_def Let_def IsAddrSpecEmail_def NormalizeEmail_def)
qed

lemma NormalizeAddrSpecEmail_facts:
  assumes "NormalizeAddrSpecEmail value = Some n"
  shows "NormalizeAddrSpecEmail n = Some n"
    and "AddrSpecEmailDomain n = AddrSpecEmailDomain value"
    and "isVisibleASCIIWithoutWhitespace n \<and> length n \<le> maxRecipientBytes
         \<and> IsSafeEmailHeaderValue n"
proof -
  obtain l d where f: "addr_spec_form (TrimSpace value) l d" and n: "n = ToLower (TrimSpace value)"
    using assms unfolding NormalizeAddrSpecEmail_Some by blast
  have fn: "addr_spec_form n (ToLower l) (ToLower d)"
    using addr_spec_form_lower [OF f] n by simp
  have trim: "TrimSpace n = n" using addr_spec_form_trim [OF fn] .
  show "NormalizeAddrSpecEmail n = Some n"
    unfolding NormalizeAddrSpecEmail_Some trim using fn n by auto
  have "AddrSpecEmailDomain value = Some (ToLower d)"
    unfolding AddrSpecEmailDomain_Some using f by blast
  moreover have "AddrSpecEmailDomain n = Some (ToLower d)"
    unfolding AddrSpecEmailDomain_Some trim using fn
    by (intro exI [of _ "ToLower l"] exI [of _ "ToLower d"]) simp
  ultimately show "AddrSpecEmailDomain n = AddrSpecEmailDomain value" by simp
  have vis: "33 \<le> byte c" "byte c \<le> (126 :: nat)" if "c \<in> set n" for c
    using bspec [OF addr_spec_form_checks(9) [OF fn] that] by (auto simp: isAtext_def)
  have asc: "ascii n" unfolding ascii_def
  proof
    fix c assume "c \<in> set n"
    then show "byte c < (128 :: nat)" using vis(2) [of c] by simp
  qed
  have "\<not> (byte c < (33 :: nat) \<or> 126 < (byte c :: nat) \<or> IsSpace (byte c))" if "c \<in> set n" for c
    using vis [OF that] by (auto simp: IsSpace_def)
  then have "isVisibleASCIIWithoutWhitespace n"
    using addr_spec_form_checks(1) [OF fn] ValidString_ascii [OF asc]
    by (simp add: isVisibleASCIIWithoutWhitespace_def runes_ascii [OF asc])
  moreover have "IsSafeEmailHeaderValue n"
    unfolding IsSafeEmailHeaderValue_def runes_ascii [OF asc]
  proof
    fix r assume "r \<in> set (map byte n)"
    then show "\<not> (r < 32 \<or> r = 127)" using vis by force
  qed
  ultimately show "isVisibleASCIIWithoutWhitespace n \<and> length n \<le> maxRecipientBytes
         \<and> IsSafeEmailHeaderValue n"
    using fn by (auto simp: addr_spec_form_def)
qed

section \<open>Properties\<close>

text \<open>
  C24. The accepted recipient addresses are exactly those of the form local@domain within 254 bytes
  whose parts pass the two part tests; the tests for ASCII, white space and angle brackets and the
  mail parser refuse nothing more, and the domain returned is the part after the at sign in lower
  case.
\<close>

theorem AddrSpecEmailDomain_accepts:
  "AddrSpecEmailDomain value = Some rd \<longleftrightarrow>
     (\<exists>l d. TrimSpace value = l @ CHR ''@'' # d \<and> length (TrimSpace value) \<le> maxRecipientBytes
        \<and> isAddrSpecLocalPart l \<and> isAddrSpecDomain (ToLower d) \<and> rd = ToLower d)"
  unfolding AddrSpecEmailDomain_Some addr_spec_form_def by blast

text \<open>
  Normalisation is sound: a normalised address is fixed by normalisation, so suppression and
  counter keys of one recipient agree; it has the recipient domain of the original; it is visible
  ASCII, within 254 bytes and safe in a mail header (no CR, LF or other control byte).
\<close>

theorem NormalizeAddrSpecEmail_sound:
  assumes "NormalizeAddrSpecEmail value = Some n"
  shows "NormalizeAddrSpecEmail n = Some n
    \<and> AddrSpecEmailDomain n = AddrSpecEmailDomain value
    \<and> isVisibleASCIIWithoutWhitespace n \<and> length n \<le> maxRecipientBytes
    \<and> IsSafeEmailHeaderValue n"
  using NormalizeAddrSpecEmail_facts [OF assms] by blast

lemma NormalizeAddrSpecEmail_sound_witness:
  "NormalizeAddrSpecEmail ''a.b@x.co'' = Some ''a.b@x.co''
   \<and> AddrSpecEmailDomain ''a.b@x.co'' = AddrSpecEmailDomain '' A.b@X.co ''"
proof -
  have "NormalizeAddrSpecEmail '' A.b@X.co '' = Some ''a.b@x.co''" by code_simp
  from NormalizeAddrSpecEmail_sound [OF this] show ?thesis by blast
qed

end
