(* ===== verification/Route.thy ===== *)
theory Route
  imports Email
begin

text \<open>
  Route selection, \<open>internal/domain/route.go\<close>: the ordered provider channels a message may try.
\<close>

section \<open>Operations\<close>

record RouteSelection =
  RecipientDomain_of :: string
  Channels :: "string list"

definition routeSelectionError :: "string \<Rightarrow> go_error" where
  "routeSelectionError message = RouteSelectionError ErrorCodeRouteNotFound message"

definition RecipientDomain :: "string \<Rightarrow> string option" where
  "RecipientDomain normalizedToEmail = AddrSpecEmailDomain normalizedToEmail"

text \<open>The loop over the channels, with the channels seen so far and the number still wanted.\<close>

fun unique_channels :: "string list \<Rightarrow> nat \<Rightarrow> string list \<Rightarrow> string list" where
  "unique_channels seen want [] = []"
| "unique_channels seen want (ch # chs) =
     (if ch = [] then unique_channels seen want chs
      else if ch \<in> set seen then unique_channels seen want chs
      else if want \<le> 1 then [ch]
      else ch # unique_channels (ch # seen) (want - 1) chs)"

definition uniqueAndTruncateChannels :: "string list \<Rightarrow> int \<Rightarrow> string list" where
  "uniqueAndTruncateChannels channels max_attempts =
     (if max_attempts \<le> 0 then [] else unique_channels [] (nat max_attempts) channels)"

definition SelectRoute :: "Scene \<Rightarrow> string \<Rightarrow> int \<Rightarrow> RouteSelection result" where
  "SelectRoute scene normalizedToEmail max_attempts =
     (case RecipientDomain normalizedToEmail of
        None \<Rightarrow> Inl (routeSelectionError ''recipient domain is invalid'')
      | Some recipientDomain \<Rightarrow>
          (case (case scene_RoutePolicy scene recipientDomain of
                   Some channels \<Rightarrow> Some channels
                 | None \<Rightarrow> scene_RoutePolicy scene RoutePolicyWildcard) of
             None \<Rightarrow> Inl (routeSelectionError ''route not found'')
           | Some channels \<Rightarrow>
               let candidates = uniqueAndTruncateChannels channels max_attempts
               in if length candidates = 0 then Inl (routeSelectionError ''route not found'')
                  else Inr \<lparr>RecipientDomain_of = recipientDomain, Channels = candidates\<rparr>))"

section \<open>The reference: distinct non-empty channels in order, cut off\<close>

text \<open>Each channel once, at its first occurrence.\<close>

fun first_occurrences :: "'a list \<Rightarrow> 'a list" where
  "first_occurrences [] = []"
| "first_occurrences (x # xs) = x # filter (\<lambda>y. y \<noteq> x) (first_occurrences xs)"

lemma set_first_occurrences [simp]: "set (first_occurrences xs) = set xs"
  by (induction xs) auto

lemma distinct_first_occurrences [simp]: "distinct (first_occurrences xs)"
  by (induction xs) auto

lemma first_occurrences_Nil_iff [simp]: "first_occurrences xs = [] \<longleftrightarrow> xs = []"
  by (cases xs) simp_all

lemma filter_first_occurrences:
  "filter P (first_occurrences xs) = first_occurrences (filter P xs)"
proof (induction xs)
  case (Cons x xs)
  have "filter P (filter (\<lambda>y. y \<noteq> x) (first_occurrences xs))
      = filter (\<lambda>y. y \<noteq> x) (first_occurrences (filter P xs))"
    unfolding Cons.IH [symmetric] by (simp add: conj_commute)
  then show ?case
    by (cases "P x") (auto simp: Cons.IH [symmetric] intro: filter_cong)
qed simp

lemma unique_channels_spec:
  "0 < want \<Longrightarrow> unique_channels seen want chs =
     take want (first_occurrences (filter (\<lambda>ch. ch \<noteq> [] \<and> ch \<notin> set seen) chs))"
proof (induction seen want chs rule: unique_channels.induct)
  case (2 seen want ch chs)
  let ?keep = "\<lambda>s c. c \<noteq> [] \<and> c \<notin> set s"
  show ?case
  proof (cases "ch = [] \<or> ch \<in> set seen \<or> want \<le> 1")
    case True
    then show ?thesis using 2 by (cases want) (auto simp: le_Suc_eq)
  next
    case False
    obtain n where n: "want = Suc n" "0 < n" using False by (cases want) auto
    have "filter (?keep (ch # seen)) chs = filter (\<lambda>y. y \<noteq> ch) (filter (?keep seen) chs)"
      by (auto intro: filter_cong)
    then show ?thesis using 2 False n by (simp add: filter_first_occurrences)
  qed
qed simp

lemma uniqueAndTruncateChannels_spec:
  "uniqueAndTruncateChannels chs m = take (nat m) (first_occurrences (filter (\<lambda>ch. ch \<noteq> []) chs))"
  by (simp add: uniqueAndTruncateChannels_def unique_channels_spec)

section \<open>Properties\<close>

text \<open>
  The loop that drops empty and repeated channels and stops at the maximum computes its
  specification: the first occurrences of the non-empty channels, in order, cut to the maximum.
  So the candidates are distinct, non-empty, of the list and at most as many as allowed.
\<close>

theorem uniqueAndTruncateChannels_refines:
  "uniqueAndTruncateChannels chs m = take (nat m) (first_occurrences (filter (\<lambda>ch. ch \<noteq> []) chs))
   \<and> distinct (uniqueAndTruncateChannels chs m)
   \<and> set (uniqueAndTruncateChannels chs m) \<subseteq> set chs - {[]}
   \<and> length (uniqueAndTruncateChannels chs m) \<le> nat m"
  unfolding uniqueAndTruncateChannels_spec using set_take_subset by (auto dest!: in_set_takeD)

text \<open>
  \<open>SelectRoute\<close> succeeds exactly when the recipient has a domain, the policy lists it or the
  wildcard, at least one attempt is allowed and the list has a non-empty channel; an entry for the
  exact domain hides the wildcard even when it is empty; every failure is \<open>route not found\<close>.
\<close>

theorem SelectRoute_outcome:
  "case SelectRoute scene to m of
     Inr sel \<Rightarrow>
       RecipientDomain to = Some (RecipientDomain_of sel) \<and> 0 < m \<and> Channels sel \<noteq> []
       \<and> (\<exists>chs. Channels sel = uniqueAndTruncateChannels chs m
            \<and> (scene_RoutePolicy scene (RecipientDomain_of sel) = Some chs
               \<or> scene_RoutePolicy scene (RecipientDomain_of sel) = None
                  \<and> scene_RoutePolicy scene ''*'' = Some chs))
   | Inl e \<Rightarrow>
       (\<exists>msg. e = RouteSelectionError ErrorCodeRouteNotFound msg)
       \<and> (RecipientDomain to = None \<or> m \<le> 0
          \<or> (\<exists>d. RecipientDomain to = Some d
               \<and> (case scene_RoutePolicy scene d of
                    Some chs \<Rightarrow> set chs \<subseteq> {[]}
                  | None \<Rightarrow> (case scene_RoutePolicy scene ''*'' of
                               Some chs \<Rightarrow> set chs \<subseteq> {[]}
                             | None \<Rightarrow> True))))"
proof -
  have empty: "uniqueAndTruncateChannels chs m = [] \<longleftrightarrow> m \<le> 0 \<or> set chs \<subseteq> {[]}" for chs
  proof -
    have "first_occurrences (filter (\<lambda>ch. ch \<noteq> []) chs) = [] \<longleftrightarrow> set chs \<subseteq> {[]}"
      by (auto simp: filter_empty_conv)
    then show ?thesis by (auto simp: uniqueAndTruncateChannels_spec)
  qed
  show ?thesis
    by (auto simp: SelectRoute_def routeSelectionError_def RoutePolicyWildcard_def Let_def empty
        split: option.splits)
qed

end
