(* ===== verification/JsonlWriter.thy ===== *)
theory JsonlWriter
  imports Route
begin

text \<open>
  The rotating writer of \<open>internal/lite/jsonl.go\<close>, on bytes. The file \<open>path\<close> is number 0 and its
  backup \<open>path.i\<close> number \<open>i\<close>; the contents of the files are a map from numbers. The outcome of every
  system call is an argument, \<open>None\<close> for success, so each failure is a branch.
\<close>

section \<open>State\<close>

record jsonlWriter =
  jw_maxBytes :: int
  jw_maxBackups :: nat
  jw_open :: bool
  jw_failed :: "go_error option"
  jw_currentSize :: int

type_synonym log_files = "nat \<rightharpoonup> string"

text \<open>
  \<open>jw_open\<close> is \<open>w.file != nil\<close>. The buffered writer is flushed by every append, so it holds no bytes
  between two calls; what it keeps is \<open>jw_failed\<close>, the first error of a write, which it returns from
  then on.
\<close>

text \<open>
  The calls of one append: how many bytes of the record reached the file before a write error, and
  the calls of a rotation, renames by the number of their source.
\<close>

datatype write_call = In_write | In_newline | In_flush

record open_env =
  oe_open :: "go_error option"
  oe_chmod :: "go_error option"
  oe_stat :: "go_error option"

record append_env =
  en_write :: "(nat \<times> write_call \<times> go_error) option"
  en_close :: "go_error option"
  en_remove :: "go_error option"
  en_rename :: "nat \<Rightarrow> go_error option"
  en_open :: open_env

definition calm_open :: open_env where
  "calm_open = \<lparr>oe_open = None, oe_chmod = None, oe_stat = None\<rparr>"

definition calm :: append_env where
  "calm = \<lparr>en_write = None, en_close = None, en_remove = None, en_rename = (\<lambda>_. None),
           en_open = calm_open\<rparr>"

section \<open>Operations\<close>

text \<open>
  \<open>open\<close>: the file is created when it is missing and its size read. An error, of the call, of the
  permissions or of the size, leaves the writer without a file.
\<close>

definition jsonl_open :: "open_env \<Rightarrow> jsonlWriter \<Rightarrow> log_files \<Rightarrow> unit result \<times> jsonlWriter \<times> log_files"
where
  "jsonl_open env w fs =
     (case oe_open env of
        Some e \<Rightarrow> (Inl (Wrapf ''open jsonl file'' e), w, fs)
      | None \<Rightarrow>
          let old = (case fs 0 of None \<Rightarrow> [] | Some c \<Rightarrow> c); fs1 = fs(0 \<mapsto> old)
          in case oe_chmod env of
               Some e \<Rightarrow> (Inl (Wrapf ''set jsonl file permissions'' e), w, fs1)
             | None \<Rightarrow>
                 (case oe_stat env of
                    Some e \<Rightarrow> (Inl (Wrapf ''stat jsonl file'' e), w, fs1)
                  | None \<Rightarrow>
                      (Inr (), w\<lparr>jw_open := True, jw_failed := None,
                                 jw_currentSize := int (length old)\<rparr>, fs1)))"

definition newJSONLWriter ::
    "go_error option \<Rightarrow> open_env \<Rightarrow> int \<Rightarrow> int \<Rightarrow> log_files \<Rightarrow> jsonlWriter result \<times> log_files" where
  "newJSONLWriter directory failure maxBytes maxBackups fs =
     (if maxBytes \<le> 0 then (Inl (Errorf ''max bytes must be greater than 0''), fs)
      else if maxBackups < 1 then (Inl (Errorf ''max backups must be at least 1''), fs)
      else case directory of
             Some e \<Rightarrow> (Inl (Wrapf ''prepare log directory'' e), fs)
           | None \<Rightarrow>
               (case jsonl_open failure
                       \<lparr>jw_maxBytes = maxBytes, jw_maxBackups = nat maxBackups, jw_open = False,
                        jw_failed = None, jw_currentSize = 0\<rparr> fs of
                  (Inl e, _, fs') \<Rightarrow> (Inl e, fs')
                | (Inr _, w, fs') \<Rightarrow> (Inr w, fs')))"

definition closeLocked :: "go_error option \<Rightarrow> jsonlWriter \<Rightarrow> unit result \<times> jsonlWriter" where
  "closeLocked close_err w =
     (if \<not> jw_open w then (Inr (), w)
      else (case jw_failed w of
              Some e \<Rightarrow> Inl e
            | None \<Rightarrow> (case close_err of Some e \<Rightarrow> Inl e | None \<Rightarrow> Inr ()),
            w\<lparr>jw_open := False, jw_failed := None\<rparr>))"

text \<open>A rename whose source is missing is ignored.\<close>

definition rename_file :: "nat \<Rightarrow> nat \<Rightarrow> log_files \<Rightarrow> log_files" where
  "rename_file i j fs = (case fs i of None \<Rightarrow> fs | Some c \<Rightarrow> fs(j \<mapsto> c, i := None))"

text \<open>The loop from the last but one backup down to the first.\<close>

fun shift_backups :: "(nat \<Rightarrow> go_error option) \<Rightarrow> nat \<Rightarrow> log_files \<Rightarrow> unit result \<times> log_files" where
  "shift_backups ren 0 fs = (Inr (), fs)"
| "shift_backups ren (Suc i) fs =
     (case ren (Suc i) of
        Some e \<Rightarrow> (Inl (Wrapf ''rename jsonl backup'' e), fs)
      | None \<Rightarrow> shift_backups ren i (rename_file (Suc i) (Suc (Suc i)) fs))"

definition rotateLocked ::
    "append_env \<Rightarrow> jsonlWriter \<Rightarrow> log_files \<Rightarrow> unit result \<times> jsonlWriter \<times> log_files" where
  "rotateLocked env w fs =
     (case closeLocked (en_close env) w of
        (Inl e, w1) \<Rightarrow> (Inl (Wrapf ''close jsonl before rotate'' e), w1, fs)
      | (Inr _, w1) \<Rightarrow>
          (case en_remove env of
             Some e \<Rightarrow> (Inl (Wrapf ''remove oldest jsonl backup'' e), w1, fs)
           | None \<Rightarrow>
               (case shift_backups (en_rename env) (jw_maxBackups w1 - 1)
                       (fs(jw_maxBackups w1 := None)) of
                  (Inl e, fs1) \<Rightarrow> (Inl e, w1, fs1)
                | (Inr _, fs1) \<Rightarrow>
                    (case en_rename env 0 of
                       Some e \<Rightarrow> (Inl (Wrapf ''rotate jsonl file'' e), w1, fs1)
                     | None \<Rightarrow> jsonl_open (en_open env) w1 (rename_file 0 1 fs1)))))"

text \<open>The newline that ends a record.\<close>

definition newline :: char where "newline = char_of (10 :: nat)"

fun write_call_text :: "write_call \<Rightarrow> string" where
  "write_call_text In_write = ''write jsonl record''"
| "write_call_text In_newline = ''write jsonl newline''"
| "write_call_text In_flush = ''flush jsonl record''"

definition write_record ::
    "append_env \<Rightarrow> string \<Rightarrow> jsonlWriter \<Rightarrow> log_files \<Rightarrow> unit result \<times> jsonlWriter \<times> log_files" where
  "write_record env line w fs =
     (case jw_failed w of
        Some e \<Rightarrow> (Inl (Wrapf ''write jsonl record'' e), w, fs)
      | None \<Rightarrow>
          let old = (case fs 0 of None \<Rightarrow> [] | Some c \<Rightarrow> c);
              data = line @ [newline]
          in case en_write env of
               Some (n, call, e) \<Rightarrow>
                 (Inl (Wrapf (write_call_text call) e), w\<lparr>jw_failed := Some e\<rparr>,
                  fs(0 \<mapsto> old @ take n data))
             | None \<Rightarrow>
                 (Inr (), w\<lparr>jw_currentSize := jw_currentSize w + (int (length line) + 1)\<rparr>,
                  fs(0 \<mapsto> old @ data)))"

definition appendLineLocked ::
    "append_env \<Rightarrow> string \<Rightarrow> jsonlWriter \<Rightarrow> log_files \<Rightarrow> unit result \<times> jsonlWriter \<times> log_files" where
  "appendLineLocked env line w fs =
     (if \<not> jw_open w then (Inl (Errorf ''jsonl writer is closed''), w, fs)
      else if 0 < jw_currentSize w
              \<and> jw_maxBytes w < jw_currentSize w + (int (length line) + 1) then
        (case rotateLocked env w fs of
           (Inl e, w1, fs1) \<Rightarrow> (Inl e, w1, fs1)
         | (Inr _, w1, fs1) \<Rightarrow> write_record env line w1 fs1)
      else write_record env line w fs)"

text \<open>A query reads the backups from the oldest to the newest, then the file itself.\<close>

definition query_order :: "nat \<Rightarrow> nat list" where
  "query_order maxBackups = rev [0..<Suc maxBackups]"

section \<open>The visible log\<close>

definition content :: "log_files \<Rightarrow> nat \<Rightarrow> string" where
  "content fs i = (case fs i of None \<Rightarrow> [] | Some c \<Rightarrow> c)"

definition visible :: "nat \<Rightarrow> log_files \<Rightarrow> string" where
  "visible n fs = concat (map (content fs) (query_order n))"

definition records :: "string list \<Rightarrow> string" where
  "records ls = concat (map (\<lambda>l. l @ [newline]) ls)"

lemma records_simps [simp]:
  "records [] = []" "records (l # ls) = l @ newline # records ls"
  "records (ls @ ms) = records ls @ records ms"
  by (simp_all add: records_def)

lemma visible_Suc: "visible (Suc n) fs = content fs (Suc n) @ visible n fs"
  by (simp add: visible_def query_order_def)

lemma visible_0: "visible 0 fs = content fs 0"
  by (simp add: visible_def query_order_def)

lemma content_upd [simp]:
  "content (fs(i \<mapsto> c)) j = (if j = i then c else content fs j)"
  "content (fs(i := None)) j = (if j = i then [] else content fs j)"
  by (simp_all add: content_def)

lemma content_rename:
  "i \<noteq> j \<Longrightarrow> fs j = None \<Longrightarrow> content (rename_file i j fs) k =
     (if k = j then content fs i else if k = i then [] else content fs k)"
  by (auto simp: rename_file_def content_def split: option.splits)

lemma rename_file_free: "i \<noteq> j \<Longrightarrow> rename_file i j fs i = None"
  by (simp add: rename_file_def split: option.splits)

text \<open>Shifting the backups up by one, when the place above them is free, keeps what a query sees.\<close>

lemma shift_backups_content:
  "fs (Suc i) = None \<Longrightarrow> \<forall>k. ren k = None \<Longrightarrow>
     \<exists>fs'. shift_backups ren i fs = (Inr (), fs') \<and> fs' 1 = None
       \<and> (\<forall>k. content fs' k = (if k = 0 then content fs 0 else if k = 1 then []
            else if k \<le> Suc i then content fs (k - 1) else content fs k))"
proof (induction i arbitrary: fs)
  case 0
  then show ?case by (auto simp: content_def)
next
  case (Suc i)
  let ?fs = "rename_file (Suc i) (Suc (Suc i)) fs"
  have free: "?fs (Suc i) = None" by (simp add: rename_file_free)
  obtain fs' where IH: "shift_backups ren i ?fs = (Inr (), fs')" "fs' 1 = None"
      "\<forall>k. content fs' k = (if k = 0 then content ?fs 0 else if k = 1 then []
            else if k \<le> Suc i then content ?fs (k - 1) else content ?fs k)"
    using Suc.IH [of ?fs, OF free Suc.prems(2)] by blast
  have "content fs' k = (if k = 0 then content fs 0 else if k = 1 then []
            else if k \<le> Suc (Suc i) then content fs (k - 1) else content fs k)" for k
    using IH(3) Suc.prems(1) by (auto simp: content_rename le_Suc_eq)
  moreover have "ren (Suc i) = None" using Suc.prems(2) by blast
  ultimately show ?case using IH(1,2) by (intro exI [of _ fs']) simp
qed

section \<open>Runs without failures\<close>

text \<open>Appending records one after the other, no call failing.\<close>

fun append_all :: "string list \<Rightarrow> jsonlWriter \<Rightarrow> log_files \<Rightarrow> unit result \<times> jsonlWriter \<times> log_files"
where
  "append_all [] w fs = (Inr (), w, fs)"
| "append_all (l # ls) w fs =
     (case appendLineLocked calm l w fs of
        (Inl e, w1, fs1) \<Rightarrow> (Inl e, w1, fs1)
      | (Inr _, w1, fs1) \<Rightarrow> append_all ls w1 fs1)"

definition writer_ok :: "jsonlWriter \<Rightarrow> log_files \<Rightarrow> bool" where
  "writer_ok w fs \<longleftrightarrow> jw_open w \<and> jw_failed w = None \<and> 1 \<le> jw_maxBackups w
     \<and> jw_currentSize w = int (length (content fs 0))"

lemma rotate_calm:
  assumes w: "writer_ok w fs"
  shows "\<exists>w' fs'. rotateLocked calm w fs = (Inr (), w', fs') \<and> writer_ok w' fs'
    \<and> jw_maxBytes w' = jw_maxBytes w \<and> jw_maxBackups w' = jw_maxBackups w
    \<and> content fs' 0 = [] \<and> content fs' 1 = content fs 0
    \<and> (\<forall>k. 2 \<le> k \<longrightarrow> k \<le> jw_maxBackups w \<longrightarrow> content fs' k = content fs (k - 1))"
proof -
  obtain n where n: "jw_maxBackups w = Suc n"
    using w by (metis Suc_le_D One_nat_def writer_ok_def)
  let ?fs = "fs(Suc n := None)"
  obtain fs1 where shift: "shift_backups (\<lambda>_. None) n ?fs = (Inr (), fs1)" "fs1 1 = None"
      "\<forall>k. content fs1 k = (if k = 0 then content ?fs 0 else if k = 1 then []
            else if k \<le> Suc n then content ?fs (k - 1) else content ?fs k)"
    using shift_backups_content [of ?fs n "\<lambda>_. None"] by auto
  define fs2 where "fs2 = rename_file 0 (Suc 0) fs1"
  have none: "fs2 0 = None" by (simp add: fs2_def rename_file_free)
  have c2: "content fs2 k = (if k = 1 then content fs1 0 else if k = 0 then [] else content fs1 k)" for k
    unfolding fs2_def using shift(2) by (simp add: content_rename)
  have eq: "rotateLocked calm w fs = (Inr (), w\<lparr>jw_open := True, jw_failed := None,
      jw_currentSize := 0\<rparr>, fs2(0 \<mapsto> []))"
    using w n shift(1) none
    by (simp add: rotateLocked_def closeLocked_def writer_ok_def calm_def calm_open_def
        jsonl_open_def Let_def flip: fs2_def)
  have "content (fs2(0 \<mapsto> [])) k = content fs (k - 1)" if "2 \<le> k" "k \<le> Suc n" for k
    using that shift(3) by (auto simp: c2)
  then show ?thesis
    using w n eq shift(3) by (auto simp: writer_ok_def c2)
qed

text \<open>An append either adds to the file or, after a rotation, starts it anew.\<close>

lemma append_calm:
  assumes w: "writer_ok w fs"
  obtains (plain) w' fs' where "appendLineLocked calm l w fs = (Inr (), w', fs')" "writer_ok w' fs'"
      "jw_maxBytes w' = jw_maxBytes w" "jw_maxBackups w' = jw_maxBackups w"
      "content fs' 0 = content fs 0 @ l @ [newline]" "\<forall>k. k \<noteq> 0 \<longrightarrow> content fs' k = content fs k"
      "content fs 0 = [] \<or> int (length (content fs' 0)) \<le> jw_maxBytes w"
  | (rotated) w' fs' where "appendLineLocked calm l w fs = (Inr (), w', fs')" "writer_ok w' fs'"
      "jw_maxBytes w' = jw_maxBytes w" "jw_maxBackups w' = jw_maxBackups w"
      "content fs' 0 = l @ [newline]"
      "\<forall>k. 1 \<le> k \<longrightarrow> k \<le> jw_maxBackups w \<longrightarrow> content fs' k = content fs (k - 1)"
      "jw_maxBytes w < int (length (content fs 0)) + (int (length l) + 1)"
proof -
  have put: "\<exists>w' fs'. write_record calm l v gs = (Inr (), w', fs') \<and> writer_ok w' fs'
      \<and> jw_maxBytes w' = jw_maxBytes v \<and> jw_maxBackups w' = jw_maxBackups v
      \<and> content fs' 0 = content gs 0 @ l @ [newline]
      \<and> (\<forall>k. k \<noteq> 0 \<longrightarrow> content fs' k = content gs k)"
    if "writer_ok v gs" for v gs
    using that by (auto simp: write_record_def calm_def writer_ok_def Let_def content_def
        split: option.split)
  have w_open: "jw_open w" using w by (simp add: writer_ok_def)
  show thesis
  proof (cases "0 < jw_currentSize w
              \<and> jw_maxBytes w < jw_currentSize w + (int (length l) + 1)")
    case True
    obtain w1 fs1 where r: "rotateLocked calm w fs = (Inr (), w1, fs1)" "writer_ok w1 fs1"
        "jw_maxBytes w1 = jw_maxBytes w" "jw_maxBackups w1 = jw_maxBackups w"
        "content fs1 0 = []" "content fs1 1 = content fs 0"
        "\<forall>k. 2 \<le> k \<longrightarrow> k \<le> jw_maxBackups w \<longrightarrow> content fs1 k = content fs (k - 1)"
      using rotate_calm [OF w] by blast
    obtain w2 fs2 where p: "write_record calm l w1 fs1 = (Inr (), w2, fs2)" "writer_ok w2 fs2"
        "jw_maxBytes w2 = jw_maxBytes w1" "jw_maxBackups w2 = jw_maxBackups w1"
        "content fs2 0 = content fs1 0 @ l @ [newline]"
        "\<forall>k. k \<noteq> 0 \<longrightarrow> content fs2 k = content fs1 k"
      using put [OF r(2)] by blast
    have "appendLineLocked calm l w fs = (Inr (), w2, fs2)"
      using w_open True r p by (simp add: appendLineLocked_def)
    moreover have "content fs2 k = content fs (k - 1)" if "1 \<le> k" "k \<le> jw_maxBackups w" for k
      using that r(6,7) p(6) by (cases "k = 1") auto
    moreover have "jw_maxBytes w < int (length (content fs 0)) + (int (length l) + 1)"
      using True w by (simp add: writer_ok_def)
    ultimately show thesis using rotated [of w2 fs2] p r by simp
  next
    case False
    obtain w2 fs2 where p: "write_record calm l w fs = (Inr (), w2, fs2)" "writer_ok w2 fs2"
        "jw_maxBytes w2 = jw_maxBytes w" "jw_maxBackups w2 = jw_maxBackups w"
        "content fs2 0 = content fs 0 @ l @ [newline]"
        "\<forall>k. k \<noteq> 0 \<longrightarrow> content fs2 k = content fs k"
      using put [OF w] by blast
    have "appendLineLocked calm l w fs = (Inr (), w2, fs2)"
      using False p(1) w_open by (auto simp: appendLineLocked_def)
    moreover have "content fs 0 = [] \<or> int (length (content fs2 0)) \<le> jw_maxBytes w"
      using w False p(5) by (auto simp: writer_ok_def)
    ultimately show thesis using plain [of w2 fs2] p by simp
  qed
qed

text \<open>
  Every file holds whole records, \<open>c i\<close> those of file \<open>i\<close>; in query order they are the appended ones
  but for a number of the oldest; a file over the size limit holds one record. A backup is only there if
  the next newer file is, whose first record it had no room for, and records are only missing if the
  last backup is there.
\<close>

definition log_holds :: "int \<Rightarrow> nat \<Rightarrow> log_files \<Rightarrow> (nat \<Rightarrow> string list) \<Rightarrow> string list \<Rightarrow> bool" where
  "log_holds maxBytes n fs c ls \<longleftrightarrow>
     (\<forall>i \<le> n. content fs i = records (c i)
        \<and> (int (length (content fs i)) \<le> maxBytes \<or> length (c i) \<le> 1))
     \<and> (\<forall>i < n. c (Suc i) \<noteq> [] \<longrightarrow> c i \<noteq> []
          \<and> maxBytes < int (length (content fs (Suc i))) + (int (length (hd (c i))) + 1))
     \<and> (\<exists>k. concat (map c (query_order n)) = drop k ls \<and> k \<le> length ls \<and> (0 < k \<longrightarrow> c n \<noteq> []))
     \<and> (ls \<noteq> [] \<longrightarrow> c 0 \<noteq> [])"

lemma records_length: "ls \<noteq> [] \<Longrightarrow> length (hd ls) < length (records ls)"
  by (cases ls) simp_all

lemma content_empty: "content fs i = records (c i) \<Longrightarrow> content fs i = [] \<longleftrightarrow> c i = []"
  by (cases "c i") simp_all

text \<open>Once the last backup is there, the files hold more than half of what they may.\<close>

lemma log_full:
  assumes holds: "log_holds M n fs c ls" and "i \<le> n" "content fs i \<noteq> []"
  shows "M * int (Suc i div 2) < int (length (visible i fs))"
  using assms(2,3)
proof (induction i rule: less_induct)
  case (less i)
  have chunk: "content fs j = records (c j)" if "j \<le> n" for j using holds that by (simp add: log_holds_def)
  have empty: "content fs j = [] \<longleftrightarrow> c j = []" if "j \<le> n" for j
    using content_empty [of fs j c] chunk [OF that] by simp
  have pair: "c j \<noteq> [] \<and> M < int (length (content fs (Suc j))) + int (length (content fs j))"
    if "Suc j \<le> n" "content fs (Suc j) \<noteq> []" for j
  proof -
    have "c j \<noteq> [] \<and> M < int (length (content fs (Suc j))) + (int (length (hd (c j))) + 1)"
    proof -
      have "j < n" "c (Suc j) \<noteq> []" using that empty [OF that(1)] by simp_all
      then show ?thesis using holds unfolding log_holds_def by blast
    qed
    moreover have "length (hd (c j)) < length (content fs j)" if "c j \<noteq> []"
      using records_length [OF that] chunk [of j] \<open>Suc j \<le> n\<close> by simp
    ultimately show ?thesis by auto
  qed
  consider "i = 0" | "i = 1" | j where "i = Suc (Suc j)" by (metis One_nat_def old.nat.exhaust)
  then show ?case
  proof cases
    case 1
    then show ?thesis using less.prems by (simp add: visible_0)
  next
    case 2
    then show ?thesis using less.prems pair [of 0] by (simp add: visible_Suc visible_0)
  next
    case (3 j)
    have one: "c (Suc j) \<noteq> []" "M < int (length (content fs (Suc (Suc j)))) + int (length (content fs (Suc j)))"
      using pair [of "Suc j"] less.prems 3 by simp_all
    then have "content fs (Suc j) \<noteq> []" using empty [of "Suc j"] less.prems(1) 3 by simp
    then have "c j \<noteq> []" using pair [of j] less.prems(1) 3 by simp
    then have "content fs j \<noteq> []" using empty [of j] less.prems(1) 3 by simp
    then have "M * int (Suc j div 2) < int (length (visible j fs))"
      using less.IH [of j] less.prems(1) 3 by simp
    moreover have "M * int (Suc i div 2) = M + M * int (Suc j div 2)" using 3 by (simp add: distrib_left)
    ultimately show ?thesis using one(2) 3 by (simp add: visible_Suc)
  qed
qed

lemma query_order_Suc: "query_order (Suc n) = Suc n # query_order n"
  by (simp add: query_order_def)

lemma concat_order_snoc:
  "(\<And>k. k \<noteq> 0 \<Longrightarrow> c' k = c k) \<Longrightarrow> c' 0 = c 0 @ [l] \<Longrightarrow>
     concat (map c' (query_order n)) = concat (map c (query_order n)) @ [l]"
  by (induction n) (simp_all add: query_order_Suc, simp add: query_order_def)

lemma concat_order_shift:
  "(\<And>k. 1 \<le> k \<Longrightarrow> k \<le> Suc n \<Longrightarrow> c' k = c (k - 1)) \<Longrightarrow> c' 0 = [l] \<Longrightarrow>
     concat (map c' (query_order (Suc n))) = concat (map c (query_order n)) @ [l]"
proof (induction n)
  case 0
  then show ?case by (simp add: query_order_def)
next
  case (Suc n)
  then have "concat (map c' (query_order (Suc n))) = concat (map c (query_order n)) @ [l]" by simp
  moreover have "c' (Suc (Suc n)) = c (Suc n)" using Suc.prems(1) [of "Suc (Suc n)"] by simp
  ultimately show ?case
    by (simp only: query_order_Suc [of "Suc n"] query_order_Suc [of n] list.map concat.simps append.assoc)
qed

lemma log_holds_append:
  assumes w: "writer_ok w fs" and holds: "log_holds (jw_maxBytes w) (jw_maxBackups w) fs c ls"
  shows "\<exists>w' fs' c'. appendLineLocked calm l w fs = (Inr (), w', fs') \<and> writer_ok w' fs'
    \<and> jw_maxBytes w' = jw_maxBytes w \<and> jw_maxBackups w' = jw_maxBackups w
    \<and> log_holds (jw_maxBytes w) (jw_maxBackups w) fs' c' (ls @ [l])
    \<and> (content fs (jw_maxBackups w) \<noteq> [] \<longrightarrow> content fs' (jw_maxBackups w) \<noteq> [])"
proof -
  obtain n where n: "jw_maxBackups w = Suc n"
    using w by (metis Suc_le_D One_nat_def writer_ok_def)
  obtain k where k: "concat (map c (query_order (Suc n))) = drop k ls" "k \<le> length ls" "0 < k \<longrightarrow> c (Suc n) \<noteq> []"
    using holds n by (auto simp: log_holds_def)
  have next_file: "c i \<noteq> []" "jw_maxBytes w < int (length (content fs (Suc i))) + (int (length (hd (c i))) + 1)"
    if "i < Suc n" "c (Suc i) \<noteq> []" for i
    using holds n that by (auto simp: log_holds_def)
  have chunk: "content fs i = records (c i)"
    "int (length (content fs i)) \<le> jw_maxBytes w \<or> length (c i) \<le> 1" if "i \<le> Suc n" for i
    using holds that n by (auto simp: log_holds_def)
  from w show ?thesis
  proof (cases rule: append_calm [where l = l])
    case (plain w' fs')
    let ?c = "c(0 := c 0 @ [l])"
    have "concat (map ?c (query_order (Suc n))) = drop k (ls @ [l])"
      using concat_order_snoc [of ?c c l "Suc n"] k by simp
    moreover have "content fs' i = records (?c i)" if "i \<le> Suc n" for i
      using plain(5,6) chunk that by (cases "i = 0") auto
    moreover have "int (length (content fs' i)) \<le> jw_maxBytes w \<or> length (?c i) \<le> 1"
      if "i \<le> Suc n" for i
    proof (cases "i = 0")
      case True
      have "c 0 = []" if "content fs 0 = []" using chunk(1) [of 0] that by (cases "c 0") simp_all
      then show ?thesis using plain(7) True by auto
    next
      case False
      then show ?thesis using plain(6) chunk(2) that by simp
    qed
    moreover have "?c i \<noteq> [] \<and> jw_maxBytes w < int (length (content fs' (Suc i))) + (int (length (hd (?c i))) + 1)"
      if "i < Suc n" "?c (Suc i) \<noteq> []" for i
      using next_file [of i] that plain(6) by (cases "i = 0") auto
    ultimately have "log_holds (jw_maxBytes w) (Suc n) fs' ?c (ls @ [l])"
      unfolding log_holds_def using k(2,3) by (intro conjI exI [of _ k]) auto
    moreover have "content fs' (Suc n) = content fs (Suc n)" using plain(6) by simp
    ultimately show ?thesis using plain n by metis
  next
    case (rotated w' fs')
    let ?c = "\<lambda>i. if i = 0 then [l] else c (i - 1)"
    have "concat (map ?c (query_order (Suc n))) = concat (map c (query_order n)) @ [l]"
      by (rule concat_order_shift) auto
    moreover have "drop (k + length (c (Suc n))) ls = concat (map c (query_order n))"
    proof -
      have "drop (length (c (Suc n))) (drop k ls) = concat (map c (query_order n))"
        unfolding k(1) [symmetric] by (simp add: query_order_Suc)
      then show ?thesis by (simp add: add.commute)
    qed
    moreover have "k + length (c (Suc n)) \<le> length ls"
    proof -
      have "length (c (Suc n)) \<le> length (drop k ls)"
        unfolding k(1) [symmetric] by (simp add: query_order_Suc)
      then show ?thesis using k(2) by simp
    qed
    moreover have "?c (Suc n) \<noteq> []" if "0 < k + length (c (Suc n))"
      using that k(3) next_file(1) [of n] by auto
    ultimately have ex: "\<exists>j. concat (map ?c (query_order (Suc n))) = drop j (ls @ [l])
        \<and> j \<le> length (ls @ [l]) \<and> (0 < j \<longrightarrow> ?c (Suc n) \<noteq> [])"
      by (intro exI [of _ "k + length (c (Suc n))"]) simp
    have "content fs' i = records (?c i)
        \<and> (int (length (content fs' i)) \<le> jw_maxBytes w \<or> length (?c i) \<le> 1)" if "i \<le> Suc n" for i
      using rotated(5,6) chunk [of "i - 1"] that n by (cases "i = 0") auto
    moreover have "?c i \<noteq> [] \<and> jw_maxBytes w < int (length (content fs' (Suc i))) + (int (length (hd (?c i))) + 1)"
      if "i < Suc n" "?c (Suc i) \<noteq> []" for i
    proof (cases i)
      case 0
      then show ?thesis using rotated(6,7) n by simp
    next
      case (Suc j)
      then show ?thesis using next_file [of j] that rotated(6) n by simp
    qed
    ultimately have holds': "log_holds (jw_maxBytes w) (Suc n) fs' ?c (ls @ [l])"
      unfolding log_holds_def using ex by (intro conjI) (blast, blast, blast, simp)
    have empty: "content fs j = [] \<longleftrightarrow> c j = []" if "j \<le> Suc n" for j
      using content_empty [of fs j c] chunk(1) [OF that] by simp
    have "content fs' (Suc n) \<noteq> []" if "content fs (Suc n) \<noteq> []"
    proof -
      have "c (Suc n) \<noteq> []" using that empty [of "Suc n"] by simp
      then have "content fs n \<noteq> []" using next_file(1) [of n] empty [of n] by simp
      then show ?thesis using rotated(6) n by simp
    qed
    with holds' show ?thesis using rotated n by metis
  qed
qed

lemma log_holds_all:
  "writer_ok w fs \<Longrightarrow> log_holds (jw_maxBytes w) (jw_maxBackups w) fs c ls0 \<Longrightarrow>
     \<exists>w' fs' c'. append_all ls w fs = (Inr (), w', fs')
       \<and> log_holds (jw_maxBytes w) (jw_maxBackups w) fs' c' (ls0 @ ls)"
proof (induction ls arbitrary: w fs c ls0)
  case (Cons l ls)
  obtain w1 fs1 c1 where step: "appendLineLocked calm l w fs = (Inr (), w1, fs1)" "writer_ok w1 fs1"
      "jw_maxBytes w1 = jw_maxBytes w" "jw_maxBackups w1 = jw_maxBackups w"
      "log_holds (jw_maxBytes w1) (jw_maxBackups w1) fs1 c1 (ls0 @ [l])"
    using log_holds_append [OF Cons.prems] by metis
  then obtain w' fs' c' where "append_all ls w1 fs1 = (Inr (), w', fs')"
      "log_holds (jw_maxBytes w1) (jw_maxBackups w1) fs' c' ((ls0 @ [l]) @ ls)"
    using Cons.IH [OF step(2,5)] by blast
  then show ?case using step by auto
qed auto

lemma visible_chunks:
  "\<forall>i \<le> n. content fs i = records (c i) \<Longrightarrow> visible n fs = records (concat (map c (query_order n)))"
  by (induction n) (simp_all add: visible_Suc visible_0 query_order_Suc, simp add: query_order_def)

section \<open>Failures\<close>

lemma visible_cong: "(\<And>k. k \<le> n \<Longrightarrow> content fs' k = content fs k) \<Longrightarrow> visible n fs' = visible n fs"
  by (induction n) (simp_all add: visible_Suc visible_0)

lemma visible_rename:
  assumes "fs (Suc i) = None" "Suc i \<le> n"
  shows "visible n (rename_file i (Suc i) fs) = visible n fs"
  using assms(2)
proof (induction n)
  case (Suc n)
  show ?case
  proof (cases "n = i")
    case True
    have "content fs (Suc i) = []" using assms(1) by (simp add: content_def)
    moreover have "visible i (rename_file i (Suc i) fs) = drop (length (content fs i)) (visible i fs)"
    proof (cases i)
      case 0
      then show ?thesis using assms(1) by (simp add: visible_0 content_rename)
    next
      case (Suc j)
      then show ?thesis using assms(1)
        by (simp add: visible_Suc content_rename) (rule visible_cong, simp add: content_rename)
    qed
    moreover have "visible i fs = content fs i @ drop (length (content fs i)) (visible i fs)"
      by (cases i) (simp_all add: visible_Suc visible_0)
    ultimately show ?thesis using True assms(1)
      by (simp add: visible_Suc content_rename)
  next
    case False
    then show ?thesis using Suc assms(1) by (simp add: visible_Suc content_rename)
  qed
qed simp

lemma shift_backups_visible:
  "fs (Suc i) = None \<Longrightarrow> Suc i \<le> n \<Longrightarrow> shift_backups ren i fs = (r, fs') \<Longrightarrow>
     visible n fs' = visible n fs \<and> (\<not> isl r \<longrightarrow> fs' 1 = None)"
proof (induction i arbitrary: fs)
  case (Suc i)
  show ?case
  proof (cases "ren (Suc i)")
    case None
    then have "shift_backups ren i (rename_file (Suc i) (Suc (Suc i)) fs) = (r, fs')"
      using Suc.prems(3) by simp
    then show ?thesis
      using Suc.IH [of "rename_file (Suc i) (Suc (Suc i)) fs"] Suc.prems visible_rename [of fs "Suc i" n]
      by (simp add: rename_file_free)
  next
    case (Some e)
    then show ?thesis using Suc.prems by auto
  qed
qed simp

text \<open>What a query sees after any append, whatever fails.\<close>

lemma jsonl_open_visible: "jsonl_open env w fs = (r, w', fs') \<Longrightarrow> visible n fs' = visible n fs"
proof -
  assume op: "jsonl_open env w fs = (r, w', fs')"
  have old: "(case fs 0 of None \<Rightarrow> [] | Some c \<Rightarrow> c) = content fs 0" by (simp add: content_def)
  have "fs' = fs \<or> fs' = fs(0 \<mapsto> content fs 0)"
    using op unfolding jsonl_open_def Let_def old by (auto split: option.splits)
  then show ?thesis by (auto intro: visible_cong)
qed

lemma rotateLocked_visible:
  assumes rot: "rotateLocked env w fs = (r, w', fs')" and n: "jw_maxBackups w = Suc n"
  shows "visible (Suc n) fs' = visible (Suc n) fs \<or> visible (Suc n) fs = content fs (Suc n) @ visible (Suc n) fs'"
proof -
  obtain r1 w1 where close: "closeLocked (en_close env) w = (r1, w1)" by fastforce
  have w1: "jw_maxBackups w1 = Suc n"
    using close n by (auto simp: closeLocked_def split: if_splits)
  let ?fs = "fs(Suc n := None)"
  have drop: "visible (Suc n) fs = content fs (Suc n) @ visible (Suc n) ?fs"
    unfolding visible_Suc by simp (rule visible_cong [symmetric], simp)
  show ?thesis
  proof (cases "isl r1 \<or> en_remove env \<noteq> None")
    case True
    then have "fs' = fs"
      using rot close by (auto simp: rotateLocked_def split: option.splits sum.splits)
    then show ?thesis by simp
  next
    case False
    obtain r2 fs1 where shift: "shift_backups (en_rename env) n ?fs = (r2, fs1)" by fastforce
    have vis: "visible (Suc n) fs1 = visible (Suc n) ?fs" "\<not> isl r2 \<Longrightarrow> fs1 1 = None"
      using shift_backups_visible [OF _ _ shift, of "Suc n"] by simp_all
    have "visible (Suc n) fs' = visible (Suc n) fs1"
    proof (cases "isl r2 \<or> en_rename env 0 \<noteq> None")
      case True
      then have "fs' = fs1"
        using rot close False w1 shift
        by (auto simp: rotateLocked_def split: option.splits sum.splits)
      then show ?thesis by simp
    next
      case rename: False
      then have "jsonl_open (en_open env) w1 (rename_file 0 1 fs1) = (r, w', fs')"
        using rot close False w1 shift
        by (auto simp: rotateLocked_def split: option.splits sum.splits)
      then have "visible (Suc n) fs' = visible (Suc n) (rename_file 0 1 fs1)"
        by (rule jsonl_open_visible)
      then show ?thesis using visible_rename [of fs1 0 "Suc n"] vis(2) rename by simp
    qed
    then show ?thesis using vis drop by simp
  qed
qed

lemma write_record_visible:
  "write_record env l w fs = (r, w', fs') \<Longrightarrow>
     \<exists>m. visible n fs' = visible n fs @ take m (l @ [newline])
       \<and> (\<not> isl r \<longrightarrow> length (l @ [newline]) \<le> m)"
proof -
  assume wr: "write_record env l w fs = (r, w', fs')"
  have app: "visible n gs' = visible n fs @ t"
    if "content gs' 0 = content fs 0 @ t" "\<forall>k. k \<noteq> 0 \<longrightarrow> content gs' k = content fs k" for gs' t
    using that by (induction n) (simp_all add: visible_Suc visible_0)
  have old: "(case fs 0 of None \<Rightarrow> [] | Some c \<Rightarrow> c) = content fs 0" by (simp add: content_def)
  show ?thesis
  proof (cases "jw_failed w")
    case (Some e)
    then have "fs' = fs" "isl r" using wr by (auto simp: write_record_def)
    then show ?thesis by (intro exI [of _ 0]) simp
  next
    case None
    show ?thesis
    proof (cases "en_write env")
      case None
      then have "fs' = fs(0 \<mapsto> content fs 0 @ l @ [newline])"
        using wr \<open>jw_failed w = None\<close> by (simp add: write_record_def Let_def old)
      then show ?thesis using app [of fs' "l @ [newline]"]
        by (intro exI [of _ "length (l @ [newline])"]) simp
    next
      case (Some x)
      obtain m call e where x: "x = (m, call, e)" by (cases x)
      have "fs' = fs(0 \<mapsto> content fs 0 @ take m (l @ [newline]))" "isl r"
        using wr \<open>jw_failed w = None\<close> Some x by (auto simp: write_record_def Let_def old)
      then show ?thesis using app [of fs' "take m (l @ [newline])"] by (intro exI [of _ m]) simp
    qed
  qed
qed

section \<open>Properties\<close>

text \<open>
  The log a query reads is a suffix of what was appended: when no call fails, every append to a
  fresh log succeeds, and the files from the oldest backup to the current one hold, in order, all
  appended records but for some of the oldest; the latest record is always among them, some are only
  missing if the files hold more than half of what they may, and a file exceeds the size limit only
  when it holds a single record.
\<close>

theorem jsonl_suffix:
  assumes "newJSONLWriter None calm_open maxBytes maxBackups Map.empty = (Inr w, fs)"
  shows "\<exists>w' fs' k. append_all ls w fs = (Inr (), w', fs')
    \<and> visible (nat maxBackups) fs' = records (drop k ls) \<and> (ls \<noteq> [] \<longrightarrow> k < length ls)
    \<and> (0 < k \<longrightarrow> maxBytes * int (Suc (nat maxBackups) div 2) < int (length (visible (nat maxBackups) fs')))
    \<and> (\<forall>i \<le> nat maxBackups. int (length (content fs' i)) \<le> maxBytes
         \<or> (\<exists>l. content fs' i = records [l]))"
proof -
  have w: "writer_ok w fs" "jw_maxBytes w = maxBytes" "jw_maxBackups w = nat maxBackups"
    "fs = [0 \<mapsto> []]"
    using assms
    by (auto simp: newJSONLWriter_def jsonl_open_def calm_open_def writer_ok_def content_def Let_def
        split: if_splits)
  have pos: "0 < maxBytes" using assms by (auto simp: newJSONLWriter_def split: if_splits)
  have "log_holds (jw_maxBytes w) (jw_maxBackups w) fs (\<lambda>_. []) []"
    using w(4) pos w(2) by (auto simp: log_holds_def content_def query_order_def)
  then obtain w' fs' c where app: "append_all ls w fs = (Inr (), w', fs')"
    and holds: "log_holds maxBytes (nat maxBackups) fs' c ls"
    using log_holds_all [OF w(1), of "\<lambda>_. []" "[]" ls] w(2,3) by auto
  obtain k where k: "concat (map c (query_order (nat maxBackups))) = drop k ls" "k \<le> length ls"
    "0 < k \<longrightarrow> c (nat maxBackups) \<noteq> []"
    using holds by (auto simp: log_holds_def)
  have kept: "maxBytes * int (Suc (nat maxBackups) div 2) < int (length (visible (nat maxBackups) fs'))" if "0 < k"
    using log_full [OF holds, of "nat maxBackups"] k(3) that content_empty [of fs' "nat maxBackups" c] holds
    by (simp add: log_holds_def)
  have vis: "visible (nat maxBackups) fs' = records (drop k ls)"
    using visible_chunks [of "nat maxBackups" fs' c] holds k by (simp add: log_holds_def)
  have "k < length ls" if "ls \<noteq> []"
  proof -
    have "c 0 \<noteq> []" using holds that by (simp add: log_holds_def)
    moreover have "0 \<in> set (query_order (nat maxBackups))" by (auto simp: query_order_def)
    ultimately have "concat (map c (query_order (nat maxBackups))) \<noteq> []"
      unfolding concat_eq_Nil_conv by auto
    then have "drop k ls \<noteq> []" using k(1) by simp
    then show ?thesis by simp
  qed
  moreover have "int (length (content fs' i)) \<le> maxBytes \<or> (\<exists>l. content fs' i = records [l])"
    if "i \<le> nat maxBackups" for i
  proof -
    have "content fs' i = records (c i)" "int (length (content fs' i)) \<le> maxBytes \<or> length (c i) \<le> 1"
      using holds that by (auto simp: log_holds_def)
    then show ?thesis using pos by (cases "c i") auto
  qed
  ultimately show ?thesis using app vis kept by blast
qed

lemma jsonl_suffix_witness:
  "\<exists>w fs w' fs'. newJSONLWriter None calm_open 4 1 Map.empty = (Inr w, fs)
     \<and> append_all [''ab'', ''cd'', ''ef''] w fs = (Inr (), w', fs')"
proof -
  let ?w = "\<lparr>jw_maxBytes = 4, jw_maxBackups = 1, jw_open = True, jw_failed = None,
             jw_currentSize = 0\<rparr>"
  have "newJSONLWriter None calm_open 4 1 Map.empty = (Inr ?w, [0 \<mapsto> []])"
    by (simp add: newJSONLWriter_def jsonl_open_def calm_open_def Let_def)
  moreover from this obtain w' fs' where "append_all [''ab'', ''cd'', ''ef''] ?w [0 \<mapsto> []] = (Inr (), w', fs')"
    using jsonl_suffix [of 4 1 ?w "[0 \<mapsto> []]" "[''ab'', ''cd'', ''ef'']"] by auto
  ultimately show ?thesis by blast
qed

text \<open>
  C29. No failure loses, repeats or reorders records: whichever call of an append fails, what a query
  sees afterwards is what it saw before, less at most the content of the oldest backup, followed by
  the new record or, after an error, a part of it.
\<close>

theorem append_keeps_log:
  assumes "1 \<le> jw_maxBackups w" "appendLineLocked env l w fs = (r, w', fs')"
  shows "\<exists>dropped m. visible (jw_maxBackups w) fs @ take m (l @ [newline])
           = dropped @ visible (jw_maxBackups w) fs'
    \<and> (dropped = [] \<or> dropped = content fs (jw_maxBackups w))
    \<and> (\<not> isl r \<longrightarrow> length (l @ [newline]) \<le> m)"
proof -
  obtain n where n: "jw_maxBackups w = Suc n" using assms(1) by (metis Suc_le_D One_nat_def)
  consider (closed) "fs' = fs" "isl r"
    | (direct) "write_record env l w fs = (r, w', fs')"
    | (failed) "rotateLocked env w fs = (r, w', fs')" "isl r"
    | (rotated) u w1 fs1 where "rotateLocked env w fs = (Inr u, w1, fs1)"
        "write_record env l w1 fs1 = (r, w', fs')"
    using assms(2)
    by (auto simp: appendLineLocked_def split: if_splits sum.splits prod.splits)
  then show ?thesis
  proof cases
    case closed
    then show ?thesis by (intro exI [of _ "[]"] exI [of _ 0]) simp
  next
    case direct
    from write_record_visible [OF this, of "jw_maxBackups w"] obtain m where
      "visible (jw_maxBackups w) fs' = visible (jw_maxBackups w) fs @ take m (l @ [newline])"
      "\<not> isl r \<longrightarrow> length (l @ [newline]) \<le> m" by blast
    then show ?thesis by (intro exI [of _ "[]"] exI [of _ m]) simp
  next
    case failed
    from rotateLocked_visible [OF failed(1) n] show ?thesis
      using failed(2) n by (metis append_Nil append_Nil2 take_0)
  next
    case rotated
    from write_record_visible [OF rotated(2), of "Suc n"] obtain m where
      "visible (Suc n) fs' = visible (Suc n) fs1 @ take m (l @ [newline])"
      "\<not> isl r \<longrightarrow> length (l @ [newline]) \<le> m" by blast
    with rotateLocked_visible [OF rotated(1) n] show ?thesis
      using n by (metis append.assoc append_Nil)
  qed
qed

text \<open>The failing rename of the example: the writer has one record and is full.\<close>

definition full_writer :: jsonlWriter where
  "full_writer = \<lparr>jw_maxBytes = 4, jw_maxBackups = 2, jw_open = True, jw_failed = None,
                  jw_currentSize = 3\<rparr>"

definition bad_rename :: append_env where
  "bad_rename = calm\<lparr>en_rename := (\<lambda>i. if i = 0 then Some (Errorf ''EBUSY'') else None)\<rparr>"

lemma append_keeps_log_witness:
  "fst (appendLineLocked bad_rename ''cd'' full_writer [0 \<mapsto> records [''ab'']])
     = Inl (Wrapf ''rotate jsonl file'' (Errorf ''EBUSY''))
   \<and> (\<exists>dropped m. visible 2 [0 \<mapsto> records [''ab'']] @ take m (''cd'' @ [newline])
        = dropped @ visible 2 (snd (snd (appendLineLocked bad_rename ''cd'' full_writer
            [0 \<mapsto> records [''ab'']]))))"
proof -
  obtain r w' fs' where a: "appendLineLocked bad_rename ''cd'' full_writer [0 \<mapsto> records [''ab'']] = (r, w', fs')"
    by (metis surj_pair)
  have "fst (appendLineLocked bad_rename ''cd'' full_writer [0 \<mapsto> records [''ab'']])
     = Inl (Wrapf ''rotate jsonl file'' (Errorf ''EBUSY''))" by code_simp
  moreover have "jw_maxBackups full_writer = 2" by (simp add: full_writer_def)
  ultimately show ?thesis using append_keeps_log [OF _ a] a by auto
qed

text \<open>
  A failed rotation is final: once a call of a rotation has failed, the writer has no file, and
  every later append is refused without a system call, also when the cause has gone.
\<close>

lemma rotation_failure_final:
  assumes "jw_open w" "rotateLocked env w fs = (Inl e, w', fs')"
  shows "\<not> jw_open w'
    \<and> appendLineLocked env' l w' fs' = (Inl (Errorf ''jsonl writer is closed''), w', fs')"
proof -
  have close: "\<not> jw_open w1" if "closeLocked x w = (r, w1)" for x r w1
    using that assms(1) by (auto simp: closeLocked_def)
  have opn: "w2 = w1" if "jsonl_open oe w1 gs = (Inl e', w2, gs')" for oe w1 gs e' w2 gs'
    using that by (auto simp: jsonl_open_def Let_def split: option.splits)
  have "\<not> jw_open w'"
    using assms(2) close
    by (auto simp: rotateLocked_def dest!: opn split: option.splits sum.splits prod.splits)
  then show ?thesis by (simp add: appendLineLocked_def)
qed

lemma rotation_failure_final_witness:
  "\<exists>e w' fs'. rotateLocked bad_rename full_writer [0 \<mapsto> records [''ab'']] = (Inl e, w', fs')
     \<and> fst (appendLineLocked calm ''cd'' w' fs') = Inl (Errorf ''jsonl writer is closed'')"
proof -
  obtain r w' fs' where a: "rotateLocked bad_rename full_writer [0 \<mapsto> records [''ab'']] = (r, w', fs')"
    by (metis surj_pair)
  have "fst (rotateLocked bad_rename full_writer [0 \<mapsto> records [''ab'']])
     = Inl (Wrapf ''rotate jsonl file'' (Errorf ''EBUSY''))" by code_simp
  then have a': "rotateLocked bad_rename full_writer [0 \<mapsto> records [''ab'']]
     = (Inl (Wrapf ''rotate jsonl file'' (Errorf ''EBUSY'')), w', fs')" using a by simp
  have "jw_open full_writer" by (simp add: full_writer_def)
  from rotation_failure_final [OF this a', of calm "''cd''"] show ?thesis using a' by auto
qed

end
