(* ===== verification/MessageLog.thy ===== *)
theory MessageLog
  imports JsonlWriter "HOL-Library.Product_Lexorder"
begin

text \<open>
  The audit log of \<open>internal/lite/message_log.go\<close>: what is written of a message, an attempt and a
  provider event, and what the queries read back. The JSON library and the time parser are
  arguments (\<open>log_codec\<close>): a line decodes to the fields of the anonymous struct of the decoder, or
  not at all. A file is what opening and scanning it gives.
\<close>

section \<open>Records\<close>

record MessageSnapshot =
  ms_Timestamp :: go_time
  ms_RequestID :: string
  ms_BusinessRequestID :: string
  ms_MessageID :: string
  ms_AppCode :: string
  ms_APIKeyName :: string
  ms_SceneCode :: string
  ms_ToDomain :: string
  ms_ToHash :: string
  ms_Locale :: string
  ms_Status :: MessageStatus
  ms_ErrorCode :: ErrorCode
  ms_ErrorMessage :: string

record ProviderEventSnapshot =
  es_Timestamp :: go_time
  es_MessageID :: string
  es_AppCode :: string
  es_Provider :: Provider
  es_ProviderAccountCode :: string
  es_ProviderChannelCode :: string
  es_ProviderMessageID :: string
  es_EventType :: ProviderEventType
  es_OccurredAt :: string

record AttemptSnapshot =
  as_Timestamp :: go_time
  as_MessageID :: string
  as_AppCode :: string
  as_AttemptNo :: int
  as_Provider :: Provider
  as_ProviderAccountCode :: string
  as_ProviderChannelCode :: string
  as_Transport :: Transport
  as_Status :: AttemptStatus
  as_FailureClass :: FailureClass
  as_ErrorCode :: ErrorCode
  as_ErrorMessage :: string
  as_ProviderMessageID :: string
  as_DurationMS :: int

record MessageListFilter =
  mf_Limit :: int
  mf_Status :: MessageStatus
  mf_Scene :: string

record ProviderEventListFilter =
  pf_Limit :: int
  pf_Provider :: Provider
  pf_EventType :: ProviderEventType

text \<open>The anonymous structs of the decoders: the same fields with the time stamp as text.\<close>

record raw_message =
  rm_Timestamp :: string
  rm_RequestID :: string
  rm_BusinessRequestID :: string
  rm_MessageID :: string
  rm_AppCode :: string
  rm_APIKeyName :: string
  rm_SceneCode :: string
  rm_ToDomain :: string
  rm_ToHash :: string
  rm_Locale :: string
  rm_Status :: MessageStatus
  rm_ErrorCode :: ErrorCode
  rm_ErrorMessage :: string

record raw_attempt =
  ra_Timestamp :: string
  ra_MessageID :: string
  ra_AppCode :: string
  ra_AttemptNo :: int
  ra_Provider :: Provider
  ra_ProviderAccountCode :: string
  ra_ProviderChannelCode :: string
  ra_Transport :: Transport
  ra_Status :: AttemptStatus
  ra_FailureClass :: FailureClass
  ra_ErrorCode :: ErrorCode
  ra_ErrorMessage :: string
  ra_ProviderMessageID :: string
  ra_DurationMS :: int

record raw_event =
  re_Timestamp :: string
  re_MessageID :: string
  re_AppCode :: string
  re_Provider :: Provider
  re_ProviderAccountCode :: string
  re_ProviderChannelCode :: string
  re_ProviderMessageID :: string
  re_EventType :: ProviderEventType
  re_EventPayload :: string
  re_OccurredAt :: string

record log_codec =
  lc_message :: "string \<Rightarrow> raw_message result"
  lc_attempt :: "string \<Rightarrow> raw_attempt result"
  lc_event :: "string \<Rightarrow> raw_event result"
  lc_time :: "string \<Rightarrow> go_time result"

section \<open>Decoding a line\<close>

definition decodeMessageSnapshot :: "log_codec \<Rightarrow> string \<Rightarrow> MessageSnapshot result" where
  "decodeMessageSnapshot codec line =
     (case lc_message codec line of
        Inl e \<Rightarrow> Inl (Wrapf ''decode message log record'' e)
      | Inr raw \<Rightarrow>
          (case lc_time codec (rm_Timestamp raw) of
             Inl e \<Rightarrow> Inl (Wrapf ''decode message log timestamp'' e)
           | Inr timestamp \<Rightarrow>
               if rm_MessageID raw = [] \<or> \<not> MessageStatus_IsValid (rm_Status raw) then
                 Inl (Errorf ''decode message log record: required fields are invalid'')
               else Inr \<lparr>ms_Timestamp = timestamp, ms_RequestID = rm_RequestID raw,
                 ms_BusinessRequestID = rm_BusinessRequestID raw, ms_MessageID = rm_MessageID raw,
                 ms_AppCode = rm_AppCode raw, ms_APIKeyName = rm_APIKeyName raw,
                 ms_SceneCode = rm_SceneCode raw, ms_ToDomain = rm_ToDomain raw,
                 ms_ToHash = rm_ToHash raw, ms_Locale = rm_Locale raw, ms_Status = rm_Status raw,
                 ms_ErrorCode = rm_ErrorCode raw, ms_ErrorMessage = rm_ErrorMessage raw\<rparr>))"

definition isValidAttemptProviderMetadata ::
    "Provider \<Rightarrow> string \<Rightarrow> string \<Rightarrow> Transport \<Rightarrow> AttemptStatus \<Rightarrow> FailureClass \<Rightarrow> bool" where
  "isValidAttemptProviderMetadata provider account channel transport status class =
     (if Provider_IsValid provider \<and> account \<noteq> [] \<and> channel \<noteq> [] \<and> Transport_IsValid transport then True
      else if provider = NoProvider \<and> account = [] \<and> channel \<noteq> [] \<and> transport = NoTransport
              \<and> status = AttemptStatusFailed \<and> class = FailureClassChannel then True
      else False)"

definition decodeAttemptSnapshot :: "log_codec \<Rightarrow> string \<Rightarrow> AttemptSnapshot result" where
  "decodeAttemptSnapshot codec line =
     (case lc_attempt codec line of
        Inl e \<Rightarrow> Inl (Wrapf ''decode attempt log record'' e)
      | Inr raw \<Rightarrow>
          (case lc_time codec (ra_Timestamp raw) of
             Inl e \<Rightarrow> Inl (Wrapf ''decode attempt log timestamp'' e)
           | Inr timestamp \<Rightarrow>
               if ra_MessageID raw = [] \<or> ra_AttemptNo raw \<le> 0
                  \<or> \<not> AttemptStatus_IsValid (ra_Status raw)
                  \<or> \<not> FailureClass_IsValid (ra_FailureClass raw)
                  \<or> \<not> isValidAttemptProviderMetadata (ra_Provider raw) (ra_ProviderAccountCode raw)
                        (ra_ProviderChannelCode raw) (ra_Transport raw) (ra_Status raw)
                        (ra_FailureClass raw) then
                 Inl (Errorf ''decode attempt log record: required fields are invalid'')
               else Inr \<lparr>as_Timestamp = timestamp, as_MessageID = ra_MessageID raw,
                 as_AppCode = ra_AppCode raw, as_AttemptNo = ra_AttemptNo raw,
                 as_Provider = ra_Provider raw, as_ProviderAccountCode = ra_ProviderAccountCode raw,
                 as_ProviderChannelCode = ra_ProviderChannelCode raw,
                 as_Transport = ra_Transport raw, as_Status = ra_Status raw,
                 as_FailureClass = ra_FailureClass raw, as_ErrorCode = ra_ErrorCode raw,
                 as_ErrorMessage = ra_ErrorMessage raw,
                 as_ProviderMessageID = ra_ProviderMessageID raw,
                 as_DurationMS = ra_DurationMS raw\<rparr>))"

definition validateProviderEventLogFields :: "log_codec \<Rightarrow> raw_event \<Rightarrow> unit result" where
  "validateProviderEventLogFields codec raw =
     (if re_MessageID raw = [] \<or> re_AppCode raw = [] \<or> re_ProviderAccountCode raw = []
         \<or> re_ProviderChannelCode raw = [] \<or> re_ProviderMessageID raw = [] \<or> re_OccurredAt raw = []
         \<or> \<not> Provider_IsValid (re_Provider raw) \<or> \<not> ProviderEventType_IsValid (re_EventType raw) then
        Inl (Errorf ''required fields are invalid'')
      else case lc_time codec (re_OccurredAt raw) of Inl e \<Rightarrow> Inl e | Inr _ \<Rightarrow> Inr ())"

definition decode_event_raw :: "log_codec \<Rightarrow> string \<Rightarrow> (go_time \<times> raw_event) result" where
  "decode_event_raw codec line =
     (case lc_event codec line of
        Inl e \<Rightarrow> Inl (Wrapf ''decode provider event log record'' e)
      | Inr raw \<Rightarrow>
          (case lc_time codec (re_Timestamp raw) of
             Inl e \<Rightarrow> Inl (Wrapf ''decode provider event log timestamp'' e)
           | Inr timestamp \<Rightarrow>
               (case validateProviderEventLogFields codec raw of
                  Inl _ \<Rightarrow>
                    Inl (Errorf ''decode provider event log record: required fields are invalid'')
                | Inr _ \<Rightarrow> Inr (timestamp, raw))))"

definition decodeProviderEventSnapshot :: "log_codec \<Rightarrow> string \<Rightarrow> ProviderEvent result" where
  "decodeProviderEventSnapshot codec line =
     and_then (decode_event_raw codec line) (\<lambda>(_, raw). Inr
       \<lparr>ev_MessageID = re_MessageID raw, ev_AppCode = re_AppCode raw, ev_Provider = re_Provider raw,
        ev_ProviderAccountCode = re_ProviderAccountCode raw,
        ev_ProviderChannelCode = re_ProviderChannelCode raw,
        ev_ProviderMessageID = re_ProviderMessageID raw, ev_EventType = re_EventType raw,
        ev_RecipientEmail = [], ev_EventPayload = re_EventPayload raw,
        ev_OccurredAt = re_OccurredAt raw\<rparr>)"

definition decodeProviderEventQuerySnapshot :: "log_codec \<Rightarrow> string \<Rightarrow> ProviderEventSnapshot result" where
  "decodeProviderEventQuerySnapshot codec line =
     and_then (decode_event_raw codec line) (\<lambda>(timestamp, raw). Inr
       \<lparr>es_Timestamp = timestamp, es_MessageID = re_MessageID raw, es_AppCode = re_AppCode raw,
        es_Provider = re_Provider raw, es_ProviderAccountCode = re_ProviderAccountCode raw,
        es_ProviderChannelCode = re_ProviderChannelCode raw,
        es_ProviderMessageID = re_ProviderMessageID raw, es_EventType = re_EventType raw,
        es_OccurredAt = re_OccurredAt raw\<rparr>)"

definition sameProviderEventIdentity :: "ProviderEvent \<Rightarrow> ProviderEvent \<Rightarrow> bool" where
  "sameProviderEventIdentity l r \<longleftrightarrow>
     ev_MessageID l = ev_MessageID r \<and> ev_AppCode l = ev_AppCode r \<and> ev_Provider l = ev_Provider r
     \<and> ev_ProviderAccountCode l = ev_ProviderAccountCode r
     \<and> ev_ProviderChannelCode l = ev_ProviderChannelCode r
     \<and> ev_ProviderMessageID l = ev_ProviderMessageID r \<and> ev_EventType l = ev_EventType r
     \<and> ev_OccurredAt l = ev_OccurredAt r"

section \<open>Writing a line\<close>

text \<open>\<open>json\<close> is \<open>json.Marshal\<close> on a string, \<open>ts\<close> the formatted UTC time stamp.\<close>

definition appendJSONField :: "(string \<Rightarrow> string) \<Rightarrow> string \<Rightarrow> string \<Rightarrow> bool \<Rightarrow> string" where
  "appendJSONField json name v first = (if first then [] else '','') @ json name @ '':'' @ json v"

definition appendJSONIntField :: "(string \<Rightarrow> string) \<Rightarrow> string \<Rightarrow> int \<Rightarrow> bool \<Rightarrow> string" where
  "appendJSONIntField json name v first = (if first then [] else '','') @ json name @ '':'' @ Itoa v"

definition encodeMessageRecord :: "(string \<Rightarrow> string) \<Rightarrow> string \<Rightarrow> Message \<Rightarrow> string" where
  "encodeMessageRecord json ts message =
     ''{'' @ appendJSONField json ''ts'' ts True
     @ appendJSONField json ''request_id'' (msg_RequestID message) False
     @ appendJSONField json ''business_request_id'' (msg_BusinessRequestID message) False
     @ appendJSONField json ''message_id'' (msg_MessageID message) False
     @ appendJSONField json ''app'' (msg_AppCode message) False
     @ appendJSONField json ''api_key_name'' (msg_APIKeyName message) False
     @ appendJSONField json ''scene'' (msg_SceneCode message) False
     @ appendJSONField json ''to_domain'' (msg_ToDomain message) False
     @ appendJSONField json ''to_hash'' (msg_ToHash message) False
     @ appendJSONField json ''locale'' (msg_Locale message) False
     @ appendJSONField json ''status'' (text_of_MessageStatus (msg_Status message)) False
     @ appendJSONField json ''idempotency_hash'' (msg_IdempotencyHash message) False
     @ appendJSONField json ''request_fingerprint'' (msg_RequestFingerprint message) False
     @ appendJSONField json ''caller_ip'' (msg_CallerIP message) False
     @ appendJSONField json ''user_ip'' (msg_UserIP message) False
     @ appendJSONField json ''user_id_hash'' (msg_UserIDHash message) False
     @ appendJSONField json ''error_code'' (text_of_ErrorCode (msg_ErrorCode message)) False
     @ appendJSONField json ''error_message'' (msg_ErrorMessage message) False
     @ ''}''"

definition encodeAttemptRecord :: "(string \<Rightarrow> string) \<Rightarrow> string \<Rightarrow> Attempt \<Rightarrow> string" where
  "encodeAttemptRecord json ts attempt =
     ''{'' @ appendJSONField json ''ts'' ts True
     @ appendJSONField json ''message_id'' (att_MessageID attempt) False
     @ appendJSONField json ''app'' (att_AppCode attempt) False
     @ appendJSONIntField json ''attempt_no'' (att_AttemptNo attempt) False
     @ appendJSONField json ''provider'' (text_of_Provider (att_Provider attempt)) False
     @ appendJSONField json ''provider_account'' (att_ProviderAccountCode attempt) False
     @ appendJSONField json ''provider_channel'' (att_ProviderChannelCode attempt) False
     @ appendJSONField json ''transport'' (text_of_Transport (att_Transport attempt)) False
     @ appendJSONField json ''status'' (text_of_AttemptStatus (att_Status attempt)) False
     @ appendJSONField json ''failure_class'' (text_of_FailureClass (att_FailureClass attempt)) False
     @ appendJSONField json ''error_code'' (text_of_ErrorCode (att_ErrorCode attempt)) False
     @ appendJSONField json ''error_message'' (att_ErrorMessage attempt) False
     @ appendJSONField json ''provider_message_id'' (att_ProviderMessageID attempt) False
     @ appendJSONIntField json ''duration_ms'' (att_DurationMS attempt) False
     @ ''}''"

definition encodeProviderEventRecord :: "(string \<Rightarrow> string) \<Rightarrow> string \<Rightarrow> ProviderEvent \<Rightarrow> string" where
  "encodeProviderEventRecord json ts event =
     ''{'' @ appendJSONField json ''ts'' ts True
     @ appendJSONField json ''message_id'' (ev_MessageID event) False
     @ appendJSONField json ''app'' (ev_AppCode event) False
     @ appendJSONField json ''provider'' (text_of_Provider (ev_Provider event)) False
     @ appendJSONField json ''provider_account'' (ev_ProviderAccountCode event) False
     @ appendJSONField json ''provider_channel'' (ev_ProviderChannelCode event) False
     @ appendJSONField json ''provider_message_id'' (ev_ProviderMessageID event) False
     @ appendJSONField json ''event_type'' (text_of_ProviderEventType (ev_EventType event)) False
     @ appendJSONField json ''event_payload'' (ev_EventPayload event) False
     @ appendJSONField json ''occurred_at'' (ev_OccurredAt event) False
     @ ''}''"

section \<open>Reading the files\<close>

text \<open>
  What opening and scanning a file comes to: it is missing, cannot be opened, or has these lines and
  then perhaps a scanner error. The files come in query order, each with its path.
\<close>

datatype log_file = Missing | Unreadable go_error | Readable "string list" "go_error option"

type_synonym log_view = "(string \<times> log_file) list"

text \<open>The scanning loop: decode a line, or stop with its error, and go on with the next.\<close>

fun scan_lines :: "(string \<Rightarrow> 'a result) \<Rightarrow> ('a \<Rightarrow> 'b \<Rightarrow> 'b) \<Rightarrow> string \<Rightarrow> string list \<Rightarrow> 'b \<Rightarrow> 'b result"
where
  "scan_lines dec step msg [] acc = Inr acc"
| "scan_lines dec step msg (l # ls) acc =
     (case dec l of
        Inl e \<Rightarrow> Inl (Wrapf msg e)
      | Inr x \<Rightarrow> scan_lines dec step msg ls (step x acc))"

text \<open>The kind of log is in the messages: \<open>message\<close>, \<open>attempt\<close> or \<open>provider event\<close>.\<close>

definition scan_file ::
    "string \<Rightarrow> (string \<Rightarrow> 'a result) \<Rightarrow> ('a \<Rightarrow> 'b \<Rightarrow> 'b) \<Rightarrow> string \<times> log_file \<Rightarrow> 'b \<Rightarrow> 'b result" where
  "scan_file kind dec step f acc =
     (case snd f of
        Missing \<Rightarrow> Inr acc
      | Unreadable e \<Rightarrow> Inl (Wrapf (''open '' @ kind @ '' log for query'') e)
      | Readable lines scan_error \<Rightarrow>
          (case scan_lines dec step (''decode '' @ kind @ '' log record in '' @ fst f) lines acc of
             Inl e \<Rightarrow> Inl e
           | Inr acc' \<Rightarrow>
               (case scan_error of
                  Some e \<Rightarrow> Inl (Wrapf (''scan '' @ kind @ '' log'') e)
                | None \<Rightarrow> Inr acc')))"

fun scan_files ::
    "string \<Rightarrow> (string \<Rightarrow> 'a result) \<Rightarrow> ('a \<Rightarrow> 'b \<Rightarrow> 'b) \<Rightarrow> log_view \<Rightarrow> 'b \<Rightarrow> 'b result" where
  "scan_files kind dec step [] acc = Inr acc"
| "scan_files kind dec step (f # fs) acc =
     and_then (scan_file kind dec step f acc) (scan_files kind dec step fs)"

section \<open>Queries\<close>

definition latest_step :: "string \<Rightarrow> string \<Rightarrow> MessageSnapshot \<Rightarrow> MessageSnapshot option \<Rightarrow> MessageSnapshot option"
where
  "latest_step appCode messageID snapshot latest =
     (if ms_AppCode snapshot \<noteq> appCode \<or> ms_MessageID snapshot \<noteq> messageID then latest
      else Some snapshot)"

text \<open>
  \<open>findLatestMessageInPath\<close> starts each file anew, and \<open>FindLatestMessage\<close> keeps the last find.
\<close>

definition findLatestMessageInPath ::
    "log_codec \<Rightarrow> string \<times> log_file \<Rightarrow> string \<Rightarrow> string \<Rightarrow> MessageSnapshot option result" where
  "findLatestMessageInPath codec f appCode messageID =
     scan_file ''message'' (decodeMessageSnapshot codec) (latest_step appCode messageID) f None"

fun find_latest_loop ::
    "log_codec \<Rightarrow> string \<Rightarrow> string \<Rightarrow> log_view \<Rightarrow> MessageSnapshot option \<Rightarrow> MessageSnapshot option result"
where
  "find_latest_loop codec appCode messageID [] latest = Inr latest"
| "find_latest_loop codec appCode messageID (f # fs) latest =
     and_then (findLatestMessageInPath codec f appCode messageID) (\<lambda>found.
       find_latest_loop codec appCode messageID fs
         (case found of Some s \<Rightarrow> Some s | None \<Rightarrow> latest))"

definition FindLatestMessage ::
    "log_codec \<Rightarrow> log_view \<Rightarrow> string \<Rightarrow> string \<Rightarrow> MessageSnapshot option result" where
  "FindLatestMessage codec fs appCode messageID = find_latest_loop codec appCode messageID fs None"

definition collect_step ::
    "string \<Rightarrow> MessageSnapshot \<Rightarrow> (string \<times> MessageSnapshot) list \<Rightarrow> (string \<times> MessageSnapshot) list" where
  "collect_step appCode snapshot latest =
     (if ms_AppCode snapshot \<noteq> appCode then latest
      else AList.update (ms_MessageID snapshot) snapshot latest)"

definition collectLatestMessagesInPath ::
    "log_codec \<Rightarrow> string \<times> log_file \<Rightarrow> string \<Rightarrow> (string \<times> MessageSnapshot) list
     \<Rightarrow> (string \<times> MessageSnapshot) list result" where
  "collectLatestMessagesInPath codec f appCode latest =
     scan_file ''message'' (decodeMessageSnapshot codec) (collect_step appCode) f latest"

fun collect_loop ::
    "log_codec \<Rightarrow> string \<Rightarrow> log_view \<Rightarrow> (string \<times> MessageSnapshot) list
     \<Rightarrow> (string \<times> MessageSnapshot) list result" where
  "collect_loop codec appCode [] latest = Inr latest"
| "collect_loop codec appCode (f # fs) latest =
     and_then (collectLatestMessagesInPath codec f appCode latest) (collect_loop codec appCode fs)"

text \<open>\<open>sort.Slice\<close> with the newest first: descending in the key.\<close>

definition newest_first :: "('a \<Rightarrow> 'k :: linorder) \<Rightarrow> 'a list \<Rightarrow> 'a list" where
  "newest_first key xs = rev (sort_key key xs)"

definition cut :: "int \<Rightarrow> 'a list \<Rightarrow> 'a list" where
  "cut limit xs = (if 0 < limit \<and> limit < int (length xs) then take (nat limit) xs else xs)"

definition message_hit :: "MessageListFilter \<Rightarrow> MessageSnapshot \<Rightarrow> bool" where
  "message_hit f s \<longleftrightarrow>
     \<not> (mf_Status f \<noteq> NoMessageStatus \<and> ms_Status s \<noteq> mf_Status f)
     \<and> \<not> (mf_Scene f \<noteq> [] \<and> ms_SceneCode s \<noteq> mf_Scene f)"

definition ListLatestMessages ::
    "log_codec \<Rightarrow> log_view \<Rightarrow> string \<Rightarrow> MessageListFilter \<Rightarrow> MessageSnapshot list result" where
  "ListLatestMessages codec fs appCode f =
     and_then (collect_loop codec appCode fs []) (\<lambda>latest.
       Inr (cut (mf_Limit f) (newest_first (\<lambda>s. (ms_Timestamp s, ms_MessageID s))
              (filter (message_hit f) (map snd latest)))))"

definition attempt_step ::
    "string \<Rightarrow> string \<Rightarrow> AttemptSnapshot \<Rightarrow> AttemptSnapshot list \<Rightarrow> AttemptSnapshot list" where
  "attempt_step appCode messageID a acc =
     (if as_AppCode a \<noteq> appCode \<or> as_MessageID a \<noteq> messageID then acc else acc @ [a])"

definition listAttemptsInPath ::
    "log_codec \<Rightarrow> string \<times> log_file \<Rightarrow> string \<Rightarrow> string \<Rightarrow> AttemptSnapshot list result" where
  "listAttemptsInPath codec f appCode messageID =
     scan_file ''attempt'' (decodeAttemptSnapshot codec) (attempt_step appCode messageID) f []"

text \<open>The loops of the three list queries append the batches of the files.\<close>

fun collect_batches :: "(string \<times> log_file \<Rightarrow> 'a list result) \<Rightarrow> log_view \<Rightarrow> 'a list \<Rightarrow> 'a list result"
where
  "collect_batches batch [] acc = Inr acc"
| "collect_batches batch (f # fs) acc =
     and_then (batch f) (\<lambda>xs. collect_batches batch fs (acc @ xs))"

definition ListAttempts ::
    "log_codec \<Rightarrow> log_view \<Rightarrow> string \<Rightarrow> string \<Rightarrow> AttemptSnapshot list result" where
  "ListAttempts codec fs appCode messageID =
     collect_batches (\<lambda>f. listAttemptsInPath codec f appCode messageID) fs []"

definition event_step ::
    "(ProviderEventSnapshot \<Rightarrow> bool) \<Rightarrow> ProviderEventSnapshot \<Rightarrow> ProviderEventSnapshot list
     \<Rightarrow> ProviderEventSnapshot list" where
  "event_step keep e acc = (if \<not> keep e then acc else acc @ [e])"

definition listProviderEventsInPath ::
    "log_codec \<Rightarrow> string \<times> log_file \<Rightarrow> string \<Rightarrow> string \<Rightarrow> ProviderEventSnapshot list result" where
  "listProviderEventsInPath codec f appCode messageID =
     scan_file ''provider event'' (decodeProviderEventQuerySnapshot codec)
       (event_step (\<lambda>e. \<not> (es_AppCode e \<noteq> appCode \<or> es_MessageID e \<noteq> messageID))) f []"

definition listRecentProviderEventsInPath ::
    "log_codec \<Rightarrow> string \<times> log_file \<Rightarrow> string \<Rightarrow> ProviderEventListFilter
     \<Rightarrow> ProviderEventSnapshot list result" where
  "listRecentProviderEventsInPath codec f appCode flt =
     scan_file ''provider event'' (decodeProviderEventQuerySnapshot codec)
       (event_step (\<lambda>e. \<not> (es_AppCode e \<noteq> appCode)
          \<and> \<not> (pf_Provider flt \<noteq> NoProvider \<and> es_Provider e \<noteq> pf_Provider flt)
          \<and> \<not> (pf_EventType flt \<noteq> NoEventType \<and> es_EventType e \<noteq> pf_EventType flt))) f []"

text \<open>The events log is absent (\<open>None\<close>) when it is disabled.\<close>

definition ListProviderEvents ::
    "log_codec \<Rightarrow> log_view option \<Rightarrow> string \<Rightarrow> string \<Rightarrow> ProviderEventSnapshot list result" where
  "ListProviderEvents codec files appCode messageID =
     (case files of
        None \<Rightarrow> Inr []
      | Some fs \<Rightarrow> collect_batches (\<lambda>f. listProviderEventsInPath codec f appCode messageID) fs [])"

definition ListRecentProviderEvents ::
    "log_codec \<Rightarrow> log_view option \<Rightarrow> string \<Rightarrow> ProviderEventListFilter
     \<Rightarrow> ProviderEventSnapshot list result" where
  "ListRecentProviderEvents codec files appCode flt =
     (case files of
        None \<Rightarrow> Inr []
      | Some fs \<Rightarrow>
          and_then (collect_batches (\<lambda>f. listRecentProviderEventsInPath codec f appCode flt) fs [])
            (\<lambda>events. Inr (cut (pf_Limit flt)
               (newest_first (\<lambda>e. (es_Timestamp e, es_MessageID e, es_ProviderMessageID e)) events))))"

text \<open>The search for an event stops at the first match, before any later line is decoded.\<close>

fun event_in_lines :: "log_codec \<Rightarrow> ProviderEvent \<Rightarrow> string \<Rightarrow> string list \<Rightarrow> bool result" where
  "event_in_lines codec target msg [] = Inr False"
| "event_in_lines codec target msg (l # ls) =
     (case decodeProviderEventSnapshot codec l of
        Inl e \<Rightarrow> Inl (Wrapf msg e)
      | Inr recorded \<Rightarrow>
          if sameProviderEventIdentity recorded target then Inr True
          else event_in_lines codec target msg ls)"

definition providerEventExistsInPath ::
    "log_codec \<Rightarrow> string \<times> log_file \<Rightarrow> ProviderEvent \<Rightarrow> bool result" where
  "providerEventExistsInPath codec f target =
     (case snd f of
        Missing \<Rightarrow> Inr False
      | Unreadable e \<Rightarrow> Inl (Wrapf ''open provider event log for query'' e)
      | Readable lines scan_error \<Rightarrow>
          (case event_in_lines codec target (''decode provider event log record in '' @ fst f) lines of
             Inl e \<Rightarrow> Inl e
           | Inr True \<Rightarrow> Inr True
           | Inr False \<Rightarrow>
               (case scan_error of
                  Some e \<Rightarrow> Inl (Wrapf ''scan provider event log'' e)
                | None \<Rightarrow> Inr False)))"

fun event_in_files :: "log_codec \<Rightarrow> ProviderEvent \<Rightarrow> log_view \<Rightarrow> bool result" where
  "event_in_files codec target [] = Inr False"
| "event_in_files codec target (f # fs) =
     and_then (providerEventExistsInPath codec f target) (\<lambda>found.
       if found then Inr True else event_in_files codec target fs)"

definition HasProviderEvent :: "log_codec \<Rightarrow> log_view option \<Rightarrow> ProviderEvent \<Rightarrow> bool result" where
  "HasProviderEvent codec files event =
     (case files of None \<Rightarrow> Inr False | Some fs \<Rightarrow> event_in_files codec event fs)"

section \<open>The log on its files\<close>

text \<open>
  The three logs by the name of their file, and the files of each. \<open>lines_of\<close> is the scanner of the
  queries on the bytes of a file: lines end at a newline and lose one carriage return before it, and a
  line that fills the buffer of 1 MiB is an error.
\<close>

datatype log_name = Messages_log | Attempts_log | Events_log

type_synonym log_disk = "log_name \<Rightarrow> log_files"

definition scan_limit :: nat where
  "scan_limit = 1048576"

definition drop_cr :: "string \<Rightarrow> string" where
  "drop_cr l = (if l \<noteq> [] \<and> last l = char_of (13 :: nat) then butlast l else l)"

fun lines_of :: "string \<Rightarrow> string \<Rightarrow> string list \<times> go_error option" where
  "lines_of cur [] = (if cur = [] then [] else [drop_cr cur], None)"
| "lines_of cur (c # cs) =
     (if c = newline then
        let (ls, e) = lines_of [] cs in (drop_cr cur # ls, e)
      else if scan_limit \<le> length cur + 1 then ([], Some (Errorf ''bufio.Scanner: token too long''))
      else lines_of (cur @ [c]) cs)"

fun log_filename :: "log_name \<Rightarrow> string" where
  "log_filename Messages_log = ''mail-messages.jsonl''"
| "log_filename Attempts_log = ''mail-attempts.jsonl''"
| "log_filename Events_log = ''mail-events.jsonl''"

text \<open>The query paths with what is found there; \<open>op\<close> gives the errors of opening a file.\<close>

definition queryPaths ::
    "(nat \<Rightarrow> go_error option) \<Rightarrow> string \<Rightarrow> jsonlWriter \<Rightarrow> log_files \<Rightarrow> log_view" where
  "queryPaths op path w fs =
     map (\<lambda>i. (if i = 0 then path else path @ ''.'' @ Itoa (int i),
               case op i of
                 Some e \<Rightarrow> Unreadable e
               | None \<Rightarrow>
                   (case fs i of
                      None \<Rightarrow> Missing
                    | Some bytes \<Rightarrow> (let (ls, e) = lines_of [] bytes in Readable ls e))))
       (query_order (jw_maxBackups w))"

record MessageLogConfig =
  lcf_Dir :: string
  lcf_MaxBytes :: int
  lcf_MaxBackups :: int
  lcf_EventsEnabled :: bool

record MessageLog =
  ml_messages :: jsonlWriter
  ml_attempts :: jsonlWriter
  ml_events :: "jsonlWriter option"

definition NewMessageLog ::
    "go_error option \<Rightarrow> (log_name \<Rightarrow> open_env) \<Rightarrow> MessageLogConfig \<Rightarrow> log_disk
     \<Rightarrow> MessageLog result \<times> log_disk" where
  "NewMessageLog directory env config disk =
     (if lcf_Dir config = [] then (Inl (Errorf ''log directory is required''), disk)
      else
        let new = (\<lambda>name d. newJSONLWriter directory (env name) (lcf_MaxBytes config)
                     (lcf_MaxBackups config) (d name))
        in case new Messages_log disk of
             (Inl e, fs) \<Rightarrow> (Inl e, disk(Messages_log := fs))
           | (Inr messages, fs) \<Rightarrow>
               let disk1 = disk(Messages_log := fs)
               in case new Attempts_log disk1 of
                    (Inl e, fs1) \<Rightarrow> (Inl e, disk1(Attempts_log := fs1))
                  | (Inr attempts, fs1) \<Rightarrow>
                      let disk2 = disk1(Attempts_log := fs1)
                      in if lcf_EventsEnabled config then
                           (case new Events_log disk2 of
                              (Inl e, fs2) \<Rightarrow> (Inl e, disk2(Events_log := fs2))
                            | (Inr events, fs2) \<Rightarrow>
                                (Inr \<lparr>ml_messages = messages, ml_attempts = attempts,
                                      ml_events = Some events\<rparr>, disk2(Events_log := fs2)))
                         else (Inr \<lparr>ml_messages = messages, ml_attempts = attempts,
                                    ml_events = None\<rparr>, disk2))"

definition AppendMessage ::
    "append_env \<Rightarrow> (string \<Rightarrow> string) \<Rightarrow> string \<Rightarrow> Message \<Rightarrow> MessageLog \<Rightarrow> log_disk
     \<Rightarrow> unit result \<times> MessageLog \<times> log_disk" where
  "AppendMessage env json ts message l disk =
     (case appendLineLocked env (encodeMessageRecord json ts message) (ml_messages l)
             (disk Messages_log) of
        (r, w, fs) \<Rightarrow> (r, l\<lparr>ml_messages := w\<rparr>, disk(Messages_log := fs)))"

definition AppendAttempt ::
    "append_env \<Rightarrow> (string \<Rightarrow> string) \<Rightarrow> string \<Rightarrow> Attempt \<Rightarrow> MessageLog \<Rightarrow> log_disk
     \<Rightarrow> unit result \<times> MessageLog \<times> log_disk" where
  "AppendAttempt env json ts attempt l disk =
     (case appendLineLocked env (encodeAttemptRecord json ts attempt) (ml_attempts l)
             (disk Attempts_log) of
        (r, w, fs) \<Rightarrow> (r, l\<lparr>ml_attempts := w\<rparr>, disk(Attempts_log := fs)))"

definition AppendProviderEvent ::
    "append_env \<Rightarrow> (string \<Rightarrow> string) \<Rightarrow> string \<Rightarrow> ProviderEvent \<Rightarrow> MessageLog \<Rightarrow> log_disk
     \<Rightarrow> unit result \<times> MessageLog \<times> log_disk" where
  "AppendProviderEvent env json ts event l disk =
     (case ml_events l of
        None \<Rightarrow> (Inl (Errorf ''provider event log is disabled''), l, disk)
      | Some w0 \<Rightarrow>
          (case appendLineLocked env (encodeProviderEventRecord json ts event) w0 (disk Events_log) of
             (r, w, fs) \<Rightarrow> (r, l\<lparr>ml_events := Some w\<rparr>, disk(Events_log := fs))))"

definition AppendProviderEventOnce ::
    "log_codec \<Rightarrow> (nat \<Rightarrow> go_error option) \<Rightarrow> string \<Rightarrow> append_env \<Rightarrow> (string \<Rightarrow> string) \<Rightarrow> string
     \<Rightarrow> ProviderEvent \<Rightarrow> MessageLog \<Rightarrow> log_disk \<Rightarrow> bool result \<times> MessageLog \<times> log_disk" where
  "AppendProviderEventOnce codec op path env json ts event l disk =
     (case ml_events l of
        None \<Rightarrow> (Inl (Errorf ''provider event log is disabled''), l, disk)
      | Some w0 \<Rightarrow>
          (case event_in_files codec event (queryPaths op path w0 (disk Events_log)) of
             Inl e \<Rightarrow> (Inl e, l, disk)
           | Inr True \<Rightarrow> (Inr False, l, disk)
           | Inr False \<Rightarrow>
               (case appendLineLocked env (encodeProviderEventRecord json ts event) w0
                       (disk Events_log) of
                  (Inl e, w, fs) \<Rightarrow> (Inl e, l\<lparr>ml_events := Some w\<rparr>, disk(Events_log := fs))
                | (Inr _, w, fs) \<Rightarrow>
                    (Inr True, l\<lparr>ml_events := Some w\<rparr>, disk(Events_log := fs)))))"

text \<open>The message a webhook's status update is written as.\<close>

definition webhook_message :: "MessageSnapshot \<Rightarrow> ProviderEvent \<Rightarrow> Message" where
  "webhook_message snapshot event = zero_Message
     \<lparr>msg_RequestID := ms_RequestID snapshot, msg_BusinessRequestID := ms_BusinessRequestID snapshot,
      msg_MessageID := ms_MessageID snapshot, msg_AppCode := ms_AppCode snapshot,
      msg_APIKeyName := ms_APIKeyName snapshot, msg_SceneCode := ms_SceneCode snapshot,
      msg_ToDomain := ms_ToDomain snapshot, msg_ToHash := ms_ToHash snapshot,
      msg_Locale := ms_Locale snapshot, msg_Status := event_MessageStatus (ev_EventType event)\<rparr>"

definition AppendWebhookMessageStatus ::
    "append_env \<Rightarrow> (string \<Rightarrow> string) \<Rightarrow> string \<Rightarrow> MessageSnapshot \<Rightarrow> ProviderEvent \<Rightarrow> MessageLog
     \<Rightarrow> log_disk \<Rightarrow> unit result \<times> MessageLog \<times> log_disk" where
  "AppendWebhookMessageStatus env json ts snapshot event l disk =
     AppendMessage env json ts (webhook_message snapshot event) l disk"

text \<open>\<open>Close\<close> closes all three and returns the first error.\<close>

definition first_error :: "unit result \<Rightarrow> unit result \<Rightarrow> unit result" where
  "first_error a b = (case a of Inl e \<Rightarrow> Inl e | Inr _ \<Rightarrow> b)"

definition Close_log :: "(log_name \<Rightarrow> go_error option) \<Rightarrow> MessageLog \<Rightarrow> unit result \<times> MessageLog" where
  "Close_log errs l =
     (let (r1, m) = closeLocked (errs Messages_log) (ml_messages l);
          (r2, a) = closeLocked (errs Attempts_log) (ml_attempts l);
          (r3, ev) = (case ml_events l of
                        None \<Rightarrow> (Inr (), None)
                      | Some w \<Rightarrow> (case closeLocked (errs Events_log) w of (r, w') \<Rightarrow> (r, Some w')))
      in (first_error (first_error r1 r2) r3,
          \<lparr>ml_messages = m, ml_attempts = a, ml_events = ev\<rparr>))"

section \<open>Queries as folds over the decoded log\<close>

text \<open>The records of a log in query order, or the first error in reading them.\<close>

definition read_log :: "string \<Rightarrow> (string \<Rightarrow> 'a result) \<Rightarrow> log_view \<Rightarrow> 'a list result" where
  "read_log kind dec fs = scan_files kind dec (\<lambda>x xs. xs @ [x]) fs []"

lemma and_then_assoc: "and_then (and_then m f) g = and_then m (\<lambda>x. and_then (f x) g)"
  by (cases m) auto

lemma and_then_Inr_right [simp]: "and_then m Inr = m"
  by (cases m) auto

lemma scan_lines_grow:
  "scan_lines dec (\<lambda>x xs. xs @ [x]) msg ls pre = Inr xs \<Longrightarrow> \<exists>ys. xs = pre @ ys"
proof (induction ls arbitrary: pre)
  case (Cons l ls)
  then obtain x where "scan_lines dec (\<lambda>x xs. xs @ [x]) msg ls (pre @ [x]) = Inr xs"
    by (auto split: sum.splits)
  then show ?case using Cons.IH by fastforce
qed simp

lemma scan_lines_fold:
  "scan_lines dec step msg ls acc =
     and_then (scan_lines dec (\<lambda>x xs. xs @ [x]) msg ls pre) (\<lambda>xs.
       Inr (fold step (drop (length pre) xs) acc))"
proof (induction ls arbitrary: acc pre)
  case Nil
  then show ?case by simp
next
  case (Cons l ls)
  show ?case
  proof (cases "dec l")
    case (Inl e)
    then show ?thesis by simp
  next
    case (Inr x)
    have "fold step (drop (length pre) xs) acc = fold step (drop (length (pre @ [x])) xs) (step x acc)"
      if "scan_lines dec (\<lambda>x xs. xs @ [x]) msg ls (pre @ [x]) = Inr xs" for xs
      using scan_lines_grow [OF that] by auto
    then show ?thesis using Inr Cons.IH [of "step x acc" "pre @ [x]"]
      by (cases "scan_lines dec (\<lambda>x xs. xs @ [x]) msg ls (pre @ [x])") auto
  qed
qed

definition read_file :: "string \<Rightarrow> (string \<Rightarrow> 'a result) \<Rightarrow> string \<times> log_file \<Rightarrow> 'a list result" where
  "read_file kind dec f = scan_file kind dec (\<lambda>x xs. xs @ [x]) f []"

lemma scan_file_fold:
  "scan_file kind dec step f acc = and_then (read_file kind dec f) (\<lambda>xs. Inr (fold step xs acc))"
proof (cases "snd f")
  case (Readable ls e)
  show ?thesis
    using scan_lines_fold [of dec step "''decode '' @ kind @ '' log record in '' @ fst f" ls acc "[]"]
    by (cases "scan_lines dec (\<lambda>x xs. xs @ [x]) (''decode '' @ kind @ '' log record in '' @ fst f) ls []")
      (auto simp: scan_file_def read_file_def Readable split: option.split)
qed (simp_all add: scan_file_def read_file_def)

lemma fold_snoc: "fold (\<lambda>x xs. xs @ [x]) ys zs = zs @ ys"
  by (induction ys arbitrary: zs) auto

lemma read_log_step:
  "read_log kind dec (f # fs) = and_then (read_file kind dec f)
      (scan_files kind dec (\<lambda>x xs. xs @ [x]) fs)"
  unfolding read_log_def scan_files.simps scan_file_fold
  by (cases "read_file kind dec f") (simp_all add: fold_snoc)

lemma scan_files_snoc:
  "scan_files kind dec (\<lambda>x xs. xs @ [x]) fs acc = and_then (read_log kind dec fs) (\<lambda>xs. Inr (acc @ xs))"
proof (induction fs arbitrary: acc)
  case Nil
  then show ?case by (simp add: read_log_def)
next
  case (Cons f fs)
  show ?case
    unfolding scan_files.simps scan_file_fold read_log_step
    by (cases "read_file kind dec f"; cases "read_log kind dec fs") (simp_all add: fold_snoc Cons.IH)
qed

lemma read_log_Nil [simp]: "read_log kind dec [] = Inr []"
  by (simp add: read_log_def)

lemma read_log_Cons:
  "read_log kind dec (f # fs) =
     and_then (read_file kind dec f) (\<lambda>xs. and_then (read_log kind dec fs) (\<lambda>ys. Inr (xs @ ys)))"
  unfolding read_log_step scan_files_snoc ..

section \<open>The queries\<close>

definition of_message :: "string \<Rightarrow> string \<Rightarrow> MessageSnapshot \<Rightarrow> bool" where
  "of_message appCode messageID s \<longleftrightarrow> ms_AppCode s = appCode \<and> ms_MessageID s = messageID"

definition last_such :: "('a \<Rightarrow> bool) \<Rightarrow> 'a list \<Rightarrow> 'a option" where
  "last_such P xs = List.find P (rev xs)"

lemma find_append: "List.find P (xs @ ys) =
    (case List.find P xs of None \<Rightarrow> List.find P ys | Some x \<Rightarrow> Some x)"
  by (induction xs) auto

lemma last_such_Nil [simp]: "last_such P [] = None"
  by (simp add: last_such_def)

lemma last_such_append:
  "last_such P (xs @ ys) = (case last_such P ys of None \<Rightarrow> last_such P xs | Some y \<Rightarrow> Some y)"
  by (simp add: last_such_def find_append split: option.split)

lemma fold_latest_step:
  "fold (latest_step a m) xs acc =
     (case last_such (of_message a m) xs of None \<Rightarrow> acc | Some s \<Rightarrow> Some s)"
proof (induction xs rule: rev_induct)
  case Nil
  then show ?case by simp
next
  case (snoc x xs)
  then show ?case
    by (auto simp: last_such_append latest_step_def of_message_def last_such_def split: option.splits)
qed

lemma find_latest_loop_eq:
  "find_latest_loop codec a m fs latest =
     and_then (read_log ''message'' (decodeMessageSnapshot codec) fs) (\<lambda>xs.
       Inr (case last_such (of_message a m) xs of None \<Rightarrow> latest | Some s \<Rightarrow> Some s))"
proof (induction fs arbitrary: latest)
  case Nil
  then show ?case by simp
next
  case (Cons f fs)
  show ?case
    by (cases "read_file ''message'' (decodeMessageSnapshot codec) f";
        cases "read_log ''message'' (decodeMessageSnapshot codec) fs")
      (auto simp: findLatestMessageInPath_def scan_file_fold read_log_Cons fold_latest_step Cons.IH
        last_such_append split: option.split)
qed

lemma FindLatestMessage_eq:
  "FindLatestMessage codec fs a m =
     and_then (read_log ''message'' (decodeMessageSnapshot codec) fs) (\<lambda>xs.
       Inr (last_such (of_message a m) xs))"
  unfolding FindLatestMessage_def find_latest_loop_eq
  by (cases "read_log ''message'' (decodeMessageSnapshot codec) fs") (auto split: option.split)

lemma collect_loop_eq:
  "collect_loop codec a fs latest =
     and_then (read_log ''message'' (decodeMessageSnapshot codec) fs) (\<lambda>xs.
       Inr (fold (collect_step a) xs latest))"
proof (induction fs arbitrary: latest)
  case Nil
  then show ?case by simp
next
  case (Cons f fs)
  show ?case
    by (cases "read_file ''message'' (decodeMessageSnapshot codec) f";
        cases "read_log ''message'' (decodeMessageSnapshot codec) fs")
      (auto simp: collectLatestMessagesInPath_def scan_file_fold read_log_Cons Cons.IH)
qed

lemma collect_fold:
  "wf_alist acc \<Longrightarrow> wf_alist (fold (collect_step a) xs acc)
     \<and> map_of (fold (collect_step a) xs acc) m =
        (case last_such (of_message a m) xs of None \<Rightarrow> map_of acc m | Some s \<Rightarrow> Some s)"
proof (induction xs rule: rev_induct)
  case Nil
  then show ?case by simp
next
  case (snoc x xs)
  then show ?case
    by (auto simp: last_such_append collect_step_def of_message_def last_such_def update_conv
        split: option.splits)
qed

lemma batches_eq:
  assumes "\<And>f. batch f = and_then (read_file kind dec f) (\<lambda>xs. Inr (filter P xs))"
  shows "collect_batches batch fs acc =
     and_then (read_log kind dec fs) (\<lambda>xs. Inr (acc @ filter P xs))"
proof (induction fs arbitrary: acc)
  case Nil
  then show ?case by simp
next
  case (Cons f fs)
  show ?case
    by (cases "read_file kind dec f"; cases "read_log kind dec fs")
      (simp_all add: assms [of f] read_log_Cons Cons.IH)
qed

definition of_attempt :: "string \<Rightarrow> string \<Rightarrow> AttemptSnapshot \<Rightarrow> bool" where
  "of_attempt appCode messageID a \<longleftrightarrow> as_AppCode a = appCode \<and> as_MessageID a = messageID"

definition of_event :: "string \<Rightarrow> string \<Rightarrow> ProviderEventSnapshot \<Rightarrow> bool" where
  "of_event appCode messageID e \<longleftrightarrow> es_AppCode e = appCode \<and> es_MessageID e = messageID"

lemma fold_attempt_step: "fold (attempt_step a m) xs acc = acc @ filter (of_attempt a m) xs"
  by (induction xs arbitrary: acc) (auto simp: attempt_step_def of_attempt_def)

lemma fold_event_step: "fold (event_step keep) xs acc = acc @ filter keep xs"
  by (induction xs arbitrary: acc) (auto simp: event_step_def)

lemma ListAttempts_eq:
  "ListAttempts codec fs a m =
     and_then (read_log ''attempt'' (decodeAttemptSnapshot codec) fs) (\<lambda>xs.
       Inr (filter (of_attempt a m) xs))"
  unfolding ListAttempts_def
  by (subst batches_eq [where P = "of_attempt a m"])
    (simp_all add: listAttemptsInPath_def scan_file_fold fold_attempt_step)

lemma ListProviderEvents_eq:
  "ListProviderEvents codec (Some fs) a m =
     and_then (read_log ''provider event'' (decodeProviderEventQuerySnapshot codec) fs) (\<lambda>xs.
       Inr (filter (of_event a m) xs))"
proof -
  have "(\<lambda>e. \<not> (es_AppCode e \<noteq> a \<or> es_MessageID e \<noteq> m)) = of_event a m"
    by (auto simp: of_event_def)
  then show ?thesis
    unfolding ListProviderEvents_def
    by (simp, subst batches_eq [where P = "of_event a m"])
      (simp_all add: listProviderEventsInPath_def scan_file_fold fold_event_step)
qed

subsection \<open>The listing of messages\<close>

definition message_key :: "MessageSnapshot \<Rightarrow> go_time \<times> string" where
  "message_key s = (ms_Timestamp s, ms_MessageID s)"

lemma set_newest_first [simp]: "set (newest_first key xs) = set xs"
  by (simp add: newest_first_def)

lemma length_newest_first [simp]: "length (newest_first key xs) = length xs"
  by (simp add: newest_first_def)

lemma newest_first_strict:
  assumes "distinct (map key xs)"
  shows "sorted_wrt (\<lambda>s t. key t < key s) (newest_first key xs)"
proof -
  have "mset (map key (sort_key key xs)) = mset (map key xs)" by simp
  then have "distinct (map key (sort_key key xs))"
    using assms by (metis mset_eq_imp_distinct_iff)
  then have "sorted_wrt (<) (map key (sort_key key xs))"
    by (simp add: strict_sorted_iff)
  then show ?thesis by (simp add: newest_first_def sorted_wrt_map sorted_wrt_rev)
qed

lemma set_cut: "set (cut limit xs) \<subseteq> set xs"
  by (auto simp: cut_def dest: in_set_takeD)

lemma cut_length: "0 < limit \<Longrightarrow> int (length (cut limit xs)) \<le> limit"
  by (auto simp: cut_def)

lemma sorted_cut: "sorted_wrt R xs \<Longrightarrow> sorted_wrt R (cut limit xs)"
  by (simp add: cut_def sorted_wrt_take)

lemma cut_left_out:
  assumes "sorted_wrt R xs" "x \<in> set xs" "x \<notin> set (cut limit xs)"
  shows "0 < limit \<and> int (length (cut limit xs)) = limit \<and> (\<forall>y \<in> set (cut limit xs). R y x)"
proof -
  from assms(2,3) have long: "0 < limit" "limit < int (length xs)"
    by (auto simp: cut_def split: if_splits)
  then have c: "cut limit xs = take (nat limit) xs" by (simp add: cut_def)
  obtain i where i: "i < length xs" "x = xs ! i" using assms(2) by (metis in_set_conv_nth)
  have beyond: "nat limit \<le> i"
  proof (rule ccontr)
    assume "\<not> nat limit \<le> i"
    then have "x \<in> set (take (nat limit) xs)" using i by (auto simp: in_set_conv_nth)
    then show False using assms(3) c by simp
  qed
  have "R y x" if y: "y \<in> set (take (nat limit) xs)" for y
  proof -
    obtain j where "j < nat limit" "j < length xs" "y = xs ! j"
      using y by (auto simp: in_set_conv_nth)
    then show ?thesis using assms(1) i beyond by (simp add: sorted_wrt_iff_nth_less)
  qed
  then show ?thesis using c long by auto
qed

lemma last_such_Some: "last_such P xs = Some x \<Longrightarrow> P x \<and> x \<in> set xs"
  unfolding last_such_def by (drule find_Some_conv) simp

text \<open>The snapshots a listing chooses from are the finds, one per message.\<close>

lemma listing_candidates:
  assumes "read_log ''message'' (decodeMessageSnapshot codec) fs = Inr xs"
  shows "\<exists>latest. collect_loop codec a fs [] = Inr latest
    \<and> distinct (map ms_MessageID (map snd latest))
    \<and> (\<forall>s. s \<in> set (map snd latest)
         \<longleftrightarrow> last_such (of_message a (ms_MessageID s)) xs = Some s)"
proof -
  define latest where "latest = fold (collect_step a) xs []"
  have wf: "wf_alist latest" unfolding latest_def by (rule collect_fold [THEN conjunct1]) simp
  have look: "map_of latest m = last_such (of_message a m) xs" for m
    using collect_fold [of "[]" a xs m] by (simp add: latest_def split: option.splits)
  have id: "ms_MessageID s = m" if "(m, s) \<in> set latest" for m s
    using that look [of m] wf last_such_Some [of "of_message a m" xs s]
    by (simp add: map_of_mem of_message_def)
  then have "map ms_MessageID (map snd latest) = keys_of latest" by auto
  moreover have "s \<in> set (map snd latest) \<longleftrightarrow> last_such (of_message a (ms_MessageID s)) xs = Some s" for s
  proof
    assume "s \<in> set (map snd latest)"
    then obtain m where "(m, s) \<in> set latest" by auto
    with id [OF this] show "last_such (of_message a (ms_MessageID s)) xs = Some s"
      using look wf by (simp add: map_of_mem)
  next
    assume "last_such (of_message a (ms_MessageID s)) xs = Some s"
    then have "(ms_MessageID s, s) \<in> set latest" by (intro map_of_SomeD) (simp add: look)
    then show "s \<in> set (map snd latest)" by force
  qed
  moreover have "collect_loop codec a fs [] = Inr latest"
    by (simp add: collect_loop_eq assms latest_def)
  ultimately show ?thesis using wf by (metis wf_alist_def)
qed

section \<open>Properties of the queries\<close>

text \<open>
  The App-scoped queries read the whole log in order: the latest snapshot of a message is the
  last record of that App and message over all files, the attempts and events of a message are all
  its records in the order of the log, and each query fails exactly as reading the log fails.
\<close>

theorem queries_exact:
  "FindLatestMessage codec fs a m =
     and_then (read_log ''message'' (decodeMessageSnapshot codec) fs) (\<lambda>xs.
       Inr (last_such (of_message a m) xs))
   \<and> ListAttempts codec fs a m =
     and_then (read_log ''attempt'' (decodeAttemptSnapshot codec) fs) (\<lambda>xs.
       Inr (filter (of_attempt a m) xs))
   \<and> ListProviderEvents codec (Some fs) a m =
     and_then (read_log ''provider event'' (decodeProviderEventQuerySnapshot codec) fs) (\<lambda>xs.
       Inr (filter (of_event a m) xs))"
  by (simp only: FindLatestMessage_eq ListAttempts_eq ListProviderEvents_eq simp_thms)

text \<open>
  The listing of messages agrees with the lookup of one: it holds each message at most once,
  strictly from the newest to the oldest, as the snapshot the lookup finds, filtered; and a matching
  message is left out only by the limit, all listed ones then being newer.
\<close>

theorem ListLatestMessages_agrees:
  assumes "ListLatestMessages codec fs a f = Inr ss"
  shows "distinct (map ms_MessageID ss)
    \<and> sorted_wrt (\<lambda>s t. message_key t < message_key s) ss
    \<and> (\<forall>s \<in> set ss. message_hit f s \<and> FindLatestMessage codec fs a (ms_MessageID s) = Inr (Some s))
    \<and> (0 < mf_Limit f \<longrightarrow> int (length ss) \<le> mf_Limit f)
    \<and> (\<forall>m s. FindLatestMessage codec fs a m = Inr (Some s) \<and> message_hit f s \<and> s \<notin> set ss
         \<longrightarrow> int (length ss) = mf_Limit f \<and> (\<forall>t \<in> set ss. message_key s < message_key t))"
proof -
  obtain xs where xs: "read_log ''message'' (decodeMessageSnapshot codec) fs = Inr xs"
    using assms by (auto simp: ListLatestMessages_def collect_loop_eq)
  obtain latest where l: "collect_loop codec a fs [] = Inr latest"
      "distinct (map ms_MessageID (map snd latest))"
      "\<And>s. s \<in> set (map snd latest) \<longleftrightarrow> last_such (of_message a (ms_MessageID s)) xs = Some s"
    using listing_candidates [OF xs] by blast
  define hits where "hits = filter (message_hit f) (map snd latest)"
  define all where "all = newest_first message_key hits"
  have "message_key = (\<lambda>s. (ms_Timestamp s, ms_MessageID s))" by (auto simp: message_key_def)
  then have ss: "ss = cut (mf_Limit f) all"
    using assms l(1) by (simp add: ListLatestMessages_def all_def hits_def)
  have dis: "distinct (map message_key hits)"
    using l(2) unfolding hits_def
    by (auto simp: distinct_map message_key_def inj_on_def)
  have sorted: "sorted_wrt (\<lambda>s t. message_key t < message_key s) all"
    unfolding all_def by (rule newest_first_strict [OF dis])
  have find: "FindLatestMessage codec fs a m = Inr (last_such (of_message a m) xs)" for m
    by (simp add: FindLatestMessage_eq xs)
  have mem: "s \<in> set all \<longleftrightarrow> message_hit f s \<and> FindLatestMessage codec fs a (ms_MessageID s) = Inr (Some s)" for s
    using l(3) [of s] by (auto simp: all_def hits_def find)
  have "sorted_wrt (\<lambda>s t. message_key t < message_key s) ss" unfolding ss by (rule sorted_cut [OF sorted])
  moreover have "distinct (map ms_MessageID ss)"
  proof -
    have "distinct ss" if "sorted_wrt (\<lambda>s t. message_key t < message_key s) ss" for ss
      using that by (induction ss) auto
    moreover have "s = t" if "s \<in> set all" "t \<in> set all" "ms_MessageID s = ms_MessageID t" for s t
      using that by (auto simp: mem)
    ultimately show ?thesis
      using \<open>sorted_wrt _ ss\<close> set_cut [of "mf_Limit f" all] unfolding ss
      by (auto simp: distinct_map inj_on_def)
  qed
  moreover have "\<forall>s \<in> set ss. message_hit f s \<and> FindLatestMessage codec fs a (ms_MessageID s) = Inr (Some s)"
    using mem set_cut [of "mf_Limit f" all] unfolding ss by blast
  moreover have "0 < mf_Limit f \<longrightarrow> int (length ss) \<le> mf_Limit f"
    unfolding ss by (simp add: cut_length)
  moreover have "int (length ss) = mf_Limit f \<and> (\<forall>t \<in> set ss. message_key s < message_key t)"
    if "FindLatestMessage codec fs a m = Inr (Some s)" "message_hit f s" "s \<notin> set ss" for m s
  proof -
    have "ms_MessageID s = m"
      using that(1) last_such_Some [of "of_message a m" xs s] by (simp add: find of_message_def)
    then have "s \<in> set all" using that by (simp add: mem)
    then show ?thesis using cut_left_out [OF sorted] that(3) unfolding ss by blast
  qed
  ultimately show ?thesis by blast
qed

section \<open>Each provider event is recorded once\<close>

text \<open>The identity that \<open>sameProviderEventIdentity\<close> compares.\<close>

definition event_identity :: "ProviderEvent \<Rightarrow> _" where
  "event_identity e = (ev_MessageID e, ev_AppCode e, ev_Provider e, ev_ProviderAccountCode e,
     ev_ProviderChannelCode e, ev_ProviderMessageID e, ev_EventType e, ev_OccurredAt e)"

lemma sameProviderEventIdentity_iff:
  "sameProviderEventIdentity l r \<longleftrightarrow> event_identity l = event_identity r"
  by (auto simp: sameProviderEventIdentity_def event_identity_def)

text \<open>
  What the append relies on of the JSON library: the line of an event has no newline, fits the
  scanner's buffer, and is read back with the identity of the event.
\<close>

definition reads_back :: "log_codec \<Rightarrow> (string \<Rightarrow> string) \<Rightarrow> string \<Rightarrow> ProviderEvent \<Rightarrow> bool" where
  "reads_back codec json ts ev \<longleftrightarrow>
     (let l = encodeProviderEventRecord json ts ev
      in newline \<notin> set l \<and> length l < scan_limit
         \<and> (case decodeProviderEventSnapshot codec l of
              Inl _ \<Rightarrow> False | Inr ev' \<Rightarrow> event_identity ev' = event_identity ev))"

lemma lines_of_record:
  "newline \<notin> set l \<Longrightarrow> length cur + length l < scan_limit \<Longrightarrow>
     lines_of cur (l @ newline # rest) = (let (ls, e) = lines_of [] rest in (drop_cr (cur @ l) # ls, e))"
  by (induction l arbitrary: cur) auto

definition plain_line :: "string \<Rightarrow> bool" where
  "plain_line l \<longleftrightarrow> newline \<notin> set l \<and> length l < scan_limit \<and> drop_cr l = l"

lemma lines_of_records: "\<forall>l \<in> set ls. plain_line l \<Longrightarrow> lines_of [] (records ls) = (ls, None)"
  by (induction ls) (auto simp: lines_of_record plain_line_def)

lemma read_file_lines:
  assumes "\<forall>l \<in> set ls. \<not> isl (dec l)"
  shows "read_file kind dec (path, Readable ls None) = Inr (map (projr \<circ> dec) ls)"
proof -
  have "scan_lines dec (\<lambda>x xs. xs @ [x]) msg ls acc = Inr (acc @ map (projr \<circ> dec) ls)" for msg acc
    using assms by (induction ls arbitrary: acc) (auto split: sum.splits)
  then show ?thesis by (simp add: read_file_def scan_file_def)
qed

lemma event_in_lines_eq:
  "scan_lines (decodeProviderEventSnapshot codec) (\<lambda>x xs. xs @ [x]) msg ls acc = Inr ys \<Longrightarrow>
     event_in_lines codec ev msg ls =
       Inr (\<exists>x \<in> set (drop (length acc) ys). event_identity x = event_identity ev)"
proof (induction ls arbitrary: acc)
  case Nil
  then show ?case by simp
next
  case (Cons l ls)
  obtain x where x: "decodeProviderEventSnapshot codec l = Inr x"
      "scan_lines (decodeProviderEventSnapshot codec) (\<lambda>x xs. xs @ [x]) msg ls (acc @ [x]) = Inr ys"
    using Cons.prems by (auto split: sum.splits)
  have "\<exists>zs. ys = (acc @ [x]) @ zs" by (rule scan_lines_grow [OF x(2)])
  then show ?case using Cons.IH [OF x(2)] x(1) by (auto simp: sameProviderEventIdentity_iff)
qed

lemma event_in_files_eq:
  "read_log ''provider event'' (decodeProviderEventSnapshot codec) fs = Inr xs \<Longrightarrow>
     event_in_files codec ev fs = Inr (\<exists>x \<in> set xs. event_identity x = event_identity ev)"
proof (induction fs arbitrary: xs)
  case Nil
  then show ?case by simp
next
  case (Cons f fs)
  obtain ys zs where ys: "read_file ''provider event'' (decodeProviderEventSnapshot codec) f = Inr ys"
      and zs: "read_log ''provider event'' (decodeProviderEventSnapshot codec) fs = Inr zs" "xs = ys @ zs"
    using Cons.prems by (auto simp: read_log_Cons)
  have "providerEventExistsInPath codec f ev = Inr (\<exists>x \<in> set ys. event_identity x = event_identity ev)"
    using ys event_in_lines_eq [of codec "''decode provider event log record in '' @ fst f" _ "[]" ys ev]
    by (auto simp: read_file_def scan_file_def providerEventExistsInPath_def
        split: log_file.splits sum.splits option.splits bool.splits)
  then show ?case using Cons.IH [OF zs(1)] zs(2) by auto
qed

lemma read_log_map:
  "(\<And>i. i \<in> set order \<Longrightarrow> read_file kind dec (view i) = Inr (map f (c i))) \<Longrightarrow>
     read_log kind dec (map view order) = Inr (map f (concat (map c order)))"
  by (induction order) (auto simp: read_log_Cons)

text \<open>The records a query of the events file reads, when every file holds readable records.\<close>

lemma read_query_paths:
  assumes "\<forall>i \<le> jw_maxBackups w. content fs i = records (c i)"
    and "\<forall>l \<in> set (concat (map c (query_order (jw_maxBackups w)))). plain_line l \<and> \<not> isl (dec l)"
  shows "read_log kind dec (queryPaths (\<lambda>_. None) path w fs)
    = Inr (map (projr \<circ> dec) (concat (map c (query_order (jw_maxBackups w)))))"
  unfolding queryPaths_def
proof (rule read_log_map)
  fix i assume i: "i \<in> set (query_order (jw_maxBackups w))"
  then have le: "i \<le> jw_maxBackups w" by (auto simp: query_order_def)
  have ok: "\<forall>l \<in> set (c i). plain_line l" "\<forall>l \<in> set (c i). \<not> isl (dec l)" using assms(2) i by auto
  show "read_file kind dec (if i = 0 then path else path @ ''.'' @ Itoa (int i),
      case None of Some e \<Rightarrow> Unreadable e
      | None \<Rightarrow> (case fs i of None \<Rightarrow> Missing
         | Some bytes \<Rightarrow> (let (ls, e) = lines_of [] bytes in Readable ls e))) = Inr (map (projr \<circ> dec) (c i))"
  proof (cases "fs i")
    case None
    then have "records (c i) = []" using assms(1) le by (metis content_def option.case(1))
    then have "c i = []" by (cases "c i") auto
    then show ?thesis using None by (simp add: read_file_def scan_file_def)
  next
    case (Some bytes)
    then have "bytes = records (c i)" using assms(1) le by (metis content_def option.case(2))
    then show ?thesis using Some lines_of_records [OF ok(1)] read_file_lines [OF ok(2)] by simp
  qed
qed

text \<open>A series of appends, no system call failing, each with its time stamp.\<close>

fun append_events ::
    "log_codec \<Rightarrow> string \<Rightarrow> (string \<Rightarrow> string) \<Rightarrow> (string \<times> ProviderEvent) list \<Rightarrow> MessageLog \<Rightarrow> log_disk
     \<Rightarrow> bool result list \<times> MessageLog \<times> log_disk" where
  "append_events codec path json [] l disk = ([], l, disk)"
| "append_events codec path json ((ts, ev) # evs) l disk =
     (case AppendProviderEventOnce codec (\<lambda>_. None) path calm json ts ev l disk of
        (r, l1, disk1) \<Rightarrow>
          (case append_events codec path json evs l1 disk1 of
             (rs, l2, disk2) \<Rightarrow> (r # rs, l2, disk2)))"

definition accepted :: "(string \<times> ProviderEvent) list \<Rightarrow> bool result list \<Rightarrow> ProviderEvent list" where
  "accepted evs rs = map (\<lambda>p. snd (fst p)) (filter (\<lambda>p. snd p = Inr True) (zip evs rs))"

definition recorded_events :: "log_codec \<Rightarrow> string \<Rightarrow> MessageLog \<Rightarrow> log_disk \<Rightarrow> ProviderEvent list result" where
  "recorded_events codec path l disk =
     read_log ''provider event'' (decodeProviderEventSnapshot codec)
       (queryPaths (\<lambda>_. None) path (the (ml_events l)) (disk Events_log))"

text \<open>
  The invariant of a run: whole readable records on the files, those of the accepted events \<open>acc\<close>
  but for the oldest, with distinct identities; some are only missing if the last backup is there.
\<close>

definition events_ok :: "log_codec \<Rightarrow> int \<Rightarrow> nat \<Rightarrow> MessageLog \<Rightarrow> log_disk \<Rightarrow> ProviderEvent list \<Rightarrow> bool" where
  "events_ok codec maxBytes n l disk acc \<longleftrightarrow>
     (\<exists>w c ls k. ml_events l = Some w \<and> writer_ok w (disk Events_log)
        \<and> jw_maxBytes w = maxBytes \<and> jw_maxBackups w = n
        \<and> (0 < k \<longrightarrow> content (disk Events_log) n \<noteq> [])
        \<and> ls = concat (map c (query_order (jw_maxBackups w)))
        \<and> log_holds (jw_maxBytes w) (jw_maxBackups w) (disk Events_log) c ls
        \<and> (\<forall>x \<in> set ls. plain_line x \<and> \<not> isl (decodeProviderEventSnapshot codec x))
        \<and> map (event_identity \<circ> projr \<circ> decodeProviderEventSnapshot codec) ls
            = drop k (map event_identity acc)
        \<and> k \<le> length acc \<and> distinct (drop k (map event_identity acc)))"

lemma log_holds_self:
  "log_holds M n fs c ls \<Longrightarrow> log_holds M n fs c (concat (map c (query_order n)))"
  unfolding log_holds_def by (metis drop0 drop_Nil le0 less_irrefl)

lemma encode_ends: "drop_cr (encodeProviderEventRecord json ts ev) = encodeProviderEventRecord json ts ev"
proof -
  have "\<exists>xs. encodeProviderEventRecord json ts ev = xs @ ''}''"
    unfolding encodeProviderEventRecord_def by (simp only: append_assoc [symmetric]) blast
  then obtain xs where "encodeProviderEventRecord json ts ev = xs @ ''}''" ..
  moreover have "CHR ''}'' \<noteq> char_of (13 :: nat)" by code_simp
  ultimately show ?thesis by (simp add: drop_cr_def)
qed

lemma reads_back_line:
  "reads_back codec json ts ev \<Longrightarrow>
     plain_line (encodeProviderEventRecord json ts ev)
     \<and> (\<exists>ev'. decodeProviderEventSnapshot codec (encodeProviderEventRecord json ts ev) = Inr ev'
          \<and> event_identity ev' = event_identity ev)"
  by (auto simp: reads_back_def Let_def plain_line_def encode_ends split: sum.splits)

lemma events_ok_recorded:
  assumes "events_ok codec M n l disk acc"
  shows "\<exists>xs k. recorded_events codec path l disk = Inr xs \<and> k \<le> length acc
    \<and> map event_identity xs = drop k (map event_identity acc) \<and> distinct (map event_identity xs)
    \<and> (0 < k \<longrightarrow> M * int (Suc n div 2) < int (length (visible n (disk Events_log))))"
proof -
  obtain w c ls k where w: "ml_events l = Some w"
    and order: "ls = concat (map c (query_order (jw_maxBackups w)))"
    and holds: "log_holds (jw_maxBytes w) (jw_maxBackups w) (disk Events_log) c ls"
    and ls: "\<forall>x \<in> set ls. plain_line x \<and> \<not> isl (decodeProviderEventSnapshot codec x)"
    and ids: "map (event_identity \<circ> projr \<circ> decodeProviderEventSnapshot codec) ls
        = drop k (map event_identity acc)"
    and dis: "k \<le> length acc" "distinct (drop k (map event_identity acc))"
    and full: "jw_maxBytes w = M" "jw_maxBackups w = n" "0 < k \<longrightarrow> content (disk Events_log) n \<noteq> []"
    using assms unfolding events_ok_def by blast
  have "\<forall>i \<le> jw_maxBackups w. content (disk Events_log) i = records (c i)"
    using holds by (simp add: log_holds_def)
  from read_query_paths [OF this, of "decodeProviderEventSnapshot codec" "''provider event''" path]
  have "recorded_events codec path l disk = Inr (map (projr \<circ> decodeProviderEventSnapshot codec) ls)"
    using ls w by (simp add: recorded_events_def order)
  moreover have "0 < k \<longrightarrow> M * int (Suc n div 2) < int (length (visible n (disk Events_log)))"
    using log_full [OF holds, of n] full by simp
  ultimately show ?thesis using ids dis
    by (intro exI [of _ "map (projr \<circ> decodeProviderEventSnapshot codec) ls"] exI [of _ k])
      (simp add: comp_assoc)
qed

lemma events_ok_append:
  assumes ok: "events_ok codec M n l disk acc" and readable: "reads_back codec json ts ev"
  shows "\<exists>b l' disk'. AppendProviderEventOnce codec (\<lambda>_. None) path calm json ts ev l disk = (Inr b, l', disk')
    \<and> events_ok codec M n l' disk' (if b then acc @ [ev] else acc)
    \<and> (\<exists>xs. recorded_events codec path l disk = Inr xs
        \<and> (b \<longleftrightarrow> event_identity ev \<notin> event_identity ` set xs))"
proof -
  obtain w c ls k where w: "ml_events l = Some w" "writer_ok w (disk Events_log)"
    and order: "ls = concat (map c (query_order (jw_maxBackups w)))"
    and holds: "log_holds (jw_maxBytes w) (jw_maxBackups w) (disk Events_log) c ls"
    and ls: "\<forall>x \<in> set ls. plain_line x \<and> \<not> isl (decodeProviderEventSnapshot codec x)"
    and ids: "map (event_identity \<circ> projr \<circ> decodeProviderEventSnapshot codec) ls
        = drop k (map event_identity acc)"
    and dis: "k \<le> length acc" "distinct (drop k (map event_identity acc))"
    and full: "jw_maxBytes w = M" "jw_maxBackups w = n" "0 < k \<longrightarrow> content (disk Events_log) n \<noteq> []"
    using ok unfolding events_ok_def by blast
  obtain xs where xs: "recorded_events codec path l disk = Inr xs"
    using events_ok_recorded [OF ok] by blast
  have "\<forall>i \<le> jw_maxBackups w. content (disk Events_log) i = records (c i)"
    using holds by (simp add: log_holds_def)
  from read_query_paths [OF this, of "decodeProviderEventSnapshot codec" "''provider event''" path]
  have xs_eq: "xs = map (projr \<circ> decodeProviderEventSnapshot codec) ls"
    using xs ls w(1) by (simp add: recorded_events_def order)
  have idset: "event_identity ` set xs = set (drop k (map event_identity acc))"
    unfolding ids [symmetric] by (simp add: xs_eq image_comp)
  have found: "event_in_files codec ev (queryPaths (\<lambda>_. None) path w (disk Events_log))
      = Inr (event_identity ev \<in> event_identity ` set xs)"
  proof -
    have "(\<exists>x \<in> set xs. event_identity x = event_identity ev)
        \<longleftrightarrow> event_identity ev \<in> event_identity ` set xs" by (metis image_iff)
    then show ?thesis
      using event_in_files_eq [of codec "queryPaths (\<lambda>_. None) path w (disk Events_log)" xs ev] xs w(1)
      by (simp add: recorded_events_def)
  qed
  show ?thesis
  proof (cases "event_identity ev \<in> event_identity ` set xs")
    case True
    then show ?thesis using w(1) found ok xs
      by (intro exI [of _ False] exI [of _ l] exI [of _ disk]) (simp add: AppendProviderEventOnce_def)
  next
    case False
    define line where "line = encodeProviderEventRecord json ts ev"
    obtain ev' where ev': "plain_line line" "decodeProviderEventSnapshot codec line = Inr ev'"
        "event_identity ev' = event_identity ev"
      using reads_back_line [OF readable] unfolding line_def by blast
    obtain w' fs' c' where app: "appendLineLocked calm line w (disk Events_log) = (Inr (), w', fs')"
        "writer_ok w' fs'" "jw_maxBytes w' = jw_maxBytes w" "jw_maxBackups w' = jw_maxBackups w"
        "log_holds (jw_maxBytes w) (jw_maxBackups w) fs' c' (ls @ [line])"
        "content (disk Events_log) n \<noteq> [] \<longrightarrow> content fs' n \<noteq> []"
      unfolding full(2) [symmetric] using log_holds_append [OF w(2) holds, of line] by blast
    obtain j where j: "concat (map c' (query_order (jw_maxBackups w))) = drop j (ls @ [line])"
        "j \<le> length (ls @ [line])" "0 < j \<longrightarrow> content fs' n \<noteq> []"
    proof -
      have same: "content fs' n = [] \<longleftrightarrow> c' n = []"
        using content_empty [of fs' n c'] app(5) full(2) by (simp add: log_holds_def)
      show thesis using app(5) that unfolding log_holds_def same full(2) by blast
    qed
    have len: "length ls = length acc - k" using ids by (metis length_drop length_map)
    have ids': "map (event_identity \<circ> projr \<circ> decodeProviderEventSnapshot codec) (drop j (ls @ [line]))
        = drop (k + j) (map event_identity (acc @ [ev]))"
      unfolding drop_map [symmetric] map_append ids using ev' dis(1)
      by (simp add: add.commute)
    have "distinct (map event_identity (acc @ [ev])) \<or> distinct (drop k (map event_identity (acc @ [ev])))"
      using dis False idset by (simp del: drop_map)
    then have "distinct (drop (k + j) (map event_identity (acc @ [ev])))"
      by (metis distinct_drop drop_drop add.commute)
    moreover have "k + j \<le> length (acc @ [ev])" using j(2) len dis(1) by simp
    moreover have "\<forall>x \<in> set (drop j (ls @ [line])). plain_line x \<and> \<not> isl (decodeProviderEventSnapshot codec x)"
      using ls ev' by (auto dest!: in_set_dropD)
    ultimately have "events_ok codec M n (l\<lparr>ml_events := Some w'\<rparr>) (disk(Events_log := fs')) (acc @ [ev])"
      unfolding events_ok_def
      using full j(3) app log_holds_self [OF app(5)] j(1) ids'
      by (intro exI [of _ w'] exI [of _ c'] exI [of _ "drop j (ls @ [line])"] exI [of _ "k + j"]) simp
    moreover have "AppendProviderEventOnce codec (\<lambda>_. None) path calm json ts ev l disk
        = (Inr True, l\<lparr>ml_events := Some w'\<rparr>, disk(Events_log := fs'))"
      using w(1) found False app(1) by (simp add: AppendProviderEventOnce_def line_def)
    ultimately show ?thesis using False xs by auto
  qed
qed

lemma accepted_Cons:
  "accepted ((ts, ev) # evs) (Inr b # rs) = (if b then [ev] else []) @ accepted evs rs"
  by (simp add: accepted_def)

lemma append_events_run:
  "events_ok codec M n l disk acc \<Longrightarrow> \<forall>(ts, ev) \<in> set evs. reads_back codec json ts ev \<Longrightarrow>
     \<exists>rs l' disk'. append_events codec path json evs l disk = (rs, l', disk')
       \<and> (\<forall>r \<in> set rs. \<not> isl r) \<and> length rs = length evs
       \<and> events_ok codec M n l' disk' (acc @ accepted evs rs)
       \<and> (\<forall>ev \<in> snd ` set evs. event_identity ev \<in> event_identity ` set (acc @ accepted evs rs))"
proof (induction evs arbitrary: l disk acc)
  case Nil
  then show ?case by (simp add: accepted_def)
next
  case (Cons p evs)
  obtain ts ev where p: "p = (ts, ev)" by (cases p)
  have readable: "reads_back codec json ts ev" using Cons.prems(2) p by simp
  obtain b l1 disk1 xs where step:
      "AppendProviderEventOnce codec (\<lambda>_. None) path calm json ts ev l disk = (Inr b, l1, disk1)"
      "events_ok codec M n l1 disk1 (if b then acc @ [ev] else acc)"
      "recorded_events codec path l disk = Inr xs" "b \<longleftrightarrow> event_identity ev \<notin> event_identity ` set xs"
    using events_ok_append [OF Cons.prems(1) readable, of path] by blast
  let ?acc = "acc @ (if b then [ev] else [])"
  have ok1: "events_ok codec M n l1 disk1 ?acc" using step(2) by (cases b) simp_all
  have seen: "event_identity ev \<in> event_identity ` set ?acc"
  proof (cases b)
    case False
    obtain ys k where "recorded_events codec path l disk = Inr ys"
        "map event_identity ys = drop k (map event_identity acc)"
      using events_ok_recorded [OF Cons.prems(1)] by blast
    then have "map event_identity xs = drop k (map event_identity acc)" using step(3) by simp
    then have "event_identity ` set xs \<subseteq> event_identity ` set acc"
      by (metis list.set_map set_drop_subset)
    then show ?thesis using step(4) False by auto
  qed simp
  obtain rs l' disk' where run: "append_events codec path json evs l1 disk1 = (rs, l', disk')"
      "\<forall>r \<in> set rs. \<not> isl r" "length rs = length evs"
      "events_ok codec M n l' disk' (?acc @ accepted evs rs)"
      "\<forall>ev \<in> snd ` set evs. event_identity ev \<in> event_identity ` set (?acc @ accepted evs rs)"
    using Cons.IH [OF ok1] Cons.prems(2) by auto
  have "acc @ accepted (p # evs) (Inr b # rs) = ?acc @ accepted evs rs"
    unfolding p accepted_Cons by simp
  moreover have "append_events codec path json (p # evs) l disk = (Inr b # rs, l', disk')"
    by (simp add: p step(1) run(1))
  moreover have "\<forall>e \<in> snd ` set (p # evs). event_identity e \<in> event_identity ` set (?acc @ accepted evs rs)"
    using run(5) seen p by auto
  ultimately show ?case using run(2,3,4) by (intro exI [of _ "Inr b # rs"] exI [of _ l'] exI [of _ disk']) simp
qed

lemma fresh_events_ok:
  assumes new: "newJSONLWriter None calm_open maxBytes maxBackups Map.empty = (Inr w, fs)"
    and disk: "disk Events_log = fs" and some: "ml_events l = Some w"
  shows "events_ok codec maxBytes (nat maxBackups) l disk []"
proof -
  have "writer_ok w fs" "fs = [0 \<mapsto> []]" "0 < jw_maxBytes w"
    "jw_maxBytes w = maxBytes" "jw_maxBackups w = nat maxBackups"
    using new
    by (auto simp: newJSONLWriter_def jsonl_open_def calm_open_def writer_ok_def content_def Let_def
        split: if_splits)
  then have w: "writer_ok w (disk Events_log)" "disk Events_log = [0 \<mapsto> []]" "0 < jw_maxBytes w"
    "jw_maxBytes w = maxBytes" "jw_maxBackups w = nat maxBackups"
    using disk by simp_all
  have order: "concat (map (\<lambda>_. []) (query_order (jw_maxBackups w))) = []" by simp
  have "log_holds (jw_maxBytes w) (jw_maxBackups w) (disk Events_log) (\<lambda>_. []) []"
    using w by (auto simp: log_holds_def content_def)
  then show ?thesis using w some order
    unfolding events_ok_def by (intro exI [of _ w] exI [of _ "\<lambda>_. []"] exI [of _ "[]"] exI [of _ 0]) simp
qed

text \<open>
  Each provider event is recorded once: on a fresh events log, whatever events are appended in
  whatever order and however often, every append answers, the log always reads back, no identity is
  in it twice, and it holds the accepted events but for those lost with the oldest backups; an event
  that was not accepted has the identity of one that was.
\<close>

lemma provider_events_once:
  assumes "newJSONLWriter None calm_open maxBytes maxBackups Map.empty = (Inr w, disk Events_log)"
    "ml_events l = Some w"
    and "\<forall>(ts, ev) \<in> set evs. reads_back codec json ts ev"
  shows "\<exists>rs l' disk' xs k. append_events codec path json evs l disk = (rs, l', disk')
    \<and> (\<forall>r \<in> set rs. \<not> isl r) \<and> length rs = length evs
    \<and> recorded_events codec path l' disk' = Inr xs
    \<and> distinct (map event_identity xs)
    \<and> map event_identity xs = drop k (map event_identity (accepted evs rs))
    \<and> (0 < k \<longrightarrow> maxBytes * int (Suc (nat maxBackups) div 2)
         < int (length (visible (nat maxBackups) (disk' Events_log))))
    \<and> event_identity ` snd ` set evs = event_identity ` set (accepted evs rs)"
proof -
  have fresh: "events_ok codec maxBytes (nat maxBackups) l disk []"
    by (rule fresh_events_ok [where fs = "disk Events_log"]) (use assms in simp_all)
  obtain rs l' disk' where run: "append_events codec path json evs l disk = (rs, l', disk')"
      "\<forall>r \<in> set rs. \<not> isl r" "length rs = length evs" "events_ok codec maxBytes (nat maxBackups) l' disk' (accepted evs rs)"
      "\<forall>ev \<in> snd ` set evs. event_identity ev \<in> event_identity ` set (accepted evs rs)"
    using append_events_run [OF fresh assms(3), of path] by auto
  have "set (accepted evs rs) \<subseteq> snd ` set evs"
    by (force simp: accepted_def dest: set_zip_leftD)
  then have "event_identity ` snd ` set evs = event_identity ` set (accepted evs rs)"
    using run(5) by blast
  then show ?thesis using events_ok_recorded [OF run(4), of path] run(1-3) by blast
qed

text \<open>A JSON library for the examples: it reads every event line as the sample event.\<close>

definition sample_event :: ProviderEvent where
  "sample_event = \<lparr>ev_MessageID = ''msg_1'', ev_AppCode = ''shop'', ev_Provider = ProviderResend,
     ev_ProviderAccountCode = ''acc'', ev_ProviderChannelCode = ''ch'', ev_ProviderMessageID = ''pm'',
     ev_EventType = ProviderEventDelivered, ev_RecipientEmail = [], ev_EventPayload = ''{}'',
     ev_OccurredAt = ''2024-01-01T00:00:00Z''\<rparr>"

definition sample_message_line :: "string \<Rightarrow> raw_message result" where
  "sample_message_line l =
     (if l = [] then Inl (Errorf ''unexpected end of JSON input'')
      else Inr \<lparr>rm_Timestamp = tl l, rm_RequestID = ''req'', rm_BusinessRequestID = [],
        rm_MessageID = [hd l], rm_AppCode = ''shop'', rm_APIKeyName = ''key'', rm_SceneCode = ''otp'',
        rm_ToDomain = ''example.com'', rm_ToHash = [], rm_Locale = ''en'',
        rm_Status = MessageStatusSent, rm_ErrorCode = NoErrorCode, rm_ErrorMessage = []\<rparr>)"

definition sample_codec :: log_codec where
  "sample_codec = \<lparr>lc_message = sample_message_line,
     lc_attempt = (\<lambda>_. Inl (Errorf ''no attempts'')),
     lc_event = (\<lambda>_. Inr \<lparr>re_Timestamp = ''t'', re_MessageID = ev_MessageID sample_event,
        re_AppCode = ev_AppCode sample_event, re_Provider = ev_Provider sample_event,
        re_ProviderAccountCode = ev_ProviderAccountCode sample_event,
        re_ProviderChannelCode = ev_ProviderChannelCode sample_event,
        re_ProviderMessageID = ev_ProviderMessageID sample_event,
        re_EventType = ev_EventType sample_event, re_EventPayload = ev_EventPayload sample_event,
        re_OccurredAt = ev_OccurredAt sample_event\<rparr>),
     lc_time = (\<lambda>s. Inr (int (length s)))\<rparr>"

definition quoted :: "string \<Rightarrow> string" where
  "quoted s = CHR 0x22 # s @ [CHR 0x22]"

lemma provider_events_once_witness:
  "\<exists>w rs l' disk' xs. newJSONLWriter None calm_open 4096 1 Map.empty = (Inr w, [0 \<mapsto> []])
     \<and> append_events sample_codec ''log'' quoted [(''t'', sample_event), (''t'', sample_event)]
         \<lparr>ml_messages = w, ml_attempts = w, ml_events = Some w\<rparr> (\<lambda>_. [0 \<mapsto> []]) = (rs, l', disk')
     \<and> recorded_events sample_codec ''log'' l' disk' = Inr xs \<and> distinct (map event_identity xs)
     \<and> length rs = 2"
proof -
  let ?w = "\<lparr>jw_maxBytes = 4096, jw_maxBackups = 1, jw_open = True, jw_failed = None,
             jw_currentSize = 0\<rparr>"
  have new: "newJSONLWriter None calm_open 4096 1 Map.empty = (Inr ?w, [0 \<mapsto> []])"
    by (simp add: newJSONLWriter_def jsonl_open_def calm_open_def Let_def)
  have "reads_back sample_codec quoted ''t'' sample_event" by code_simp
  then have "\<forall>(ts, ev) \<in> set [(''t'', sample_event), (''t'', sample_event)].
      reads_back sample_codec quoted ts ev" by simp
  from provider_events_once [where disk = "\<lambda>_. [0 \<mapsto> []]", OF new, of
      "\<lparr>ml_messages = ?w, ml_attempts = ?w, ml_events = Some ?w\<rparr>", OF _ this, of "''log''"]
  show ?thesis using new by auto
qed

definition sample_log :: log_view where
  "sample_log = [(''log.1'', Readable [''a-'', ''b--''] None), (''log'', Readable [''a---''] None)]"

lemma ListLatestMessages_agrees_witness:
  "\<exists>ss. ListLatestMessages sample_codec sample_log ''shop''
          \<lparr>mf_Limit = 1, mf_Status = NoMessageStatus, mf_Scene = []\<rparr> = Inr ss
     \<and> map ms_MessageID ss = [''a'']
     \<and> (\<forall>s \<in> set ss. FindLatestMessage sample_codec sample_log ''shop'' (ms_MessageID s) = Inr (Some s))"
proof -
  let ?f = "\<lparr>mf_Limit = 1, mf_Status = NoMessageStatus, mf_Scene = []\<rparr>"
  obtain ss where ss: "ListLatestMessages sample_codec sample_log ''shop'' ?f = Inr ss"
      "map ms_MessageID ss = [''a'']"
  proof -
    have "(case collect_loop sample_codec ''shop'' sample_log [] of
        Inl _ \<Rightarrow> False | Inr latest \<Rightarrow> map (\<lambda>(m, s). (m, ms_Timestamp s, ms_MessageID s)) latest
          = [(''a'', 3, ''a''), (''b'', 2, ''b'')])" by code_simp
    then obtain s t where l: "collect_loop sample_codec ''shop'' sample_log [] = Inr [(''a'', s), (''b'', t)]"
        "ms_Timestamp s = 3" "ms_MessageID s = ''a''" "ms_Timestamp t = 2" "ms_MessageID t = ''b''"
      by (auto simp: map_eq_Cons_conv split: sum.splits)
    have "sort_key (\<lambda>s. (ms_Timestamp s, ms_MessageID s)) [s, t] = [t, s]"
      by (simp add: less_eq_prod_def l(2,4))
    then have "ListLatestMessages sample_codec sample_log ''shop'' ?f = Inr [s]"
      by (simp add: ListLatestMessages_def l(1) newest_first_def cut_def message_hit_def
          del: sort_key_simps)
    then show thesis using that l(3) by simp
  qed
  then show ?thesis using ListLatestMessages_agrees [OF ss(1)] by (intro exI [of _ ss]) simp
qed

end
