(* ===== verification/Stats.thy ===== *)
theory Stats
  imports Float64 MessageLog
begin

text \<open>
  The stats events of \<open>internal/lite/stats.go\<close>: their validation, the file sink and the aggregate
  view. The maps of a summary are association lists; the JSON library, the time parser and the \<open>%g\<close>
  format are arguments.
\<close>

section \<open>Records and metrics\<close>

definition MetricMessagesQueued :: string where "MetricMessagesQueued = ''messages_queued''"
definition MetricMessagesSent :: string where "MetricMessagesSent = ''messages_sent''"
definition MetricMessagesFailed :: string where "MetricMessagesFailed = ''messages_failed''"
definition MetricAttemptsSent :: string where "MetricAttemptsSent = ''attempts_sent''"
definition MetricAttemptsFailed :: string where "MetricAttemptsFailed = ''attempts_failed''"
definition MetricRequestsRateLimited :: string where
  "MetricRequestsRateLimited = ''requests_rate_limited''"
definition MetricRequestsQueueFull :: string where "MetricRequestsQueueFull = ''requests_queue_full''"
definition MetricRequestsIdempotentReplay :: string where
  "MetricRequestsIdempotentReplay = ''requests_idempotent_replay''"
definition MetricProviderEventsDelivered :: string where
  "MetricProviderEventsDelivered = ''provider_events_delivered''"
definition MetricProviderEventsBounced :: string where
  "MetricProviderEventsBounced = ''provider_events_bounced''"
definition MetricProviderEventsComplained :: string where
  "MetricProviderEventsComplained = ''provider_events_complained''"
definition MetricProviderDurationMS :: string where
  "MetricProviderDurationMS = ''provider_duration_ms''"

lemmas metric_defs = MetricMessagesQueued_def MetricMessagesSent_def MetricMessagesFailed_def
  MetricAttemptsSent_def MetricAttemptsFailed_def MetricRequestsRateLimited_def
  MetricRequestsQueueFull_def MetricRequestsIdempotentReplay_def
  MetricProviderEventsDelivered_def MetricProviderEventsBounced_def
  MetricProviderEventsComplained_def MetricProviderDurationMS_def

record StatsRecord =
  st_Timestamp :: go_time
  st_AppCode :: string
  st_SceneCode :: string
  st_ProviderChannelCode :: string
  st_Transport :: Transport
  st_Metric :: string
  st_Value :: float64

record ProviderDurationSummary =
  pd_ProviderChannelCode :: string
  pd_Transport :: Transport
  pd_Count :: int
  pd_TotalMS :: float64
  pd_AverageMS :: float64

record StatsSummary =
  sm_AppCode :: string
  sm_Since :: go_time
  sm_Until :: go_time
  sm_Metrics :: "(string \<times> float64) list"
  sm_ProviderDurations :: "(string \<times> ProviderDurationSummary) list"

text \<open>The zero \<open>time.Time\<close>, the first of January of the year 1.\<close>

definition zero_time :: go_time where
  "zero_time = - 62135596800 * Second"

definition isKnownStatsMetric :: "string \<Rightarrow> bool" where
  "isKnownStatsMetric metric \<longleftrightarrow>
     metric \<in> {MetricMessagesQueued, MetricMessagesSent, MetricMessagesFailed, MetricAttemptsSent,
       MetricAttemptsFailed, MetricRequestsRateLimited, MetricRequestsQueueFull,
       MetricRequestsIdempotentReplay, MetricProviderEventsDelivered, MetricProviderEventsBounced,
       MetricProviderEventsComplained, MetricProviderDurationMS}"

definition isProviderAttemptStatsMetric :: "string \<Rightarrow> bool" where
  "isProviderAttemptStatsMetric metric \<longleftrightarrow>
     metric \<in> {MetricAttemptsSent, MetricAttemptsFailed, MetricProviderDurationMS}"

definition validateStatsRecord :: "StatsRecord \<Rightarrow> unit result" where
  "validateStatsRecord r =
     (if TrimSpace (st_AppCode r) = [] then Inl (Errorf ''stats record app is required'')
      else if \<not> isKnownStatsMetric (st_Metric r) then Inl (Errorf ''stats record metric is invalid'')
      else if \<not> is_finite (st_Value r) \<or> float_negative (st_Value r) then
        Inl (Errorf ''stats record value must be a finite non-negative number'')
      else if st_Transport r \<noteq> NoTransport \<and> \<not> Transport_IsValid (st_Transport r) then
        Inl (Errorf ''stats record transport is invalid'')
      else if isProviderAttemptStatsMetric (st_Metric r) then
        if TrimSpace (st_ProviderChannelCode r) = [] then
          Inl (Errorf ''stats record provider channel is required'')
        else if \<not> Transport_IsValid (st_Transport r) then
          Inl (Errorf ''stats record transport is required'')
        else Inr ()
      else if TrimSpace (st_ProviderChannelCode r) \<noteq> [] \<or> st_Transport r \<noteq> NoTransport then
        Inl (Errorf ''stats record provider fields are only allowed for provider attempt metrics'')
      else Inr ())"

section \<open>Lines\<close>

definition appendJSONFloatField ::
    "(string \<Rightarrow> string) \<Rightarrow> (float64 \<Rightarrow> string) \<Rightarrow> string \<Rightarrow> float64 \<Rightarrow> bool \<Rightarrow> string" where
  "appendJSONFloatField json fmt name v first = (if first then [] else '','') @ json name @ '':'' @ fmt v"

definition encodeStatsRecord ::
    "(string \<Rightarrow> string) \<Rightarrow> (float64 \<Rightarrow> string) \<Rightarrow> (go_time \<Rightarrow> string) \<Rightarrow> go_time \<Rightarrow> StatsRecord \<Rightarrow> string"
where
  "encodeStatsRecord json fmt format ts r =
     ''{'' @ appendJSONField json ''ts'' (format ts) True
     @ appendJSONField json ''app'' (st_AppCode r) False
     @ appendJSONField json ''scene'' (st_SceneCode r) False
     @ appendJSONField json ''provider_channel'' (st_ProviderChannelCode r) False
     @ appendJSONField json ''transport'' (text_of_Transport (st_Transport r)) False
     @ appendJSONField json ''metric'' (st_Metric r) False
     @ appendJSONFloatField json fmt ''value'' (st_Value r) False
     @ ''}''"

record raw_stats =
  rs_Timestamp :: string
  rs_AppCode :: string
  rs_SceneCode :: string
  rs_ProviderChannelCode :: string
  rs_Transport :: Transport
  rs_Metric :: string
  rs_Value :: float64

record stats_codec =
  sc_record :: "string \<Rightarrow> raw_stats result"
  sc_time :: "string \<Rightarrow> go_time result"

definition decodeStatsRecord :: "stats_codec \<Rightarrow> string \<Rightarrow> StatsRecord result" where
  "decodeStatsRecord codec line =
     (case sc_record codec line of
        Inl e \<Rightarrow> Inl (Wrapf ''decode stats log record'' e)
      | Inr raw \<Rightarrow>
          (case sc_time codec (rs_Timestamp raw) of
             Inl e \<Rightarrow> Inl (Wrapf ''decode stats log timestamp'' e)
           | Inr timestamp \<Rightarrow>
               let r = \<lparr>st_Timestamp = timestamp, st_AppCode = rs_AppCode raw,
                        st_SceneCode = rs_SceneCode raw,
                        st_ProviderChannelCode = rs_ProviderChannelCode raw,
                        st_Transport = rs_Transport raw, st_Metric = rs_Metric raw,
                        st_Value = rs_Value raw\<rparr>
               in case validateStatsRecord r of
                    Inl e \<Rightarrow> Inl (Wrapf ''decode stats log record'' e)
                  | Inr _ \<Rightarrow> Inr r))"

section \<open>Aggregation\<close>

definition newStatsSummary :: "string \<Rightarrow> go_time \<Rightarrow> go_time \<Rightarrow> StatsSummary" where
  "newStatsSummary appCode since until =
     \<lparr>sm_AppCode = appCode, sm_Since = since, sm_Until = until, sm_Metrics = [],
      sm_ProviderDurations = []\<rparr>"

definition zero_duration :: ProviderDurationSummary where
  "zero_duration = \<lparr>pd_ProviderChannelCode = [], pd_Transport = NoTransport, pd_Count = 0,
                    pd_TotalMS = Finite 0, pd_AverageMS = Finite 0\<rparr>"

definition accumulateProviderDuration :: "StatsRecord \<Rightarrow> StatsSummary \<Rightarrow> StatsSummary" where
  "accumulateProviderDuration r s =
     (if st_ProviderChannelCode r = [] then s
      else
        let d = (case map_of (sm_ProviderDurations s) (st_ProviderChannelCode r) of
                   None \<Rightarrow> zero_duration | Some d \<Rightarrow> d)
        in s\<lparr>sm_ProviderDurations := AList.update (st_ProviderChannelCode r)
               (d\<lparr>pd_ProviderChannelCode := st_ProviderChannelCode r, pd_Transport := st_Transport r,
                  pd_Count := pd_Count d + 1,
                  pd_TotalMS := float_add (pd_TotalMS d) (st_Value r)\<rparr>)
               (sm_ProviderDurations s)\<rparr>)"

definition aggregate_step :: "StatsRecord \<Rightarrow> StatsSummary \<Rightarrow> StatsSummary" where
  "aggregate_step r s =
     (if st_AppCode r \<noteq> sm_AppCode s then s
      else if st_Timestamp r < sm_Since s \<or> \<not> st_Timestamp r < sm_Until s then s
      else if st_Metric r = MetricProviderDurationMS then accumulateProviderDuration r s
      else
        let v = (case map_of (sm_Metrics s) (st_Metric r) of None \<Rightarrow> Finite 0 | Some v \<Rightarrow> v)
        in s\<lparr>sm_Metrics := AList.update (st_Metric r) (float_add v (st_Value r)) (sm_Metrics s)\<rparr>)"

text \<open>A line that does not decode is passed over.\<close>

fun aggregate_lines :: "stats_codec \<Rightarrow> string list \<Rightarrow> StatsSummary \<Rightarrow> StatsSummary" where
  "aggregate_lines codec [] s = s"
| "aggregate_lines codec (l # ls) s =
     (case decodeStatsRecord codec l of
        Inl _ \<Rightarrow> aggregate_lines codec ls s
      | Inr r \<Rightarrow> aggregate_lines codec ls (aggregate_step r s))"

definition aggregateStatsPath ::
    "stats_codec \<Rightarrow> string \<times> log_file \<Rightarrow> StatsSummary \<Rightarrow> StatsSummary result" where
  "aggregateStatsPath codec f s =
     (case snd f of
        Missing \<Rightarrow> Inr s
      | Unreadable e \<Rightarrow> Inl (Wrapf ''open stats log for query'' e)
      | Readable lines scan_error \<Rightarrow>
          (case scan_error of
             Some e \<Rightarrow> Inl (Wrapf ''scan stats log'' e)
           | None \<Rightarrow> Inr (aggregate_lines codec lines s)))"

fun aggregate_files :: "stats_codec \<Rightarrow> log_view \<Rightarrow> StatsSummary \<Rightarrow> StatsSummary result" where
  "aggregate_files codec [] s = Inr s"
| "aggregate_files codec (f # fs) s =
     and_then (aggregateStatsPath codec f s) (aggregate_files codec fs)"

definition average :: "ProviderDurationSummary \<Rightarrow> ProviderDurationSummary" where
  "average d =
     (if 0 < pd_Count d then d\<lparr>pd_AverageMS := float_div (pd_TotalMS d) (float64_of_int (pd_Count d))\<rparr>
      else d)"

definition finalizeProviderDurations :: "StatsSummary \<Rightarrow> StatsSummary" where
  "finalizeProviderDurations s =
     s\<lparr>sm_ProviderDurations := map (\<lambda>(channel, d). (channel, average d)) (sm_ProviderDurations s)\<rparr>"

section \<open>Sinks\<close>

text \<open>The sink of \<open>stats: off\<close>, or the file sink with its writer.\<close>

datatype StatsSink = NoopStatsSink | FileStatsSink jsonlWriter

definition statsFilename :: string where "statsFilename = ''mail-stats.jsonl''"

definition NewFileStatsSink ::
    "go_error option \<Rightarrow> open_env \<Rightarrow> string \<Rightarrow> int \<Rightarrow> int \<Rightarrow> log_files \<Rightarrow> StatsSink result \<times> log_files" where
  "NewFileStatsSink directory env dir maxBytes maxBackups fs =
     (if dir = [] then (Inl (Errorf ''log directory is required''), fs)
      else case newJSONLWriter directory env maxBytes maxBackups fs of
             (Inl e, fs') \<Rightarrow> (Inl e, fs')
           | (Inr w, fs') \<Rightarrow> (Inr (FileStatsSink w), fs'))"

text \<open>\<open>line now\<close> is the encoder applied to the time stamp the sink chooses.\<close>

definition stats_timestamp :: "go_time \<Rightarrow> StatsRecord \<Rightarrow> go_time" where
  "stats_timestamp now r = (if st_Timestamp r = zero_time then now else st_Timestamp r)"

definition Record_stats ::
    "append_env \<Rightarrow> (go_time \<Rightarrow> StatsRecord \<Rightarrow> string) \<Rightarrow> go_time \<Rightarrow> StatsRecord \<Rightarrow> StatsSink \<Rightarrow> log_files
     \<Rightarrow> unit result \<times> StatsSink \<times> log_files" where
  "Record_stats env encode now r sink fs =
     (case sink of
        NoopStatsSink \<Rightarrow> (Inr (), sink, fs)
      | FileStatsSink w \<Rightarrow>
          (case validateStatsRecord r of
             Inl e \<Rightarrow> (Inl e, sink, fs)
           | Inr _ \<Rightarrow>
               (case appendLineLocked env (encode (stats_timestamp now r) r) w fs of
                  (res, w', fs') \<Rightarrow> (res, FileStatsSink w', fs'))))"

definition Summary :: "stats_codec \<Rightarrow> log_view option \<Rightarrow> string \<Rightarrow> go_time \<Rightarrow> go_time \<Rightarrow> StatsSummary result"
where
  "Summary codec files appCode since until =
     (case files of
        None \<Rightarrow> Inr (newStatsSummary appCode since until)
      | Some fs \<Rightarrow>
          and_then (aggregate_files codec fs (newStatsSummary appCode since until)) (\<lambda>s.
            Inr (finalizeProviderDurations s)))"

definition Close_stats :: "go_error option \<Rightarrow> StatsSink \<Rightarrow> unit result \<times> StatsSink" where
  "Close_stats close_err sink =
     (case sink of
        NoopStatsSink \<Rightarrow> (Inr (), sink)
      | FileStatsSink w \<Rightarrow>
          (case closeLocked close_err w of (r, w') \<Rightarrow> (r, FileStatsSink w')))"

section \<open>The summary as sums over the log\<close>

definition decoded_lines :: "stats_codec \<Rightarrow> string list \<Rightarrow> StatsRecord list" where
  "decoded_lines codec ls = map projr (filter (\<lambda>d. \<not> isl d) (map (decodeStatsRecord codec) ls))"

fun stats_readable :: "log_file \<Rightarrow> bool" where
  "stats_readable Missing = True"
| "stats_readable (Unreadable _) = False"
| "stats_readable (Readable _ e) = (e = None)"

fun stats_lines :: "log_file \<Rightarrow> string list" where
  "stats_lines (Readable ls _) = ls"
| "stats_lines _ = []"

text \<open>The valid records of the log in query order, and those that count for a summary.\<close>

definition stats_records :: "stats_codec \<Rightarrow> log_view \<Rightarrow> StatsRecord list" where
  "stats_records codec fs = concat (map (\<lambda>f. decoded_lines codec (stats_lines (snd f))) fs)"

definition counts_for :: "string \<Rightarrow> go_time \<Rightarrow> go_time \<Rightarrow> StatsRecord \<Rightarrow> bool" where
  "counts_for appCode since until r \<longleftrightarrow>
     st_AppCode r = appCode \<and> since \<le> st_Timestamp r \<and> st_Timestamp r < until"

definition float_sum :: "float64 list \<Rightarrow> float64" where
  "float_sum vs = fold (\<lambda>v a. float_add a v) vs (Finite 0)"

lemma float_sum_snoc: "float_sum (vs @ [v]) = float_add (float_sum vs) v"
  by (simp add: float_sum_def)

lemma aggregate_lines_fold:
  "aggregate_lines codec ls s = fold aggregate_step (decoded_lines codec ls) s"
  by (induction ls arbitrary: s) (auto simp: decoded_lines_def split: sum.split)

lemma aggregate_path_eq:
  "aggregateStatsPath codec f s =
     (if stats_readable (snd f) then Inr (fold aggregate_step (decoded_lines codec (stats_lines (snd f))) s)
      else aggregateStatsPath codec f s)"
  "\<not> stats_readable (snd f) \<Longrightarrow> isl (aggregateStatsPath codec f s)"
  by (cases "snd f"; simp add: aggregateStatsPath_def aggregate_lines_fold decoded_lines_def split: option.split)+

lemma aggregate_files_fold:
  "if \<forall>f \<in> set fs. stats_readable (snd f)
   then aggregate_files codec fs s = Inr (fold aggregate_step (stats_records codec fs) s)
   else isl (aggregate_files codec fs s)"
proof (induction fs arbitrary: s)
  case Nil
  then show ?case by (simp add: stats_records_def)
next
  case (Cons f fs)
  show ?case
  proof (cases "stats_readable (snd f)")
    case True
    then have "aggregateStatsPath codec f s
        = Inr (fold aggregate_step (decoded_lines codec (stats_lines (snd f))) s)"
      using aggregate_path_eq(1) [of codec f s] by (simp only: if_True)
    then show ?thesis
      using True Cons.IH [of "fold aggregate_step (decoded_lines codec (stats_lines (snd f))) s"]
      by (auto simp: stats_records_def)
  next
    case False
    then obtain e where "aggregateStatsPath codec f s = Inl e"
      using aggregate_path_eq(2) [of f codec s] by (auto simp: isl_def)
    then show ?thesis using False by auto
  qed
qed

lemma aggregate_step_window [simp]:
  "sm_AppCode (aggregate_step r s) = sm_AppCode s"
  "sm_Since (aggregate_step r s) = sm_Since s"
  "sm_Until (aggregate_step r s) = sm_Until s"
  by (simp_all add: aggregate_step_def accumulateProviderDuration_def Let_def)

lemma aggregate_fold_window [simp]:
  "sm_AppCode (fold aggregate_step rs s) = sm_AppCode s"
  "sm_Since (fold aggregate_step rs s) = sm_Since s"
  "sm_Until (fold aggregate_step rs s) = sm_Until s"
  by (induction rs arbitrary: s) simp_all

lemma newStatsSummary_window [simp]:
  "sm_AppCode (newStatsSummary a t u) = a" "sm_Since (newStatsSummary a t u) = t"
  "sm_Until (newStatsSummary a t u) = u" "sm_Metrics (newStatsSummary a t u) = []"
  "sm_ProviderDurations (newStatsSummary a t u) = []"
  by (simp_all add: newStatsSummary_def)

definition metric_values :: "string \<Rightarrow> go_time \<Rightarrow> go_time \<Rightarrow> string \<Rightarrow> StatsRecord list \<Rightarrow> float64 list" where
  "metric_values appCode since until metric rs =
     map st_Value (filter (\<lambda>r. counts_for appCode since until r \<and> st_Metric r = metric) rs)"

definition duration_records ::
    "string \<Rightarrow> go_time \<Rightarrow> go_time \<Rightarrow> string \<Rightarrow> StatsRecord list \<Rightarrow> StatsRecord list" where
  "duration_records appCode since until channel rs =
     filter (\<lambda>r. counts_for appCode since until r \<and> st_Metric r = MetricProviderDurationMS
               \<and> st_ProviderChannelCode r = channel) rs"

lemma aggregate_metrics:
  "map_of (sm_Metrics (fold aggregate_step rs (newStatsSummary a t u))) m =
     (if m = MetricProviderDurationMS \<or> metric_values a t u m rs = [] then None
      else Some (float_sum (metric_values a t u m rs)))"
proof (induction rs rule: rev_induct)
  case Nil
  then show ?case by (simp add: newStatsSummary_def metric_values_def)
next
  case (snoc r rs)
  let ?s = "fold aggregate_step rs (newStatsSummary a t u)"
  have v: "metric_values a t u m (rs @ [r]) = metric_values a t u m rs
      @ (if counts_for a t u r \<and> st_Metric r = m then [st_Value r] else [])"
    by (simp add: metric_values_def)
  show ?case
  proof (cases "counts_for a t u r \<and> st_Metric r \<noteq> MetricProviderDurationMS")
    case True
    then have "aggregate_step r ?s = ?s\<lparr>sm_Metrics := AList.update (st_Metric r)
        (float_add (case map_of (sm_Metrics ?s) (st_Metric r) of None \<Rightarrow> Finite 0 | Some v \<Rightarrow> v) (st_Value r))
        (sm_Metrics ?s)\<rparr>"
      by (simp add: aggregate_step_def counts_for_def not_less)
    then show ?thesis using snoc.IH True
      by (auto simp: v update_conv' float_sum_snoc float_sum_def [of "[]"])
  next
    case False
    then have "sm_Metrics (aggregate_step r ?s) = sm_Metrics ?s"
      by (auto simp: aggregate_step_def counts_for_def not_less accumulateProviderDuration_def Let_def)
    then show ?thesis using snoc.IH False by (auto simp: v)
  qed
qed

definition duration_total :: "string \<Rightarrow> StatsRecord list \<Rightarrow> ProviderDurationSummary" where
  "duration_total channel rs =
     \<lparr>pd_ProviderChannelCode = channel, pd_Transport = st_Transport (last rs),
      pd_Count = int (length rs), pd_TotalMS = float_sum (map st_Value rs), pd_AverageMS = Finite 0\<rparr>"

lemma aggregate_durations:
  "map_of (sm_ProviderDurations (fold aggregate_step rs (newStatsSummary a t u))) c =
     (if c = [] \<or> duration_records a t u c rs = [] then None
      else Some (duration_total c (duration_records a t u c rs)))"
proof (induction rs rule: rev_induct)
  case Nil
  then show ?case by (simp add: newStatsSummary_def duration_records_def)
next
  case (snoc r rs)
  let ?s = "fold aggregate_step rs (newStatsSummary a t u)"
  let ?hit = "counts_for a t u r \<and> st_Metric r = MetricProviderDurationMS"
  have v: "duration_records a t u c (rs @ [r]) = duration_records a t u c rs
      @ (if ?hit \<and> st_ProviderChannelCode r = c then [r] else [])"
    by (simp add: duration_records_def)
  show ?case
  proof (cases "?hit \<and> st_ProviderChannelCode r \<noteq> []")
    case True
    then have "aggregate_step r ?s = accumulateProviderDuration r ?s"
      by (simp add: aggregate_step_def counts_for_def not_less)
    then show ?thesis using snoc.IH True
      by (auto simp: v accumulateProviderDuration_def Let_def update_conv' duration_total_def
          zero_duration_def float_sum_snoc float_sum_def [of "[]"])
  next
    case False
    then have "sm_ProviderDurations (aggregate_step r ?s) = sm_ProviderDurations ?s"
      by (auto simp: aggregate_step_def counts_for_def not_less accumulateProviderDuration_def Let_def)
    then show ?thesis using snoc.IH False by (auto simp: v)
  qed
qed

lemma float_sum_ones:
  "\<forall>v \<in> set vs. v = Finite 1 \<Longrightarrow> int (length vs) \<le> 2 ^ 53 \<Longrightarrow> float_sum vs = Finite (of_nat (length vs))"
proof (induction vs rule: rev_induct)
  case Nil
  then show ?case by (simp add: float_sum_def)
next
  case (snoc v vs)
  then have "float_sum vs = Finite (of_int (int (length vs)))" by simp
  moreover have "v = Finite (of_int 1)" using snoc.prems by simp
  moreover have "\<bar>int (length vs) + 1\<bar> \<le> 2 ^ 53" using snoc.prems by simp
  ultimately show ?case unfolding float_sum_snoc
    using float_add_int [of "int (length vs)" 1] by simp
qed

section \<open>Properties\<close>

text \<open>
  C34. A summary never fails on what a log file holds, only on opening or scanning one. It adds up, in
  the order of the log, the values of the valid records of the App in the half-open window: per
  metric, and for provider durations per channel with their number and average; counters whose
  records have the value 1 are exact up to 2^53.
\<close>

theorem stats_summary_exact:
  assumes "\<forall>f \<in> set fs. stats_readable (snd f)"
  shows "\<exists>s. Summary codec (Some fs) a t u = Inr s
    \<and> (\<forall>m. map_of (sm_Metrics s) m =
         (let vs = metric_values a t u m (stats_records codec fs)
          in if m = MetricProviderDurationMS \<or> vs = [] then None else Some (float_sum vs)))
    \<and> (\<forall>m v. map_of (sm_Metrics s) m = Some v
         \<and> (\<forall>x \<in> set (metric_values a t u m (stats_records codec fs)). x = Finite 1)
         \<and> int (length (metric_values a t u m (stats_records codec fs))) \<le> 2 ^ 53
         \<longrightarrow> v = Finite (of_nat (length (metric_values a t u m (stats_records codec fs)))))
    \<and> (\<forall>c. map_of (sm_ProviderDurations s) c =
         (let rs = duration_records a t u c (stats_records codec fs)
          in if c = [] \<or> rs = [] then None else Some (average (duration_total c rs))))"
proof -
  define s0 where "s0 = fold aggregate_step (stats_records codec fs) (newStatsSummary a t u)"
  define s where "s = finalizeProviderDurations s0"
  have "aggregate_files codec fs (newStatsSummary a t u) = Inr s0"
    using aggregate_files_fold [of fs codec "newStatsSummary a t u"] assms by (simp add: s0_def)
  then have sum: "Summary codec (Some fs) a t u = Inr s" by (simp add: Summary_def s_def)
  have metrics: "map_of (sm_Metrics s) m =
      (let vs = metric_values a t u m (stats_records codec fs)
       in if m = MetricProviderDurationMS \<or> vs = [] then None else Some (float_sum vs))" for m
    by (simp add: s_def finalizeProviderDurations_def s0_def aggregate_metrics Let_def)
  have durations: "map_of (sm_ProviderDurations s) c =
      (let rs = duration_records a t u c (stats_records codec fs)
       in if c = [] \<or> rs = [] then None else Some (average (duration_total c rs)))" for c
    by (simp add: s_def finalizeProviderDurations_def map_of_map s0_def aggregate_durations Let_def)
  show ?thesis
    using sum metrics durations
    by (intro exI [of _ s] conjI allI impI; auto simp: Let_def float_sum_ones split: if_splits)
qed

definition sample_stats_codec :: stats_codec where
  "sample_stats_codec = \<lparr>sc_record = (\<lambda>l. Inr \<lparr>rs_Timestamp = l, rs_AppCode = ''shop'',
       rs_SceneCode = ''otp'', rs_ProviderChannelCode = (if l = ''sent'' then [] else ''main''),
       rs_Transport = (if l = ''sent'' then NoTransport else TransportAPI),
       rs_Metric = (if l = ''sent'' then MetricMessagesSent else MetricProviderDurationMS),
       rs_Value = Finite (if l = ''sent'' then 1 else 250)\<rparr>),
     sc_time = (\<lambda>_. Inr 5)\<rparr>"

lemma stats_summary_exact_witness:
  "\<exists>s. Summary sample_stats_codec
         (Some [(''stats.1'', Readable [''sent'', ''took''] None), (''stats'', Readable [''sent''] None)])
         ''shop'' 0 10 = Inr s
     \<and> map_of (sm_Metrics s) MetricMessagesSent = Some (Finite 2)
     \<and> map_of (sm_ProviderDurations s) ''other'' = None"
proof -
  let ?fs = "[(''stats.1'', Readable [''sent'', ''took''] None), (''stats'', Readable [''sent''] None)]"
  have "\<forall>f \<in> set ?fs. stats_readable (snd f)" by simp
  from stats_summary_exact [OF this, of sample_stats_codec "''shop''" 0 10] obtain s where
    s: "Summary sample_stats_codec (Some ?fs) ''shop'' 0 10 = Inr s"
    "\<forall>m. map_of (sm_Metrics s) m =
         (let vs = metric_values ''shop'' 0 10 m (stats_records sample_stats_codec ?fs)
          in if m = MetricProviderDurationMS \<or> vs = [] then None else Some (float_sum vs))"
    "\<forall>m v. map_of (sm_Metrics s) m = Some v
         \<and> (\<forall>x \<in> set (metric_values ''shop'' 0 10 m (stats_records sample_stats_codec ?fs)). x = Finite 1)
         \<and> int (length (metric_values ''shop'' 0 10 m (stats_records sample_stats_codec ?fs))) \<le> 2 ^ 53
         \<longrightarrow> v = Finite (of_nat (length (metric_values ''shop'' 0 10 m (stats_records sample_stats_codec ?fs))))"
    "\<forall>c. map_of (sm_ProviderDurations s) c =
         (let rs = duration_records ''shop'' 0 10 c (stats_records sample_stats_codec ?fs)
          in if c = [] \<or> rs = [] then None else Some (average (duration_total c rs)))"
    by blast
  have vs: "metric_values ''shop'' 0 10 MetricMessagesSent (stats_records sample_stats_codec ?fs)
      = [Finite 1, Finite 1]" by code_simp
  have ds: "duration_records ''shop'' 0 10 ''other'' (stats_records sample_stats_codec ?fs) = []"
    by code_simp
  have ne: "MetricMessagesSent \<noteq> MetricProviderDurationMS" by code_simp
  have "map_of (sm_ProviderDurations s) ''other'' = None" using s(4) ds by simp
  moreover have "map_of (sm_Metrics s) MetricMessagesSent = Some (float_sum [Finite 1, Finite 1])"
    using s(2) vs ne by (simp add: Let_def)
  moreover from this have "float_sum [Finite 1, Finite 1] = Finite 2"
    using s(3) [rule_format, of MetricMessagesSent "float_sum [Finite 1, Finite 1]"] vs by simp
  ultimately show ?thesis using s(1) by auto
qed

end
