(* ===== verification/DelayedHeap.thy ===== *)
theory DelayedHeap
  imports Domain
begin

text \<open>
  The binary heap of package \<open>container/heap\<close>, which the queue uses for its delayed tasks: a list
  in heap order, with the sift-up of \<open>heap.Push\<close> and the sift-down of \<open>heap.Pop\<close> as they index the
  list. The order is a parameter, the \<open>Less\<close> method of the client; what the package documents of
  it, a strict weak order, is the locale \<open>heap_order\<close>, in which the heap is proved correct.
\<close>

section \<open>The operations\<close>

definition swap :: "'a list \<Rightarrow> nat \<Rightarrow> nat \<Rightarrow> 'a list" where
  "swap xs i j = xs[i := xs ! j, j := xs ! i]"

text \<open>\<open>up(h, j)\<close>: the parent of \<open>j\<close> is \<open>(j-1)/2\<close>, and the root is its own parent.\<close>

fun heap_up :: "('a \<Rightarrow> 'a \<Rightarrow> bool) \<Rightarrow> 'a list \<Rightarrow> nat \<Rightarrow> 'a list" where
  "heap_up lt xs j =
     (let i = (j - 1) div 2
      in if i = j \<or> \<not> lt (xs ! j) (xs ! i) then xs
         else heap_up lt (swap xs i j) i)"

text \<open>\<open>down(h, i, n)\<close> on the first \<open>n\<close> elements.\<close>

definition min_child :: "('a \<Rightarrow> 'a \<Rightarrow> bool) \<Rightarrow> 'a list \<Rightarrow> nat \<Rightarrow> nat \<Rightarrow> nat" where
  "min_child lt xs i n =
     (if 2 * i + 2 < n \<and> lt (xs ! (2 * i + 2)) (xs ! (2 * i + 1)) then 2 * i + 2 else 2 * i + 1)"

lemma min_child_gt: "i < min_child lt xs i n"
  by (simp add: min_child_def)

function heap_down :: "('a \<Rightarrow> 'a \<Rightarrow> bool) \<Rightarrow> 'a list \<Rightarrow> nat \<Rightarrow> nat \<Rightarrow> 'a list" where
  "heap_down lt xs i n =
     (if n \<le> 2 * i + 1 then xs
      else if \<not> lt (xs ! min_child lt xs i n) (xs ! i) then xs
      else heap_down lt (swap xs i (min_child lt xs i n)) (min_child lt xs i n) n)"
  by pat_completeness auto
termination
  by (relation "measure (\<lambda>(lt, xs, i, n). n - i)") (auto simp: min_child_def)

declare heap_up.simps [simp del] heap_down.simps [simp del]

definition heap_push :: "('a \<Rightarrow> 'a \<Rightarrow> bool) \<Rightarrow> 'a \<Rightarrow> 'a list \<Rightarrow> 'a list" where
  "heap_push lt x h = heap_up lt (h @ [x]) (length h)"

text \<open>
  \<open>heap.Pop\<close> swaps the root with the last element, sifts the new root down in the rest and takes
  the last element off. The code calls it on a non-empty heap only.
\<close>

definition heap_pop :: "('a \<Rightarrow> 'a \<Rightarrow> bool) \<Rightarrow> 'a list \<Rightarrow> 'a \<times> 'a list" where
  "heap_pop lt h =
     (let n = length h - 1; h' = heap_down lt (swap h 0 n) 0 n
      in (last h', butlast h'))"

section \<open>Elements and length\<close>

lemma length_swap [simp]: "length (swap xs i j) = length xs"
  by (simp add: swap_def)

lemma mset_swap_idx: "i < length xs \<Longrightarrow> j < length xs \<Longrightarrow> mset (swap xs i j) = mset xs"
  by (simp add: swap_def mset_swap)

lemma nth_swap:
  "i < length xs \<Longrightarrow> j < length xs \<Longrightarrow> k < length xs \<Longrightarrow>
     swap xs i j ! k = (if k = i then xs ! j else if k = j then xs ! i else xs ! k)"
  by (auto simp: swap_def nth_list_update)

lemma mset_heap_up: "j < length xs \<Longrightarrow> mset (heap_up lt xs j) = mset xs"
proof (induction lt xs j rule: heap_up.induct)
  case (1 lt xs j)
  then show ?case
    by (subst heap_up.simps) (auto simp: Let_def mset_swap_idx)
qed

lemma mset_heap_down: "n \<le> length xs \<Longrightarrow> mset (heap_down lt xs i n) = mset xs"
proof (induction lt xs i n rule: heap_down.induct)
  case (1 lt xs i n)
  then show ?case
    by (subst heap_down.simps) (auto simp: mset_swap_idx min_child_def)
qed

lemma length_heap_down [simp]: "length (heap_down lt xs i n) = length xs"
proof (induction lt xs i n rule: heap_down.induct)
  case (1 lt xs i n)
  then show ?case by (subst heap_down.simps) auto
qed

text \<open>Sifting down touches only the first \<open>n\<close> elements.\<close>

lemma nth_heap_down: "n \<le> length xs \<Longrightarrow> n \<le> k \<Longrightarrow> k < length xs \<Longrightarrow> heap_down lt xs i n ! k = xs ! k"
proof (induction lt xs i n rule: heap_down.induct)
  case (1 lt xs i n)
  then show ?case
    by (subst heap_down.simps) (auto simp: nth_swap min_child_def)
qed

lemma mset_heap_push [simp]: "mset (heap_push lt x h) = add_mset x (mset h)"
  by (simp add: heap_push_def mset_heap_up)

lemma length_heap_push [simp]: "length (heap_push lt x h) = Suc (length h)"
  by (metis mset_heap_push size_add_mset size_mset)

lemma heap_pop_parts:
  assumes "h \<noteq> []"
  shows "fst (heap_pop lt h) = h ! 0" "mset (snd (heap_pop lt h)) = mset h - {#h ! 0#}"
proof -
  define n where "n = length h - 1"
  define h' where "h' = heap_down lt (swap h 0 n) 0 n"
  have n: "n < length h" "0 < length h" using assms by (auto simp: n_def)
  have "last h' = h' ! n"
    using n by (simp add: h'_def last_conv_nth n_def flip: length_greater_0_conv)
  also have "\<dots> = h ! 0" using n by (simp add: h'_def nth_heap_down nth_swap)
  finally have last: "last h' = h ! 0" .
  then show "fst (heap_pop lt h) = h ! 0"
    by (simp add: heap_pop_def Let_def n_def h'_def)
  have "h' \<noteq> []" using n by (auto simp: h'_def simp flip: length_greater_0_conv)
  then have "mset h' = add_mset (last h') (mset (butlast h'))"
    by (metis append_butlast_last_id mset_append add_mset_add_single mset.simps)
  moreover have "mset h' = mset h"
    using n by (simp add: h'_def mset_heap_down mset_swap_idx)
  ultimately have "mset h = add_mset (h ! 0) (mset (butlast h'))" using last by simp
  then have "mset (butlast h') = mset h - {#h ! 0#}" by (metis add_mset_remove_trivial)
  then show "mset (snd (heap_pop lt h)) = mset h - {#h ! 0#}"
    by (simp add: heap_pop_def Let_def n_def h'_def)
qed

lemma length_heap_pop: "h \<noteq> [] \<Longrightarrow> length (snd (heap_pop lt h)) = length h - 1"
  by (metis heap_pop_parts(2) size_Diff_singleton size_mset nth_mem_mset length_greater_0_conv)

section \<open>Heap order\<close>

text \<open>No element of the first \<open>n\<close> is smaller than its parent.\<close>

definition heap_ordered :: "('a \<Rightarrow> 'a \<Rightarrow> bool) \<Rightarrow> 'a list \<Rightarrow> nat \<Rightarrow> bool" where
  "heap_ordered lt xs n \<longleftrightarrow> (\<forall>k. 0 < k \<and> k < n \<longrightarrow> \<not> lt (xs ! k) (xs ! ((k - 1) div 2)))"

abbreviation is_heap :: "('a \<Rightarrow> 'a \<Rightarrow> bool) \<Rightarrow> 'a list \<Rightarrow> bool" where
  "is_heap lt xs \<equiv> heap_ordered lt xs (length xs)"

text \<open>What holds while an element sifts up to \<open>j\<close>, and while one sifts down from \<open>i\<close>.\<close>

definition up_inv :: "('a \<Rightarrow> 'a \<Rightarrow> bool) \<Rightarrow> 'a list \<Rightarrow> nat \<Rightarrow> bool" where
  "up_inv lt xs j \<longleftrightarrow>
     (\<forall>k. 0 < k \<and> k < length xs \<and> k \<noteq> j \<longrightarrow> \<not> lt (xs ! k) (xs ! ((k - 1) div 2)))
     \<and> (\<forall>k. 0 < j \<and> 0 < k \<and> k < length xs \<and> (k - 1) div 2 = j
            \<longrightarrow> \<not> lt (xs ! k) (xs ! ((j - 1) div 2)))"

definition down_inv :: "('a \<Rightarrow> 'a \<Rightarrow> bool) \<Rightarrow> 'a list \<Rightarrow> nat \<Rightarrow> nat \<Rightarrow> bool" where
  "down_inv lt xs i n \<longleftrightarrow>
     (\<forall>k. 0 < k \<and> k < n \<and> (k - 1) div 2 \<noteq> i \<longrightarrow> \<not> lt (xs ! k) (xs ! ((k - 1) div 2)))
     \<and> (\<forall>k. 0 < i \<and> 0 < k \<and> k < n \<and> (k - 1) div 2 = i
            \<longrightarrow> \<not> lt (xs ! k) (xs ! ((i - 1) div 2)))"

text \<open>The contract of \<open>heap.Interface\<close>: \<open>Less\<close> is a strict weak order.\<close>

locale heap_order =
  fixes lt :: "'a \<Rightarrow> 'a \<Rightarrow> bool"
  assumes lt_asym: "lt x y \<Longrightarrow> \<not> lt y x"
    and lt_negtrans: "\<not> lt x y \<Longrightarrow> \<not> lt y z \<Longrightarrow> \<not> lt x z"
begin

lemma lt_irrefl: "\<not> lt x x"
  using lt_asym by blast

lemma up_step:
  assumes j: "0 < j" "j < length xs" and inv: "up_inv lt xs j"
    and less: "lt (xs ! j) (xs ! ((j - 1) div 2))"
  shows "up_inv lt (swap xs ((j - 1) div 2) j) ((j - 1) div 2)"
proof -
  define i where "i = (j - 1) div 2"
  have i: "i < j" "i < length xs" using j by (auto simp: i_def)
  let ?ys = "swap xs i j"
  have ord: "\<not> lt (xs ! k) (xs ! ((k - 1) div 2))" if "0 < k" "k < length xs" "k \<noteq> j" for k
    using inv that by (auto simp: up_inv_def)
  have kids: "\<not> lt (xs ! k) (xs ! i)" if "0 < k" "k < length xs" "(k - 1) div 2 = j" for k
    using inv that j by (auto simp: up_inv_def i_def)
  have "\<not> lt (?ys ! k) (?ys ! ((k - 1) div 2))" if k: "0 < k" "k < length xs" "k \<noteq> i" for k
  proof -
    have p: "(k - 1) div 2 < length xs" "(k - 1) div 2 < k" using k by auto
    consider "k = j" | "k \<noteq> j" "(k - 1) div 2 = j" | "k \<noteq> j" "(k - 1) div 2 = i"
      | "k \<noteq> j" "(k - 1) div 2 \<noteq> i" "(k - 1) div 2 \<noteq> j" by blast
    then show ?thesis
    proof cases
      case 1
      have "\<not> lt (xs ! i) (xs ! j)" using less [folded i_def] by (rule lt_asym)
      moreover have "?ys ! k = xs ! i" "?ys ! i = xs ! j" using 1 i j by (simp_all add: nth_swap)
      ultimately show ?thesis using 1 i_def by simp
    next
      case 2
      then show ?thesis using k i j p kids [of k] by (auto simp: nth_swap)
    next
      case 3
      then have "\<not> lt (xs ! k) (xs ! i)" using ord [of k] k by auto
      moreover have "\<not> lt (xs ! i) (xs ! j)" using less lt_asym by (auto simp: i_def)
      ultimately have "\<not> lt (xs ! k) (xs ! j)" by (rule lt_negtrans)
      then show ?thesis using 3 k i j p by (auto simp: nth_swap)
    next
      case 4
      then show ?thesis using k i j p ord [of k] by (auto simp: nth_swap)
    qed
  qed
  moreover have "\<not> lt (?ys ! k) (?ys ! ((i - 1) div 2))"
    if k: "0 < i" "0 < k" "k < length xs" "(k - 1) div 2 = i" for k
  proof -
    have p: "(i - 1) div 2 < i" "(i - 1) div 2 < length xs" "i < k" using k i by auto
    have top: "\<not> lt (xs ! i) (xs ! ((i - 1) div 2))" using ord [of i] k i by auto
    show ?thesis
    proof (cases "k = j")
      case True
      then show ?thesis using top p i j by (auto simp: nth_swap)
    next
      case False
      then have "\<not> lt (xs ! k) (xs ! i)" using ord [of k] k by auto
      with top have "\<not> lt (xs ! k) (xs ! ((i - 1) div 2))" using lt_negtrans by blast
      then show ?thesis using False p i j k by (auto simp: nth_swap)
    qed
  qed
  ultimately show ?thesis unfolding i_def [symmetric] by (auto simp: up_inv_def)
qed

lemma heap_up_ordered: "j < length xs \<Longrightarrow> up_inv lt xs j \<Longrightarrow> is_heap lt (heap_up lt xs j)"
proof (induction j arbitrary: xs rule: less_induct)
  case (less j)
  let ?i = "(j - 1) div 2"
  show ?case
  proof (cases "?i = j \<or> \<not> lt (xs ! j) (xs ! ?i)")
    case True
    then have "\<not> lt (xs ! j) (xs ! ?i)" using lt_irrefl by metis
    with less.prems(2) have "is_heap lt xs" by (auto simp: up_inv_def heap_ordered_def)
    moreover have "heap_up lt xs j = xs" using True by (subst heap_up.simps) (simp add: Let_def)
    ultimately show ?thesis by simp
  next
    case False
    then have "0 < j" "?i < j" by auto
    with False less.prems up_step [of j xs]
    have "is_heap lt (heap_up lt (swap xs ?i j) ?i)" by (intro less.IH) auto
    moreover have "heap_up lt xs j = heap_up lt (swap xs ?i j) ?i"
      using False by (subst heap_up.simps) (simp add: Let_def)
    ultimately show ?thesis by simp
  qed
qed

lemma heap_push_ordered: "is_heap lt h \<Longrightarrow> is_heap lt (heap_push lt x h)"
  unfolding heap_push_def
proof (rule heap_up_ordered)
  assume h: "is_heap lt h"
  have "\<not> lt ((h @ [x]) ! k) ((h @ [x]) ! ((k - 1) div 2))"
    if "0 < k" "k < length h" for k
  proof -
    have "(k - 1) div 2 < length h" using that by arith
    then show ?thesis using h that by (simp add: heap_ordered_def nth_append)
  qed
  moreover have False if "0 < k" "k < Suc (length h)" "(k - 1) div 2 = length h" for k
    using that by arith
  ultimately show "up_inv lt (h @ [x]) (length h)"
    by (auto simp: up_inv_def less_Suc_eq)
qed simp

lemma down_step:
  assumes inv: "down_inv lt xs i n" and n: "n \<le> length xs" "2 * i + 1 < n"
    and less: "lt (xs ! min_child lt xs i n) (xs ! i)"
  shows "down_inv lt (swap xs i (min_child lt xs i n)) (min_child lt xs i n) n"
proof -
  define j where "j = min_child lt xs i n"
  have j: "i < j" "j < n" "(j - 1) div 2 = i" "0 < j"
    using n by (auto simp: j_def min_child_def)
  let ?ys = "swap xs i j"
  have ord: "\<not> lt (xs ! k) (xs ! ((k - 1) div 2))" if "0 < k" "k < n" "(k - 1) div 2 \<noteq> i" for k
    using inv that by (auto simp: down_inv_def)
  have least: "\<not> lt (xs ! k) (xs ! j)" if "0 < k" "k < n" "(k - 1) div 2 = i" for k
  proof -
    have "k = 2 * i + 1 \<or> k = 2 * i + 2" using that by arith
    then show ?thesis using that lt_asym lt_irrefl by (auto simp: j_def min_child_def)
  qed
  have "\<not> lt (?ys ! k) (?ys ! ((k - 1) div 2))"
    if k: "0 < k" "k < n" "(k - 1) div 2 \<noteq> j" for k
  proof -
    have p: "(k - 1) div 2 < length xs" "k < length xs" "i < length xs" "j < length xs"
      using k j n by auto
    consider "(k - 1) div 2 = i" "k = j" | "(k - 1) div 2 = i" "k \<noteq> j" | "(k - 1) div 2 \<noteq> i"
      by blast
    then show ?thesis
    proof cases
      case 1
      then show ?thesis using less p lt_asym j by (auto simp: nth_swap simp flip: j_def)
    next
      case 2
      then show ?thesis using least [of k] k p by (auto simp: nth_swap)
    next
      case 3
      then have kj: "k \<noteq> j" using j by auto
      show ?thesis
      proof (cases "k = i")
        case True
        have "\<not> lt (xs ! j) (xs ! ((i - 1) div 2))"
          using inv j k True by (auto simp: down_inv_def)
        then show ?thesis using True 3 p k by (auto simp: nth_swap)
      next
        case False
        then show ?thesis using ord [of k] 3 k kj p by (auto simp: nth_swap)
      qed
    qed
  qed
  moreover have "\<not> lt (?ys ! k) (?ys ! ((j - 1) div 2))"
    if k: "0 < k" "k < n" "(k - 1) div 2 = j" for k
  proof -
    have "k \<noteq> i" "k \<noteq> j" "k < length xs" using k j n by auto
    moreover have "\<not> lt (xs ! k) (xs ! j)" using ord [of k] k j by auto
    ultimately show ?thesis using j n by (auto simp: nth_swap)
  qed
  ultimately show ?thesis by (auto simp: down_inv_def simp flip: j_def)
qed

lemma heap_down_ordered:
  "n \<le> length xs \<Longrightarrow> down_inv lt xs i n \<Longrightarrow> heap_ordered lt (heap_down lt xs i n) n"
proof (induction "n - i" arbitrary: xs i rule: less_induct)
  case less
  let ?j = "min_child lt xs i n"
  show ?case
  proof (cases "n \<le> 2 * i + 1 \<or> \<not> lt (xs ! ?j) (xs ! i)")
    case True
    have "heap_ordered lt xs n"
      unfolding heap_ordered_def
    proof (intro allI impI)
      fix k assume k: "0 < k \<and> k < n"
      show "\<not> lt (xs ! k) (xs ! ((k - 1) div 2))"
      proof (cases "(k - 1) div 2 = i")
        case False
        with k less.prems(2) show ?thesis by (auto simp: down_inv_def)
      next
        case kid: True
        then have ks: "k = 2 * i + 1 \<or> k = 2 * i + 2" using k by arith
        then have "\<not> lt (xs ! ?j) (xs ! i)" using True k by auto
        moreover have "\<not> lt (xs ! k) (xs ! ?j)"
          using ks k lt_asym lt_irrefl by (auto simp: min_child_def)
        ultimately show ?thesis unfolding kid using lt_negtrans by blast
      qed
    qed
    with True show ?thesis by (subst heap_down.simps) auto
  next
    case False
    have "n - ?j < n - i" using False by (auto simp: min_child_def)
    moreover have "down_inv lt (swap xs i ?j) ?j n"
      using False less.prems by (intro down_step) auto
    ultimately have "heap_ordered lt (heap_down lt (swap xs i ?j) ?j n) n"
      using less by simp
    with False show ?thesis by (subst heap_down.simps) simp
  qed
qed

lemma heap_pop_ordered:
  assumes "is_heap lt h" "h \<noteq> []"
  shows "is_heap lt (snd (heap_pop lt h))"
proof -
  define n where "n = length h - 1"
  define h' where "h' = heap_down lt (swap h 0 n) 0 n"
  have n: "n < length h" using assms(2) by (simp add: n_def)
  have "down_inv lt (swap h 0 n) 0 n"
    unfolding down_inv_def
  proof (intro conjI allI impI)
    fix k assume k: "0 < k \<and> k < n \<and> (k - 1) div 2 \<noteq> 0"
    define p where "p = (k - 1) div 2"
    have p: "p < n" "p \<noteq> 0" using k by (auto simp: p_def)
    have "swap h 0 n ! k = h ! k" "swap h 0 n ! p = h ! p"
      using k p n assms(2) by (simp_all add: swap_def)
    moreover have "\<not> lt (h ! k) (h ! p)"
      using assms(1) k n by (simp add: heap_ordered_def p_def)
    ultimately show "\<not> lt (swap h 0 n ! k) (swap h 0 n ! ((k - 1) div 2))"
      by (simp add: p_def)
  qed simp
  then have "heap_ordered lt h' n" using n by (simp add: h'_def heap_down_ordered)
  moreover have "length h' = Suc n" using n by (simp add: h'_def n_def)
  ultimately have "heap_ordered lt (butlast h') (length (butlast h'))"
    by (auto simp: heap_ordered_def nth_butlast)
  then show ?thesis by (simp add: heap_pop_def Let_def n_def h'_def)
qed

text \<open>The root is a least element.\<close>

lemma heap_root_least:
  assumes "is_heap lt h" "k < length h"
  shows "\<not> lt (h ! k) (h ! 0)"
  using assms(2)
proof (induction k rule: less_induct)
  case (less k)
  show ?case
  proof (cases "k = 0")
    case True
    then show ?thesis by (simp add: lt_irrefl)
  next
    case False
    then have p: "(k - 1) div 2 < k" by auto
    have "\<not> lt (h ! k) (h ! ((k - 1) div 2))"
      using assms(1) False less.prems by (simp add: heap_ordered_def)
    moreover have "\<not> lt (h ! ((k - 1) div 2)) (h ! 0)" using less p by simp
    ultimately show ?thesis by (rule lt_negtrans)
  qed
qed

lemma heap_root_least_set: "is_heap lt h \<Longrightarrow> x \<in> set h \<Longrightarrow> \<not> lt x (h ! 0)"
  by (metis heap_root_least in_set_conv_nth)

end

end
