(* ===== verification/MemoryQueue.thy ===== *)
theory MemoryQueue
  imports DelayedHeap "HOL-Library.Product_Lexorder"
begin

text \<open>
  The in-memory queue of \<open>internal/lite/memory_queue.go\<close>: ready tasks in order of arrival, delayed
  tasks in a binary heap ordered by due time and sequence number, and a count of the capacity
  slots in use, which the reservations hold before they turn into tasks. Each function below is
  the body of a method between \<open>q.mu.Lock()\<close> and \<open>q.mu.Unlock()\<close>; what several goroutines do is a
  sequence of them. The clock reading \<open>q.now()\<close> is an argument.
\<close>

section \<open>State\<close>

record QueueTask =
  task_Message :: Message
  task_AttemptNo :: int
  task_AvailableAt :: go_time

record queuedTask =
  qt_task :: QueueTask
  qt_readyAt :: go_time
  qt_sequence :: int
  qt_available :: go_time

record MemoryQueue =
  q_capacity :: int
  q_pending :: int
  q_nextSeq :: int
  q_ready :: "queuedTask list"
  q_delayed :: "queuedTask list"
  q_closed :: bool

record QueueReservation =
  res_used :: bool

definition Less :: "queuedTask \<Rightarrow> queuedTask \<Rightarrow> bool" where
  "Less a b =
     (if qt_readyAt a \<noteq> qt_readyAt b then qt_readyAt a < qt_readyAt b
      else qt_sequence a < qt_sequence b)"

section \<open>Operations\<close>

definition NewMemoryQueue :: "int \<Rightarrow> MemoryQueue result" where
  "NewMemoryQueue capacity =
     (if capacity \<le> 0 then Inl (Errorf ''memory queue capacity must be greater than 0'')
      else Inr \<lparr>q_capacity = capacity, q_pending = 0, q_nextSeq = 0, q_ready = [],
                q_delayed = [], q_closed = False\<rparr>)"

definition Reserve :: "MemoryQueue \<Rightarrow> QueueReservation result \<times> MemoryQueue" where
  "Reserve q =
     (if q_closed q then (Inl ErrMemoryQueueClosed, q)
      else if q_capacity q \<le> q_pending q then (Inl (QueueFullError ErrorCodeQueueFull), q)
      else (Inr \<lparr>res_used = False\<rparr>, q\<lparr>q_pending := q_pending q + 1\<rparr>))"

definition drop_slot :: "MemoryQueue \<Rightarrow> MemoryQueue" where
  "drop_slot q = (if 0 < q_pending q then q\<lparr>q_pending := q_pending q - 1\<rparr> else q)"

text \<open>A reservation is a pointer that may be nil.\<close>

definition CommitDelayed ::
    "go_time \<Rightarrow> QueueTask \<Rightarrow> duration \<Rightarrow> QueueReservation option \<Rightarrow> MemoryQueue
     \<Rightarrow> unit result \<times> QueueReservation option \<times> MemoryQueue" where
  "CommitDelayed now task delay r q =
     (case r of
        None \<Rightarrow> (Inl (Errorf ''queue reservation is required''), r, q)
      | Some r' \<Rightarrow>
          if res_used r' then (Inl (Errorf ''queue reservation already used''), r, q)
          else if q_closed q then
            (Inl ErrMemoryQueueClosed, Some (r'\<lparr>res_used := True\<rparr>), drop_slot q)
          else
            (let delay = (if delay < 0 then 0 else delay);
                 seq = int64 (q_nextSeq q + 1);
                 item = \<lparr>qt_task = task\<lparr>task_AvailableAt := now + delay\<rparr>,
                         qt_readyAt = now + delay, qt_sequence = seq, qt_available = now + delay\<rparr>;
                 q1 = q\<lparr>q_nextSeq := seq\<rparr>
             in (Inr (), Some (r'\<lparr>res_used := True\<rparr>),
                 if delay = 0 then q1\<lparr>q_ready := q_ready q @ [item]\<rparr>
                 else q1\<lparr>q_delayed := heap_push Less item (q_delayed q)\<rparr>)))"

definition Commit ::
    "go_time \<Rightarrow> QueueTask \<Rightarrow> QueueReservation option \<Rightarrow> MemoryQueue
     \<Rightarrow> unit result \<times> QueueReservation option \<times> MemoryQueue" where
  "Commit now task r q = CommitDelayed now task 0 r q"

definition Release ::
    "QueueReservation option \<Rightarrow> MemoryQueue \<Rightarrow> QueueReservation option \<times> MemoryQueue" where
  "Release r q =
     (case r of
        None \<Rightarrow> (None, q)
      | Some r' \<Rightarrow>
          if res_used r' then (Some r', q)
          else (Some (r'\<lparr>res_used := True\<rparr>), drop_slot q))"

definition EnqueueDelayed ::
    "go_time \<Rightarrow> QueueTask \<Rightarrow> duration \<Rightarrow> MemoryQueue \<Rightarrow> unit result \<times> MemoryQueue" where
  "EnqueueDelayed now task delay q =
     (case Reserve q of
        (Inl e, q1) \<Rightarrow> (Inl e, q1)
      | (Inr r, q1) \<Rightarrow> (case CommitDelayed now task delay (Some r) q1 of (e, _, q2) \<Rightarrow> (e, q2)))"

definition Enqueue :: "go_time \<Rightarrow> QueueTask \<Rightarrow> MemoryQueue \<Rightarrow> unit result \<times> MemoryQueue" where
  "Enqueue now task q = EnqueueDelayed now task 0 q"

text \<open>The loop of \<open>moveReadyLocked\<close>: the heap loses its root in every round.\<close>

function moveReadyLocked :: "go_time \<Rightarrow> MemoryQueue \<Rightarrow> MemoryQueue" where
  "moveReadyLocked now q =
     (case q_delayed q of
        [] \<Rightarrow> q
      | item # _ \<Rightarrow>
          if now < qt_readyAt item then q
          else moveReadyLocked now
                 (q\<lparr>q_delayed := snd (heap_pop Less (q_delayed q)),
                    q_ready := q_ready q @ [item]\<rparr>))"
  by pat_completeness auto
termination
  by (relation "measure (\<lambda>(now, q). length (q_delayed q))") (auto simp: length_heap_pop)

declare moveReadyLocked.simps [simp del]

definition nextDelayLocked :: "go_time \<Rightarrow> MemoryQueue \<Rightarrow> duration" where
  "nextDelayLocked now q =
     (case q_delayed q of
        [] \<Rightarrow> -1
      | item # _ \<Rightarrow> if qt_readyAt item - now < 0 then 0 else qt_readyAt item - now)"

text \<open>
  One round of the loop of \<open>Dequeue\<close> under the lock: a task, the error of a closed queue, or the
  time to wait at most (negative: until a signal).
\<close>

datatype poll = Got QueueTask | Closed_queue | Wait duration

definition dequeue_round :: "go_time \<Rightarrow> MemoryQueue \<Rightarrow> poll \<times> MemoryQueue" where
  "dequeue_round now q =
     (if q_closed q then (Closed_queue, q)
      else
        let q1 = moveReadyLocked now q
        in case q_ready q1 of
             item # rest \<Rightarrow>
               (Got (qt_task item), q1\<lparr>q_ready := rest, q_pending := q_pending q1 - 1\<rparr>)
           | [] \<Rightarrow> (Wait (nextDelayLocked now q1), q1))"

text \<open>
  \<open>Dequeue\<close>: what ends a wait is the environment's. A \<open>wake_up\<close> is the end of one wait: the context's
  error, or the notification or the timer, and what other goroutines have made of the queue
  when the next round takes the lock, with that round's clock reading. The call has not returned
  when the wake-ups are used up (\<open>None\<close>).
\<close>

datatype wake_up = Ctx_done go_error | Woken go_time "MemoryQueue \<Rightarrow> MemoryQueue"

fun Dequeue ::
    "go_time \<Rightarrow> wake_up list \<Rightarrow> MemoryQueue \<Rightarrow> QueueTask result option \<times> MemoryQueue" where
  "Dequeue now wakes q =
     (case dequeue_round now q of
        (Got task, q1) \<Rightarrow> (Some (Inr task), q1)
      | (Closed_queue, q1) \<Rightarrow> (Some (Inl ErrMemoryQueueClosed), q1)
      | (Wait _, q1) \<Rightarrow>
          (case wakes of
             [] \<Rightarrow> (None, q1)
           | Ctx_done e # _ \<Rightarrow> (Some (Inl e), q1)
           | Woken now' others # rest \<Rightarrow> Dequeue now' rest (others q1)))"

declare Dequeue.simps [simp del]

definition PendingCount :: "MemoryQueue \<Rightarrow> int" where
  "PendingCount q = q_pending q"

definition Close :: "MemoryQueue \<Rightarrow> MemoryQueue" where
  "Close q =
     (if q_closed q then q
      else q\<lparr>q_closed := True, q_pending := 0, q_ready := [], q_delayed := []\<rparr>)"

section \<open>The order of the delayed tasks\<close>

definition task_key :: "queuedTask \<Rightarrow> go_time \<times> int" where
  "task_key t = (qt_readyAt t, qt_sequence t)"

lemma Less_iff: "Less a b \<longleftrightarrow> task_key a < task_key b"
  by (auto simp: Less_def task_key_def less_prod_def')

interpretation delayedTaskHeap: heap_order Less
  by unfold_locales (auto simp: Less_iff)

lemma heap_root_key:
  "is_heap Less h \<Longrightarrow> x \<in> set h \<Longrightarrow> task_key (h ! 0) \<le> task_key x"
  using delayedTaskHeap.heap_root_least_set [of h x] by (auto simp: Less_iff)

definition due :: "go_time \<Rightarrow> queuedTask \<Rightarrow> bool" where
  "due now t \<longleftrightarrow> qt_readyAt t \<le> now"

text \<open>
  \<open>moveReadyLocked\<close> splits the delayed tasks by their due time; the due ones join the ready
  ones in the order of their keys. The other fields stay.
\<close>

lemma moveReadyLocked_spec:
  assumes "is_heap Less (q_delayed q)"
  shows "\<exists>moved h. moveReadyLocked now q = q\<lparr>q_ready := q_ready q @ moved, q_delayed := h\<rparr>
           \<and> mset moved = filter_mset (due now) (mset (q_delayed q))
           \<and> mset h = filter_mset (\<lambda>t. \<not> due now t) (mset (q_delayed q))
           \<and> sorted (map task_key moved) \<and> is_heap Less h"
  using assms
proof (induction now q rule: moveReadyLocked.induct)
  case (1 now q)
  show ?case
  proof (cases "q_delayed q")
    case Nil
    then show ?thesis
      by (intro exI [of _ "[]"]) (simp add: moveReadyLocked.simps [of now q] heap_ordered_def)
  next
    case (Cons item rest)
    then have root: "q_delayed q ! 0 = item" and ne: "q_delayed q \<noteq> []" by simp_all
    have least: "task_key item \<le> task_key x" if "x \<in> set (q_delayed q)" for x
      using heap_root_key [OF 1(2) that] root by simp
    show ?thesis
    proof (cases "now < qt_readyAt item")
      case True
      then have "\<not> due now x" if "x \<in> set (q_delayed q)" for x
        using least [OF that] by (auto simp: due_def task_key_def less_eq_prod_def)
      then have "filter (due now) (q_delayed q) = []"
        "filter (\<lambda>t. \<not> due now t) (q_delayed q) = q_delayed q"
        by (simp_all add: filter_empty_conv)
      then have "filter_mset (due now) (mset (q_delayed q)) = {#}"
        "filter_mset (\<lambda>t. \<not> due now t) (mset (q_delayed q)) = mset (q_delayed q)"
        by (simp_all flip: mset_filter)
      moreover have "moveReadyLocked now q = q"
        using Cons True by (simp add: moveReadyLocked.simps [of now q])
      ultimately show ?thesis
        using 1(2) by (intro exI [of _ "[]"] exI [of _ "q_delayed q"]) simp
    next
      case False
      let ?h = "snd (heap_pop Less (q_delayed q))"
      let ?q = "q\<lparr>q_delayed := ?h, q_ready := q_ready q @ [item]\<rparr>"
      have step: "moveReadyLocked now q = moveReadyLocked now ?q"
        using Cons False by (simp add: moveReadyLocked.simps [of now q])
      have elems: "mset (q_delayed q) = add_mset item (mset ?h)"
        using heap_pop_parts(2) [OF ne] root ne
        by (metis insert_DiffM nth_mem_mset length_greater_0_conv)
      have "is_heap Less ?h" using 1(2) ne by (rule delayedTaskHeap.heap_pop_ordered)
      then obtain moved h where IH: "moveReadyLocked now ?q
            = ?q\<lparr>q_ready := q_ready ?q @ moved, q_delayed := h\<rparr>"
          "mset moved = filter_mset (due now) (mset ?h)"
          "mset h = filter_mset (\<lambda>t. \<not> due now t) (mset ?h)"
          "sorted (map task_key moved)" "is_heap Less h"
        using 1(1) [OF Cons False] by auto
      have "task_key item \<le> task_key x" if "x \<in> set moved" for x
      proof -
        have "x \<in># mset ?h" using that IH(2) by (metis filter_mset_eq_conv mset_subset_eqD
              multiset_filter_subset set_mset_mset)
        then have "x \<in># mset (q_delayed q)" using elems by simp
        then show ?thesis using least by simp
      qed
      then have "sorted (map task_key (item # moved))" using IH(4) by simp
      moreover have "due now item" using False by (simp add: due_def)
      ultimately show ?thesis
        using step IH elems by (intro exI [of _ "item # moved"] exI [of _ h]) simp
    qed
  qed
qed

lemma moveReadyLocked_fields:
  assumes "is_heap Less (q_delayed q)"
  shows "q_capacity (moveReadyLocked now q) = q_capacity q"
    "q_pending (moveReadyLocked now q) = q_pending q"
    "q_nextSeq (moveReadyLocked now q) = q_nextSeq q"
    "q_closed (moveReadyLocked now q) = q_closed q"
    "is_heap Less (q_delayed (moveReadyLocked now q))"
    "mset (q_ready (moveReadyLocked now q)) + mset (q_delayed (moveReadyLocked now q))
       = mset (q_ready q) + mset (q_delayed q)"
    "x \<in> set (q_ready (moveReadyLocked now q)) \<Longrightarrow> x \<in> set (q_ready q) \<or> due now x"
    "x \<in> set (q_delayed (moveReadyLocked now q)) \<Longrightarrow> x \<in> set (q_delayed q) \<and> \<not> due now x"
proof -
  obtain moved h where eq: "moveReadyLocked now q
         = q\<lparr>q_ready := q_ready q @ moved, q_delayed := h\<rparr>"
    and parts: "mset moved = filter_mset (due now) (mset (q_delayed q))"
      "mset h = filter_mset (\<lambda>t. \<not> due now t) (mset (q_delayed q))" "is_heap Less h"
    using moveReadyLocked_spec [OF assms] by blast
  have sets: "set moved = {x \<in> set (q_delayed q). due now x}"
    "set h = {x \<in> set (q_delayed q). \<not> due now x}"
    using parts(1,2) by (metis set_mset_filter set_mset_mset)+
  show "q_capacity (moveReadyLocked now q) = q_capacity q"
    "q_pending (moveReadyLocked now q) = q_pending q"
    "q_nextSeq (moveReadyLocked now q) = q_nextSeq q"
    "q_closed (moveReadyLocked now q) = q_closed q"
    "is_heap Less (q_delayed (moveReadyLocked now q))"
    using parts(3) by (simp_all add: eq)
  show "x \<in> set (q_ready (moveReadyLocked now q)) \<Longrightarrow> x \<in> set (q_ready q) \<or> due now x"
    "x \<in> set (q_delayed (moveReadyLocked now q)) \<Longrightarrow> x \<in> set (q_delayed q) \<and> \<not> due now x"
    using sets by (auto simp: eq)
  show "mset (q_ready (moveReadyLocked now q)) + mset (q_delayed (moveReadyLocked now q))
       = mset (q_ready q) + mset (q_delayed q)"
    using parts(1,2) by (simp add: eq multiset_partition [symmetric])
qed

section \<open>Sequences of operations\<close>

text \<open>
  What the goroutines that share a queue do, as a sequence of critical sections: reservations are
  handed out and used by their number, time passes between two operations. The last three
  components are the history the properties speak of: the tasks the queue has accepted, those it
  has handed to a worker and when, and those it has discarded at \<open>Close\<close>.
\<close>

datatype qop =
    Op_reserve | Op_commit nat QueueTask duration | Op_release nat
  | Op_dequeue | Op_close | Op_elapse nat

record qsys =
  sys_q :: MemoryQueue
  sys_res :: "QueueReservation list"
  sys_now :: go_time
  sys_accepted :: "QueueTask list"
  sys_delivered :: "(go_time \<times> QueueTask) list"
  sys_dropped :: "QueueTask list"

definition qsys_start :: "MemoryQueue \<Rightarrow> go_time \<Rightarrow> qsys" where
  "qsys_start q t = \<lparr>sys_q = q, sys_res = [], sys_now = t, sys_accepted = [],
                     sys_delivered = [], sys_dropped = []\<rparr>"

fun qexec :: "qop \<Rightarrow> qsys \<Rightarrow> qsys" where
  "qexec Op_reserve s =
     (case Reserve (sys_q s) of
        (Inl _, q) \<Rightarrow> s\<lparr>sys_q := q\<rparr>
      | (Inr r, q) \<Rightarrow> s\<lparr>sys_q := q, sys_res := sys_res s @ [r]\<rparr>)"
| "qexec (Op_commit i task delay) s =
     (if i < length (sys_res s) then
        (case CommitDelayed (sys_now s) task delay (Some (sys_res s ! i)) (sys_q s) of
           (e, r, q) \<Rightarrow>
             s\<lparr>sys_q := q, sys_res := (sys_res s)[i := the r],
               sys_accepted := sys_accepted s
                 @ (if isl e then [] else [task\<lparr>task_AvailableAt := sys_now s + max 0 delay\<rparr>])\<rparr>)
      else s)"
| "qexec (Op_release i) s =
     (if i < length (sys_res s) then
        (case Release (Some (sys_res s ! i)) (sys_q s) of
           (r, q) \<Rightarrow> s\<lparr>sys_q := q, sys_res := (sys_res s)[i := the r]\<rparr>)
      else s)"
| "qexec Op_dequeue s =
     (case dequeue_round (sys_now s) (sys_q s) of
        (Got task, q) \<Rightarrow>
          s\<lparr>sys_q := q, sys_delivered := sys_delivered s @ [(sys_now s, task)]\<rparr>
      | (_, q) \<Rightarrow> s\<lparr>sys_q := q\<rparr>)"
| "qexec Op_close s =
     s\<lparr>sys_q := Close (sys_q s),
       sys_dropped := sys_dropped s @ map qt_task (q_ready (sys_q s) @ q_delayed (sys_q s))\<rparr>"
| "qexec (Op_elapse n) s = s\<lparr>sys_now := sys_now s + int n\<rparr>"

definition qrun :: "qop list \<Rightarrow> qsys \<Rightarrow> qsys" where
  "qrun ops s = fold qexec ops s"

definition open_slots :: "QueueReservation list \<Rightarrow> int" where
  "open_slots rs = int (length (filter (\<lambda>r. \<not> res_used r) rs))"

text \<open>The invariant of a queue that is open, and of one that is closed.\<close>

definition slots_ok :: "qsys \<Rightarrow> bool" where
  "slots_ok s \<longleftrightarrow>
     (if q_closed (sys_q s)
      then q_pending (sys_q s) = 0 \<and> q_ready (sys_q s) = [] \<and> q_delayed (sys_q s) = []
      else q_pending (sys_q s) = int (length (q_ready (sys_q s)))
             + int (length (q_delayed (sys_q s))) + open_slots (sys_res s)
           \<and> q_pending (sys_q s) \<le> q_capacity (sys_q s))"

definition times_ok :: "qsys \<Rightarrow> bool" where
  "times_ok s \<longleftrightarrow>
     (\<forall>x \<in> set (q_ready (sys_q s)). qt_readyAt x \<le> sys_now s)
     \<and> (\<forall>x \<in> set (q_ready (sys_q s)) \<union> set (q_delayed (sys_q s)).
          task_AvailableAt (qt_task x) = qt_readyAt x)
     \<and> (\<forall>(t, task) \<in> set (sys_delivered s). task_AvailableAt task \<le> t)"

definition tasks_ok :: "qsys \<Rightarrow> bool" where
  "tasks_ok s \<longleftrightarrow>
     mset (sys_accepted s)
       = mset (map snd (sys_delivered s)) + image_mset qt_task (mset (q_ready (sys_q s)))
         + image_mset qt_task (mset (q_delayed (sys_q s))) + mset (sys_dropped s)
     \<and> (\<not> q_closed (sys_q s) \<longrightarrow> sys_dropped s = [])"

definition queue_inv :: "qsys \<Rightarrow> bool" where
  "queue_inv s \<longleftrightarrow>
     is_heap Less (q_delayed (sys_q s)) \<and> slots_ok s \<and> times_ok s \<and> tasks_ok s"

lemmas queue_inv_defs = queue_inv_def slots_ok_def times_ok_def tasks_ok_def

lemma set_heap_push [simp]: "set (heap_push lt x h) = insert x (set h)"
  by (metis mset_heap_push set_mset_add_mset_insert set_mset_mset)

lemma open_slots_append [simp]:
  "open_slots (rs @ [r]) = open_slots rs + (if res_used r then 0 else 1)"
  by (simp add: open_slots_def)

lemma open_slots_nonneg [simp]: "0 \<le> open_slots rs"
  by (simp add: open_slots_def)

lemma open_slots_use:
  "i < length rs \<Longrightarrow> \<not> res_used (rs ! i) \<Longrightarrow>
     open_slots (rs[i := r\<lparr>res_used := True\<rparr>]) = open_slots rs - 1"
proof (induction rs arbitrary: i)
  case (Cons a rs)
  then show ?case by (cases i) (auto simp: open_slots_def)
qed simp

lemma heap_ordered_0 [simp]: "heap_ordered lt xs 0"
  by (simp add: heap_ordered_def)

lemma queue_inv_start: "NewMemoryQueue c = Inr q \<Longrightarrow> queue_inv (qsys_start q t)"
  by (auto simp: NewMemoryQueue_def queue_inv_defs qsys_start_def open_slots_def
      split: if_splits)

lemma queue_inv_reserve [inv_intros]: "queue_inv s \<Longrightarrow> queue_inv (qexec Op_reserve s)"
  by (auto simp: queue_inv_defs Reserve_def split: if_splits)

lemma slots_ok_open_pos:
  assumes "slots_ok s" "\<not> q_closed (sys_q s)" "i < length (sys_res s)"
    "\<not> res_used (sys_res s ! i)"
  shows "0 < q_pending (sys_q s)"
proof -
  have "sys_res s ! i \<in> set (filter (\<lambda>r. \<not> res_used r) (sys_res s))" using assms by simp
  then have "0 < length (filter (\<lambda>r. \<not> res_used r) (sys_res s))"
    by (rule length_pos_if_in_set)
  then have "0 < open_slots (sys_res s)" by (simp add: open_slots_def)
  then show ?thesis using assms(1,2) by (simp add: slots_ok_def)
qed

lemma queue_inv_release [inv_intros]: "queue_inv s \<Longrightarrow> queue_inv (qexec (Op_release i) s)"
  using slots_ok_open_pos [of s i]
  by (cases "q_closed (sys_q s)")
    (auto simp: queue_inv_defs Release_def drop_slot_def open_slots_use)

lemma queue_inv_commit [inv_intros]:
  assumes inv: "queue_inv s"
  shows "queue_inv (qexec (Op_commit i task delay) s)"
proof (cases "i < length (sys_res s) \<and> \<not> res_used (sys_res s ! i)")
  case False
  then have "qexec (Op_commit i task delay) s = s" by (auto simp: CommitDelayed_def)
  then show ?thesis using inv by simp
next
  case idx: True
  show ?thesis
  proof (cases "q_closed (sys_q s)")
    case True
    then show ?thesis using inv idx
      by (auto simp: queue_inv_defs CommitDelayed_def drop_slot_def)
  next
    case False
    then show ?thesis
      using inv idx slots_ok_open_pos [of s i]
      by (auto simp: queue_inv_defs CommitDelayed_def Let_def open_slots_use max_def
          delayedTaskHeap.heap_push_ordered [simplified])
  qed
qed

lemma queue_inv_dequeue [inv_intros]:
  assumes inv: "queue_inv s"
  shows "queue_inv (qexec Op_dequeue s)"
proof (cases "q_closed (sys_q s)")
  case True
  then show ?thesis using inv by (auto simp: dequeue_round_def)
next
  case False
  define q1 where "q1 = moveReadyLocked (sys_now s) (sys_q s)"
  have heap: "is_heap Less (q_delayed (sys_q s))" using inv by (simp add: queue_inv_def)
  note fields = moveReadyLocked_fields [OF heap, where now = "sys_now s", folded q1_def]
  have elems: "image_mset qt_task (mset (q_ready q1)) + image_mset qt_task (mset (q_delayed q1))
      = image_mset qt_task (mset (q_ready (sys_q s)))
        + image_mset qt_task (mset (q_delayed (sys_q s)))"
    using fields(6) by (metis image_mset_union)
  have len: "length (q_ready q1) + length (q_delayed q1)
      = length (q_ready (sys_q s)) + length (q_delayed (sys_q s))"
    using fields(6) by (metis size_mset size_union)
  have set: "set (q_ready q1) \<union> set (q_delayed q1)
      = set (q_ready (sys_q s)) \<union> set (q_delayed (sys_q s))"
    using fields(6) by (metis set_mset_mset set_mset_union)
  have inv1: "queue_inv (s\<lparr>sys_q := q1\<rparr>)"
    unfolding queue_inv_def
  proof (intro conjI)
    show "is_heap Less (q_delayed (sys_q (s\<lparr>sys_q := q1\<rparr>)))" using fields(5) by simp
    show "slots_ok (s\<lparr>sys_q := q1\<rparr>)"
      using inv False fields(1-4) len by (simp add: queue_inv_def slots_ok_def)
    show "times_ok (s\<lparr>sys_q := q1\<rparr>)"
      using inv fields(7) set by (auto simp: queue_inv_def times_ok_def due_def)
    show "tasks_ok (s\<lparr>sys_q := q1\<rparr>)"
      using inv False fields(4) elems by (simp add: queue_inv_def tasks_ok_def ac_simps)
  qed
  show ?thesis
  proof (cases "q_ready q1")
    case Nil
    then show ?thesis using False inv1 by (simp add: dequeue_round_def Let_def flip: q1_def)
  next
    case (Cons item rest)
    have "q_closed q1 = False" using fields(4) False by simp
    then show ?thesis
      using inv1 False Cons
      by (auto simp: dequeue_round_def Let_def queue_inv_defs simp flip: q1_def)
  qed
qed

lemma queue_inv_close [inv_intros]: "queue_inv s \<Longrightarrow> queue_inv (qexec Op_close s)"
  by (auto simp: queue_inv_defs Close_def)

lemma queue_inv_elapse [inv_intros]: "queue_inv s \<Longrightarrow> queue_inv (qexec (Op_elapse n) s)"
  by (fastforce simp: queue_inv_defs)

lemma queue_inv_exec: "queue_inv s \<Longrightarrow> queue_inv (qexec op s)"
  by (cases op) (blast intro: inv_intros)+

lemma queue_inv_run: "queue_inv s \<Longrightarrow> queue_inv (qrun ops s)"
  unfolding qrun_def by (induction ops arbitrary: s) (simp_all add: queue_inv_exec)

lemma moveReadyLocked_capacity [simp]: "q_capacity (moveReadyLocked now q) = q_capacity q"
proof (induction now q rule: moveReadyLocked.induct)
  case (1 now q)
  then show ?case
    by (cases "q_delayed q") (simp_all add: moveReadyLocked.simps [of now q])
qed

lemma q_capacity_exec [simp]: "q_capacity (sys_q (qexec op s)) = q_capacity (sys_q s)"
  by (cases op)
    (auto simp: Reserve_def CommitDelayed_def Release_def drop_slot_def dequeue_round_def
      Close_def Let_def split: list.splits)

lemma q_capacity_run [simp]: "q_capacity (sys_q (qrun ops s)) = q_capacity (sys_q s)"
  unfolding qrun_def by (induction ops arbitrary: s) simp_all

lemma queue_inv_reachable:
  "NewMemoryQueue c = Inr q \<Longrightarrow> queue_inv (qrun ops (qsys_start q t))"
  by (simp add: queue_inv_start queue_inv_run)

section \<open>Properties\<close>

text \<open>The runs of the examples below: one slot, a delayed task, a clock that moves.\<close>

definition sample_task :: QueueTask where
  "sample_task = \<lparr>task_Message = zero_Message, task_AttemptNo = 1, task_AvailableAt = 0\<rparr>"

definition sample_queue :: MemoryQueue where
  "sample_queue = \<lparr>q_capacity = 1, q_pending = 0, q_nextSeq = 0, q_ready = [],
                   q_delayed = [], q_closed = False\<rparr>"

definition sample_ops :: "qop list" where
  "sample_ops = [Op_reserve, Op_reserve, Op_commit 0 sample_task 5, Op_dequeue, Op_elapse 5,
                 Op_dequeue, Op_reserve]"

lemma sample_queue_new: "NewMemoryQueue 1 = Inr sample_queue"
  by (simp add: NewMemoryQueue_def sample_queue_def)

text \<open>
  C7. Capacity accounting: whatever sequence of reservations, commits, releases, dequeues and
  closings a queue goes through, its pending count stays between zero and its capacity, and
  while it is open the count is the number of waiting tasks plus the unused reservations.
\<close>

theorem queue_capacity_respected:
  assumes "NewMemoryQueue c = Inr q"
  defines "s \<equiv> \<lambda>ops t. qrun ops (qsys_start q t)"
  shows "0 \<le> PendingCount (sys_q (s ops t)) \<and> PendingCount (sys_q (s ops t)) \<le> c
    \<and> (\<not> q_closed (sys_q (s ops t)) \<longrightarrow>
         PendingCount (sys_q (s ops t)) = int (length (q_ready (sys_q (s ops t))))
           + int (length (q_delayed (sys_q (s ops t)))) + open_slots (sys_res (s ops t)))"
proof -
  have c: "q_capacity (sys_q (s ops t)) = c" "0 < c"
    using assms(1) by (auto simp: s_def qsys_start_def NewMemoryQueue_def split: if_splits)
  have "slots_ok (s ops t)"
    using queue_inv_reachable [OF assms(1)] by (simp add: s_def queue_inv_def)
  then show ?thesis
    using c by (auto simp: slots_ok_def PendingCount_def split: if_splits)
qed

lemma queue_capacity_respected_witness:
  "PendingCount (sys_q (qrun sample_ops (qsys_start sample_queue 0))) \<le> 1
   \<and> open_slots (sys_res (qrun sample_ops (qsys_start sample_queue 0))) = 1"
  using queue_capacity_respected [OF sample_queue_new, of sample_ops 0]
  by (intro conjI; (simp; fail)?) code_simp

text \<open>
  C6. No task is lost or duplicated: the tasks the queue accepted are, with multiplicity, those it
  handed to workers, those still waiting and those discarded by \<open>Close\<close>; none is discarded while
  the queue is open.
\<close>

theorem queue_each_task_once:
  assumes "NewMemoryQueue c = Inr q"
  defines "s \<equiv> \<lambda>ops t. qrun ops (qsys_start q t)"
  shows "mset (sys_accepted (s ops t))
       = mset (map snd (sys_delivered (s ops t)))
         + mset (map qt_task (q_ready (sys_q (s ops t)) @ q_delayed (sys_q (s ops t))))
         + mset (sys_dropped (s ops t))
    \<and> (\<not> q_closed (sys_q (s ops t)) \<longrightarrow> sys_dropped (s ops t) = [])"
  using queue_inv_reachable [OF assms(1)]
  by (simp add: s_def queue_inv_def tasks_ok_def ac_simps)

lemma queue_each_task_once_witness:
  "mset (map snd (sys_delivered (qrun sample_ops (qsys_start sample_queue 0))))
     = {#sample_task\<lparr>task_AvailableAt := 5\<rparr>#}"
proof -
  let ?s = "qrun sample_ops (qsys_start sample_queue 0)"
  have "sys_accepted ?s = [sample_task\<lparr>task_AvailableAt := 5\<rparr>]" by code_simp
  moreover have "\<not> q_closed (sys_q ?s)" by code_simp
  moreover have "q_ready (sys_q ?s) = []" by code_simp
  moreover have "q_delayed (sys_q ?s) = []" by code_simp
  ultimately show ?thesis
    using queue_each_task_once [OF sample_queue_new, of sample_ops 0] by simp
qed

text \<open>
  C13. Delays are respected: a task handed to a worker at time \<open>t\<close> was due at or before \<open>t\<close>.
\<close>

theorem queue_never_early:
  assumes "NewMemoryQueue c = Inr q"
    and "(t', task) \<in> set (sys_delivered (qrun ops (qsys_start q t)))"
  shows "task_AvailableAt task \<le> t'"
  using queue_inv_reachable [OF assms(1), of ops t] assms(2)
  by (auto simp: queue_inv_def times_ok_def)

lemma queue_never_early_witness:
  "sys_delivered (qrun sample_ops (qsys_start sample_queue 0))
     = [(5, sample_task\<lparr>task_AvailableAt := 5\<rparr>)]
   \<and> task_AvailableAt (sample_task\<lparr>task_AvailableAt := 5\<rparr>) \<le> 5"
proof -
  have d: "sys_delivered (qrun sample_ops (qsys_start sample_queue 0))
     = [(5, sample_task\<lparr>task_AvailableAt := 5\<rparr>)]" by code_simp
  then show ?thesis
    using queue_never_early [OF sample_queue_new,
        of 5 "sample_task\<lparr>task_AvailableAt := 5\<rparr>" sample_ops 0] by simp
qed

text \<open>
  C14. What a round of \<open>Dequeue\<close> hands out on an open queue: the oldest ready task; failing that,
  a delayed task that is due and whose (due time, sequence) key is least among the delayed ones;
  and it waits only when nothing is due, then exactly until the earliest due time.
\<close>

theorem dequeue_round_order:
  assumes "is_heap Less (q_delayed q)" "\<not> q_closed q"
  shows "case fst (dequeue_round now q) of
      Got task \<Rightarrow>
        (if q_ready q \<noteq> [] then task = qt_task (hd (q_ready q))
         else \<exists>x \<in> set (q_delayed q). task = qt_task x \<and> due now x
                \<and> (\<forall>y \<in> set (q_delayed q). task_key x \<le> task_key y))
    | Wait w \<Rightarrow>
        q_ready q = [] \<and> (\<forall>x \<in> set (q_delayed q). \<not> due now x)
        \<and> (if q_delayed q = [] then w = -1
           else w > 0 \<and> (\<exists>x \<in> set (q_delayed q). now + w = qt_readyAt x
                  \<and> (\<forall>y \<in> set (q_delayed q). qt_readyAt x \<le> qt_readyAt y)))
    | Closed_queue \<Rightarrow> False"
proof -
  obtain moved h where eq: "moveReadyLocked now q = q\<lparr>q_ready := q_ready q @ moved, q_delayed := h\<rparr>"
    and parts: "mset moved = filter_mset (due now) (mset (q_delayed q))"
      "mset h = filter_mset (\<lambda>t. \<not> due now t) (mset (q_delayed q))"
      "sorted (map task_key moved)" "is_heap Less h"
    using moveReadyLocked_spec [OF assms(1)] by blast
  have sets: "set moved = {x \<in> set (q_delayed q). due now x}"
    "set h = {x \<in> set (q_delayed q). \<not> due now x}"
    using parts(1,2) by (metis set_mset_filter set_mset_mset)+
  consider "q_ready q \<noteq> []" | a m where "q_ready q = []" "moved = a # m"
    | "q_ready q = []" "moved = []" by (cases moved) auto
  then show ?thesis
  proof cases
    case 1
    then show ?thesis using assms(2) eq
      by (cases "q_ready q") (auto simp: dequeue_round_def Let_def)
  next
    case 2
    have "task_key a \<le> task_key y" if y: "y \<in> set (q_delayed q)" for y
    proof (cases "due now y")
      case True
      then have "y \<in> set moved" using y sets by simp
      then show ?thesis using 2 parts(3) by auto
    next
      case False
      moreover have "due now a" using sets 2 by auto
      ultimately show ?thesis by (auto simp: due_def task_key_def less_eq_prod_def)
    qed
    moreover have "a \<in> set (q_delayed q)" "due now a" using sets 2 by auto
    ultimately show ?thesis using assms(2) eq 2 by (auto simp: dequeue_round_def Let_def)
  next
    case 3
    then have none: "\<forall>x \<in> set (q_delayed q). \<not> due now x" using sets by auto
    then have same: "set h = set (q_delayed q)" using sets by auto
    have round: "fst (dequeue_round now q) = Wait (nextDelayLocked now (q\<lparr>q_delayed := h\<rparr>))"
      using assms(2) eq 3 by (simp add: dequeue_round_def Let_def nextDelayLocked_def)
    show ?thesis
    proof (cases h)
      case Nil
      then show ?thesis using same round none 3 by (simp add: nextDelayLocked_def)
    next
      case (Cons a h')
      have ina: "a \<in> set (q_delayed q)" using same Cons by auto
      have least: "qt_readyAt a \<le> qt_readyAt y" if "y \<in> set (q_delayed q)" for y
      proof -
        have "task_key a \<le> task_key y"
          using heap_root_key [OF parts(4), of y, unfolded same, OF that] by (simp add: Cons)
        then show ?thesis by (auto simp: task_key_def less_eq_prod_def)
      qed
      have "now < qt_readyAt a" using none ina by (auto simp: due_def)
      moreover have "q_delayed q \<noteq> []" using ina by auto
      ultimately show ?thesis
        using round none 3 Cons ina least by (auto simp: nextDelayLocked_def intro!: bexI [of _ a])
    qed
  qed
qed

definition sample_delayed :: MemoryQueue where
  "sample_delayed = sys_q (qrun [Op_reserve, Op_commit 0 sample_task 5] (qsys_start sample_queue 0))"

lemma sample_delayed_heap: "is_heap Less (q_delayed sample_delayed)"
  unfolding sample_delayed_def using queue_inv_reachable [OF sample_queue_new]
  by (simp add: queue_inv_def)

lemma dequeue_round_order_witness:
  "fst (dequeue_round 2 sample_delayed) = Wait 3
   \<and> (\<exists>x \<in> set (q_delayed sample_delayed). 5 = qt_readyAt x)"
proof -
  have "fst (dequeue_round 2 sample_delayed) = Wait 3" by code_simp
  moreover have "\<not> q_closed sample_delayed" by code_simp
  ultimately show ?thesis
    using dequeue_round_order [OF sample_delayed_heap, of 2] by (auto split: if_splits)
qed

text \<open>
  The timer of a waiting \<open>Dequeue\<close> is long enough: when the call waits for a delayed task and
  the next round runs at or after the end of that wait, with the queue unchanged, it returns a
  task.
\<close>

theorem dequeue_timer_delivers:
  assumes heap: "is_heap Less (q_delayed q)" and wait: "fst (dequeue_round now q) = Wait w"
    and w: "0 \<le> w" "now + w \<le> now'"
  shows "\<exists>task q'. Dequeue now [Woken now' (\<lambda>q. q)] q = (Some (Inr task), q')"
proof -
  have closed: "\<not> q_closed q" using wait by (auto simp: dequeue_round_def)
  define q1 where "q1 = snd (dequeue_round now q)"
  have q1: "q1 = moveReadyLocked now q"
    using wait closed by (auto simp: q1_def dequeue_round_def Let_def split: list.splits)
  have heap1: "is_heap Less (q_delayed q1)" and closed1: "\<not> q_closed q1"
    using moveReadyLocked_fields [OF heap] closed q1 by auto
  obtain x where x: "x \<in> set (q_delayed q)" "now + w = qt_readyAt x" "\<not> due now x" "q_ready q = []"
    using dequeue_round_order [OF heap closed, of now] wait w by (auto split: if_splits)
  have "x \<in># mset (q_ready q1) + mset (q_delayed q1)"
    using moveReadyLocked_fields(6) [OF heap, of now] x q1 by simp
  moreover have "x \<notin> set (q_ready q1)"
    using moveReadyLocked_fields(7) [OF heap, of x now] x q1 by auto
  ultimately have "x \<in> set (q_delayed q1)" by simp
  moreover have "due now' x" using x w by (simp add: due_def)
  ultimately obtain task where "fst (dequeue_round now' q1) = Got task"
    using dequeue_round_order [OF heap1 closed1, of now'] by (auto split: poll.splits)
  then obtain q2 where "dequeue_round now' q1 = (Got task, q2)" by (metis prod.collapse)
  moreover have "dequeue_round now q = (Wait w, q1)" using wait by (simp add: q1_def prod_eq_iff)
  ultimately show ?thesis by (simp add: Dequeue.simps)
qed

lemma dequeue_timer_delivers_witness:
  "\<exists>task q'. Dequeue 2 [Woken 6 (\<lambda>q. q)] sample_delayed = (Some (Inr task), q')"
proof -
  have "fst (dequeue_round 2 sample_delayed) = Wait 3" by code_simp
  then show ?thesis by (rule dequeue_timer_delivers [OF sample_delayed_heap]) simp_all
qed

end
