(* ===== verification/Worker.thy ===== *)
theory Worker
  imports Stats MemoryQueue "HOL-Library.State_Monad"
begin

text \<open>
  The worker of \<open>internal/worker/worker.go\<close> and the results of \<open>internal/provider/provider.go\<close>. The
  worker reaches the queue, the logs, the statistics, the providers and the clock through
  interfaces: here the interfaces are records of actions on a state \<open>'s\<close>, whatever implements them.
\<close>

section \<open>Results of a provider\<close>

record AcceptedResult =
  ar_ProviderMessageID :: string

record FailedResult =
  fr_FailureClass :: FailureClass
  fr_ErrorCode :: ErrorCode
  fr_ErrorMessage :: string

record SendResult =
  sr_Accepted :: "AcceptedResult option"
  sr_Failed :: "FailedResult option"
  sr_RetryAfterSeconds :: int

record SendRequest =
  sq_Message :: Message
  sq_Account :: ProviderAccount
  sq_Channel :: ProviderChannel
  sq_Attempt :: int

definition Accepted :: "string \<Rightarrow> SendResult" where
  "Accepted providerMessageID =
     \<lparr>sr_Accepted = Some \<lparr>ar_ProviderMessageID = providerMessageID\<rparr>, sr_Failed = None,
      sr_RetryAfterSeconds = 0\<rparr>"

definition Failed :: "FailureClass \<Rightarrow> ErrorCode \<Rightarrow> string \<Rightarrow> SendResult" where
  "Failed failureClass errorCode errorMessage =
     \<lparr>sr_Accepted = None,
      sr_Failed = Some \<lparr>fr_FailureClass = failureClass, fr_ErrorCode = errorCode,
                        fr_ErrorMessage = errorMessage\<rparr>,
      sr_RetryAfterSeconds = 0\<rparr>"

definition TemporaryFailure :: "ErrorCode \<Rightarrow> string \<Rightarrow> SendResult" where
  "TemporaryFailure errorCode errorMessage = Failed FailureClassTemporary errorCode errorMessage"

definition ChannelFailure :: "ErrorCode \<Rightarrow> string \<Rightarrow> SendResult" where
  "ChannelFailure errorCode errorMessage = Failed FailureClassChannel errorCode errorMessage"

definition MessagePermanentFailure :: "ErrorCode \<Rightarrow> string \<Rightarrow> SendResult" where
  "MessagePermanentFailure errorCode errorMessage =
     Failed FailureClassMessagePermanent errorCode errorMessage"

definition WithRetryAfter :: "SendResult \<Rightarrow> int \<Rightarrow> SendResult" where
  "WithRetryAfter result retryAfterSeconds =
     (if 0 < retryAfterSeconds then result\<lparr>sr_RetryAfterSeconds := retryAfterSeconds\<rparr> else result)"

definition IsAccepted :: "SendResult \<Rightarrow> bool" where
  "IsAccepted r \<longleftrightarrow> sr_Accepted r \<noteq> None \<and> sr_Failed r = None"

definition IsFailed :: "SendResult \<Rightarrow> bool" where
  "IsFailed r \<longleftrightarrow> sr_Failed r \<noteq> None \<and> sr_Accepted r = None"

section \<open>Dependencies\<close>

text \<open>\<open>Send\<close> is given the deadline of its context, and an error of it hides the result.\<close>

type_synonym 's Provider_send = "duration \<Rightarrow> SendRequest \<Rightarrow> ('s, SendResult result) state"

record 's ProviderChannelRuntime =
  rt_Account :: ProviderAccount
  rt_Channel :: ProviderChannel
  rt_Provider :: "'s Provider_send option"

text \<open>The static resolver: the later of two runtimes with one channel code counts.\<close>

fun NewStaticProviderResolver ::
    "'s ProviderChannelRuntime list \<Rightarrow> string \<rightharpoonup> 's ProviderChannelRuntime" where
  "NewStaticProviderResolver [] = Map.empty"
| "NewStaticProviderResolver (rt # rts) =
     [chan_Code (rt_Channel rt) \<mapsto> rt] ++ NewStaticProviderResolver rts"

definition Resolve ::
    "(string \<rightharpoonup> 's ProviderChannelRuntime) option \<Rightarrow> string \<Rightarrow> 's ProviderChannelRuntime option" where
  "Resolve r channelCode = (case r of None \<Rightarrow> None | Some channels \<Rightarrow> channels channelCode)"

record 's worker_queue =
  wq_Dequeue :: "('s, QueueTask result) state"
  wq_EnqueueDelayed :: "QueueTask \<Rightarrow> duration \<Rightarrow> ('s, unit result) state"

record 's worker_log =
  wl_AppendMessage :: "Message \<Rightarrow> ('s, unit result) state"
  wl_AppendAttempt :: "Attempt \<Rightarrow> ('s, unit result) state"

type_synonym 's stats_record = "StatsRecord \<Rightarrow> ('s, unit result) state"

record 's Worker =
  w_queue :: "'s worker_queue"
  w_messageLog :: "'s worker_log"
  w_stats :: "'s stats_record"
  w_resolver :: "string \<Rightarrow> 's ProviderChannelRuntime option"
  w_maxAttempts :: int
  w_retryBackoff :: "int list"
  w_providerTimeout :: duration
  w_concurrency :: int
  w_now :: "('s, go_time) state"
  w_handleAsyncError :: "go_error \<Rightarrow> ('s, unit) state"

record 's Config =
  wc_Queue :: "'s worker_queue option"
  wc_MessageLog :: "'s worker_log option"
  wc_Stats :: "'s stats_record option"
  wc_ProviderResolver :: "(string \<Rightarrow> 's ProviderChannelRuntime option) option"
  wc_MaxAttemptsPerMessage :: int
  wc_RetryBackoffSeconds :: "int list"
  wc_ProviderTimeout :: duration
  wc_WorkerConcurrency :: int
  wc_Now :: "('s, go_time) state option"
  wc_ErrorHandler :: "(go_error \<Rightarrow> ('s, unit) state) option"

text \<open>\<open>clock\<close> is \<open>time.Now\<close>.\<close>

definition NewWorker :: "('s, go_time) state \<Rightarrow> 's Config \<Rightarrow> 's Worker result" where
  "NewWorker clock config =
     (case wc_Queue config of
        None \<Rightarrow> Inl (Errorf ''worker queue is required'')
      | Some queue \<Rightarrow>
     (case wc_MessageLog config of
        None \<Rightarrow> Inl (Errorf ''worker message log is required'')
      | Some messageLog \<Rightarrow>
     (case wc_ProviderResolver config of
        None \<Rightarrow> Inl (Errorf ''worker provider resolver is required'')
      | Some resolver \<Rightarrow>
          if wc_MaxAttemptsPerMessage config \<le> 0 then
            Inl (Errorf ''worker max attempts must be greater than 0'')
          else if wc_ProviderTimeout config \<le> 0 then
            Inl (Errorf ''worker provider timeout must be greater than 0'')
          else Inr \<lparr>w_queue = queue, w_messageLog = messageLog,
            w_stats = (case wc_Stats config of
                         None \<Rightarrow> (\<lambda>_. State_Monad.return (Inr ())) | Some s \<Rightarrow> s),
            w_resolver = resolver, w_maxAttempts = wc_MaxAttemptsPerMessage config,
            w_retryBackoff = wc_RetryBackoffSeconds config,
            w_providerTimeout = wc_ProviderTimeout config,
            w_concurrency = (if wc_WorkerConcurrency config \<le> 0 then 1
                             else wc_WorkerConcurrency config),
            w_now = (case wc_Now config of None \<Rightarrow> clock | Some now \<Rightarrow> now),
            w_handleAsyncError = (case wc_ErrorHandler config of
                                    None \<Rightarrow> (\<lambda>_. State_Monad.return ()) | Some h \<Rightarrow> h)\<rparr>)))"

section \<open>Helpers\<close>

definition maxRetryAfterSeconds :: int where "maxRetryAfterSeconds = 300"

text \<open>\<open>("", false)\<close> is \<open>None\<close>. The message has fewer than 2^63 channels, so no attempt number wraps.\<close>

definition providerChannelForAttempt :: "Message \<Rightarrow> int \<Rightarrow> int \<Rightarrow> string option" where
  "providerChannelForAttempt message attemptNo maxAttempts =
     (if attemptNo \<le> 0 \<or> maxAttempts < attemptNo
         \<or> int (length (msg_ProviderChannels message)) < attemptNo then None
      else
        let channelCode = msg_ProviderChannels message ! nat (attemptNo - 1)
        in if channelCode = [] then None else Some channelCode)"

definition hasProviderChannelForAttempt :: "Message \<Rightarrow> int \<Rightarrow> int \<Rightarrow> bool" where
  "hasProviderChannelForAttempt message attemptNo maxAttempts \<longleftrightarrow>
     providerChannelForAttempt message attemptNo maxAttempts \<noteq> None"

text \<open>An unresolved channel is \<open>None\<close>.\<close>

definition hasRuntimeAttemptMetadata :: "string \<Rightarrow> 's ProviderChannelRuntime option \<Rightarrow> bool" where
  "hasRuntimeAttemptMetadata channelCode runtime =
     (case runtime of
        None \<Rightarrow> False
      | Some rt \<Rightarrow>
          channelCode \<noteq> [] \<and> acct_Code (rt_Account rt) \<noteq> [] \<and> chan_Code (rt_Channel rt) = channelCode
          \<and> chan_Account (rt_Channel rt) = acct_Code (rt_Account rt)
          \<and> Provider_IsValid (acct_Provider (rt_Account rt))
          \<and> Transport_IsValid (chan_Transport (rt_Channel rt)))"

definition zero_Attempt :: Attempt where
  "zero_Attempt = \<lparr>att_MessageID = [], att_AppCode = [], att_AttemptNo = 0,
     att_Provider = NoProvider, att_ProviderAccountCode = [], att_ProviderChannelCode = [],
     att_Transport = NoTransport, att_Status = NoAttemptStatus, att_FailureClass = FailureClassNone,
     att_ErrorCode = NoErrorCode, att_ErrorMessage = [], att_ProviderMessageID = [],
     att_DurationMS = 0\<rparr>"

definition attemptBase ::
    "Message \<Rightarrow> int \<Rightarrow> string \<Rightarrow> 's ProviderChannelRuntime option \<Rightarrow> Attempt \<times> bool" where
  "attemptBase message attemptNo channelCode runtime =
     (if channelCode = [] then (zero_Attempt, False)
      else
        let (accountCode, provider, transport) =
          (case runtime of
             Some rt \<Rightarrow>
               if hasRuntimeAttemptMetadata channelCode runtime
               then (acct_Code (rt_Account rt), acct_Provider (rt_Account rt), chan_Transport (rt_Channel rt))
               else ([], NoProvider, NoTransport)
           | None \<Rightarrow> ([], NoProvider, NoTransport))
        in (zero_Attempt\<lparr>att_MessageID := msg_MessageID message, att_AppCode := msg_AppCode message,
              att_AttemptNo := attemptNo, att_Provider := provider,
              att_ProviderAccountCode := accountCode, att_ProviderChannelCode := channelCode,
              att_Transport := transport\<rparr>, True))"

definition hasCompleteAttemptMetadata :: "Attempt \<Rightarrow> bool" where
  "hasCompleteAttemptMetadata attempt \<longleftrightarrow>
     Provider_IsValid (att_Provider attempt) \<and> att_ProviderAccountCode attempt \<noteq> []
     \<and> Transport_IsValid (att_Transport attempt)"

text \<open>The loop that looks for the start of the rune at the limit.\<close>

fun rune_start_before :: "string \<Rightarrow> nat \<Rightarrow> nat" where
  "rune_start_before message 0 = 0"
| "rune_start_before message (Suc end) =
     (if RuneStart (message ! Suc end) then Suc end else rune_start_before message end)"

definition safeErrorMessage :: "string \<Rightarrow> string" where
  "safeErrorMessage message =
     (let message = ToValidUTF8 message
      in if length message \<le> 256 then message else take (rune_start_before message 256) message)"

definition attemptWithStatus ::
    "Attempt \<Rightarrow> AttemptStatus \<Rightarrow> FailureClass \<Rightarrow> ErrorCode \<Rightarrow> string \<Rightarrow> string \<Rightarrow> int \<Rightarrow> Attempt" where
  "attemptWithStatus attempt status failureClass errorCode errorMessage providerMessageID durationMS =
     attempt\<lparr>att_Status := status, att_FailureClass := failureClass, att_ErrorCode := errorCode,
             att_ErrorMessage := safeErrorMessage errorMessage,
             att_ProviderMessageID := providerMessageID, att_DurationMS := durationMS\<rparr>"

definition messageWithStatus :: "Message \<Rightarrow> MessageStatus \<Rightarrow> ErrorCode \<Rightarrow> string \<Rightarrow> Message" where
  "messageWithStatus message status errorCode errorMessage =
     message\<lparr>msg_Status := status, msg_ErrorCode := errorCode,
             msg_ErrorMessage := safeErrorMessage errorMessage\<rparr>"

definition normalizedFailure :: "SendResult \<Rightarrow> FailedResult" where
  "normalizedFailure result =
     (case sr_Failed result of
        None \<Rightarrow> \<lparr>fr_FailureClass = FailureClassTemporary, fr_ErrorCode = ErrorCodeProviderUnavailable,
                 fr_ErrorMessage = ''provider request failed''\<rparr>
      | Some f \<Rightarrow>
          if \<not> FailureClass_IsValid (fr_FailureClass f) \<or> fr_FailureClass f = FailureClassNone then
            \<lparr>fr_FailureClass = FailureClassTemporary, fr_ErrorCode = ErrorCodeProviderUnavailable,
             fr_ErrorMessage = ''provider request failed''\<rparr>
          else
            \<lparr>fr_FailureClass = fr_FailureClass f,
             fr_ErrorCode = (if fr_ErrorCode f = NoErrorCode then ErrorCodeProviderUnavailable
                             else fr_ErrorCode f),
             fr_ErrorMessage = (if fr_ErrorMessage f = [] then ''provider request failed''
                                else fr_ErrorMessage f)\<rparr>)"

definition retryScheduleFailureCode :: "go_error \<Rightarrow> ErrorCode" where
  "retryScheduleFailureCode e =
     (case root_error e of QueueFullError _ \<Rightarrow> ErrorCodeQueueFull | _ \<Rightarrow> ErrorCodeInternal)"

text \<open>\<open>Sub\<close> of two times saturates; the sum wraps.\<close>

definition time_Sub :: "go_time \<Rightarrow> go_time \<Rightarrow> duration" where
  "time_Sub t u = max (- (2 ^ 63)) (min (2 ^ 63 - 1) (t - u))"

definition roundedDurationMS :: "duration \<Rightarrow> int" where
  "roundedDurationMS d = (if d \<le> 0 then 0 else quot (int64 (d + 500 * Microsecond)) Millisecond)"

definition retryDelay :: "int list \<Rightarrow> int \<Rightarrow> int \<Rightarrow> duration" where
  "retryDelay retryBackoff nextAttempt retryAfterSeconds =
     (let backoffIndex = nextAttempt - 1;
          backoffSeconds = (if 0 \<le> backoffIndex \<and> backoffIndex < int (length retryBackoff)
                            then retryBackoff ! nat backoffIndex else 0);
          retryAfter = (if maxRetryAfterSeconds < retryAfterSeconds then maxRetryAfterSeconds
                        else retryAfterSeconds);
          delaySeconds = (if backoffSeconds < retryAfter then retryAfter else backoffSeconds);
          delaySeconds = (if maxRetryAfterSeconds < delaySeconds then maxRetryAfterSeconds
                          else delaySeconds)
      in int64 (delaySeconds * Second))"

section \<open>Processing a task\<close>

text \<open>\<open>if b { ... }\<close> as a statement.\<close>

definition only_if :: "bool \<Rightarrow> ('s, unit) state \<Rightarrow> ('s, unit) state" where
  "only_if b m = (if b then m else State_Monad.return ())"

definition report :: "'s Worker \<Rightarrow> unit result \<Rightarrow> ('s, unit) state" where
  "report w r = (case r of Inl e \<Rightarrow> w_handleAsyncError w e | Inr _ \<Rightarrow> State_Monad.return ())"

definition appendMessage :: "'s Worker \<Rightarrow> Message \<Rightarrow> ('s, unit) state" where
  "appendMessage w message =
     do { r \<leftarrow> wl_AppendMessage (w_messageLog w) message; report w r }"

definition appendAttempt :: "'s Worker \<Rightarrow> Attempt \<Rightarrow> ('s, unit) state" where
  "appendAttempt w attempt =
     do { r \<leftarrow> wl_AppendAttempt (w_messageLog w) attempt; report w r }"

definition recordMessageStat :: "'s Worker \<Rightarrow> Message \<Rightarrow> string \<Rightarrow> ('s, unit) state" where
  "recordMessageStat w message metric =
     do { _ \<leftarrow> w_stats w \<lparr>st_Timestamp = zero_time, st_AppCode = msg_AppCode message,
            st_SceneCode = msg_SceneCode message, st_ProviderChannelCode = [],
            st_Transport = NoTransport, st_Metric = metric, st_Value = Finite 1\<rparr>;
          State_Monad.return () }"

definition recordAttemptStats ::
    "'s Worker \<Rightarrow> Message \<Rightarrow> string \<Rightarrow> ProviderChannel \<Rightarrow> string \<Rightarrow> int \<Rightarrow> ('s, unit) state" where
  "recordAttemptStats w message channelCode channel metric durationMS =
     do { _ \<leftarrow> w_stats w \<lparr>st_Timestamp = zero_time, st_AppCode = msg_AppCode message,
            st_SceneCode = msg_SceneCode message, st_ProviderChannelCode = channelCode,
            st_Transport = chan_Transport channel, st_Metric = metric, st_Value = Finite 1\<rparr>;
          _ \<leftarrow> w_stats w \<lparr>st_Timestamp = zero_time, st_AppCode = msg_AppCode message,
            st_SceneCode = msg_SceneCode message, st_ProviderChannelCode = channelCode,
            st_Transport = chan_Transport channel, st_Metric = MetricProviderDurationMS,
            st_Value = float64_of_int durationMS\<rparr>;
          State_Monad.return () }"

definition appendFinalFailure :: "'s Worker \<Rightarrow> Message \<Rightarrow> ErrorCode \<Rightarrow> string \<Rightarrow> ('s, unit result) state"
where
  "appendFinalFailure w message code errorMessage =
     do { appendMessage w (messageWithStatus message MessageStatusFailed code errorMessage);
          recordMessageStat w message MetricMessagesFailed;
          State_Monad.return (Inr ()) }"

definition sendThroughProvider ::
    "'s Worker \<Rightarrow> QueueTask \<Rightarrow> string \<Rightarrow> 's ProviderChannelRuntime option \<Rightarrow> ('s, SendResult) state"
where
  "sendThroughProvider w task channelCode runtime =
     (let unavailable = State_Monad.return
            (ChannelFailure ErrorCodeProviderUnavailable ''provider channel unavailable'')
      in case runtime of
           None \<Rightarrow> unavailable
         | Some rt \<Rightarrow>
             (case rt_Provider rt of
                None \<Rightarrow> unavailable
              | Some send \<Rightarrow>
                  if \<not> hasRuntimeAttemptMetadata channelCode runtime
                     \<or> \<not> chan_Enabled (rt_Channel rt) \<or> \<not> acct_Enabled (rt_Account rt)
                  then unavailable
                  else do {
                    r \<leftarrow> send (w_providerTimeout w)
                      \<lparr>sq_Message = task_Message task, sq_Account = rt_Account rt,
                       sq_Channel = rt_Channel rt, sq_Attempt = task_AttemptNo task\<rparr>;
                    State_Monad.return
                      (case r of
                         Inl _ \<Rightarrow> TemporaryFailure ErrorCodeProviderUnavailable ''provider request failed''
                       | Inr result \<Rightarrow> result) }))"

text \<open>\<open>zero_channel\<close> is the channel of an unresolved runtime.\<close>

definition zero_channel :: ProviderChannel where
  "zero_channel = \<lparr>chan_Code = [], chan_Account = [], chan_Transport = NoTransport,
     chan_Enabled = False, chan_SenderDomain = [], chan_FromName = [], chan_From = [],
     chan_SMTP = None\<rparr>"

definition runtime_channel :: "'s ProviderChannelRuntime option \<Rightarrow> ProviderChannel" where
  "runtime_channel runtime = (case runtime of None \<Rightarrow> zero_channel | Some rt \<Rightarrow> rt_Channel rt)"

text \<open>\<open>ProcessTask\<close> once the result is known: the accepted branch, the retry, and what follows a failure.\<close>

definition finish_accepted ::
    "'s Worker \<Rightarrow> QueueTask \<Rightarrow> string \<Rightarrow> ProviderChannel \<Rightarrow> Attempt \<Rightarrow> bool \<Rightarrow> string \<Rightarrow> int
     \<Rightarrow> ('s, unit result) state" where
  "finish_accepted w task channelCode channel attempt logProviderStats providerMessageID durationMS =
     do { only_if logProviderStats
            (appendAttempt w (attemptWithStatus attempt AttemptStatusSent FailureClassNone
               NoErrorCode [] providerMessageID durationMS));
          appendMessage w (messageWithStatus (task_Message task) MessageStatusSent NoErrorCode []);
          only_if logProviderStats
            (recordAttemptStats w (task_Message task) channelCode channel MetricAttemptsSent durationMS);
          recordMessageStat w (task_Message task) MetricMessagesSent;
          State_Monad.return (Inr ()) }"

definition schedule_retry ::
    "'s Worker \<Rightarrow> QueueTask \<Rightarrow> int \<Rightarrow> int \<Rightarrow> FailedResult \<Rightarrow> ('s, unit result) state" where
  "schedule_retry w task nextAttempt retryAfterSeconds failed =
     do { appendMessage w (messageWithStatus (task_Message task) MessageStatusRetrying
            (fr_ErrorCode failed) (fr_ErrorMessage failed));
          r \<leftarrow> wq_EnqueueDelayed (w_queue w) (task\<lparr>task_AttemptNo := nextAttempt\<rparr>)
                 (retryDelay (w_retryBackoff w) nextAttempt retryAfterSeconds);
          case r of
            Inl e \<Rightarrow>
              do { appendMessage w (messageWithStatus (task_Message task) MessageStatusFailed
                     (retryScheduleFailureCode e) ''retry enqueue failed'');
                   recordMessageStat w (task_Message task) MetricMessagesFailed;
                   State_Monad.return (Inl (Wrapf (''enqueue retry attempt '' @ Itoa nextAttempt
                     @ '' for message '' @ msg_MessageID (task_Message task)) e)) }
          | Inr _ \<Rightarrow> State_Monad.return (Inr ()) }"

definition log_failure ::
    "'s Worker \<Rightarrow> QueueTask \<Rightarrow> string \<Rightarrow> ProviderChannel \<Rightarrow> Attempt \<Rightarrow> bool \<Rightarrow> bool \<Rightarrow> FailedResult \<Rightarrow> int
     \<Rightarrow> ('s, unit) state" where
  "log_failure w task channelCode channel attempt logAttempt logProviderStats failed durationMS =
     only_if logAttempt (do {
       appendAttempt w (attemptWithStatus attempt AttemptStatusFailed (fr_FailureClass failed)
         (fr_ErrorCode failed) (fr_ErrorMessage failed) [] durationMS);
       only_if logProviderStats
         (recordAttemptStats w (task_Message task) channelCode channel MetricAttemptsFailed durationMS) })"

definition after_failure ::
    "'s Worker \<Rightarrow> QueueTask \<Rightarrow> int \<Rightarrow> FailedResult \<Rightarrow> ('s, unit result) state" where
  "after_failure w task retryAfterSeconds failed =
     (let nextAttempt = task_AttemptNo task + 1
      in if fr_FailureClass failed = FailureClassMessagePermanent
         then appendFinalFailure w (task_Message task) (fr_ErrorCode failed) (fr_ErrorMessage failed)
         else if \<not> hasProviderChannelForAttempt (task_Message task) nextAttempt (w_maxAttempts w)
         then appendFinalFailure w (task_Message task) ErrorCodeProviderUnavailable
                ''provider unavailable''
         else schedule_retry w task nextAttempt retryAfterSeconds failed)"

definition finish_failed ::
    "'s Worker \<Rightarrow> QueueTask \<Rightarrow> string \<Rightarrow> ProviderChannel \<Rightarrow> Attempt \<Rightarrow> bool \<Rightarrow> bool \<Rightarrow> SendResult \<Rightarrow> int
     \<Rightarrow> ('s, unit result) state" where
  "finish_failed w task channelCode channel attempt logAttempt logProviderStats result durationMS =
     do { let failed = normalizedFailure result;
          log_failure w task channelCode channel attempt logAttempt logProviderStats failed durationMS;
          after_failure w task (sr_RetryAfterSeconds result) failed }"

definition numbered :: "QueueTask \<Rightarrow> QueueTask" where
  "numbered task = (if task_AttemptNo task \<le> 0 then task\<lparr>task_AttemptNo := 1\<rparr> else task)"

definition ProcessTask :: "'s Worker \<Rightarrow> QueueTask \<Rightarrow> ('s, unit result) state" where
  "ProcessTask w queued =
     (let task = numbered queued; message = task_Message task
      in case providerChannelForAttempt message (task_AttemptNo task) (w_maxAttempts w) of
           None \<Rightarrow> appendFinalFailure w message ErrorCodeProviderUnavailable ''provider unavailable''
         | Some channelCode \<Rightarrow>
             let runtime = w_resolver w channelCode;
                 (attempt, logAttempt) = attemptBase message (task_AttemptNo task) channelCode runtime;
                 logProviderStats = (logAttempt \<and> hasCompleteAttemptMetadata attempt)
             in do {
               appendMessage w (messageWithStatus message MessageStatusSending NoErrorCode []);
               only_if logProviderStats
                 (appendAttempt w (attemptWithStatus attempt AttemptStatusSending FailureClassNone
                    NoErrorCode [] [] 0));
               startedAt \<leftarrow> w_now w;
               result \<leftarrow> sendThroughProvider w task channelCode runtime;
               finished \<leftarrow> w_now w;
               let durationMS = roundedDurationMS (time_Sub finished startedAt);
               if IsAccepted result
               then finish_accepted w task channelCode (runtime_channel runtime) attempt logProviderStats
                      (ar_ProviderMessageID (the (sr_Accepted result))) durationMS
               else finish_failed w task channelCode (runtime_channel runtime) attempt logAttempt
                      logProviderStats result durationMS })"

text \<open>
  One round of \<open>runOne\<close>: it ends (\<open>True\<close>) when the queue gives an error and is closed or the context
  has ended (\<open>stopped\<close>).
\<close>

definition runOne_round :: "'s Worker \<Rightarrow> ('s \<Rightarrow> bool) \<Rightarrow> ('s, bool) state" where
  "runOne_round w stopped =
     do { r \<leftarrow> wq_Dequeue (w_queue w);
          ctx \<leftarrow> State_Monad.get;
          case r of
            Inl e \<Rightarrow>
              if stopped ctx \<or> root_error e = ErrMemoryQueueClosed then State_Monad.return True
              else do { w_handleAsyncError w e; State_Monad.return False }
          | Inr task \<Rightarrow>
              do { res \<leftarrow> ProcessTask w task; report w res; State_Monad.return False } }"

text \<open>The loop of \<open>runOne\<close> for at most \<open>n\<close> rounds; \<open>True\<close> when it has returned.\<close>

fun runOne :: "nat \<Rightarrow> 's Worker \<Rightarrow> ('s \<Rightarrow> bool) \<Rightarrow> ('s, bool) state" where
  "runOne 0 w stopped = State_Monad.return False"
| "runOne (Suc n) w stopped =
     do { ended \<leftarrow> runOne_round w stopped;
          if ended then State_Monad.return True else runOne n w stopped }"

section \<open>Observing a worker\<close>

text \<open>
  What a worker does through its interfaces, with the answers of the provider and the queue; and a
  worker that notes it down in a second component of the state.
\<close>

datatype effect =
    Ef_message Message
  | Ef_attempt Attempt
  | Ef_send SendRequest "SendResult result"
  | Ef_enqueue QueueTask duration bool
  | Ef_stat StatsRecord

definition logged :: "('a \<Rightarrow> effect list) \<Rightarrow> ('s, 'a) state \<Rightarrow> ('s \<times> effect list, 'a) state" where
  "logged f m = State (\<lambda>(s, es). case run_state m s of (x, s') \<Rightarrow> (x, (s', es @ f x)))"

definition observe_runtime :: "'s ProviderChannelRuntime \<Rightarrow> ('s \<times> effect list) ProviderChannelRuntime"
where
  "observe_runtime rt =
     \<lparr>rt_Account = rt_Account rt, rt_Channel = rt_Channel rt,
      rt_Provider = map_option (\<lambda>send d q. logged (\<lambda>r. [Ef_send q r]) (send d q)) (rt_Provider rt)\<rparr>"

definition observe :: "'s Worker \<Rightarrow> ('s \<times> effect list) Worker" where
  "observe w =
     \<lparr>w_queue =
        \<lparr>wq_Dequeue = logged (\<lambda>_. []) (wq_Dequeue (w_queue w)),
         wq_EnqueueDelayed = (\<lambda>t d. logged (\<lambda>r. [Ef_enqueue t d (\<not> isl r)])
           (wq_EnqueueDelayed (w_queue w) t d))\<rparr>,
      w_messageLog =
        \<lparr>wl_AppendMessage = (\<lambda>m. logged (\<lambda>_. [Ef_message m]) (wl_AppendMessage (w_messageLog w) m)),
         wl_AppendAttempt = (\<lambda>a. logged (\<lambda>_. [Ef_attempt a]) (wl_AppendAttempt (w_messageLog w) a))\<rparr>,
      w_stats = (\<lambda>r. logged (\<lambda>_. [Ef_stat r]) (w_stats w r)),
      w_resolver = (\<lambda>c. map_option observe_runtime (w_resolver w c)),
      w_maxAttempts = w_maxAttempts w, w_retryBackoff = w_retryBackoff w,
      w_providerTimeout = w_providerTimeout w, w_concurrency = w_concurrency w,
      w_now = logged (\<lambda>_. []) (w_now w),
      w_handleAsyncError = (\<lambda>e. logged (\<lambda>_. []) (w_handleAsyncError w e))\<rparr>"

lemma observe_fields [simp]:
  "w_maxAttempts (observe w) = w_maxAttempts w" "w_retryBackoff (observe w) = w_retryBackoff w"
  "w_providerTimeout (observe w) = w_providerTimeout w"
  "w_resolver (observe w) c = map_option observe_runtime (w_resolver w c)"
  by (simp_all add: observe_def)

lemma observe_runtime_fields [simp]:
  "rt_Account (observe_runtime rt) = rt_Account rt" "rt_Channel (observe_runtime rt) = rt_Channel rt"
  by (simp_all add: observe_runtime_def)

lemma observe_metadata [simp]:
  "hasRuntimeAttemptMetadata c (map_option observe_runtime rt) = hasRuntimeAttemptMetadata c rt"
  "runtime_channel (map_option observe_runtime rt) = runtime_channel rt"
  "attemptBase m n c (map_option observe_runtime rt) = attemptBase m n c rt"
  by (cases rt; simp add: hasRuntimeAttemptMetadata_def runtime_channel_def attemptBase_def)+

subsection \<open>Rules for what an action notes down\<close>

text \<open>
  \<open>yields m' m P\<close>: \<open>m'\<close> is \<open>m\<close> with notes: in every state they return the same \<open>x\<close> and reach the same
  state, and \<open>m'\<close> notes some \<open>es\<close> with \<open>P x es\<close>.
\<close>

definition yields ::
    "('s \<times> effect list, 'a) state \<Rightarrow> ('s, 'a) state \<Rightarrow> ('a \<Rightarrow> effect list \<Rightarrow> bool) \<Rightarrow> bool" where
  "yields m' m P \<longleftrightarrow> (\<forall>s es. \<exists>x s' es'. run_state m' (s, es) = (x, (s', es @ es'))
     \<and> run_state m s = (x, s') \<and> P x es')"

lemma yields_return: "P x [] \<Longrightarrow> yields (State_Monad.return x) (State_Monad.return x) P"
  by (simp add: yields_def)

lemma yields_logged: "(\<And>x. P x (f x)) \<Longrightarrow> yields (logged f m) m P"
  by (auto simp: yields_def logged_def split: prod.split)

lemma yields_conseq: "yields m' m P \<Longrightarrow> (\<And>x es. P x es \<Longrightarrow> Q x es) \<Longrightarrow> yields m' m Q"
  unfolding yields_def by metis

lemma yields_bind:
  assumes "yields m' m P" and "\<And>x es. P x es \<Longrightarrow> yields (f' x) (f x) (\<lambda>y es'. Q y (es @ es'))"
  shows "yields (State_Monad.bind m' f') (State_Monad.bind m f) Q"
  unfolding yields_def
proof (intro allI)
  fix s es
  obtain x s1 es1 where m: "run_state m' (s, es) = (x, (s1, es @ es1))" "run_state m s = (x, s1)" "P x es1"
    using assms(1) unfolding yields_def by blast
  obtain y s2 es2 where "run_state (f' x) (s1, es @ es1) = (y, (s2, (es @ es1) @ es2))"
      "run_state (f x) s1 = (y, s2)" "Q y (es1 @ es2)"
    using assms(2) [OF m(3)] unfolding yields_def by blast
  then show "\<exists>y s' es'. run_state (State_Monad.bind m' f') (s, es) = (y, (s', es @ es'))
      \<and> run_state (State_Monad.bind m f) s = (y, s') \<and> Q y es'"
    using m(1,2) by auto
qed

lemma yields_only_if:
  "(b \<Longrightarrow> yields m' m P) \<Longrightarrow> (\<not> b \<Longrightarrow> P () []) \<Longrightarrow> yields (only_if b m') (only_if b m) P"
  by (cases b) (simp_all add: only_if_def yields_return)

lemma yields_report: "P () [] \<Longrightarrow> yields (report (observe w) r) (report w r) P"
  by (cases r) (auto simp: report_def observe_def intro: yields_return yields_logged)

lemma yields_appendMessage:
  "P () [Ef_message m] \<Longrightarrow> yields (appendMessage (observe w) m) (appendMessage w m) P"
  unfolding appendMessage_def
  by (rule yields_bind [where P = "\<lambda>_ es. es = [Ef_message m]"])
    (auto simp: observe_def [of w] intro: yields_logged yields_report [of _ w, unfolded observe_def])

lemma yields_appendAttempt:
  "P () [Ef_attempt a] \<Longrightarrow> yields (appendAttempt (observe w) a) (appendAttempt w a) P"
  unfolding appendAttempt_def
  by (rule yields_bind [where P = "\<lambda>_ es. es = [Ef_attempt a]"])
    (auto simp: observe_def [of w] intro: yields_logged yields_report [of _ w, unfolded observe_def])

lemma yields_stats: "(\<And>x. P x [Ef_stat r]) \<Longrightarrow> yields (w_stats (observe w) r) (w_stats w r) P"
  by (simp add: observe_def yields_logged)

lemma yields_stats_bind:
  "yields m' m (\<lambda>y es. Q y (Ef_stat r # es)) \<Longrightarrow>
     yields (State_Monad.bind (w_stats (observe w) r) (\<lambda>_. m'))
       (State_Monad.bind (w_stats w r) (\<lambda>_. m)) Q"
  by (rule yields_bind [where P = "\<lambda>_ es. es = [Ef_stat r]"]) (auto intro: yields_stats)

lemma yields_now: "(\<And>x. P x []) \<Longrightarrow> yields (w_now (observe w)) (w_now w) P"
  by (simp add: observe_def yields_logged)

lemma yields_enqueue:
  "(\<And>x. P x [Ef_enqueue t d (\<not> isl x)]) \<Longrightarrow>
     yields (wq_EnqueueDelayed (w_queue (observe w)) t d) (wq_EnqueueDelayed (w_queue w) t d) P"
  by (simp add: observe_def yields_logged)

text \<open>The notes by kind.\<close>

fun messages_of :: "effect list \<Rightarrow> Message list" where
  "messages_of [] = []"
| "messages_of (e # es) = (case e of Ef_message m \<Rightarrow> m # messages_of es | _ \<Rightarrow> messages_of es)"

fun attempts_of :: "effect list \<Rightarrow> Attempt list" where
  "attempts_of [] = []"
| "attempts_of (e # es) = (case e of Ef_attempt a \<Rightarrow> a # attempts_of es | _ \<Rightarrow> attempts_of es)"

fun sends_of :: "effect list \<Rightarrow> (SendRequest \<times> SendResult result) list" where
  "sends_of [] = []"
| "sends_of (e # es) = (case e of Ef_send q r \<Rightarrow> (q, r) # sends_of es | _ \<Rightarrow> sends_of es)"

fun enqueues_of :: "effect list \<Rightarrow> (QueueTask \<times> duration \<times> bool) list" where
  "enqueues_of [] = []"
| "enqueues_of (e # es) =
     (case e of Ef_enqueue t d ok \<Rightarrow> (t, d, ok) # enqueues_of es | _ \<Rightarrow> enqueues_of es)"

fun stats_of :: "effect list \<Rightarrow> StatsRecord list" where
  "stats_of [] = []"
| "stats_of (e # es) = (case e of Ef_stat r \<Rightarrow> r # stats_of es | _ \<Rightarrow> stats_of es)"

lemma notes_append [simp]:
  "messages_of (es @ fs) = messages_of es @ messages_of fs"
  "attempts_of (es @ fs) = attempts_of es @ attempts_of fs"
  "sends_of (es @ fs) = sends_of es @ sends_of fs"
  "enqueues_of (es @ fs) = enqueues_of es @ enqueues_of fs"
  "stats_of (es @ fs) = stats_of es @ stats_of fs"
  by (induction es) (auto split: effect.split)

text \<open>The part of the trace about the message: its statuses, the calls of a provider, the retries.\<close>

definition statuses_of :: "effect list \<Rightarrow> MessageStatus list" where
  "statuses_of es = map msg_Status (messages_of es)"

definition message_stat :: "Message \<Rightarrow> string \<Rightarrow> effect" where
  "message_stat m metric = Ef_stat \<lparr>st_Timestamp = zero_time, st_AppCode = msg_AppCode m,
     st_SceneCode = msg_SceneCode m, st_ProviderChannelCode = [], st_Transport = NoTransport,
     st_Metric = metric, st_Value = Finite 1\<rparr>"

text \<open>An action that notes only statistics.\<close>

lemma yields_recordMessageStat:
  "P () [message_stat m metric] \<Longrightarrow> yields (recordMessageStat (observe w) m metric) (recordMessageStat w m metric) P"
  unfolding recordMessageStat_def
  by (rule yields_stats_bind, rule yields_return) (simp add: message_stat_def)

definition attempt_stats :: "Message \<Rightarrow> string \<Rightarrow> Transport \<Rightarrow> string \<Rightarrow> int \<Rightarrow> effect list" where
  "attempt_stats m c t metric durationMS =
     map (\<lambda>(name, v). Ef_stat \<lparr>st_Timestamp = zero_time, st_AppCode = msg_AppCode m,
        st_SceneCode = msg_SceneCode m, st_ProviderChannelCode = c, st_Transport = t,
        st_Metric = name, st_Value = v\<rparr>)
      [(metric, Finite 1), (MetricProviderDurationMS, float64_of_int durationMS)]"

lemma yields_recordAttemptStats:
  "P () (attempt_stats m c (chan_Transport ch) metric d) \<Longrightarrow>
   yields (recordAttemptStats (observe w) m c ch metric d) (recordAttemptStats w m c ch metric d) P"
  unfolding recordAttemptStats_def
  by (rule yields_stats_bind, rule yields_stats_bind, rule yields_return) (simp add: attempt_stats_def)

text \<open>Sequencing, read backwards.\<close>

lemma yields_then:
  "yields m' m (\<lambda>x es. yields (f' x) (f x) (\<lambda>y es'. Q y (es @ es'))) \<Longrightarrow>
     yields (State_Monad.bind m' f') (State_Monad.bind m f) Q"
  by (rule yields_bind)

subsection \<open>What a round does\<close>

definition final_failure :: "Message \<Rightarrow> ErrorCode \<Rightarrow> string \<Rightarrow> effect list" where
  "final_failure m code errorMessage =
     [Ef_message (messageWithStatus m MessageStatusFailed code errorMessage),
      message_stat m MetricMessagesFailed]"

lemma yields_final_failure:
  "P (Inr ()) (final_failure m code errorMessage) \<Longrightarrow>
     yields (appendFinalFailure (observe w) m code errorMessage)
       (appendFinalFailure w m code errorMessage) P"
  unfolding appendFinalFailure_def
  by (rule yields_then, rule yields_appendMessage, rule yields_then, rule yields_recordMessageStat,
      rule yields_return) (simp add: final_failure_def)

text \<open>The call of the provider: none, and the channel counts as failed, or one with its answer.\<close>

definition sending :: "'s Worker \<Rightarrow> QueueTask \<Rightarrow> string \<Rightarrow> SendResult \<Rightarrow> effect list \<Rightarrow> bool" where
  "sending w task c result es \<longleftrightarrow>
     (es = [] \<and> result = ChannelFailure ErrorCodeProviderUnavailable ''provider channel unavailable'')
     \<or> (\<exists>q r rt. es = [Ef_send q r] \<and> w_resolver w c = Some rt \<and> hasRuntimeAttemptMetadata c (Some rt)
          \<and> sq_Message q = task_Message task \<and> sq_Attempt q = task_AttemptNo task
          \<and> sq_Account q = rt_Account rt \<and> sq_Channel q = rt_Channel rt
          \<and> chan_Enabled (rt_Channel rt) \<and> acct_Enabled (rt_Account rt)
          \<and> result = (case r of
               Inl _ \<Rightarrow> TemporaryFailure ErrorCodeProviderUnavailable ''provider request failed''
             | Inr result \<Rightarrow> result))"

lemma yields_send:
  "(\<And>result es. sending w task c result es \<Longrightarrow> P result es) \<Longrightarrow>
     yields (sendThroughProvider (observe w) task c (w_resolver (observe w) c))
       (sendThroughProvider w task c (w_resolver w c)) P"
proof (cases "w_resolver w c")
  case None
  assume P: "\<And>result es. sending w task c result es \<Longrightarrow> P result es"
  show ?thesis
    by (simp add: sendThroughProvider_def None) (rule yields_return, rule P, simp add: sending_def)
next
  case (Some rt)
  assume P: "\<And>result es. sending w task c result es \<Longrightarrow> P result es"
  have none: "P (ChannelFailure ErrorCodeProviderUnavailable ''provider channel unavailable'') []"
    by (rule P) (simp add: sending_def)
  show ?thesis
  proof (cases "rt_Provider rt")
    case None
    then show ?thesis
      by (simp add: sendThroughProvider_def Some observe_runtime_def yields_return none)
  next
    case send: (Some send)
    have meta: "hasRuntimeAttemptMetadata c (Some (observe_runtime rt)) = hasRuntimeAttemptMetadata c (Some rt)"
      using observe_metadata(1) [of c "Some rt"] by simp
    have prov: "rt_Provider (observe_runtime rt) = Some (\<lambda>d q. logged (\<lambda>r. [Ef_send q r]) (send d q))"
      by (simp add: observe_runtime_def send)
    show ?thesis
    proof (cases "hasRuntimeAttemptMetadata c (Some rt) \<and> chan_Enabled (rt_Channel rt) \<and> acct_Enabled (rt_Account rt)")
      case True
      show ?thesis
        unfolding sendThroughProvider_def Some observe_fields option.map option.case prov send Let_def meta
          observe_runtime_fields
        using True
        by (simp, intro yields_then yields_logged yields_return P)
          (auto simp: sending_def Some)
    next
      case False
      then show ?thesis
        unfolding sendThroughProvider_def Some observe_fields option.map option.case prov send Let_def meta
          observe_runtime_fields
        by (auto simp: yields_return none)
    qed
  qed
qed

definition base_attempt :: "'s Worker \<Rightarrow> QueueTask \<Rightarrow> string \<Rightarrow> Attempt" where
  "base_attempt w task c = fst (attemptBase (task_Message task) (task_AttemptNo task) c (w_resolver w c))"

definition metadata_complete :: "'s Worker \<Rightarrow> string \<Rightarrow> bool" where
  "metadata_complete w c \<longleftrightarrow> hasRuntimeAttemptMetadata c (w_resolver w c)"

lemma attemptBase_complete:
  "c \<noteq> [] \<Longrightarrow> attemptBase (task_Message task) (task_AttemptNo task) c (w_resolver w c)
     = (base_attempt w task c, True)
   \<and> hasCompleteAttemptMetadata (base_attempt w task c) = metadata_complete w c"
  by (cases "w_resolver w c")
    (auto simp: base_attempt_def attemptBase_def metadata_complete_def hasCompleteAttemptMetadata_def
      zero_Attempt_def hasRuntimeAttemptMetadata_def Provider_IsValid.simps)

definition opening_notes :: "'s Worker \<Rightarrow> QueueTask \<Rightarrow> string \<Rightarrow> effect list" where
  "opening_notes w task c =
     Ef_message (messageWithStatus (task_Message task) MessageStatusSending NoErrorCode [])
     # (if metadata_complete w c
        then [Ef_attempt (attemptWithStatus (base_attempt w task c) AttemptStatusSending
                FailureClassNone NoErrorCode [] [] 0)]
        else [])"

definition sent_notes :: "'s Worker \<Rightarrow> QueueTask \<Rightarrow> string \<Rightarrow> SendResult \<Rightarrow> int \<Rightarrow> effect list" where
  "sent_notes w task c result d =
     [Ef_attempt (attemptWithStatus (base_attempt w task c) AttemptStatusSent FailureClassNone
        NoErrorCode [] (ar_ProviderMessageID (the (sr_Accepted result))) d),
      Ef_message (messageWithStatus (task_Message task) MessageStatusSent NoErrorCode [])]
     @ attempt_stats (task_Message task) c (chan_Transport (runtime_channel (w_resolver w c)))
         MetricAttemptsSent d
     @ [message_stat (task_Message task) MetricMessagesSent]"

definition failed_notes :: "'s Worker \<Rightarrow> QueueTask \<Rightarrow> string \<Rightarrow> FailedResult \<Rightarrow> int \<Rightarrow> effect list" where
  "failed_notes w task c failed d =
     Ef_attempt (attemptWithStatus (base_attempt w task c) AttemptStatusFailed (fr_FailureClass failed)
        (fr_ErrorCode failed) (fr_ErrorMessage failed) [] d)
     # (if metadata_complete w c
        then attempt_stats (task_Message task) c (chan_Transport (runtime_channel (w_resolver w c)))
               MetricAttemptsFailed d
        else [])"

definition retry_notes :: "'s Worker \<Rightarrow> QueueTask \<Rightarrow> SendResult \<Rightarrow> bool \<Rightarrow> effect list" where
  "retry_notes w task result ok =
     [Ef_message (messageWithStatus (task_Message task) MessageStatusRetrying
        (fr_ErrorCode (normalizedFailure result)) (fr_ErrorMessage (normalizedFailure result))),
      Ef_enqueue (task\<lparr>task_AttemptNo := task_AttemptNo task + 1\<rparr>)
        (retryDelay (w_retryBackoff w) (task_AttemptNo task + 1) (sr_RetryAfterSeconds result)) ok]"

text \<open>
  The rounds: no channel is left; the message was sent; it failed for good, or on its last channel;
  or it is to be retried on the next channel, which the queue may refuse.
\<close>

inductive round_trace :: "'s Worker \<Rightarrow> QueueTask \<Rightarrow> effect list \<Rightarrow> bool \<Rightarrow> bool"
  for w :: "'s Worker" and task :: QueueTask where
  no_channel:
    "providerChannelForAttempt (task_Message task) (task_AttemptNo task) (w_maxAttempts w) = None \<Longrightarrow>
     round_trace w task
       (final_failure (task_Message task) ErrorCodeProviderUnavailable ''provider unavailable'') True"
| sent:
    "providerChannelForAttempt (task_Message task) (task_AttemptNo task) (w_maxAttempts w) = Some c \<Longrightarrow>
     sending w task c result es \<Longrightarrow> IsAccepted result \<Longrightarrow> metadata_complete w c \<Longrightarrow>
     round_trace w task (opening_notes w task c @ es @ sent_notes w task c result d) True"
| permanent:
    "providerChannelForAttempt (task_Message task) (task_AttemptNo task) (w_maxAttempts w) = Some c \<Longrightarrow>
     sending w task c result es \<Longrightarrow> \<not> IsAccepted result \<Longrightarrow> failed = normalizedFailure result \<Longrightarrow>
     fr_FailureClass failed = FailureClassMessagePermanent \<Longrightarrow>
     round_trace w task (opening_notes w task c @ es @ failed_notes w task c failed d
       @ final_failure (task_Message task) (fr_ErrorCode failed) (fr_ErrorMessage failed)) True"
| exhausted:
    "providerChannelForAttempt (task_Message task) (task_AttemptNo task) (w_maxAttempts w) = Some c \<Longrightarrow>
     sending w task c result es \<Longrightarrow> \<not> IsAccepted result \<Longrightarrow> failed = normalizedFailure result \<Longrightarrow>
     fr_FailureClass failed \<noteq> FailureClassMessagePermanent \<Longrightarrow>
     providerChannelForAttempt (task_Message task) (task_AttemptNo task + 1) (w_maxAttempts w) = None \<Longrightarrow>
     round_trace w task (opening_notes w task c @ es @ failed_notes w task c failed d
       @ final_failure (task_Message task) ErrorCodeProviderUnavailable ''provider unavailable'') True"
| retried:
    "providerChannelForAttempt (task_Message task) (task_AttemptNo task) (w_maxAttempts w) = Some c \<Longrightarrow>
     sending w task c result es \<Longrightarrow> \<not> IsAccepted result \<Longrightarrow> failed = normalizedFailure result \<Longrightarrow>
     fr_FailureClass failed \<noteq> FailureClassMessagePermanent \<Longrightarrow>
     providerChannelForAttempt (task_Message task) (task_AttemptNo task + 1) (w_maxAttempts w) = Some c' \<Longrightarrow>
     round_trace w task (opening_notes w task c @ es @ failed_notes w task c failed d
       @ retry_notes w task result True) True"
| refused:
    "providerChannelForAttempt (task_Message task) (task_AttemptNo task) (w_maxAttempts w) = Some c \<Longrightarrow>
     sending w task c result es \<Longrightarrow> \<not> IsAccepted result \<Longrightarrow> failed = normalizedFailure result \<Longrightarrow>
     fr_FailureClass failed \<noteq> FailureClassMessagePermanent \<Longrightarrow>
     providerChannelForAttempt (task_Message task) (task_AttemptNo task + 1) (w_maxAttempts w) = Some c' \<Longrightarrow>
     round_trace w task (opening_notes w task c @ es @ failed_notes w task c failed d
       @ retry_notes w task result False
       @ final_failure (task_Message task) (retryScheduleFailureCode e) ''retry enqueue failed'') False"

lemma sending_accepted_complete: "sending w task c result es \<Longrightarrow> IsAccepted result \<Longrightarrow> metadata_complete w c"
  by (auto simp: sending_def IsAccepted_def ChannelFailure_def Failed_def metadata_complete_def)

lemma yields_finish_accepted:
  assumes "metadata_complete w c" and "P (Inr ()) (sent_notes w task c result d)"
  shows "yields
    (finish_accepted (observe w) task c (runtime_channel (w_resolver w c)) (base_attempt w task c) True
       (ar_ProviderMessageID (the (sr_Accepted result))) d)
    (finish_accepted w task c (runtime_channel (w_resolver w c)) (base_attempt w task c) True
       (ar_ProviderMessageID (the (sr_Accepted result))) d) P"
  unfolding finish_accepted_def only_if_def if_True
  by (rule yields_then, rule yields_appendAttempt, rule yields_then, rule yields_appendMessage,
      rule yields_then, rule yields_recordAttemptStats, rule yields_then, rule yields_recordMessageStat,
      rule yields_return) (use assms in \<open>simp add: sent_notes_def\<close>)

lemma yields_schedule_retry:
  assumes "P (Inr ()) (retry_notes w task result True)"
    and "\<And>e e'. P (Inl e') (retry_notes w task result False
          @ final_failure (task_Message task) (retryScheduleFailureCode e) ''retry enqueue failed'')"
  shows "yields
    (schedule_retry (observe w) task (task_AttemptNo task + 1) (sr_RetryAfterSeconds result) (normalizedFailure result))
    (schedule_retry w task (task_AttemptNo task + 1) (sr_RetryAfterSeconds result) (normalizedFailure result)) P"
  unfolding schedule_retry_def observe_fields
  apply (rule yields_then, rule yields_appendMessage, rule yields_then, rule yields_enqueue)
  subgoal for r
  proof (cases r)
    case (Inr u)
    then show ?thesis using assms(1) by (simp add: yields_return retry_notes_def)
  next
    case (Inl e)
    show ?thesis unfolding Inl sum.case
      by (rule yields_then, rule yields_appendMessage, rule yields_then, rule yields_recordMessageStat,
          rule yields_return) (use assms(2) in \<open>simp add: retry_notes_def final_failure_def\<close>)
  qed
  done

lemma yields_log_failure:
  "P () (failed_notes w task c failed d) \<Longrightarrow> yields
    (log_failure (observe w) task c (runtime_channel (w_resolver w c)) (base_attempt w task c) True
       (metadata_complete w c) failed d)
    (log_failure w task c (runtime_channel (w_resolver w c)) (base_attempt w task c) True
       (metadata_complete w c) failed d) P"
  unfolding log_failure_def
  by (intro yields_only_if yields_then yields_appendAttempt yields_recordAttemptStats)
    (simp_all add: failed_notes_def)

lemma yields_after_failure:
  assumes channel: "providerChannelForAttempt (task_Message task) (task_AttemptNo task) (w_maxAttempts w) = Some c"
    and result: "sending w task c result es" "\<not> IsAccepted result"
    and failed: "failed = normalizedFailure result"
  shows "yields
    (after_failure (observe w) task (sr_RetryAfterSeconds result) failed)
    (after_failure w task (sr_RetryAfterSeconds result) failed)
    (\<lambda>r fs. round_trace w task (opening_notes w task c @ es @ failed_notes w task c failed d @ fs) (\<not> isl r))"
proof -
  note round = channel result failed
  consider (permanent) "fr_FailureClass failed = FailureClassMessagePermanent"
    | (exhausted) "fr_FailureClass failed \<noteq> FailureClassMessagePermanent"
        "providerChannelForAttempt (task_Message task) (task_AttemptNo task + 1) (w_maxAttempts w) = None"
    | (more) c' where "fr_FailureClass failed \<noteq> FailureClassMessagePermanent"
        "providerChannelForAttempt (task_Message task) (task_AttemptNo task + 1) (w_maxAttempts w) = Some c'"
    by fastforce
  then show ?thesis
  proof cases
    case permanent
    then show ?thesis unfolding after_failure_def Let_def if_P [OF permanent]
      by (intro yields_final_failure) (simp add: round_trace.permanent [OF round])
  next
    case exhausted
    have "\<not> hasProviderChannelForAttempt (task_Message task) (task_AttemptNo task + 1) (w_maxAttempts w)"
      using exhausted(2) by (simp add: hasProviderChannelForAttempt_def)
    then show ?thesis using exhausted unfolding after_failure_def Let_def observe_fields
      by (simp, intro yields_final_failure) (simp add: round_trace.exhausted [OF round])
  next
    case more
    have "hasProviderChannelForAttempt (task_Message task) (task_AttemptNo task + 1) (w_maxAttempts w)"
      using more(2) by (simp add: hasProviderChannelForAttempt_def)
    then show ?thesis using more failed unfolding after_failure_def Let_def observe_fields
      by (simp, intro yields_schedule_retry)
        (use round_trace.retried [OF round] round_trace.refused [OF round] failed in simp_all)
  qed
qed

lemma yields_ProcessTask:
  "yields (ProcessTask (observe w) queued) (ProcessTask w queued)
     (\<lambda>r es. round_trace w (numbered queued) es (\<not> isl r))"
proof -
  define task where "task = numbered queued"
  show ?thesis
  proof (cases "providerChannelForAttempt (task_Message task) (task_AttemptNo task) (w_maxAttempts w)")
    case None
    then show ?thesis unfolding ProcessTask_def Let_def observe_fields task_def [symmetric]
      by (simp, intro yields_final_failure) (simp add: round_trace.no_channel)
  next
    case (Some c)
    have base: "attemptBase (task_Message task) (task_AttemptNo task) c (w_resolver w c) = (base_attempt w task c, True)"
      "hasCompleteAttemptMetadata (base_attempt w task c) = metadata_complete w c"
      using attemptBase_complete [of c task w] Some
      by (auto simp: providerChannelForAttempt_def Let_def split: if_splits)
    show ?thesis
      unfolding ProcessTask_def Let_def task_def [symmetric] observe_fields(1) Some option.case
        observe_fields(4) observe_metadata base prod.case simp_thms
    proof (rule yields_then, rule yields_appendMessage,
        rule yields_bind [where P = "\<lambda>_ es. es = tl (opening_notes w task c)"],
        goal_cases)
      case 1
      then show ?case
        by (intro yields_only_if yields_appendAttempt) (simp_all add: opening_notes_def)
    next
      case (2 u es0)
      have noted: "Ef_message (messageWithStatus (task_Message task) MessageStatusSending NoErrorCode [])
          # tl (opening_notes w task c) @ es = opening_notes w task c @ es" for es
        by (simp add: opening_notes_def)
      show ?case
      proof (rule yields_then, rule yields_now,
          rule yields_bind [where P = "sending w task c"], rule yields_send [unfolded observe_fields], assumption,
          rule yields_then, rule yields_now, goal_cases)
        case (1 startedAt result es finished)
        show ?case
        proof (cases "IsAccepted result")
          case True
          then have compl: "metadata_complete w c" using sending_accepted_complete [OF 1] by blast
          show ?thesis
            unfolding if_P [OF True] eqTrueI [OF compl] 
            by (rule yields_finish_accepted [OF compl])
              (use round_trace.sent [OF Some 1 True compl] in \<open>simp add: 2 noted\<close>)
        next
          case False
          show ?thesis
            unfolding finish_failed_def Let_def if_not_P [OF False]
            by (rule yields_then, rule yields_log_failure,
                rule yields_conseq [OF yields_after_failure [OF Some 1 False refl]])
              (simp add: 2 noted)
        qed
      qed
    qed
  qed
qed

section \<open>Facts about rounds\<close>

lemma rune_start_before_le: "rune_start_before s n \<le> n"
  by (induction n) auto

lemma rune_start_before_start: "rune_start_before s n \<noteq> 0 \<Longrightarrow> RuneStart (s ! rune_start_before s n)"
  by (induction n) (auto split: if_splits)

lemma safeErrorMessage_safe: "length (safeErrorMessage s) \<le> 256 \<and> ValidString (safeErrorMessage s)"
proof -
  define t where "t = ToValidUTF8 s"
  have valid: "ValidString t" unfolding t_def by (rule ValidString_ToValidUTF8)
  have "ValidString (take (rune_start_before t 256) t)" if "256 < length t"
  proof (cases "rune_start_before t 256 = 0")
    case False
    have "rune_start_before t 256 < length t" using rune_start_before_le [of t 256] that by simp
    then show ?thesis using ValidString_take [OF valid] rune_start_before_start [OF False] by blast
  qed simp
  then show ?thesis
    using valid rune_start_before_le [of t 256] by (auto simp: safeErrorMessage_def Let_def t_def [symmetric])
qed

lemma notes_of_parts [simp]:
  "messages_of (final_failure m code txt) = [messageWithStatus m MessageStatusFailed code txt]"
  "attempts_of (final_failure m code txt) = []" "sends_of (final_failure m code txt) = []"
  "enqueues_of (final_failure m code txt) = []"
  "messages_of (attempt_stats m c t metric d) = []" "attempts_of (attempt_stats m c t metric d) = []"
  "sends_of (attempt_stats m c t metric d) = []" "enqueues_of (attempt_stats m c t metric d) = []"
  "messages_of [message_stat m metric] = []" "attempts_of [message_stat m metric] = []"
  "sends_of [message_stat m metric] = []" "enqueues_of [message_stat m metric] = []"
  by (simp_all add: final_failure_def message_stat_def attempt_stats_def)

lemma notes_of_opening [simp]:
  "messages_of (opening_notes w t c) = [messageWithStatus (task_Message t) MessageStatusSending NoErrorCode []]"
  "sends_of (opening_notes w t c) = []" "enqueues_of (opening_notes w t c) = []"
  "attempts_of (opening_notes w t c) =
     (if metadata_complete w c
      then [attemptWithStatus (base_attempt w t c) AttemptStatusSending FailureClassNone NoErrorCode [] [] 0]
      else [])"
  by (simp_all add: opening_notes_def)

lemma notes_of_sent [simp]:
  "messages_of (sent_notes w t c r d) = [messageWithStatus (task_Message t) MessageStatusSent NoErrorCode []]"
  "sends_of (sent_notes w t c r d) = []" "enqueues_of (sent_notes w t c r d) = []"
  "attempts_of (sent_notes w t c r d) =
     [attemptWithStatus (base_attempt w t c) AttemptStatusSent FailureClassNone NoErrorCode []
        (ar_ProviderMessageID (the (sr_Accepted r))) d]"
  by (simp_all add: sent_notes_def message_stat_def)

lemma notes_of_failed [simp]:
  "messages_of (failed_notes w t c f d) = []" "sends_of (failed_notes w t c f d) = []"
  "enqueues_of (failed_notes w t c f d) = []"
  "attempts_of (failed_notes w t c f d) =
     [attemptWithStatus (base_attempt w t c) AttemptStatusFailed (fr_FailureClass f) (fr_ErrorCode f)
        (fr_ErrorMessage f) [] d]"
  by (simp_all add: failed_notes_def)

lemma notes_of_retry [simp]:
  "messages_of (retry_notes w t r ok) = [messageWithStatus (task_Message t) MessageStatusRetrying
     (fr_ErrorCode (normalizedFailure r)) (fr_ErrorMessage (normalizedFailure r))]"
  "attempts_of (retry_notes w t r ok) = []" "sends_of (retry_notes w t r ok) = []"
  "enqueues_of (retry_notes w t r ok) =
     [(t\<lparr>task_AttemptNo := task_AttemptNo t + 1\<rparr>,
       retryDelay (w_retryBackoff w) (task_AttemptNo t + 1) (sr_RetryAfterSeconds r), ok)]"
  by (simp_all add: retry_notes_def)

lemma notes_of_sending:
  "sending w t c r es \<Longrightarrow> messages_of es = [] \<and> attempts_of es = [] \<and> enqueues_of es = []
     \<and> length (sends_of es) \<le> 1"
  by (auto simp: sending_def)

lemma messageWithStatus_simps [simp]:
  "msg_Status (messageWithStatus m st code txt) = st"
  by (simp add: messageWithStatus_def)

lemma ProcessTask_round:
  assumes "run_state (ProcessTask (observe w) queued) (s, []) = (r, (s', es))"
  shows "round_trace w (numbered queued) es (\<not> isl r)"
proof -
  obtain x t fs where "run_state (ProcessTask (observe w) queued) (s, []) = (x, (t, [] @ fs))"
      "round_trace w (numbered queued) fs (\<not> isl x)"
    using yields_ProcessTask [of w queued] unfolding yields_def by blast
  then show ?thesis using assms by simp
qed

lemma channel_bounds:
  "providerChannelForAttempt m n k = Some c \<Longrightarrow>
     1 \<le> n \<and> n \<le> k \<and> n \<le> int (length (msg_ProviderChannels m))
     \<and> c = msg_ProviderChannels m ! nat (n - 1) \<and> c \<noteq> []"
  by (auto simp: providerChannelForAttempt_def Let_def split: if_splits)

lemma sending_cases:
  assumes "sending w t c result es"
  obtains (none) "es = []" "result = ChannelFailure ErrorCodeProviderUnavailable ''provider channel unavailable''"
  | (failed) q e where "es = [Ef_send q (Inl e)]"
      "result = TemporaryFailure ErrorCodeProviderUnavailable ''provider request failed''"
  | (answered) q where "es = [Ef_send q (Inr result)]"
proof (cases "es = []")
  case True
  then show thesis using none assms by (auto simp: sending_def)
next
  case False
  then obtain q r where qr: "es = [Ef_send q r]" "result = (case r of
      Inl _ \<Rightarrow> TemporaryFailure ErrorCodeProviderUnavailable ''provider request failed''
    | Inr result \<Rightarrow> result)" using assms by (auto simp: sending_def)
  then show thesis using failed answered by (cases r) auto
qed

lemma not_accepted_failures [simp]:
  "\<not> IsAccepted (ChannelFailure c txt)" "\<not> IsAccepted (TemporaryFailure c txt)"
  by (simp_all add: IsAccepted_def ChannelFailure_def TemporaryFailure_def Failed_def)

lemma sending_accepted:
  assumes "sending w t c result es"
  shows "IsAccepted result \<longleftrightarrow> (\<exists>q res. (q, Inr res) \<in> set (sends_of es) \<and> IsAccepted res)"
  using assms by (cases rule: sending_cases) auto

lemma sending_request:
  "sending w t c result es \<Longrightarrow> (q, res) \<in> set (sends_of es) \<Longrightarrow>
     sq_Message q = task_Message t \<and> sq_Attempt q = task_AttemptNo t \<and> chan_Code (sq_Channel q) = c
     \<and> chan_Account (sq_Channel q) = acct_Code (sq_Account q)
     \<and> chan_Enabled (sq_Channel q) \<and> acct_Enabled (sq_Account q)"
  by (auto simp: sending_def hasRuntimeAttemptMetadata_def)

text \<open>The statuses a round goes through, and what it does besides.\<close>

definition round_statuses :: "MessageStatus list set" where
  "round_statuses =
     {[MessageStatusFailed], [MessageStatusSending, MessageStatusSent],
      [MessageStatusSending, MessageStatusFailed], [MessageStatusSending, MessageStatusRetrying],
      [MessageStatusSending, MessageStatusRetrying, MessageStatusFailed]}"

lemma round_outcome:
  assumes "round_trace w task es ok"
  shows "statuses_of es \<in> round_statuses"
    and "\<forall>m \<in> set (messages_of es). \<exists>st code txt. m = messageWithStatus (task_Message task) st code txt"
    and "length (sends_of es) \<le> 1"
    and "last (statuses_of es) = MessageStatusSent
         \<longleftrightarrow> (\<exists>q res. (q, Inr res) \<in> set (sends_of es) \<and> IsAccepted res)"
    and "\<forall>(q, res) \<in> set (sends_of es).
         providerChannelForAttempt (task_Message task) (task_AttemptNo task) (w_maxAttempts w)
           = Some (chan_Code (sq_Channel q))
         \<and> sq_Message q = task_Message task \<and> sq_Attempt q = task_AttemptNo task
         \<and> chan_Account (sq_Channel q) = acct_Code (sq_Account q)
         \<and> chan_Enabled (sq_Channel q) \<and> acct_Enabled (sq_Account q)"
    and "\<forall>(t, d, b) \<in> set (enqueues_of es). t = task\<lparr>task_AttemptNo := task_AttemptNo task + 1\<rparr>
         \<and> hasProviderChannelForAttempt (task_Message task) (task_AttemptNo task + 1) (w_maxAttempts w)
         \<and> (\<exists>n. d = retryDelay (w_retryBackoff w) (task_AttemptNo task + 1) n)"
    and "last (statuses_of es) = MessageStatusRetrying \<longleftrightarrow> (\<exists>t d. enqueues_of es = [(t, d, True)])"
    and "\<not> ok \<longleftrightarrow> (\<exists>t d. enqueues_of es = [(t, d, False)])"
    and "length (enqueues_of es) \<le> 1"
  using assms
  by (cases rule: round_trace.cases;
      auto simp: statuses_of_def round_statuses_def hasProviderChannelForAttempt_def
        dest: notes_of_sending sending_accepted sending_request)+

text \<open>Every attempt record is one that the log accepts when it reads it.\<close>

definition attempt_ok :: "'s Worker \<Rightarrow> QueueTask \<Rightarrow> Attempt \<Rightarrow> bool" where
  "attempt_ok w task a \<longleftrightarrow>
     att_MessageID a = msg_MessageID (task_Message task) \<and> att_AppCode a = msg_AppCode (task_Message task)
     \<and> att_AttemptNo a = task_AttemptNo task \<and> 1 \<le> att_AttemptNo a \<and> att_AttemptNo a \<le> w_maxAttempts w
     \<and> att_ProviderChannelCode a = msg_ProviderChannels (task_Message task) ! nat (att_AttemptNo a - 1)
     \<and> AttemptStatus_IsValid (att_Status a) \<and> FailureClass_IsValid (att_FailureClass a)
     \<and> isValidAttemptProviderMetadata (att_Provider a) (att_ProviderAccountCode a)
         (att_ProviderChannelCode a) (att_Transport a) (att_Status a) (att_FailureClass a)
     \<and> length (att_ErrorMessage a) \<le> 256 \<and> ValidString (att_ErrorMessage a)"

lemma base_attempt_fields:
  assumes "c \<noteq> []"
  shows "att_MessageID (base_attempt w t c) = msg_MessageID (task_Message t)
    \<and> att_AppCode (base_attempt w t c) = msg_AppCode (task_Message t)
    \<and> att_AttemptNo (base_attempt w t c) = task_AttemptNo t \<and> att_ProviderChannelCode (base_attempt w t c) = c
    \<and> (if metadata_complete w c
       then Provider_IsValid (att_Provider (base_attempt w t c)) \<and> att_ProviderAccountCode (base_attempt w t c) \<noteq> []
          \<and> Transport_IsValid (att_Transport (base_attempt w t c))
       else att_Provider (base_attempt w t c) = NoProvider \<and> att_ProviderAccountCode (base_attempt w t c) = []
          \<and> att_Transport (base_attempt w t c) = NoTransport)"
  using assms
  by (cases "w_resolver w c")
    (auto simp: base_attempt_def attemptBase_def metadata_complete_def zero_Attempt_def
      hasRuntimeAttemptMetadata_def)

lemma attempt_ok_status:
  assumes channel: "providerChannelForAttempt (task_Message t) (task_AttemptNo t) (w_maxAttempts w) = Some c"
    and valid: "AttemptStatus_IsValid st" "FailureClass_IsValid fc"
    and partial: "\<not> metadata_complete w c \<Longrightarrow> st = AttemptStatusFailed \<and> fc = FailureClassChannel"
  shows "attempt_ok w t (attemptWithStatus (base_attempt w t c) st fc code descr pid d)"
proof -
  have c: "c \<noteq> []" "1 \<le> task_AttemptNo t" "task_AttemptNo t \<le> w_maxAttempts w"
    "c = msg_ProviderChannels (task_Message t) ! nat (task_AttemptNo t - 1)"
    using channel_bounds [OF channel] by auto
  then show ?thesis
    using valid partial base_attempt_fields [of c w t, OF c(1)] safeErrorMessage_safe [of descr]
    by (cases "metadata_complete w c")
      (auto simp: attempt_ok_def attemptWithStatus_def isValidAttemptProviderMetadata_def)
qed

lemma normalizedFailure_valid:
  "FailureClass_IsValid (fr_FailureClass (normalizedFailure r)) \<and> fr_FailureClass (normalizedFailure r) \<noteq> FailureClassNone
   \<and> fr_ErrorCode (normalizedFailure r) \<noteq> NoErrorCode \<and> fr_ErrorMessage (normalizedFailure r) \<noteq> []"
  by (auto simp: normalizedFailure_def split: option.split)

lemma sending_incomplete:
  assumes "sending w t c result es" "\<not> metadata_complete w c"
  shows "fr_FailureClass (normalizedFailure result) = FailureClassChannel"
proof -
  have "result = ChannelFailure ErrorCodeProviderUnavailable ''provider channel unavailable''"
    using assms by (auto simp: sending_def metadata_complete_def)
  then show ?thesis by (simp add: normalizedFailure_def ChannelFailure_def Failed_def)
qed

lemma round_attempts:
  assumes "round_trace w task es ok"
  shows "\<forall>a \<in> set (attempts_of es). attempt_ok w task a"
proof -
  have failed: "attempt_ok w task a"
    if "providerChannelForAttempt (task_Message task) (task_AttemptNo task) (w_maxAttempts w) = Some c"
      "sending w task c result fs"
      "a \<in> set (attempts_of (opening_notes w task c)
         @ attempts_of (failed_notes w task c (normalizedFailure result) d))" for a c result fs d
    using that normalizedFailure_valid [of result] sending_incomplete [OF that(2)]
    by (auto intro!: attempt_ok_status split: if_splits)
  show ?thesis
    using assms
  proof (cases rule: round_trace.cases)
    case no_channel
    then show ?thesis by simp
  next
    case (sent c result fs d)
    then show ?thesis using notes_of_sending [OF sent(4)] by (auto intro!: attempt_ok_status)
  next
    case (permanent c result fs failed' d)
    then show ?thesis using failed [OF permanent(3,4)] notes_of_sending [OF permanent(4)] by auto
  next
    case (exhausted c result fs failed' d)
    then show ?thesis using failed [OF exhausted(3,4)] notes_of_sending [OF exhausted(4)] by auto
  next
    case (retried c result fs failed' c' d)
    then show ?thesis using failed [OF retried(3,4)] notes_of_sending [OF retried(4)] by auto
  next
    case (refused c result fs failed' c' d e)
    then show ?thesis using failed [OF refused(3,4)] notes_of_sending [OF refused(4)] by auto
  qed
qed

section \<open>A message over its rounds\<close>

text \<open>
  The rounds of one message: after a round that put it back on the queue, time passes and others act
  (\<open>pause\<close>), and the task that was put back is processed. \<open>None\<close> when \<open>k\<close> rounds are not enough.
\<close>

fun rounds :: "nat \<Rightarrow> ('s \<Rightarrow> 's) \<Rightarrow> 's Worker \<Rightarrow> QueueTask \<Rightarrow> 's \<Rightarrow> effect list option" where
  "rounds 0 pause w task s = None"
| "rounds (Suc k) pause w task s =
     (case run_state (ProcessTask (observe w) task) (s, []) of
        (_, (s', es)) \<Rightarrow>
          (case enqueues_of es of
             [(t, _, True)] \<Rightarrow> map_option (\<lambda>fs. es @ fs) (rounds k pause w t (pause s'))
           | _ \<Rightarrow> Some es))"

lemma round_statuses_facts:
  "statuses_of es \<in> round_statuses \<Longrightarrow> statuses_of es \<noteq> []
     \<and> set (butlast (statuses_of es)) \<subseteq> {MessageStatusSending, MessageStatusRetrying}
     \<and> last (statuses_of es) \<in> {MessageStatusSent, MessageStatusFailed, MessageStatusRetrying}
     \<and> (last (statuses_of es) = MessageStatusRetrying \<longrightarrow>
          set (statuses_of es) \<subseteq> {MessageStatusSending, MessageStatusRetrying})"
  by (auto simp: round_statuses_def)

lemma statuses_of_append [simp]: "statuses_of (es @ fs) = statuses_of es @ statuses_of fs"
  by (simp add: statuses_of_def)

definition finished :: "int \<Rightarrow> int \<Rightarrow> effect list \<Rightarrow> bool" where
  "finished n k es \<longleftrightarrow>
     statuses_of es \<noteq> [] \<and> last (statuses_of es) \<in> {MessageStatusSent, MessageStatusFailed}
     \<and> set (butlast (statuses_of es)) \<subseteq> {MessageStatusSending, MessageStatusRetrying}
     \<and> sorted_wrt (<) (map (\<lambda>(q, _). sq_Attempt q) (sends_of es))
     \<and> (\<forall>(q, _) \<in> set (sends_of es). n \<le> sq_Attempt q \<and> sq_Attempt q \<le> k)
     \<and> (last (statuses_of es) = MessageStatusSent
         \<longleftrightarrow> (\<exists>q res. (q, Inr res) \<in> set (sends_of es) \<and> IsAccepted res))"

lemma short_list: "length xs \<le> 1 \<Longrightarrow> xs = [] \<or> (\<exists>x. xs = [x])"
  by (cases xs) auto

lemma finished_round:
  assumes "round_trace w task es ok" "\<not> (\<exists>t d. enqueues_of es = [(t, d, True)])"
  shows "finished (task_AttemptNo task) (w_maxAttempts w) es"
proof -
  note r = round_outcome [OF assms(1)]
  have "sorted_wrt (<) (map (\<lambda>(q, _). sq_Attempt q) (sends_of es))"
    using short_list [OF r(3)] by auto
  moreover have "\<forall>(q, _) \<in> set (sends_of es). task_AttemptNo task \<le> sq_Attempt q \<and> sq_Attempt q \<le> w_maxAttempts w"
    using r(5) channel_bounds by fastforce
  ultimately show ?thesis
    using round_statuses_facts [OF r(1)] r(4,7) assms(2) unfolding finished_def by blast
qed

lemma finished_append:
  assumes round: "round_trace w task es ok" "enqueues_of es = [(t, d, True)]"
    and rest: "finished (task_AttemptNo task + 1) (w_maxAttempts w) fs"
  shows "finished (task_AttemptNo task) (w_maxAttempts w) (es @ fs)"
proof -
  note r = round_outcome [OF round(1)]
  have retrying: "last (statuses_of es) = MessageStatusRetrying" using r(7) round(2) by blast
  have early: "set (statuses_of es) \<subseteq> {MessageStatusSending, MessageStatusRetrying}"
    using round_statuses_facts [OF r(1)] retrying by blast
  have unsent: "\<not> (\<exists>q res. (q, Inr res) \<in> set (sends_of es) \<and> IsAccepted res)"
    using r(4) retrying by simp
  have here: "\<forall>(q, _) \<in> set (sends_of es). sq_Attempt q = task_AttemptNo task
      \<and> sq_Attempt q \<le> w_maxAttempts w"
    using r(5) channel_bounds by fastforce
  have "sorted_wrt (<) (map (\<lambda>(q, _). sq_Attempt q) (sends_of (es @ fs)))"
    using short_list [OF r(3)] here rest by (fastforce simp: finished_def sorted_wrt_append)
  moreover have "\<forall>(q, _) \<in> set (sends_of (es @ fs)).
      task_AttemptNo task \<le> sq_Attempt q \<and> sq_Attempt q \<le> w_maxAttempts w"
    using here rest by (fastforce simp: finished_def)
  moreover have "set (butlast (statuses_of (es @ fs))) \<subseteq> {MessageStatusSending, MessageStatusRetrying}"
    using early rest by (auto simp: finished_def butlast_append)
  ultimately show ?thesis
    using rest unsent unfolding finished_def by (auto simp: last_append)
qed

lemma numbered_pos: "1 \<le> task_AttemptNo (numbered t)"
  by (simp add: numbered_def)

lemma numbered_id: "1 \<le> task_AttemptNo t \<Longrightarrow> numbered t = t"
  by (simp add: numbered_def)

lemma rounds_finished:
  "w_maxAttempts w \<le> task_AttemptNo (numbered task) + int k \<Longrightarrow>
     \<exists>es. rounds (Suc k) pause w task s = Some es
       \<and> finished (task_AttemptNo (numbered task)) (w_maxAttempts w) es"
proof (induction k arbitrary: task s)
  case base: 0
  obtain r s' es where run: "run_state (ProcessTask (observe w) task) (s, []) = (r, (s', es))"
    by (metis surj_pair)
  note tr = ProcessTask_round [OF run]
  have no: "\<not> (\<exists>t d. enqueues_of es = [(t, d, True)])"
  proof
    assume "\<exists>t d. enqueues_of es = [(t, d, True)]"
    then have "hasProviderChannelForAttempt (task_Message (numbered task))
        (task_AttemptNo (numbered task) + 1) (w_maxAttempts w)"
      using round_outcome(6) [OF tr] by auto
    then show False using base channel_bounds by (fastforce simp: hasProviderChannelForAttempt_def)
  qed
  then have "rounds (Suc 0) pause w task s = Some es"
    by (auto simp: run split: list.split prod.split bool.split)
  then show ?case using finished_round [OF tr no] by blast
next
  case (Suc k)
  obtain r s' es where run: "run_state (ProcessTask (observe w) task) (s, []) = (r, (s', es))"
    by (metis surj_pair)
  note tr = ProcessTask_round [OF run]
  show ?case
  proof (cases "\<exists>t d. enqueues_of es = [(t, d, True)]")
    case False
    then have "rounds (Suc (Suc k)) pause w task s = Some es"
      by (auto simp: run split: list.split prod.split bool.split)
    then show ?thesis using finished_round [OF tr False] by blast
  next
    case True
    then obtain t d where enq: "enqueues_of es = [(t, d, True)]" by blast
    then have t: "t = (numbered task)\<lparr>task_AttemptNo := task_AttemptNo (numbered task) + 1\<rparr>"
      using round_outcome(6) [OF tr] by auto
    then have n: "task_AttemptNo (numbered t) = task_AttemptNo (numbered task) + 1"
      using numbered_pos [of task] numbered_id [of t] by simp
    obtain fs where fs: "rounds (Suc k) pause w t (pause s') = Some fs"
        "finished (task_AttemptNo (numbered t)) (w_maxAttempts w) fs"
      using Suc.IH [of t "pause s'"] Suc.prems n by auto
    have "rounds (Suc (Suc k)) pause w task s = Some (es @ fs)"
      using fs(1) by (simp add: run enq)
    then show ?thesis using finished_append [OF tr enq] fs(2) n by simp
  qed
qed

section \<open>Properties\<close>

text \<open>
  C3. \<open>ProcessTask\<close> implements the rounds: whatever the queue, the logs, the statistics, the provider
  and the clock answer, what it does through its interfaces is one of the six rounds of
  \<open>round_trace\<close>, with an error exactly when the queue refused the retry; noting it down does not
  change what it does.
\<close>

theorem ProcessTask_refines_rounds:
  "\<exists>r s' es. run_state (ProcessTask (observe w) queued) (s, []) = (r, (s', es))
     \<and> run_state (ProcessTask w queued) s = (r, s')
     \<and> round_trace w (numbered queued) es (\<not> isl r)"
proof -
  obtain r s' es where "run_state (ProcessTask (observe w) queued) (s, []) = (r, (s', [] @ es))"
      "run_state (ProcessTask w queued) s = (r, s')" "round_trace w (numbered queued) es (\<not> isl r)"
    using yields_ProcessTask [of w queued] unfolding yields_def by blast
  then show ?thesis by auto
qed

text \<open>
  C4. What one round does to a message: its status goes from sending to sent, failed or retrying, a
  refused retry ends as failed; the provider is called at most once, on the enabled channel of this
  attempt; the message is sent exactly when that call accepted it; it is put back at most once, for
  the next attempt and only while a channel is left, and is retrying at the end exactly when the
  queue took it. Every record of it differs from it in status and error only.
\<close>

theorem ProcessTask_outcome:
  assumes "run_state (ProcessTask (observe w) queued) (s, []) = (r, (s', es))"
  shows "statuses_of es \<in> round_statuses
    \<and> (\<forall>m \<in> set (messages_of es). \<exists>st code txt. m = messageWithStatus (task_Message queued) st code txt)
    \<and> length (sends_of es) \<le> 1
    \<and> (\<forall>(q, _) \<in> set (sends_of es). sq_Message q = task_Message queued
         \<and> providerChannelForAttempt (task_Message queued) (sq_Attempt q) (w_maxAttempts w)
             = Some (chan_Code (sq_Channel q))
         \<and> chan_Account (sq_Channel q) = acct_Code (sq_Account q)
         \<and> chan_Enabled (sq_Channel q) \<and> acct_Enabled (sq_Account q))
    \<and> (last (statuses_of es) = MessageStatusSent
         \<longleftrightarrow> (\<exists>q res. (q, Inr res) \<in> set (sends_of es) \<and> IsAccepted res))
    \<and> length (enqueues_of es) \<le> 1
    \<and> (\<forall>(t, _) \<in> set (enqueues_of es).
         t = (numbered queued)\<lparr>task_AttemptNo := task_AttemptNo (numbered queued) + 1\<rparr>
         \<and> hasProviderChannelForAttempt (task_Message queued) (task_AttemptNo t) (w_maxAttempts w))
    \<and> (last (statuses_of es) = MessageStatusRetrying \<longleftrightarrow> (\<exists>t d. enqueues_of es = [(t, d, True)]))
    \<and> (isl r \<longleftrightarrow> (\<exists>t d. enqueues_of es = [(t, d, False)]))"
proof -
  have m: "task_Message (numbered queued) = task_Message queued" by (simp add: numbered_def)
  note o = round_outcome [OF ProcessTask_round [OF assms], unfolded m]
  show ?thesis using o by (intro conjI) (blast | fastforce)+
qed

text \<open>
  C35. Every attempt the worker records is one the log reads back: it carries the ids of the message,
  the number of the attempt and the channel of that number, valid provider metadata or, for a channel
  that could not be used, none and a channel failure; its error text is valid UTF-8 of at most 256
  bytes, so a line that decodes to its fields passes the checks of the attempt log.
\<close>

theorem worker_attempts_readable:
  assumes "run_state (ProcessTask (observe w) queued) (s, []) = (r, (s', es))"
    and "a \<in> set (attempts_of es)"
  shows "attempt_ok w (numbered queued) a
    \<and> (\<forall>codec line raw t. msg_MessageID (task_Message queued) \<noteq> []
         \<and> lc_attempt codec line = Inr raw \<and> lc_time codec (ra_Timestamp raw) = Inr t
         \<and> ra_MessageID raw = att_MessageID a \<and> ra_AttemptNo raw = att_AttemptNo a
         \<and> ra_Status raw = att_Status a \<and> ra_FailureClass raw = att_FailureClass a
         \<and> ra_Provider raw = att_Provider a \<and> ra_ProviderAccountCode raw = att_ProviderAccountCode a
         \<and> ra_ProviderChannelCode raw = att_ProviderChannelCode a \<and> ra_Transport raw = att_Transport a
         \<longrightarrow> \<not> isl (decodeAttemptSnapshot codec line))"
proof -
  have ok: "attempt_ok w (numbered queued) a"
    using round_attempts [OF ProcessTask_round [OF assms(1)]] assms(2) by blast
  moreover have "task_Message (numbered queued) = task_Message queued" by (simp add: numbered_def)
  ultimately show ?thesis by (auto simp: attempt_ok_def decodeAttemptSnapshot_def)
qed

text \<open>
  C5. Retries end: whatever happens between the rounds and whatever the interfaces answer, at most one
  round more than the maximum of attempts brings a message to its end; its last status is sent or
  failed, all earlier ones are sending and retrying; the calls of providers have increasing attempt
  numbers within the maximum; and it ends as sent exactly when a call accepted it.
\<close>

theorem retries_end:
  "\<exists>es. rounds (Suc (nat (w_maxAttempts w))) pause w task s = Some es
     \<and> finished (task_AttemptNo (numbered task)) (w_maxAttempts w) es"
  by (rule rounds_finished) (use numbered_pos [of task] in simp)

text \<open>
  C36. The delay before a retry is the backoff of that attempt or the provider's hint, whichever is
  longer, but at most 300 seconds; with configured backoffs that are not negative it is never negative.
\<close>

theorem retryDelay_bounds:
  assumes "\<forall>b \<in> set backoff. 0 \<le> b" "1 \<le> n"
  shows "retryDelay backoff n hint =
      min 300 (max (if n \<le> int (length backoff) then backoff ! nat (n - 1) else 0) hint) * Second
    \<and> 0 \<le> retryDelay backoff n hint \<and> retryDelay backoff n hint \<le> 300 * Second"
proof -
  define b where "b = (if n \<le> int (length backoff) then backoff ! nat (n - 1) else 0)"
  have b: "0 \<le> b" using assms by (auto simp: b_def)
  have index: "(if 0 \<le> n - 1 \<and> n - 1 < int (length backoff) then backoff ! nat (n - 1) else 0) = b"
    using assms(2) by (auto simp: b_def)
  have eq: "retryDelay backoff n hint = int64 (min 300 (max b hint) * Second)"
    unfolding retryDelay_def Let_def index maxRetryAfterSeconds_def using b
    by (intro arg_cong [where f = int64]) (auto simp: max_def min_def)
  have "int64 (min 300 (max b hint) * Second) = min 300 (max b hint) * Second"
    using b by (intro int64_id) (auto simp: max_def min_def)
  then show ?thesis using b eq by (auto simp: b_def [symmetric] max_def min_def)
qed

text \<open>
  A worker for the examples, its state the number of calls of the provider: the first call fails for
  the moment, with a hint to wait ten minutes, the others are accepted.
\<close>

definition sample_send :: "nat Provider_send" where
  "sample_send d q = State (\<lambda>n. (Inr (if n = 0
     then WithRetryAfter (TemporaryFailure ErrorCodeProviderUnavailable ''busy'') 600
     else Accepted ''pm_1''), Suc n))"

definition sample_runtime :: "string \<Rightarrow> nat ProviderChannelRuntime" where
  "sample_runtime c =
     \<lparr>rt_Account = \<lparr>acct_Code = ''acc'', acct_Provider = ProviderResend, acct_Enabled = True,
                    acct_CredentialRefs = Map.empty\<rparr>,
      rt_Channel = \<lparr>chan_Code = c, chan_Account = ''acc'', chan_Transport = TransportAPI,
        chan_Enabled = True, chan_SenderDomain = [], chan_FromName = [], chan_From = [],
        chan_SMTP = None\<rparr>,
      rt_Provider = Some sample_send\<rparr>"

definition sample_worker :: "nat Worker" where
  "sample_worker =
     \<lparr>w_queue = \<lparr>wq_Dequeue = State_Monad.return (Inl ErrMemoryQueueClosed),
                 wq_EnqueueDelayed = (\<lambda>_ _. State_Monad.return (Inr ()))\<rparr>,
      w_messageLog = \<lparr>wl_AppendMessage = (\<lambda>_. State_Monad.return (Inr ())),
                      wl_AppendAttempt = (\<lambda>_. State_Monad.return (Inr ()))\<rparr>,
      w_stats = (\<lambda>_. State_Monad.return (Inr ())), w_resolver = (\<lambda>c. Some (sample_runtime c)),
      w_maxAttempts = 2, w_retryBackoff = [0, 30], w_providerTimeout = Second, w_concurrency = 1,
      w_now = State_Monad.return 0, w_handleAsyncError = (\<lambda>_. State_Monad.return ())\<rparr>"

definition sample_task :: QueueTask where
  "sample_task = \<lparr>task_Message = zero_Message\<lparr>msg_MessageID := ''msg_1'', msg_AppCode := ''shop'',
      msg_ProviderChannels := [''main'', ''spare'']\<rparr>, task_AttemptNo = 0, task_AvailableAt = 0\<rparr>"

definition sample_round :: "unit result \<times> nat \<times> effect list" where
  "sample_round = run_state (ProcessTask (observe sample_worker) sample_task) (0, [])"

lemma ProcessTask_outcome_witness:
  "statuses_of (snd (snd sample_round)) = [MessageStatusSending, MessageStatusRetrying]
   \<and> (\<exists>t d. enqueues_of (snd (snd sample_round)) = [(t, d, True)])"
proof -
  have run: "run_state (ProcessTask (observe sample_worker) sample_task) (0, [])
      = (fst sample_round, (fst (snd sample_round), snd (snd sample_round)))"
    by (simp add: sample_round_def)
  have st: "statuses_of (snd (snd sample_round)) = [MessageStatusSending, MessageStatusRetrying]"
    by code_simp
  then have "last (statuses_of (snd (snd sample_round))) = MessageStatusRetrying" by simp
  with ProcessTask_outcome [OF run] st show ?thesis by blast
qed

lemma worker_attempts_readable_witness:
  "\<exists>a. a \<in> set (attempts_of (snd (snd sample_round))) \<and> attempt_ok sample_worker (numbered sample_task) a"
proof -
  have run: "run_state (ProcessTask (observe sample_worker) sample_task) (0, [])
      = (fst sample_round, (fst (snd sample_round), snd (snd sample_round)))"
    by (simp add: sample_round_def)
  have "length (attempts_of (snd (snd sample_round))) = 2" by code_simp
  then obtain a where "a \<in> set (attempts_of (snd (snd sample_round)))" by (metis length_0_conv
        nth_mem numeral_2_eq_2 zero_less_Suc)
  with worker_attempts_readable [OF run this] show ?thesis by blast
qed

lemma retries_end_example:
  "map_option statuses_of (rounds 3 Suc sample_worker sample_task 0)
     = Some [MessageStatusSending, MessageStatusRetrying, MessageStatusSending, MessageStatusSent]"
  by code_simp

lemma retryDelay_bounds_witness: "retryDelay [0, 30] 2 600 = 300 * Second"
  using retryDelay_bounds [of "[0, 30]" 2 600] by simp

end
