(* ===== verification/Json.thy ===== *)
theory Json
  imports GoStrings
begin

text \<open>
  What the program uses of \<open>encoding/json\<close>: the scanner with its grammar, its escapes and its limit on
  the nesting, the decoding of a document into a struct of strings and numbers, and the encoding of a
  string. Strings are bytes; an invalid UTF-8 byte or an unpaired surrogate becomes U+FFFD, as in Go.
  A member of an object keeps the text of its value, which is what \<open>json.RawMessage\<close> holds.
\<close>

section \<open>Encoding a string\<close>

abbreviation quote_char :: char where "quote_char \<equiv> CHR 0x22"
abbreviation backslash :: char where "backslash \<equiv> CHR 0x5C"

text \<open>\<open>hex[n]\<close> of the table \<open>0123456789abcdef\<close>.\<close>

definition hex_digit :: "nat \<Rightarrow> char" where
  "hex_digit n = (if n < 10 then char_of (48 + n) else char_of (87 + n))"

text \<open>One ASCII character inside a string literal; \<open><\<close>, \<open>>\<close> and \<open>&\<close> are escaped for HTML.\<close>

definition json_ascii :: "char \<Rightarrow> string" where
  "json_ascii c =
     (if c = quote_char \<or> c = backslash then [backslash, c]
      else if byte c = 8 then backslash # ''b''
      else if byte c = 12 then backslash # ''f''
      else if byte c = 10 then backslash # ''n''
      else if byte c = 13 then backslash # ''r''
      else if byte c = 9 then backslash # ''t''
      else if byte c < 32 \<or> c \<in> set ''<>&''
           then backslash # ''u00'' @ [hex_digit (byte c div 16), hex_digit (byte c mod 16)]
      else [c])"

fun json_body :: "string \<Rightarrow> string" where
  "json_body [] = []"
| "json_body (c # cs) =
     (if byte c < 128 then json_ascii c @ json_body cs
      else case head_rune (c # cs) of
             None \<Rightarrow> backslash # ''ufffd'' @ json_body cs
           | Some (r, n) \<Rightarrow>
               (if r = 8232 then backslash # ''u2028''
                else if r = 8233 then backslash # ''u2029''
                else take n (c # cs)) @ json_body (drop (n - 1) cs))"

text \<open>\<open>json.Marshal\<close> on a string\<close>

definition json_quote :: "string \<Rightarrow> string" where
  "json_quote s = quote_char # json_body s @ [quote_char]"

section \<open>Scanning a string\<close>

text \<open>\<open>utf8.AppendRune\<close>\<close>

definition encodeRune :: "nat \<Rightarrow> string" where
  "encodeRune r =
     (let r = (if 55296 \<le> r \<and> r < 57344 \<or> 1114111 < r then RuneError else r)
      in if r < 128 then [char_of r]
         else if r < 2048 then [char_of (192 + r div 64), char_of (128 + r mod 64)]
         else if r < 65536
         then [char_of (224 + r div 4096), char_of (128 + r div 64 mod 64), char_of (128 + r mod 64)]
         else [char_of (240 + r div 262144), char_of (128 + r div 4096 mod 64),
               char_of (128 + r div 64 mod 64), char_of (128 + r mod 64)])"

definition hex_value :: "char \<Rightarrow> nat option" where
  "hex_value c =
     (if is_digit c then Some (byte c - 48)
      else if char_between CHR ''a'' CHR ''f'' c then Some (byte c - 87)
      else if char_between CHR ''A'' CHR ''F'' c then Some (byte c - 55)
      else None)"

text \<open>Four hexadecimal digits, with what follows.\<close>

fun hex4 :: "string \<Rightarrow> (nat \<times> string) option" where
  "hex4 (a # b # c # d # rest) =
     (case (hex_value a, hex_value b, hex_value c, hex_value d) of
        (Some w, Some x, Some y, Some z) \<Rightarrow> Some (((w * 16 + x) * 16 + y) * 16 + z, rest)
      | _ \<Rightarrow> None)"
| "hex4 _ = None"

text \<open>
  The second half of a surrogate pair, if one follows; otherwise the first half is replaced and what
  follows it is read anew.
\<close>

definition low_surrogate :: "string \<Rightarrow> (nat \<times> string) option" where
  "low_surrogate s =
     (case s of
        b # u # t \<Rightarrow>
          if b = backslash \<and> u = CHR ''u'' then
            (case hex4 t of
               None \<Rightarrow> None
             | Some (r, rest) \<Rightarrow> if 56320 \<le> r \<and> r < 57344 then Some (r, rest) else None)
          else None
      | _ \<Rightarrow> None)"

definition json_unicode :: "string \<Rightarrow> (string \<times> string) option" where
  "json_unicode s =
     (case hex4 s of
        None \<Rightarrow> None
      | Some (r, rest) \<Rightarrow>
          if 55296 \<le> r \<and> r < 57344 then
            (case (if r < 56320 then low_surrogate rest else None) of
               Some (r2, rest2) \<Rightarrow> Some (encodeRune ((r - 55296) * 1024 + (r2 - 56320) + 65536), rest2)
             | None \<Rightarrow> Some (encodeRune RuneError, rest))
          else Some (encodeRune r, rest))"

text \<open>What follows a backslash.\<close>

definition json_escape :: "string \<Rightarrow> (string \<times> string) option" where
  "json_escape s =
     (case s of
        [] \<Rightarrow> None
      | c # cs \<Rightarrow>
          if c = quote_char \<or> c = backslash \<or> c = CHR ''/'' then Some ([c], cs)
          else if c = CHR ''b'' then Some ([CHR 0x08], cs)
          else if c = CHR ''f'' then Some ([CHR 0x0C], cs)
          else if c = CHR ''n'' then Some ([CHR 0x0A], cs)
          else if c = CHR ''r'' then Some ([CHR 0x0D], cs)
          else if c = CHR ''t'' then Some ([CHR 0x09], cs)
          else if c = CHR ''u'' then json_unicode cs
          else None)"

lemma hex4_shorter: "hex4 s = Some (r, rest) \<Longrightarrow> length s = length rest + 4"
  by (cases s rule: hex4.cases) (auto split: option.splits)

lemma low_surrogate_shorter: "low_surrogate s = Some (r, rest) \<Longrightarrow> length rest < length s"
  by (auto simp: low_surrogate_def dest!: hex4_shorter split: list.splits if_splits option.splits)

lemma json_unicode_shorter: "json_unicode s = Some (out, rest) \<Longrightarrow> length rest < length s"
  by (auto simp: json_unicode_def dest!: hex4_shorter low_surrogate_shorter
      split: option.splits if_splits)

lemma json_escape_shorter: "json_escape s = Some (out, rest) \<Longrightarrow> length rest < length s"
  by (auto simp: json_escape_def dest: json_unicode_shorter split: list.splits if_splits)

text \<open>The rest of a literal after its opening quote: the string it stands for and what follows it.\<close>

function json_string :: "string \<Rightarrow> (string \<times> string) option" where
  "json_string [] = None"
| "json_string (c # cs) =
     (if c = quote_char then Some ([], cs)
      else if c = backslash then
        (case json_escape cs of
           None \<Rightarrow> None
         | Some (out, rest) \<Rightarrow> map_option (apfst ((@) out)) (json_string rest))
      else if byte c < 32 then None
      else if byte c < 128 then map_option (apfst ((@) [c])) (json_string cs)
      else case head_rune (c # cs) of
             None \<Rightarrow> map_option (apfst ((@) (encodeRune RuneError))) (json_string cs)
           | Some (r, n) \<Rightarrow>
               map_option (apfst ((@) (take n (c # cs)))) (json_string (drop (n - 1) cs)))"
  by pat_completeness auto
termination
  by (relation "measure length") (auto dest: json_escape_shorter)

lemma json_string_shorter: "json_string s = Some (v, rest) \<Longrightarrow> length rest < length s"
proof (induction s arbitrary: v rule: json_string.induct)
  case (2 c cs)
  then show ?case
    by (fastforce dest: json_escape_shorter simp: apfst_def map_prod_def
        split: if_splits option.splits prod.splits)
qed simp

section \<open>Scanning a value\<close>

datatype json =
    JNull
  | JBool bool
  | JNumber string
  | JString string
  | JArray "json list"
  | JObject "(string \<times> string \<times> json) list"

definition json_space :: "char \<Rightarrow> bool" where
  "json_space c \<longleftrightarrow> byte c \<in> {32, 9, 10, 13}"

definition skip_ws :: "string \<Rightarrow> string" where
  "skip_ws s = dropWhile json_space s"

definition scan_fraction :: "string \<Rightarrow> (string \<times> string) option" where
  "scan_fraction s =
     (case s of
        c # t \<Rightarrow>
          if c = CHR ''.'' then
            (if takeWhile is_digit t = [] then None
             else Some (c # takeWhile is_digit t, dropWhile is_digit t))
          else Some ([], s)
      | [] \<Rightarrow> Some ([], s))"

definition scan_exponent :: "string \<Rightarrow> (string \<times> string) option" where
  "scan_exponent s =
     (case s of
        c # t \<Rightarrow>
          if c = CHR ''e'' \<or> c = CHR ''E'' then
            let (sign, u) = (case t of
                  x # u \<Rightarrow> if x = CHR ''+'' \<or> x = CHR ''-'' then ([x], u) else ([], t)
                | [] \<Rightarrow> ([], t))
            in if takeWhile is_digit u = [] then None
               else Some (c # sign @ takeWhile is_digit u, dropWhile is_digit u)
          else Some ([], s)
      | [] \<Rightarrow> Some ([], s))"

definition scan_integer :: "string \<Rightarrow> (string \<times> string) option" where
  "scan_integer s =
     (case s of
        [] \<Rightarrow> None
      | c # t \<Rightarrow>
          if c = CHR ''0'' then Some ([c], t)
          else if is_digit c then Some (takeWhile is_digit s, dropWhile is_digit s)
          else None)"

definition scan_number :: "string \<Rightarrow> (string \<times> string) option" where
  "scan_number s =
     (let (sign, s1) = (case s of c # t \<Rightarrow> if c = CHR ''-'' then ([c], t) else ([], s) | [] \<Rightarrow> ([], s))
      in case scan_integer s1 of
           None \<Rightarrow> None
         | Some (whole, s2) \<Rightarrow>
             (case scan_fraction s2 of
                None \<Rightarrow> None
              | Some (fraction, s3) \<Rightarrow>
                  (case scan_exponent s3 of
                     None \<Rightarrow> None
                   | Some (expo, s4) \<Rightarrow> Some (sign @ whole @ fraction @ expo, s4))))"

fun scan_literal :: "string \<Rightarrow> 'a \<Rightarrow> string \<Rightarrow> ('a \<times> string) option" where
  "scan_literal [] v s = Some (v, s)"
| "scan_literal (p # ps) v [] = None"
| "scan_literal (p # ps) v (c # cs) = (if c = p then scan_literal ps v cs else None)"

definition maxNestingDepth :: nat where "maxNestingDepth = 10000"

text \<open>The scanner; the first argument is fuel, the second the depth of the objects and arrays around.\<close>

fun json_value :: "nat \<Rightarrow> nat \<Rightarrow> string \<Rightarrow> (json \<times> string) option"
and json_elements :: "nat \<Rightarrow> nat \<Rightarrow> string \<Rightarrow> (json list \<times> string) option"
and json_members :: "nat \<Rightarrow> nat \<Rightarrow> string \<Rightarrow> ((string \<times> string \<times> json) list \<times> string) option"
where
  "json_value 0 d s = None"
| "json_value (Suc n) d s =
     (case skip_ws s of
        [] \<Rightarrow> None
      | c # t \<Rightarrow>
          if c = quote_char then map_option (apfst JString) (json_string t)
          else if c = CHR ''{'' then
            (if maxNestingDepth \<le> d then None
             else case skip_ws t of
                    [] \<Rightarrow> None
                  | c2 # t2 \<Rightarrow>
                      if c2 = CHR ''}'' then Some (JObject [], t2)
                      else map_option (apfst JObject) (json_members n (Suc d) (c2 # t2)))
          else if c = CHR ''['' then
            (if maxNestingDepth \<le> d then None
             else case skip_ws t of
                    [] \<Rightarrow> None
                  | c2 # t2 \<Rightarrow>
                      if c2 = CHR '']'' then Some (JArray [], t2)
                      else map_option (apfst JArray) (json_elements n (Suc d) (c2 # t2)))
          else if c = CHR ''t'' then scan_literal ''rue'' (JBool True) t
          else if c = CHR ''f'' then scan_literal ''alse'' (JBool False) t
          else if c = CHR ''n'' then scan_literal ''ull'' JNull t
          else map_option (apfst JNumber) (scan_number (c # t)))"
| "json_elements 0 d s = None"
| "json_elements (Suc n) d s =
     (case json_value n d s of
        None \<Rightarrow> None
      | Some (v, r) \<Rightarrow>
          (case skip_ws r of
             [] \<Rightarrow> None
           | c # t \<Rightarrow>
               if c = CHR '']'' then Some ([v], t)
               else if c = CHR '','' then map_option (apfst ((#) v)) (json_elements n d t)
               else None))"
| "json_members 0 d s = None"
| "json_members (Suc n) d s =
     (case skip_ws s of
        [] \<Rightarrow> None
      | c # t \<Rightarrow>
          if c \<noteq> quote_char then None
          else case json_string t of
                 None \<Rightarrow> None
               | Some (k, r) \<Rightarrow>
                   (case skip_ws r of
                      [] \<Rightarrow> None
                    | c2 # r2 \<Rightarrow>
                        if c2 \<noteq> CHR '':'' then None
                        else case json_value n d (skip_ws r2) of
                               None \<Rightarrow> None
                             | Some (v, r3) \<Rightarrow>
                                 let raw = take (length (skip_ws r2) - length r3) (skip_ws r2)
                                 in case skip_ws r3 of
                                      [] \<Rightarrow> None
                                    | c4 # r4 \<Rightarrow>
                                        if c4 = CHR ''}'' then Some ([(k, raw, v)], r4)
                                        else if c4 = CHR '','' then
                                          map_option (apfst ((#) (k, raw, v))) (json_members n d r4)
                                        else None))"

lemmas json_step = json_value.simps(2) json_elements.simps(2) json_members.simps(2)

declare json_step [simp del]

text \<open>\<open>Decoder.Decode\<close> scans one value and keeps the rest; \<open>json.Unmarshal\<close> wants nothing to follow.\<close>

definition json_decode :: "string \<Rightarrow> (json \<times> string) option" where
  "json_decode s = json_value (2 * length s + 2) 0 s"

definition json_unmarshal :: "string \<Rightarrow> json option" where
  "json_unmarshal s =
     (case json_decode s of
        None \<Rightarrow> None
      | Some (v, rest) \<Rightarrow> if skip_ws rest = [] then Some v else None)"

section \<open>Progress and fuel\<close>

lemma skip_ws_shorter: "length (skip_ws s) \<le> length s"
  unfolding skip_ws_def by (rule length_dropWhile_le)

lemma skip_ws_Nil [simp]: "skip_ws [] = []"
  by (simp add: skip_ws_def)

lemma skip_ws_unspaced: "\<not> json_space c \<Longrightarrow> skip_ws (c # t) = c # t"
  by (simp add: skip_ws_def)

lemma skip_ws_Cons: "skip_ws s = c # t \<Longrightarrow> length t < length s"
  using skip_ws_shorter [of s] by simp

lemma scan_literal_shorter: "scan_literal ps v s = Some (w, rest) \<Longrightarrow> length rest \<le> length s"
  by (induction ps v s rule: scan_literal.induct) (auto split: if_splits)

lemma scan_fraction_shorter: "scan_fraction s = Some (x, rest) \<Longrightarrow> length rest \<le> length s"
  by (auto simp: scan_fraction_def intro: le_SucI length_dropWhile_le split: list.splits if_splits)

lemma digits_shorter: "length t \<le> n \<Longrightarrow> length (dropWhile is_digit t) \<le> n"
  by (rule order_trans [OF length_dropWhile_le])

lemma scan_exponent_shorter: "scan_exponent s = Some (x, rest) \<Longrightarrow> length rest \<le> length s"
  by (auto simp: scan_exponent_def Let_def digits_shorter split: list.splits if_splits)

lemma scan_integer_shorter: "scan_integer s = Some (x, rest) \<Longrightarrow> length rest < length s"
  by (auto simp: scan_integer_def less_Suc_eq_le length_dropWhile_le split: list.splits if_splits)

lemma scan_number_shorter: "scan_number s = Some (x, rest) \<Longrightarrow> length rest < length s"
  by (fastforce simp: scan_number_def dest: scan_integer_shorter scan_fraction_shorter
      scan_exponent_shorter split: list.splits if_splits option.splits)

lemma map_option_apfst_Some:
  "map_option (apfst f) m = Some (y, r) \<longleftrightarrow> (\<exists>x. m = Some (x, r) \<and> y = f x)"
  by (cases m) (auto simp: apfst_def map_prod_def split: prod.splits)

lemmas shorter_simps = map_option_apfst_Some

lemma json_members_SomeE:
  assumes "json_members (Suc n) d s = Some (ms, r)"
  obtains t k r1 r2 v r3 c4 r4 where "skip_ws s = quote_char # t" "json_string t = Some (k, r1)"
    "skip_ws r1 = CHR '':'' # r2" "json_value n d (skip_ws r2) = Some (v, r3)" "skip_ws r3 = c4 # r4"
    "c4 = CHR ''}'' \<and> r = r4
       \<and> ms = [(k, take (length (skip_ws r2) - length r3) (skip_ws r2), v)]
     \<or> c4 \<noteq> CHR ''}'' \<and> c4 = CHR '','' \<and> (\<exists>ms'. json_members n d r4 = Some (ms', r)
          \<and> ms = (k, take (length (skip_ws r2) - length r3) (skip_ws r2), v) # ms')"
proof -
  obtain c t where c: "skip_ws s = c # t" "c = quote_char"
    using assms unfolding json_step by (auto split: list.splits if_splits)
  obtain k r1 where k: "json_string t = Some (k, r1)"
    using assms c unfolding json_step by (auto split: option.splits)
  obtain c2 r2 where c2: "skip_ws r1 = c2 # r2" "c2 = CHR '':''"
    using assms c k unfolding json_step by (auto split: list.splits if_splits)
  obtain v r3 where v: "json_value n d (skip_ws r2) = Some (v, r3)"
    using assms c k c2 unfolding json_step by (auto split: option.splits)
  obtain c4 r4 where c4: "skip_ws r3 = c4 # r4"
    using assms c k c2 v unfolding json_step by (auto simp: Let_def split: list.splits)
  have "c4 = CHR ''}'' \<and> r = r4
       \<and> ms = [(k, take (length (skip_ws r2) - length r3) (skip_ws r2), v)]
     \<or> c4 \<noteq> CHR ''}'' \<and> c4 = CHR '','' \<and> (\<exists>ms'. json_members n d r4 = Some (ms', r)
          \<and> ms = (k, take (length (skip_ws r2) - length r3) (skip_ws r2), v) # ms')"
    using assms c k c2 v c4 unfolding json_step by (auto simp: map_option_apfst_Some Let_def split: if_splits)
  then show thesis using that c k c2 v c4 by blast
qed

lemma json_shorter:
  "json_value n d s = Some (v, r) \<Longrightarrow> length r < length s"
  "json_elements n d s = Some (vs, r) \<Longrightarrow> length r < length s"
  "json_members n d s = Some (ms, r) \<Longrightarrow> length r < length s"
proof (induction n d s and n d s and n d s arbitrary: v r and vs r and ms r
    rule: json_value_json_elements_json_members.induct)
  case (2 n d s)
  show ?case
  proof (cases "skip_ws s")
    case Nil
    then show ?thesis using 2(3) unfolding json_value.simps Nil by simp
  next
    case (Cons c t)
    note lt = skip_ws_Cons [OF Cons]
    have mem: "length r' < length t"
      if "skip_ws t = c2 # t2" "c2 \<noteq> CHR ''}''" "json_members n (Suc d) (c2 # t2) = Some (ms, r')"
        "c \<noteq> quote_char" "c = CHR ''{''" "\<not> maxNestingDepth \<le> d" for ms c2 t2 r'
      using 2(1) [OF Cons that(4,5,6,1,2,3)] skip_ws_shorter [of t] that(1) by simp
    have elem: "length r' < length t"
      if "skip_ws t = c2 # t2" "c2 \<noteq> CHR '']''" "json_elements n (Suc d) (c2 # t2) = Some (vs, r')"
        "c \<noteq> quote_char" "c \<noteq> CHR ''{''" "c = CHR ''[''" "\<not> maxNestingDepth \<le> d" for vs c2 t2 r'
      using 2(2) [OF Cons that(4,5,6,7,1,2,3)] skip_ws_shorter [of t] that(1) by simp
    have num: "length r' \<le> length t" if "scan_number (c # t) = Some (x, r')" for x r'
      using scan_number_shorter [OF that] by simp
    have "length r \<le> length t"
      using 2(3) unfolding json_value.simps Cons list.case
      by (auto simp: map_option_apfst_Some dest!: json_string_shorter scan_literal_shorter num
          dest: mem elem skip_ws_Cons split: if_splits list.splits)
    then show ?thesis using lt by simp
  qed
next
  case (4 n d s)
  from 4(3) obtain v' r1 where v: "json_value n d s = Some (v', r1)"
    unfolding json_step by (auto split: option.splits)
  obtain c t where c: "skip_ws r1 = c # t" using 4(3) v unfolding json_step by (auto split: list.splits)
  have "length r1 < length s" "length t < length r1" using 4(1) [OF v] skip_ws_Cons [OF c] by auto
  then show ?case using 4(3) 4(2) [OF v _ c] v c unfolding json_step
    by (fastforce simp: map_option_apfst_Some split: if_splits)
next
  case (6 n d s)
  from 6(3) show ?case
  proof (cases rule: json_members_SomeE)
    case (1 t k r1 r2 v r3 c4 r4)
    have step: "length t < length s" "length r1 < length t" "length r2 < length r1"
        "length (skip_ws r2) \<le> length r2" "length r4 < length r3"
      using skip_ws_Cons [OF 1(1)] json_string_shorter [OF 1(2)] skip_ws_Cons [OF 1(3)]
        skip_ws_shorter skip_ws_Cons [OF 1(5)] by auto
    have "length r3 < length (skip_ws r2)" using 6(1) [OF 1(1) _ 1(2) _ 1(3) _ 1(4)] by simp
    moreover have "length r < length r4" if "json_members n d r4 = Some (ms', r)"
      "c4 \<noteq> CHR ''}''" "c4 = CHR '',''" for ms'
      using 6(2) [OF 1(1) _ 1(2) _ 1(3) _ 1(4) _ refl 1(5)] that by simp
    ultimately show ?thesis using step 1(6) by auto
  qed
qed auto

text \<open>Fuel beyond twice the length of the text changes nothing.\<close>

lemma json_fuel_Suc:
  "2 * length s + 2 \<le> n \<Longrightarrow> json_value (Suc n) d s = json_value n d s"
  "2 * length s + 3 \<le> n \<Longrightarrow> json_elements (Suc n) d s = json_elements n d s"
  "2 * length s + 1 \<le> n \<Longrightarrow> json_members (Suc n) d s = json_members n d s"
proof (induction n d s and n d s and n d s rule: json_value_json_elements_json_members.induct)
  case (2 n d s)
  show ?case
  proof (cases "skip_ws s")
    case Nil
    show ?thesis unfolding json_value.simps Nil by simp
  next
    case (Cons c t)
    note lt = skip_ws_Cons [OF Cons]
    have "json_members (Suc n) (Suc d) (c2 # t2) = json_members n (Suc d) (c2 # t2)"
      if "skip_ws t = c2 # t2" "c2 \<noteq> CHR ''}''" "c \<noteq> quote_char" "c = CHR ''{''"
        "\<not> maxNestingDepth \<le> d" for c2 t2
      by (rule 2(1) [OF Cons that(3,4,5,1,2)]) (use lt skip_ws_shorter [of t] that(1) 2(3) in simp)
    moreover have "json_elements (Suc n) (Suc d) (c2 # t2) = json_elements n (Suc d) (c2 # t2)"
      if "skip_ws t = c2 # t2" "c2 \<noteq> CHR '']''" "c \<noteq> quote_char" "c \<noteq> CHR ''{''" "c = CHR ''[''"
        "\<not> maxNestingDepth \<le> d" for c2 t2
      by (rule 2(2) [OF Cons that(3,4,5,6,1,2)]) (use lt skip_ws_shorter [of t] that(1) 2(3) in simp)
    ultimately show ?thesis
      unfolding json_value.simps(2) Cons list.case by (auto split: list.splits)
  qed
next
  case (4 n d s)
  then have v: "json_value (Suc n) d s = json_value n d s" by simp
  show ?case
  proof (cases "json_value n d s")
    case None
    show ?thesis unfolding json_elements.simps(2) v None by simp
  next
    case (Some vr)
    obtain w r where w: "json_value n d s = Some (w, r)" using Some by (cases vr) simp
    have "length r < length s" by (rule json_shorter(1) [OF w])
    then have "json_elements (Suc n) d t = json_elements n d t"
      if "skip_ws r = c # t" "c = CHR '',''" for c t
      using 4(2) [OF w refl that(1)] that(2) skip_ws_Cons [OF that(1)] 4(3) by simp
    then show ?thesis unfolding json_elements.simps(2) v w by (auto split: list.splits)
  qed
next
  case (6 n d s)
  show ?case
  proof (cases "skip_ws s")
    case Nil
    show ?thesis unfolding json_members.simps Nil by simp
  next
    case (Cons c t)
    note lt = skip_ws_Cons [OF Cons]
    have v: "json_value (Suc n) d (skip_ws r2) = json_value n d (skip_ws r2)"
      if "\<not> c \<noteq> quote_char" "json_string t = Some (k, r)" "skip_ws r = c2 # r2" "\<not> c2 \<noteq> CHR '':''"
      for k r c2 r2
      by (rule 6(1) [OF Cons that(1,2) refl that(3,4)])
        (use lt json_string_shorter [OF that(2)] skip_ws_Cons [OF that(3)] skip_ws_shorter [of r2]
           6(3) in simp)
    have m: "json_members (Suc n) d r4 = json_members n d r4"
      if "\<not> c \<noteq> quote_char" "json_string t = Some (k, r)" "skip_ws r = c2 # r2" "\<not> c2 \<noteq> CHR '':''"
        "json_value n d (skip_ws r2) = Some (w, r3)" "skip_ws r3 = c4 # r4" "c4 \<noteq> CHR ''}''"
        "c4 = CHR '',''"
      for k r c2 r2 w r3 c4 r4
      by (rule 6(2) [OF Cons that(1,2) refl that(3,4,5) refl refl that(6,7,8)])
        (use lt json_string_shorter [OF that(2)] skip_ws_Cons [OF that(3)] skip_ws_shorter [of r2]
           json_shorter(1) [OF that(5)] skip_ws_Cons [OF that(6)] 6(3) in simp)
    show ?thesis
      unfolding json_members.simps(2) [of "Suc n" d s] json_members.simps(2) [of n d s] Cons list.case
      by (cases "c = quote_char"; cases "json_string t")
        (auto simp: v m Let_def split: list.splits option.splits)
  qed
qed auto


lemma json_fuel:
  assumes "2 * length s + 2 \<le> n"
  shows "json_value n d s = json_value (2 * length s + 2) d s"
  using assms
proof (induction n rule: dec_induct)
  case (step n)
  then show ?case using json_fuel_Suc(1) [of s n d] by simp
qed simp

section \<open>Reading back what was written\<close>

text \<open>What a string becomes on its way through JSON: each invalid byte turns into U+FFFD.\<close>

fun json_repair :: "string \<Rightarrow> string" where
  "json_repair [] = []"
| "json_repair (c # cs) =
     (case head_rune (c # cs) of
        None \<Rightarrow> encodeRune RuneError @ json_repair cs
      | Some (_, n) \<Rightarrow> take n (c # cs) @ json_repair (drop (n - 1) cs))"

lemma json_repair_valid: "ValidString s \<Longrightarrow> json_repair s = s"
proof (induction s rule: json_repair.induct)
  case (2 c cs)
  then obtain r n where h: "head_rune (c # cs) = Some (r, n)" by (auto split: option.splits)
  from head_rune_len [OF h] obtain m where n: "n = Suc m" by (cases n) auto
  from 2 h n show ?case by auto
qed simp

lemma char_of_byte_eq: "byte c = n \<Longrightarrow> char_of n = c"
  by (metis char_of_char)

lemma head_rune_line_separator:
  assumes "head_rune s = Some (r, n)" "r = 8232 \<or> r = 8233"
  shows "take n s = [char_of (226 :: nat), char_of (128 :: nat), char_of (r - 8064)]"
  using assms(1)
proof (cases rule: head_rune_shape)
  case (two c0 c1 s2 lo hi)
  then have "byte c0 < 224" "byte c1 \<le> 191" by (auto simp: first_byte_def split: if_splits)
  then show ?thesis using two(6) assms(2) by auto
next
  case (three c0 c1 c2 s3 lo hi)
  then have b: "224 \<le> byte c0" "128 \<le> byte c1" "byte c1 \<le> 191" "128 \<le> byte c2" "byte c2 \<le> 191"
    by (auto simp: first_byte_def continuation_def split: if_splits)
  obtain x where x: "byte c0 = 224 + x" using b(1) le_Suc_ex by blast
  obtain y where y: "byte c1 = 128 + y" using b(2) le_Suc_ex by blast
  obtain z where z: "byte c2 = 128 + z" using b(4) le_Suc_ex by blast
  have yz: "y < 64" "z < 64" using b(3,5) y z by linarith+
  have r: "x * 4096 + y * 64 + z = r" "8232 \<le> r" "r \<le> 8233"
    using assms(2) unfolding three(7) x y z by auto
  have "x \<le> 2" using r by linarith
  moreover have "2 \<le> x" using r yz by linarith
  ultimately have x2: "x = 2" by simp
  then have y0: "y = 0" using r by linarith
  have e: "x = 2" "y = 0" "z = r - 8192" using r x2 y0 by simp_all
  have "byte c2 = r - 8064" using z e assms(2) by auto
  then show ?thesis using three(1,2) x y e by (simp flip: char_of_byte_eq)
next
  case (four c0 c1 c2 c3 s4 lo hi)
  from first_byte_Some [OF four(3)] have b: "240 \<le> byte c0" "128 \<le> byte c1"
    "byte c0 = 240 \<longrightarrow> 144 \<le> byte c1" using four by auto
  have "65536 \<le> r" unfolding four(8) using b by (cases "byte c0 = 240") auto
  then show ?thesis using assms(2) by auto
qed (use assms in auto)


lemma append_single: "(@) [c] = (#) c"
  by (rule ext) simp

lemma json_string_plain:
  "32 \<le> byte c \<Longrightarrow> byte c < 128 \<Longrightarrow> c \<noteq> quote_char \<Longrightarrow> c \<noteq> backslash \<Longrightarrow>
     json_string (c # cs) = map_option (apfst ((#) c)) (json_string cs)"
  by (simp add: append_single)

lemma json_string_escape:
  "json_string (backslash # cs) =
     (case json_escape cs of
        None \<Rightarrow> None
      | Some (out, rest) \<Rightarrow> map_option (apfst ((@) out)) (json_string rest))"
  by simp

lemma hex_value_digit: "n < 16 \<Longrightarrow> hex_value (hex_digit n) = Some n"
  by (cases "n < 10") (auto simp: hex_value_def hex_digit_def char_between_def of_char_of)

lemma hex4_ascii:
  "b < 128 \<Longrightarrow>
     hex4 (CHR ''0'' # CHR ''0'' # hex_digit (b div 16) # hex_digit (b mod 16) # t) = Some (b, t)"
  by (simp add: hex_value_digit) (simp add: hex_value_def char_between_def)

lemma encodeRune_ascii: "byte c < 128 \<Longrightarrow> encodeRune (byte c) = [c]"
  by (simp add: encodeRune_def Let_def)

lemma json_escape_u: "json_escape (CHR ''u'' # cs) = json_unicode cs"
  by (simp add: json_escape_def)

lemma byte_eqD: "byte c = byte d \<Longrightarrow> c = d"
  by simp

lemma json_ascii_cases:
  obtains (short) d where "json_ascii c = [backslash, d]" "\<And>t. json_escape (d # t) = Some ([c], t)"
  | (unicode) "json_ascii c = backslash # ''u00'' @ [hex_digit (byte c div 16), hex_digit (byte c mod 16)]"
  | (plain) "32 \<le> byte c" "c \<noteq> quote_char" "c \<noteq> backslash" "json_ascii c = [c]"
proof -
  have c: "c = CHR 0x08" if "byte c = 8" by (rule byte_eqD) (simp add: that)
  have c2: "c = CHR 0x0C" if "byte c = 12" by (rule byte_eqD) (simp add: that)
  have c3: "c = CHR 0x0A" if "byte c = 10" by (rule byte_eqD) (simp add: that)
  have c4: "c = CHR 0x0D" if "byte c = 13" by (rule byte_eqD) (simp add: that)
  have c5: "c = CHR 0x09" if "byte c = 9" by (rule byte_eqD) (simp add: that)
  consider "c = quote_char \<or> c = backslash" | "byte c = 8" | "byte c = 12" | "byte c = 10"
    | "byte c = 13" | "byte c = 9"
    | (hex) "\<not> (c = quote_char \<or> c = backslash)" "byte c \<noteq> 8" "byte c \<noteq> 12" "byte c \<noteq> 10"
      "byte c \<noteq> 13" "byte c \<noteq> 9" "byte c < 32 \<or> c \<in> set ''<>&''"
    | (rest) "\<not> (c = quote_char \<or> c = backslash)" "byte c \<noteq> 8" "byte c \<noteq> 12" "byte c \<noteq> 10"
      "byte c \<noteq> 13" "byte c \<noteq> 9" "\<not> (byte c < 32 \<or> c \<in> set ''<>&'')"
    by blast
  then show thesis
  proof cases
    case 1 then show thesis by (intro short [of c]) (auto simp: json_ascii_def json_escape_def)
  next
    case 2
    then show thesis using c by (intro short [of "CHR ''b''"]) (simp_all add: json_ascii_def json_escape_def)
  next
    case 3
    then show thesis using c2 by (intro short [of "CHR ''f''"]) (simp_all add: json_ascii_def json_escape_def)
  next
    case 4
    then show thesis using c3 by (intro short [of "CHR ''n''"]) (simp_all add: json_ascii_def json_escape_def)
  next
    case 5
    then show thesis using c4 by (intro short [of "CHR ''r''"]) (simp_all add: json_ascii_def json_escape_def)
  next
    case 6
    then show thesis using c5 by (intro short [of "CHR ''t''"]) (simp_all add: json_ascii_def json_escape_def)
  next
    case hex
    then have "json_ascii c
        = backslash # ''u00'' @ [hex_digit (byte c div 16), hex_digit (byte c mod 16)]"
      unfolding json_ascii_def by (simp only: if_False if_True)
    then show thesis by (rule unicode)
  next
    case rest
    then have "json_ascii c = [c]" unfolding json_ascii_def by (simp only: if_False)
    then show thesis using rest by (intro plain) auto
  qed
qed

text \<open>Each ASCII character is read back.\<close>

lemma json_string_ascii:
  assumes "byte c < 128"
  shows "json_string (json_ascii c @ t) = map_option (apfst ((#) c)) (json_string t)"
proof (cases c rule: json_ascii_cases)
  case (short d)
  then show ?thesis by (simp only: append_Cons append_Nil json_string_escape option.case prod.case)
      (simp add: apfst_def map_prod_def)
next
  case unicode
  have "json_unicode (''00'' @ [hex_digit (byte c div 16), hex_digit (byte c mod 16)] @ t)
      = Some ([c], t)"
    using assms by (simp add: json_unicode_def hex4_ascii encodeRune_ascii del: hex4.simps)
  then have "json_escape (''u00'' @ [hex_digit (byte c div 16), hex_digit (byte c mod 16)] @ t)
      = Some ([c], t)" by (simp add: json_escape_u)
  then show ?thesis unfolding unicode
    by (simp only: append_Cons append_Nil append_assoc json_string_escape option.case prod.case)
      (simp add: apfst_def map_prod_def)
next
  case plain
  then show ?thesis using assms by (simp add: append_single)
qed


lemma json_string_high:
  assumes "head_rune (c # cs) = Some (r, n)" "128 \<le> byte c"
  shows "json_string (take n (c # cs) @ t)
    = map_option (apfst ((@) (take n (c # cs)))) (json_string t)"
proof -
  from head_rune_len [OF assms(1)] have n: "1 \<le> n" "n \<le> length (c # cs)" by auto
  define xs where "xs = take n (c # cs)"
  obtain ys where xs: "xs = c # ys" using n by (cases n) (auto simp: xs_def)
  have len: "length xs = n" using n by (simp add: xs_def)
  have h: "head_rune (xs @ t) = Some (r, n)"
    using head_rune_append [OF assms(1)] by (simp add: xs_def)
  have ne: "c \<noteq> quote_char" "c \<noteq> backslash" using assms(2) by auto
  have "json_string (xs @ t) = map_option (apfst ((@) (take n (xs @ t)))) (json_string (drop (n - 1) (ys @ t)))"
    using h assms(2) ne by (simp add: xs)
  also have "take n (xs @ t) = xs" using len by simp
  also have "drop (n - 1) (ys @ t) = t" using len xs by auto
  finally show ?thesis by (simp add: xs_def)
qed

lemma encode_separator:
  "json_unicode (''2028'' @ t) = Some ([char_of (226 :: nat), char_of (128 :: nat), char_of (168 :: nat)], t)"
  "json_unicode (''2029'' @ t) = Some ([char_of (226 :: nat), char_of (128 :: nat), char_of (169 :: nat)], t)"
  "json_unicode (''fffd'' @ t) = Some (encodeRune RuneError, t)"
  by (simp_all add: json_unicode_def hex_value_def char_between_def encodeRune_def RuneError_def)

lemma json_string_u:
  assumes "json_unicode cs = Some (out, rest)"
  shows "json_string (backslash # CHR ''u'' # cs) = map_option (apfst ((@) out)) (json_string rest)"
  by (simp only: json_string_escape json_escape_u assms option.case prod.case)

lemma json_string_body: "json_string (json_body s @ quote_char # t) = Some (json_repair s, t)"
proof (induction s rule: json_body.induct)
  case 1
  then show ?case by simp
next
  case (2 c cs)
  consider (ascii) "byte c < 128" | (bad) "128 \<le> byte c" "head_rune (c # cs) = None"
    | (good) r n where "128 \<le> byte c" "head_rune (c # cs) = Some (r, n)"
    by (cases "head_rune (c # cs)") force+
  then show ?case
  proof cases
    case ascii
    then have "json_body (c # cs) = json_ascii c @ json_body cs" "json_repair (c # cs) = c # json_repair cs"
      by (simp_all add: head_rune_ascii)
    then show ?thesis using 2(1) ascii by (simp add: json_string_ascii)
  next
    case bad
    then have "json_body (c # cs) = backslash # CHR ''u'' # ''fffd'' @ json_body cs"
      "json_repair (c # cs) = encodeRune RuneError @ json_repair cs" by simp_all
    then show ?thesis using 2(2) bad json_string_u [OF encode_separator(3)] by simp
  next
    case good
    have IH: "json_string (json_body (drop (n - 1) cs) @ quote_char # t)
        = Some (json_repair (drop (n - 1) cs), t)" using 2(3) good by simp
    have rep: "json_repair (c # cs) = take n (c # cs) @ json_repair (drop (n - 1) cs)" using good by simp
    consider "r = 8232" | "r = 8233" | "r \<noteq> 8232" "r \<noteq> 8233" by blast
    then show ?thesis
    proof cases
      case 1
      then have "json_body (c # cs) = backslash # CHR ''u'' # ''2028'' @ json_body (drop (n - 1) cs)"
        using good by simp
      then show ?thesis using IH rep head_rune_line_separator [OF good(2)] 1
          json_string_u [OF encode_separator(1)] by simp
    next
      case 2
      then have "json_body (c # cs) = backslash # CHR ''u'' # ''2029'' @ json_body (drop (n - 1) cs)"
        using good by simp
      then show ?thesis using IH rep head_rune_line_separator [OF good(2)] 2
          json_string_u [OF encode_separator(2)] by simp
    next
      case 3
      then have "json_body (c # cs) = take n (c # cs) @ json_body (drop (n - 1) cs)" using good by simp
      then show ?thesis using IH rep json_string_high [OF good(2,1)] by simp
    qed
  qed
qed


text \<open>A text that scans to a value wherever a comma or a brace follows.\<close>

definition reads :: "string \<Rightarrow> json \<Rightarrow> bool" where
  "reads text v \<longleftrightarrow> text \<noteq> [] \<and> \<not> json_space (hd text)
     \<and> (\<forall>n d c rest. 2 * length (text @ c # rest) + 2 \<le> n \<longrightarrow> c = CHR '','' \<or> c = CHR ''}'' \<longrightarrow>
          json_value n d (text @ c # rest) = Some (v, c # rest))"

lemma json_space_not [simp]:
  "\<not> json_space quote_char" "\<not> json_space (CHR '','')" "\<not> json_space (CHR '':'')"
  "\<not> json_space (CHR ''{'')" "\<not> json_space (CHR ''}'')" "\<not> json_space (CHR ''-'')"
  by (simp_all add: json_space_def)

lemma reads_quote: "reads (json_quote s) (JString (json_repair s))"
  unfolding reads_def
proof (intro conjI allI impI)
  fix n d c rest
  assume "2 * length (json_quote s @ c # rest) + 2 \<le> n"
  then obtain m where n: "n = Suc m" by (cases n) auto
  show "json_value n d (json_quote s @ c # rest) = Some (JString (json_repair s), c # rest)"
    unfolding n json_step json_quote_def
    by (simp add: skip_ws_unspaced json_string_body)
qed (simp_all add: json_quote_def)

lemma digit_facts:
  assumes "is_digit c"
  shows "c \<noteq> quote_char" "c \<noteq> CHR ''{''" "c \<noteq> CHR ''[''" "c \<noteq> CHR ''t''" "c \<noteq> CHR ''f''" "c \<noteq> CHR ''n''"
    "\<not> json_space c" "c \<noteq> CHR ''-''"
  using assms by (auto simp: char_between_def json_space_def)

lemma decimal_hd: "0 < n \<Longrightarrow> hd (decimal n) \<noteq> CHR ''0''"
proof (induction n rule: decimal.induct)
  case (1 n)
  show ?case
  proof (cases "n < 10")
    case True
    then have "byte (digit_of n) \<noteq> 48" using 1(2) by (simp add: byte_digit_of)
    then show ?thesis using True by (auto simp: decimal.simps [of n])
  next
    case False
    then show ?thesis using 1(1) by (simp add: decimal.simps [of n])
  qed
qed

lemma scan_integer_decimal:
  assumes "\<not> is_digit c"
  shows "scan_integer (decimal n @ c # rest) = Some (decimal n, c # rest)"
proof (cases "n = 0")
  case True
  have "digit_of 0 = CHR ''0''" by (rule byte_eqD) (simp add: byte_digit_of)
  then show ?thesis using True by (simp add: scan_integer_def decimal.simps [of 0])
next
  case False
  obtain x xs where x: "decimal n = x # xs" by (cases "decimal n") auto
  have all: "\<forall>y \<in> set (decimal n). is_digit y" using decimal_digits by blast
  have "takeWhile is_digit (decimal n @ c # rest) = decimal n"
    "dropWhile is_digit (decimal n @ c # rest) = c # rest"
    using all assms by (simp_all add: takeWhile_append dropWhile_append)
  moreover have "x \<noteq> CHR ''0''" "is_digit x" using decimal_hd [of n] False x all by auto
  ultimately show ?thesis unfolding x by (simp add: scan_integer_def)
qed

lemma scan_number_Itoa:
  assumes "c = CHR '','' \<or> c = CHR ''}''"
  shows "scan_number (Itoa i @ c # rest) = Some (Itoa i, c # rest)"
proof -
  have nd: "\<not> is_digit c" "c \<noteq> CHR ''.''" "c \<noteq> CHR ''e''" "c \<noteq> CHR ''E''"
    using assms by (auto simp: char_between_def)
  have tail: "scan_fraction (c # rest) = Some ([], c # rest)" "scan_exponent (c # rest) = Some ([], c # rest)"
    using nd by (simp_all add: scan_fraction_def scan_exponent_def)
  have nonneg: "scan_number (decimal n @ c # rest) = Some (decimal n, c # rest)" for n
  proof -
    obtain x xs where x: "decimal n = x # xs" by (cases "decimal n") auto
    then have "x \<noteq> CHR ''-''" using decimal_digits [of x n] digit_facts by auto
    then show ?thesis using scan_integer_decimal [OF nd(1), of n rest] tail
      by (simp add: scan_number_def x)
  qed
  show ?thesis
  proof (cases "i < 0")
    case True
    then show ?thesis using scan_integer_decimal [OF nd(1)] tail by (simp add: Itoa_def scan_number_def)
  next
    case False
    then show ?thesis using nonneg by (simp add: Itoa_def)
  qed
qed

lemma Itoa_hd: obtains x xs where "Itoa i = x # xs" "is_digit x \<or> x = CHR ''-''"
proof (cases "i < 0")
  case True
  then show thesis by (intro that [of "CHR ''-''" "decimal (nat (- i))"]) (auto simp: Itoa_def)
next
  case False
  obtain x xs where "decimal (nat i) = x # xs" by (cases "decimal (nat i)") auto
  then show thesis using that [of x xs] decimal_digits [of x "nat i"] False by (simp add: Itoa_def)
qed

lemma reads_Itoa: "reads (Itoa i) (JNumber (Itoa i))"
proof -
  obtain x xs where x: "Itoa i = x # xs" "is_digit x \<or> x = CHR ''-''" by (rule Itoa_hd)
  have ne: "x \<noteq> quote_char" "x \<noteq> CHR ''{''" "x \<noteq> CHR ''[''" "x \<noteq> CHR ''t''" "x \<noteq> CHR ''f''"
    "x \<noteq> CHR ''n''" "\<not> json_space x" using x(2) digit_facts [of x] by auto
  show ?thesis unfolding reads_def
  proof (intro conjI allI impI)
    fix n d c rest
    assume "2 * length (Itoa i @ c # rest) + 2 \<le> n" and c: "c = CHR '','' \<or> c = CHR ''}''"
    then obtain m where n: "n = Suc m" by (cases n) auto
    show "json_value n d (Itoa i @ c # rest) = Some (JNumber (Itoa i), c # rest)"
      using scan_number_Itoa [OF c, of i rest] ne
      unfolding n json_step x(1) by (simp add: skip_ws_unspaced)
  qed (use x ne in auto)
qed

text \<open>An object written member by member, each with the text of its value.\<close>

fun members_text :: "(string \<times> string) list \<Rightarrow> string" where
  "members_text [] = []"
| "members_text [(k, t)] = json_quote k @ '':'' @ t"
| "members_text ((k, t) # m # ms) = json_quote k @ '':'' @ t @ '','' @ members_text (m # ms)"

definition object_text :: "(string \<times> string) list \<Rightarrow> string" where
  "object_text ms = ''{'' @ members_text ms @ ''}''"

lemma json_members_text:
  assumes "ms \<noteq> []" "\<forall>(k, t, v) \<in> set ms. reads t v"
    and "2 * length (members_text (map (\<lambda>(k, t, v). (k, t)) ms) @ CHR ''}'' # rest) + 1 \<le> n"
  shows "json_members n d (members_text (map (\<lambda>(k, t, v). (k, t)) ms) @ CHR ''}'' # rest)
    = Some (map (\<lambda>(k, t, v). (json_repair k, t, v)) ms, rest)"
  using assms
proof (induction ms arbitrary: n)
  case (Cons m ms)
  obtain k t v where m: "m = (k, t, v)" by (cases m)
  have r: "reads t v" using Cons.prems(2) m by simp
  obtain x xs where t: "t = x # xs" "\<not> json_space x" using r by (cases t) (auto simp: reads_def)
  obtain n' where n: "n = Suc n'" using Cons.prems(3) by (cases n) auto
  have val: "json_value n' d (t @ c # u) = Some (v, c # u)"
    if "2 * length (t @ c # u) + 2 \<le> n'" "c = CHR '','' \<or> c = CHR ''}''" for c u
    using r that unfolding reads_def by blast
  show ?case
  proof (cases "ms = []")
    case True
    have "json_value n' d (t @ CHR ''}'' # rest) = Some (v, CHR ''}'' # rest)"
      using Cons.prems(3) True by (intro val) (auto simp: m n json_quote_def)
    then show ?thesis using True t
      by (simp add: m n json_step json_quote_def json_string_body skip_ws_unspaced Let_def)
  next
    case False
    let ?more = "members_text (map (\<lambda>(k, t, v). (k, t)) ms)"
    have more: "members_text (map (\<lambda>(k, t, v). (k, t)) (m # ms)) = json_quote k @ '':'' @ t @ '','' @ ?more"
      using False by (cases ms) (auto simp: m)
    have v: "json_value n' d (t @ CHR '','' # ?more @ CHR ''}'' # rest)
        = Some (v, CHR '','' # ?more @ CHR ''}'' # rest)"
      using Cons.prems(3) unfolding more by (intro val) (auto simp: n json_quote_def)
    have "json_members n' d (?more @ CHR ''}'' # rest)
        = Some (map (\<lambda>(k, t, v). (json_repair k, t, v)) ms, rest)"
      using Cons.prems(2,3) False unfolding more by (intro Cons.IH) (auto simp: n json_quote_def)
    then show ?thesis using v t unfolding more
      by (simp add: m n json_step json_quote_def json_string_body skip_ws_unspaced Let_def)
  qed
qed simp


lemma members_text_hd:
  "ms \<noteq> [] \<Longrightarrow> \<exists>xs. members_text ms = quote_char # xs"
  by (cases ms rule: members_text.cases) (auto simp: json_quote_def)

theorem json_object_roundtrip:
  assumes "ms \<noteq> []" "\<forall>(k, t, v) \<in> set ms. reads t v"
  shows "json_decode (object_text (map (\<lambda>(k, t, v). (k, t)) ms) @ rest)
    = Some (JObject (map (\<lambda>(k, t, v). (json_repair k, t, v)) ms), rest)"
proof -
  let ?m = "members_text (map (\<lambda>(k, t, v). (k, t)) ms)"
  obtain xs where xs: "?m = quote_char # xs" using members_text_hd [of "map (\<lambda>(k, t, v). (k, t)) ms"] assms(1) by auto
  have whole: "object_text (map (\<lambda>(k, t, v). (k, t)) ms) @ rest = CHR ''{'' # ?m @ CHR ''}'' # rest"
    by (simp add: object_text_def)
  define n where "n = 2 * length (?m @ CHR ''}'' # rest) + 3"
  have "json_members n 1 (?m @ CHR ''}'' # rest)
      = Some (map (\<lambda>(k, t, v). (json_repair k, t, v)) ms, rest)"
    by (rule json_members_text [OF assms]) (simp add: n_def)
  then have "json_value (Suc n) 0 (CHR ''{'' # ?m @ CHR ''}'' # rest)
      = Some (JObject (map (\<lambda>(k, t, v). (json_repair k, t, v)) ms), rest)"
    unfolding json_step by (simp add: skip_ws_unspaced xs maxNestingDepth_def)
  moreover have "2 * length (CHR ''{'' # ?m @ CHR ''}'' # rest) + 2 = Suc n" by (simp add: n_def)
  ultimately show ?thesis unfolding json_decode_def whole by (simp only:)
qed

lemma json_object_unmarshal:
  assumes "ms \<noteq> []" "\<forall>(k, t, v) \<in> set ms. reads t v"
  shows "json_unmarshal (object_text (map (\<lambda>(k, t, v). (k, t)) ms))
    = Some (JObject (map (\<lambda>(k, t, v). (json_repair k, t, v)) ms))"
  using json_object_roundtrip [OF assms, of "[]"] by (simp add: json_unmarshal_def)

text \<open>What the encoder writes has no control character, so no newline.\<close>

lemma hex_digit_printable: "n < 16 \<Longrightarrow> 32 \<le> byte (hex_digit n)"
  by (simp add: hex_digit_def of_char_of)

lemma json_ascii_printable:
  assumes "byte c < 128" "x \<in> set (json_ascii c)"
  shows "32 \<le> byte x"
proof (cases c rule: json_ascii_cases)
  case (short d)
  have "d \<in> set ''btnfr'' \<or> d = quote_char \<or> d = backslash" 
    using short(1) by (auto simp: json_ascii_def split: if_splits)
  then show ?thesis using assms(2) short(1) by auto
next
  case unicode
  then show ?thesis using assms by (auto intro!: hex_digit_printable)
qed (use assms in auto)

lemma json_body_printable: "x \<in> set (json_body s) \<Longrightarrow> 32 \<le> byte x"
proof (induction s rule: json_body.induct)
  case (2 c cs)
  show ?case
  proof (cases "byte c < 128")
    case True
    then show ?thesis using 2 json_ascii_printable by auto
  next
    case False
    show ?thesis
    proof (cases "head_rune (c # cs)")
      case None
      then show ?thesis using 2 False by auto
    next
      case (Some rn)
      obtain r n where rn: "rn = (r, n)" by (cases rn)
      have "n \<noteq> 1" using head_rune_bytes [of "c # cs" r n] Some rn False by auto
      then have "y \<in> set (take n (c # cs)) \<Longrightarrow> 32 \<le> byte y" for y
        using head_rune_high [of "c # cs" r n y] Some rn by simp
      then show ?thesis using 2 False Some rn by (auto split: if_splits)
    qed
  qed
qed simp

lemma json_quote_printable: "x \<in> set (json_quote s) \<Longrightarrow> 32 \<le> byte x"
  by (auto simp: json_quote_def dest: json_body_printable)

section \<open>Decoding into a struct\<close>

text \<open>
  A member goes to the field of that name; letter case does not matter, and neither does the long s
  or the Kelvin sign. A later member overwrites an earlier one, \<open>null\<close> leaves the field as it is, and
  a value of another type is an error.
\<close>

definition fold_rune :: "nat \<Rightarrow> nat" where
  "fold_rune r =
     (if 97 \<le> r \<and> r \<le> 122 then r - 32
      else if r = 383 then 83
      else if r = 8490 then 75
      else r)"

definition fold_name :: "string \<Rightarrow> nat list" where
  "fold_name k = map fold_rune (runes k)"

type_synonym json_members = "(string \<times> string \<times> json) list"

definition members_named :: "string \<Rightarrow> json_members \<Rightarrow> json list" where
  "members_named name ms = map (\<lambda>(k, t, v). v) (filter (\<lambda>(k, t, v). fold_name k = fold_name name) ms)"

fun string_step :: "string option \<Rightarrow> json \<Rightarrow> string option" where
  "string_step acc JNull = acc"
| "string_step acc (JString s) = map_option (\<lambda>_. s) acc"
| "string_step acc v = None"

definition string_field :: "string \<Rightarrow> json_members \<Rightarrow> string option" where
  "string_field name ms = foldl string_step (Some []) (members_named name ms)"

text \<open>\<open>strconv.ParseInt\<close> on the text of a JSON number\<close>

definition parse_int64 :: "string \<Rightarrow> int option" where
  "parse_int64 s =
     (let (neg, ds) = (case s of c # t \<Rightarrow> if c = CHR ''-'' then (True, t) else (False, s) | [] \<Rightarrow> (False, s))
      in if ds = [] \<or> \<not> list_all is_digit ds then None
         else let i = (if neg then - int (digits_value ds) else int (digits_value ds))
              in if - (2 ^ 63) \<le> i \<and> i < 2 ^ 63 then Some i else None)"

fun int_step :: "int option \<Rightarrow> json \<Rightarrow> int option" where
  "int_step acc JNull = acc"
| "int_step acc (JNumber t) = (case acc of None \<Rightarrow> None | Some _ \<Rightarrow> parse_int64 t)"
| "int_step acc v = None"

definition int_field :: "string \<Rightarrow> json_members \<Rightarrow> int option" where
  "int_field name ms = foldl int_step (Some 0) (members_named name ms)"

text \<open>The members of a document that is decoded into a struct: \<open>null\<close> leaves the whole struct.\<close>

definition struct_members :: "json option \<Rightarrow> json_members option" where
  "struct_members v =
     (case v of Some (JObject ms) \<Rightarrow> Some ms | Some JNull \<Rightarrow> Some [] | _ \<Rightarrow> None)"

lemma digits_value_list: "list_all is_digit (decimal n)"
  by (auto simp: list_all_iff dest: decimal_digits)

lemma parse_int64_Itoa:
  assumes "- (2 ^ 63) \<le> i" "i < 2 ^ 63"
  shows "parse_int64 (Itoa i) = Some i"
proof (cases "i < 0")
  case True
  then show ?thesis using assms by (simp add: parse_int64_def Itoa_def digits_value_list Let_def)
next
  case False
  obtain x xs where x: "decimal (nat i) = x # xs" by (cases "decimal (nat i)") auto
  then have "x \<noteq> CHR ''-''" using decimal_digits [of x "nat i"] digit_facts [of x] by auto
  then have "(case decimal (nat i) of c # t \<Rightarrow> if c = CHR ''-'' then (True, t) else (False, decimal (nat i))
      | [] \<Rightarrow> (False, decimal (nat i))) = (False, decimal (nat i))" by (simp add: x)
  then show ?thesis using False assms
    by (simp add: parse_int64_def Itoa_def digits_value_list Let_def)
qed

end
