(* ===== verification/RFC3339.thy ===== *)
theory RFC3339
  imports GoStrings "HOL-Library.Monad_Syntax"
begin

text \<open>
  What the program uses of package \<open>time\<close>: parsing a time stamp with the layout \<open>time.RFC3339Nano\<close>
  and formatting one in UTC with that layout. An instant is a number of nanoseconds since the Unix
  epoch in the proleptic Gregorian calendar. Parsing follows the general routine of the package, which
  accepts what its faster routine for this layout accepts and a little more: an hour of one digit, a
  comma before the fraction, and offsets of up to 24 hours.
\<close>

section \<open>The calendar\<close>

definition leap_year :: "int \<Rightarrow> bool" where
  "leap_year y \<longleftrightarrow> 4 dvd y \<and> (\<not> 100 dvd y \<or> 400 dvd y)"

text \<open>Days from the first of January of year 1 to that of year \<open>y\<close>.\<close>

definition days_before_year :: "int \<Rightarrow> int" where
  "days_before_year y = 365 * (y - 1) + (y - 1) div 4 - (y - 1) div 100 + (y - 1) div 400"

definition month_starts :: "int list" where
  "month_starts = [0, 31, 59, 90, 120, 151, 181, 212, 243, 273, 304, 334]"

definition days_before_month :: "bool \<Rightarrow> nat \<Rightarrow> int" where
  "days_before_month leap m = month_starts ! (m - 1) + (if leap \<and> 2 < m then 1 else 0)"

definition days_in :: "bool \<Rightarrow> nat \<Rightarrow> int" where
  "days_in leap m =
     (if m = 2 then (if leap then 29 else 28) else if m \<in> {4, 6, 9, 11} then 30 else 31)"

text \<open>The day number of the Unix epoch, 1970-01-01.\<close>

definition epoch_day :: int where "epoch_day = 719162"

definition day_number :: "int \<Rightarrow> nat \<Rightarrow> int \<Rightarrow> int" where
  "day_number y m d = days_before_year y + days_before_month (leap_year y) m + d - 1"

definition year_of :: "int \<Rightarrow> int" where
  "year_of day =
     (let guess = 400 * day div 146097 + 1
      in if days_before_year (guess + 1) \<le> day then guess + 1 else guess)"

definition month_of :: "bool \<Rightarrow> int \<Rightarrow> nat" where
  "month_of leap yday =
     (if yday < 31 then 1
      else let yd = (if leap then yday - 1 else yday)
      in if yday < (if leap then 60 else 59) then 2
         else if yd < 90 then 3
         else if yd < 120 then 4
         else if yd < 151 then 5
         else if yd < 181 then 6
         else if yd < 212 then 7
         else if yd < 243 then 8
         else if yd < 273 then 9
         else if yd < 304 then 10
         else if yd < 334 then 11
         else 12)"

section \<open>Formatting\<close>

definition pad :: "nat \<Rightarrow> nat \<Rightarrow> string" where
  "pad w n = replicate (w - length (decimal n)) (CHR ''0'') @ decimal n"

definition format_year :: "int \<Rightarrow> string" where
  "format_year y = (if y < 0 then CHR ''-'' # pad 4 (nat (- y)) else pad 4 (nat y))"

text \<open>The fraction of a second without trailing zeros, or nothing.\<close>

definition trim_zeros :: "string \<Rightarrow> string" where
  "trim_zeros s = rev (dropWhile (\<lambda>c. c = CHR ''0'') (rev s))"

definition format_fraction :: "int \<Rightarrow> string" where
  "format_fraction nsec = (if nsec = 0 then [] else CHR ''.'' # trim_zeros (pad 9 (nat nsec)))"

definition date_of :: "int \<Rightarrow> int \<times> nat \<times> int" where
  "date_of day =
     (let y = year_of day;
          yday = day - days_before_year y;
          m = month_of (leap_year y) yday
      in (y, m, yday - days_before_month (leap_year y) m + 1))"

text \<open>\<open>t.UTC().Format(time.RFC3339Nano)\<close>\<close>

definition format_time :: "go_time \<Rightarrow> string" where
  "format_time t =
     (let secs = t div Second;
          tod = secs mod 86400;
          (y, m, d) = date_of (secs div 86400 + epoch_day)
      in format_year y @ ''-'' @ pad 2 m @ ''-'' @ pad 2 (nat d) @ ''T''
         @ pad 2 (nat (tod div 3600)) @ '':'' @ pad 2 (nat (tod div 60 mod 60)) @ '':''
         @ pad 2 (nat (tod mod 60)) @ format_fraction (t mod Second) @ ''Z'')"

section \<open>Parsing\<close>

fun take_char :: "char \<Rightarrow> string \<Rightarrow> string option" where
  "take_char c [] = None"
| "take_char c (x # s) = (if x = c then Some s else None)"

text \<open>\<open>getnum\<close> with and without the demand for two digits\<close>

definition two_digits :: "string \<Rightarrow> (nat \<times> string) option" where
  "two_digits s =
     (case s of
        a # b # t \<Rightarrow> if is_digit a \<and> is_digit b then Some (digits_value [a, b], t) else None
      | _ \<Rightarrow> None)"

definition one_or_two_digits :: "string \<Rightarrow> (nat \<times> string) option" where
  "one_or_two_digits s =
     (case s of
        [] \<Rightarrow> None
      | a # t \<Rightarrow>
          if \<not> is_digit a then None
          else case t of
                 [] \<Rightarrow> Some (digits_value [a], t)
               | b # u \<Rightarrow> if is_digit b then Some (digits_value [a, b], u)
                          else Some (digits_value [a], t))"

definition four_digits :: "string \<Rightarrow> (nat \<times> string) option" where
  "four_digits s =
     (case s of
        a # b # c # d # t \<Rightarrow>
          if is_digit a \<and> is_digit b \<and> is_digit c \<and> is_digit d
          then Some (digits_value [a, b, c, d], t) else None
      | _ \<Rightarrow> None)"

text \<open>\<open>parseNanoseconds\<close>: of the digits the first nine count.\<close>

definition nanoseconds :: "string \<Rightarrow> int" where
  "nanoseconds ds = (let k = take 9 ds in int (digits_value k) * 10 ^ (9 - length k))"

definition parse_fraction :: "string \<Rightarrow> int \<times> string" where
  "parse_fraction s =
     (case s of
        c # t \<Rightarrow>
          if (c = CHR ''.'' \<or> c = CHR '','') \<and> takeWhile is_digit t \<noteq> []
          then (nanoseconds (takeWhile is_digit t), dropWhile is_digit t)
          else (0, s)
      | [] \<Rightarrow> (0, s))"

text \<open>The offset of the zone in seconds\<close>

definition parse_zone :: "string \<Rightarrow> (int \<times> string) option" where
  "parse_zone s =
     (case s of
        [] \<Rightarrow> None
      | sign # t \<Rightarrow>
          if sign = CHR ''Z'' then Some (0, t)
          else do {
            (hr, t) \<leftarrow> two_digits t;
            t \<leftarrow> take_char (CHR '':'') t;
            (mm, t) \<leftarrow> two_digits t;
            if 24 < hr \<or> 60 < mm then None
            else if sign = CHR ''+'' then Some (int ((hr * 60 + mm) * 60), t)
            else if sign = CHR ''-'' then Some (- int ((hr * 60 + mm) * 60), t)
            else None
          })"

definition instant :: "int \<Rightarrow> nat \<Rightarrow> int \<Rightarrow> nat \<Rightarrow> nat \<Rightarrow> nat \<Rightarrow> int \<Rightarrow> go_time" where
  "instant y m d hour minute sec nsec =
     ((((day_number y m d - epoch_day) * 24 + int hour) * 60 + int minute) * 60 + int sec) * Second + nsec"

definition parse_time :: "string \<Rightarrow> go_time option" where
  "parse_time s = do {
     (y, s) \<leftarrow> four_digits s;
     s \<leftarrow> take_char (CHR ''-'') s;
     (m, s) \<leftarrow> two_digits s;
     s \<leftarrow> take_char (CHR ''-'') s;
     (d, s) \<leftarrow> two_digits s;
     s \<leftarrow> take_char (CHR ''T'') s;
     (hour, s) \<leftarrow> one_or_two_digits s;
     s \<leftarrow> take_char (CHR '':'') s;
     (minute, s) \<leftarrow> two_digits s;
     s \<leftarrow> take_char (CHR '':'') s;
     (sec, s) \<leftarrow> two_digits s;
     let (nsec, s) = parse_fraction s;
     (offset, s) \<leftarrow> parse_zone s;
     if m < 1 \<or> 12 < m \<or> 24 \<le> hour \<or> 60 \<le> minute \<or> 60 \<le> sec \<or> s \<noteq> []
        \<or> d < 1 \<or> days_in (leap_year (int y)) m < int d then None
     else Some (instant (int y) m (int d) hour minute sec nsec - offset * Second)
   }"

section \<open>The calendar is one\<close>

lemma div_bounds: "0 < k \<Longrightarrow> k * (z div k) \<le> z \<and> z < k * (z div k) + k" for k z :: int
proof -
  assume "0 < k"
  then have "0 \<le> z mod k" "z mod k < k" by simp_all
  then show ?thesis using mult_div_mod_eq [of k z] by linarith
qed

lemma div_pred:
  fixes k y :: int
  assumes "0 < k"
  shows "y div k = (y - 1) div k + (if k dvd y then 1 else 0)"
proof -
  define q r where "q = y div k" and "r = y mod k"
  have y: "y = k * q + r" unfolding q_def r_def by (rule mult_div_mod_eq [symmetric])
  have r: "0 \<le> r" "r < k" unfolding r_def using assms by (rule pos_mod_sign, rule pos_mod_bound)
  show ?thesis
  proof (cases "k dvd y")
    case True
    then have "r = 0" unfolding r_def by (simp only: dvd_imp_mod_0)
    then have "y - 1 = k * (q - 1) + (k - 1)" using y by (simp add: algebra_simps)
    then have "(y - 1) div k = q - 1" by (rule int_div_pos_eq) (use assms in auto)
    then show ?thesis using True by (simp add: q_def)
  next
    case False
    then have "0 < r" using r(1) unfolding r_def by (simp add: dvd_eq_mod_eq_0)
    have "y - 1 = k * q + (r - 1)" using y by simp
    then have "(y - 1) div k = q" by (rule int_div_pos_eq) (use r(2) \<open>0 < r\<close> in auto)
    then show ?thesis using False by (simp add: q_def)
  qed
qed

lemma days_before_year_bounds:
  "146097 * (y - 1) - 699 \<le> 400 * days_before_year y
     \<and> 400 * days_before_year y \<le> 146097 * (y - 1) + 396"
proof -
  define z where "z = y - 1"
  have b: "4 * (z div 4) \<le> z" "z < 4 * (z div 4) + 4"
    "100 * (z div 100) \<le> z" "z < 100 * (z div 100) + 100"
    "400 * (z div 400) \<le> z" "z < 400 * (z div 400) + 400"
    using div_bounds [of 4 z] div_bounds [of 100 z] div_bounds [of 400 z] by auto
  show ?thesis
    unfolding days_before_year_def z_def [symmetric] using b by (simp add: algebra_simps)
qed

lemma year_of_bounds: "days_before_year (year_of day) \<le> day \<and> day < days_before_year (year_of day + 1)"
proof -
  define g where "g = 400 * day div 146097"
  have g: "146097 * g \<le> 400 * day" "400 * day < 146097 * g + 146097"
    using div_bounds [of 146097 "400 * day"] by (simp_all add: g_def)
  have "days_before_year (g + 1) \<le> day"
    using days_before_year_bounds [of "g + 1"] g by simp
  moreover have "day < days_before_year (g + 3)"
    using days_before_year_bounds [of "g + 3"] g by simp
  ultimately show ?thesis unfolding year_of_def g_def [symmetric] Let_def
    by (auto simp: add.assoc)
qed

lemma days_before_year_Suc:
  "days_before_year (y + 1) = days_before_year y + (if leap_year y then 366 else 365)"
proof -
  have next_day: "days_before_year (y + 1) = 365 * y + y div 4 - y div 100 + y div 400"
    by (simp add: days_before_year_def)
  have count: "(if a then 1 else 0) - (if b then 1 else 0) + (if c then 1 else 0)
      = (if a \<and> (\<not> b \<or> c) then 1 else 0 :: int)" if "b \<Longrightarrow> a" "c \<Longrightarrow> b" for a b c
    using that by auto
  have "(if 4 dvd y then 1 else 0) - (if 100 dvd y then 1 else 0) + (if 400 dvd y then 1 else 0)
      = (if leap_year y then 1 else 0 :: int)"
    unfolding leap_year_def by (rule count; erule dvd_trans [rotated]; simp)
  moreover have "365 * y + (p + a) - (q + b) + (r + c) = 365 * (y - 1) + p - q + r + (365 + l)"
    if "a - b + c = l" for a b c l p q r :: int
    using that by simp
  ultimately have "days_before_year (y + 1) = days_before_year y + (365 + (if leap_year y then 1 else 0))"
    unfolding next_day days_before_year_def [of y] div_pred [of 4 y, simplified]
      div_pred [of 100 y, simplified] div_pred [of 400 y, simplified] by blast
  then show ?thesis by simp
qed

lemma days_before_year_mono: "y \<le> z \<Longrightarrow> days_before_year y \<le> days_before_year z"
proof (induction z rule: int_ge_induct)
  case (step z)
  then show ?case using days_before_year_Suc [of z] by (auto split: if_splits)
qed simp

lemma days_before_months:
  "days_before_month leap (Suc 0) = 0" "days_before_month leap 2 = 31"
  "days_before_month leap 3 = (if leap then 60 else 59)" "days_before_month leap 4 = (if leap then 91 else 90)"
  "days_before_month leap 5 = (if leap then 121 else 120)" "days_before_month leap 6 = (if leap then 152 else 151)"
  "days_before_month leap 7 = (if leap then 182 else 181)" "days_before_month leap 8 = (if leap then 213 else 212)"
  "days_before_month leap 9 = (if leap then 244 else 243)" "days_before_month leap 10 = (if leap then 274 else 273)"
  "days_before_month leap 11 = (if leap then 305 else 304)" "days_before_month leap 12 = (if leap then 335 else 334)"
  by (simp_all add: days_before_month_def month_starts_def)

lemma month_of_range:
  assumes "0 \<le> yday" "yday < (if leap then 366 else 365)"
  shows "1 \<le> month_of leap yday" "month_of leap yday \<le> 12"
    "days_before_month leap (month_of leap yday) \<le> yday"
    "yday < days_before_month leap (month_of leap yday) + days_in leap (month_of leap yday)"
  using assms unfolding month_of_def Let_def
  by (simp_all add: days_before_months days_in_def split: if_splits)

lemma date_of_day:
  assumes "date_of day = (y, m, d)"
  shows "1 \<le> m" "m \<le> 12" "1 \<le> d" "d \<le> days_in (leap_year y) m" "day_number y m d = day"
    "y = year_of day"
proof -
  define yday where "yday = day - days_before_year y"
  have y: "y = year_of day" "m = month_of (leap_year y) yday"
    "d = yday - days_before_month (leap_year y) m + 1"
    using assms by (auto simp: date_of_def Let_def yday_def)
  have "0 \<le> yday" "yday < (if leap_year y then 366 else 365)"
    using year_of_bounds [of day] days_before_year_Suc [of y] by (auto simp: yday_def y(1))
  note r = month_of_range [OF this]
  show "1 \<le> m" "m \<le> 12" "1 \<le> d" "d \<le> days_in (leap_year y) m" using r y by auto
  show "day_number y m d = day" by (simp add: day_number_def y(3) yday_def)
  show "y = year_of day" by (rule y)
qed


section \<open>Reading back a formatted time\<close>

lemma digit_is_digit: "is_digit (digit_of n)"
  by (simp add: char_between_def byte_digit_of)

lemma digits_value_Cons:
  "digits_value (c # s) = (byte c - 48) * 10 ^ length s + digits_value s"
proof (induction s rule: rev_induct)
  case Nil
  show ?case by (simp add: digits_value_def)
next
  case (snoc x xs)
  have "digits_value (c # xs @ [x]) = digits_value (c # xs) * 10 + (byte x - 48)"
    using digits_value_snoc [of "c # xs" x] by simp
  then show ?case using snoc by (simp add: algebra_simps)
qed

lemma length_decimal: "0 < w \<Longrightarrow> n < 10 ^ w \<Longrightarrow> length (decimal n) \<le> w"
proof (induction n arbitrary: w rule: decimal.induct)
  case (1 n)
  show ?case
  proof (cases "n < 10")
    case True
    then show ?thesis using 1 by (simp add: decimal.simps [of n])
  next
    case False
    then obtain v where w: "w = Suc v" "0 < v" using 1(2,3) by (cases w; cases "w - 1") auto
    then have "n div 10 < 10 ^ v" using 1(3) by (simp add: less_mult_imp_div_less mult.commute)
    then show ?thesis using 1(1) [OF False w(2)] False w by (simp add: decimal.simps [of n])
  qed
qed

lemma pad_length: "0 < w \<Longrightarrow> n < 10 ^ w \<Longrightarrow> length (pad w n) = w"
  using length_decimal [of w n] by (simp add: pad_def)

lemma pad_digits: "c \<in> set (pad w n) \<Longrightarrow> is_digit c"
  by (auto simp: pad_def char_between_def dest: decimal_digits)

lemma digits_value_pad: "digits_value (pad w n) = n"
proof -
  have "digits_value (replicate k (CHR ''0'') @ s) = digits_value s" for k s
    by (induction k) (simp_all add: digits_value_Cons)
  then show ?thesis by (simp add: pad_def)
qed

lemma two_digits_pad: "n < 100 \<Longrightarrow> two_digits (pad 2 n @ t) = Some (n, t)"
proof -
  assume "n < 100"
  then have len: "length (pad 2 n) = 2" by (intro pad_length) auto
  then obtain a b where ab: "pad 2 n = [a, b]" by (auto simp: length_Suc_conv numeral_2_eq_2)
  have "is_digit a" "is_digit b" using pad_digits [of _ 2 n] by (simp_all add: ab)
  then show ?thesis using digits_value_pad [of 2 n] by (simp add: ab two_digits_def)
qed

lemma one_or_two_digits_pad: "n < 100 \<Longrightarrow> one_or_two_digits (pad 2 n @ t) = Some (n, t)"
proof -
  assume "n < 100"
  then have len: "length (pad 2 n) = 2" by (intro pad_length) auto
  then obtain a b where ab: "pad 2 n = [a, b]" by (auto simp: length_Suc_conv numeral_2_eq_2)
  have "is_digit a" "is_digit b" using pad_digits [of _ 2 n] by (simp_all add: ab)
  then show ?thesis using digits_value_pad [of 2 n] by (simp add: ab one_or_two_digits_def)
qed

lemma four_digits_pad: "n < 10000 \<Longrightarrow> four_digits (pad 4 n @ t) = Some (n, t)"
proof -
  assume "n < 10000"
  then have len: "length (pad 4 n) = Suc (Suc (Suc (Suc 0)))" using pad_length [of 4 n] by simp
  then obtain a b c d where ab: "pad 4 n = [a, b, c, d]" by (auto simp: length_Suc_conv)
  have "is_digit a" "is_digit b" "is_digit c" "is_digit d"
    using pad_digits [of _ 4 n] by (simp_all add: ab)
  then show ?thesis using digits_value_pad [of 4 n] by (simp add: ab four_digits_def)
qed

text \<open>Dropping trailing zeros loses only powers of ten.\<close>

lemma trim_zeros_split: "\<exists>k. s = trim_zeros s @ replicate k (CHR ''0'')"
proof -
  have "rev s = takeWhile (\<lambda>c. c = CHR ''0'') (rev s) @ dropWhile (\<lambda>c. c = CHR ''0'') (rev s)" by simp
  then have "s = trim_zeros s @ rev (takeWhile (\<lambda>c. c = CHR ''0'') (rev s))"
    unfolding trim_zeros_def by (metis rev_append rev_rev_ident)
  moreover have "takeWhile (\<lambda>c. c = CHR ''0'') (rev s)
      = replicate (length (takeWhile (\<lambda>c. c = CHR ''0'') (rev s))) (CHR ''0'')"
    by (intro replicate_eqI [symmetric, THEN sym]) (auto dest: set_takeWhileD)
  ultimately show ?thesis by (metis rev_replicate)
qed

lemma digits_value_append_zeros:
  "digits_value (s @ replicate k (CHR ''0'')) = digits_value s * 10 ^ k"
proof (induction k)
  case (Suc k)
  have "s @ replicate (Suc k) (CHR ''0'') = (s @ replicate k (CHR ''0'')) @ [CHR ''0'']"
    by (simp add: replicate_append_same)
  then show ?case using Suc by (simp only: digits_value_snoc) simp
qed simp

lemma parse_fraction_format:
  assumes "0 \<le> n" "n < Second"
  shows "parse_fraction (format_fraction n @ ''Z'') = (n, ''Z'')"
proof (cases "n = 0")
  case True
  then show ?thesis by (simp add: format_fraction_def parse_fraction_def)
next
  case False
  define ds where "ds = trim_zeros (pad 9 (nat n))"
  obtain k where k: "pad 9 (nat n) = ds @ replicate k (CHR ''0'')"
    using trim_zeros_split [of "pad 9 (nat n)"] by (auto simp: ds_def)
  have val: "digits_value ds * 10 ^ k = nat n"
    using digits_value_append_zeros [of ds k] digits_value_pad [of 9 "nat n"] by (simp add: k)
  have "length (pad 9 (nat n)) = 9" using assms by (intro pad_length) auto
  then have len: "length ds + k = 9" by (simp add: k)
  have dig: "\<forall>c \<in> set ds. is_digit c" using pad_digits [of _ 9 "nat n"] by (simp add: k)
  have "ds \<noteq> []" using val False assms by (auto simp: digits_value_def)
  moreover have "takeWhile is_digit (ds @ ''Z'') = ds" "dropWhile is_digit (ds @ ''Z'') = ''Z''"
    using dig by (simp_all add: takeWhile_append dropWhile_append char_between_def)
  moreover have "nanoseconds ds = n"
  proof -
    have "9 - length ds = k" "take 9 ds = ds" using len by auto
    then have "nanoseconds ds = int (digits_value ds * 10 ^ k)" by (simp add: nanoseconds_def)
    then show ?thesis using val assms by simp
  qed
  ultimately show ?thesis using False
    by (simp add: format_fraction_def parse_fraction_def flip: ds_def)
qed


text \<open>The year of an instant in UTC; four digits write it exactly from 0 to 9999.\<close>

definition utc_year :: "go_time \<Rightarrow> int" where
  "utc_year t = year_of (t div Second div 86400 + epoch_day)"

definition printable_time :: "go_time \<Rightarrow> bool" where
  "printable_time t \<longleftrightarrow> 0 \<le> utc_year t \<and> utc_year t \<le> 9999"

lemma instant_of_parts:
  fixes t :: int
  shows "((((t div Second div 86400) * 24 + int (nat (t div Second mod 86400 div 3600))) * 60
     + int (nat (t div Second mod 86400 div 60 mod 60))) * 60
     + int (nat (t div Second mod 86400 mod 60))) * Second + t mod Second = t"
proof -
  define secs where "secs = t div Second"
  define tod where "tod = secs mod 86400"
  have tod: "0 \<le> tod" "tod < 86400" by (simp_all add: tod_def)
  have nn: "0 \<le> tod div 3600" "0 \<le> tod div 60 mod 60" "0 \<le> tod mod 60"
    using tod by (simp_all add: pos_imp_zdiv_nonneg_iff)
  have "tod div 3600 = tod div 60 div 60" by (simp add: zdiv_zmult2_eq [symmetric])
  then have "(tod div 3600 * 60 + tod div 60 mod 60) * 60 + tod mod 60 = tod" by simp
  moreover have "secs div 86400 * 86400 + tod = secs" by (simp add: tod_def)
  ultimately have "((secs div 86400 * 24 + tod div 3600) * 60 + tod div 60 mod 60) * 60 + tod mod 60 = secs"
    by (simp add: algebra_simps)
  moreover have "secs * Second + t mod Second = t" by (simp add: secs_def)
  ultimately show ?thesis unfolding secs_def [symmetric] tod_def [symmetric] using nn
    by (simp only: int_nat_eq if_True)
qed

lemma parse_parts:
  assumes "y < 10000" "1 \<le> m" "m \<le> 12" "1 \<le> d" "int d \<le> days_in (leap_year (int y)) m"
    "hour < 24" "minute < 60" "sec < 60" "0 \<le> n" "n < Second"
  shows "parse_time (pad 4 y @ ''-'' @ pad 2 m @ ''-'' @ pad 2 d @ ''T'' @ pad 2 hour @ '':''
      @ pad 2 minute @ '':'' @ pad 2 sec @ format_fraction n @ ''Z'')
    = Some (instant (int y) m (int d) hour minute sec n)"
proof -
  have f: "parse_fraction (format_fraction n @ ''Z'') = (n, ''Z'')"
    by (rule parse_fraction_format) (use assms in auto)
  have "int d \<le> 31" using assms(5) by (auto simp: days_in_def split: if_splits)
  then show ?thesis using assms
    by (simp add: parse_time_def four_digits_pad two_digits_pad one_or_two_digits_pad f parse_zone_def)
qed

theorem parse_format_time:
  assumes "printable_time t"
  shows "parse_time (format_time t) = Some t"
proof -
  define day where "day = t div Second div 86400 + epoch_day"
  define tod where "tod = t div Second mod 86400"
  obtain y m d where date: "date_of day = (y, m, d)" by (cases "date_of day") auto
  note dt = date_of_day [OF date]
  have y: "0 \<le> y" "y \<le> 9999" using assms dt(6) by (auto simp: printable_time_def utc_year_def day_def)
  have tod: "0 \<le> tod" "tod < 86400" by (simp_all add: tod_def)
  have ranges: "nat (tod div 3600) < 24" "nat (tod div 60 mod 60) < 60" "nat (tod mod 60) < 60"
    using tod by (auto simp: nat_less_iff pos_imp_zdiv_nonneg_iff)
  have fmt: "format_time t = pad 4 (nat y) @ ''-'' @ pad 2 m @ ''-'' @ pad 2 (nat d) @ ''T''
      @ pad 2 (nat (tod div 3600)) @ '':'' @ pad 2 (nat (tod div 60 mod 60)) @ '':''
      @ pad 2 (nat (tod mod 60)) @ format_fraction (t mod Second) @ ''Z''"
    unfolding format_time_def Let_def day_def [symmetric] tod_def [symmetric] date
    using y by (simp add: format_year_def)
  have inst: "instant y m d (nat (tod div 3600)) (nat (tod div 60 mod 60)) (nat (tod mod 60)) (t mod Second) = t"
    unfolding instant_def dt(5) tod_def day_def by (simp only: add_diff_cancel_right' instant_of_parts)
  have nn: "int (nat y) = y" "int (nat d) = d" using y dt(3) by simp_all
  have "parse_time (format_time t) = Some (instant (int (nat y)) m (int (nat d)) (nat (tod div 3600))
      (nat (tod div 60 mod 60)) (nat (tod mod 60)) (t mod Second))"
    unfolding fmt
  proof (rule parse_parts)
    show "nat y < 10000" "1 \<le> nat d" using y dt(3) by simp_all
    show "int (nat d) \<le> days_in (leap_year (int (nat y))) m" using dt(4) nn by simp
    show "0 \<le> t mod Second" "t mod Second < Second" by simp_all
  qed (use dt ranges in auto)
  then show ?thesis unfolding nn inst .
qed

lemma format_time_printable_chars: "c \<in> set (format_time t) \<Longrightarrow> 32 \<le> byte c \<and> byte c < 128"
proof -
  have dig: "is_digit c \<Longrightarrow> 32 \<le> byte c \<and> byte c < 128" for c by (auto simp: char_between_def)
  have padc: "c \<in> set (pad w n) \<Longrightarrow> 32 \<le> byte c \<and> byte c < 128" for c w n
    using pad_digits dig by blast
  have "c \<in> set (format_fraction n) \<Longrightarrow> 32 \<le> byte c \<and> byte c < 128" for c n
    using padc [of c 9 "nat n"]
    by (auto simp: format_fraction_def trim_zeros_def dest: set_dropWhileD split: if_splits)
  moreover have "c \<in> set (format_year y) \<Longrightarrow> 32 \<le> byte c \<and> byte c < 128" for c y
    using padc [of c 4] by (auto simp: format_year_def split: if_splits)
  moreover assume "c \<in> set (format_time t)"
  ultimately show ?thesis using padc
    by (auto simp: format_time_def Let_def split: prod.splits)
qed

end
