(* ===== verification/LogCodec.thy ===== *)
theory LogCodec
  imports MessageLog Json RFC3339
begin

text \<open>
  The lines of the audit log in full: the decoders of \<open>internal/lite/message_log.go\<close> over the JSON
  scanner and the time parser of the standard library, and the round trips of what the encoders write.
  With them the facts on the log hold without an assumption on a codec.
\<close>

section \<open>The decoders of the standard library at work\<close>

definition json_error :: go_error where
  "json_error = Errorf ''json: cannot decode''"

definition option_result :: "go_error \<Rightarrow> 'a option \<Rightarrow> 'a result" where
  "option_result e x = (case x of None \<Rightarrow> Inl e | Some v \<Rightarrow> Inr v)"

definition json_message :: "string \<Rightarrow> raw_message option" where
  "json_message line = do {
     ms \<leftarrow> struct_members (json_unmarshal line);
     ts \<leftarrow> string_field ''ts'' ms;
     request_id \<leftarrow> string_field ''request_id'' ms;
     business_request_id \<leftarrow> string_field ''business_request_id'' ms;
     message_id \<leftarrow> string_field ''message_id'' ms;
     app \<leftarrow> string_field ''app'' ms;
     api_key_name \<leftarrow> string_field ''api_key_name'' ms;
     scene \<leftarrow> string_field ''scene'' ms;
     to_domain \<leftarrow> string_field ''to_domain'' ms;
     to_hash \<leftarrow> string_field ''to_hash'' ms;
     locale_tag \<leftarrow> string_field ''locale'' ms;
     status \<leftarrow> string_field ''status'' ms;
     error_code \<leftarrow> string_field ''error_code'' ms;
     error_message \<leftarrow> string_field ''error_message'' ms;
     Some \<lparr>rm_Timestamp = ts, rm_RequestID = request_id, rm_BusinessRequestID = business_request_id,
        rm_MessageID = message_id, rm_AppCode = app, rm_APIKeyName = api_key_name,
        rm_SceneCode = scene, rm_ToDomain = to_domain, rm_ToHash = to_hash, rm_Locale = locale_tag,
        rm_Status = MessageStatus_of status, rm_ErrorCode = ErrorCode_of error_code,
        rm_ErrorMessage = error_message\<rparr>
   }"

definition json_attempt :: "string \<Rightarrow> raw_attempt option" where
  "json_attempt line = do {
     ms \<leftarrow> struct_members (json_unmarshal line);
     ts \<leftarrow> string_field ''ts'' ms;
     message_id \<leftarrow> string_field ''message_id'' ms;
     app \<leftarrow> string_field ''app'' ms;
     attempt_no \<leftarrow> int_field ''attempt_no'' ms;
     provider \<leftarrow> string_field ''provider'' ms;
     provider_account \<leftarrow> string_field ''provider_account'' ms;
     provider_channel \<leftarrow> string_field ''provider_channel'' ms;
     transport \<leftarrow> string_field ''transport'' ms;
     status \<leftarrow> string_field ''status'' ms;
     failure_class \<leftarrow> string_field ''failure_class'' ms;
     error_code \<leftarrow> string_field ''error_code'' ms;
     error_message \<leftarrow> string_field ''error_message'' ms;
     provider_message_id \<leftarrow> string_field ''provider_message_id'' ms;
     duration_ms \<leftarrow> int_field ''duration_ms'' ms;
     Some \<lparr>ra_Timestamp = ts, ra_MessageID = message_id, ra_AppCode = app, ra_AttemptNo = attempt_no,
        ra_Provider = Provider_of provider, ra_ProviderAccountCode = provider_account,
        ra_ProviderChannelCode = provider_channel, ra_Transport = Transport_of transport,
        ra_Status = AttemptStatus_of status, ra_FailureClass = FailureClass_of failure_class,
        ra_ErrorCode = ErrorCode_of error_code, ra_ErrorMessage = error_message,
        ra_ProviderMessageID = provider_message_id, ra_DurationMS = duration_ms\<rparr>
   }"

definition json_event :: "string \<Rightarrow> raw_event option" where
  "json_event line = do {
     ms \<leftarrow> struct_members (json_unmarshal line);
     ts \<leftarrow> string_field ''ts'' ms;
     message_id \<leftarrow> string_field ''message_id'' ms;
     app \<leftarrow> string_field ''app'' ms;
     provider \<leftarrow> string_field ''provider'' ms;
     provider_account \<leftarrow> string_field ''provider_account'' ms;
     provider_channel \<leftarrow> string_field ''provider_channel'' ms;
     provider_message_id \<leftarrow> string_field ''provider_message_id'' ms;
     event_type \<leftarrow> string_field ''event_type'' ms;
     event_payload \<leftarrow> string_field ''event_payload'' ms;
     occurred_at \<leftarrow> string_field ''occurred_at'' ms;
     Some \<lparr>re_Timestamp = ts, re_MessageID = message_id, re_AppCode = app,
        re_Provider = Provider_of provider, re_ProviderAccountCode = provider_account,
        re_ProviderChannelCode = provider_channel, re_ProviderMessageID = provider_message_id,
        re_EventType = ProviderEventType_of event_type, re_EventPayload = event_payload,
        re_OccurredAt = occurred_at\<rparr>
   }"

definition go_codec :: log_codec where
  "go_codec = \<lparr>lc_message = (\<lambda>l. option_result json_error (json_message l)),
     lc_attempt = (\<lambda>l. option_result json_error (json_attempt l)),
     lc_event = (\<lambda>l. option_result json_error (json_event l)),
     lc_time = (\<lambda>s. option_result (Errorf ''cannot parse time'') (parse_time s))\<rparr>"

section \<open>Fields of an object that was written\<close>

text \<open>Names of lower-case letters and underscores match only themselves.\<close>

definition field_name :: "string \<Rightarrow> bool" where
  "field_name k \<longleftrightarrow> list_all (\<lambda>c. is_lower c \<or> c = CHR ''_'') k"

lemma field_name_ascii: "field_name k \<Longrightarrow> ascii k"
  by (auto simp: field_name_def list_all_iff ascii_def char_between_def)

lemma ascii_valid: "ascii s \<Longrightarrow> ValidString s"
  by (induction s) (auto simp: ascii_def head_rune_ascii)

lemma field_name_repair: "field_name k \<Longrightarrow> json_repair k = k"
  by (intro json_repair_valid ascii_valid field_name_ascii)

lemma fold_rune_inject:
  "97 \<le> r \<and> r \<le> 122 \<or> r = 95 \<Longrightarrow> 97 \<le> q \<and> q \<le> 122 \<or> q = 95 \<Longrightarrow> fold_rune r = fold_rune q \<Longrightarrow> r = q"
  by (auto simp: fold_rune_def split: if_splits)

lemma fold_name_inject:
  assumes "field_name j" "field_name k"
  shows "fold_name j = fold_name k \<longleftrightarrow> j = k"
proof
  assume "fold_name j = fold_name k"
  then have "map (fold_rune \<circ> byte) j = map (fold_rune \<circ> byte) k"
    using assms by (simp add: fold_name_def runes_ascii field_name_ascii)
  then show "j = k"
  proof (rule map_inj_on [rule_format])
    show "inj_on (fold_rune \<circ> byte) (set j \<union> set k)"
    proof (rule inj_onI)
      fix c d
      assume "c \<in> set j \<union> set k" "d \<in> set j \<union> set k"
        and eq: "(fold_rune \<circ> byte) c = (fold_rune \<circ> byte) d"
      then have "is_lower c \<or> c = CHR ''_''" "is_lower d \<or> d = CHR ''_''"
        using assms by (auto simp: field_name_def list_all_iff)
      then have "97 \<le> byte c \<and> byte c \<le> 122 \<or> byte c = 95" "97 \<le> byte d \<and> byte d \<le> 122 \<or> byte d = 95"
        by (auto simp: char_between_def)
      then have "byte c = byte d" by (rule fold_rune_inject) (use eq in simp)
      then show "c = d" by (rule byte_eqD)
    qed
  qed
qed simp

lemma members_named_unique:
  assumes "\<forall>(k, t, v) \<in> set ms. field_name k" "field_name name" "distinct (map fst ms)"
    "(name, t, v) \<in> set ms"
  shows "members_named name ms = [v]"
proof -
  have "filter (\<lambda>(k, t, v). fold_name k = fold_name name) ms = filter (\<lambda>m. fst m = name) ms"
    using assms(1,2) by (intro filter_cong refl) (auto simp: fold_name_inject)
  also have "\<dots> = [(name, t, v)]" using assms(3,4)
  proof (induction ms)
    case (Cons m ms)
    show ?case
    proof (cases "fst m = name")
      case True
      then have "m = (name, t, v)" "filter (\<lambda>m. fst m = name) ms = []"
        using Cons.prems by (auto simp: filter_empty_conv image_iff)
      then show ?thesis by simp
    next
      case False
      then show ?thesis using Cons by auto
    qed
  qed simp
  finally show ?thesis by (simp add: members_named_def)
qed

lemma string_field_unique:
  assumes "\<forall>(k, t, v) \<in> set ms. field_name k" "field_name name" "distinct (map fst ms)"
    "(name, t, JString s) \<in> set ms"
  shows "string_field name ms = Some s"
  using members_named_unique [OF assms] by (simp add: string_field_def)

lemma int_field_unique:
  assumes "\<forall>(k, t, v) \<in> set ms. field_name k" "field_name name" "distinct (map fst ms)"
    "(name, t, JNumber s) \<in> set ms"
  shows "int_field name ms = parse_int64 s"
  using members_named_unique [OF assms] by (simp add: int_field_def)

text \<open>A line of string and integer fields: the text of the encoders and what scanning it gives.\<close>

datatype field_value = Text_field string | Int_field int

fun field_text :: "field_value \<Rightarrow> string" where
  "field_text (Text_field s) = json_quote s"
| "field_text (Int_field i) = Itoa i"

fun field_json :: "field_value \<Rightarrow> json" where
  "field_json (Text_field s) = JString (json_repair s)"
| "field_json (Int_field i) = JNumber (Itoa i)"

definition line_text :: "(string \<times> field_value) list \<Rightarrow> string" where
  "line_text fs = object_text (map (\<lambda>(k, v). (k, field_text v)) fs)"

definition line_members :: "(string \<times> field_value) list \<Rightarrow> json_members" where
  "line_members fs = map (\<lambda>(k, v). (k, field_text v, field_json v)) fs"

lemma reads_field: "reads (field_text v) (field_json v)"
  by (cases v) (simp_all add: reads_quote reads_Itoa)

definition field_list :: "(string \<times> field_value) list \<Rightarrow> bool" where
  "field_list fs \<longleftrightarrow> fs \<noteq> [] \<and> list_all (\<lambda>(k, v). field_name k) fs \<and> distinct (map fst fs)"

lemma line_unmarshal:
  assumes "field_list fs"
  shows "struct_members (json_unmarshal (line_text fs)) = Some (line_members fs)"
proof -
  have "json_unmarshal (object_text (map (\<lambda>(k, t, v). (k, t)) (line_members fs)))
      = Some (JObject (map (\<lambda>(k, t, v). (json_repair k, t, v)) (line_members fs)))"
    by (rule json_object_unmarshal)
      (use assms in \<open>auto simp: line_members_def field_list_def reads_field\<close>)
  moreover have "map (\<lambda>(k, t, v). (k, t)) (line_members fs) = map (\<lambda>(k, v). (k, field_text v)) fs"
    by (auto simp: line_members_def)
  moreover have "map (\<lambda>(k, t, v). (json_repair k, t, v)) (line_members fs) = line_members fs"
    using assms by (auto simp: line_members_def field_list_def list_all_iff field_name_repair)
  ultimately show ?thesis by (simp add: line_text_def struct_members_def)
qed

lemma line_members_ok:
  assumes "field_list fs"
  shows "\<forall>(k, t, v) \<in> set (line_members fs). field_name k" "distinct (map fst (line_members fs))"
  using assms by (auto simp: field_list_def line_members_def list_all_iff comp_def case_prod_beta)

lemma line_string:
  assumes "field_list fs" "(name, Text_field s) \<in> set fs"
  shows "string_field name (line_members fs) = Some (json_repair s)"
proof (rule string_field_unique [OF line_members_ok(1) [OF assms(1)] _ line_members_ok(2) [OF assms(1)]])
  show "field_name name" using assms by (auto simp: field_list_def list_all_iff)
  show "(name, json_quote s, JString (json_repair s)) \<in> set (line_members fs)"
    using assms(2) by (force simp: line_members_def)
qed

lemma line_int:
  assumes "field_list fs" "(name, Int_field i) \<in> set fs" "- (2 ^ 63) \<le> i" "i < 2 ^ 63"
  shows "int_field name (line_members fs) = Some i"
proof -
  have "int_field name (line_members fs) = parse_int64 (Itoa i)"
  proof (rule int_field_unique [OF line_members_ok(1) [OF assms(1)] _ line_members_ok(2) [OF assms(1)]])
    show "field_name name" using assms by (auto simp: field_list_def list_all_iff)
    show "(name, Itoa i, JNumber (Itoa i)) \<in> set (line_members fs)"
      using assms(2) by (force simp: line_members_def)
  qed
  then show ?thesis using parse_int64_Itoa [OF assms(3,4)] by simp
qed


section \<open>Round trips\<close>

definition message_fields :: "string \<Rightarrow> Message \<Rightarrow> (string \<times> field_value) list" where
  "message_fields ts m =
     [(''ts'', Text_field ts), (''request_id'', Text_field (msg_RequestID m)),
      (''business_request_id'', Text_field (msg_BusinessRequestID m)),
      (''message_id'', Text_field (msg_MessageID m)), (''app'', Text_field (msg_AppCode m)),
      (''api_key_name'', Text_field (msg_APIKeyName m)), (''scene'', Text_field (msg_SceneCode m)),
      (''to_domain'', Text_field (msg_ToDomain m)), (''to_hash'', Text_field (msg_ToHash m)),
      (''locale'', Text_field (msg_Locale m)),
      (''status'', Text_field (text_of_MessageStatus (msg_Status m))),
      (''idempotency_hash'', Text_field (msg_IdempotencyHash m)),
      (''request_fingerprint'', Text_field (msg_RequestFingerprint m)),
      (''caller_ip'', Text_field (msg_CallerIP m)), (''user_ip'', Text_field (msg_UserIP m)),
      (''user_id_hash'', Text_field (msg_UserIDHash m)),
      (''error_code'', Text_field (text_of_ErrorCode (msg_ErrorCode m))),
      (''error_message'', Text_field (msg_ErrorMessage m))]"

definition attempt_fields :: "string \<Rightarrow> Attempt \<Rightarrow> (string \<times> field_value) list" where
  "attempt_fields ts a =
     [(''ts'', Text_field ts), (''message_id'', Text_field (att_MessageID a)),
      (''app'', Text_field (att_AppCode a)), (''attempt_no'', Int_field (att_AttemptNo a)),
      (''provider'', Text_field (text_of_Provider (att_Provider a))),
      (''provider_account'', Text_field (att_ProviderAccountCode a)),
      (''provider_channel'', Text_field (att_ProviderChannelCode a)),
      (''transport'', Text_field (text_of_Transport (att_Transport a))),
      (''status'', Text_field (text_of_AttemptStatus (att_Status a))),
      (''failure_class'', Text_field (text_of_FailureClass (att_FailureClass a))),
      (''error_code'', Text_field (text_of_ErrorCode (att_ErrorCode a))),
      (''error_message'', Text_field (att_ErrorMessage a)),
      (''provider_message_id'', Text_field (att_ProviderMessageID a)),
      (''duration_ms'', Int_field (att_DurationMS a))]"

definition event_fields :: "string \<Rightarrow> ProviderEvent \<Rightarrow> (string \<times> field_value) list" where
  "event_fields ts e =
     [(''ts'', Text_field ts), (''message_id'', Text_field (ev_MessageID e)),
      (''app'', Text_field (ev_AppCode e)), (''provider'', Text_field (text_of_Provider (ev_Provider e))),
      (''provider_account'', Text_field (ev_ProviderAccountCode e)),
      (''provider_channel'', Text_field (ev_ProviderChannelCode e)),
      (''provider_message_id'', Text_field (ev_ProviderMessageID e)),
      (''event_type'', Text_field (text_of_ProviderEventType (ev_EventType e))),
      (''event_payload'', Text_field (ev_EventPayload e)),
      (''occurred_at'', Text_field (ev_OccurredAt e))]"

lemma encode_line:
  "encodeMessageRecord json_quote ts m = line_text (message_fields ts m)"
  "encodeAttemptRecord json_quote ts a = line_text (attempt_fields ts a)"
  "encodeProviderEventRecord json_quote ts e = line_text (event_fields ts e)"
  by (simp_all add: line_text_def object_text_def encodeMessageRecord_def encodeAttemptRecord_def
      encodeProviderEventRecord_def appendJSONField_def appendJSONIntField_def message_fields_def
      attempt_fields_def event_fields_def)

lemma field_lists:
  "field_list (message_fields ts m)" "field_list (attempt_fields ts a)" "field_list (event_fields ts e)"
  by (simp_all add: field_list_def field_name_def message_fields_def attempt_fields_def event_fields_def
      char_between_def)


text \<open>What a message becomes in the log: invalid UTF-8 is replaced, the private fields are not read.\<close>

definition logged_message :: "go_time \<Rightarrow> Message \<Rightarrow> MessageSnapshot" where
  "logged_message t m = \<lparr>ms_Timestamp = t, ms_RequestID = json_repair (msg_RequestID m),
     ms_BusinessRequestID = json_repair (msg_BusinessRequestID m),
     ms_MessageID = json_repair (msg_MessageID m), ms_AppCode = json_repair (msg_AppCode m),
     ms_APIKeyName = json_repair (msg_APIKeyName m), ms_SceneCode = json_repair (msg_SceneCode m),
     ms_ToDomain = json_repair (msg_ToDomain m), ms_ToHash = json_repair (msg_ToHash m),
     ms_Locale = json_repair (msg_Locale m), ms_Status = msg_Status m,
     ms_ErrorCode = ErrorCode_of (json_repair (text_of_ErrorCode (msg_ErrorCode m))),
     ms_ErrorMessage = json_repair (msg_ErrorMessage m)\<rparr>"

definition logged_attempt :: "go_time \<Rightarrow> Attempt \<Rightarrow> AttemptSnapshot" where
  "logged_attempt t a = \<lparr>as_Timestamp = t, as_MessageID = json_repair (att_MessageID a),
     as_AppCode = json_repair (att_AppCode a), as_AttemptNo = att_AttemptNo a,
     as_Provider = Provider_of (json_repair (text_of_Provider (att_Provider a))),
     as_ProviderAccountCode = json_repair (att_ProviderAccountCode a),
     as_ProviderChannelCode = json_repair (att_ProviderChannelCode a),
     as_Transport = Transport_of (json_repair (text_of_Transport (att_Transport a))),
     as_Status = AttemptStatus_of (json_repair (text_of_AttemptStatus (att_Status a))),
     as_FailureClass = FailureClass_of (json_repair (text_of_FailureClass (att_FailureClass a))),
     as_ErrorCode = ErrorCode_of (json_repair (text_of_ErrorCode (att_ErrorCode a))),
     as_ErrorMessage = json_repair (att_ErrorMessage a),
     as_ProviderMessageID = json_repair (att_ProviderMessageID a), as_DurationMS = att_DurationMS a\<rparr>"

lemma json_message_encoded:
  "json_message (encodeMessageRecord json_quote ts m) = Some
     \<lparr>rm_Timestamp = json_repair ts, rm_RequestID = json_repair (msg_RequestID m),
      rm_BusinessRequestID = json_repair (msg_BusinessRequestID m),
      rm_MessageID = json_repair (msg_MessageID m), rm_AppCode = json_repair (msg_AppCode m),
      rm_APIKeyName = json_repair (msg_APIKeyName m), rm_SceneCode = json_repair (msg_SceneCode m),
      rm_ToDomain = json_repair (msg_ToDomain m), rm_ToHash = json_repair (msg_ToHash m),
      rm_Locale = json_repair (msg_Locale m),
      rm_Status = MessageStatus_of (json_repair (text_of_MessageStatus (msg_Status m))),
      rm_ErrorCode = ErrorCode_of (json_repair (text_of_ErrorCode (msg_ErrorCode m))),
      rm_ErrorMessage = json_repair (msg_ErrorMessage m)\<rparr>"
proof -
  let ?ms = "line_members (message_fields ts m)"
  have f: "string_field name ?ms = Some (json_repair s)"
    if "(name, Text_field s) \<in> set (message_fields ts m)" for name s
    by (rule line_string [OF field_lists(1) that])
  have fs: "string_field ''ts'' ?ms = Some (json_repair (ts))"
    "string_field ''request_id'' ?ms = Some (json_repair (msg_RequestID m))"
    "string_field ''business_request_id'' ?ms = Some (json_repair (msg_BusinessRequestID m))"
    "string_field ''message_id'' ?ms = Some (json_repair (msg_MessageID m))"
    "string_field ''app'' ?ms = Some (json_repair (msg_AppCode m))"
    "string_field ''api_key_name'' ?ms = Some (json_repair (msg_APIKeyName m))"
    "string_field ''scene'' ?ms = Some (json_repair (msg_SceneCode m))"
    "string_field ''to_domain'' ?ms = Some (json_repair (msg_ToDomain m))"
    "string_field ''to_hash'' ?ms = Some (json_repair (msg_ToHash m))"
    "string_field ''locale'' ?ms = Some (json_repair (msg_Locale m))"
    "string_field ''status'' ?ms = Some (json_repair (text_of_MessageStatus (msg_Status m)))"
    "string_field ''error_code'' ?ms = Some (json_repair (text_of_ErrorCode (msg_ErrorCode m)))"
    "string_field ''error_message'' ?ms = Some (json_repair (msg_ErrorMessage m))"
    by (rule f; simp add: message_fields_def)+
  show ?thesis
    unfolding json_message_def encode_line line_unmarshal [OF field_lists(1)]
    by (simp add: fs)
qed

lemma json_attempt_encoded:
  assumes "- (2 ^ 63) \<le> att_AttemptNo a" "att_AttemptNo a < 2 ^ 63"
    "- (2 ^ 63) \<le> att_DurationMS a" "att_DurationMS a < 2 ^ 63"
  shows "json_attempt (encodeAttemptRecord json_quote ts a) = Some
     \<lparr>ra_Timestamp = json_repair ts, ra_MessageID = json_repair (att_MessageID a),
      ra_AppCode = json_repair (att_AppCode a), ra_AttemptNo = att_AttemptNo a,
      ra_Provider = Provider_of (json_repair (text_of_Provider (att_Provider a))),
      ra_ProviderAccountCode = json_repair (att_ProviderAccountCode a),
      ra_ProviderChannelCode = json_repair (att_ProviderChannelCode a),
      ra_Transport = Transport_of (json_repair (text_of_Transport (att_Transport a))),
      ra_Status = AttemptStatus_of (json_repair (text_of_AttemptStatus (att_Status a))),
      ra_FailureClass = FailureClass_of (json_repair (text_of_FailureClass (att_FailureClass a))),
      ra_ErrorCode = ErrorCode_of (json_repair (text_of_ErrorCode (att_ErrorCode a))),
      ra_ErrorMessage = json_repair (att_ErrorMessage a),
      ra_ProviderMessageID = json_repair (att_ProviderMessageID a), ra_DurationMS = att_DurationMS a\<rparr>"
proof -
  let ?ms = "line_members (attempt_fields ts a)"
  have f: "string_field name ?ms = Some (json_repair s)"
    if "(name, Text_field s) \<in> set (attempt_fields ts a)" for name s
    by (rule line_string [OF field_lists(2) that])
  have g: "int_field ''attempt_no'' ?ms = Some (att_AttemptNo a)"
    "int_field ''duration_ms'' ?ms = Some (att_DurationMS a)"
    by (rule line_int [OF field_lists(2)]; use assms in \<open>simp add: attempt_fields_def\<close>)+
  have fs: "string_field ''ts'' ?ms = Some (json_repair (ts))"
    "string_field ''message_id'' ?ms = Some (json_repair (att_MessageID a))"
    "string_field ''app'' ?ms = Some (json_repair (att_AppCode a))"
    "string_field ''provider'' ?ms = Some (json_repair (text_of_Provider (att_Provider a)))"
    "string_field ''provider_account'' ?ms = Some (json_repair (att_ProviderAccountCode a))"
    "string_field ''provider_channel'' ?ms = Some (json_repair (att_ProviderChannelCode a))"
    "string_field ''transport'' ?ms = Some (json_repair (text_of_Transport (att_Transport a)))"
    "string_field ''status'' ?ms = Some (json_repair (text_of_AttemptStatus (att_Status a)))"
    "string_field ''failure_class'' ?ms = Some (json_repair (text_of_FailureClass (att_FailureClass a)))"
    "string_field ''error_code'' ?ms = Some (json_repair (text_of_ErrorCode (att_ErrorCode a)))"
    "string_field ''error_message'' ?ms = Some (json_repair (att_ErrorMessage a))"
    "string_field ''provider_message_id'' ?ms = Some (json_repair (att_ProviderMessageID a))"
    by (rule f; simp add: attempt_fields_def)+
  show ?thesis
    unfolding json_attempt_def encode_line line_unmarshal [OF field_lists(2)]
    by (simp add: fs g)
qed

lemma json_event_encoded:
  "json_event (encodeProviderEventRecord json_quote ts e) = Some
     \<lparr>re_Timestamp = json_repair ts, re_MessageID = json_repair (ev_MessageID e),
      re_AppCode = json_repair (ev_AppCode e),
      re_Provider = Provider_of (json_repair (text_of_Provider (ev_Provider e))),
      re_ProviderAccountCode = json_repair (ev_ProviderAccountCode e),
      re_ProviderChannelCode = json_repair (ev_ProviderChannelCode e),
      re_ProviderMessageID = json_repair (ev_ProviderMessageID e),
      re_EventType = ProviderEventType_of (json_repair (text_of_ProviderEventType (ev_EventType e))),
      re_EventPayload = json_repair (ev_EventPayload e), re_OccurredAt = json_repair (ev_OccurredAt e)\<rparr>"
proof -
  let ?ms = "line_members (event_fields ts e)"
  have f: "string_field name ?ms = Some (json_repair s)"
    if "(name, Text_field s) \<in> set (event_fields ts e)" for name s
    by (rule line_string [OF field_lists(3) that])
  have fs: "string_field ''ts'' ?ms = Some (json_repair (ts))"
    "string_field ''message_id'' ?ms = Some (json_repair (ev_MessageID e))"
    "string_field ''app'' ?ms = Some (json_repair (ev_AppCode e))"
    "string_field ''provider'' ?ms = Some (json_repair (text_of_Provider (ev_Provider e)))"
    "string_field ''provider_account'' ?ms = Some (json_repair (ev_ProviderAccountCode e))"
    "string_field ''provider_channel'' ?ms = Some (json_repair (ev_ProviderChannelCode e))"
    "string_field ''provider_message_id'' ?ms = Some (json_repair (ev_ProviderMessageID e))"
    "string_field ''event_type'' ?ms = Some (json_repair (text_of_ProviderEventType (ev_EventType e)))"
    "string_field ''event_payload'' ?ms = Some (json_repair (ev_EventPayload e))"
    "string_field ''occurred_at'' ?ms = Some (json_repair (ev_OccurredAt e))"
    by (rule f; simp add: event_fields_def)+
  show ?thesis
    unfolding json_event_def encode_line line_unmarshal [OF field_lists(3)]
    by (simp add: fs)
qed


lemma encodeRune_nonempty: "encodeRune r \<noteq> []"
  by (simp add: encodeRune_def Let_def)

lemma json_repair_Nil [simp]: "json_repair s = [] \<longleftrightarrow> s = []"
proof (cases s)
  case (Cons c cs)
  then show ?thesis
    by (auto simp: encodeRune_nonempty dest: head_rune_len split: option.splits)
qed simp

lemma format_time_repair [simp]: "json_repair (format_time t) = format_time t"
  by (intro json_repair_valid ascii_valid) (auto simp: ascii_def dest: format_time_printable_chars)

lemma MessageStatus_text_repair [simp]:
  "MessageStatus_IsValid x \<Longrightarrow> json_repair (text_of_MessageStatus x) = text_of_MessageStatus x"
  by (cases x; force intro!: json_repair_valid ascii_valid simp: ascii_def)

lemma AttemptStatus_text_repair [simp]:
  "AttemptStatus_IsValid x \<Longrightarrow> json_repair (text_of_AttemptStatus x) = text_of_AttemptStatus x"
  by (cases x; force intro!: json_repair_valid ascii_valid simp: ascii_def)

lemma FailureClass_text_repair [simp]:
  "FailureClass_IsValid x \<Longrightarrow> json_repair (text_of_FailureClass x) = text_of_FailureClass x"
  by (cases x; force intro!: json_repair_valid ascii_valid simp: ascii_def)

lemma Provider_text_repair [simp]:
  "Provider_IsValid x \<Longrightarrow> json_repair (text_of_Provider x) = text_of_Provider x"
  by (cases x; force intro!: json_repair_valid ascii_valid simp: ascii_def)

lemma Transport_text_repair [simp]:
  "Transport_IsValid x \<Longrightarrow> json_repair (text_of_Transport x) = text_of_Transport x"
  by (cases x; force intro!: json_repair_valid ascii_valid simp: ascii_def)

lemma ProviderEventType_text_repair [simp]:
  "ProviderEventType_IsValid x \<Longrightarrow> json_repair (text_of_ProviderEventType x) = text_of_ProviderEventType x"
  by (cases x; force intro!: json_repair_valid ascii_valid simp: ascii_def)

text \<open>A message whose line the queries read: its time has a four-digit year, its status is one of the
  states and it has an id.\<close>

definition message_loggable :: "go_time \<Rightarrow> Message \<Rightarrow> bool" where
  "message_loggable t m \<longleftrightarrow>
     printable_time t \<and> MessageStatus_IsValid (msg_Status m) \<and> msg_MessageID m \<noteq> []"

lemma decode_message_encoded:
  assumes "message_loggable t m"
  shows "decodeMessageSnapshot go_codec (encodeMessageRecord json_quote (format_time t) m)
    = Inr (logged_message t m)"
  using assms parse_format_time [of t]
  by (simp add: decodeMessageSnapshot_def go_codec_def json_message_encoded option_result_def
      message_loggable_def logged_message_def)

text \<open>An attempt whose line the queries read.\<close>

definition attempt_loggable :: "go_time \<Rightarrow> Attempt \<Rightarrow> bool" where
  "attempt_loggable t a \<longleftrightarrow>
     printable_time t \<and> att_MessageID a \<noteq> [] \<and> 0 < att_AttemptNo a \<and> att_AttemptNo a < 2 ^ 63
     \<and> - (2 ^ 63) \<le> att_DurationMS a \<and> att_DurationMS a < 2 ^ 63
     \<and> AttemptStatus_IsValid (att_Status a) \<and> FailureClass_IsValid (att_FailureClass a)
     \<and> isValidAttemptProviderMetadata (att_Provider a) (att_ProviderAccountCode a)
          (att_ProviderChannelCode a) (att_Transport a) (att_Status a) (att_FailureClass a)"

lemma metadata_repair:
  assumes "isValidAttemptProviderMetadata p acc ch tr st fc"
  shows "isValidAttemptProviderMetadata (Provider_of (json_repair (text_of_Provider p)))
      (json_repair acc) (json_repair ch) (Transport_of (json_repair (text_of_Transport tr))) st fc"
proof (cases "Provider_IsValid p \<and> acc \<noteq> [] \<and> ch \<noteq> [] \<and> Transport_IsValid tr")
  case True
  then show ?thesis by (simp add: isValidAttemptProviderMetadata_def)
next
  case False
  then have "p = NoProvider" "acc = []" "ch \<noteq> []" "tr = NoTransport" "st = AttemptStatusFailed"
    "fc = FailureClassChannel"
    using assms by (auto simp: isValidAttemptProviderMetadata_def split: if_splits)
  then show ?thesis
    by (simp add: isValidAttemptProviderMetadata_def Provider_of_def Transport_of_def)
qed

lemma decode_attempt_encoded:
  assumes "attempt_loggable t a"
  shows "decodeAttemptSnapshot go_codec (encodeAttemptRecord json_quote (format_time t) a)
    = Inr (logged_attempt t a)"
proof -
  show ?thesis
    using assms parse_format_time [of t]
      metadata_repair [of "att_Provider a" "att_ProviderAccountCode a" "att_ProviderChannelCode a"
        "att_Transport a" "att_Status a" "att_FailureClass a"]
    by (simp add: decodeAttemptSnapshot_def go_codec_def json_attempt_encoded option_result_def
        attempt_loggable_def logged_attempt_def)
qed

text \<open>A provider event whose line the queries read with its own identity.\<close>

definition event_loggable :: "go_time \<Rightarrow> ProviderEvent \<Rightarrow> bool" where
  "event_loggable t e \<longleftrightarrow>
     printable_time t \<and> Provider_IsValid (ev_Provider e) \<and> ProviderEventType_IsValid (ev_EventType e)
     \<and> (\<forall>s \<in> {ev_MessageID e, ev_AppCode e, ev_ProviderAccountCode e, ev_ProviderChannelCode e,
             ev_ProviderMessageID e, ev_OccurredAt e}. s \<noteq> [] \<and> ValidString s)
     \<and> parse_time (ev_OccurredAt e) \<noteq> None
     \<and> length (encodeProviderEventRecord json_quote (format_time t) e) < scan_limit"


lemma decode_event_encoded:
  assumes "event_loggable t e"
  shows "decodeProviderEventSnapshot go_codec (encodeProviderEventRecord json_quote (format_time t) e)
    = Inr (e\<lparr>ev_RecipientEmail := [], ev_EventPayload := json_repair (ev_EventPayload e)\<rparr>)"
  using assms parse_format_time [of t]
  by (auto simp: decodeProviderEventSnapshot_def decode_event_raw_def go_codec_def json_event_encoded
      option_result_def event_loggable_def validateProviderEventLogFields_def json_repair_valid)

lemma line_text_printable:
  assumes "c \<in> set (line_text fs)"
  shows "32 \<le> byte c"
proof -
  have itoa: "32 \<le> byte c" if "c \<in> set (Itoa i)" for c i
    using that decimal_digits by (fastforce simp: Itoa_def char_between_def split: if_splits)
  have fld: "32 \<le> byte c" if "c \<in> set (field_text v)" for c v
    using that json_quote_printable itoa by (cases v) auto
  have "32 \<le> byte c" if "c \<in> set (members_text (map (\<lambda>(k, v). (k, field_text v)) fs))" for c
    using that
  proof (induction fs)
    case (Cons f fs)
    then show ?case using json_quote_printable fld by (cases fs; cases f) auto
  qed simp
  then show ?thesis using assms by (auto simp: line_text_def object_text_def)
qed

lemma no_newline: "newline \<notin> set (line_text fs)"
  using line_text_printable [of newline fs] by (auto simp: newline_def)

lemma event_reads_back:
  assumes "event_loggable t e"
  shows "reads_back go_codec json_quote (format_time t) e"
  using assms decode_event_encoded [OF assms] no_newline
  by (simp add: reads_back_def Let_def encode_line event_loggable_def event_identity_def)

section \<open>The message log reads what was written\<close>

lemma line_text_plain: "length (line_text fs) < scan_limit \<Longrightarrow> plain_line (line_text fs)"
proof -
  assume len: "length (line_text fs) < scan_limit"
  have "line_text fs = (''{'' @ members_text (map (\<lambda>(k, v). (k, field_text v)) fs)) @ ''}''"
    by (simp add: line_text_def object_text_def)
  then have "last (line_text fs) = CHR ''}''" by (metis last_snoc)
  moreover have "CHR ''}'' \<noteq> char_of (13 :: nat)" by code_simp
  ultimately have "drop_cr (line_text fs) = line_text fs" by (simp add: drop_cr_def)
  then show ?thesis using len no_newline by (simp add: plain_line_def)
qed

text \<open>
  The state of a JSONL file between appends: whole readable lines, which read as the records \<open>xs\<close>.
\<close>

definition log_reads :: "(string \<Rightarrow> 'a result) \<Rightarrow> jsonlWriter \<Rightarrow> log_files \<Rightarrow> 'a list \<Rightarrow> bool" where
  "log_reads dec w fs xs \<longleftrightarrow>
     (\<exists>c ls. writer_ok w fs \<and> ls = concat (map c (query_order (jw_maxBackups w)))
        \<and> log_holds (jw_maxBytes w) (jw_maxBackups w) fs c ls
        \<and> (\<forall>x \<in> set ls. plain_line x \<and> \<not> isl (dec x)) \<and> xs = map (projr \<circ> dec) ls)"

lemma log_reads_view:
  assumes "log_reads dec w fs xs"
  shows "read_log kind dec (queryPaths (\<lambda>_. None) path w fs) = Inr xs"
proof -
  obtain c ls where order: "ls = concat (map c (query_order (jw_maxBackups w)))"
    and holds: "log_holds (jw_maxBytes w) (jw_maxBackups w) fs c ls"
    and ls: "\<forall>x \<in> set ls. plain_line x \<and> \<not> isl (dec x)" and xs: "xs = map (projr \<circ> dec) ls"
    using assms unfolding log_reads_def by blast
  have "\<forall>i \<le> jw_maxBackups w. content fs i = records (c i)" using holds by (simp add: log_holds_def)
  from read_query_paths [OF this, of dec kind path] ls show ?thesis unfolding xs order by blast
qed

lemma log_reads_full:
  assumes "log_reads dec w fs xs" "content fs (jw_maxBackups w) \<noteq> []"
  shows "jw_maxBytes w * int (Suc (jw_maxBackups w) div 2) < int (length (visible (jw_maxBackups w) fs))"
  using assms log_full unfolding log_reads_def by blast

text \<open>
  A log to which \<open>xs\<close> have been appended: all but some of the oldest are read, the last one always, and some
  are only missing if the last backup is there.
\<close>

definition log_kept :: "(string \<Rightarrow> 'a result) \<Rightarrow> int \<Rightarrow> nat \<Rightarrow> jsonlWriter \<Rightarrow> log_files \<Rightarrow> 'a list \<Rightarrow> bool" where
  "log_kept dec maxBytes n w fs xs \<longleftrightarrow>
     (\<exists>k \<le> length xs. log_reads dec w fs (drop k xs) \<and> jw_maxBytes w = maxBytes \<and> jw_maxBackups w = n
        \<and> (k < length xs \<or> xs = []) \<and> (0 < k \<longrightarrow> content fs n \<noteq> []))"

lemma fresh_log_reads:
  assumes "newJSONLWriter None calm_open maxBytes maxBackups Map.empty = (Inr w, fs)"
  shows "log_reads dec w fs []"
proof -
  have w: "writer_ok w fs" "fs = [0 \<mapsto> []]" "0 < jw_maxBytes w"
    using assms
    by (auto simp: newJSONLWriter_def jsonl_open_def calm_open_def writer_ok_def content_def Let_def
        split: if_splits)
  have "log_holds (jw_maxBytes w) (jw_maxBackups w) fs (\<lambda>_. []) []"
    using w by (auto simp: log_holds_def content_def)
  then show ?thesis using w(1) unfolding log_reads_def by (intro exI [of _ "\<lambda>_. []"] exI [of _ "[]"]) simp
qed

text \<open>
  What a log relies on of the codec of its records: the line of a good record is one line and decodes
  to what the record is logged as. The laws give the log: an append succeeds and the log then reads as
  before with the record at the end, but for what the rotation dropped at the front.
\<close>

locale line_codec =
  fixes dec :: "string \<Rightarrow> 'a result" and enc :: "'m \<Rightarrow> string" and good :: "'m \<Rightarrow> bool"
    and logged :: "'m \<Rightarrow> 'a"
  assumes dec_enc: "good m \<Longrightarrow> dec (enc m) = Inr (logged m)"
    and plain_enc: "good m \<Longrightarrow> plain_line (enc m)"
begin

lemma append_reads:
  assumes ok: "log_reads dec w fs xs" and m: "good m"
  shows "\<exists>w' fs' k. appendLineLocked calm (enc m) w fs = (Inr (), w', fs') \<and> k \<le> length xs
    \<and> log_reads dec w' fs' (drop k xs @ [logged m])
    \<and> jw_maxBytes w' = jw_maxBytes w \<and> jw_maxBackups w' = jw_maxBackups w
    \<and> (0 < k \<or> content fs (jw_maxBackups w) \<noteq> [] \<longrightarrow> content fs' (jw_maxBackups w) \<noteq> [])"
proof -
  obtain c ls where w: "writer_ok w fs" and order: "ls = concat (map c (query_order (jw_maxBackups w)))"
    and holds: "log_holds (jw_maxBytes w) (jw_maxBackups w) fs c ls"
    and ls: "\<forall>x \<in> set ls. plain_line x \<and> \<not> isl (dec x)" and xs: "xs = map (projr \<circ> dec) ls"
    using ok unfolding log_reads_def by blast
  obtain w' fs' c' where app: "appendLineLocked calm (enc m) w fs = (Inr (), w', fs')"
      "writer_ok w' fs'" "jw_maxBytes w' = jw_maxBytes w" "jw_maxBackups w' = jw_maxBackups w"
      "log_holds (jw_maxBytes w) (jw_maxBackups w) fs' c' (ls @ [enc m])"
      "content fs (jw_maxBackups w) \<noteq> [] \<longrightarrow> content fs' (jw_maxBackups w) \<noteq> []"
    using log_holds_append [OF w holds, of "enc m"] by blast
  obtain j where j: "concat (map c' (query_order (jw_maxBackups w))) = drop j (ls @ [enc m])"
      "j \<le> length (ls @ [enc m])" "c' 0 \<noteq> []" "0 < j \<longrightarrow> c' (jw_maxBackups w) \<noteq> []"
    using app(5) by (auto simp: log_holds_def)
  have full: "0 < j \<or> content fs (jw_maxBackups w) \<noteq> [] \<longrightarrow> content fs' (jw_maxBackups w) \<noteq> []"
    using j(4) app(5,6) content_empty [of fs' "jw_maxBackups w" c'] by (auto simp: log_holds_def)
  have "0 \<in> set (query_order (jw_maxBackups w))" by (auto simp: query_order_def)
  then have "concat (map c' (query_order (jw_maxBackups w))) \<noteq> []" using j(3) by auto
  then have le: "j \<le> length ls" using j(1,2) by (cases "j = length (ls @ [enc m])") auto
  then have dj: "drop j (ls @ [enc m]) = drop j ls @ [enc m]" by simp
  have "log_reads dec w' fs' (drop j xs @ [logged m])"
    unfolding log_reads_def
  proof (intro exI [of _ c'] exI [of _ "drop j ls @ [enc m]"] conjI)
    show "\<forall>x \<in> set (drop j ls @ [enc m]). plain_line x \<and> \<not> isl (dec x)"
      using ls dec_enc [OF m] plain_enc [OF m] by (auto dest!: in_set_dropD)
    show "drop j xs @ [logged m] = map (projr \<circ> dec) (drop j ls @ [enc m])"
      using dec_enc [OF m] by (simp add: xs drop_map)
    show "log_holds (jw_maxBytes w') (jw_maxBackups w') fs' c' (drop j ls @ [enc m])"
      using log_holds_self [OF app(5)] app(3,4) j(1) dj by simp
  qed (use app dj j(1) in auto)
  then show ?thesis using app(1,3,4) le full by (intro exI [of _ w'] exI [of _ fs'] exI [of _ j]) (simp add: xs)
qed

lemma append_kept:
  assumes ok: "log_kept dec maxBytes n w fs xs" and m: "good m"
  shows "\<exists>w' fs'. appendLineLocked calm (enc m) w fs = (Inr (), w', fs') \<and> log_kept dec maxBytes n w' fs' (xs @ [logged m])"
proof -
  obtain k where k: "k \<le> length xs" "log_reads dec w fs (drop k xs)" "jw_maxBytes w = maxBytes" "jw_maxBackups w = n"
      "0 < k \<longrightarrow> content fs n \<noteq> []"
    using ok unfolding log_kept_def by blast
  obtain w' fs' j where app: "appendLineLocked calm (enc m) w fs = (Inr (), w', fs')" "j \<le> length (drop k xs)"
      "log_reads dec w' fs' (drop j (drop k xs) @ [logged m])" "jw_maxBytes w' = maxBytes" "jw_maxBackups w' = n"
      "0 < j \<or> content fs n \<noteq> [] \<longrightarrow> content fs' n \<noteq> []"
    using append_reads [OF k(2) m] unfolding k(3,4) by blast
  have "drop j (drop k xs) @ [logged m] = drop (j + k) (xs @ [logged m])" using app(2) k(1) by simp
  then have "log_kept dec maxBytes n w' fs' (xs @ [logged m])"
    unfolding log_kept_def using app k(1,5) by (intro exI [of _ "j + k"]) auto
  then show ?thesis using app(1) by blast
qed

end


text \<open>The three logs with the codec of the standard library: a record is paired with its time stamp.\<close>

definition message_line :: "go_time \<times> Message \<Rightarrow> string" where
  "message_line p = encodeMessageRecord json_quote (format_time (fst p)) (snd p)"

definition attempt_line :: "go_time \<times> Attempt \<Rightarrow> string" where
  "attempt_line p = encodeAttemptRecord json_quote (format_time (fst p)) (snd p)"

definition fits :: "string \<Rightarrow> bool" where
  "fits l \<longleftrightarrow> length l < scan_limit"

interpretation message_codec: line_codec "decodeMessageSnapshot go_codec" message_line
  "\<lambda>p. message_loggable (fst p) (snd p) \<and> fits (message_line p)" "\<lambda>p. logged_message (fst p) (snd p)"
  by unfold_locales
    (simp add: message_line_def decode_message_encoded,
     simp add: message_line_def fits_def encode_line line_text_plain)

interpretation attempt_codec: line_codec "decodeAttemptSnapshot go_codec" attempt_line
  "\<lambda>p. attempt_loggable (fst p) (snd p) \<and> fits (attempt_line p)" "\<lambda>p. logged_attempt (fst p) (snd p)"
  by unfold_locales
    (simp add: attempt_line_def decode_attempt_encoded,
     simp add: attempt_line_def fits_def encode_line line_text_plain)

text \<open>Records whose texts are valid UTF-8.\<close>

definition known_error :: "ErrorCode \<Rightarrow> bool" where
  "known_error code \<longleftrightarrow> ErrorCode_IsValid code \<or> code = NoErrorCode"

definition valid_message :: "Message \<Rightarrow> bool" where
  "valid_message m \<longleftrightarrow> known_error (msg_ErrorCode m)
     \<and> list_all ValidString [msg_RequestID m, msg_BusinessRequestID m, msg_MessageID m, msg_AppCode m, msg_APIKeyName m,
          msg_SceneCode m, msg_ToDomain m, msg_ToHash m, msg_Locale m, msg_ErrorMessage m]"

definition valid_attempt :: "Attempt \<Rightarrow> bool" where
  "valid_attempt a \<longleftrightarrow> known_error (att_ErrorCode a)
     \<and> list_all ValidString [att_MessageID a, att_AppCode a, att_ProviderAccountCode a, att_ProviderChannelCode a,
          att_ErrorMessage a, att_ProviderMessageID a]"

lemma known_error_repair:
  "known_error code \<Longrightarrow> ErrorCode_of (json_repair (text_of_ErrorCode code)) = code"
proof -
  assume "known_error code"
  then consider "code = NoErrorCode" | "ErrorCode_IsValid code" by (auto simp: known_error_def)
  then show ?thesis
  proof cases
    case 1
    have "json_repair [] = []" by code_simp
    then show ?thesis using 1 by (simp add: ErrorCode_of_def)
  next
    case 2
    then have "ascii (text_of_ErrorCode code)" by (cases code) (simp_all add: ascii_def)
    then show ?thesis using 2 by (simp add: json_repair_valid ascii_valid)
  qed
qed

lemma logged_message_valid:
  "valid_message m \<Longrightarrow> logged_message t m =
     \<lparr>ms_Timestamp = t, ms_RequestID = msg_RequestID m, ms_BusinessRequestID = msg_BusinessRequestID m,
      ms_MessageID = msg_MessageID m, ms_AppCode = msg_AppCode m, ms_APIKeyName = msg_APIKeyName m,
      ms_SceneCode = msg_SceneCode m, ms_ToDomain = msg_ToDomain m, ms_ToHash = msg_ToHash m, ms_Locale = msg_Locale m,
      ms_Status = msg_Status m, ms_ErrorCode = msg_ErrorCode m, ms_ErrorMessage = msg_ErrorMessage m\<rparr>"
  by (simp add: logged_message_def valid_message_def json_repair_valid known_error_repair)

lemma logged_attempt_valid:
  assumes "attempt_loggable t a" "valid_attempt a"
  shows "logged_attempt t a =
     \<lparr>as_Timestamp = t, as_MessageID = att_MessageID a, as_AppCode = att_AppCode a, as_AttemptNo = att_AttemptNo a,
      as_Provider = att_Provider a, as_ProviderAccountCode = att_ProviderAccountCode a,
      as_ProviderChannelCode = att_ProviderChannelCode a, as_Transport = att_Transport a, as_Status = att_Status a,
      as_FailureClass = att_FailureClass a, as_ErrorCode = att_ErrorCode a, as_ErrorMessage = att_ErrorMessage a,
      as_ProviderMessageID = att_ProviderMessageID a, as_DurationMS = att_DurationMS a\<rparr>"
proof -
  have nothing: "json_repair [] = []" by code_simp
  consider "Provider_IsValid (att_Provider a)" "Transport_IsValid (att_Transport a)"
    | "att_Provider a = NoProvider" "att_Transport a = NoTransport"
    using assms(1) by (auto simp: attempt_loggable_def isValidAttemptProviderMetadata_def split: if_splits)
  then have "Provider_of (json_repair (text_of_Provider (att_Provider a))) = att_Provider a
      \<and> Transport_of (json_repair (text_of_Transport (att_Transport a))) = att_Transport a"
  proof cases
    case 1
    then show ?thesis by simp
  next
    case 2
    then show ?thesis using nothing by (simp add: Provider_of_def Transport_of_def)
  qed
  then show ?thesis using assms
    by (simp add: logged_attempt_def attempt_loggable_def valid_attempt_def json_repair_valid known_error_repair)
qed


definition sample_logged :: Message where
  "sample_logged = zero_Message\<lparr>msg_MessageID := ''msg_1'', msg_AppCode := ''shop'',
     msg_SceneCode := [quote_char, newline, CHR ''<''], msg_Status := MessageStatusSent\<rparr>"

definition sample_attempt :: Attempt where
  "sample_attempt = \<lparr>att_MessageID = ''msg_1'', att_AppCode = ''shop'', att_AttemptNo = 1,
     att_Provider = ProviderMock, att_ProviderAccountCode = ''acc'', att_ProviderChannelCode = ''ch'',
     att_Transport = TransportAPI, att_Status = AttemptStatusSent, att_FailureClass = FailureClassNone,
     att_ErrorCode = NoErrorCode, att_ErrorMessage = [], att_ProviderMessageID = ''pm'',
     att_DurationMS = 12\<rparr>"


text \<open>A series of appends to the logs of messages and of attempts, in any order, up to the first error.\<close>

datatype log_entry = Message_entry go_time Message | Attempt_entry go_time Attempt

fun append_entries :: "log_entry list \<Rightarrow> MessageLog \<Rightarrow> log_disk \<Rightarrow> unit result \<times> MessageLog \<times> log_disk" where
  "append_entries [] l disk = (Inr (), l, disk)"
| "append_entries (e # es) l disk =
     (case (case e of
              Message_entry t m \<Rightarrow> AppendMessage calm json_quote (format_time t) m l disk
            | Attempt_entry t a \<Rightarrow> AppendAttempt calm json_quote (format_time t) a l disk) of
        (Inl e, l', disk') \<Rightarrow> (Inl e, l', disk')
      | (Inr _, l', disk') \<Rightarrow> append_entries es l' disk')"

text \<open>The snapshots these appends are to be read as.\<close>

fun entry_messages :: "log_entry \<Rightarrow> MessageSnapshot list" where
  "entry_messages (Message_entry t m) = [logged_message t m]"
| "entry_messages (Attempt_entry t a) = []"

fun entry_attempts :: "log_entry \<Rightarrow> AttemptSnapshot list" where
  "entry_attempts (Message_entry t m) = []"
| "entry_attempts (Attempt_entry t a) = [logged_attempt t a]"

fun entry_loggable :: "log_entry \<Rightarrow> bool" where
  "entry_loggable (Message_entry t m) \<longleftrightarrow> message_loggable t m \<and> fits (message_line (t, m))"
| "entry_loggable (Attempt_entry t a) \<longleftrightarrow> attempt_loggable t a \<and> fits (attempt_line (t, a))"

definition logs_kept ::
    "int \<Rightarrow> nat \<Rightarrow> MessageLog \<Rightarrow> log_disk \<Rightarrow> MessageSnapshot list \<Rightarrow> AttemptSnapshot list \<Rightarrow> bool" where
  "logs_kept maxBytes n l disk ms as \<longleftrightarrow>
     log_kept (decodeMessageSnapshot go_codec) maxBytes n (ml_messages l) (disk Messages_log) ms
     \<and> log_kept (decodeAttemptSnapshot go_codec) maxBytes n (ml_attempts l) (disk Attempts_log) as"

lemma append_entries_kept:
  "logs_kept maxBytes n l disk ms as \<Longrightarrow> \<forall>e \<in> set es. entry_loggable e \<Longrightarrow>
     \<exists>l' disk'. append_entries es l disk = (Inr (), l', disk')
       \<and> logs_kept maxBytes n l' disk' (ms @ concat (map entry_messages es)) (as @ concat (map entry_attempts es))"
proof (induction es arbitrary: l disk ms as)
  case Nil
  then show ?case by simp
next
  case (Cons e es)
  show ?case
  proof (cases e)
    case (Message_entry t m)
    obtain w fs where w: "appendLineLocked calm (message_line (t, m)) (ml_messages l) (disk Messages_log) = (Inr (), w, fs)"
        "log_kept (decodeMessageSnapshot go_codec) maxBytes n w fs (ms @ [logged_message t m])"
      using message_codec.append_kept [of maxBytes n "ml_messages l" "disk Messages_log" ms "(t, m)"] Cons.prems Message_entry
      by (auto simp: logs_kept_def)
    have "logs_kept maxBytes n (l\<lparr>ml_messages := w\<rparr>) (disk(Messages_log := fs)) (ms @ [logged_message t m]) as"
      using w(2) Cons.prems(1) by (simp add: logs_kept_def)
    then obtain l' disk' where "append_entries es (l\<lparr>ml_messages := w\<rparr>) (disk(Messages_log := fs)) = (Inr (), l', disk')"
        "logs_kept maxBytes n l' disk' ((ms @ [logged_message t m]) @ concat (map entry_messages es))
           (as @ concat (map entry_attempts es))"
      using Cons.IH Cons.prems(2) by (meson list.set_intros(2))
    then show ?thesis using w(1)
      by (intro exI [of _ l'] exI [of _ disk']) (simp add: Message_entry AppendMessage_def message_line_def)
  next
    case (Attempt_entry t a)
    obtain w fs where w: "appendLineLocked calm (attempt_line (t, a)) (ml_attempts l) (disk Attempts_log) = (Inr (), w, fs)"
        "log_kept (decodeAttemptSnapshot go_codec) maxBytes n w fs (as @ [logged_attempt t a])"
      using attempt_codec.append_kept [of maxBytes n "ml_attempts l" "disk Attempts_log" as "(t, a)"] Cons.prems Attempt_entry
      by (auto simp: logs_kept_def)
    have "logs_kept maxBytes n (l\<lparr>ml_attempts := w\<rparr>) (disk(Attempts_log := fs)) ms (as @ [logged_attempt t a])"
      using w(2) Cons.prems(1) by (simp add: logs_kept_def)
    then obtain l' disk' where "append_entries es (l\<lparr>ml_attempts := w\<rparr>) (disk(Attempts_log := fs)) = (Inr (), l', disk')"
        "logs_kept maxBytes n l' disk' (ms @ concat (map entry_messages es))
           ((as @ [logged_attempt t a]) @ concat (map entry_attempts es))"
      using Cons.IH Cons.prems(2) by (meson list.set_intros(2))
    then show ?thesis using w(1)
      by (intro exI [of _ l'] exI [of _ disk']) (simp add: Attempt_entry AppendAttempt_def attempt_line_def)
  qed
qed

lemma log_kept_view:
  assumes "log_kept dec maxBytes n w fs xs"
  obtains k where "k < length xs \<or> xs = [] \<and> k = 0"
    "\<And>kind path. read_log kind dec (queryPaths (\<lambda>_. None) path w fs) = Inr (drop k xs)"
    "0 < k \<longrightarrow> maxBytes * int (Suc n div 2) < int (length (visible n fs))"
proof -
  obtain k where k: "k \<le> length xs" "log_reads dec w fs (drop k xs)" "jw_maxBytes w = maxBytes" "jw_maxBackups w = n"
      "k < length xs \<or> xs = []" "0 < k \<longrightarrow> content fs n \<noteq> []"
    using assms unfolding log_kept_def by blast
  then show thesis using that [of k] log_reads_view [OF k(2)] log_reads_full [OF k(2)] by auto
qed

lemma fresh_logs_kept:
  assumes "NewMessageLog None (\<lambda>_. calm_open) config (\<lambda>_. Map.empty) = (Inr l, disk)"
  shows "logs_kept (lcf_MaxBytes config) (nat (lcf_MaxBackups config)) l disk [] []"
proof -
  have new: "newJSONLWriter None calm_open (lcf_MaxBytes config) (lcf_MaxBackups config) Map.empty
        = (Inr (ml_messages l), disk Messages_log)"
      "newJSONLWriter None calm_open (lcf_MaxBytes config) (lcf_MaxBackups config) Map.empty
        = (Inr (ml_attempts l), disk Attempts_log)"
    using assms by (auto simp: NewMessageLog_def Let_def split: if_splits sum.splits prod.splits)
  have kept: "log_kept dec (lcf_MaxBytes config) (nat (lcf_MaxBackups config)) w fs []"
    if n: "newJSONLWriter None calm_open (lcf_MaxBytes config) (lcf_MaxBackups config) Map.empty = (Inr w, fs)"
    for dec :: "string \<Rightarrow> 'b result" and w fs
  proof -
    have "jw_maxBytes w = lcf_MaxBytes config" "jw_maxBackups w = nat (lcf_MaxBackups config)"
      using n by (auto simp: newJSONLWriter_def jsonl_open_def calm_open_def Let_def split: if_splits)
    then show ?thesis using fresh_log_reads [OF n, of dec] by (simp add: log_kept_def)
  qed
  show ?thesis unfolding logs_kept_def by (intro conjI kept new)
qed


definition sample_entries :: "log_entry list" where
  "sample_entries = [Message_entry 0 sample_logged, Attempt_entry 1 sample_attempt,
     Message_entry 2 (sample_logged\<lparr>msg_Status := MessageStatusDelivered\<rparr>)]"




end
