(* ===== verification/Sha256.thy ===== *)
theory Sha256
  imports Json "HOL-Library.Word"
begin

text \<open>
  Hashes: SHA-256 as \<open>crypto/sha256\<close> computes it (FIPS 180-4), its lower-case hexadecimal text, and
  the hashes of \<open>internal/domain/helpers.go\<close> that the program stores in place of addresses, user ids
  and keys. Bytes are the characters of a string, words have 32 bits and addition wraps around.
\<close>

unbundle bit_operations_syntax

section \<open>SHA-256\<close>

type_synonym word32 = "32 word"

text \<open>
  The initial hash value and the constants of the rounds are the first 32 bits of the fractional parts
  of the square roots of the first eight primes and of the cube roots of the first sixty-four. An
  integer root is found bit by bit, from the highest.
\<close>

definition first_primes :: "nat list" where
  "first_primes = filter (\<lambda>n. list_all (\<lambda>d. n mod d \<noteq> 0) [2..<n]) [2..<312]"

fun root_bits :: "nat \<Rightarrow> nat \<Rightarrow> nat \<Rightarrow> nat \<Rightarrow> nat" where
  "root_bits k x 0 r = r"
| "root_bits k x (Suc b) r = root_bits k x b (if (r + 2 ^ b) ^ k \<le> x then r + 2 ^ b else r)"

definition root_fraction :: "nat \<Rightarrow> nat \<Rightarrow> word32" where
  "root_fraction k p = of_nat (root_bits k (p * 2 ^ (32 * k)) 40 0)"

definition sha_h0 :: "word32 list" where
  "sha_h0 = map (root_fraction 2) [2, 3, 5, 7, 11, 13, 17, 19]"

definition sha_k :: "word32 list" where
  "sha_k = map (root_fraction 3) first_primes"

text \<open>The padding: a one bit, zeros, and the length in bits as a 64-bit big-endian number.\<close>

definition be_bytes :: "nat \<Rightarrow> nat \<Rightarrow> nat list" where
  "be_bytes k n = map (\<lambda>i. n div 256 ^ (k - 1 - i) mod 256) [0..<k]"

definition sha_pad :: "nat list \<Rightarrow> nat list" where
  "sha_pad m = m @ 128 # replicate ((119 - length m mod 64) mod 64) 0 @ be_bytes 8 (8 * length m)"

fun be_words :: "nat list \<Rightarrow> word32 list" where
  "be_words (a # b # c # d # rest) =
     of_nat (((a * 256 + b) * 256 + c) * 256 + d) # be_words rest"
| "be_words _ = []"

fun chunks :: "nat \<Rightarrow> 'a list \<Rightarrow> 'a list list" where
  "chunks n [] = []"
| "chunks n (x # xs) = (if n = 0 then [] else take n (x # xs) # chunks n (drop n (x # xs)))"

definition small_sigma0 :: "word32 \<Rightarrow> word32" where
  "small_sigma0 x = word_rotr 7 x XOR word_rotr 18 x XOR drop_bit 3 x"

definition small_sigma1 :: "word32 \<Rightarrow> word32" where
  "small_sigma1 x = word_rotr 17 x XOR word_rotr 19 x XOR drop_bit 10 x"

definition big_sigma0 :: "word32 \<Rightarrow> word32" where
  "big_sigma0 x = word_rotr 2 x XOR word_rotr 13 x XOR word_rotr 22 x"

definition big_sigma1 :: "word32 \<Rightarrow> word32" where
  "big_sigma1 x = word_rotr 6 x XOR word_rotr 11 x XOR word_rotr 25 x"

text \<open>The message schedule; each of the 48 further words is computed from the sixteen before it.\<close>

definition sha_next :: "word32 list \<Rightarrow> word32" where
  "sha_next w =
     (let n = length w
      in small_sigma1 (w ! (n - 2)) + w ! (n - 7) + small_sigma0 (w ! (n - 15)) + w ! (n - 16))"

definition sha_schedule :: "word32 list \<Rightarrow> word32 list" where
  "sha_schedule block = ((\<lambda>w. w @ [sha_next w]) ^^ 48) block"

text \<open>One round on the eight working variables.\<close>

fun sha_round :: "word32 \<times> word32 \<Rightarrow> word32 list \<Rightarrow> word32 list" where
  "sha_round (k, w) [a, b, c, d, e, f, g, h] =
     (let t1 = h + big_sigma1 e + ((e AND f) XOR (NOT e AND g)) + k + w;
          t2 = big_sigma0 a + ((a AND b) XOR (a AND c) XOR (b AND c))
      in [t1 + t2, a, b, c, d + t1, e, f, g])"
| "sha_round _ s = s"

definition sha_block :: "word32 list \<Rightarrow> word32 list \<Rightarrow> word32 list" where
  "sha_block block h = map2 (+) h (fold sha_round (zip sha_k (sha_schedule block)) h)"

definition sha256 :: "nat list \<Rightarrow> nat list" where
  "sha256 m =
     concat (map (\<lambda>w. be_bytes 4 (unat w)) (fold sha_block (chunks 16 (be_words (sha_pad m))) sha_h0))"

section \<open>Hexadecimal text\<close>

text \<open>\<open>hex.EncodeToString\<close>\<close>

definition hex_encode :: "nat list \<Rightarrow> string" where
  "hex_encode bs = concat (map (\<lambda>b. [hex_digit (b div 16), hex_digit (b mod 16)]) bs)"

definition sha256Hex :: "string \<Rightarrow> string" where
  "sha256Hex s = hex_encode (sha256 (map byte s))"

section \<open>The hashes of the program\<close>

definition ToHash :: "string \<Rightarrow> string \<Rightarrow> string" where
  "ToHash app normalizedToEmail = sha256Hex (app @ '':'' @ normalizedToEmail)"

definition UserIDHash :: "string \<Rightarrow> string \<Rightarrow> string" where
  "UserIDHash app userID = (if userID = [] then [] else sha256Hex (app @ '':'' @ userID))"

definition IdempotencyHash :: "string \<Rightarrow> string \<Rightarrow> string \<Rightarrow> string" where
  "IdempotencyHash app scene idempotencyKey = sha256Hex (app @ '':'' @ scene @ '':'' @ idempotencyKey)"

definition APIKeyHash :: "string \<Rightarrow> string" where
  "APIKeyHash apiKey = sha256Hex apiKey"

text \<open>The comparison without early exit: the OR of the differences of all bytes.\<close>

definition ConstantTimeEqualHex :: "string \<Rightarrow> string \<Rightarrow> bool" where
  "ConstantTimeEqualHex l r =
     (if length l \<noteq> length r then False
      else fold (\<lambda>(x, y) v. v OR (of_nat (byte x) XOR of_nat (byte y) :: 8 word)) (zip l r) 0 = 0)"


section \<open>Facts\<close>

lemma length_sha_round [simp]: "length (sha_round kw s) = length s"
  by (cases "(kw, s)" rule: sha_round.cases) (auto simp: Let_def)

lemma length_sha_rounds: "length (fold sha_round kws s) = length s"
  by (induction kws arbitrary: s) auto

lemma length_sha_blocks: "length (fold sha_block bs h) = length h"
  by (induction bs arbitrary: h) (auto simp: sha_block_def length_sha_rounds)

lemma length_sha_h0 [simp]: "length sha_h0 = 8"
  by (simp add: sha_h0_def)

lemma length_sha256: "length (sha256 m) = 32"
proof -
  have "length (concat (map (\<lambda>w. be_bytes 4 (unat w)) ws)) = 4 * length ws" for ws :: "word32 list"
    by (induction ws) (auto simp: be_bytes_def)
  then show ?thesis by (simp add: sha256_def length_sha_blocks)
qed

lemma sha256_bytes: "b \<in> set (sha256 m) \<Longrightarrow> b < 256"
  by (auto simp: sha256_def be_bytes_def)

lemma length_hex_encode: "length (hex_encode bs) = 2 * length bs"
  by (induction bs) (auto simp: hex_encode_def)

lemma hex_digit_lower: "n < 16 \<Longrightarrow> is_digit (hex_digit n) \<or> char_between CHR ''a'' CHR ''f'' (hex_digit n)"
  by (auto simp: hex_digit_def char_between_def of_char_of)

lemma or_eq_0_iff: "x OR y = 0 \<longleftrightarrow> x = 0 \<and> y = 0" for x y :: "8 word"
  by (auto simp: bit_eq_iff bit_simps)

lemma xor_eq_0_iff: "x XOR y = 0 \<longleftrightarrow> x = y" for x y :: "8 word"
  by (auto simp: bit_eq_iff bit_simps)

lemma byte_word_inject: "(of_nat (byte x) :: 8 word) = of_nat (byte y) \<longleftrightarrow> x = y"
  by (simp add: word_of_nat_eq_iff take_bit_eq_mod)

lemma ConstantTimeEqualHex_eq: "ConstantTimeEqualHex l r \<longleftrightarrow> l = r"
proof -
  have all: "fold (\<lambda>(x, y) v. v OR (of_nat (byte x) XOR of_nat (byte y) :: 8 word)) ps v = 0
      \<longleftrightarrow> v = 0 \<and> (\<forall>(x, y) \<in> set ps. x = y)" for ps v
    by (induction ps arbitrary: v) (auto simp: or_eq_0_iff xor_eq_0_iff byte_word_inject)
  show ?thesis
  proof (cases "length l = length r")
    case True
    then have "(\<forall>(x, y) \<in> set (zip l r). x = y) \<longleftrightarrow> l = r" by (induction l r rule: list_induct2) auto
    then show ?thesis using True unfolding ConstantTimeEqualHex_def all by simp
  qed (auto simp: ConstantTimeEqualHex_def)
qed

text \<open>A hash is 64 lower-case hexadecimal digits.\<close>

lemma sha256Hex_shape:
  "length (sha256Hex s) = 64"
  "c \<in> set (sha256Hex s) \<Longrightarrow> is_digit c \<or> char_between CHR ''a'' CHR ''f'' c"
proof -
  show "length (sha256Hex s) = 64" by (simp add: sha256Hex_def length_hex_encode length_sha256)
  assume "c \<in> set (sha256Hex s)"
  then obtain b where b: "b \<in> set (sha256 (map byte s))" "c = hex_digit (b div 16) \<or> c = hex_digit (b mod 16)"
    by (auto simp: sha256Hex_def hex_encode_def)
  have "b div 16 < 16" using sha256_bytes [OF b(1)] by simp
  then show "is_digit c \<or> char_between CHR ''a'' CHR ''f'' c" using b(2) hex_digit_lower [of "b div 16"] hex_digit_lower [of "b mod 16"] by auto
qed

end
