(* ===== verification/Suppression.thy ===== *)
theory Suppression
  imports Route
begin

text \<open>
  The suppression list of \<open>internal/lite/suppression.go\<close>: application-scoped addresses that must not
  be mailed, kept in memory and written to a YAML file. The entries are a Go map, here an association
  list. The YAML library and the outcome of each system call are arguments; the file system is a
  map from paths to contents.
\<close>

section \<open>State\<close>

record SuppressionStore =
  ss_path :: string
  ss_entries :: "(string \<times> SuppressionEntry) list"

record SuppressionListFilter =
  sf_Limit :: int
  sf_Reason :: SuppressionReason
  sf_Email :: string

record suppressionYAMLEntry =
  y_App :: string
  y_Email :: string
  y_Reason :: string

type_synonym suppressionYAML = "suppressionYAMLEntry list"

type_synonym file_system = "string \<rightharpoonup> string"

section \<open>Keys\<close>

text \<open>The pattern \<open>[a-z0-9]([a-z0-9_-]{0,62}[a-z0-9])?\<close>, anchored at both ends.\<close>

definition isValidSuppressionAppCode :: "string \<Rightarrow> bool" where
  "isValidSuppressionAppCode value =
     (case value of
        [] \<Rightarrow> False
      | c # rest \<Rightarrow>
          lower_or_digit c
          \<and> (rest = []
             \<or> (length (butlast rest) \<le> 62
                \<and> (\<forall>x \<in> set (butlast rest). lower_or_digit x \<or> x = CHR ''_'' \<or> x = CHR ''-'')
                \<and> lower_or_digit (last rest))))"

definition suppressionKey :: "string \<Rightarrow> string \<Rightarrow> string" where
  "suppressionKey appCode normalizedEmail = appCode @ char_of (0 :: nat) # normalizedEmail"

lemma isValidSuppressionAppCode_eq: "isValidSuppressionAppCode v = isRequestIdentifier v"
proof (cases v)
  case (Cons c rest)
  show ?thesis
  proof (cases "rest = []")
    case False
    then have "set rest = insert (last rest) (set (butlast rest))"
      by (metis append_butlast_last_id insert_is_Un list.set(1,2) set_append sup_commute)
    moreover have "length rest = Suc (length (butlast rest))" using False by simp
    ultimately show ?thesis using Cons False
      by (auto simp: isValidSuppressionAppCode_def isRequestIdentifier_def maxSceneCodeBytes_def)
  qed (auto simp: Cons isValidSuppressionAppCode_def isRequestIdentifier_def maxSceneCodeBytes_def)
qed (simp add: isValidSuppressionAppCode_def isRequestIdentifier_def)

lemma app_code_chars:
  assumes "isValidSuppressionAppCode a" "c \<in> set a"
  shows "33 \<le> byte c" "byte c < (128 :: nat)"
  using assms
  by (auto simp: isValidSuppressionAppCode_eq isRequestIdentifier_def lower_or_digit_def char_between_def)

lemma app_code_trim: "isValidSuppressionAppCode a \<Longrightarrow> TrimSpace a = a"
proof (rule TrimSpace_ascii)
  assume a: "isValidSuppressionAppCode a"
  then show asc: "ascii a" by (simp add: ascii_def app_code_chars(2))
  show "\<not> has_space a"
    unfolding has_space_def runes_ascii [OF asc]
    using app_code_chars [OF a] by (force simp: IsSpace_def)
qed

text \<open>No two pairs of a valid application code and an address share a key.\<close>

lemma suppressionKey_inj:
  assumes "isValidSuppressionAppCode a" "isValidSuppressionAppCode b"
    and "suppressionKey a e = suppressionKey b f"
  shows "a = b \<and> e = f"
proof -
  have nul: "char_of (0 :: nat) \<notin> set a" "char_of (0 :: nat) \<notin> set b"
    using app_code_chars(1) [OF assms(1)] app_code_chars(1) [OF assms(2)] by force+
  show ?thesis using assms(3) nul
    by (auto simp: suppressionKey_def append_eq_Cons_conv append_eq_append_conv2 Cons_eq_append_conv)
qed

section \<open>The file\<close>

text \<open>The outcome of the system calls of one atomic write; \<open>None\<close> is success.\<close>

record atomic_env =
  ae_temp :: string
  ae_create :: "go_error option"
  ae_chmod :: "go_error option"
  ae_write :: "go_error option"
  ae_partial :: string
  ae_sync :: "go_error option"
  ae_close :: "go_error option"
  ae_rename :: "go_error option"
  ae_removed :: bool

definition cleanup :: "atomic_env \<Rightarrow> file_system \<Rightarrow> file_system" where
  "cleanup env fs = (if ae_removed env then fs(ae_temp env := None) else fs)"

definition writeFileAtomically ::
    "atomic_env \<Rightarrow> string \<Rightarrow> string \<Rightarrow> file_system \<Rightarrow> unit result \<times> file_system" where
  "writeFileAtomically env path data fs =
     (case ae_create env of
        Some e \<Rightarrow> (Inl (Wrapf ''create temporary file'' e), fs)
      | None \<Rightarrow>
          let fs1 = fs(ae_temp env \<mapsto> [])
          in case ae_chmod env of
               Some e \<Rightarrow> (Inl (Wrapf ''set temporary file permissions'' e), cleanup env fs1)
             | None \<Rightarrow>
                 (case ae_write env of
                    Some e \<Rightarrow> (Inl (Wrapf ''write temporary file'' e),
                               cleanup env (fs1(ae_temp env \<mapsto> ae_partial env)))
                  | None \<Rightarrow>
                      let fs2 = fs1(ae_temp env \<mapsto> data)
                      in case ae_sync env of
                           Some e \<Rightarrow> (Inl (Wrapf ''sync temporary file'' e), cleanup env fs2)
                         | None \<Rightarrow>
                             (case ae_close env of
                                Some e \<Rightarrow> (Inl (Wrapf ''close temporary file'' e), cleanup env fs2)
                              | None \<Rightarrow>
                                  (case ae_rename env of
                                     Some e \<Rightarrow> (Inl (Wrapf ''replace file'' e), cleanup env fs2)
                                   | None \<Rightarrow>
                                       (Inr (), fs2(path \<mapsto> data, ae_temp env := None))))))"

text \<open>What a persist meets: the directory, the YAML encoder and the write.\<close>

record persist_env =
  pe_directory :: "go_error option"
  pe_marshal :: "suppressionYAML \<Rightarrow> string result"
  pe_atomic :: atomic_env

definition sorted_keys :: "(string \<times> 'a) list \<Rightarrow> string list" where
  "sorted_keys m = sort (keys_of m)"

definition yaml_entry :: "SuppressionEntry \<Rightarrow> suppressionYAMLEntry" where
  "yaml_entry e = \<lparr>y_App = sup_AppCode e, y_Email = sup_Email e,
                   y_Reason = text_of_SuppressionReason (sup_Reason e)\<rparr>"

definition suppression_file :: "SuppressionStore \<Rightarrow> suppressionYAML" where
  "suppression_file s =
     map (\<lambda>k. yaml_entry (the (map_of (ss_entries s) k))) (sorted_keys (ss_entries s))"

definition persistLocked ::
    "persist_env \<Rightarrow> SuppressionStore \<Rightarrow> file_system \<Rightarrow> unit result \<times> file_system" where
  "persistLocked env s fs =
     (if TrimSpace (ss_path s) = [] then (Inr (), fs)
      else case pe_directory env of
             Some e \<Rightarrow> (Inl (Wrapf ''prepare suppression directory'' e), fs)
           | None \<Rightarrow>
               (case pe_marshal env (suppression_file s) of
                  Inl e \<Rightarrow> (Inl (Wrapf ''marshal suppression file'' e), fs)
                | Inr data \<Rightarrow>
                    (case writeFileAtomically (pe_atomic env) (ss_path s) data fs of
                       (Inl e, fs') \<Rightarrow> (Inl (Wrapf ''write suppression file'' e), fs')
                     | (Inr _, fs') \<Rightarrow> (Inr (), fs'))))"

text \<open>
  The YAML decoder on a file: what its first and its second \<open>Decode\<close> find, a document, the end of
  the file or an error.
\<close>

datatype 'a yaml_read = Document 'a | End_of_file | Read_error go_error

definition decodeSuppressionYAML ::
    "suppressionYAML yaml_read \<Rightarrow> unit yaml_read \<Rightarrow> suppressionYAML result" where
  "decodeSuppressionYAML first extra =
     (case first of
        End_of_file \<Rightarrow> Inr []
      | Read_error e \<Rightarrow> Inl e
      | Document file \<Rightarrow>
          (case extra of
             End_of_file \<Rightarrow> Inr file
           | Document _ \<Rightarrow> Inl (Errorf ''suppression file must contain a single YAML document'')
           | Read_error e \<Rightarrow> Inl e))"

section \<open>Operations\<close>

definition NewEmptySuppressionStore :: SuppressionStore where
  "NewEmptySuppressionStore = \<lparr>ss_path = [], ss_entries = []\<rparr>"

definition load_error :: "nat \<Rightarrow> string \<Rightarrow> go_error" where
  "load_error i msg = Errorf (''suppression entry '' @ decimal i @ msg)"

text \<open>The loop over the entries of the file; the index is in the messages.\<close>

fun load_entries ::
    "nat \<Rightarrow> suppressionYAML \<Rightarrow> (string \<times> SuppressionEntry) list
     \<Rightarrow> (string \<times> SuppressionEntry) list result" where
  "load_entries i [] m = Inr m"
| "load_entries i (y # ys) m =
     (let appCode = TrimSpace (y_App y); email = TrimSpace (y_Email y);
          reason = SuppressionReason_of (y_Reason y)
      in if appCode = [] then Inl (load_error i '' app is required'')
         else if \<not> isValidSuppressionAppCode appCode then
           Inl (load_error i '' app is invalid'')
         else case NormalizeAddrSpecEmail email of
           None \<Rightarrow> Inl (load_error i '' email must be a valid single addr-spec'')
         | Some normalized \<Rightarrow>
             if \<not> SuppressionReason_IsValid reason then
               Inl (load_error i '' reason must be hard_bounce, complaint, or manual'')
             else if map_of m (suppressionKey appCode normalized) \<noteq> None then
               Inl (load_error i '' duplicates an earlier app and email'')
             else load_entries (Suc i) ys
               (AList.update (suppressionKey appCode normalized)
                  \<lparr>sup_AppCode = appCode, sup_Email = email, sup_NormalizedEmail = normalized,
                   sup_Reason = reason\<rparr> m))"

definition LoadSuppressionStore ::
    "(string \<Rightarrow> suppressionYAML yaml_read \<times> unit yaml_read) \<Rightarrow> go_error option \<Rightarrow> string
     \<Rightarrow> file_system \<Rightarrow> SuppressionStore result" where
  "LoadSuppressionStore yaml read_error path fs =
     (if TrimSpace path = [] then Inr NewEmptySuppressionStore
      else case fs path of
             None \<Rightarrow> Inr (NewEmptySuppressionStore\<lparr>ss_path := path\<rparr>)
           | Some data \<Rightarrow>
               (case read_error of
                  Some e \<Rightarrow> Inl (Wrapf ''read suppression file'' e)
                | None \<Rightarrow>
                    (case decodeSuppressionYAML (fst (yaml data)) (snd (yaml data)) of
                       Inl e \<Rightarrow> Inl (Wrapf ''parse suppression file'' e)
                     | Inr file \<Rightarrow>
                         (case load_entries 0 file [] of
                            Inl e \<Rightarrow> Inl e
                          | Inr m \<Rightarrow> Inr \<lparr>ss_path = path, ss_entries = m\<rparr>))))"

text \<open>The store is a pointer that may be nil.\<close>

definition Contains_suppressed ::
    "string \<Rightarrow> string \<Rightarrow> SuppressionStore option \<Rightarrow> SuppressionEntry option" where
  "Contains_suppressed appCode normalizedEmail s =
     (case s of
        None \<Rightarrow> None
      | Some s' \<Rightarrow> map_of (ss_entries s') (suppressionKey appCode normalizedEmail))"

definition Add ::
    "persist_env \<Rightarrow> SuppressionEntry \<Rightarrow> SuppressionStore option \<Rightarrow> file_system
     \<Rightarrow> bool result \<times> SuppressionStore option \<times> file_system" where
  "Add env entry s fs =
     (case s of
        None \<Rightarrow> (Inl (Errorf ''suppression store is required''), None, fs)
      | Some st \<Rightarrow>
          let appCode = TrimSpace (sup_AppCode entry);
              email = TrimSpace (sup_Email entry);
              sourceEmail = (if email = [] then TrimSpace (sup_NormalizedEmail entry) else email)
          in if appCode = [] then (Inl (Errorf ''suppression entry app is required''), s, fs)
             else if \<not> isValidSuppressionAppCode appCode then
               (Inl (Errorf ''suppression entry app is invalid''), s, fs)
             else case NormalizeAddrSpecEmail sourceEmail of
               None \<Rightarrow>
                 (Inl (Errorf ''suppression entry email must be a valid single addr-spec''), s, fs)
             | Some normalized \<Rightarrow>
                 if \<not> SuppressionReason_IsValid (sup_Reason entry) then
                   (Inl (Errorf ''suppression entry reason must be hard_bounce, complaint, or manual''),
                    s, fs)
                 else
                   let normalizedEntry =
                         \<lparr>sup_AppCode = appCode, sup_Email = (if email = [] then normalized else email),
                          sup_NormalizedEmail = normalized, sup_Reason = sup_Reason entry\<rparr>;
                       key = suppressionKey appCode normalized;
                       stored = st\<lparr>ss_entries := AList.update key normalizedEntry (ss_entries st)\<rparr>
                   in case map_of (ss_entries st) key of
                        Some existing \<Rightarrow>
                          if sup_Reason existing = sup_Reason normalizedEntry
                             \<and> sup_Email existing = sup_Email normalizedEntry then (Inr False, s, fs)
                          else if sup_Reason existing = SuppressionReasonHardBounce
                                  \<and> sup_Reason normalizedEntry = SuppressionReasonComplaint then
                            (case persistLocked env stored fs of
                               (Inl e, fs') \<Rightarrow>
                                 (Inl e,
                                  Some (stored\<lparr>ss_entries :=
                                    AList.update key existing (ss_entries stored)\<rparr>), fs')
                             | (Inr _, fs') \<Rightarrow> (Inr True, Some stored, fs'))
                          else (Inr False, s, fs)
                      | None \<Rightarrow>
                          (case persistLocked env stored fs of
                             (Inl e, fs') \<Rightarrow>
                               (Inl e,
                                Some (stored\<lparr>ss_entries := AList.delete key (ss_entries stored)\<rparr>), fs')
                           | (Inr _, fs') \<Rightarrow> (Inr True, Some stored, fs')))"

definition suppression_matches ::
    "string \<Rightarrow> SuppressionReason \<Rightarrow> string \<Rightarrow> SuppressionEntry \<Rightarrow> bool" where
  "suppression_matches appCode reason normalizedEmail entry \<longleftrightarrow>
     sup_AppCode entry = appCode
     \<and> \<not> (reason \<noteq> NoReason \<and> sup_Reason entry \<noteq> reason)
     \<and> \<not> (normalizedEmail \<noteq> [] \<and> sup_NormalizedEmail entry \<noteq> normalizedEmail)"

definition List_suppressed ::
    "string \<Rightarrow> SuppressionListFilter \<Rightarrow> SuppressionStore option \<Rightarrow> SuppressionEntry list" where
  "List_suppressed appCode f s =
     (case s of
        None \<Rightarrow> []
      | Some st \<Rightarrow>
          (case (if TrimSpace (sf_Email f) \<noteq> [] then NormalizeAddrSpecEmail (sf_Email f) else Some []) of
             None \<Rightarrow> []
           | Some normalizedEmail \<Rightarrow>
               let keys = sort (keys_of (filter (\<lambda>(k, e).
                      suppression_matches appCode (sf_Reason f) normalizedEmail e) (ss_entries st)));
                   entries = map (\<lambda>k. the (map_of (ss_entries st) k)) keys
               in if 0 < sf_Limit f \<and> sf_Limit f < int (length entries)
                  then take (nat (sf_Limit f)) entries else entries))"

section \<open>The invariant of a store\<close>

definition entry_ok :: "string \<Rightarrow> SuppressionEntry \<Rightarrow> bool" where
  "entry_ok k e \<longleftrightarrow>
     isValidSuppressionAppCode (sup_AppCode e) \<and> TrimSpace (sup_Email e) = sup_Email e
     \<and> NormalizeAddrSpecEmail (sup_Email e) = Some (sup_NormalizedEmail e)
     \<and> SuppressionReason_IsValid (sup_Reason e)
     \<and> k = suppressionKey (sup_AppCode e) (sup_NormalizedEmail e)"

definition entries_ok :: "(string \<times> SuppressionEntry) list \<Rightarrow> bool" where
  "entries_ok m \<longleftrightarrow> wf_alist m \<and> (\<forall>k e. map_of m k = Some e \<longrightarrow> entry_ok k e)"

lemma entries_ok_Nil [simp]: "entries_ok []"
  by (simp add: entries_ok_def)

lemma entries_ok_update: "entries_ok m \<Longrightarrow> entry_ok k e \<Longrightarrow> entries_ok (AList.update k e m)"
  by (auto simp: entries_ok_def update_conv' split: if_splits)

lemma load_entries_ok: "load_entries i ys m = Inr m' \<Longrightarrow> entries_ok m \<Longrightarrow> entries_ok m'"
proof (induction i ys m rule: load_entries.induct)
  case (2 i y ys m)
  define a where "a = TrimSpace (y_App y)"
  define email where "email = TrimSpace (y_Email y)"
  define reason where "reason = SuppressionReason_of (y_Reason y)"
  from 2(2) obtain n where c: "isValidSuppressionAppCode a" "NormalizeAddrSpecEmail email = Some n"
      "SuppressionReason_IsValid reason"
    and rec: "a \<noteq> []" "map_of m (suppressionKey a n) = None"
    by (auto simp: Let_def a_def email_def reason_def split: if_splits option.splits)
  let ?e = "\<lparr>sup_AppCode = a, sup_Email = email, sup_NormalizedEmail = n, sup_Reason = reason\<rparr>"
  have "load_entries (Suc i) ys (AList.update (suppressionKey a n) ?e m) = Inr m'"
    using 2(2) c rec by (simp add: Let_def flip: a_def email_def reason_def)
  moreover have "entry_ok (suppressionKey a n) ?e" using c by (simp add: entry_ok_def email_def)
  ultimately show ?case
    using 2(1) [OF a_def email_def reason_def] c rec 2(3) entries_ok_update by simp
qed simp

lemma SuppressionEntry_eta:
  "\<lparr>sup_AppCode = sup_AppCode e, sup_Email = sup_Email e,
    sup_NormalizedEmail = sup_NormalizedEmail e, sup_Reason = sup_Reason e\<rparr> = e"
  by (cases e) simp

text \<open>Reading back a list of stored entries.\<close>

lemma load_entries_stored:
  "distinct ks \<Longrightarrow> \<forall>k \<in> set ks. \<exists>e. map_of m k = Some e \<and> entry_ok k e \<Longrightarrow>
   set ks \<inter> set (keys_of m0) = {} \<Longrightarrow>
   load_entries i (map (\<lambda>k. yaml_entry (the (map_of m k))) ks) m0
     = Inr (m0 @ map (\<lambda>k. (k, the (map_of m k))) ks)"
proof (induction ks arbitrary: i m0)
  case (Cons k ks)
  obtain e where e: "map_of m k = Some e" "entry_ok k e" using Cons.prems(2) by auto
  have new: "map_of m0 k = None" using Cons.prems(3) by (simp add: map_of_eq_None_iff)
  have app: "TrimSpace (sup_AppCode e) = sup_AppCode e" "sup_AppCode e \<noteq> []"
    using e(2) app_code_trim by (auto simp: entry_ok_def isValidSuppressionAppCode_def)
  have "load_entries i (map (\<lambda>k. yaml_entry (the (map_of m k))) (k # ks)) m0
      = load_entries (Suc i) (map (\<lambda>k. yaml_entry (the (map_of m k))) ks) (m0 @ [(k, e)])"
    using e app new
    by (simp add: yaml_entry_def entry_ok_def Let_def update_absent SuppressionEntry_eta)
  also have "\<dots> = Inr ((m0 @ [(k, e)]) @ map (\<lambda>k. (k, the (map_of m k))) ks)"
    using Cons.prems by (intro Cons.IH) auto
  finally show ?case using e by simp
qed simp

lemma sorted_keys_facts:
  "wf_alist m \<Longrightarrow> distinct (sorted_keys m)" "set (sorted_keys m) = set (keys_of m)"
  by (simp_all add: sorted_keys_def wf_alist_def)

text \<open>\<open>Add\<close> on a store: the entry it forms, and what becomes of the store.\<close>

lemma Add_cases:
  assumes ok: "entries_ok (ss_entries st)" and add: "Add env entry (Some st) fs = (r, s', fs')"
  obtains (refused) e where "r = Inl e" "s' = Some st" "fs' = fs"
  | (known) "r = Inr False" "s' = Some st" "fs' = fs"
  | (stored) k n where "r = Inr True" "entry_ok k n"
      "s' = Some (st\<lparr>ss_entries := AList.update k n (ss_entries st)\<rparr>)"
      "map_of (ss_entries st) k = None
       \<or> (\<exists>old. map_of (ss_entries st) k = Some old \<and> sup_Reason old = SuppressionReasonHardBounce
            \<and> sup_Reason n = SuppressionReasonComplaint)"
      "persistLocked env (st\<lparr>ss_entries := AList.update k n (ss_entries st)\<rparr>) fs = (Inr (), fs')"
  | (undone) k n e st' where "r = Inl e" "s' = Some st'" "entry_ok k n"
      "st' = st\<lparr>ss_entries := ss_entries st'\<rparr>" "entries_ok (ss_entries st')"
      "map_of (ss_entries st') = map_of (ss_entries st)"
      "persistLocked env (st\<lparr>ss_entries := AList.update k n (ss_entries st)\<rparr>) fs = (Inl e, fs')"
proof -
  define a where "a = TrimSpace (sup_AppCode entry)"
  define email where "email = TrimSpace (sup_Email entry)"
  define source where "source = (if email = [] then TrimSpace (sup_NormalizedEmail entry) else email)"
  show thesis
  proof (cases "a \<noteq> [] \<and> isValidSuppressionAppCode a \<and> NormalizeAddrSpecEmail source \<noteq> None
      \<and> SuppressionReason_IsValid (sup_Reason entry)")
    case False
    then have "\<exists>e. (r, s', fs') = (Inl e, Some st, fs)"
      unfolding add [symmetric]
      by (auto simp: Add_def Let_def split: option.splits
          simp flip: a_def email_def source_def)
    then show thesis using refused by blast
  next
    case True
    then obtain n where n: "NormalizeAddrSpecEmail source = Some n" by blast
    define new where "new = \<lparr>sup_AppCode = a, sup_Email = (if email = [] then n else email),
        sup_NormalizedEmail = n, sup_Reason = sup_Reason entry\<rparr>"
    define k where "k = suppressionKey a n"
    let ?st = "st\<lparr>ss_entries := AList.update k new (ss_entries st)\<rparr>"
    have trimn: "TrimSpace n = n"
    proof -
      obtain l d where "addr_spec_form n l d"
        using NormalizeAddrSpecEmail_facts(1) [OF n] addr_spec_form_trim addr_spec_form_lower
          NormalizeAddrSpecEmail_Some [of source n] n by metis
      then show ?thesis by (rule addr_spec_form_trim)
    qed
    have new_ok: "entry_ok k new"
      using True n NormalizeAddrSpecEmail_facts(1) [OF n] trimn
      by (auto simp: entry_ok_def new_def k_def source_def email_def)
    have eq: "Add env entry (Some st) fs =
        (case map_of (ss_entries st) k of
           Some old \<Rightarrow>
             if sup_Reason old = sup_Reason new \<and> sup_Email old = sup_Email new
             then (Inr False, Some st, fs)
             else if sup_Reason old = SuppressionReasonHardBounce
                     \<and> sup_Reason new = SuppressionReasonComplaint then
               (case persistLocked env ?st fs of
                  (Inl e, fs') \<Rightarrow>
                    (Inl e, Some (?st\<lparr>ss_entries := AList.update k old (ss_entries ?st)\<rparr>), fs')
                | (Inr _, fs') \<Rightarrow> (Inr True, Some ?st, fs'))
             else (Inr False, Some st, fs)
         | None \<Rightarrow>
             (case persistLocked env ?st fs of
                (Inl e, fs') \<Rightarrow>
                  (Inl e, Some (?st\<lparr>ss_entries := AList.delete k (ss_entries ?st)\<rparr>), fs')
              | (Inr _, fs') \<Rightarrow> (Inr True, Some ?st, fs')))"
      using True n unfolding Add_def Let_def new_def k_def a_def email_def source_def
      by (simp split del: if_split)
    obtain pr pfs where p: "persistLocked env ?st fs = (pr, pfs)" by fastforce
    show thesis
    proof (cases "map_of (ss_entries st) k")
      case None
      show thesis
      proof (cases pr)
        case (Inl e)
        then show thesis
          using undone [of e "st\<lparr>ss_entries := ss_entries st\<rparr>" k new] eq None p add new_ok ok
          by (simp add: delete_update_absent)
      next
        case (Inr u)
        then show thesis using stored [of k new] eq None p add new_ok by simp
      qed
    next
      case (Some old)
      consider (same) "sup_Reason old = sup_Reason new \<and> sup_Email old = sup_Email new
          \<or> \<not> (sup_Reason old = SuppressionReasonHardBounce
              \<and> sup_Reason new = SuppressionReasonComplaint)"
        | (upgrade) "sup_Reason old = SuppressionReasonHardBounce"
          "sup_Reason new = SuppressionReasonComplaint" by blast
      then show thesis
      proof cases
        case same
        then have "Add env entry (Some st) fs = (Inr False, Some st, fs)"
          using eq Some by auto
        then show thesis using known add by simp
      next
        case upgrade
        have old_ok: "entry_ok k old" using ok Some by (simp add: entries_ok_def)
        let ?restored = "AList.update k old (AList.update k new (ss_entries st))"
        have "map_of ?restored = map_of (ss_entries st)" using Some by (auto simp: update_conv')
        moreover have "entries_ok ?restored" using ok old_ok new_ok by (intro entries_ok_update)
        ultimately show thesis
        proof (cases pr)
          case (Inl e)
          then show thesis
            using undone [of e "st\<lparr>ss_entries := ?restored\<rparr>" k new] eq Some p add new_ok upgrade
              \<open>map_of ?restored = map_of (ss_entries st)\<close> \<open>entries_ok ?restored\<close>
            by simp
        next
          case (Inr u)
          then show thesis using stored [of k new] eq Some p add new_ok upgrade by simp
        qed
      qed
    qed
  qed
qed

lemma writeFileAtomically_content:
  assumes "ae_temp env \<noteq> path" "fs (ae_temp env) = None"
    "writeFileAtomically env path data fs = (Inr u, fs')"
  shows "fs' = fs(path \<mapsto> data)"
proof -
  have "fs' = fs(ae_temp env \<mapsto> [], ae_temp env \<mapsto> data, path \<mapsto> data, ae_temp env := None)"
    using assms(3) by (simp add: writeFileAtomically_def Let_def split: option.splits)
  then show ?thesis using assms(1,2) by (auto simp: fun_eq_iff)
qed

section \<open>Listing\<close>

lemma app_prefix_le: "(a :: string) @ x \<le> a @ y \<longleftrightarrow> x \<le> y"
  by (induction a) simp_all

text \<open>The keys of one application are in the order of its addresses.\<close>

lemma suppressionKey_le: "suppressionKey a x \<le> suppressionKey a y \<longleftrightarrow> x \<le> y"
  by (simp add: suppressionKey_def app_prefix_le)

lemma sorted_by_key:
  "sorted (map f xs) \<Longrightarrow> (\<And>x. x \<in> set xs \<Longrightarrow> f x = suppressionKey a (g x)) \<Longrightarrow> sorted (map g xs)"
proof (induction xs)
  case (Cons x xs)
  then have "f x \<le> f y" if "y \<in> set xs" for y using that by auto
  then show ?case using Cons suppressionKey_le by (auto simp: image_iff)
qed simp

section \<open>Properties\<close>

text \<open>The examples: an empty store with a file, an encoder, and an atomic write that succeeds.\<close>

definition sample_store :: SuppressionStore where
  "sample_store = \<lparr>ss_path = ''s.yaml'', ss_entries = []\<rparr>"

definition sample_atomic :: atomic_env where
  "sample_atomic = \<lparr>ae_temp = ''.s.yaml.1.tmp'', ae_create = None, ae_chmod = None, ae_write = None,
     ae_partial = [], ae_sync = None, ae_close = None, ae_rename = None, ae_removed = True\<rparr>"

definition sample_env :: persist_env where
  "sample_env = \<lparr>pe_directory = None,
     pe_marshal = (\<lambda>ys. Inr (concat (map (\<lambda>y. y_App y @ '' '' @ y_Email y @ '' '' @ y_Reason y) ys))),
     pe_atomic = sample_atomic\<rparr>"

definition sample_entry :: SuppressionEntry where
  "sample_entry = \<lparr>sup_AppCode = '' shop'', sup_Email = ''Jo@x.co '', sup_NormalizedEmail = [],
     sup_Reason = SuppressionReasonHardBounce\<rparr>"

text \<open>
  The file is replaced atomically: whichever system call fails, and whatever a failed write
  leaves behind, the target holds its old content after an error and the complete new content after
  success; no other file changes, and the temporary file is gone unless its removal failed.
\<close>

theorem writeFileAtomically_atomic:
  assumes fresh: "ae_temp env \<noteq> path" "fs (ae_temp env) = None"
  shows "case writeFileAtomically env path data fs of
      (Inl e, fs') \<Rightarrow> fs' path = fs path
        \<and> (\<forall>p. p \<noteq> ae_temp env \<longrightarrow> fs' p = fs p) \<and> (ae_removed env \<longrightarrow> fs' = fs)
    | (Inr _, fs') \<Rightarrow> fs' = fs(path \<mapsto> data)"
  using fresh
  by (auto simp: writeFileAtomically_def cleanup_def Let_def fun_eq_iff split: option.splits)

lemma writeFileAtomically_atomic_witness:
  "snd (writeFileAtomically (sample_atomic\<lparr>ae_sync := Some (Errorf ''EIO'')\<rparr>) ''s.yaml'' ''new''
          [''s.yaml'' \<mapsto> ''old'']) = [''s.yaml'' \<mapsto> ''old'']
   \<and> fst (writeFileAtomically (sample_atomic\<lparr>ae_sync := Some (Errorf ''EIO'')\<rparr>) ''s.yaml'' ''new''
          [''s.yaml'' \<mapsto> ''old'']) = Inl (Wrapf ''sync temporary file'' (Errorf ''EIO''))"
proof -
  let ?env = "sample_atomic\<lparr>ae_sync := Some (Errorf ''EIO'')\<rparr>"
  let ?fs = "[''s.yaml'' \<mapsto> ''old'']"
  obtain r fs' where w: "writeFileAtomically ?env ''s.yaml'' ''new'' ?fs = (r, fs')" by fastforce
  have "fst (writeFileAtomically ?env ''s.yaml'' ''new'' ?fs)
      = Inl (Wrapf ''sync temporary file'' (Errorf ''EIO''))"
    by (simp add: writeFileAtomically_def sample_atomic_def)
  moreover have "ae_temp ?env \<noteq> ''s.yaml''" "?fs (ae_temp ?env) = None" "ae_removed ?env"
    by (simp_all add: sample_atomic_def)
  ultimately show ?thesis
    using writeFileAtomically_atomic [of ?env "''s.yaml''" ?fs "''new''"] w by simp
qed

text \<open>
  C27. \<open>Add\<close> is a transaction: on a well-formed store it leaves a well-formed one; an address that was
  suppressed stays suppressed; an error, in particular one of the file, leaves the entries as they
  were, as does the answer \<open>false\<close>; \<open>true\<close> means that one entry was added, or a hard bounce raised to
  a complaint, and the new entries were written out.
\<close>

theorem Add_transaction:
  assumes ok: "entries_ok (ss_entries st)" and add: "Add env entry (Some st) fs = (r, s', fs')"
  shows "\<exists>st'. s' = Some st' \<and> ss_path st' = ss_path st \<and> entries_ok (ss_entries st')
    \<and> (\<forall>k. map_of (ss_entries st) k \<noteq> None \<longrightarrow> map_of (ss_entries st') k \<noteq> None)
    \<and> (case r of
         Inr True \<Rightarrow>
           (\<exists>k n. entry_ok k n \<and> map_of (ss_entries st') = (map_of (ss_entries st))(k \<mapsto> n)
             \<and> (map_of (ss_entries st) k = None
                \<or> (\<exists>old. map_of (ss_entries st) k = Some old
                     \<and> sup_Reason old = SuppressionReasonHardBounce
                     \<and> sup_Reason n = SuppressionReasonComplaint)))
           \<and> persistLocked env st' fs = (Inr (), fs')
       | _ \<Rightarrow> map_of (ss_entries st') = map_of (ss_entries st))"
  using ok add
proof (cases rule: Add_cases)
  case (undone k n e st')
  then have "ss_path st' = ss_path st" by (metis SuppressionStore.select_convs(1)
      SuppressionStore.surjective SuppressionStore.update_convs(2))
  then show ?thesis using undone by (intro exI [of _ st']) simp
next
  case (stored k n)
  then show ?thesis using ok by (auto simp: update_conv' intro: entries_ok_update)
qed (use ok in auto)

lemma Add_transaction_witness:
  "case Add sample_env sample_entry (Some sample_store) Map.empty of
     (r, s', fs') \<Rightarrow> r = Inr True \<and> fs' ''s.yaml'' = Some ''shop Jo@x.co hard_bounce''
       \<and> s' \<noteq> None \<and> entries_ok (ss_entries (the s'))"
proof -
  have ok: "entries_ok (ss_entries sample_store)" by (simp add: sample_store_def)
  obtain r s' fs' where add: "Add sample_env sample_entry (Some sample_store) Map.empty = (r, s', fs')"
    by (metis surj_pair)
  have "fst (Add sample_env sample_entry (Some sample_store) Map.empty) = Inr True" by code_simp
  moreover have "snd (snd (Add sample_env sample_entry (Some sample_store) Map.empty)) ''s.yaml''
      = Some ''shop Jo@x.co hard_bounce''" by code_simp
  ultimately show ?thesis using Add_transaction [OF ok add] add by auto
qed

text \<open>
  C28. The suppression list survives a restart: what \<open>persistLocked\<close> wrote for a well-formed store,
  \<open>LoadSuppressionStore\<close> reads back as a store with the same entries, given that the YAML library
  reads the document it wrote as that one document.
\<close>

theorem suppression_roundtrip:
  assumes ok: "entries_ok (ss_entries st)" and path: "TrimSpace (ss_path st) \<noteq> []"
    and persisted: "persistLocked env st fs = (Inr (), fs')"
    and temp: "ae_temp (pe_atomic env) \<noteq> ss_path st" "fs (ae_temp (pe_atomic env)) = None"
    and yaml: "\<And>file text. pe_marshal env file = Inr text \<Longrightarrow> yaml text = (Document file, End_of_file)"
  shows "\<exists>st'. LoadSuppressionStore yaml None (ss_path st) fs' = Inr st'
    \<and> ss_path st' = ss_path st \<and> map_of (ss_entries st') = map_of (ss_entries st)"
proof -
  let ?m = "ss_entries st"
  let ?ks = "sorted_keys ?m"
  from persisted path obtain data where data: "pe_marshal env (suppression_file st) = Inr data"
    and w: "writeFileAtomically (pe_atomic env) (ss_path st) data fs = (Inr (), fs')"
    by (auto simp: persistLocked_def split: option.splits sum.splits prod.splits)
  have content: "fs' (ss_path st) = Some data"
    using writeFileAtomically_content [OF temp w] by simp
  have wf: "wf_alist ?m" using ok by (simp add: entries_ok_def)
  have all: "\<forall>k \<in> set ?ks. \<exists>e. map_of ?m k = Some e \<and> entry_ok k e"
    unfolding sorted_keys_facts(2)
  proof
    fix k assume "k \<in> set (keys_of ?m)"
    then have "map_of ?m k \<noteq> None" by (simp add: map_of_eq_None_iff)
    then show "\<exists>e. map_of ?m k = Some e \<and> entry_ok k e" using ok by (auto simp: entries_ok_def)
  qed
  have load: "load_entries 0 (suppression_file st) [] = Inr (map (\<lambda>k. (k, the (map_of ?m k))) ?ks)"
    unfolding suppression_file_def
    using load_entries_stored [OF sorted_keys_facts(1) [OF wf] all, of "[]"] by simp
  have same: "map_of (map (\<lambda>k. (k, the (map_of ?m k))) ?ks) = map_of ?m"
  proof
    fix k
    show "map_of (map (\<lambda>k. (k, the (map_of ?m k))) ?ks) k = map_of ?m k"
    proof (cases "k \<in> set (keys_of ?m)")
      case True
      then have "map_of ?m k \<noteq> None" by (simp add: map_of_eq_None_iff)
      then show ?thesis using True by (auto simp: map_of_map_restrict sorted_keys_facts(2))
    next
      case False
      then have "map_of ?m k = None" by (simp add: map_of_eq_None_iff)
      then show ?thesis using False
        by (simp add: map_of_map_restrict restrict_map_def sorted_keys_facts(2))
    qed
  qed
  show ?thesis
    using path content yaml [OF data] load same
    by (simp add: LoadSuppressionStore_def decodeSuppressionYAML_def)
qed

text \<open>The store of the examples below: two addresses of one application.\<close>

definition sample_entries :: "(string \<times> SuppressionEntry) list" where
  "sample_entries = map (\<lambda>x.
     (suppressionKey ''shop'' x, \<lparr>sup_AppCode = ''shop'', sup_Email = x, sup_NormalizedEmail = x,
        sup_Reason = SuppressionReasonManual\<rparr>)) [''z@x.co'', ''b@x.co'']"

lemma sample_entries_ok: "entries_ok sample_entries"
proof -
  have "wf_alist sample_entries" unfolding wf_alist_def by code_simp
  moreover have "\<forall>(k, e) \<in> set sample_entries. entry_ok k e" by code_simp
  ultimately show ?thesis by (auto simp: entries_ok_def dest: map_of_SomeD)
qed

lemma suppression_roundtrip_witness:
  "\<exists>env yaml fs'. persistLocked env (sample_store\<lparr>ss_entries := sample_entries\<rparr>) Map.empty = (Inr (), fs')
     \<and> (\<exists>st'. LoadSuppressionStore yaml None ''s.yaml'' fs' = Inr st'
          \<and> map_of (ss_entries st') = map_of sample_entries)"
proof -
  let ?st = "sample_store\<lparr>ss_entries := sample_entries\<rparr>"
  let ?env = "sample_env\<lparr>pe_marshal := (\<lambda>ys. if ys = suppression_file ?st then Inr ''doc''
                 else Inl (Errorf ''other''))\<rparr>"
  let ?yaml = "\<lambda>_ :: string. (Document (suppression_file ?st), End_of_file)"
  define fs' where "fs' = snd (persistLocked ?env ?st Map.empty)"
  have path: "TrimSpace (ss_path ?st) \<noteq> []" by code_simp
  have "fst (persistLocked ?env ?st Map.empty) = Inr ()" by code_simp
  then have persisted: "persistLocked ?env ?st Map.empty = (Inr (), fs')"
    by (simp add: fs'_def prod_eq_iff)
  have "\<exists>st'. LoadSuppressionStore ?yaml None (ss_path ?st) fs' = Inr st'
      \<and> ss_path st' = ss_path ?st \<and> map_of (ss_entries st') = map_of (ss_entries ?st)"
    by (rule suppression_roundtrip [OF _ path persisted])
      (auto simp: sample_entries_ok sample_store_def sample_env_def sample_atomic_def
        split: if_splits)
  then show ?thesis using persisted
    by (intro exI [of _ ?env] exI [of _ ?yaml] exI [of _ fs']) (auto simp: sample_store_def)
qed

text \<open>
  \<open>List\<close> returns the entries of the application that match the filter, each once, in ascending
  order of the normalised address, cut to the limit; it does not depend on the order of the map.
\<close>

theorem List_suppressed_sorted:
  assumes ok: "entries_ok (ss_entries st)"
    and email: "(if TrimSpace (sf_Email f) \<noteq> [] then NormalizeAddrSpecEmail (sf_Email f) else Some [])
                = Some n"
  shows "sorted (map sup_NormalizedEmail (List_suppressed a f (Some st)))
    \<and> distinct (List_suppressed a f (Some st))
    \<and> set (List_suppressed a f (Some st))
        \<subseteq> {e. \<exists>k. map_of (ss_entries st) k = Some e \<and> suppression_matches a (sf_Reason f) n e}
    \<and> (if sf_Limit f \<le> 0 \<or> int (length (List_suppressed a f (Some st))) < sf_Limit f
       then set (List_suppressed a f (Some st))
            = {e. \<exists>k. map_of (ss_entries st) k = Some e \<and> suppression_matches a (sf_Reason f) n e}
       else int (length (List_suppressed a f (Some st))) = sf_Limit f)"
proof -
  let ?m = "ss_entries st"
  define hits where "hits = filter (\<lambda>(k, e). suppression_matches a (sf_Reason f) n e) ?m"
  define keys where "keys = sort (keys_of hits)"
  define es where "es = map (\<lambda>k. the (map_of ?m k)) keys"
  have wf: "wf_alist ?m" using ok by (simp add: entries_ok_def)
  have memk: "k \<in> set keys \<longleftrightarrow>
      (\<exists>e. map_of ?m k = Some e \<and> suppression_matches a (sf_Reason f) n e)" for k
    using wf by (force simp: keys_def hits_def map_of_mem)
  have key: "k = suppressionKey a (sup_NormalizedEmail (the (map_of ?m k)))
      \<and> map_of ?m k = Some (the (map_of ?m k))" if "k \<in> set keys" for k
    using that ok by (auto simp: memk entries_ok_def entry_ok_def suppression_matches_def)
  have "sorted (map (\<lambda>k. k) keys)" by (simp add: keys_def)
  then have sorted: "sorted (map sup_NormalizedEmail es)"
    using sorted_by_key [of "\<lambda>k. k" keys a "\<lambda>k. sup_NormalizedEmail (the (map_of ?m k))"] key
    by (simp add: es_def comp_def)
  have dk: "distinct keys"
    using wf by (simp add: keys_def hits_def wf_alist_def distinct_map_filter)
  have "inj_on (\<lambda>k. the (map_of ?m k)) (set keys)"
    by (rule inj_on_inverseI [where g = "\<lambda>e. suppressionKey a (sup_NormalizedEmail e)"])
      (rule key [THEN conjunct1, symmetric])
  then have distinct: "distinct es" using dk by (simp add: es_def distinct_map)
  have set: "set es = {e. \<exists>k. map_of ?m k = Some e \<and> suppression_matches a (sf_Reason f) n e}"
    unfolding es_def using memk by force
  have list: "List_suppressed a f (Some st)
      = (if 0 < sf_Limit f \<and> sf_Limit f < int (length es) then take (nat (sf_Limit f)) es else es)"
    using email by (simp add: List_suppressed_def Let_def es_def keys_def hits_def
        split: if_splits)
  have pre: "sorted (map sup_NormalizedEmail (take i es))" for i
    using sorted by (simp add: sorted_wrt_take flip: take_map)
  show ?thesis
  proof (cases "0 < sf_Limit f \<and> sf_Limit f < int (length es)")
    case True
    then have "List_suppressed a f (Some st) = take (nat (sf_Limit f)) es" by (simp add: list)
    then show ?thesis
      using True pre distinct set set_take_subset [of "nat (sf_Limit f)" es] by simp
  next
    case False
    then have "List_suppressed a f (Some st) = es" by (simp only: list if_False)
    then show ?thesis using False sorted distinct set by (simp; arith)
  qed
qed

lemma List_suppressed_sorted_witness:
  "map sup_NormalizedEmail (List_suppressed ''shop''
       \<lparr>sf_Limit = 0, sf_Reason = SuppressionReasonManual, sf_Email = []\<rparr>
       (Some (sample_store\<lparr>ss_entries := sample_entries\<rparr>))) = [''b@x.co'', ''z@x.co'']
   \<and> distinct (List_suppressed ''shop''
       \<lparr>sf_Limit = 0, sf_Reason = SuppressionReasonManual, sf_Email = []\<rparr>
       (Some (sample_store\<lparr>ss_entries := sample_entries\<rparr>)))"
proof -
  let ?st = "sample_store\<lparr>ss_entries := sample_entries\<rparr>"
  let ?f = "\<lparr>sf_Limit = 0, sf_Reason = SuppressionReasonManual, sf_Email = []\<rparr>"
  have ok: "entries_ok (ss_entries ?st)" by (simp add: sample_entries_ok)
  have email: "(if TrimSpace (sf_Email ?f) \<noteq> [] then NormalizeAddrSpecEmail (sf_Email ?f)
      else Some []) = Some []" by simp
  have "map sup_NormalizedEmail (List_suppressed ''shop'' ?f (Some ?st)) = [''b@x.co'', ''z@x.co'']"
    by code_simp
  then show ?thesis using List_suppressed_sorted [OF ok email, of "''shop''"] by blast
qed

end
