(* ===== verification/ProviderEvents.thy ===== *)
theory ProviderEvents
  imports LogCodec Sha256 Suppression Stats
begin

text \<open>
  The webhook for provider events, \<open>internal/api/provider_event.go\<close>: the request body and its checks,
  and \<open>applyProviderEvent\<close>, which looks the message and its attempts up in the audit log, records the
  event once, suppresses the recipient of a bounce or a complaint, and moves the status of the message
  on. The state is the runtime's share of it: the log, the suppression list and the statistics with
  their files. \<open>eventMu\<close> makes one application of an event a step of its own.
\<close>

section \<open>The request\<close>

definition maxSceneFilterBytes :: nat where "maxSceneFilterBytes = 64"
definition maxMessageIDBytes :: nat where "maxMessageIDBytes = 128"

definition isValidIdentifierFilter :: "string \<Rightarrow> bool" where
  "isValidIdentifierFilter value \<longleftrightarrow>
     \<not> (value = [] \<or> maxSceneFilterBytes < length value)
     \<and> (\<forall>c \<in> set value. lower_or_digit c \<or> c = CHR ''_'' \<or> c = CHR ''-'')
     \<and> lower_or_digit (hd value) \<and> lower_or_digit (last value)"

definition isValidMessageIDValue :: "string \<Rightarrow> bool" where
  "isValidMessageIDValue value \<longleftrightarrow>
     \<not> (value = [] \<or> maxMessageIDBytes < length value \<or> \<not> HasPrefix value ''msg_'')
     \<and> (\<forall>c \<in> set value. is_lower c \<or> is_upper c \<or> is_digit c \<or> c = CHR ''_'' \<or> c = CHR ''-'')
     \<and> length ''msg_'' < length value"

definition isValidSingleAddrSpecEmail :: "string \<Rightarrow> bool" where
  "isValidSingleAddrSpecEmail value = IsAddrSpecEmail value"

record providerEventRequest =
  pr_App :: string
  pr_MessageID :: string
  pr_Provider :: Provider
  pr_ProviderAccountCode :: string
  pr_ProviderChannelCode :: string
  pr_ProviderMessageID :: string
  pr_RecipientEmail :: string
  pr_EventType :: ProviderEventType
  pr_EventPayload :: string
  pr_OccurredAt :: string

definition normalizedProviderEventPayload :: string where
  "normalizedProviderEventPayload
     = [CHR ''{'', quote_char] @ ''source'' @ [quote_char, CHR '':'', quote_char] @ ''generic''
       @ [quote_char, CHR ''}'']"

definition request_of_json :: "json_members \<Rightarrow> providerEventRequest option" where
  "request_of_json ms = do {
     app \<leftarrow> string_field ''app'' ms;
     message_id \<leftarrow> string_field ''message_id'' ms;
     provider \<leftarrow> string_field ''provider'' ms;
     provider_account \<leftarrow> string_field ''provider_account'' ms;
     provider_channel \<leftarrow> string_field ''provider_channel'' ms;
     provider_message_id \<leftarrow> string_field ''provider_message_id'' ms;
     recipient_email \<leftarrow> string_field ''recipient_email'' ms;
     event_type \<leftarrow> string_field ''event_type'' ms;
     event_payload \<leftarrow> string_field ''event_payload'' ms;
     occurred_at \<leftarrow> string_field ''occurred_at'' ms;
     Some \<lparr>pr_App = app, pr_MessageID = message_id, pr_Provider = Provider_of provider,
        pr_ProviderAccountCode = provider_account, pr_ProviderChannelCode = provider_channel,
        pr_ProviderMessageID = provider_message_id, pr_RecipientEmail = recipient_email,
        pr_EventType = ProviderEventType_of event_type, pr_EventPayload = event_payload,
        pr_OccurredAt = occurred_at\<rparr>
   }"

definition invalid_json :: "string \<Rightarrow> go_error" where
  "invalid_json message = RequestValidationError ErrorCodeInvalidJSON message"

section \<open>Which events suppress, and what they count as\<close>

fun suppressionReasonForEvent :: "ProviderEventType \<Rightarrow> SuppressionReason option" where
  "suppressionReasonForEvent ProviderEventBounced = Some SuppressionReasonHardBounce"
| "suppressionReasonForEvent ProviderEventComplained = Some SuppressionReasonComplaint"
| "suppressionReasonForEvent _ = None"

definition requiresSuppression :: "ProviderEventType \<Rightarrow> bool" where
  "requiresSuppression t \<longleftrightarrow> suppressionReasonForEvent t \<noteq> None"

fun providerEventMetric :: "ProviderEventType \<Rightarrow> string option" where
  "providerEventMetric ProviderEventDelivered = Some MetricProviderEventsDelivered"
| "providerEventMetric ProviderEventBounced = Some MetricProviderEventsBounced"
| "providerEventMetric ProviderEventComplained = Some MetricProviderEventsComplained"
| "providerEventMetric _ = None"

fun eventTypeForMessageStatus :: "MessageStatus \<Rightarrow> ProviderEventType" where
  "eventTypeForMessageStatus MessageStatusDelivered = ProviderEventDelivered"
| "eventTypeForMessageStatus MessageStatusBounced = ProviderEventBounced"
| "eventTypeForMessageStatus MessageStatusComplained = ProviderEventComplained"
| "eventTypeForMessageStatus _ = NoEventType"

text \<open>The next status of a message, if the event moves it on.\<close>

definition nextProviderEventMessageStatus :: "MessageStatus \<Rightarrow> ProviderEventType \<Rightarrow> MessageStatus option" where
  "nextProviderEventMessageStatus current eventType =
     (let nxt = event_MessageStatus eventType
      in if nxt = NoMessageStatus \<or> current = nxt then None
         else case current of
                MessageStatusFailed \<Rightarrow> None
              | MessageStatusComplained \<Rightarrow> None
              | MessageStatusBounced \<Rightarrow> if nxt = MessageStatusComplained then Some nxt else None
              | MessageStatusDelivered \<Rightarrow>
                  if nxt = MessageStatusDelivered then None
                  else if nxt = MessageStatusBounced \<or> nxt = MessageStatusComplained then Some nxt
                  else None
              | _ \<Rightarrow> Some nxt)"

section \<open>The checks of a request\<close>

definition normalizeProviderEventOccurredAt :: "string \<Rightarrow> string result" where
  "normalizeProviderEventOccurredAt v =
     (case parse_time (TrimSpace v) of
        None \<Rightarrow> Inl (Errorf ''cannot parse time'')
      | Some t \<Rightarrow> Inr (format_time t))"

text \<open>The event is a pointer that may be nil, and its fields are trimmed and normalised in place.\<close>

definition validateProviderEventIdentity :: "ProviderEvent option \<Rightarrow> ProviderEvent result" where
  "validateProviderEventIdentity event =
     (case event of
        None \<Rightarrow> Inl (invalid_json ''provider event identity is required'')
      | Some ev0 \<Rightarrow>
          let ev = ev0\<lparr>ev_ProviderAccountCode := TrimSpace (ev_ProviderAccountCode ev0),
                       ev_ProviderChannelCode := TrimSpace (ev_ProviderChannelCode ev0),
                       ev_ProviderMessageID := TrimSpace (ev_ProviderMessageID ev0),
                       ev_OccurredAt := TrimSpace (ev_OccurredAt ev0)\<rparr>
          in if ev_ProviderAccountCode ev = [] \<or> ev_ProviderChannelCode ev = []
                \<or> ev_ProviderMessageID ev = [] \<or> ev_OccurredAt ev = [] then
               Inl (invalid_json
                 ''provider account, channel, message id, and occurred_at are required'')
             else if \<not> isValidIdentifierFilter (ev_ProviderAccountCode ev)
                     \<or> \<not> isValidIdentifierFilter (ev_ProviderChannelCode ev) then
               Inl (invalid_json ''provider account or channel is invalid'')
             else case normalizeProviderEventOccurredAt (ev_OccurredAt ev) of
                    Inl _ \<Rightarrow> Inl (invalid_json ''occurred_at must be RFC3339'')
                  | Inr occurredAt \<Rightarrow> Inr (ev\<lparr>ev_OccurredAt := occurredAt\<rparr>))"

definition validateProviderEventRecipientEmail :: "ProviderEvent \<Rightarrow> unit result" where
  "validateProviderEventRecipientEmail event =
     (if \<not> requiresSuppression (ev_EventType event) then Inr ()
      else if TrimSpace (ev_RecipientEmail event) = [] then
        Inl (invalid_json ''recipient email is required for bounce and complaint events'')
      else if \<not> isValidSingleAddrSpecEmail (ev_RecipientEmail event) then
        Inl (invalid_json ''recipient email is invalid'')
      else Inr ())"

definition trimmed_event :: "providerEventRequest \<Rightarrow> ProviderEvent" where
  "trimmed_event request =
     \<lparr>ev_MessageID = TrimSpace (pr_MessageID request), ev_AppCode = TrimSpace (pr_App request),
      ev_Provider = pr_Provider request,
      ev_ProviderAccountCode = TrimSpace (pr_ProviderAccountCode request),
      ev_ProviderChannelCode = TrimSpace (pr_ProviderChannelCode request),
      ev_ProviderMessageID = TrimSpace (pr_ProviderMessageID request),
      ev_EventType = pr_EventType request,
      ev_RecipientEmail = TrimSpace (pr_RecipientEmail request),
      ev_EventPayload = normalizedProviderEventPayload,
      ev_OccurredAt = TrimSpace (pr_OccurredAt request)\<rparr>"

definition check_event :: "ProviderEvent \<Rightarrow> ProviderEvent result" where
  "check_event event =
     (if ev_AppCode event = [] \<or> ev_MessageID event = [] then
        Inl (invalid_json ''app and message_id are required'')
      else if \<not> isValidIdentifierFilter (ev_AppCode event) then Inl (invalid_json ''app is invalid'')
      else if \<not> isValidMessageIDValue (ev_MessageID event) then
        Inl (invalid_json ''message_id is invalid'')
      else if \<not> Provider_IsValid (ev_Provider event) then Inl (invalid_json ''provider is invalid'')
      else if \<not> ProviderEventType_IsValid (ev_EventType event) then
        Inl (invalid_json ''event_type is invalid'')
      else and_then (validateProviderEventIdentity (Some event)) (\<lambda>event.
             and_then (validateProviderEventRecipientEmail event) (\<lambda>_. Inr event)))"

definition decodeProviderEventRequest :: "string \<Rightarrow> ProviderEvent result" where
  "decodeProviderEventRequest body =
     (case json_decode body of
        None \<Rightarrow> Inl (invalid_json ''request body must be a JSON object'')
      | Some (v, rest) \<Rightarrow>
          (case Option.bind (struct_members (Some v)) request_of_json of
             None \<Rightarrow> Inl (invalid_json ''request body must be a JSON object'')
           | Some request \<Rightarrow>
               if skip_ws rest \<noteq> [] then
                 Inl (invalid_json ''request body must contain a single JSON object'')
               else check_event (trimmed_event request)))"


section \<open>Applying an event\<close>

record event_world =
  ew_log :: MessageLog
  ew_disk :: log_disk
  ew_store :: "SuppressionStore option"
  ew_fs :: file_system
  ew_sink :: StatsSink
  ew_stats :: log_files

text \<open>
  What one application meets outside: the paths of the logs, the errors of opening them, the outcome
  of the appends and of the write of the suppression file, and the clock at each write.
\<close>

record event_env =
  ee_path :: "log_name \<Rightarrow> string"
  ee_open :: "log_name \<Rightarrow> nat \<Rightarrow> go_error option"
  ee_event_append :: append_env
  ee_status_append :: append_env
  ee_stats_append :: append_env
  ee_event_time :: go_time
  ee_status_time :: go_time
  ee_stats_time :: go_time
  ee_stats_line :: "go_time \<Rightarrow> StatsRecord \<Rightarrow> string"
  ee_persist :: persist_env

record providerEventResponse =
  presp_MessageID :: string
  presp_App :: string
  presp_Status :: MessageStatus

definition log_view_of :: "event_env \<Rightarrow> log_name \<Rightarrow> jsonlWriter \<Rightarrow> event_world \<Rightarrow> log_view" where
  "log_view_of env name w world = queryPaths (ee_open env name) (ee_path env name) w (ew_disk world name)"

text \<open>A Go map by attempt number; a later attempt of the same number replaces the earlier one.\<close>

definition latestAttemptsByNumber :: "AttemptSnapshot list \<Rightarrow> (int \<times> AttemptSnapshot) list" where
  "latestAttemptsByNumber attempts = foldl (\<lambda>m a. AList.update (as_AttemptNo a) a m) [] attempts"

definition attempt_matches :: "ProviderEvent \<Rightarrow> AttemptSnapshot \<Rightarrow> bool" where
  "attempt_matches event a \<longleftrightarrow>
     as_Status a = AttemptStatusSent
     \<and> as_Provider a = ev_Provider event \<and> as_ProviderAccountCode a = ev_ProviderAccountCode event
     \<and> as_ProviderChannelCode a = ev_ProviderChannelCode event
     \<and> (as_ProviderMessageID a = ev_ProviderMessageID event \<or> as_ProviderMessageID a = [])"

definition validateProviderEventAttempt :: "event_env \<Rightarrow> ProviderEvent \<Rightarrow> event_world \<Rightarrow> unit result" where
  "validateProviderEventAttempt env event world =
     (case ListAttempts go_codec (log_view_of env Attempts_log (ml_attempts (ew_log world)) world)
             (ev_AppCode event) (ev_MessageID event) of
        Inl e \<Rightarrow> Inl (Wrapf ''list attempts for provider event'' e)
      | Inr attempts \<Rightarrow>
          if list_ex (\<lambda>(n, a). attempt_matches event a) (latestAttemptsByNumber attempts) then Inr ()
          else Inl (invalid_json ''provider event does not match a sent attempt''))"

definition validateProviderEventRecipientMatchesMessage ::
    "MessageSnapshot \<Rightarrow> ProviderEvent \<Rightarrow> unit result" where
  "validateProviderEventRecipientMatchesMessage snapshot event =
     (if \<not> requiresSuppression (ev_EventType event) then Inr ()
      else case NormalizeAddrSpecEmail (ev_RecipientEmail event) of
             None \<Rightarrow> Inl (invalid_json ''recipient email is invalid'')
           | Some normalizedEmail \<Rightarrow>
               if ms_ToHash snapshot = []
                  \<or> ToHash (ms_AppCode snapshot) normalizedEmail \<noteq> ms_ToHash snapshot then
                 Inl (invalid_json ''provider event recipient does not match message'')
               else Inr ())"

text \<open>The result of recording the statistic is dropped.\<close>

definition recordProviderEventStat ::
    "event_env \<Rightarrow> MessageSnapshot \<Rightarrow> ProviderEvent \<Rightarrow> event_world \<Rightarrow> event_world" where
  "recordProviderEventStat env snapshot event world =
     (case providerEventMetric (ev_EventType event) of
        None \<Rightarrow> world
      | Some metric \<Rightarrow>
          (case Record_stats (ee_stats_append env) (ee_stats_line env) (ee_stats_time env)
                  \<lparr>st_Timestamp = zero_time, st_AppCode = ms_AppCode snapshot,
                   st_SceneCode = ms_SceneCode snapshot, st_ProviderChannelCode = [],
                   st_Transport = NoTransport, st_Metric = metric, st_Value = float64_of_int 1\<rparr>
                  (ew_sink world) (ew_stats world) of
             (_, sink, fs) \<Rightarrow> world\<lparr>ew_sink := sink, ew_stats := fs\<rparr>))"

definition applySuppressionForEvent ::
    "event_env \<Rightarrow> ProviderEvent \<Rightarrow> event_world \<Rightarrow> unit result \<times> event_world" where
  "applySuppressionForEvent env event world =
     (case suppressionReasonForEvent (ev_EventType event) of
        None \<Rightarrow> (Inr (), world)
      | Some reason \<Rightarrow>
          (case Add (ee_persist env)
                  \<lparr>sup_AppCode = ev_AppCode event, sup_Email = ev_RecipientEmail event,
                   sup_NormalizedEmail = [], sup_Reason = reason\<rparr> (ew_store world) (ew_fs world) of
             (Inl e, store, fs) \<Rightarrow> (Inl e, world\<lparr>ew_store := store, ew_fs := fs\<rparr>)
           | (Inr _, store, fs) \<Rightarrow> (Inr (), world\<lparr>ew_store := store, ew_fs := fs\<rparr>)))"

definition appendProviderEventMessageStatus ::
    "event_env \<Rightarrow> MessageSnapshot \<Rightarrow> MessageStatus \<Rightarrow> event_world \<Rightarrow> unit result \<times> event_world" where
  "appendProviderEventMessageStatus env snapshot status world =
     (let event = \<lparr>ev_MessageID = [], ev_AppCode = [], ev_Provider = NoProvider,
            ev_ProviderAccountCode = [], ev_ProviderChannelCode = [], ev_ProviderMessageID = [],
            ev_EventType = eventTypeForMessageStatus status, ev_RecipientEmail = [],
            ev_EventPayload = [], ev_OccurredAt = []\<rparr>
      in case AppendWebhookMessageStatus (ee_status_append env) json_quote
                (format_time (ee_status_time env)) snapshot event (ew_log world) (ew_disk world) of
           (r, l, disk) \<Rightarrow> (r, world\<lparr>ew_log := l, ew_disk := disk\<rparr>))"

text \<open>
  After the event has been recorded, now or before: the suppression, then the status. A failure of
  either is answered, so that the provider delivers the event again and this part is repeated.
\<close>

definition finish_event ::
    "event_env \<Rightarrow> string \<Rightarrow> MessageSnapshot \<Rightarrow> ProviderEvent \<Rightarrow> event_world
     \<Rightarrow> providerEventResponse result \<times> event_world" where
  "finish_event env kind snapshot event world =
     (case applySuppressionForEvent env event world of
        (Inl e, world1) \<Rightarrow>
          (Inl (Wrapf (''apply suppression for '' @ kind @ ''provider event'') e), world1)
      | (Inr _, world1) \<Rightarrow>
          let respond = (\<lambda>status. Inr \<lparr>presp_MessageID = ev_MessageID event,
                 presp_App = ev_AppCode event, presp_Status = status\<rparr>)
          in case nextProviderEventMessageStatus (ms_Status snapshot) (ev_EventType event) of
               None \<Rightarrow> (respond (ms_Status snapshot), world1)
             | Some nextStatus \<Rightarrow>
                 (case appendProviderEventMessageStatus env snapshot nextStatus world1 of
                    (Inl e, world2) \<Rightarrow>
                      (Inl (Wrapf (''append '' @ kind @ ''provider event message status'') e), world2)
                  | (Inr _, world2) \<Rightarrow> (respond nextStatus, world2)))"

definition applyProviderEvent ::
    "event_env \<Rightarrow> ProviderEvent \<Rightarrow> event_world \<Rightarrow> providerEventResponse result \<times> event_world" where
  "applyProviderEvent env event world =
     (case FindLatestMessage go_codec
             (log_view_of env Messages_log (ml_messages (ew_log world)) world)
             (ev_AppCode event) (ev_MessageID event) of
        Inl e \<Rightarrow> (Inl (Wrapf ''find message for provider event'' e), world)
      | Inr None \<Rightarrow> (Inl (APIError ErrorCodeMessageNotFound ''message not found''), world)
      | Inr (Some snapshot) \<Rightarrow>
          (case validateProviderEventAttempt env event world of
             Inl e \<Rightarrow> (Inl e, world)
           | Inr _ \<Rightarrow>
               (case validateProviderEventRecipientMatchesMessage snapshot event of
                  Inl e \<Rightarrow> (Inl e, world)
                | Inr _ \<Rightarrow>
                    (case AppendProviderEventOnce go_codec (ee_open env Events_log)
                            (ee_path env Events_log) (ee_event_append env) json_quote
                            (format_time (ee_event_time env)) event (ew_log world) (ew_disk world) of
                       (Inl e, l, disk) \<Rightarrow>
                         (Inl (Wrapf ''append provider event'' e),
                          world\<lparr>ew_log := l, ew_disk := disk\<rparr>)
                     | (Inr appended, l, disk) \<Rightarrow>
                         let world1 = world\<lparr>ew_log := l, ew_disk := disk\<rparr>
                         in if \<not> appended then finish_event env ''duplicate '' snapshot event world1
                            else finish_event env [] snapshot event
                                   (recordProviderEventStat env snapshot event world1)))))"

section \<open>The life cycle of a status\<close>

text \<open>The statuses in the order in which webhooks move a message on; a failed message stays.\<close>

fun status_rank :: "MessageStatus \<Rightarrow> nat" where
  "status_rank MessageStatusDelivered = 1"
| "status_rank MessageStatusBounced = 2"
| "status_rank MessageStatusComplained = 3"
| "status_rank MessageStatusFailed = 4"
| "status_rank _ = 0"

definition apply_status :: "ProviderEventType \<Rightarrow> MessageStatus \<Rightarrow> MessageStatus" where
  "apply_status t st = (case nextProviderEventMessageStatus st t of None \<Rightarrow> st | Some st' \<Rightarrow> st')"

lemma apply_status_eq:
  "apply_status t st =
     (if status_rank st < status_rank (event_MessageStatus t) then event_MessageStatus t else st)"
  by (cases t; cases st) (simp_all add: apply_status_def nextProviderEventMessageStatus_def)

lemma event_rank_inject:
  "0 < status_rank (event_MessageStatus t) \<Longrightarrow>
     status_rank (event_MessageStatus t) = status_rank (event_MessageStatus u) \<Longrightarrow>
     event_MessageStatus t = event_MessageStatus u"
  by (cases t; cases u) simp_all

text \<open>A series of events leaves the status of the highest rank, the current one if none is higher.\<close>

lemma fold_apply_status:
  "status_rank (fold apply_status ts st)
     = Max (insert (status_rank st) ((status_rank \<circ> event_MessageStatus) ` set ts))"
  "fold apply_status ts st = st \<or>
     (\<exists>t \<in> set ts. fold apply_status ts st = event_MessageStatus t
        \<and> status_rank st < status_rank (event_MessageStatus t))"
proof (induction ts arbitrary: st)
  case Nil
  {
    case 1
    show ?case by simp
  next
    case 2
    show ?case by simp
  }
next
  case (Cons t ts)
  {
    case 1
    have join: "Max (insert (max a b) S) = Max (insert a (insert b S))" if "finite S" for a b :: nat and S
      using that by (cases "S = {}") (simp_all add: max.assoc)
    have "status_rank (apply_status t st) = max (status_rank st) (status_rank (event_MessageStatus t))"
      by (simp add: apply_status_eq)
    then have "status_rank (fold apply_status (t # ts) st)
        = Max (insert (max (status_rank st) (status_rank (event_MessageStatus t)))
            ((status_rank \<circ> event_MessageStatus) ` set ts))"
      using Cons(1) [of "apply_status t st"] by simp
    then show ?case by (simp only: join finite_imageI finite_set list.set image_insert
        comp_apply [of status_rank event_MessageStatus t])
  next
    case 2
    show ?case using Cons(2) [of "apply_status t st"] by (auto simp: apply_status_eq split: if_splits)
  }
qed

text \<open>
  C33. The final status of a message does not depend on the order or the repetition of its webhooks:
  any two series with the same set of event types leave the same status, which only moves forward,
  from a status before delivery to delivered, bounced and complained, and never from failed.
\<close>

theorem status_order_independent:
  assumes "set ts = set us"
  shows "fold apply_status ts st = fold apply_status us st
    \<and> status_rank st \<le> status_rank (fold apply_status ts st)
    \<and> (fold apply_status ts st \<noteq> st \<longrightarrow> status_rank st < status_rank (fold apply_status ts st))"
proof -
  have rank: "status_rank (fold apply_status ts st) = status_rank (fold apply_status us st)"
    by (simp only: fold_apply_status(1) assms)
  have "fold apply_status ts st = fold apply_status us st"
    using fold_apply_status(2) [of ts st] fold_apply_status(2) [of us st] rank
    by (auto intro!: event_rank_inject)
  then show ?thesis using fold_apply_status(2) [of ts st] by auto
qed

lemma status_order_independent_witness:
  "fold apply_status [ProviderEventComplained, ProviderEventDelivered, ProviderEventBounced] MessageStatusSent
     = fold apply_status [ProviderEventBounced, ProviderEventComplained, ProviderEventDelivered,
         ProviderEventDelivered] MessageStatusSent
   \<and> fold apply_status [ProviderEventComplained, ProviderEventDelivered, ProviderEventBounced] MessageStatusSent
     = MessageStatusComplained"
proof -
  have "set [ProviderEventComplained, ProviderEventDelivered, ProviderEventBounced]
      = set [ProviderEventBounced, ProviderEventComplained, ProviderEventDelivered, ProviderEventDelivered]"
    by auto
  from status_order_independent [OF this, of MessageStatusSent]
  have "fold apply_status [ProviderEventComplained, ProviderEventDelivered, ProviderEventBounced] MessageStatusSent
     = fold apply_status [ProviderEventBounced, ProviderEventComplained, ProviderEventDelivered,
         ProviderEventDelivered] MessageStatusSent" by blast
  moreover have "fold apply_status [ProviderEventComplained, ProviderEventDelivered, ProviderEventBounced]
      MessageStatusSent = MessageStatusComplained" by code_simp
  ultimately show ?thesis by blast
qed


section \<open>What one application does to the logs and the suppression list\<close>

lemma identifier_filter_eq: "isValidIdentifierFilter v = isValidSuppressionAppCode v"
  by (simp add: isValidSuppressionAppCode_eq isValidIdentifierFilter_def isRequestIdentifier_def
      maxSceneFilterBytes_def maxSceneCodeBytes_def)

definition event_line :: "go_time \<times> ProviderEvent \<Rightarrow> string" where
  "event_line p = encodeProviderEventRecord json_quote (format_time (fst p)) (snd p)"

definition logged_event :: "go_time \<times> ProviderEvent \<Rightarrow> ProviderEvent" where
  "logged_event p = (snd p)\<lparr>ev_RecipientEmail := [], ev_EventPayload := json_repair (ev_EventPayload (snd p))\<rparr>"

interpretation event_codec: line_codec "decodeProviderEventSnapshot go_codec" event_line
  "\<lambda>p. event_loggable (fst p) (snd p)" logged_event
  by unfold_locales
    (simp add: event_line_def logged_event_def decode_event_encoded,
     simp add: event_line_def event_loggable_def encode_line line_text_plain)

lemma logged_event_identity [simp]: "event_identity (logged_event p) = event_identity (snd p)"
  by (simp add: logged_event_def event_identity_def)

text \<open>The whole state between two webhooks, as the lists of what the logs read back.\<close>

definition world_ok ::
    "event_world \<Rightarrow> MessageSnapshot list \<Rightarrow> AttemptSnapshot list \<Rightarrow> ProviderEvent list \<Rightarrow> bool" where
  "world_ok w ss as es \<longleftrightarrow>
     log_reads (decodeMessageSnapshot go_codec) (ml_messages (ew_log w)) (ew_disk w Messages_log) ss
     \<and> log_reads (decodeAttemptSnapshot go_codec) (ml_attempts (ew_log w)) (ew_disk w Attempts_log) as
     \<and> (\<exists>we. ml_events (ew_log w) = Some we
          \<and> log_reads (decodeProviderEventSnapshot go_codec) we (ew_disk w Events_log) es)
     \<and> (\<exists>st. ew_store w = Some st \<and> entries_ok (ss_entries st))"

text \<open>The calls on the log files do not fail; those on the suppression file may.\<close>

definition logs_calm :: "event_env \<Rightarrow> bool" where
  "logs_calm env \<longleftrightarrow> ee_open env = (\<lambda>_ _. None) \<and> ee_event_append env = calm
     \<and> ee_status_append env = calm"

definition persists :: "event_env \<Rightarrow> bool" where
  "persists env \<longleftrightarrow> (\<forall>st fs. fst (persistLocked (ee_persist env) st fs) = Inr ())"

definition status_message :: "MessageSnapshot \<Rightarrow> MessageStatus \<Rightarrow> Message" where
  "status_message snapshot status = webhook_message snapshot
     \<lparr>ev_MessageID = [], ev_AppCode = [], ev_Provider = NoProvider, ev_ProviderAccountCode = [],
      ev_ProviderChannelCode = [], ev_ProviderMessageID = [],
      ev_EventType = eventTypeForMessageStatus status, ev_RecipientEmail = [], ev_EventPayload = [],
      ev_OccurredAt = []\<rparr>"

text \<open>The time and the line of a status update can be read back.\<close>

definition status_fits :: "event_env \<Rightarrow> MessageSnapshot list \<Rightarrow> bool" where
  "status_fits env ss \<longleftrightarrow> printable_time (ee_status_time env)
     \<and> (\<forall>s \<in> set ss. \<forall>st \<in> {MessageStatusDelivered, MessageStatusBounced, MessageStatusComplained}.
          fits (message_line (ee_status_time env, status_message s st)))"

text \<open>The event names a message in the log, a sent attempt and, where it matters, the recipient.\<close>

definition admissible ::
    "MessageSnapshot list \<Rightarrow> AttemptSnapshot list \<Rightarrow> ProviderEvent \<Rightarrow> MessageSnapshot \<Rightarrow> bool" where
  "admissible ss as event snapshot \<longleftrightarrow>
     last_such (of_message (ev_AppCode event) (ev_MessageID event)) ss = Some snapshot
     \<and> list_ex (\<lambda>(n, a). attempt_matches event a)
         (latestAttemptsByNumber (filter (of_attempt (ev_AppCode event) (ev_MessageID event)) as))
     \<and> validateProviderEventRecipientMatchesMessage snapshot event = Inr ()"

lemma apply_rejected:
  assumes "world_ok w ss as es" "logs_calm env" "\<nexists>s. admissible ss as event s"
  shows "\<exists>e. \<forall>env' w'. logs_calm env' \<longrightarrow> ew_log w' = ew_log w \<longrightarrow> ew_disk w' = ew_disk w \<longrightarrow>
    applyProviderEvent env' event w' = (Inl e, w')"
proof -
  note m = log_reads_view [OF conjunct1 [OF assms(1) [unfolded world_ok_def]], of "''message''"]
  note a = log_reads_view [OF conjunct1 [OF conjunct2 [OF assms(1) [unfolded world_ok_def]]], of "''attempt''"]
  note d = applyProviderEvent_def log_view_of_def logs_calm_def FindLatestMessage_eq
    ListAttempts_eq m a validateProviderEventAttempt_def
  show ?thesis
  proof (cases "last_such (of_message (ev_AppCode event) (ev_MessageID event)) ss")
    case None
    then show ?thesis by (auto simp: d)
  next
    case (Some s)
    show ?thesis
    proof (cases "list_ex (\<lambda>(n, a). attempt_matches event a)
         (latestAttemptsByNumber (filter (of_attempt (ev_AppCode event) (ev_MessageID event)) as))")
      case True
      then obtain e where "validateProviderEventRecipientMatchesMessage s event = Inl e"
        using assms(3) Some
        by (cases "validateProviderEventRecipientMatchesMessage s event") (auto simp: admissible_def)
      then show ?thesis using Some True by (auto simp: d)
    next
      case False
      then show ?thesis using Some by (auto simp: d)
    qed
  qed
qed

text \<open>Recording the event: it is new and goes to the end of the log, or was there before.\<close>

lemma append_event_once:
  assumes "ml_events l = Some we"
    "log_reads (decodeProviderEventSnapshot go_codec) we (disk Events_log) es" "event_loggable t ev"
  obtains (known) "event_identity ev \<in> event_identity ` set es"
      "AppendProviderEventOnce go_codec (\<lambda>_. None) path calm json_quote (format_time t) ev l disk
        = (Inr False, l, disk)"
  | (new) we' fs k where "event_identity ev \<notin> event_identity ` set es"
      "AppendProviderEventOnce go_codec (\<lambda>_. None) path calm json_quote (format_time t) ev l disk
        = (Inr True, l\<lparr>ml_events := Some we'\<rparr>, disk(Events_log := fs))"
      "k \<le> length es"
      "log_reads (decodeProviderEventSnapshot go_codec) we' fs (drop k es @ [logged_event (t, ev)])"
proof -
  have "read_log ''provider event'' (decodeProviderEventSnapshot go_codec)
      (queryPaths (\<lambda>_. None) path we (disk Events_log)) = Inr es"
    by (rule log_reads_view [OF assms(2)])
  then have found: "event_in_files go_codec ev (queryPaths (\<lambda>_. None) path we (disk Events_log))
      = Inr (event_identity ev \<in> event_identity ` set es)"
    using event_in_files_eq [of go_codec _ es ev] by (auto simp: image_iff eq_commute)
  show thesis
  proof (cases "event_identity ev \<in> event_identity ` set es")
    case True
    then show thesis using assms(1) found by (intro known) (simp_all add: AppendProviderEventOnce_def)
  next
    case False
    obtain we' fs k where "appendLineLocked calm (event_line (t, ev)) we (disk Events_log) = (Inr (), we', fs)"
        "k \<le> length es"
        "log_reads (decodeProviderEventSnapshot go_codec) we' fs (drop k es @ [logged_event (t, ev)])"
      using event_codec.append_reads [OF assms(2), of "(t, ev)"] assms(3) by auto
    then show thesis using assms(1) found False
      by (intro new [of we' fs k]) (simp_all add: AppendProviderEventOnce_def event_line_def)
  qed
qed

text \<open>Suppressing the recipient, and suppressing it again.\<close>

definition suppressed_in :: "event_world \<Rightarrow> ProviderEvent \<Rightarrow> bool" where
  "suppressed_in w event \<longleftrightarrow>
     (\<exists>n. NormalizeAddrSpecEmail (ev_RecipientEmail event) = Some n
        \<and> Contains_suppressed (ev_AppCode event) n (ew_store w) \<noteq> None)"

lemma Add_again:
  assumes "Add env e s fs = (Inr b, s', fs')"
  shows "Add env' e s' fs'' = (Inr False, s', fs'')"
  using assms
  by (auto simp: Add_def Let_def update_conv' split: option.splits if_splits sum.splits prod.splits)


lemma identifier_trim: "isValidIdentifierFilter a \<Longrightarrow> TrimSpace a = a"
proof -
  assume "isValidIdentifierFilter a"
  then have "isValidSuppressionAppCode a" by (simp add: identifier_filter_eq)
  then show "TrimSpace a = a" by (rule app_code_trim)
qed

lemma Add_contains:
  assumes "Add env e s fs = (Inr b, s', fs')" "TrimSpace (sup_AppCode e) = a"
    "NormalizeAddrSpecEmail (if TrimSpace (sup_Email e) = [] then TrimSpace (sup_NormalizedEmail e)
       else TrimSpace (sup_Email e)) = Some n"
  shows "Contains_suppressed a n s' \<noteq> None"
  using assms
  by (auto simp: Add_def Contains_suppressed_def Let_def update_conv'
      split: option.splits if_splits sum.splits prod.splits)

lemma Add_accepts:
  assumes "persists env" "isValidSuppressionAppCode (TrimSpace (sup_AppCode e))"
    "NormalizeAddrSpecEmail (if TrimSpace (sup_Email e) = [] then TrimSpace (sup_NormalizedEmail e)
       else TrimSpace (sup_Email e)) \<noteq> None" "SuppressionReason_IsValid (sup_Reason e)"
  shows "\<exists>b s' fs'. Add (ee_persist env) e (Some st) fs = (Inr b, s', fs')"
proof -
  have ok: "\<exists>fs'. persistLocked (ee_persist env) st fs = (Inr (), fs')" for st fs
    using assms(1) by (metis persists_def prod.collapse)
  have "TrimSpace (sup_AppCode e) \<noteq> []"
    using assms(2) by (auto simp: isValidSuppressionAppCode_def)
  then obtain n where n: "NormalizeAddrSpecEmail (if TrimSpace (sup_Email e) = []
      then TrimSpace (sup_NormalizedEmail e) else TrimSpace (sup_Email e)) = Some n" "TrimSpace (sup_AppCode e) \<noteq> []"
    using assms(3) by blast
  show ?thesis
  proof (cases "map_of (ss_entries st) (suppressionKey (TrimSpace (sup_AppCode e)) n)")
    case None
    obtain fs' where "persistLocked (ee_persist env) (st\<lparr>ss_entries := AList.update
        (suppressionKey (TrimSpace (sup_AppCode e)) n)
        \<lparr>sup_AppCode = TrimSpace (sup_AppCode e), sup_Email = (if TrimSpace (sup_Email e) = [] then n
          else TrimSpace (sup_Email e)), sup_NormalizedEmail = n, sup_Reason = sup_Reason e\<rparr>
        (ss_entries st)\<rparr>) fs = (Inr (), fs')" using ok by blast
    then show ?thesis using None n assms(2,4) by (auto simp: Add_def Let_def)
  next
    case (Some old)
    obtain fs' where "persistLocked (ee_persist env) (st\<lparr>ss_entries := AList.update
        (suppressionKey (TrimSpace (sup_AppCode e)) n)
        \<lparr>sup_AppCode = TrimSpace (sup_AppCode e), sup_Email = (if TrimSpace (sup_Email e) = [] then n
          else TrimSpace (sup_Email e)), sup_NormalizedEmail = n, sup_Reason = sup_Reason e\<rparr>
        (ss_entries st)\<rparr>) fs = (Inr (), fs')" using ok by blast
    then show ?thesis using Some n assms(2,4) by (auto simp: Add_def Let_def)
  qed
qed

text \<open>The suppression of an admissible event.\<close>

lemma recipient_normalizes:
  assumes "validateProviderEventRecipientMatchesMessage snapshot event = Inr ()"
    "requiresSuppression (ev_EventType event)"
  shows "\<exists>n. NormalizeAddrSpecEmail (ev_RecipientEmail event) = Some n
    \<and> NormalizeAddrSpecEmail (if TrimSpace (ev_RecipientEmail event) = [] then TrimSpace []
        else TrimSpace (ev_RecipientEmail event)) = Some n"
proof -
  obtain n where n: "NormalizeAddrSpecEmail (ev_RecipientEmail event) = Some n"
    using assms by (auto simp: validateProviderEventRecipientMatchesMessage_def split: option.splits)
  have t: "NormalizeAddrSpecEmail (TrimSpace (ev_RecipientEmail event)) = Some n"
    using n by (simp add: NormalizeAddrSpecEmail_def)
  moreover have "NormalizeAddrSpecEmail [] = None" by code_simp
  ultimately have "TrimSpace (ev_RecipientEmail event) \<noteq> []" by auto
  moreover note t
  ultimately show ?thesis using n by simp
qed

lemma suppression_step:
  assumes store: "ew_store w = Some st" "entries_ok (ss_entries st)"
    and event: "isValidIdentifierFilter (ev_AppCode event)"
      "validateProviderEventRecipientMatchesMessage snapshot event = Inr ()"
    and run: "applySuppressionForEvent env event w = (r, w')"
  shows "\<exists>st' fs'. w' = w\<lparr>ew_store := Some st', ew_fs := fs'\<rparr> \<and> entries_ok (ss_entries st')"
    and "persists env \<Longrightarrow> r = Inr ()"
    and "r = Inr () \<Longrightarrow> requiresSuppression (ev_EventType event) \<Longrightarrow> suppressed_in w' event"
    and "r = Inr () \<Longrightarrow> applySuppressionForEvent env' event (w'\<lparr>ew_log := l, ew_disk := disk\<rparr>)
      = (Inr (), w'\<lparr>ew_log := l, ew_disk := disk\<rparr>)"
proof -
  have trim: "TrimSpace (ev_AppCode event) = ev_AppCode event" by (rule identifier_trim [OF event(1)])
  have app: "isValidSuppressionAppCode (ev_AppCode event)" using event(1) by (simp add: identifier_filter_eq)
  let ?first = "\<exists>st' fs'. w' = w\<lparr>ew_store := Some st', ew_fs := fs'\<rparr> \<and> entries_ok (ss_entries st')"
  let ?again = "applySuppressionForEvent env' event (w'\<lparr>ew_log := l, ew_disk := disk\<rparr>)
      = (Inr (), w'\<lparr>ew_log := l, ew_disk := disk\<rparr>)"
  have "?first \<and> (persists env \<longrightarrow> r = Inr ())
    \<and> (r = Inr () \<longrightarrow> (requiresSuppression (ev_EventType event) \<longrightarrow> suppressed_in w' event) \<and> ?again)"
  proof (cases "suppressionReasonForEvent (ev_EventType event)")
    case None
    then have "r = Inr ()" "w' = w" using run by (simp_all add: applySuppressionForEvent_def)
    moreover have "w = w\<lparr>ew_store := Some st, ew_fs := ew_fs w\<rparr>" using store(1) by (cases w) simp
    ultimately have ?first using store(2) by blast
    then show ?thesis using None \<open>r = Inr ()\<close> \<open>w' = w\<close>
      by (simp add: requiresSuppression_def applySuppressionForEvent_def)
  next
    case (Some reason)
    define e where "e = \<lparr>sup_AppCode = ev_AppCode event, sup_Email = ev_RecipientEmail event,
        sup_NormalizedEmail = [], sup_Reason = reason\<rparr>"
    have valid: "SuppressionReason_IsValid reason" using Some by (cases "ev_EventType event") auto
    obtain n where n: "NormalizeAddrSpecEmail (ev_RecipientEmail event) = Some n"
        "NormalizeAddrSpecEmail (if TrimSpace (sup_Email e) = [] then TrimSpace (sup_NormalizedEmail e)
           else TrimSpace (sup_Email e)) = Some n"
      using recipient_normalizes [OF event(2)] Some
      unfolding requiresSuppression_def e_def SuppressionEntry.select_convs by blast
    obtain ra s' fs' where add: "Add (ee_persist env) e (Some st) (ew_fs w) = (ra, s', fs')"
      by (metis prod_cases3)
    obtain st' where st': "s' = Some st'" "entries_ok (ss_entries st')"
      using store(2) by (cases rule: Add_cases [OF store(2) add]) (auto intro: entries_ok_update)
    have w': "w' = w\<lparr>ew_store := Some st', ew_fs := fs'\<rparr>" "r = (case ra of Inl e \<Rightarrow> Inl e | Inr _ \<Rightarrow> Inr ())"
      using run add store(1) Some st'(1)
      by (simp_all add: applySuppressionForEvent_def e_def split: sum.splits)
    have "ra \<noteq> Inl x" if "persists env" for x
    proof -
      have "\<exists>b s' fs'. Add (ee_persist env) e (Some st) (ew_fs w) = (Inr b, s', fs')"
        by (rule Add_accepts [OF that]) (use app n valid trim in \<open>simp_all add: e_def\<close>)
      then show ?thesis using add by auto
    qed
    then have calm: "r = Inr ()" if "persists env" using that w'(2) by (cases ra) auto
    have rest: "suppressed_in w' event \<and> ?again" if ok: "r = Inr ()"
    proof -
      obtain b where b: "ra = Inr b" using ok w'(2) by (cases ra) auto
      have c: "Contains_suppressed (ev_AppCode event) n s' \<noteq> None"
        by (rule Add_contains [OF add [unfolded b]]) (use trim n in \<open>simp_all add: e_def\<close>)
      have a: "Add (ee_persist env') e s' fs' = (Inr False, s', fs')" by (rule Add_again [OF add [unfolded b]])
      show ?thesis using c a n(1) Some st'(1) w'(1)
        by (auto simp: suppressed_in_def applySuppressionForEvent_def e_def)
    qed
    show ?thesis using w'(1) st'(2) calm rest by blast
  qed
  then show ?first "persists env \<Longrightarrow> r = Inr ()"
    "r = Inr () \<Longrightarrow> requiresSuppression (ev_EventType event) \<Longrightarrow> suppressed_in w' event"
    "r = Inr () \<Longrightarrow> ?again" by blast+
qed


text \<open>Moving the status on.\<close>

lemma next_status_cases:
  assumes "nextProviderEventMessageStatus current t = Some st"
  shows "st \<in> {MessageStatusDelivered, MessageStatusBounced, MessageStatusComplained}"
    "event_MessageStatus (eventTypeForMessageStatus st) = st" "MessageStatus_IsValid st"
  using assms by (cases t; cases current; simp add: nextProviderEventMessageStatus_def split: if_splits)+

lemma snapshot_message_id:
  assumes "log_reads (decodeMessageSnapshot go_codec) w fs ss" "s \<in> set ss"
  shows "ms_MessageID s \<noteq> []" "MessageStatus_IsValid (ms_Status s)"
proof -
  obtain ls where "\<forall>x \<in> set ls. \<not> isl (decodeMessageSnapshot go_codec x)"
      "ss = map (projr \<circ> decodeMessageSnapshot go_codec) ls"
    using assms(1) unfolding log_reads_def by blast
  then obtain line where "\<not> isl (decodeMessageSnapshot go_codec line)"
      "s = projr (decodeMessageSnapshot go_codec line)" using assms(2) by auto
  then have "decodeMessageSnapshot go_codec line = Inr s"
    by (cases "decodeMessageSnapshot go_codec line") auto
  then show "ms_MessageID s \<noteq> []" "MessageStatus_IsValid (ms_Status s)"
    by (auto simp: decodeMessageSnapshot_def split: sum.splits if_splits)
qed

text \<open>The status update goes to the end of the message log and is what the next lookup finds.\<close>

lemma status_step:
  assumes reads: "log_reads (decodeMessageSnapshot go_codec) (ml_messages (ew_log w)) (ew_disk w Messages_log) ss"
    and snap: "snapshot \<in> set ss"
      "nextProviderEventMessageStatus (ms_Status snapshot) t = Some st"
    and env: "ee_status_append env = calm" "status_fits env ss"
  obtains wm fs k where
    "appendProviderEventMessageStatus env snapshot st w = (Inr (),
       w\<lparr>ew_log := (ew_log w)\<lparr>ml_messages := wm\<rparr>, ew_disk := (ew_disk w)(Messages_log := fs)\<rparr>)"
    "k \<le> length ss"
    "log_reads (decodeMessageSnapshot go_codec) wm fs
       (drop k ss @ [logged_message (ee_status_time env) (status_message snapshot st)])"
proof -
  note st = next_status_cases [OF snap(2)]
  note sn = snapshot_message_id [OF reads snap(1)]
  have status: "msg_Status (status_message snapshot st) = st" "msg_MessageID (status_message snapshot st) \<noteq> []"
    using st(2) sn(1) by (simp_all add: status_message_def webhook_message_def)
  have good: "message_loggable (ee_status_time env) (status_message snapshot st)
      \<and> fits (message_line (ee_status_time env, status_message snapshot st))"
    using env(2) snap(1) st(1,3) status by (auto simp: status_fits_def message_loggable_def)
  obtain wm fs k where app: "appendLineLocked calm (message_line (ee_status_time env, status_message snapshot st))
        (ml_messages (ew_log w)) (ew_disk w Messages_log) = (Inr (), wm, fs)" "k \<le> length ss"
      "log_reads (decodeMessageSnapshot go_codec) wm fs
        (drop k ss @ [logged_message (ee_status_time env) (status_message snapshot st)])"
    using message_codec.append_reads [OF reads, of "(ee_status_time env, status_message snapshot st)"] good
    by auto
  show thesis
    by (rule that [OF _ app(2,3)])
      (use app(1) env(1) in \<open>simp add: appendProviderEventMessageStatus_def AppendWebhookMessageStatus_def
        AppendMessage_def message_line_def status_message_def Let_def\<close>)
qed

text \<open>What is recorded of a status update keeps the identity and the recipient of the message.\<close>

lemma logged_status:
  assumes "of_message a i snapshot" "ValidString a" "ValidString i"
    "nextProviderEventMessageStatus (ms_Status snapshot) t = Some st"
  shows "of_message a i (logged_message u (status_message snapshot st))"
    "ms_Status (logged_message u (status_message snapshot st)) = st"
    "ms_AppCode (logged_message u (status_message snapshot st)) = a"
    "ms_ToHash (logged_message u (status_message snapshot st)) = json_repair (ms_ToHash snapshot)"
  using assms next_status_cases(2) [OF assms(4)]
  by (auto simp: of_message_def logged_message_def status_message_def webhook_message_def
      json_repair_valid)

lemma hash_repair: "json_repair (sha256Hex s) = sha256Hex s"
  by (intro json_repair_valid ascii_valid)
    (auto simp: ascii_def char_between_def dest!: sha256Hex_shape(2))

lemma recipient_still_matches:
  assumes "validateProviderEventRecipientMatchesMessage snapshot event = Inr ()"
    "ms_AppCode s' = ms_AppCode snapshot" "ms_ToHash s' = json_repair (ms_ToHash snapshot)"
  shows "validateProviderEventRecipientMatchesMessage s' event = Inr ()"
  using assms
  by (auto simp: validateProviderEventRecipientMatchesMessage_def ToHash_def hash_repair
      split: if_splits option.splits) (metis hash_repair)+


text \<open>An admissible event is on record before the rest is done, once.\<close>

definition recorded_once :: "ProviderEvent \<Rightarrow> ProviderEvent list \<Rightarrow> ProviderEvent list \<Rightarrow> bool" where
  "recorded_once event es es' \<longleftrightarrow>
     (if event_identity event \<in> event_identity ` set es then es' = es
      else \<exists>k \<le> length es. map event_identity es' = drop k (map event_identity es) @ [event_identity event])"

lemma recorded_once_mem: "recorded_once event es es' \<Longrightarrow> event_identity event \<in> event_identity ` set es'"
proof (cases "event_identity event \<in> event_identity ` set es")
  case False
  assume "recorded_once event es es'"
  then obtain k where "map event_identity es' = drop k (map event_identity es) @ [event_identity event]"
    using False by (auto simp: recorded_once_def)
  then have "event_identity event \<in> set (map event_identity es')" by (simp del: list.set_map)
  then show ?thesis by simp
qed (simp add: recorded_once_def)

lemma apply_admissible:
  assumes ok: "world_ok w ss as es" and env: "logs_calm env" "event_loggable (ee_event_time env) event"
    and adm: "admissible ss as event s"
  obtains (known) "event_identity event \<in> event_identity ` set es"
      "applyProviderEvent env event w = finish_event env ''duplicate '' s event w"
  | (new) w1 es' where "event_identity event \<notin> event_identity ` set es"
      "applyProviderEvent env event w = finish_event env [] s event w1"
      "world_ok w1 ss as es'" "recorded_once event es es'"
proof -
  obtain we where m: "log_reads (decodeMessageSnapshot go_codec) (ml_messages (ew_log w)) (ew_disk w Messages_log) ss"
    and a: "log_reads (decodeAttemptSnapshot go_codec) (ml_attempts (ew_log w)) (ew_disk w Attempts_log) as"
    and we: "ml_events (ew_log w) = Some we"
      "log_reads (decodeProviderEventSnapshot go_codec) we (ew_disk w Events_log) es"
    using ok unfolding world_ok_def by blast
  note d = applyProviderEvent_def log_view_of_def FindLatestMessage_eq ListAttempts_eq
    log_reads_view [OF m, of "''message''"] log_reads_view [OF a, of "''attempt''"]
    validateProviderEventAttempt_def
  have e: "ee_open env = (\<lambda>_ _. None)" "ee_event_append env = calm" using env(1) by (simp_all add: logs_calm_def)
  show thesis
  proof (cases rule: append_event_once [where disk = "ew_disk w", OF we env(2), of "ee_path env Events_log"])
    case 1
    then show thesis using adm e by (intro known) (simp_all add: d admissible_def)
  next
    case (2 we' fs k)
    define w1 where "w1 = recordProviderEventStat env s event
        (w\<lparr>ew_log := (ew_log w)\<lparr>ml_events := Some we'\<rparr>, ew_disk := (ew_disk w)(Events_log := fs)\<rparr>)"
    have same: "ew_log w1 = (ew_log w)\<lparr>ml_events := Some we'\<rparr>" "ew_disk w1 = (ew_disk w)(Events_log := fs)"
      "ew_store w1 = ew_store w"
      by (simp_all add: w1_def recordProviderEventStat_def split: option.split prod.split)
    have "world_ok w1 ss as (drop k es @ [logged_event (ee_event_time env, event)])"
      using ok 2(4) by (simp add: world_ok_def same)
    moreover have "recorded_once event es (drop k es @ [logged_event (ee_event_time env, event)])"
      using 2(1,3) by (auto simp: recorded_once_def drop_map)
    moreover have "applyProviderEvent env event w = finish_event env [] s event w1"
      using adm e 2(2) by (simp add: d admissible_def w1_def)
    ultimately show thesis using 2(1) by (intro new [of w1])
  qed
qed

text \<open>
  What follows the record: the suppression fails and nothing else has changed, or everything is done
  and doing it again changes nothing.
\<close>

lemma finish_cases:
  assumes ok: "world_ok w ss as es" and env: "logs_calm env" "status_fits env ss"
    and event: "isValidIdentifierFilter (ev_AppCode event)" "ValidString (ev_AppCode event)"
      "ValidString (ev_MessageID event)"
    and adm: "admissible ss as event s"
    and run: "finish_event env kind s event w = (r, w')"
  obtains (failed) e where "r = Inl e" "\<not> persists env" "world_ok w' ss as es"
  | (finished) ss' s' where
      "r = Inr \<lparr>presp_MessageID = ev_MessageID event, presp_App = ev_AppCode event,
               presp_Status = apply_status (ev_EventType event) (ms_Status s)\<rparr>"
      "world_ok w' ss' as es" "admissible ss' as event s'"
      "ms_Status s' = apply_status (ev_EventType event) (ms_Status s)"
      "requiresSuppression (ev_EventType event) \<Longrightarrow> suppressed_in w' event"
      "\<And>env'. finish_event env' ''duplicate '' s' event w' = (r, w')"
proof -
  obtain st where store: "ew_store w = Some st" "entries_ok (ss_entries st)"
    using ok unfolding world_ok_def by blast
  have rec: "validateProviderEventRecipientMatchesMessage s event = Inr ()"
    and last: "last_such (of_message (ev_AppCode event) (ev_MessageID event)) ss = Some s"
    using adm by (simp_all add: admissible_def)
  obtain rs w1 where sup: "applySuppressionForEvent env event w = (rs, w1)" by (metis surj_pair)
  note step = suppression_step [OF store event(1) rec sup]
  obtain st1 fs1 where w1: "w1 = w\<lparr>ew_store := Some st1, ew_fs := fs1\<rparr>" "entries_ok (ss_entries st1)"
    using step(1) by blast
  have ok1: "world_ok w1 ss as es" using ok w1 by (simp add: world_ok_def)
  show thesis
  proof (cases rs)
    case (Inl e)
    have "\<not> persists env" using step(2) Inl by auto
    moreover have "w' = w1" "\<exists>e'. r = Inl e'" using run sup Inl by (auto simp: finish_event_def)
    ultimately show thesis using ok1 failed by blast
  next
    case (Inr u)
    then have rs: "rs = Inr ()" by simp
    have again: "applySuppressionForEvent env' event (w1\<lparr>ew_log := l, ew_disk := disk\<rparr>)
        = (Inr (), w1\<lparr>ew_log := l, ew_disk := disk\<rparr>)" for env' l disk by (rule step(4) [OF rs])
    show thesis
    proof (cases "nextProviderEventMessageStatus (ms_Status s) (ev_EventType event)")
      case None
      then have r: "r = Inr \<lparr>presp_MessageID = ev_MessageID event, presp_App = ev_AppCode event,
          presp_Status = apply_status (ev_EventType event) (ms_Status s)\<rparr>" "w' = w1"
        using run sup rs by (simp_all add: finish_event_def apply_status_def)
      show thesis
      proof (rule finished [OF r(1)])
        show "world_ok w' ss as es" using ok1 r(2) by simp
        show "admissible ss as event s" by (rule adm)
        show "ms_Status s = apply_status (ev_EventType event) (ms_Status s)" using None by (simp add: apply_status_def)
        show "suppressed_in w' event" if "requiresSuppression (ev_EventType event)"
          using step(3) [OF rs that] r(2) by simp
        show "finish_event env' ''duplicate '' s event w' = (r, w')" for env'
          using again [where env' = env' and l = "ew_log w1" and disk = "ew_disk w1"] None r by (simp add: finish_event_def apply_status_def)
      qed
    next
      case (Some status)
      have snap: "s \<in> set ss" "of_message (ev_AppCode event) (ev_MessageID event) s"
        using last_such_Some [OF last] by auto
      have reads: "log_reads (decodeMessageSnapshot go_codec) (ml_messages (ew_log w1)) (ew_disk w1 Messages_log) ss"
        using ok1 by (simp add: world_ok_def)
      have calm_env: "ee_status_append env = calm" using env(1) by (simp add: logs_calm_def)
      obtain wm fs k where app: "appendProviderEventMessageStatus env s status w1 = (Inr (),
           w1\<lparr>ew_log := (ew_log w1)\<lparr>ml_messages := wm\<rparr>, ew_disk := (ew_disk w1)(Messages_log := fs)\<rparr>)"
        "k \<le> length ss"
        "log_reads (decodeMessageSnapshot go_codec) wm fs
           (drop k ss @ [logged_message (ee_status_time env) (status_message s status)])"
        by (rule status_step [OF reads snap(1) Some calm_env env(2)])
      let ?s' = "logged_message (ee_status_time env) (status_message s status)"
      let ?w' = "w1\<lparr>ew_log := (ew_log w1)\<lparr>ml_messages := wm\<rparr>, ew_disk := (ew_disk w1)(Messages_log := fs)\<rparr>"
      note logged = logged_status [OF snap(2) event(2,3) Some, of "ee_status_time env"]
      have new: "status = apply_status (ev_EventType event) (ms_Status s)" using Some by (simp add: apply_status_def)
      have r: "r = Inr \<lparr>presp_MessageID = ev_MessageID event, presp_App = ev_AppCode event,
          presp_Status = apply_status (ev_EventType event) (ms_Status s)\<rparr>" "w' = ?w'"
        using run sup rs app(1) Some new by (simp_all add: finish_event_def)
      have none: "nextProviderEventMessageStatus status (ev_EventType event) = None"
        using Some by (cases "ev_EventType event"; cases "ms_Status s")
          (auto simp: nextProviderEventMessageStatus_def split: if_splits)
      have adm': "admissible (drop k ss @ [?s']) as event ?s'"
        using adm logged recipient_still_matches [OF rec, of ?s'] snap(2)
        by (simp add: admissible_def last_such_append last_such_def of_message_def)
      show thesis
      proof (rule finished [OF r(1) _ adm'])
        show "world_ok w' (drop k ss @ [?s']) as es" using ok1 app(3) by (simp add: world_ok_def r(2))
        show "ms_Status ?s' = apply_status (ev_EventType event) (ms_Status s)" using logged(2) new by simp
        show "suppressed_in w' event" if "requiresSuppression (ev_EventType event)"
          using step(3) [OF rs that] by (simp add: r(2) suppressed_in_def)
        show "finish_event env' ''duplicate '' ?s' event w' = (r, w')" for env'
          using again [where env' = env'] none logged(2) new r by (simp add: finish_event_def)
      qed
    qed
  qed
qed


text \<open>
  C10. A webhook may be delivered again. An event that names no message in the log, no sent attempt or
  another recipient is refused with the same error each time and nothing changes. Otherwise, whatever
  the first delivery met at the suppression file, a second one without a failure is answered with the
  status the event moves the message to; the event is on record once, the log gives that status, and
  the recipient of a bounce or a complaint is suppressed. If the first delivery was answered, the
  second gives the same answer and changes nothing.
\<close>

theorem webhook_redelivery:
  assumes ok: "world_ok w ss as es"
    and env: "logs_calm env" "status_fits env ss" "event_loggable (ee_event_time env) event"
    and env': "logs_calm env'" "status_fits env' ss" "event_loggable (ee_event_time env') event" "persists env'"
    and app: "isValidIdentifierFilter (ev_AppCode event)"
    and runs: "applyProviderEvent env event w = (r, w1)" "applyProviderEvent env' event w1 = (r', w2)"
  shows "if \<nexists>s. admissible ss as event s then \<exists>e. r = Inl e \<and> r' = Inl e \<and> w1 = w \<and> w2 = w
    else \<exists>s s' ss' es'. admissible ss as event s
      \<and> r' = Inr \<lparr>presp_MessageID = ev_MessageID event, presp_App = ev_AppCode event,
                  presp_Status = apply_status (ev_EventType event) (ms_Status s)\<rparr>
      \<and> (r = r' \<and> w2 = w1 \<or> isl r)
      \<and> world_ok w2 ss' as es' \<and> recorded_once event es es'
      \<and> last_such (of_message (ev_AppCode event) (ev_MessageID event)) ss' = Some s'
      \<and> ms_Status s' = apply_status (ev_EventType event) (ms_Status s)
      \<and> (requiresSuppression (ev_EventType event) \<longrightarrow> suppressed_in w2 event)"
proof (cases "\<exists>s. admissible ss as event s")
  case False
  obtain e where "\<forall>env' w'. logs_calm env' \<longrightarrow> ew_log w' = ew_log w \<longrightarrow> ew_disk w' = ew_disk w \<longrightarrow>
      applyProviderEvent env' event w' = (Inl e, w')"
    using apply_rejected [OF ok env(1) False] by blast
  then show ?thesis using False env(1) env'(1) runs by auto
next
  case True
  then obtain s where adm: "admissible ss as event s" by blast
  have valid: "ValidString (ev_AppCode event)" "ValidString (ev_MessageID event)"
    using env(3) by (simp_all add: event_loggable_def)
  obtain kind w0 es' where first: "finish_event env kind s event w0 = (r, w1)" "world_ok w0 ss as es'"
      "recorded_once event es es'"
    by (cases rule: apply_admissible [OF ok env(1,3) adm]) (use ok runs(1) in \<open>auto simp: recorded_once_def\<close>)
  have mem: "event_identity event \<in> event_identity ` set es'" by (rule recorded_once_mem [OF first(3)])
  have second: "finish_event env' ''duplicate '' s1 event w1 = (r', w2)"
    if "world_ok w1 ss1 as es'" "admissible ss1 as event s1" for ss1 s1
    by (cases rule: apply_admissible [OF that(1) env'(1,3) that(2)]) (use mem runs(2) in auto)
  show ?thesis
  proof (cases rule: finish_cases [OF first(2) env(1,2) app valid adm first(1)])
    case (1 e)
    have run2: "finish_event env' ''duplicate '' s event w1 = (r', w2)" by (rule second [OF 1(3) adm])
    show ?thesis
    proof (cases rule: finish_cases [OF 1(3) env'(1,2) app valid adm run2])
      case (2 ss' s')
      then show ?thesis using True adm 1(1) first(3)
        by (simp add: admissible_def) blast
    qed (use env'(4) in blast)
  next
    case (2 ss' s')
    have "finish_event env' ''duplicate '' s' event w1 = (r', w2)" by (rule second [OF 2(2,3)])
    then have same: "r' = r" "w2 = w1" using 2(6) [of env'] by auto
    show ?thesis using True adm 2(1-5) first(3) same
      by (simp add: admissible_def) blast
  qed
qed


definition sample_event_env :: event_env where
  "sample_event_env = \<lparr>ee_path = log_filename, ee_open = (\<lambda>_ _. None), ee_event_append = calm,
     ee_status_append = calm, ee_stats_append = calm, ee_event_time = 5, ee_status_time = 7,
     ee_stats_time = 9, ee_stats_line = (\<lambda>_ _. ''{}''), ee_persist = sample_env\<rparr>"

definition delivered_event :: ProviderEvent where
  "delivered_event = sample_event\<lparr>ev_Provider := ProviderMock\<rparr>"

lemma sample_world:
  obtains w where "world_ok w [logged_message 0 sample_logged] [logged_attempt 0 sample_attempt] []"
proof -
  let ?w = "\<lparr>jw_maxBytes = 4096, jw_maxBackups = 1, jw_open = True, jw_failed = None, jw_currentSize = 0\<rparr>"
  have new: "newJSONLWriter None calm_open 4096 1 Map.empty = (Inr ?w, [0 \<mapsto> []])"
    by (simp add: newJSONLWriter_def jsonl_open_def calm_open_def Let_def)
  have fresh: "log_reads dec ?w [0 \<mapsto> []] []" for dec :: "string \<Rightarrow> 'b result"
    by (rule fresh_log_reads [OF new])
  have "message_loggable 0 sample_logged" "fits (message_line (0, sample_logged))"
    "attempt_loggable 0 sample_attempt" "fits (attempt_line (0, sample_attempt))" by code_simp+
  then obtain wm fm wa fa where
    m: "log_reads (decodeMessageSnapshot go_codec) wm fm [logged_message 0 sample_logged]" and
    a: "log_reads (decodeAttemptSnapshot go_codec) wa fa [logged_attempt 0 sample_attempt]"
    using message_codec.append_reads [OF fresh, of "(0, sample_logged)"]
      attempt_codec.append_reads [OF fresh, of "(0, sample_attempt)"] by auto
  show thesis
    by (rule that [of "\<lparr>ew_log = \<lparr>ml_messages = wm, ml_attempts = wa, ml_events = Some ?w\<rparr>,
        ew_disk = (\<lambda>n. case n of Messages_log \<Rightarrow> fm | Attempts_log \<Rightarrow> fa | Events_log \<Rightarrow> [0 \<mapsto> []]),
        ew_store = Some sample_store, ew_fs = Map.empty, ew_sink = NoopStatsSink, ew_stats = Map.empty\<rparr>"])
      (use m a fresh in \<open>simp add: world_ok_def sample_store_def\<close>)
qed

lemma webhook_redelivery_witness:
  "\<exists>w r w1 w2. applyProviderEvent sample_event_env delivered_event w = (r, w1)
     \<and> applyProviderEvent sample_event_env delivered_event w1
         = (Inr \<lparr>presp_MessageID = ''msg_1'', presp_App = ''shop'', presp_Status = MessageStatusDelivered\<rparr>, w2)
     \<and> (isl r \<or> w2 = w1)"
proof -
  obtain w where ok: "world_ok w [logged_message 0 sample_logged] [logged_attempt 0 sample_attempt] []"
    by (rule sample_world)
  obtain r w1 r' w2 where runs: "applyProviderEvent sample_event_env delivered_event w = (r, w1)"
    "applyProviderEvent sample_event_env delivered_event w1 = (r', w2)" by (metis surj_pair)
  have "logs_calm sample_event_env" by (simp add: logs_calm_def sample_event_env_def)
  moreover have "persists sample_event_env"
    by (simp add: persists_def sample_event_env_def sample_env_def sample_atomic_def persistLocked_def
        writeFileAtomically_def Let_def)
  moreover have "status_fits sample_event_env [logged_message 0 sample_logged]"
    "event_loggable (ee_event_time sample_event_env) delivered_event"
    "isValidIdentifierFilter (ev_AppCode delivered_event)" by code_simp+
  ultimately have concl: "if \<nexists>s. admissible [logged_message 0 sample_logged] [logged_attempt 0 sample_attempt]
        delivered_event s then \<exists>e. r = Inl e \<and> r' = Inl e \<and> w1 = w \<and> w2 = w
    else \<exists>s s' ss' es'. admissible [logged_message 0 sample_logged] [logged_attempt 0 sample_attempt]
        delivered_event s
      \<and> r' = Inr \<lparr>presp_MessageID = ev_MessageID delivered_event, presp_App = ev_AppCode delivered_event,
            presp_Status = apply_status (ev_EventType delivered_event) (ms_Status s)\<rparr>
      \<and> (r = r' \<and> w2 = w1 \<or> isl r)
      \<and> world_ok w2 ss' [logged_attempt 0 sample_attempt] es' \<and> recorded_once delivered_event [] es'
      \<and> last_such (of_message (ev_AppCode delivered_event) (ev_MessageID delivered_event)) ss' = Some s'
      \<and> ms_Status s' = apply_status (ev_EventType delivered_event) (ms_Status s)
      \<and> (requiresSuppression (ev_EventType delivered_event) \<longrightarrow> suppressed_in w2 delivered_event)"
    using webhook_redelivery [OF ok _ _ _ _ _ _ _ _ runs] by blast
  have adm: "admissible [logged_message 0 sample_logged] [logged_attempt 0 sample_attempt]
      delivered_event (logged_message 0 sample_logged)" by code_simp
  then obtain s where s: "admissible [logged_message 0 sample_logged] [logged_attempt 0 sample_attempt] delivered_event s"
      "r' = Inr \<lparr>presp_MessageID = ev_MessageID delivered_event, presp_App = ev_AppCode delivered_event,
            presp_Status = apply_status (ev_EventType delivered_event) (ms_Status s)\<rparr>" "r = r' \<and> w2 = w1 \<or> isl r"
    using concl by (auto split: if_splits)
  have "s = logged_message 0 sample_logged" using adm s(1) by (simp add: admissible_def)
  moreover have "apply_status (ev_EventType delivered_event) (ms_Status (logged_message 0 sample_logged))
      = MessageStatusDelivered" "ev_MessageID delivered_event = ''msg_1''" "ev_AppCode delivered_event = ''shop''"
    by code_simp+
  ultimately show ?thesis using runs s(2,3) by auto
qed

text \<open>
  The normalisation of \<open>occurred_at\<close> can leave the four-digit years: a time stamp of year 0 ahead of
  UTC is accepted and written as a negative year, which no later read of the log can parse, so the
  recorded line makes every query of the events log fail.
\<close>

lemma normalized_time_unreadable:
  "normalizeProviderEventOccurredAt ''0000-01-01T00:00:00+01:00'' = Inr ''-0001-12-31T23:00:00Z''
   \<and> parse_time ''-0001-12-31T23:00:00Z'' = None
   \<and> normalizeProviderEventOccurredAt ''9999-12-31T23:59:59-01:00'' = Inr ''10000-01-01T00:59:59Z''
   \<and> parse_time ''10000-01-01T00:59:59Z'' = None"
  by code_simp

end
