(* ===== verification/IPAddr.thy ===== *)
theory IPAddr
  imports Json Email
begin

text \<open>
  IP addresses as \<open>net/netip\<close> reads and writes them, for \<open>normalizeIPAddr\<close> of
  \<open>internal/domain/request_validation.go\<close> and for \<open>internal/api/caller_ip.go\<close>. An IPv4 address is its
  four bytes, an IPv6 address its eight groups of 16 bits with a zone.
\<close>

section \<open>Addresses\<close>

datatype Addr = Addr4 "nat list" | Addr6 "nat list" string

fun wf_addr :: "Addr \<Rightarrow> bool" where
  "wf_addr (Addr4 bs) \<longleftrightarrow> length bs = 4 \<and> (\<forall>b \<in> set bs. b < 256)"
| "wf_addr (Addr6 gs z) \<longleftrightarrow> length gs = 8 \<and> (\<forall>g \<in> set gs. g < 65536)"

fun Is4In6 :: "Addr \<Rightarrow> bool" where
  "Is4In6 (Addr4 bs) = False"
| "Is4In6 (Addr6 gs z) = (take 6 gs = [0, 0, 0, 0, 0, 65535])"

text \<open>The bytes of two groups of 16 bits, and the groups of four bytes.\<close>

definition octets_of :: "nat \<Rightarrow> nat \<Rightarrow> nat list" where
  "octets_of g h = [g div 256, g mod 256, h div 256, h mod 256]"

fun groups_of :: "nat list \<Rightarrow> nat list" where
  "groups_of [a, b, c, d] = [a * 256 + b, c * 256 + d]"
| "groups_of _ = []"

fun Unmap :: "Addr \<Rightarrow> Addr" where
  "Unmap (Addr4 bs) = Addr4 bs"
| "Unmap (Addr6 gs z) =
     (if Is4In6 (Addr6 gs z) then Addr4 (octets_of (gs ! 6) (gs ! 7)) else Addr6 gs z)"

definition normalizeIPAddr :: "Addr \<Rightarrow> Addr" where
  "normalizeIPAddr addr = (if Is4In6 addr then Unmap addr else addr)"

section \<open>Parsing\<close>

text \<open>One decimal field of at most 255 without a leading zero.\<close>

definition octet :: "string \<Rightarrow> nat option" where
  "octet s =
     (if s = [] \<or> \<not> list_all is_digit s \<or> (1 < length s \<and> hd s = CHR ''0'') \<or> 255 < digits_value s
      then None else Some (digits_value s))"

fun option_list :: "'a option list \<Rightarrow> 'a list option" where
  "option_list [] = Some []"
| "option_list (None # xs) = None"
| "option_list (Some x # xs) = map_option ((#) x) (option_list xs)"

definition parseIPv4Fields :: "string \<Rightarrow> nat list option" where
  "parseIPv4Fields s =
     (let fields = split_at CHR ''.'' s
      in if length fields \<noteq> 4 then None else option_list (map octet fields))"

definition hex_char :: "char \<Rightarrow> bool" where
  "hex_char c \<longleftrightarrow> hex_value c \<noteq> None"

definition hex_number :: "string \<Rightarrow> nat" where
  "hex_number s = foldl (\<lambda>v c. v * 16 + the (hex_value c)) 0 s"

text \<open>
  The loop over the groups of an IPv6 address: the number of groups that still fit, the text ahead,
  the groups read, and where the ellipsis was.
\<close>

fun ip6_groups :: "nat \<Rightarrow> string \<Rightarrow> nat list \<Rightarrow> nat option
    \<Rightarrow> (nat list \<times> nat option \<times> string) option" where
  "ip6_groups 0 s acc e = Some (acc, e, s)"
| "ip6_groups (Suc k) s acc e =
     (let h = takeWhile hex_char s; rest = dropWhile hex_char s; acc' = acc @ [hex_number h]
      in if h = [] \<or> 4 < length h then None
         else case rest of
                [] \<Rightarrow> Some (acc', e, [])
              | c # t \<Rightarrow>
                  if c = CHR ''.'' then
                    (if e = None \<and> length acc \<noteq> 6 \<or> 8 < length acc + 2 then None
                     else map_option (\<lambda>bs. (acc @ groups_of bs, e, [])) (parseIPv4Fields s))
                  else if c \<noteq> CHR '':'' then None
                  else case t of
                         [] \<Rightarrow> None
                       | c2 # u \<Rightarrow>
                           if c2 \<noteq> CHR '':'' then ip6_groups k t acc' e
                           else if e \<noteq> None then None
                           else if u = [] then Some (acc', Some (length acc'), [])
                           else ip6_groups k u acc' (Some (length acc')))"

definition ip6_finish :: "nat list \<times> nat option \<times> string \<Rightarrow> nat list option" where
  "ip6_finish r =
     (case r of (acc, e, s) \<Rightarrow>
        if s \<noteq> [] then None
        else if length acc < 8 then
          map_option (\<lambda>j. take j acc @ replicate (8 - length acc) 0 @ drop j acc) e
        else if e \<noteq> None then None
        else Some acc)"

definition parseIPv6 :: "string \<Rightarrow> Addr option" where
  "parseIPv6 s0 =
     (let s = takeWhile ((\<noteq>) CHR ''%'') s0; zone = drop (Suc (length s)) s0
      in if CHR ''%'' \<in> set s0 \<and> zone = [] then None
         else if HasPrefix s ''::'' then
           (if length s = 2 then Some (Addr6 (replicate 8 0) zone)
            else map_option (\<lambda>gs. Addr6 gs zone)
                   (Option.bind (ip6_groups 8 (drop 2 s) [] (Some 0)) ip6_finish))
         else map_option (\<lambda>gs. Addr6 gs zone) (Option.bind (ip6_groups 8 s [] None) ip6_finish))"

definition ParseAddr :: "string \<Rightarrow> Addr option" where
  "ParseAddr s =
     (case find (\<lambda>c. c \<in> set ''.:%'') s of
        None \<Rightarrow> None
      | Some c \<Rightarrow>
          if c = CHR ''.'' then map_option Addr4 (parseIPv4Fields s)
          else if c = CHR '':'' then parseIPv6 s
          else None)"

section \<open>Printing\<close>

fun join :: "string \<Rightarrow> string list \<Rightarrow> string" where
  "join sep [] = []"
| "join sep [x] = x"
| "join sep (x # y # xs) = x @ sep @ join sep (y # xs)"

fun hex_text :: "nat \<Rightarrow> string" where
  "hex_text n = (if n < 16 then [hex_digit n] else hex_text (n div 16) @ [hex_digit (n mod 16)])"

declare hex_text.simps [simp del]

definition string4 :: "nat list \<Rightarrow> string" where
  "string4 bs = join ''.'' (map decimal bs)"

text \<open>Where the longest run of at least two zero groups starts, and its length.\<close>

definition zero_run :: "nat list \<Rightarrow> nat" where
  "zero_run gs = length (takeWhile ((=) 0) gs)"

definition longest_zeros :: "nat list \<Rightarrow> nat \<times> nat" where
  "longest_zeros gs =
     foldl (\<lambda>(st, l) i. let n = zero_run (drop i gs) in if 2 \<le> n \<and> l < n then (i, n) else (st, l))
       (255, 0) [0..<8]"

definition string6 :: "nat list \<Rightarrow> string" where
  "string6 gs =
     (case longest_zeros gs of (st, l) \<Rightarrow>
        if l = 0 then join '':'' (map hex_text gs)
        else join '':'' (map hex_text (take st gs)) @ ''::'' @ join '':'' (map hex_text (drop (st + l) gs)))"

definition with_zone :: "string \<Rightarrow> string \<Rightarrow> string" where
  "with_zone s zone = (if zone = [] then s else s @ CHR ''%'' # zone)"

fun Addr_String :: "Addr \<Rightarrow> string" where
  "Addr_String (Addr4 bs) = string4 bs"
| "Addr_String (Addr6 gs zone) =
     with_zone (if Is4In6 (Addr6 gs zone) then ''::ffff:'' @ string4 (octets_of (gs ! 6) (gs ! 7))
                else string6 gs) zone"


section \<open>What is printed reads back\<close>

lemma hex_value_of_digit: "n < 16 \<Longrightarrow> hex_value (hex_digit n) = Some n"
  by (auto simp: hex_value_def hex_digit_def char_between_def of_char_of)

lemma hex_value_less: "hex_value c = Some n \<Longrightarrow> n < 16"
  by (auto simp: hex_value_def char_between_def split: if_splits)

lemma hex_number_snoc [simp]: "hex_number (s @ [c]) = hex_number s * 16 + the (hex_value c)"
  by (simp add: hex_number_def)

lemma hex_number_hex_text [simp]: "hex_number (hex_text n) = n"
proof (induction n rule: hex_text.induct)
  case (1 n)
  show ?case
  proof (cases "n < 16")
    case True
    then show ?thesis by (simp add: hex_text.simps [of n] hex_number_def hex_value_of_digit)
  next
    case False
    then show ?thesis using 1 by (simp add: hex_text.simps [of n] hex_value_of_digit)
  qed
qed

lemma hex_text_chars: "c \<in> set (hex_text n) \<Longrightarrow> hex_char c"
proof (induction n rule: hex_text.induct)
  case (1 n)
  then show ?case
    by (auto simp: hex_text.simps [of n] hex_char_def hex_value_of_digit split: if_splits)
qed

lemma hex_text_nonempty [simp]: "hex_text n \<noteq> []"
  by (subst hex_text.simps) simp

lemma hex_text_length: "n < 16 ^ Suc k \<Longrightarrow> length (hex_text n) \<le> Suc k"
proof (induction k arbitrary: n)
  case 0
  then show ?case by (simp add: hex_text.simps [of n])
next
  case (Suc k)
  show ?case
  proof (cases "n < 16")
    case False
    have "n div 16 < 16 ^ Suc k" using Suc.prems by (simp add: less_mult_imp_div_less mult.commute)
    then show ?thesis using Suc.IH [of "n div 16"] False by (simp add: hex_text.simps [of n])
  qed (simp add: hex_text.simps [of n])
qed

lemma hex_text_short: "g < 65536 \<Longrightarrow> length (hex_text g) \<le> 4"
  using hex_text_length [of g 3] by simp

lemma not_hex [simp]: "\<not> hex_char CHR '':''" "\<not> hex_char CHR ''.''" "\<not> hex_char CHR ''%''"
  by (simp_all add: hex_char_def hex_value_def char_between_def)

lemma hex_text_take:
  assumes "rest = [] \<or> \<not> hex_char (hd rest)"
  shows "takeWhile hex_char (hex_text n @ rest) = hex_text n" "dropWhile hex_char (hex_text n @ rest) = rest"
proof -
  have all: "\<forall>c \<in> set (hex_text n). hex_char c" using hex_text_chars by blast
  have r: "takeWhile hex_char rest = []" "dropWhile hex_char rest = rest"
    using assms by (cases rest; simp)+
  show "takeWhile hex_char (hex_text n @ rest) = hex_text n" "dropWhile hex_char (hex_text n @ rest) = rest"
    using all r by (simp_all add: takeWhile_append dropWhile_append)
qed

lemma hex_text_take_char:
  assumes "\<not> hex_char c"
  shows "takeWhile hex_char (hex_text n @ c # t) = hex_text n" "dropWhile hex_char (hex_text n @ c # t) = c # t"
  using hex_text_take [of "c # t" n] assms by simp_all

lemma hex_text_take_end [simp]:
  "takeWhile hex_char (hex_text n) = hex_text n" "dropWhile hex_char (hex_text n) = []"
  using hex_text_take [of "[]" n] by simp_all

text \<open>Reading a group and what may follow it.\<close>

lemma ip6_group_end:
  "g < 65536 \<Longrightarrow> ip6_groups (Suc k) (hex_text g) acc e = Some (acc @ [g], e, [])"
  using hex_text_short [of g] by (simp add: Let_def)

lemma ip6_group_colon:
  assumes "g < 65536" "c \<noteq> CHR '':''"
  shows "ip6_groups (Suc k) (hex_text g @ CHR '':'' # c # t) acc e = ip6_groups k (c # t) (acc @ [g]) e"
  using hex_text_short [of g] assms by (simp add: Let_def hex_text_take_char)

lemma ip6_group_ellipsis:
  assumes "g < 65536"
  shows "ip6_groups (Suc k) (hex_text g @ ''::'' @ u) acc None =
     (if u = [] then Some (acc @ [g], Some (Suc (length acc)), [])
      else ip6_groups k u (acc @ [g]) (Some (Suc (length acc))))"
  using hex_text_short [of g] assms by (simp add: Let_def hex_text_take_char)

declare ip6_groups.simps [simp del]

lemma hex_text_Cons:
  obtains c t where "hex_text g = c # t" "c \<noteq> CHR '':''" "hex_char c"
proof -
  obtain c t where ct: "hex_text g = c # t" by (cases "hex_text g") auto
  then have "hex_char c" using hex_text_chars [of c g] by simp
  moreover from this have "c \<noteq> CHR '':''" by auto
  ultimately show thesis using that ct by blast
qed

lemma ip6_groups_join:
  assumes "gs \<noteq> []" "length gs \<le> k" "\<forall>g \<in> set gs. g < 65536"
  shows "ip6_groups k (join '':'' (map hex_text gs)) acc e = Some (acc @ gs, e, [])"
  using assms
proof (induction gs arbitrary: k acc)
  case (Cons g gs)
  obtain k' where k: "k = Suc k'" using Cons.prems by (cases k) auto
  show ?case
  proof (cases gs)
    case Nil
    then show ?thesis using Cons.prems by (simp add: k ip6_group_end)
  next
    case (Cons g' gs')
    let ?more = "join '':'' (map hex_text gs)"
    obtain c t where "hex_text g' = c # t" "c \<noteq> CHR '':''" by (rule hex_text_Cons)
    then obtain u where u: "?more = c # u" "c \<noteq> CHR '':''" using Cons by (cases gs') auto
    have "join '':'' (map hex_text (g # gs)) = hex_text g @ CHR '':'' # c # u"
      using u Cons by simp
    moreover have "ip6_groups k' (c # u) (acc @ [g]) e = Some ((acc @ [g]) @ gs, e, [])"
      using Cons.IH [of k' "acc @ [g]"] Cons.prems Cons u by (simp add: k)
    ultimately show ?thesis using ip6_group_colon [OF _ u(2), of g k' u acc e] Cons.prems by (simp add: k)
  qed
qed simp

lemma ip6_groups_ellipsis:
  assumes "gs \<noteq> []" "length gs \<le> k" "\<forall>g \<in> set gs. g < 65536"
  shows "ip6_groups k (join '':'' (map hex_text gs) @ ''::'' @ u) acc None =
     (if u = [] then Some (acc @ gs, Some (length acc + length gs), [])
      else ip6_groups (k - length gs) u (acc @ gs) (Some (length acc + length gs)))"
  using assms
proof (induction gs arbitrary: k acc)
  case (Cons g gs)
  obtain k' where k: "k = Suc k'" using Cons.prems by (cases k) auto
  show ?case
  proof (cases gs)
    case Nil
    then show ?thesis using Cons.prems ip6_group_ellipsis [of g k' u acc] by (simp add: k)
  next
    case (Cons g' gs')
    let ?more = "join '':'' (map hex_text gs) @ ''::'' @ u"
    obtain c t where "hex_text g' = c # t" "c \<noteq> CHR '':''" by (rule hex_text_Cons)
    then obtain v where v: "?more = c # v" "c \<noteq> CHR '':''" using Cons by (cases gs') auto
    have "join '':'' (map hex_text (g # gs)) @ ''::'' @ u = hex_text g @ CHR '':'' # c # v"
      using v Cons by simp
    then show ?thesis
      using Cons.IH [of k' "acc @ [g]"] Cons.prems Cons v ip6_group_colon [OF _ v(2), of g k' v acc None]
      by (simp add: k)
  qed
qed simp


lemma longest_zeros_loop:
  assumes "l0 = 0 \<or> 2 \<le> l0 \<and> l0 = zero_run (drop st0 gs)"
    and "foldl (\<lambda>(st, l) i. let n = zero_run (drop i gs) in if 2 \<le> n \<and> l < n then (i, n) else (st, l))
           (st0, l0) xs = (st, l)"
  shows "l = 0 \<or> 2 \<le> l \<and> l = zero_run (drop st gs)"
  using assms by (induction xs arbitrary: st0 l0) (auto simp: Let_def split: if_splits)

lemma longest_zeros_run:
  assumes "longest_zeros gs = (st, l)"
  shows "l = 0 \<or> 2 \<le> l \<and> l = zero_run (drop st gs)"
  by (rule longest_zeros_loop [OF _ assms [unfolded longest_zeros_def]]) simp

lemma zero_run_replicate:
  assumes "l = zero_run (drop st gs)" "0 < l"
  shows "st + l \<le> length gs" "gs = take st gs @ replicate l 0 @ drop (st + l) gs"
proof -
  let ?z = "takeWhile ((=) 0) (drop st gs)"
  have len: "length ?z = l" using assms(1) by (simp add: zero_run_def)
  have "?z = take l (drop st gs)" by (metis len takeWhile_eq_take)
  moreover have "?z = replicate l 0"
    by (metis (full_types) len replicate_eqI set_takeWhileD)
  ultimately have "take l (drop st gs) = replicate l 0" by simp
  moreover have "l \<le> length (drop st gs)" using len length_takeWhile_le by metis
  then show "st + l \<le> length gs" using assms(2) by simp
  ultimately show "gs = take st gs @ replicate l 0 @ drop (st + l) gs"
    by (metis append_take_drop_id drop_drop add.commute)
qed

lemma join_hex_hd:
  assumes "gs \<noteq> []"
  obtains c t where "join '':'' (map hex_text gs) = c # t" "hex_char c"
proof -
  obtain g gs' where gs: "gs = g # gs'" using assms by (cases gs) auto
  obtain c t where "hex_text g = c # t" "hex_char c" by (rule hex_text_Cons)
  then show thesis using that gs by (cases gs') auto
qed

lemma ip6_text_reads:
  assumes "length gs = 8" "\<forall>g \<in> set gs. g < 65536"
  shows "(if HasPrefix (string6 gs) ''::'' then
            (if length (string6 gs) = 2 then Some (replicate 8 0)
             else Option.bind (ip6_groups 8 (drop 2 (string6 gs)) [] (Some 0)) ip6_finish)
          else Option.bind (ip6_groups 8 (string6 gs) [] None) ip6_finish) = Some gs"
proof (cases "longest_zeros gs")
  case (Pair st l)
  show ?thesis
  proof (cases "l = 0")
    case True
    obtain c t where ct: "join '':'' (map hex_text gs) = c # t" "hex_char c"
      by (rule join_hex_hd [of gs]) (use assms in auto)
    then have "\<not> HasPrefix (string6 gs) ''::''" using True Pair by (auto simp: HasPrefix_def string6_def)
    moreover have "gs \<noteq> []" using assms(1) by auto
    then have "ip6_groups 8 (string6 gs) [] None = Some (gs, None, [])"
      using ip6_groups_join [of gs 8 "[]" None] assms True Pair by (simp add: string6_def)
    ultimately show ?thesis using assms by (simp add: ip6_finish_def)
  next
    case False
    then have run: "l = zero_run (drop st gs)" "2 \<le> l" using longest_zeros_run [OF Pair] by auto
    let ?a = "take st gs" and ?b = "drop (st + l) gs"
    have fit: "st + l \<le> 8" and gs: "gs = ?a @ replicate l 0 @ ?b"
      using zero_run_replicate [OF run(1)] run(2) assms(1) by auto
    have la: "length ?a = st" and lb: "length ?b = 8 - (st + l)" using fit assms(1) by auto
    have smal: "\<forall>g \<in> set ?a. g < 65536" "\<forall>g \<in> set ?b. g < 65536"
      using assms(2) by (auto dest: in_set_takeD in_set_dropD)
    have txt6: "string6 gs = join '':'' (map hex_text ?a) @ ''::'' @ join '':'' (map hex_text ?b)"
      using False Pair by (simp add: string6_def)
    have fin: "ip6_finish (?a @ ?b, Some st, []) = Some gs"
      using gs la lb run(2) fit by (simp add: ip6_finish_def)
    show ?thesis
    proof (cases "st = 0")
      case True
      then have pre: "HasPrefix (string6 gs) ''::''" "drop 2 (string6 gs) = join '':'' (map hex_text ?b)"
        using txt6 by (simp_all add: HasPrefix_def)
      show ?thesis
      proof (cases "?b = []")
        case True
        then have "l = 8" using lb \<open>st = 0\<close> fit by auto
        then have "gs = replicate 8 0" using gs \<open>st = 0\<close> True by simp
        then show ?thesis using txt6 pre(1) True \<open>st = 0\<close> by simp
      next
        case nb: False
        have "length (string6 gs) \<noteq> 2"
        proof -
          obtain c t where "join '':'' (map hex_text ?b) = c # t" by (rule join_hex_hd [OF nb])
          then show ?thesis using txt6 True by simp
        qed
        moreover have "ip6_groups 8 (drop 2 (string6 gs)) [] (Some 0) = Some (?b, Some 0, [])"
          using ip6_groups_join [OF nb, of 8 "[]" "Some 0"] smal lb pre(2) by simp
        ultimately show ?thesis using pre(1) fin True by simp
      qed
    next
      case st: False
      then have na: "?a \<noteq> []" using assms(1) by auto
      obtain c t where ct: "join '':'' (map hex_text ?a) = c # t" "hex_char c" by (rule join_hex_hd [OF na])
      have "\<not> HasPrefix (string6 gs) ''::''" using txt6 ct by (auto simp: HasPrefix_def)
      moreover have "ip6_groups 8 (string6 gs) [] None = Some (?a @ ?b, Some st, [])"
      proof (cases "?b = []")
        case True
        then show ?thesis using ip6_groups_ellipsis [OF na, of 8 "[]" "[]"] smal la fit txt6 by simp
      next
        case nb: False
        obtain c t where "join '':'' (map hex_text ?b) = c # t" by (rule join_hex_hd [OF nb])
        then show ?thesis
          using ip6_groups_ellipsis [OF na, of 8 "join '':'' (map hex_text ?b)" "[]"] smal la lb fit txt6
            ip6_groups_join [OF nb, of "8 - st" ?a "Some st"] by simp
      qed
      ultimately show ?thesis using fin by simp
    qed
  qed
qed


lemma string6_shape:
  assumes "length gs = 8"
  obtains p t where "string6 gs = p @ CHR '':'' # t" "\<forall>c \<in> set p. hex_char c"
proof -
  obtain g0 g1 gs' where gs: "gs = g0 # g1 # gs'" using assms by (auto simp: numeral_eq_Suc length_Suc_conv)
  obtain st l where Pair: "longest_zeros gs = (st, l)" by (cases "longest_zeros gs")
  have hex: "\<forall>c \<in> set (hex_text g0). hex_char c" using hex_text_chars by blast
  show thesis
  proof (cases "l = 0 \<or> 1 < st")
    case True
    obtain u where "string6 gs = hex_text g0 @ CHR '':'' # u"
    proof (cases "l = 0")
      case True
      then show ?thesis using that Pair gs by (auto simp: string6_def)
    next
      case False
      then obtain n where "st = Suc (Suc n)" using True by (cases st; cases "st - 1") auto
      then show ?thesis using that Pair gs False by (auto simp: string6_def)
    qed
    then show ?thesis using that hex by blast
  next
    case False
    then consider "st = 0" | "st = Suc 0" by linarith
    then show ?thesis
    proof cases
      case 1
      then show ?thesis using that [of "[]"] Pair False by (auto simp: string6_def)
    next
      case 2
      then show ?thesis using that [of "hex_text g0"] hex Pair False gs by (auto simp: string6_def)
    qed
  qed
qed

lemma join_chars: "c \<in> set (join sep xs) \<Longrightarrow> c \<in> set sep \<or> (\<exists>x \<in> set xs. c \<in> set x)"
  by (induction sep xs rule: join.induct) auto

lemma string6_chars: "c \<in> set (string6 gs) \<Longrightarrow> hex_char c \<or> c = CHR '':''"
  by (auto simp: string6_def hex_text_chars split: prod.splits if_splits dest!: join_chars)

lemma takeWhile_zone:
  assumes "CHR ''%'' \<notin> set s"
  shows "takeWhile ((\<noteq>) CHR ''%'') (with_zone s zone) = s"
    "drop (Suc (length s)) (with_zone s zone) = zone"
    "CHR ''%'' \<in> set (with_zone s zone) \<longleftrightarrow> zone \<noteq> []"
proof -
  have all: "takeWhile ((\<noteq>) CHR ''%'') (s @ u) = s @ takeWhile ((\<noteq>) CHR ''%'') u" for u
    using assms by (induction s) auto
  show "takeWhile ((\<noteq>) CHR ''%'') (with_zone s zone) = s"
    using all [of "[]"] all [of "CHR ''%'' # zone"] by (simp add: with_zone_def)
  show "drop (Suc (length s)) (with_zone s zone) = zone" by (simp add: with_zone_def)
  show "CHR ''%'' \<in> set (with_zone s zone) \<longleftrightarrow> zone \<noteq> []" using assms by (simp add: with_zone_def)
qed

lemma find_append_first: "\<forall>c \<in> set p. \<not> P c \<Longrightarrow> P d \<Longrightarrow> find P (p @ d # t) = Some d"
  by (induction p) auto

lemma parseIPv6_string6:
  assumes "length gs = 8" "\<forall>g \<in> set gs. g < 65536"
  shows "parseIPv6 (with_zone (string6 gs) zone) = Some (Addr6 gs zone)"
proof -
  have "CHR ''%'' \<notin> set (string6 gs)" using string6_chars by fastforce
  note zone = takeWhile_zone [OF this, of zone]
  show ?thesis using ip6_text_reads [OF assms] unfolding parseIPv6_def Let_def zone
    by (auto split: if_splits)
qed

lemma ParseAddr_string6:
  assumes "length gs = 8" "\<forall>g \<in> set gs. g < 65536"
  shows "ParseAddr (with_zone (string6 gs) zone) = Some (Addr6 gs zone)"
proof -
  obtain p t where pt: "string6 gs = p @ CHR '':'' # t" "\<forall>c \<in> set p. hex_char c"
    by (rule string6_shape [OF assms(1)])
  obtain u where "with_zone (string6 gs) zone = p @ CHR '':'' # u"
    by (cases "zone = []") (auto simp: pt(1) with_zone_def)
  moreover have "\<forall>c \<in> set p. c \<notin> set ''.:%''" using pt(2) not_hex by auto
  ultimately have "find (\<lambda>c. c \<in> set ''.:%'') (with_zone (string6 gs) zone) = Some CHR '':''"
    using find_append_first [of p "\<lambda>c. c \<in> set ''.:%''" "CHR '':''" u] by simp
  then show ?thesis using parseIPv6_string6 [OF assms, of zone] by (simp add: ParseAddr_def)
qed

lemma octet_decimal: "b < 256 \<Longrightarrow> octet (decimal b) = Some b"
proof -
  assume b: "b < 256"
  have "hd (decimal b) = CHR ''0'' \<Longrightarrow> length (decimal b) = 1"
    using decimal_hd [of b] by (cases "b = 0") (simp_all add: decimal.simps [of 0])
  then show ?thesis using b digits_value_list [of b] by (auto simp: octet_def)
qed

lemma decimal_no_dot: "CHR ''.'' \<notin> set (decimal b)"
  using decimal_digits by (fastforce simp: char_between_def)

lemma parseIPv4Fields_string4:
  assumes "length bs = 4" "\<forall>b \<in> set bs. b < 256"
  shows "parseIPv4Fields (string4 bs) = Some bs"
proof -
  obtain a b c d where bs: "bs = [a, b, c, d]"
    using assms(1) by (auto simp: numeral_eq_Suc length_Suc_conv)
  have "split_at CHR ''.'' (string4 bs) = map decimal bs"
    using decimal_no_dot by (simp add: bs string4_def split_at_append split_at_absent)
  then show ?thesis using assms(2) by (simp add: parseIPv4Fields_def bs octet_decimal)
qed

lemma ParseAddr_string4:
  assumes "length bs = 4" "\<forall>b \<in> set bs. b < 256"
  shows "ParseAddr (string4 bs) = Some (Addr4 bs)"
proof -
  obtain a bs' where bs: "bs = a # bs'" "bs' \<noteq> []"
    using assms(1) by (cases bs; cases "tl bs") auto
  then obtain u where "string4 bs = decimal a @ CHR ''.'' # u" by (cases bs') (auto simp: string4_def)
  moreover have "\<forall>c \<in> set (decimal a). c \<notin> set ''.:%''"
    using decimal_digits by (fastforce simp: char_between_def)
  ultimately have "find (\<lambda>c. c \<in> set ''.:%'') (string4 bs) = Some CHR ''.''"
    using find_append_first [of "decimal a" "\<lambda>c. c \<in> set ''.:%''" "CHR ''.''" u] by simp
  then show ?thesis using parseIPv4Fields_string4 [OF assms] by (simp add: ParseAddr_def)
qed

theorem ParseAddr_String: "wf_addr a \<Longrightarrow> \<not> Is4In6 a \<Longrightarrow> ParseAddr (Addr_String a) = Some a"
  by (cases a) (auto simp: ParseAddr_string4 ParseAddr_string6)

section \<open>What is read is well formed\<close>

lemma option_list_Some: "option_list xs = Some ys \<longleftrightarrow> xs = map Some ys"
  by (induction xs arbitrary: ys rule: option_list.induct) auto

lemma parseIPv4Fields_wf:
  assumes "parseIPv4Fields s = Some bs"
  shows "length bs = 4" "\<forall>b \<in> set bs. b < 256"
proof -
  have m: "map octet (split_at CHR ''.'' s) = map Some bs" "length (split_at CHR ''.'' s) = 4"
    using assms by (auto simp: parseIPv4Fields_def Let_def option_list_Some split: if_splits)
  show "length bs = 4" using arg_cong [OF m(1), of length] m(2) by simp
  have "octet w = Some b \<Longrightarrow> b < 256" for w b by (auto simp: octet_def split: if_splits)
  then show "\<forall>b \<in> set bs. b < 256"
    by (metis (no_types, opaque_lifting) m(1) in_set_conv_nth length_map nth_map)
qed

lemma hex_number_less: "\<forall>c \<in> set s. hex_char c \<Longrightarrow> hex_number s < 16 ^ length s"
proof (induction s rule: rev_induct)
  case (snoc c s)
  obtain v where v: "hex_value c = Some v" using snoc.prems by (auto simp: hex_char_def)
  show ?case using snoc hex_value_less [OF v] v by simp
qed (simp add: hex_number_def)

lemma hex_group_less:
  assumes "length (takeWhile hex_char s) \<le> 4"
  shows "hex_number (takeWhile hex_char s) < 65536"
proof -
  have "hex_number (takeWhile hex_char s) < 16 ^ length (takeWhile hex_char s)"
    by (rule hex_number_less) (auto dest: set_takeWhileD)
  also have "\<dots> \<le> (16 :: nat) ^ 4" by (rule power_increasing) (use assms in auto)
  finally show ?thesis by simp
qed

lemma groups_of_wf:
  assumes "length bs = 4" "\<forall>b \<in> set bs. b < 256"
  shows "length (groups_of bs) = 2" "\<forall>g \<in> set (groups_of bs). g < 65536"
proof -
  obtain a b c d where bs: "bs = [a, b, c, d]"
    using assms(1) by (auto simp: numeral_eq_Suc length_Suc_conv)
  have "a < 256" "b < 256" "c < 256" "d < 256" using assms(2) bs by auto
  then have "a * 256 + b < 65536" "c * 256 + d < 65536" by linarith+
  then show "length (groups_of bs) = 2" "\<forall>g \<in> set (groups_of bs). g < 65536" by (simp_all add: bs)
qed

lemma ip6_groups_wf:
  assumes "ip6_groups k s acc e = Some (acc', e', r)" "\<forall>g \<in> set acc. g < 65536"
    and "length acc + k = 8"
  shows "(\<forall>g \<in> set acc'. g < 65536) \<and> length acc' \<le> 8"
  using assms
proof (induction k s acc e rule: ip6_groups.induct)
  case (1 s acc e)
  then show ?case by (simp add: ip6_groups.simps)
next
  case (2 k s acc e)
  let ?h = "takeWhile hex_char s" and ?g = "acc @ [hex_number (takeWhile hex_char s)]"
  have h: "?h \<noteq> []" "length ?h \<le> 4"
    using 2(3) by (auto simp: ip6_groups.simps Let_def split: if_splits)
  have g: "\<forall>g \<in> set ?g. g < 65536" "length ?g + k = 8" using hex_group_less [OF h(2)] 2(4,5) by auto
  show ?case
  proof (cases "dropWhile hex_char s")
    case Nil
    show ?thesis using 2(3) [unfolded ip6_groups.simps Let_def Nil] h g by auto
  next
    case (Cons c t)
    note eqs = 2(3) [unfolded ip6_groups.simps Let_def Cons]
    show ?thesis
    proof (cases "c = CHR ''.''")
      case True
      then obtain bs where bs: "parseIPv4Fields s = Some bs" "acc' = acc @ groups_of bs" "length acc + 2 \<le> 8"
        using eqs h by (auto split: if_splits)
      then show ?thesis using groups_of_wf [OF parseIPv4Fields_wf [OF bs(1)]] 2(4) by auto
    next
      case False
      then obtain c2 u where c: "c = CHR '':''" "t = c2 # u"
        using eqs h by (auto split: if_splits list.splits)
      show ?thesis
      proof (cases "c2 = CHR '':''")
        case True
        then have e: "e = None" using eqs h c by (simp split: if_splits)
        show ?thesis
        proof (cases "u = []")
          case True
          then have "acc' = ?g" using eqs h c e \<open>c2 = CHR '':''\<close> by simp
          then show ?thesis using g by simp
        next
          case False
          then have "ip6_groups k u ?g (Some (length ?g)) = Some (acc', e', r)"
            using eqs h c e \<open>c2 = CHR '':''\<close> by simp
          then show ?thesis using 2(2) [OF refl refl refl _ Cons _ _ c(2)] h c e g False \<open>c2 = CHR '':''\<close>
            by simp
        qed
      next
        case False
        then have "ip6_groups k t ?g e = Some (acc', e', r)" using eqs h c by simp
        then show ?thesis using 2(1) [OF refl refl refl _ Cons _ _ c(2)] h c g False by simp
      qed
    qed
  qed
qed


lemma ip6_finish_wf:
  assumes "ip6_finish (acc, e, r) = Some gs" "\<forall>g \<in> set acc. g < 65536" "length acc \<le> 8"
    "\<forall>j. e = Some j \<longrightarrow> j \<le> length acc"
  shows "length gs = 8" "\<forall>g \<in> set gs. g < 65536"
proof -
  have sub: "\<And>j x. x \<in> set (take j acc) \<Longrightarrow> x \<in> set acc" "\<And>j x. x \<in> set (drop j acc) \<Longrightarrow> x \<in> set acc"
    by (meson in_set_takeD in_set_dropD)+
  show "length gs = 8" "\<forall>g \<in> set gs. g < 65536"
    using assms sub by (auto simp: ip6_finish_def split: if_splits)
qed

lemma ip6_ellipsis_within:
  assumes "ip6_groups k s acc e = Some (acc', e', r)" "\<forall>j. e = Some j \<longrightarrow> j \<le> length acc"
  shows "\<forall>j. e' = Some j \<longrightarrow> j \<le> length acc'"
  using assms
proof (induction k s acc e rule: ip6_groups.induct)
  case (1 s acc e)
  then show ?case by (simp add: ip6_groups.simps)
next
  case (2 k s acc e)
  let ?h = "takeWhile hex_char s" and ?g = "acc @ [hex_number (takeWhile hex_char s)]"
  have h: "?h \<noteq> []" "length ?h \<le> 4"
    using 2(3) by (auto simp: ip6_groups.simps Let_def split: if_splits)
  have e: "\<forall>j. e = Some j \<longrightarrow> j \<le> length ?g" using 2(4) by auto
  show ?case
  proof (cases "dropWhile hex_char s")
    case Nil
    show ?thesis using 2(3) [unfolded ip6_groups.simps Let_def Nil] h e by auto
  next
    case (Cons c t)
    note eqs = 2(3) [unfolded ip6_groups.simps Let_def Cons]
    show ?thesis
    proof (cases "c = CHR ''.''")
      case True
      then obtain bs where "acc' = acc @ groups_of bs" "e' = e" using eqs h by (auto split: if_splits)
      then show ?thesis using 2(4) by auto
    next
      case False
      then obtain c2 u where c: "c = CHR '':''" "t = c2 # u"
        using eqs h by (auto split: if_splits list.splits)
      consider "c2 \<noteq> CHR '':''" | "c2 = CHR '':''" "e = None" "u = []"
        | "c2 = CHR '':''" "e = None" "u \<noteq> []"
        using eqs h c by (auto split: if_splits)
      then show ?thesis
      proof cases
        case 1
        then have "ip6_groups k t ?g e = Some (acc', e', r)" using eqs h c by simp
        then show ?thesis using 2(1) [OF refl refl refl _ Cons _ _ c(2)] h c e 1 by simp
      next
        case 2
        then show ?thesis using eqs h c by auto
      next
        case 3
        then have "ip6_groups k u ?g (Some (length ?g)) = Some (acc', e', r)" using eqs h c by simp
        then show ?thesis using 2(2) [OF refl refl refl _ Cons _ _ c(2)] h c 3 by simp
      qed
    qed
  qed
qed

lemma ip6_reads_wf:
  assumes "Option.bind (ip6_groups 8 s [] e) ip6_finish = Some gs" "e = None \<or> e = Some 0"
  shows "length gs = 8" "\<forall>g \<in> set gs. g < 65536"
proof -
  obtain acc e' r where r: "ip6_groups 8 s [] e = Some (acc, e', r)" "ip6_finish (acc, e', r) = Some gs"
    using assms(1) by (auto split: bind_splits)
  have "\<forall>g \<in> set acc. g < 65536" "length acc \<le> 8" using ip6_groups_wf [OF r(1)] by auto
  moreover have "\<forall>j. e' = Some j \<longrightarrow> j \<le> length acc"
    using ip6_ellipsis_within [OF r(1)] assms(2) by auto
  ultimately show "length gs = 8" "\<forall>g \<in> set gs. g < 65536" using ip6_finish_wf [OF r(2)] by auto
qed

lemma parseIPv6_wf: "parseIPv6 s = Some a \<Longrightarrow> wf_addr a"
  by (auto simp: parseIPv6_def Let_def ip6_reads_wf split: if_splits)

lemma ParseAddr_wf: "ParseAddr s = Some a \<Longrightarrow> wf_addr a"
  using parseIPv6_wf parseIPv4Fields_wf by (fastforce simp: ParseAddr_def split: option.splits if_splits)

lemma normalizeIPAddr_wf:
  assumes "wf_addr a"
  shows "wf_addr (normalizeIPAddr a)"
proof (cases "Is4In6 a")
  case True
  then obtain gs z where a: "a = Addr6 gs z" by (cases a) auto
  then have "gs ! 6 < 65536" "gs ! 7 < 65536" using assms by auto
  then have "gs ! 6 div 256 < 256" "gs ! 7 div 256 < 256" by linarith+
  then show ?thesis using True a by (simp add: normalizeIPAddr_def octets_of_def)
qed (use assms in \<open>simp add: normalizeIPAddr_def\<close>)

lemma normalizeIPAddr_not_mapped: "\<not> Is4In6 (normalizeIPAddr a)"
  by (cases a) (auto simp: normalizeIPAddr_def)

lemma normalizeIPAddr_idem: "normalizeIPAddr (normalizeIPAddr a) = normalizeIPAddr a"
  using normalizeIPAddr_not_mapped [of a] by (subst normalizeIPAddr_def) simp

text \<open>The canonical text of an address: what the program keeps in place of the text it was given.\<close>

definition canonical_ip :: "string \<Rightarrow> string option" where
  "canonical_ip s = map_option (\<lambda>a. Addr_String (normalizeIPAddr a)) (ParseAddr s)"

lemma ParseAddr_canonical:
  "ParseAddr s = Some a \<Longrightarrow> ParseAddr (Addr_String (normalizeIPAddr a)) = Some (normalizeIPAddr a)"
  by (rule ParseAddr_String [OF normalizeIPAddr_wf [OF ParseAddr_wf] normalizeIPAddr_not_mapped])

lemma canonical_ip_idem: "canonical_ip s = Some t \<Longrightarrow> canonical_ip t = Some t"
  by (auto simp: canonical_ip_def ParseAddr_canonical normalizeIPAddr_idem)

lemma canonical_ip_same:
  assumes "ParseAddr s = Some a" "ParseAddr s' = Some b"
  shows "canonical_ip s = canonical_ip s' \<longleftrightarrow> normalizeIPAddr a = normalizeIPAddr b"
proof -
  have "Addr_String (normalizeIPAddr a) = Addr_String (normalizeIPAddr b) \<Longrightarrow>
      Some (normalizeIPAddr a) = Some (normalizeIPAddr b)"
    unfolding ParseAddr_canonical [OF assms(1), symmetric] ParseAddr_canonical [OF assms(2), symmetric] by simp
  then show ?thesis by (auto simp: canonical_ip_def assms)
qed

end
