(* ===== verification/Config.thy ===== *)
theory Config
  imports Email IPAddr Json
begin

text \<open>
  The configuration: \<open>internal/config/config.go\<close>, \<open>secrets.go\<close> and \<open>domain_mapping.go\<close>. The records
  are the structs of the YAML file; an optional \<open>enabled\<close> is a \<open>bool option\<close>, a map that the code
  iterates an association list. \<open>LoadFile\<close> takes the file system and the decoder of
  \<open>gopkg.in/yaml.v3\<close> as arguments; \<open>path/filepath\<close> is modelled for Unix.
\<close>

section \<open>The structs\<close>

text \<open>The map from recipient domains to channels, in the order Go visits it.\<close>

type_synonym RoutePolicyConfig = "(string \<times> string list) list"

record ServerConfig =
  server_Listen :: string
  server_ReadTimeoutSeconds :: int
  server_ReadHeaderTimeoutSeconds :: int
  server_WriteTimeoutSeconds :: int
  server_IdleTimeoutSeconds :: int
  server_TrustedProxies :: "string list"

record RuntimeConfig =
  runtime_ConfigStore :: string
  runtime_Queue :: string
  runtime_RateLimiter :: string
  runtime_MessageLog :: string
  runtime_Stats :: string
  runtime_Suppression :: string

record DefaultsConfig =
  defaults_ProviderTimeoutSeconds :: int
  defaults_MaxAttemptsPerMessage :: int
  defaults_RetryBackoffSeconds :: "int list"
  defaults_MemoryQueueSize :: int
  defaults_WorkerConcurrency :: int
  defaults_IdempotencyCacheSize :: int
  defaults_IdempotencyTTLHours :: int
  defaults_MaxRequestBodyBytes :: int
  defaults_MaxTemplateVarBytes :: int
  defaults_MaxContextBytes :: int

record APIKeyConfig =
  akc_Name :: string
  akc_Enabled :: "bool option"
  akc_KeyRef :: string

record TemplateConfig =
  tc_Code :: string
  tc_Locale :: string
  tc_Enabled :: "bool option"
  tc_Subject :: string
  tc_RequiredVars :: "string list"
  tc_HTMLBody :: string
  tc_TextBody :: string

record RateLimitConfig =
  rlc_SameEmailPerMinute :: int
  rlc_SameEmailPerDay :: int
  rlc_SameUserIPPerHour :: int
  rlc_SameCallerIPPerHour :: int

record SceneConfig =
  sc_Code :: string
  sc_Name :: string
  sc_Enabled :: "bool option"
  sc_Template :: string
  sc_RateLimit :: RateLimitConfig
  sc_RoutePolicy :: RoutePolicyConfig

record AppConfig =
  ac_Code :: string
  ac_Name :: string
  ac_Enabled :: "bool option"
  ac_DefaultLocale :: string
  ac_AllowedLocales :: "string list"
  ac_APIKeys :: "APIKeyConfig list"
  ac_Templates :: "TemplateConfig list"
  ac_Scenes :: "SceneConfig list"

record ProviderAccountConfig =
  pac_Code :: string
  pac_Provider :: Provider
  pac_Enabled :: "bool option"
  pac_Credentials :: "(string \<times> string) list"

record SMTPConfig =
  smtpc_Host :: string
  smtpc_Port :: int
  smtpc_Username :: string
  smtpc_PasswordRef :: string

record ProviderChannelConfig =
  pcc_Code :: string
  pcc_Account :: string
  pcc_Transport :: Transport
  pcc_Enabled :: "bool option"
  pcc_SenderDomain :: string
  pcc_FromName :: string
  pcc_From :: string
  pcc_SMTP :: "SMTPConfig option"

record WebhookConfig =
  webhook_Enabled :: bool
  webhook_SharedSecretRef :: string
  webhook_ResendSecretRef :: string
  webhook_BrevoTokenRef :: string

record LoggingConfig =
  logging_Dir :: string
  logging_MaxFileSizeMB :: int
  logging_MaxBackups :: int

record Config =
  cfg_SourcePath :: string
  cfg_BaseDir :: string
  cfg_SuppressionFile :: string
  cfg_Server :: ServerConfig
  cfg_Runtime :: RuntimeConfig
  cfg_Defaults :: DefaultsConfig
  cfg_Apps :: "AppConfig list"
  cfg_ProviderAccounts :: "ProviderAccountConfig list"
  cfg_ProviderChannels :: "ProviderChannelConfig list"
  cfg_Webhooks :: WebhookConfig
  cfg_Logging :: LoggingConfig

definition EnabledValue :: "bool option \<Rightarrow> bool" where
  "EnabledValue enabled = (case enabled of None \<Rightarrow> True | Some b \<Rightarrow> b)"

section \<open>Defaults\<close>

definition defaultRetryBackoffSeconds :: "int list" where
  "defaultRetryBackoffSeconds = [0, 30, 120]"

definition defaultRetryBackoffForAttempts :: "int \<Rightarrow> int list" where
  "defaultRetryBackoffForAttempts maxAttempts =
     (if 0 < maxAttempts \<and> maxAttempts \<le> int (length defaultRetryBackoffSeconds)
      then take (nat maxAttempts) defaultRetryBackoffSeconds
      else defaultRetryBackoffSeconds)"

text \<open>The assignment \<open>if x == zero { x = d }\<close> of each field.\<close>

definition or_default :: "'a \<Rightarrow> 'a \<Rightarrow> 'a \<Rightarrow> 'a" where
  "or_default zero d x = (if x = zero then d else x)"

definition default_server :: "ServerConfig \<Rightarrow> ServerConfig" where
  "default_server s = s\<lparr>
     server_Listen := or_default [] '':8080'' (server_Listen s),
     server_ReadTimeoutSeconds := or_default 0 10 (server_ReadTimeoutSeconds s),
     server_ReadHeaderTimeoutSeconds := or_default 0 5 (server_ReadHeaderTimeoutSeconds s),
     server_WriteTimeoutSeconds := or_default 0 15 (server_WriteTimeoutSeconds s),
     server_IdleTimeoutSeconds := or_default 0 60 (server_IdleTimeoutSeconds s)\<rparr>"

definition default_runtime :: "RuntimeConfig \<Rightarrow> RuntimeConfig" where
  "default_runtime r = r\<lparr>
     runtime_ConfigStore := or_default [] ''file'' (runtime_ConfigStore r),
     runtime_Queue := or_default [] ''memory'' (runtime_Queue r),
     runtime_RateLimiter := or_default [] ''memory'' (runtime_RateLimiter r),
     runtime_MessageLog := or_default [] ''file'' (runtime_MessageLog r),
     runtime_Stats := or_default [] ''off'' (runtime_Stats r),
     runtime_Suppression := or_default [] ''file'' (runtime_Suppression r)\<rparr>"

definition default_defaults :: "DefaultsConfig \<Rightarrow> DefaultsConfig" where
  "default_defaults d = d\<lparr>
     defaults_ProviderTimeoutSeconds := or_default 0 10 (defaults_ProviderTimeoutSeconds d),
     defaults_MaxAttemptsPerMessage := or_default 0 3 (defaults_MaxAttemptsPerMessage d),
     defaults_RetryBackoffSeconds :=
       or_default [] (defaultRetryBackoffForAttempts (or_default 0 3 (defaults_MaxAttemptsPerMessage d)))
         (defaults_RetryBackoffSeconds d),
     defaults_MemoryQueueSize := or_default 0 1000 (defaults_MemoryQueueSize d),
     defaults_WorkerConcurrency := or_default 0 4 (defaults_WorkerConcurrency d),
     defaults_IdempotencyCacheSize := or_default 0 10000 (defaults_IdempotencyCacheSize d),
     defaults_IdempotencyTTLHours := or_default 0 24 (defaults_IdempotencyTTLHours d),
     defaults_MaxRequestBodyBytes := or_default 0 65536 (defaults_MaxRequestBodyBytes d),
     defaults_MaxTemplateVarBytes := or_default 0 8192 (defaults_MaxTemplateVarBytes d),
     defaults_MaxContextBytes := or_default 0 4096 (defaults_MaxContextBytes d)\<rparr>"

definition default_logging :: "LoggingConfig \<Rightarrow> LoggingConfig" where
  "default_logging l = l\<lparr>
     logging_Dir := or_default [] ''data/logs'' (logging_Dir l),
     logging_MaxFileSizeMB := or_default 0 100 (logging_MaxFileSizeMB l),
     logging_MaxBackups := or_default 0 5 (logging_MaxBackups l)\<rparr>"

definition applyDefaults :: "Config \<Rightarrow> Config" where
  "applyDefaults c = c\<lparr>
     cfg_Server := default_server (cfg_Server c),
     cfg_Runtime := default_runtime (cfg_Runtime c),
     cfg_Defaults := default_defaults (cfg_Defaults c),
     cfg_Logging := default_logging (cfg_Logging c),
     cfg_SuppressionFile := or_default [] ''data/suppression.yaml'' (cfg_SuppressionFile c)\<rparr>"

section \<open>Paths\<close>

text \<open>
  \<open>filepath.Clean\<close>: the elements are pushed on a stack, empty ones and \<open>.\<close> left out, and \<open>..\<close> takes
  the element before it away, unless there is none to take.
\<close>

definition clean_step :: "bool \<Rightarrow> string list \<Rightarrow> string \<Rightarrow> string list" where
  "clean_step rooted out c =
     (if c = [] \<or> c = ''.'' then out
      else if c = ''..'' then
        (case out of
           [] \<Rightarrow> if rooted then [] else [c]
         | d # ds \<Rightarrow> if d = ''..'' then c # out else ds)
      else c # out)"

definition Clean :: "string \<Rightarrow> string" where
  "Clean p =
     (if p = [] then ''.''
      else let rooted = (hd p = CHR ''/'');
               s = (if rooted then ''/'' else []) @
                   join ''/'' (rev (foldl (clean_step rooted) [] (split_at CHR ''/'' p)))
           in if s = [] then ''.'' else s)"

definition IsAbs :: "string \<Rightarrow> bool" where
  "IsAbs p = HasPrefix p ''/''"

text \<open>\<open>filepath.Join\<close> of two elements and \<open>filepath.Dir\<close>.\<close>

definition Join :: "string \<Rightarrow> string \<Rightarrow> string" where
  "Join a b = (if a = [] \<and> b = [] then [] else if a = [] then Clean b else Clean (a @ ''/'' @ b))"

definition Dir :: "string \<Rightarrow> string" where
  "Dir p = Clean (rev (dropWhile ((\<noteq>) CHR ''/'') (rev p)))"

definition resolvePath :: "string \<Rightarrow> string \<Rightarrow> string" where
  "resolvePath baseDir targetPath =
     (if targetPath = [] then targetPath
      else if IsAbs targetPath then Clean targetPath
      else Clean (Join baseDir targetPath))"

definition plainSecretPrefix :: string where "plainSecretPrefix = ''plain:''"
definition envSecretPrefix :: string where "envSecretPrefix = ''env:''"
definition fileSecretPrefix :: string where "fileSecretPrefix = ''file:''"

text \<open>\<open>strings.EqualFold\<close> where one of the two texts is ASCII.\<close>

definition EqualFold :: "string \<Rightarrow> string \<Rightarrow> bool" where
  "EqualFold s t \<longleftrightarrow> fold_name s = fold_name t"

definition TrimPrefix :: "string \<Rightarrow> string \<Rightarrow> string" where
  "TrimPrefix s p = (if HasPrefix s p then drop (length p) s else s)"

definition TrimSuffix :: "string \<Rightarrow> string \<Rightarrow> string" where
  "TrimSuffix s p = (if HasSuffix s p then take (length s - length p) s else s)"

definition resolveSecretFileRef :: "string \<Rightarrow> string \<Rightarrow> string" where
  "resolveSecretFileRef baseDir ref =
     (if \<not> HasPrefix ref fileSecretPrefix then ref
      else let secretPath = TrimPrefix ref fileSecretPrefix
           in if secretPath = [] then ref else fileSecretPrefix @ resolvePath baseDir secretPath)"

definition resolveRelativePaths :: "Config \<Rightarrow> Config" where
  "resolveRelativePaths c =
     (let secret = resolveSecretFileRef (cfg_BaseDir c)
      in c\<lparr>
        cfg_Logging := (cfg_Logging c)\<lparr>logging_Dir := resolvePath (cfg_BaseDir c) (logging_Dir (cfg_Logging c))\<rparr>,
        cfg_SuppressionFile := resolvePath (cfg_BaseDir c) (cfg_SuppressionFile c),
        cfg_Webhooks := (cfg_Webhooks c)\<lparr>
          webhook_SharedSecretRef := secret (webhook_SharedSecretRef (cfg_Webhooks c)),
          webhook_ResendSecretRef := secret (webhook_ResendSecretRef (cfg_Webhooks c)),
          webhook_BrevoTokenRef := secret (webhook_BrevoTokenRef (cfg_Webhooks c))\<rparr>,
        cfg_Apps := List.map (\<lambda>app. app\<lparr>ac_APIKeys :=
          List.map (\<lambda>key. key\<lparr>akc_KeyRef := secret (akc_KeyRef key)\<rparr>) (ac_APIKeys app)\<rparr>) (cfg_Apps c),
        cfg_ProviderAccounts := List.map (\<lambda>account. account\<lparr>pac_Credentials :=
          List.map (\<lambda>(name, v). (name, secret v)) (pac_Credentials account)\<rparr>) (cfg_ProviderAccounts c),
        cfg_ProviderChannels := List.map (\<lambda>channel. channel\<lparr>pcc_SMTP :=
          map_option (\<lambda>smtp. smtp\<lparr>smtpc_PasswordRef := secret (smtpc_PasswordRef smtp)\<rparr>)
            (pcc_SMTP channel)\<rparr>) (cfg_ProviderChannels c)\<rparr>)"

section \<open>Loading\<close>

text \<open>
  The operating system as far as the configuration reads it, and what the YAML decoder answers: the
  first document of the file as a configuration (unknown fields are an error), and what follows it.
\<close>

datatype yaml_next = NextEOF | NextDocument | NextError go_error

record config_env =
  env_Getwd :: "string result"
  env_ReadFile :: "string \<Rightarrow> string result"
  env_LookupEnv :: "string \<Rightarrow> string option"
  env_DecodeConfig :: "string \<Rightarrow> Config result"
  env_DecodeNext :: "string \<Rightarrow> yaml_next"

definition Abs :: "config_env \<Rightarrow> string \<Rightarrow> string result" where
  "Abs env p =
     (if IsAbs p then Inr (Clean p)
      else case env_Getwd env of Inl e \<Rightarrow> Inl e | Inr wd \<Rightarrow> Inr (Join wd p))"

definition wrapped :: "string \<Rightarrow> 'a result \<Rightarrow> 'a result" where
  "wrapped message r = (case r of Inl e \<Rightarrow> Inl (Wrapf message e) | Inr x \<Rightarrow> Inr x)"

definition LoadFile :: "config_env \<Rightarrow> string \<Rightarrow> Config result" where
  "LoadFile env configPath =
     (if TrimSpace configPath = [] then Inl (Errorf ''config path is required'')
      else
        and_then (wrapped ''resolve config path'' (Abs env configPath)) (\<lambda>absolutePath.
        and_then (wrapped ''read config file'' (env_ReadFile env absolutePath)) (\<lambda>data.
        and_then (wrapped ''parse config file'' (env_DecodeConfig env data)) (\<lambda>cfg.
          case env_DecodeNext env data of
            NextDocument \<Rightarrow> Inl (Errorf ''parse config file: config file must contain a single YAML document'')
          | NextError e \<Rightarrow> Inl (Wrapf ''parse config file'' e)
          | NextEOF \<Rightarrow>
              Inr (resolveRelativePaths (applyDefaults
                (cfg\<lparr>cfg_SourcePath := absolutePath, cfg_BaseDir := Dir absolutePath\<rparr>)))))))"

section \<open>Secrets\<close>

record ValidationWarning =
  warn_Code :: string
  warn_Path :: string
  warn_Message :: string

record ResolvedSecret =
  secret_Value :: string
  secret_Warnings :: "ValidationWarning list"

text \<open>The interface \<open>SecretResolver\<close> and its implementation \<open>FileSecretResolver\<close>.\<close>

type_synonym SecretResolver = "string \<Rightarrow> ResolvedSecret result"

definition resolvePlainSecret :: "string \<Rightarrow> ResolvedSecret" where
  "resolvePlainSecret ref =
     \<lparr>secret_Value = TrimPrefix ref plainSecretPrefix,
      secret_Warnings = [\<lparr>warn_Code = ''plain_secret_ref'', warn_Path = [],
        warn_Message = ''plain secret references are allowed for local examples but should not be used in production''\<rparr>]\<rparr>"

definition resolveEnvSecret :: "config_env \<Rightarrow> string \<Rightarrow> ResolvedSecret result" where
  "resolveEnvSecret env ref =
     (let name = TrimPrefix ref envSecretPrefix
      in if name = [] then Inl (Errorf ''environment secret reference is missing a variable name'')
         else case env_LookupEnv env name of
                None \<Rightarrow> Inl (Errorf ''environment variable is not set'')
              | Some v \<Rightarrow> Inr \<lparr>secret_Value = v, secret_Warnings = []\<rparr>)"

definition newline :: string where "newline = [char_of (10::nat)]"
definition crlf :: string where "crlf = [char_of (13::nat), char_of (10::nat)]"

definition trimOneTrailingNewline :: "string \<Rightarrow> string" where
  "trimOneTrailingNewline v =
     (if HasSuffix v crlf then TrimSuffix v crlf
      else if HasSuffix v newline then TrimSuffix v newline
      else v)"

definition resolveFileSecret :: "config_env \<Rightarrow> string \<Rightarrow> ResolvedSecret result" where
  "resolveFileSecret env ref =
     (let path = TrimPrefix ref fileSecretPrefix
      in if path = [] then Inl (Errorf ''file secret reference is missing a path'')
         else and_then (wrapped ''read file secret'' (env_ReadFile env path)) (\<lambda>data.
                Inr \<lparr>secret_Value = trimOneTrailingNewline data, secret_Warnings = []\<rparr>))"

definition FileSecretResolver :: "config_env \<Rightarrow> SecretResolver" where
  "FileSecretResolver env ref =
     (if HasPrefix ref plainSecretPrefix then Inr (resolvePlainSecret ref)
      else if HasPrefix ref envSecretPrefix then resolveEnvSecret env ref
      else if HasPrefix ref fileSecretPrefix then resolveFileSecret env ref
      else Inl (Errorf ''unsupported secret reference scheme''))"

section \<open>The domain values\<close>

definition DomainRateLimitPolicy :: "RateLimitConfig \<Rightarrow> RateLimitPolicy" where
  "DomainRateLimitPolicy r =
     \<lparr>SameEmailPerMinute = rlc_SameEmailPerMinute r, SameEmailPerDay = rlc_SameEmailPerDay r,
      SameUserIPPerHour = rlc_SameUserIPPerHour r, SameCallerIPPerHour = rlc_SameCallerIPPerHour r\<rparr>"

definition DomainRoutePolicy :: "RoutePolicyConfig \<Rightarrow> RoutePolicy" where
  "DomainRoutePolicy policy = map_of policy"

definition scene_from_config :: "SceneConfig \<Rightarrow> Scene" where
  "scene_from_config s =
     \<lparr>scene_Code = sc_Code s, scene_Name = sc_Name s, scene_Enabled = EnabledValue (sc_Enabled s),
      scene_Template = sc_Template s, scene_RateLimit = DomainRateLimitPolicy (sc_RateLimit s),
      scene_RoutePolicy = DomainRoutePolicy (sc_RoutePolicy s)\<rparr>"

definition template_from_config :: "TemplateConfig \<Rightarrow> Template" where
  "template_from_config t =
     \<lparr>tmpl_Code = tc_Code t, tmpl_Locale = tc_Locale t, tmpl_Enabled = EnabledValue (tc_Enabled t),
      tmpl_Subject = tc_Subject t, tmpl_RequiredVars = tc_RequiredVars t,
      tmpl_HTMLBody = tc_HTMLBody t, tmpl_TextBody = tc_TextBody t\<rparr>"

definition DomainAppFromConfig :: "AppConfig \<Rightarrow> APIKeyMetadata list \<Rightarrow> App" where
  "DomainAppFromConfig a apiKeys =
     \<lparr>app_Code = ac_Code a, app_Name = ac_Name a, app_Enabled = EnabledValue (ac_Enabled a),
      app_DefaultLocale = ac_DefaultLocale a, app_AllowedLocales = ac_AllowedLocales a,
      app_APIKeys = apiKeys, app_Scenes = List.map scene_from_config (ac_Scenes a),
      app_Templates = List.map template_from_config (ac_Templates a)\<rparr>"

section \<open>Resolved paths are clean and absolute\<close>

text \<open>What the stack of \<open>Clean\<close> holds: proper elements over the \<open>..\<close> that had nothing to take away.\<close>

definition proper :: "string \<Rightarrow> bool" where
  "proper c \<longleftrightarrow> c \<noteq> [] \<and> c \<noteq> ''.'' \<and> c \<noteq> ''..'' \<and> CHR ''/'' \<notin> set c"

definition clean_stack :: "bool \<Rightarrow> string list \<Rightarrow> bool" where
  "clean_stack rooted out \<longleftrightarrow>
     (\<exists>names ups. out = names @ ups \<and> list_all proper names \<and> set ups \<subseteq> {''..''} \<and> (rooted \<longrightarrow> ups = []))"

lemma clean_stack_Nil: "clean_stack rooted []"
  unfolding clean_stack_def by (intro exI [of _ "[]"]) simp

lemma clean_step_stack:
  assumes "clean_stack rooted out" "CHR ''/'' \<notin> set c"
  shows "clean_stack rooted (clean_step rooted out c)"
proof -
  obtain names ups where o: "out = names @ ups" "list_all proper names" "set ups \<subseteq> {''..''}"
      "rooted \<longrightarrow> ups = []"
    using assms(1) by (auto simp: clean_stack_def)
  show ?thesis
  proof (cases names)
    case Nil
    then have "clean_stack rooted (clean_step rooted out c)" if "proper c"
      unfolding clean_stack_def using o that
      by (intro exI [of _ "[c]"] exI [of _ ups]) (auto simp: clean_step_def proper_def)
    moreover have "clean_stack rooted (clean_step rooted out c)" if "c = ''..''"
      unfolding clean_stack_def using o that Nil
      by (intro exI [of _ "[]"] exI [of _ "clean_step rooted out c"])
        (cases ups; auto simp: clean_step_def)
    moreover have "clean_stack rooted (clean_step rooted out c)" if "c = [] \<or> c = ''.''"
      using assms(1) that by (auto simp: clean_step_def)
    ultimately show ?thesis using assms(2) by (auto simp: proper_def)
  next
    case (Cons n ns)
    have "clean_stack rooted (clean_step rooted out c)" if "proper c"
      unfolding clean_stack_def using o that Cons
      by (intro exI [of _ "c # names"] exI [of _ ups]) (auto simp: clean_step_def proper_def)
    moreover have "clean_stack rooted (clean_step rooted out c)" if "c = ''..''"
      unfolding clean_stack_def using o that Cons
      by (intro exI [of _ ns] exI [of _ ups]) (auto simp: clean_step_def proper_def)
    moreover have "clean_stack rooted (clean_step rooted out c)" if "c = [] \<or> c = ''.''"
      using assms(1) that by (auto simp: clean_step_def)
    ultimately show ?thesis using assms(2) by (auto simp: proper_def)
  qed
qed

lemma clean_fold_stack:
  "clean_stack rooted out \<Longrightarrow> (\<And>c. c \<in> set cs \<Longrightarrow> CHR ''/'' \<notin> set c) \<Longrightarrow>
   clean_stack rooted (foldl (clean_step rooted) out cs)"
  by (induction cs arbitrary: out) (auto intro: clean_step_stack)

lemma clean_fold_ups:
  "set ups \<subseteq> {''..''} \<Longrightarrow> foldl (clean_step False) (replicate n ''..'') ups = replicate (length ups + n) ''..''"
proof (induction ups arbitrary: n)
  case (Cons u us)
  have "clean_step False (replicate n ''..'') u = replicate (Suc n) ''..''"
    using Cons.prems by (cases n) (auto simp: clean_step_def)
  then show ?case using Cons.IH [of "Suc n"] Cons.prems by simp
qed simp

lemma clean_fold_names:
  "list_all proper names \<Longrightarrow> foldl (clean_step rooted) out names = rev names @ out"
  by (induction names arbitrary: out) (auto simp: clean_step_def proper_def)

lemma clean_fold_fix:
  assumes "clean_stack rooted out"
  shows "foldl (clean_step rooted) [] (rev out) = out"
proof -
  obtain names ups where o: "out = names @ ups" "list_all proper names" "set ups \<subseteq> {''..''}"
      "rooted \<longrightarrow> ups = []"
    using assms by (auto simp: clean_stack_def)
  have ups: "rev ups = replicate (length ups) ''..''" "ups = replicate (length ups) ''..''"
    using o(3) by (auto intro!: replicate_eqI)
  have "foldl (clean_step rooted) [] (rev ups) = ups"
  proof (cases rooted)
    case False
    then show ?thesis using clean_fold_ups [of "rev ups" 0] o(3) ups by simp
  qed (use o(4) in simp)
  then show ?thesis using o(1) clean_fold_names [of "rev names" rooted ups] o(2)
    by (simp add: list_all_iff)
qed

lemma split_at_join:
  "ws \<noteq> [] \<Longrightarrow> (\<And>w. w \<in> set ws \<Longrightarrow> d \<notin> set w) \<Longrightarrow> split_at d (join [d] ws) = ws"
proof (induction ws)
  case (Cons w ws)
  then show ?case by (cases ws) (auto simp: split_at_absent split_at_append)
qed simp

lemma Clean_stack:
  "clean_stack (hd p = CHR ''/'') (foldl (clean_step (hd p = CHR ''/'')) [] (split_at CHR ''/'' p))"
proof (rule clean_fold_stack)
  show "clean_stack (hd p = CHR ''/'') []" by (rule clean_stack_Nil)
  show "c \<in> set (split_at CHR ''/'' p) \<Longrightarrow> CHR ''/'' \<notin> set c" for c
    by (drule split_at_pieces) (rule conjunct1)
qed

lemma clean_stack_elements:
  assumes "clean_stack rooted out" "c \<in> set out"
  shows "CHR ''/'' \<notin> set c" "c \<noteq> []" "c \<noteq> ''.''"
proof -
  obtain names ups where o: "out = names @ ups" "list_all proper names" "set ups \<subseteq> {''..''}"
    using assms(1) unfolding clean_stack_def by blast
  then consider "proper c" | "c = ''..''" using assms(2) by (auto simp: list_all_iff)
  then show "CHR ''/'' \<notin> set c" "c \<noteq> []" "c \<noteq> ''.''" by (cases; simp add: proper_def)+
qed

lemma join_hd: "ws \<noteq> [] \<Longrightarrow> hd ws \<noteq> [] \<Longrightarrow> hd (join sep ws) = hd (hd ws) \<and> join sep ws \<noteq> []"
  by (induction sep ws rule: join.induct) auto

lemma clean_stack_join:
  assumes "clean_stack rooted out" "out \<noteq> []"
  shows "hd (join ''/'' (rev out)) \<noteq> CHR ''/''" "join ''/'' (rev out) \<noteq> []"
    "split_at CHR ''/'' (join ''/'' (rev out)) = rev out"
proof -
  have l: "last out \<in> set out" using assms(2) by simp
  note el = clean_stack_elements [OF assms(1)]
  have h: "hd (last out) \<noteq> CHR ''/''" using el(1) [OF l] el(2) [OF l] by (cases "last out") auto
  have j: "hd (join ''/'' (rev out)) = hd (last out) \<and> join ''/'' (rev out) \<noteq> []"
    using join_hd [of "rev out"] assms(2) el(2) [OF l] by (simp add: hd_rev)
  show "hd (join ''/'' (rev out)) \<noteq> CHR ''/''" using j h by simp
  show "join ''/'' (rev out) \<noteq> []" using j by simp
  show "split_at CHR ''/'' (join ''/'' (rev out)) = rev out"
    by (rule split_at_join) (use assms(2) el(1) in auto)
qed

text \<open>The text of a stack.\<close>

definition path_text :: "bool \<Rightarrow> string list \<Rightarrow> string" where
  "path_text rooted out =
     (if rooted then CHR ''/'' # join ''/'' (rev out)
      else if out = [] then ''.'' else join ''/'' (rev out))"

lemma Clean_path_text:
  "p \<noteq> [] \<Longrightarrow>
   Clean p = path_text (hd p = CHR ''/'') (foldl (clean_step (hd p = CHR ''/'')) [] (split_at CHR ''/'' p))"
  using clean_stack_join(2) [OF Clean_stack, of p]
  by (cases "hd p = CHR ''/''") (simp_all add: Clean_def path_text_def Let_def)

lemma Clean_shape: "\<exists>out. clean_stack (IsAbs p) out \<and> Clean p = path_text (IsAbs p) out"
proof (cases p)
  case Nil
  then show ?thesis
    by (intro exI [of _ "[]"]) (simp add: Clean_def path_text_def clean_stack_def IsAbs_def HasPrefix_def)
next
  case (Cons c cs)
  have "IsAbs p \<longleftrightarrow> hd p = CHR ''/''" using Cons by (auto simp: IsAbs_def HasPrefix_def)
  then show ?thesis using Clean_path_text [of p] Clean_stack [of p] Cons by auto
qed

text \<open>A clean path is clean.\<close>

lemma Clean_of_stack:
  assumes st: "clean_stack rooted out"
  shows "Clean (path_text rooted out) = path_text rooted out"
proof (cases "out = []")
  case True
  then show ?thesis by (cases rooted) (simp_all add: Clean_def path_text_def clean_step_def)
next
  case False
  note j = clean_stack_join [OF st False]
  note fixed = clean_fold_fix [OF st]
  show ?thesis
  proof (cases rooted)
    case True
    have "Clean (path_text rooted out)
        = path_text True (foldl (clean_step True) (clean_step True [] []) (rev out))"
      using True j(3) by (simp only: path_text_def if_True) (simp add: Clean_path_text path_text_def)
    also have "clean_step True [] [] = []" by (simp add: clean_step_def)
    finally show ?thesis using fixed True by simp
  next
    case rel: False
    have "path_text rooted out = join ''/'' (rev out)" using rel False by (simp add: path_text_def)
    then show ?thesis using j fixed rel by (simp add: Clean_path_text)
  qed
qed

lemma Clean_idem: "Clean (Clean p) = Clean p"
  using Clean_shape [of p] Clean_of_stack by metis

lemma IsAbs_Clean: "IsAbs (Clean p) \<longleftrightarrow> IsAbs p"
proof -
  obtain out where c: "clean_stack (IsAbs p) out" "Clean p = path_text (IsAbs p) out"
    using Clean_shape by blast
  have "IsAbs (path_text rooted out) \<longleftrightarrow> rooted" if st: "clean_stack rooted out" for rooted
  proof (cases "out = []")
    case True
    then show ?thesis by (simp add: path_text_def IsAbs_def HasPrefix_def)
  next
    case False
    obtain x xs where "join ''/'' (rev out) = x # xs" "x \<noteq> CHR ''/''"
      using clean_stack_join(1,2) [OF st False] by (cases "join ''/'' (rev out)") auto
    then show ?thesis using False by (simp add: path_text_def IsAbs_def HasPrefix_def)
  qed
  then show ?thesis using c by metis
qed

text \<open>Against an absolute directory every path resolves to an absolute clean path, which stays as it is.\<close>

lemma resolvePath_absolute:
  assumes "IsAbs baseDir" "p \<noteq> []"
  shows "IsAbs (resolvePath baseDir p)" "Clean (resolvePath baseDir p) = resolvePath baseDir p"
    "resolvePath baseDir' (resolvePath baseDir p) = resolvePath baseDir p"
proof -
  have base: "baseDir \<noteq> []" "hd baseDir = CHR ''/''"
    using assms(1) by (cases baseDir; auto simp: IsAbs_def HasPrefix_def)+
  then have "IsAbs (Join baseDir p)"
    by (simp add: Join_def IsAbs_Clean) (cases baseDir; simp add: IsAbs_def HasPrefix_def)
  then show abs: "IsAbs (resolvePath baseDir p)"
    using assms(2) by (simp add: resolvePath_def IsAbs_Clean)
  show clean: "Clean (resolvePath baseDir p) = resolvePath baseDir p"
    using assms(2) by (simp add: resolvePath_def Clean_idem)
  have "resolvePath baseDir p \<noteq> []" using abs by (auto simp: IsAbs_def HasPrefix_def)
  then show "resolvePath baseDir' (resolvePath baseDir p) = resolvePath baseDir p"
    using abs clean by (simp add: resolvePath_def [of baseDir'])
qed

end
