(* ===== verification/Request.thy ===== *)
theory Request
  imports IPAddr
begin

text \<open>
  The validation of a send request, \<open>ValidateSendRequest\<close> of \<open>internal/domain/request_validation.go\<close>,
  with the media type (\<open>mime.ParseMediaType\<close>), the JSON body and every field. A Go map is an
  association list; where the code ranges over one, the list is checked in its order.
\<close>

section \<open>Limits and records\<close>

definition defaultMaxRequestBodyBytes :: int where "defaultMaxRequestBodyBytes = 65536"
definition defaultMaxTemplateVarBytes :: int where "defaultMaxTemplateVarBytes = 8192"
definition defaultMaxContextBytes :: int where "defaultMaxContextBytes = 4096"
definition maxContextFields :: nat where "maxContextFields = 16"
definition maxContextFieldNameBytes :: nat where "maxContextFieldNameBytes = 64"
definition maxContextStringBytes :: nat where "maxContextStringBytes = 256"
definition maxBusinessRequestIDBytes :: nat where "maxBusinessRequestIDBytes = 128"
definition maxTemplateVars :: nat where "maxTemplateVars = 32"
definition maxTemplateVarStringBytes :: nat where "maxTemplateVarStringBytes = 1024"

record SendRequestValidationOptions =
  opt_MaxRequestBodyBytes :: int
  opt_MaxTemplateVarBytes :: int
  opt_MaxContextBytes :: int

record SendRequestValidationInput =
  in_ContentType :: string
  in_IdempotencyKey :: string
  in_Body :: string
  in_AllowedLocales :: "string list"

type_synonym vars_map = "(string \<times> json) list"

record SendRequest =
  sr_Scene :: string
  sr_To :: string
  sr_NormalizedToEmail :: string
  sr_Locale :: string
  sr_Vars :: vars_map
  sr_Context :: vars_map
  sr_UserIP :: string
  sr_UserID :: string
  sr_BusinessRequestID :: string
  sr_IdempotencyKey :: string

definition applySendRequestValidationDefaults ::
    "SendRequestValidationOptions \<Rightarrow> SendRequestValidationOptions" where
  "applySendRequestValidationDefaults options =
     \<lparr>opt_MaxRequestBodyBytes =
        (if opt_MaxRequestBodyBytes options \<le> 0 then defaultMaxRequestBodyBytes
         else opt_MaxRequestBodyBytes options),
      opt_MaxTemplateVarBytes =
        (if opt_MaxTemplateVarBytes options \<le> 0 then defaultMaxTemplateVarBytes
         else opt_MaxTemplateVarBytes options),
      opt_MaxContextBytes =
        (if opt_MaxContextBytes options \<le> 0 then defaultMaxContextBytes
         else opt_MaxContextBytes options)\<rparr>"

definition requestValidationError :: "ErrorCode \<Rightarrow> string \<Rightarrow> go_error" where
  "requestValidationError code message = RequestValidationError code message"

section \<open>The media type\<close>

text \<open>
  \<open>strings.ToLower\<close> on text of which only the ASCII outcome matters: beside the ASCII letters, the
  Kelvin sign and the dotted capital I have an ASCII lower case. Every other rune that is not ASCII
  stays a rune that is not.
\<close>

fun lower_runes :: "string \<Rightarrow> string" where
  "lower_runes [] = []"
| "lower_runes (c # cs) =
     (if byte c < 128 then lower_char c # lower_runes cs
      else case head_rune (c # cs) of
             None \<Rightarrow> c # lower_runes cs
           | Some (r, n) \<Rightarrow>
               (if r = 8490 then ''k'' else if r = 304 then ''i'' else take n (c # cs))
               @ lower_runes (drop (n - 1) cs))"

definition token_char :: "char \<Rightarrow> bool" where
  "token_char c \<longleftrightarrow> 32 < byte c \<and> byte c < 127
     \<and> c \<notin> set ''()<>@,;:/[]?='' \<and> c \<noteq> quote_char \<and> c \<noteq> backslash"

definition tspecial :: "char \<Rightarrow> bool" where
  "tspecial c \<longleftrightarrow> c \<in> set ''()<>@,;:/[]?='' \<or> c = quote_char \<or> c = backslash"

definition consumeToken :: "string \<Rightarrow> string \<times> string" where
  "consumeToken v = (takeWhile token_char v, dropWhile token_char v)"

text \<open>A quoted value behind its opening quote; \<open>None\<close> if the closing quote is missing.\<close>

fun consume_quoted :: "string \<Rightarrow> (string \<times> string) option" where
  "consume_quoted [] = None"
| "consume_quoted [c] = (if c = quote_char then Some ([], []) else None)"
| "consume_quoted (c # d # v) =
     (if c = quote_char then Some ([], d # v)
      else if c = backslash \<and> tspecial d then map_option (apfst ((#) d)) (consume_quoted v)
      else if byte c = 13 \<or> byte c = 10 then None
      else map_option (apfst ((#) c)) (consume_quoted (d # v)))"

definition consumeValue :: "string \<Rightarrow> string \<times> string" where
  "consumeValue v =
     (case v of
        [] \<Rightarrow> ([], [])
      | c # t \<Rightarrow>
          if c \<noteq> quote_char then consumeToken v
          else case consume_quoted t of None \<Rightarrow> ([], v) | Some r \<Rightarrow> r)"

definition consumeMediaParam :: "string \<Rightarrow> (string \<times> string \<times> string) option" where
  "consumeMediaParam v =
     (case trimLeft v of
        [] \<Rightarrow> None
      | c # t \<Rightarrow>
          if c \<noteq> CHR '';'' then None
          else case consumeToken (trimLeft t) of
                 (param, rest) \<Rightarrow>
                   if param = [] then None
                   else case trimLeft rest of
                          [] \<Rightarrow> None
                        | c2 # t2 \<Rightarrow>
                            if c2 \<noteq> CHR ''='' then None
                            else case consumeValue (trimLeft t2) of
                                   (v', rest2) \<Rightarrow>
                                     if v' = [] \<and> rest2 = trimLeft t2 then None
                                     else Some (ToLower param, v', rest2))"

text \<open>Whether the parameters are well formed; the fuel is the length of the text.\<close>

fun media_params :: "nat \<Rightarrow> string \<Rightarrow> (string \<times> string) list \<Rightarrow> bool" where
  "media_params 0 v params = (trimLeft v = [])"
| "media_params (Suc n) v params =
     (let v = trimLeft v
      in if v = [] then True
         else case consumeMediaParam v of
                None \<Rightarrow> TrimSpace v = '';''
              | Some (key, v', rest) \<Rightarrow>
                  if map_of params key \<notin> {None, Some v'} then False
                  else media_params n rest (AList.update key v' params))"

definition checkMediaTypeDisposition :: "string \<Rightarrow> bool" where
  "checkMediaTypeDisposition s =
     (case consumeToken s of
        (typ, rest) \<Rightarrow>
          if typ = [] then False
          else case rest of
                 [] \<Rightarrow> True
               | c # t \<Rightarrow> c = CHR ''/'' \<and> fst (consumeToken t) \<noteq> [] \<and> snd (consumeToken t) = [])"

definition ParseMediaType :: "string \<Rightarrow> string option" where
  "ParseMediaType v =
     (let base = takeWhile ((\<noteq>) CHR '';'') v; mediatype = TrimSpace (lower_runes base)
      in if \<not> checkMediaTypeDisposition mediatype then None
         else if \<not> media_params (length v) (drop (length base) v) [] then None
         else Some mediatype)"

definition validateContentType :: "string \<Rightarrow> unit result" where
  "validateContentType contentType =
     (if TrimSpace contentType = [] then
        Inl (requestValidationError ErrorCodeUnsupportedMediaType ''content type must be application/json'')
      else case ParseMediaType contentType of
             None \<Rightarrow> Inl (requestValidationError ErrorCodeUnsupportedMediaType
                      ''content type must be application/json'')
           | Some mediaType \<Rightarrow>
               if ToLower mediaType \<noteq> ''application/json'' then
                 Inl (requestValidationError ErrorCodeUnsupportedMediaType
                   ''content type must be application/json'')
               else Inr ())"

section \<open>The body\<close>

text \<open>\<open>map[string]json.RawMessage\<close>: the last member of a name counts.\<close>

type_synonym raw_map = "(string \<times> string) list"

definition raw_object :: "json_members \<Rightarrow> raw_map" where
  "raw_object ms = foldl (\<lambda>m (k, t, v). AList.update k t m) [] ms"

definition any_object :: "json_members \<Rightarrow> vars_map" where
  "any_object ms = foldl (\<lambda>m (k, t, v). AList.update k v m) [] ms"

text \<open>What is left behind the first value must be blank.\<close>

definition ensureSingleJSONValue :: "string \<Rightarrow> unit result" where
  "ensureSingleJSONValue rest =
     (if skip_ws rest \<noteq> [] then
        Inl (requestValidationError ErrorCodeInvalidJSON ''request body must contain a single JSON object'')
      else Inr ())"

definition decode_body :: "string \<Rightarrow> raw_map result" where
  "decode_body body =
     (case json_decode body of
        None \<Rightarrow> Inl (requestValidationError ErrorCodeInvalidJSON ''request body must be a JSON object'')
      | Some (v, rest) \<Rightarrow>
          (case v of
             JObject ms \<Rightarrow> and_then (ensureSingleJSONValue rest) (\<lambda>_. Inr (raw_object ms))
           | JNull \<Rightarrow> and_then (ensureSingleJSONValue rest) (\<lambda>_.
               Inl (requestValidationError ErrorCodeInvalidJSON ''request body must be a JSON object''))
           | _ \<Rightarrow> Inl (requestValidationError ErrorCodeInvalidJSON ''request body must be a JSON object'')))"

text \<open>\<open>json.Unmarshal\<close> into a string: \<open>null\<close> leaves it empty.\<close>

definition unmarshal_string :: "string \<Rightarrow> string option" where
  "unmarshal_string raw =
     (case json_unmarshal raw of
        Some (JString s) \<Rightarrow> Some s
      | Some JNull \<Rightarrow> Some []
      | _ \<Rightarrow> None)"

definition decodeStringField :: "raw_map \<Rightarrow> string \<Rightarrow> ErrorCode \<Rightarrow> string result" where
  "decodeStringField raw field code =
     (case map_of raw field of
        None \<Rightarrow> Inl (requestValidationError code (field @ '' is required''))
      | Some v \<Rightarrow>
          (case unmarshal_string v of
             None \<Rightarrow> Inl (requestValidationError code (field @ '' must be a string''))
           | Some s \<Rightarrow> Inr s))"

definition decodeObject :: "string \<Rightarrow> vars_map option" where
  "decodeObject raw =
     (case json_decode raw of
        Some (JObject ms, rest) \<Rightarrow> if skip_ws rest = [] then Some (any_object ms) else None
      | _ \<Rightarrow> None)"

fun validateFlatJSONValue :: "json \<Rightarrow> nat \<Rightarrow> bool" where
  "validateFlatJSONValue (JString s) maxStringBytes \<longleftrightarrow> length s \<le> maxStringBytes"
| "validateFlatJSONValue (JBool _) _ \<longleftrightarrow> True"
| "validateFlatJSONValue (JNumber _) _ \<longleftrightarrow> True"
| "validateFlatJSONValue _ _ \<longleftrightarrow> False"

section \<open>The fields\<close>

definition validateIdempotencyKey :: "string \<Rightarrow> string result" where
  "validateIdempotencyKey v =
     (if v = [] then Inl (requestValidationError ErrorCodeMissingIdempotencyKey ''idempotency key is required'')
      else if maxIdempotencyKeyBytes < length v \<or> \<not> isVisibleASCIIWithoutWhitespace v then
        Inl (requestValidationError ErrorCodeInvalidIdempotencyKey ''idempotency key is invalid'')
      else Inr v)"

definition validateRecipientField :: "raw_map \<Rightarrow> (string \<times> string) result" where
  "validateRecipientField raw =
     and_then (decodeStringField raw ''to'' ErrorCodeInvalidRecipient) (\<lambda>to.
       let trimmed = TrimSpace to
       in if \<not> IsAddrSpecEmail trimmed then
            Inl (requestValidationError ErrorCodeInvalidRecipient ''recipient is invalid'')
          else Inr (to, NormalizeEmail trimmed))"

definition validateSceneField :: "raw_map \<Rightarrow> string result" where
  "validateSceneField raw =
     and_then (decodeStringField raw ''scene'' ErrorCodeInvalidJSON) (\<lambda>scene.
       if scene = [] then Inl (requestValidationError ErrorCodeInvalidJSON ''scene is required'')
       else if \<not> isRequestIdentifier scene then
         Inl (requestValidationError ErrorCodeInvalidJSON ''scene is invalid'')
       else Inr scene)"

definition validateLocaleField :: "raw_map \<Rightarrow> string list \<Rightarrow> string result" where
  "validateLocaleField raw allowedLocales =
     (case map_of raw ''locale'' of
        None \<Rightarrow> Inr []
      | Some v \<Rightarrow>
          (case unmarshal_string v of
             None \<Rightarrow> Inl (requestValidationError ErrorCodeInvalidLocale ''locale is invalid'')
           | Some locale \<Rightarrow>
               if \<not> isRequestLocaleFormat locale then
                 Inl (requestValidationError ErrorCodeInvalidLocale ''locale is invalid'')
               else if allowedLocales = [] then Inr locale
               else if locale \<in> set allowedLocales then Inr locale
               else Inl (requestValidationError ErrorCodeInvalidLocale ''locale is not allowed'')))"

fun check_vars :: "vars_map \<Rightarrow> unit result" where
  "check_vars [] = Inr ()"
| "check_vars ((name, v) # vars) =
     (if \<not> IsTemplateVarName name then
        Inl (requestValidationError ErrorCodeInvalidTemplateVars ''template variable name is invalid'')
      else if \<not> validateFlatJSONValue v maxTemplateVarStringBytes then
        Inl (requestValidationError ErrorCodeInvalidTemplateVars ''template variable value is invalid'')
      else check_vars vars)"

text \<open>A missing field is an empty \<open>json.RawMessage\<close>.\<close>

definition raw_field :: "raw_map \<Rightarrow> string \<Rightarrow> string" where
  "raw_field raw name = (case map_of raw name of None \<Rightarrow> [] | Some t \<Rightarrow> t)"

definition validateVarsField :: "string \<Rightarrow> int \<Rightarrow> vars_map result" where
  "validateVarsField raw maxBytes =
     (if raw = [] then Inr []
      else if maxBytes < int (length raw) then
        Inl (requestValidationError ErrorCodeRequestTooLarge ''template variables are too large'')
      else case decodeObject raw of
             None \<Rightarrow> Inl (requestValidationError ErrorCodeInvalidTemplateVars
                      ''template variables must be a flat object'')
           | Some vars \<Rightarrow>
               if maxTemplateVars < length vars then
                 Inl (requestValidationError ErrorCodeInvalidTemplateVars
                   ''template variables contain too many fields'')
               else and_then (check_vars vars) (\<lambda>_. Inr vars))"

fun check_context :: "vars_map \<Rightarrow> unit result" where
  "check_context [] = Inr ()"
| "check_context ((name, v) # context) =
     (if name = [] \<or> maxContextFieldNameBytes < length name then
        Inl (requestValidationError ErrorCodeInvalidContext ''context field name is invalid'')
      else if \<not> validateFlatJSONValue v maxContextStringBytes then
        Inl (requestValidationError ErrorCodeInvalidContext ''context value is invalid'')
      else check_context context)"

definition contextStringField :: "vars_map \<Rightarrow> string \<Rightarrow> string result" where
  "contextStringField context name =
     (case map_of context name of
        None \<Rightarrow> Inr []
      | Some (JString s) \<Rightarrow> Inr s
      | Some _ \<Rightarrow> Inl (requestValidationError ErrorCodeInvalidContext (''context.'' @ name @ '' must be a string'')))"

definition context_user_ip :: "vars_map \<Rightarrow> vars_map result" where
  "context_user_ip context =
     and_then (contextStringField context ''user_ip'') (\<lambda>userIP.
       if userIP = [] then Inr context
       else case ParseAddr userIP of
              None \<Rightarrow> Inl (requestValidationError ErrorCodeInvalidContext ''context.user_ip is invalid'')
            | Some addr \<Rightarrow>
                Inr (AList.update ''user_ip'' (JString (Addr_String (normalizeIPAddr addr))) context))"

definition validateContextField :: "string \<Rightarrow> int \<Rightarrow> vars_map result" where
  "validateContextField raw maxBytes =
     (if raw = [] then Inr []
      else if maxBytes < int (length raw) then
        Inl (requestValidationError ErrorCodeInvalidContext ''context is too large'')
      else case decodeObject raw of
             None \<Rightarrow> Inl (requestValidationError ErrorCodeInvalidContext ''context must be a flat object'')
           | Some context \<Rightarrow>
               if maxContextFields < length context then
                 Inl (requestValidationError ErrorCodeInvalidContext ''context contains too many fields'')
               else
                 and_then (check_context context) (\<lambda>_.
                 and_then (contextStringField context ''request_id'') (\<lambda>requestID.
                   if requestID \<noteq> [] \<and> (maxBusinessRequestIDBytes < length requestID
                        \<or> \<not> isVisibleASCIIWithoutWhitespace requestID) then
                     Inl (requestValidationError ErrorCodeInvalidContext ''context.request_id is invalid'')
                   else
                     and_then (context_user_ip context) (\<lambda>context.
                     and_then (contextStringField context ''user_id'') (\<lambda>_. Inr context)))))"

fun stringValue :: "json option \<Rightarrow> string" where
  "stringValue (Some (JString s)) = s"
| "stringValue _ = []"

definition ValidateSendRequest ::
    "SendRequestValidationInput \<Rightarrow> SendRequestValidationOptions \<Rightarrow> SendRequest result" where
  "ValidateSendRequest inp options0 =
     (let options = applySendRequestValidationDefaults options0
      in and_then (validateContentType (in_ContentType inp)) (\<lambda>_.
         if opt_MaxRequestBodyBytes options < int (length (in_Body inp)) then
           Inl (requestValidationError ErrorCodeRequestTooLarge ''request body is too large'')
         else
           and_then (decode_body (in_Body inp)) (\<lambda>raw.
           and_then (validateIdempotencyKey (in_IdempotencyKey inp)) (\<lambda>idempotencyKey.
           and_then (validateSceneField raw) (\<lambda>scene.
           and_then (validateRecipientField raw) (\<lambda>(to, normalizedToEmail).
           and_then (validateLocaleField raw (in_AllowedLocales inp)) (\<lambda>locale.
           and_then (validateVarsField (raw_field raw ''vars'') (opt_MaxTemplateVarBytes options)) (\<lambda>vars.
           and_then (validateContextField (raw_field raw ''context'') (opt_MaxContextBytes options)) (\<lambda>context.
             Inr \<lparr>sr_Scene = scene, sr_To = to, sr_NormalizedToEmail = normalizedToEmail,
                  sr_Locale = locale, sr_Vars = vars, sr_Context = context,
                  sr_UserIP = stringValue (map_of context ''user_ip''),
                  sr_UserID = stringValue (map_of context ''user_id''),
                  sr_BusinessRequestID = stringValue (map_of context ''request_id''),
                  sr_IdempotencyKey = idempotencyKey\<rparr>)))))))))"


section \<open>Facts\<close>

text \<open>The loops over the maps accept exactly the maps all of whose entries pass, in any order.\<close>

lemma check_vars_iff:
  "check_vars vars = Inr u \<longleftrightarrow>
     (\<forall>(name, v) \<in> set vars. IsTemplateVarName name \<and> validateFlatJSONValue v maxTemplateVarStringBytes)"
  by (induction vars rule: check_vars.induct) auto

lemma check_context_iff:
  "check_context context = Inr u \<longleftrightarrow>
     (\<forall>(name, v) \<in> set context. name \<noteq> [] \<and> length name \<le> maxContextFieldNameBytes
        \<and> validateFlatJSONValue v maxContextStringBytes)"
  by (induction "context" rule: check_context.induct) auto

lemma wf_any_object: "wf_alist (any_object ms)"
proof -
  have "wf_alist (foldl (\<lambda>m (k, t, v). AList.update k v m) m0 ms)" if "wf_alist m0" for m0
    using that by (induction ms arbitrary: m0) auto
  then show ?thesis by (simp add: any_object_def)
qed

lemma decodeObject_wf: "decodeObject raw = Some m \<Longrightarrow> wf_alist m"
  by (auto simp: decodeObject_def wf_any_object split: option.splits prod.splits json.splits if_splits)

definition flat_vars :: "vars_map \<Rightarrow> bool" where
  "flat_vars vars \<longleftrightarrow> wf_alist vars \<and> length vars \<le> maxTemplateVars
     \<and> (\<forall>(name, v) \<in> set vars. IsTemplateVarName name \<and> validateFlatJSONValue v maxTemplateVarStringBytes)"

lemma validateVarsField_Inr: "validateVarsField raw n = Inr vars \<Longrightarrow> flat_vars vars"
  by (auto simp: validateVarsField_def flat_vars_def check_vars_iff decodeObject_wf
      split: if_splits option.splits)

lemma validateVarsField_source:
  "validateVarsField raw n = Inr vars \<Longrightarrow>
     (if raw = [] then vars = [] else int (length raw) \<le> n \<and> decodeObject raw = Some vars)"
  by (auto simp: validateVarsField_def split: if_splits option.splits)

text \<open>
  The fields of an accepted context. The user address is a text of its own: it has been rewritten to its
  canonical form, so that only what was sent is bound by the limit of a value.
\<close>

definition flat_context :: "vars_map \<Rightarrow> bool" where
  "flat_context context \<longleftrightarrow> wf_alist context \<and> length context \<le> maxContextFields
     \<and> (\<forall>(name, v) \<in> set context. name \<noteq> [] \<and> length name \<le> maxContextFieldNameBytes
          \<and> (if name = ''user_ip'' then v = JString (stringValue (Some v))
             else validateFlatJSONValue v maxContextStringBytes))"

lemma contextStringField_Inr:
  "contextStringField context name = Inr s \<Longrightarrow> stringValue (map_of context name) = s"
  by (auto simp: contextStringField_def split: option.splits json.splits)

lemma context_user_ip_Inr:
  assumes "context_user_ip context = Inr context'"
  shows "stringValue (map_of context' ''user_ip'') = []
      \<or> canonical_ip (stringValue (map_of context' ''user_ip'')) = Some (stringValue (map_of context' ''user_ip''))"
    and "k \<noteq> ''user_ip'' \<Longrightarrow> map_of context' k = map_of context k"
  using assms
  by (auto simp: context_user_ip_def canonical_ip_def ParseAddr_canonical normalizeIPAddr_idem
      update_conv' dest!: contextStringField_Inr split: if_splits option.splits)

definition identified :: "string \<Rightarrow> nat \<Rightarrow> bool" where
  "identified s n \<longleftrightarrow> isVisibleASCIIWithoutWhitespace s \<and> length s \<le> n"

lemma validateContextField_Inr:
  assumes "validateContextField raw n = Inr context"
  shows "stringValue (map_of context ''user_ip'') = []
      \<or> canonical_ip (stringValue (map_of context ''user_ip'')) = Some (stringValue (map_of context ''user_ip''))"
    and "stringValue (map_of context ''request_id'') = []
      \<or> identified (stringValue (map_of context ''request_id'')) maxBusinessRequestIDBytes"
proof -
  show "stringValue (map_of context ''user_ip'') = []
      \<or> canonical_ip (stringValue (map_of context ''user_ip'')) = Some (stringValue (map_of context ''user_ip''))"
    using assms by (auto simp: validateContextField_def dest!: context_user_ip_Inr(1)
      split: if_splits option.splits)
  show "stringValue (map_of context ''request_id'') = []
      \<or> identified (stringValue (map_of context ''request_id'')) maxBusinessRequestIDBytes"
    using assms by (auto simp: validateContextField_def identified_def context_user_ip_Inr(2)
      dest!: contextStringField_Inr split: if_splits option.splits)
qed


lemma context_user_ip_flat:
  assumes ip: "context_user_ip context = Inr context'" and wf: "wf_alist context"
    and ok: "check_context context = Inr u" and len: "length context \<le> maxContextFields"
  shows "flat_context context'"
proof -
  have fields: "name \<noteq> [] \<and> length name \<le> maxContextFieldNameBytes \<and> validateFlatJSONValue v maxContextStringBytes"
    if "(name, v) \<in> set context" for name v
    using ok that by (auto simp: check_context_iff)
  have kept: "flat_context context" if string: "\<And>v. map_of context ''user_ip'' = Some v \<Longrightarrow> \<exists>s. v = JString s"
  proof -
    have "name \<noteq> [] \<and> length name \<le> maxContextFieldNameBytes
        \<and> (if name = ''user_ip'' then v = JString (stringValue (Some v)) else validateFlatJSONValue v maxContextStringBytes)"
      if m: "(name, v) \<in> set context" for name v
    proof (cases "name = ''user_ip''")
      case True
      then obtain s where "v = JString s" using string m wf by (auto simp: map_of_mem)
      then show ?thesis using fields [OF m] True by simp
    qed (use fields [OF m] in simp)
    then show ?thesis using wf len by (auto simp only: flat_context_def)
  qed
  obtain t where t: "contextStringField context ''user_ip'' = Inr t"
    using ip by (cases "contextStringField context ''user_ip''") (simp_all add: context_user_ip_def)
  have string: "\<exists>s. v = JString s \<and> s = t" if "map_of context ''user_ip'' = Some v" for v
    using t that by (cases v) (simp_all add: contextStringField_def)
  consider (same) "context' = context"
    | (changed) v u where "map_of context ''user_ip'' = Some v" "context' = AList.update ''user_ip'' (JString u) context"
  proof (cases "t = [] \<or> map_of context ''user_ip'' = None")
    case True
    then have "t = []" using t by (auto simp: contextStringField_def)
    then show thesis using ip t same by (simp add: context_user_ip_def)
  next
    case False
    then show thesis using ip t changed by (auto simp: context_user_ip_def split: option.splits)
  qed
  then show ?thesis
  proof cases
    case same
    then show ?thesis using kept string by blast
  next
    case (changed w s)
    have mem: "(''user_ip'', w) \<in> set context" using changed(1) by (rule map_of_SomeD)
    have "length context' = length context"
      using changed mem by (simp add: length_update)
    moreover have wf': "wf_alist context'" using wf changed(2) by simp
    moreover have "name \<noteq> [] \<and> length name \<le> maxContextFieldNameBytes
        \<and> (if name = ''user_ip'' then v = JString (stringValue (Some v)) else validateFlatJSONValue v maxContextStringBytes)"
      if m: "(name, v) \<in> set context'" for name v
    proof -
      have "map_of context' name = Some v" using m wf' by (simp add: map_of_mem)
      then have look: "if name = ''user_ip'' then v = JString s else (name, v) \<in> set context"
        unfolding changed(2) update_conv' using wf by (auto simp: map_of_mem split: if_splits)
      show ?thesis
      proof (cases "name = ''user_ip''")
        case True
        then have "v = JString s" using look by simp
        then show ?thesis using fields [OF mem] True by simp
      next
        case False
        then show ?thesis using look fields by simp
      qed
    qed
    ultimately show ?thesis using len by (auto simp only: flat_context_def)
  qed
qed

lemma validateContextField_source:
  assumes "validateContextField raw n = Inr context"
  shows "flat_context context \<and> (if raw = [] then context = [] else int (length raw) \<le> n)"
proof (cases "raw = []")
  case True
  then show ?thesis using assms by (simp add: validateContextField_def flat_context_def wf_alist_def)
next
  case False
  then obtain c where "decodeObject raw = Some c" "length c \<le> maxContextFields" "check_context c = Inr ()"
      "context_user_ip c = Inr context" "int (length raw) \<le> n"
    using assms by (auto simp: validateContextField_def split: if_splits option.splits)
  then show ?thesis using False context_user_ip_flat [OF _ decodeObject_wf] by simp
qed

definition client_error :: "go_error \<Rightarrow> bool" where
  "client_error e \<longleftrightarrow> (\<exists>code message. e = RequestValidationError code message \<and> code \<noteq> ErrorCodeInternal)"

lemma client_error_requestValidationError [simp]:
  "client_error (requestValidationError code message) \<longleftrightarrow> code \<noteq> ErrorCodeInternal"
  by (simp add: client_error_def requestValidationError_def)

named_theorems field_errors \<open>the errors of the fields are errors of the client\<close>

lemma check_vars_error [field_errors]: "check_vars vars = Inl e \<Longrightarrow> client_error e"
  by (induction vars rule: check_vars.induct) (auto split: if_splits)

lemma check_context_error [field_errors]: "check_context ctx = Inl e \<Longrightarrow> client_error e"
  by (induction ctx rule: check_context.induct) (auto split: if_splits)

lemma decodeStringField_error [field_errors]:
  "decodeStringField raw f code = Inl e \<Longrightarrow> code \<noteq> ErrorCodeInternal \<Longrightarrow> client_error e"
  by (auto simp: decodeStringField_def split: option.splits)

lemma contextStringField_error [field_errors]: "contextStringField ctx k = Inl e \<Longrightarrow> client_error e"
  by (auto simp: contextStringField_def split: option.splits json.splits)

lemma field_error [field_errors]:
  "validateContentType ct = Inl e \<Longrightarrow> client_error e"
  "decode_body body = Inl e \<Longrightarrow> client_error e"
  "validateIdempotencyKey k = Inl e \<Longrightarrow> client_error e"
  "validateSceneField raw = Inl e \<Longrightarrow> client_error e"
  "validateRecipientField raw = Inl e \<Longrightarrow> client_error e"
  "validateLocaleField raw ls = Inl e \<Longrightarrow> client_error e"
  "validateVarsField t n = Inl e \<Longrightarrow> client_error e"
  "context_user_ip ctx = Inl e \<Longrightarrow> client_error e"
  by (auto simp: validateContentType_def decode_body_def ensureSingleJSONValue_def validateIdempotencyKey_def
      validateSceneField_def validateRecipientField_def validateLocaleField_def validateVarsField_def
      context_user_ip_def Let_def and_then_Inl_iff field_errors
      split: option.splits if_splits json.splits prod.splits)

lemma validateContextField_error [field_errors]: "validateContextField t n = Inl e \<Longrightarrow> client_error e"
  by (auto simp: validateContextField_def and_then_Inl_iff field_errors split: option.splits if_splits)

lemma ValidateSendRequest_error:
  "ValidateSendRequest inp options = Inl e \<Longrightarrow> client_error e"
  by (auto simp: ValidateSendRequest_def Let_def and_then_Inl_iff field_errors split: if_splits prod.splits)

lemma validateRecipientField_Inr:
  "validateRecipientField raw = Inr (to, n) \<Longrightarrow> NormalizeAddrSpecEmail to = Some n"
  by (auto simp: validateRecipientField_def NormalizeAddrSpecEmail_def Let_def split: if_splits)

section \<open>Properties\<close>

text \<open>
  C37. A send request is accepted only in full form and within every limit: the body, the text of its
  variables and that of its context within their configured bytes, the scene an identifier, the
  recipient one address with its normal form beside it, the locale empty or one of the allowed; the variables
  are those of the body, at most 32 of distinct proper names with flat values of bounded length, the
  context has at most its number of fields with bounded names and flat bounded values, and the three
  named fields are read from it; the idempotency key and the request id of the context are visible text
  within their lengths, and a user address is in canonical form, so that one address has one text.
  Whatever is refused is refused with an error of the client.
\<close>

theorem ValidateSendRequest_outcome:
  "case ValidateSendRequest inp options of
     Inl e \<Rightarrow> client_error e
   | Inr r \<Rightarrow>
       int (length (in_Body inp)) \<le> opt_MaxRequestBodyBytes (applySendRequestValidationDefaults options)
       \<and> isRequestIdentifier (sr_Scene r)
       \<and> NormalizeAddrSpecEmail (sr_To r) = Some (sr_NormalizedToEmail r)
       \<and> (sr_Locale r = [] \<or> isRequestLocaleFormat (sr_Locale r)
            \<and> (in_AllowedLocales inp = [] \<or> sr_Locale r \<in> set (in_AllowedLocales inp)))
       \<and> flat_vars (sr_Vars r) \<and> flat_context (sr_Context r)
       \<and> (\<exists>raw. decode_body (in_Body inp) = Inr raw
            \<and> (if raw_field raw ''vars'' = [] then sr_Vars r = []
               else int (length (raw_field raw ''vars''))
                   \<le> opt_MaxTemplateVarBytes (applySendRequestValidationDefaults options)
                 \<and> decodeObject (raw_field raw ''vars'') = Some (sr_Vars r))
            \<and> (if raw_field raw ''context'' = [] then sr_Context r = []
               else int (length (raw_field raw ''context''))
                   \<le> opt_MaxContextBytes (applySendRequestValidationDefaults options)))
       \<and> sr_UserIP r = stringValue (map_of (sr_Context r) ''user_ip'')
       \<and> sr_UserID r = stringValue (map_of (sr_Context r) ''user_id'')
       \<and> sr_BusinessRequestID r = stringValue (map_of (sr_Context r) ''request_id'')
       \<and> sr_IdempotencyKey r = in_IdempotencyKey inp \<and> identified (sr_IdempotencyKey r) maxIdempotencyKeyBytes
       \<and> (sr_BusinessRequestID r = [] \<or> identified (sr_BusinessRequestID r) maxBusinessRequestIDBytes)
       \<and> (sr_UserIP r = [] \<or> canonical_ip (sr_UserIP r) = Some (sr_UserIP r))"
proof (cases "ValidateSendRequest inp options")
  case (Inl e)
  then show ?thesis using ValidateSendRequest_error by auto
next
  case (Inr r)
  obtain raw where f:
    "\<not> opt_MaxRequestBodyBytes (applySendRequestValidationDefaults options) < int (length (in_Body inp))"
    "validateIdempotencyKey (in_IdempotencyKey inp) = Inr (sr_IdempotencyKey r)"
    "validateSceneField raw = Inr (sr_Scene r)"
    "validateRecipientField raw = Inr (sr_To r, sr_NormalizedToEmail r)"
    "validateLocaleField raw (in_AllowedLocales inp) = Inr (sr_Locale r)"
    "validateVarsField (raw_field raw ''vars'')
       (opt_MaxTemplateVarBytes (applySendRequestValidationDefaults options)) = Inr (sr_Vars r)"
    "validateContextField (raw_field raw ''context'')
       (opt_MaxContextBytes (applySendRequestValidationDefaults options)) = Inr (sr_Context r)"
    "sr_UserIP r = stringValue (map_of (sr_Context r) ''user_ip'')"
    "sr_BusinessRequestID r = stringValue (map_of (sr_Context r) ''request_id'')"
    "sr_UserID r = stringValue (map_of (sr_Context r) ''user_id'')"
    "decode_body (in_Body inp) = Inr raw"
    using Inr by (auto simp: ValidateSendRequest_def Let_def split: if_splits prod.splits)
  have scene: "isRequestIdentifier (sr_Scene r)"
    using f(3) by (auto simp: validateSceneField_def split: if_splits)
  have key: "sr_IdempotencyKey r = in_IdempotencyKey inp"
      "identified (sr_IdempotencyKey r) maxIdempotencyKeyBytes"
    using f(2) by (auto simp: validateIdempotencyKey_def identified_def split: if_splits)
  have loc: "sr_Locale r = [] \<or> isRequestLocaleFormat (sr_Locale r)
            \<and> (in_AllowedLocales inp = [] \<or> sr_Locale r \<in> set (in_AllowedLocales inp))"
    using f(5) by (auto simp: validateLocaleField_def split: if_splits option.splits)
  note ctx = validateContextField_Inr [OF f(7), folded f(8,9)]
  show ?thesis
    using scene key loc ctx f(1,8-11) validateRecipientField_Inr [OF f(4)] validateVarsField_Inr [OF f(6)]
      validateVarsField_source [OF f(6)] validateContextField_source [OF f(7)]
    by (simp add: Inr)
qed

end
