(* ===== verification/TemplateRender.thy ===== *)
theory TemplateRender
  imports Request
begin

text \<open>
  \<open>internal/template/render.go\<close>: the template of a scene for a locale, the check of its required
  variables, and the rendered mail. The engines of \<open>text/template\<close> and \<open>html/template\<close> are arguments:
  from the name and the source of a template they give an error or what executes it.
\<close>

section \<open>Operations\<close>

type_synonym template_engine = "string \<Rightarrow> string \<Rightarrow> (vars_map \<Rightarrow> string result) result"

record RenderedMail =
  rm_TemplateCode :: string
  rm_Locale :: string
  rm_Subject :: string
  rm_HTMLBody :: string
  rm_TextBody :: string
  rm_HasHTML :: bool
  rm_HasText :: bool
  rm_MultipartAlternative :: bool

definition renderError :: "ErrorCode \<Rightarrow> string \<Rightarrow> go_error" where
  "renderError code message = RenderError code message"

fun findEnabledTemplate :: "Template list \<Rightarrow> string \<Rightarrow> string \<Rightarrow> Template option" where
  "findEnabledTemplate [] code locale = None"
| "findEnabledTemplate (tmpl # templates) code locale =
     (if tmpl_Code tmpl = code \<and> tmpl_Locale tmpl = locale \<and> tmpl_Enabled tmpl then Some tmpl
      else findEnabledTemplate templates code locale)"

definition resolveTemplate :: "App \<Rightarrow> Scene \<Rightarrow> string \<Rightarrow> (Template \<times> string) result" where
  "resolveTemplate app scene requestLocale =
     (let targetLocale = (if requestLocale = [] then app_DefaultLocale app else requestLocale)
      in case findEnabledTemplate (app_Templates app) (scene_Template scene) targetLocale of
           Some tmpl \<Rightarrow> Inr (tmpl, targetLocale)
         | None \<Rightarrow>
             (case (if targetLocale \<noteq> app_DefaultLocale app
                    then findEnabledTemplate (app_Templates app) (scene_Template scene) (app_DefaultLocale app)
                    else None) of
                Some tmpl \<Rightarrow> Inr (tmpl, app_DefaultLocale app)
              | None \<Rightarrow> Inl (renderError ErrorCodeTemplateLocaleNotFound ''template locale not found'')))"

fun require_names :: "string list \<Rightarrow> vars_map \<Rightarrow> unit result" where
  "require_names [] vars = Inr ()"
| "require_names (name # names) vars =
     (if map_of vars name = None then
        Inl (renderError ErrorCodeMissingTemplateVar ''required template variable is missing'')
      else require_names names vars)"

definition requireVars :: "Template \<Rightarrow> vars_map \<Rightarrow> unit result" where
  "requireVars tmpl vars = require_names (tmpl_RequiredVars tmpl) vars"

text \<open>\<open>renderTextTemplate\<close> and \<open>renderHTMLTemplate\<close>: parse, then execute.\<close>

definition render_template :: "template_engine \<Rightarrow> string \<Rightarrow> string \<Rightarrow> vars_map \<Rightarrow> string result" where
  "render_template engine name source vars =
     (case engine name source of Inl e \<Rightarrow> Inl e | Inr execute \<Rightarrow> execute vars)"

text \<open>The body of one kind: empty if the template has none.\<close>

definition render_body ::
    "template_engine \<Rightarrow> string \<Rightarrow> string \<Rightarrow> vars_map \<Rightarrow> string \<Rightarrow> string result" where
  "render_body engine name source vars message =
     (if source = [] then Inr []
      else case render_template engine name source vars of
             Inl _ \<Rightarrow> Inl (renderError ErrorCodeTemplateRenderFailed message)
           | Inr body \<Rightarrow> Inr body)"

definition Render ::
    "template_engine \<Rightarrow> template_engine \<Rightarrow> App \<Rightarrow> Scene \<Rightarrow> SendRequest \<Rightarrow> RenderedMail result" where
  "Render text_engine html_engine app scene request =
     and_then (resolveTemplate app scene (sr_Locale request)) (\<lambda>(tmpl, locale).
     and_then (requireVars tmpl (sr_Vars request)) (\<lambda>_.
       case render_template text_engine ''subject'' (tmpl_Subject tmpl) (sr_Vars request) of
         Inl _ \<Rightarrow> Inl (renderError ErrorCodeTemplateRenderFailed ''template subject render failed'')
       | Inr subject \<Rightarrow>
           if TrimSpace subject = [] \<or> \<not> IsSafeEmailHeaderValue subject then
             Inl (renderError ErrorCodeTemplateRenderFailed
               ''template subject rendered an invalid header value'')
           else
             and_then (render_body html_engine ''html_body'' (tmpl_HTMLBody tmpl) (sr_Vars request)
               ''template html body render failed'') (\<lambda>htmlBody.
             and_then (render_body text_engine ''text_body'' (tmpl_TextBody tmpl) (sr_Vars request)
               ''template text body render failed'') (\<lambda>textBody.
               let hasHTML = (htmlBody \<noteq> []); hasText = (textBody \<noteq> [])
               in if \<not> hasHTML \<and> \<not> hasText then
                    Inl (renderError ErrorCodeTemplateRenderFailed
                      ''template must render html or text body'')
                  else Inr \<lparr>rm_TemplateCode = tmpl_Code tmpl, rm_Locale = locale, rm_Subject = subject,
                         rm_HTMLBody = htmlBody, rm_TextBody = textBody, rm_HasHTML = hasHTML,
                         rm_HasText = hasText, rm_MultipartAlternative = (hasHTML \<and> hasText)\<rparr>))))"

section \<open>The template that is chosen\<close>

lemma findEnabledTemplate_find:
  "findEnabledTemplate ts code locale =
     find (\<lambda>t. tmpl_Code t = code \<and> tmpl_Locale t = locale \<and> tmpl_Enabled t) ts"
  by (induction ts) auto

lemma findEnabledTemplate_Some:
  "findEnabledTemplate ts code locale = Some t \<Longrightarrow>
   t \<in> set ts \<and> tmpl_Code t = code \<and> tmpl_Locale t = locale \<and> tmpl_Enabled t"
  by (induction ts) (auto split: if_splits)

lemma findEnabledTemplate_None:
  "findEnabledTemplate ts code locale = None \<longleftrightarrow>
   (\<forall>t \<in> set ts. \<not> (tmpl_Code t = code \<and> tmpl_Locale t = locale \<and> tmpl_Enabled t))"
  by (auto simp: findEnabledTemplate_find find_None_iff)

lemma require_names_iff:
  "require_names names vars = Inr u \<longleftrightarrow> (\<forall>n \<in> set names. map_of vars n \<noteq> None)"
  by (induction names) auto

lemma require_names_error:
  "require_names names vars = Inl e \<Longrightarrow>
   e = renderError ErrorCodeMissingTemplateVar ''required template variable is missing''"
  by (induction names) (auto split: if_splits)

text \<open>The locales a request can be answered in: its own before the default one.\<close>

definition wanted_locales :: "App \<Rightarrow> string \<Rightarrow> string list" where
  "wanted_locales app locale = (if locale = [] then [] else [locale]) @ [app_DefaultLocale app]"

lemma resolveTemplate_spec:
  "resolveTemplate app scene locale =
     (case filter (\<lambda>l. findEnabledTemplate (app_Templates app) (scene_Template scene) l \<noteq> None)
        (wanted_locales app locale) of
        [] \<Rightarrow> Inl (renderError ErrorCodeTemplateLocaleNotFound ''template locale not found'')
      | l # _ \<Rightarrow> Inr (the (findEnabledTemplate (app_Templates app) (scene_Template scene) l), l))"
  by (auto simp: resolveTemplate_def wanted_locales_def Let_def split: option.split)

text \<open>What a rendered mail satisfies.\<close>

definition mail_complete :: "RenderedMail \<Rightarrow> bool" where
  "mail_complete m \<longleftrightarrow> TrimSpace (rm_Subject m) \<noteq> [] \<and> IsSafeEmailHeaderValue (rm_Subject m)
     \<and> (rm_HasHTML m \<longleftrightarrow> rm_HTMLBody m \<noteq> []) \<and> (rm_HasText m \<longleftrightarrow> rm_TextBody m \<noteq> [])
     \<and> (rm_HasHTML m \<or> rm_HasText m)
     \<and> (rm_MultipartAlternative m \<longleftrightarrow> rm_HasHTML m \<and> rm_HasText m)"

lemma Render_error:
  "Render te he app scene request = Inl e \<Longrightarrow>
   \<exists>msg. e = RenderError ErrorCodeTemplateLocaleNotFound msg
     \<or> e = RenderError ErrorCodeMissingTemplateVar msg \<or> e = RenderError ErrorCodeTemplateRenderFailed msg"
  by (auto simp: Render_def and_then_Inl_iff resolveTemplate_def requireVars_def renderError_def
        render_body_def Let_def dest!: require_names_error split: if_splits option.splits sum.splits prod.splits)

lemma Render_Inr:
  assumes "Render te he app scene request = Inr m"
  shows "mail_complete m"
    and "\<exists>t \<in> set (app_Templates app). tmpl_Enabled t \<and> tmpl_Code t = scene_Template scene
      \<and> tmpl_Locale t = rm_Locale m \<and> rm_TemplateCode m = tmpl_Code t
      \<and> (\<forall>n \<in> set (tmpl_RequiredVars t). map_of (sr_Vars request) n \<noteq> None)"
    and "rm_Locale m \<in> set (wanted_locales app (sr_Locale request))"
proof -
  obtain tmpl loc where t: "resolveTemplate app scene (sr_Locale request) = Inr (tmpl, loc)"
      "requireVars tmpl (sr_Vars request) = Inr ()"
    using assms by (auto simp: Render_def split: prod.splits)
  obtain subject where "render_template te ''subject'' (tmpl_Subject tmpl) (sr_Vars request) = Inr subject"
    using assms t
    by (cases "render_template te ''subject'' (tmpl_Subject tmpl) (sr_Vars request)") (auto simp: Render_def)
  then have r: "rm_TemplateCode m = tmpl_Code tmpl" "rm_Locale m = loc" "mail_complete m"
    using assms t by (auto simp: Render_def mail_complete_def Let_def split: if_splits)
  show "mail_complete m" by (fact r)
  have f: "findEnabledTemplate (app_Templates app) (scene_Template scene) loc = Some tmpl"
       "loc \<in> set (wanted_locales app (sr_Locale request))"
    using t(1) by (auto simp: resolveTemplate_def wanted_locales_def Let_def split: if_splits option.splits)
  then show "\<exists>t \<in> set (app_Templates app). tmpl_Enabled t \<and> tmpl_Code t = scene_Template scene
      \<and> tmpl_Locale t = rm_Locale m \<and> rm_TemplateCode m = tmpl_Code t
      \<and> (\<forall>n \<in> set (tmpl_RequiredVars t). map_of (sr_Vars request) n \<noteq> None)"
    and "rm_Locale m \<in> set (wanted_locales app (sr_Locale request))"
    using r t(2) findEnabledTemplate_Some [OF f(1)] by (auto simp: requireVars_def require_names_iff)
qed

end
