(* ===== verification/Base64.thy ===== *)
theory Base64
  imports GoStrings
begin

text \<open>
  \<open>encoding/base64\<close>, as far as the webhook secrets and signatures use it: decoding in the standard
  alphabet with padding (\<open>StdEncoding\<close>) and without (\<open>RawStdEncoding\<close>). Line breaks are skipped and
  the unused bits of the last character are not checked, as in Go.
\<close>

definition base64_alphabet :: string where
  "base64_alphabet = ''ABCDEFGHIJKLMNOPQRSTUVWXYZabcdefghijklmnopqrstuvwxyz0123456789+/''"

definition base64_value :: "char \<Rightarrow> nat option" where
  "base64_value c =
     (if is_upper c then Some (byte c - 65)
      else if is_lower c then Some (byte c - 71)
      else if is_digit c then Some (byte c + 4)
      else if c = CHR ''+'' then Some 62
      else if c = CHR ''/'' then Some 63
      else None)"

text \<open>The bytes of two, three or four characters.\<close>

definition base64_two :: "char \<Rightarrow> char \<Rightarrow> string option" where
  "base64_two a b =
     (case (base64_value a, base64_value b) of
        (Some x, Some y) \<Rightarrow> Some [char_of (x * 4 + y div 16)]
      | _ \<Rightarrow> None)"

definition base64_three :: "char \<Rightarrow> char \<Rightarrow> char \<Rightarrow> string option" where
  "base64_three a b c =
     (case (base64_two a b, base64_value b, base64_value c) of
        (Some bs, Some y, Some z) \<Rightarrow> Some (bs @ [char_of (y mod 16 * 16 + z div 4)])
      | _ \<Rightarrow> None)"

definition base64_four :: "char \<Rightarrow> char \<Rightarrow> char \<Rightarrow> char \<Rightarrow> string option" where
  "base64_four a b c d =
     (case (base64_three a b c, base64_value c, base64_value d) of
        (Some bs, Some z, Some w) \<Rightarrow> Some (bs @ [char_of (z mod 4 * 64 + w)])
      | _ \<Rightarrow> None)"

fun base64_chars :: "bool \<Rightarrow> string \<Rightarrow> string option" where
  "base64_chars padded [] = Some []"
| "base64_chars padded [a] = None"
| "base64_chars padded [a, b] = (if padded then None else base64_two a b)"
| "base64_chars padded [a, b, c] = (if padded then None else base64_three a b c)"
| "base64_chars padded (a # b # c # d # rest) =
     (if padded \<and> d = CHR ''='' \<and> rest = [] then
        (if c = CHR ''='' then base64_two a b else base64_three a b c)
      else (case base64_four a b c d of
              None \<Rightarrow> None
            | Some bs \<Rightarrow> map_option ((@) bs) (base64_chars padded rest)))"

definition base64_text :: "string \<Rightarrow> string" where
  "base64_text s = filter (\<lambda>c. byte c \<noteq> (10 :: nat) \<and> byte c \<noteq> (13 :: nat)) s"

definition StdEncoding_Decode :: "string \<Rightarrow> string option" where
  "StdEncoding_Decode s = base64_chars True (base64_text s)"

definition RawStdEncoding_Decode :: "string \<Rightarrow> string option" where
  "RawStdEncoding_Decode s = base64_chars False (base64_text s)"

text \<open>The values of the characters are their positions in the alphabet.\<close>

lemma base64_value_alphabet: "base64_value (base64_alphabet ! i) = Some i" if "i < 64"
proof -
  have "list_all (\<lambda>i. base64_value (base64_alphabet ! i) = Some i) [0..<64]" by code_simp
  then show ?thesis using that by (simp add: list_all_iff)
qed

end
