(* ===== verification/CallerIP.thy ===== *)
theory CallerIP
  imports IPAddr
begin

text \<open>
  The address of the caller, \<open>internal/api/caller_ip.go\<close>: the peer of the connection, or what a trusted
  proxy reports in \<open>X-Forwarded-For\<close> or \<open>X-Real-IP\<close>; and the check of \<open>trusted_proxies\<close> by
  \<open>internal/config/validation.go\<close>. The prefixes of \<open>net/netip\<close> and \<open>net.SplitHostPort\<close> are modelled here.
\<close>

section \<open>Prefixes\<close>

text \<open>A prefix with -1 bits is invalid.\<close>

record Prefix =
  pfx_Addr :: Addr
  pfx_Bits :: int

fun BitLen :: "Addr \<Rightarrow> nat" where
  "BitLen (Addr4 _) = 32"
| "BitLen (Addr6 _ _) = 128"

fun zone_of :: "Addr \<Rightarrow> string" where
  "zone_of (Addr4 _) = []"
| "zone_of (Addr6 _ z) = z"

fun withoutZone :: "Addr \<Rightarrow> Addr" where
  "withoutZone (Addr4 bs) = Addr4 bs"
| "withoutZone (Addr6 gs _) = Addr6 gs []"

text \<open>An address as a number, and the address of a number.\<close>

fun addr_value :: "Addr \<Rightarrow> nat" where
  "addr_value (Addr4 bs) = foldl (\<lambda>v b. v * 256 + b) 0 bs"
| "addr_value (Addr6 gs _) = foldl (\<lambda>v g. v * 65536 + g) 0 gs"

definition based :: "nat \<Rightarrow> nat \<Rightarrow> nat \<Rightarrow> nat list" where
  "based b k v = map (\<lambda>i. v div b ^ (k - 1 - i) mod b) [0..<k]"

fun with_value :: "Addr \<Rightarrow> nat \<Rightarrow> Addr" where
  "with_value (Addr4 _) v = Addr4 (based 256 4 v)"
| "with_value (Addr6 _ z) v = Addr6 (based 65536 8 v) z"

definition PrefixFrom :: "Addr \<Rightarrow> int \<Rightarrow> Prefix" where
  "PrefixFrom ip bits =
     \<lparr>pfx_Addr = withoutZone ip, pfx_Bits = (if 0 \<le> bits \<and> bits \<le> int (BitLen ip) then bits else -1)\<rparr>"

definition Prefix_IsValid :: "Prefix \<Rightarrow> bool" where
  "Prefix_IsValid p \<longleftrightarrow> 0 \<le> pfx_Bits p"

text \<open>The leading bits of an address, as many as a prefix has.\<close>

definition leading :: "Addr \<Rightarrow> int \<Rightarrow> nat" where
  "leading ip bits = addr_value ip div 2 ^ (BitLen ip - nat bits)"

definition Prefix_Contains :: "Prefix \<Rightarrow> Addr \<Rightarrow> bool" where
  "Prefix_Contains p ip =
     (if \<not> Prefix_IsValid p \<or> zone_of ip \<noteq> [] then False
      else if BitLen (pfx_Addr p) \<noteq> BitLen ip then False
      else leading ip (pfx_Bits p) = leading (pfx_Addr p) (pfx_Bits p))"

definition Masked :: "Prefix \<Rightarrow> Prefix" where
  "Masked p =
     (let ip = pfx_Addr p
      in PrefixFrom (with_value ip (leading ip (pfx_Bits p) * 2 ^ (BitLen ip - nat (pfx_Bits p))))
           (pfx_Bits p))"

text \<open>\<open>strings.LastIndexByte\<close> and \<open>strings.Cut\<close>: the text before and after a separator.\<close>

definition cut_last :: "char \<Rightarrow> string \<Rightarrow> (string \<times> string) option" where
  "cut_last c s =
     (if c \<notin> set s then None
      else let after = rev (takeWhile ((\<noteq>) c) (rev s))
           in Some (take (length s - length after - 1) s, after))"

definition before :: "char \<Rightarrow> string \<Rightarrow> string" where
  "before c s = takeWhile ((\<noteq>) c) s"

definition ParsePrefix :: "string \<Rightarrow> Prefix option" where
  "ParsePrefix s =
     (case cut_last CHR ''/'' s of
        None \<Rightarrow> None
      | Some (a, bits) \<Rightarrow>
          (case ParseAddr a of
             None \<Rightarrow> None
           | Some ip \<Rightarrow>
               if zone_of ip \<noteq> [] then None
               else if bits = [] \<or> \<not> list_all is_digit bits \<or> (1 < length bits \<and> hd bits = CHR ''0'') then None
               else if BitLen ip < digits_value bits then None
               else Some (PrefixFrom ip (int (digits_value bits)))))"

section \<open>Trusted proxies\<close>

definition normalizeAddr :: "Addr \<Rightarrow> Addr" where
  "normalizeAddr addr = (if Is4In6 addr then Unmap addr else addr)"

definition normalizeTrustedProxyPrefix :: "Prefix \<Rightarrow> Prefix option" where
  "normalizeTrustedProxyPrefix p =
     (let finish = (\<lambda>addr bits.
            if bits = 0 then None
            else let normalized = PrefixFrom addr bits
                 in if \<not> Prefix_IsValid normalized then None else Some (Masked normalized))
      in if Is4In6 (pfx_Addr p) then
           (if pfx_Bits p \<le> 96 then None else finish (Unmap (pfx_Addr p)) (pfx_Bits p - 96))
         else finish (normalizeAddr (pfx_Addr p)) (pfx_Bits p))"

definition parseTrustedProxy :: "string \<Rightarrow> Prefix result" where
  "parseTrustedProxy value0 =
     (let v = TrimSpace value0
      in if v = [] then Inl (Errorf ''trusted proxy is empty'')
         else if CHR ''/'' \<in> set v then
           (case ParsePrefix v of
              None \<Rightarrow> Inl (Errorf ''parse trusted proxy prefix'')
            | Some p \<Rightarrow>
                (case normalizeTrustedProxyPrefix p of
                   None \<Rightarrow> Inl (Errorf ''parse trusted proxy prefix: IPv4-mapped prefix is too broad'')
                 | Some normalized \<Rightarrow> Inr normalized))
         else case ParseAddr v of
                None \<Rightarrow> Inl (Errorf ''parse trusted proxy address'')
              | Some addr \<Rightarrow> Inr (PrefixFrom (normalizeAddr addr) (int (BitLen (normalizeAddr addr)))))"

fun newTrustedProxySet :: "string list \<Rightarrow> Prefix list result" where
  "newTrustedProxySet [] = Inr []"
| "newTrustedProxySet (v # vs) =
     and_then (parseTrustedProxy v) (\<lambda>p. and_then (newTrustedProxySet vs) (\<lambda>ps. Inr (p # ps)))"

definition proxies_contain :: "Prefix list \<Rightarrow> Addr \<Rightarrow> bool" where
  "proxies_contain trusted addr = list_ex (\<lambda>p. Prefix_Contains p (normalizeAddr addr)) trusted"

section \<open>The caller\<close>

text \<open>\<open>net.SplitHostPort\<close>; only whether it succeeds and the host matter.\<close>

definition SplitHostPort :: "string \<Rightarrow> string option" where
  "SplitHostPort hostport =
     (case cut_last CHR '':'' hostport of
        None \<Rightarrow> None
      | Some (host, port) \<Rightarrow>
          if hd hostport = CHR ''['' then
            (let inner = takeWhile ((\<noteq>) CHR '']'') hostport
             in if CHR '']'' \<notin> set hostport \<or> Suc (length inner) \<noteq> length host then None
                else if CHR ''['' \<in> set (drop 1 hostport) then None
                else if CHR '']'' \<in> set (drop (Suc (length inner)) hostport) then None
                else Some (drop 1 inner))
          else if CHR '':'' \<in> set host then None
          else if CHR ''['' \<in> set hostport \<or> CHR '']'' \<in> set hostport then None
          else Some host)"

definition parseIPFromAddress :: "string \<Rightarrow> Addr option" where
  "parseIPFromAddress value0 =
     (let v = TrimSpace value0
      in if v = [] then None
         else case ParseAddr v of
                Some addr \<Rightarrow> Some (normalizeAddr addr)
              | None \<Rightarrow> map_option normalizeAddr (Option.bind (SplitHostPort v) ParseAddr))"

definition firstHeaderIP :: "string \<Rightarrow> Addr option" where
  "firstHeaderIP v = (if TrimSpace v = [] then None else parseIPFromAddress (before CHR '','' v))"

definition resolve_caller :: "Prefix list \<Rightarrow> string \<Rightarrow> string \<Rightarrow> string \<Rightarrow> string" where
  "resolve_caller trustedProxies remoteAddr forwardedFor realIP =
     (case parseIPFromAddress remoteAddr of
        None \<Rightarrow> TrimSpace remoteAddr
      | Some remoteIP \<Rightarrow>
          if \<not> proxies_contain trustedProxies remoteIP then Addr_String remoteIP
          else case firstHeaderIP forwardedFor of
                 Some forwardedIP \<Rightarrow> Addr_String forwardedIP
               | None \<Rightarrow>
                   (case parseIPFromAddress realIP of
                      Some ip \<Rightarrow> Addr_String ip
                    | None \<Rightarrow> Addr_String remoteIP))"

section \<open>The check of the configuration\<close>

definition isValidTrustedProxyPrefix :: "Prefix \<Rightarrow> bool" where
  "isValidTrustedProxyPrefix p =
     (if Is4In6 (pfx_Addr p) then 96 < pfx_Bits p else 0 < pfx_Bits p)"

definition isValidTrustedProxy :: "string \<Rightarrow> bool" where
  "isValidTrustedProxy value0 =
     (let v = TrimSpace value0
      in if v = [] then False
         else if CHR ''/'' \<in> set v then
           (case ParsePrefix v of None \<Rightarrow> False | Some p \<Rightarrow> isValidTrustedProxyPrefix p)
         else ParseAddr v \<noteq> None)"


section \<open>Facts\<close>

lemma normalizeAddr_eq: "normalizeAddr a = normalizeIPAddr a"
  by (simp add: normalizeAddr_def normalizeIPAddr_def)

lemma foldl_base: "foldl (\<lambda>v x. v * b + x) v0 xs = v0 * b ^ length xs + foldl (\<lambda>v x. v * b + x) (0::nat) xs"
proof (induction xs arbitrary: v0)
  case (Cons x xs)
  show ?case using Cons [of "v0 * b + x"] Cons [of x] by (simp add: algebra_simps)
qed simp

lemma foldl_base_less:
  assumes "\<forall>x \<in> set xs. x < b"
  shows "foldl (\<lambda>v x. v * b + x) (0::nat) xs < b ^ length xs"
  using assms
proof (induction xs rule: rev_induct)
  case (snoc x xs)
  let ?v = "foldl (\<lambda>v x. v * b + x) 0 xs"
  have "?v + 1 \<le> b ^ length xs" "x < b" using snoc by auto
  then have "?v * b + b \<le> b ^ length xs * b" using mult_le_mono1 [of "?v + 1" "b ^ length xs" b] by simp
  then show ?case using \<open>x < b\<close> by (simp add: mult.commute)
qed simp

lemma addr_value_less: "wf_addr a \<Longrightarrow> addr_value a < 2 ^ BitLen a"
  using foldl_base_less [of _ 256] foldl_base_less [of _ 65536] by (cases a) fastforce+

lemma based_Suc: "based b (Suc k) v = based b k (v div b) @ [v mod b]"
proof -
  have "v div b ^ (Suc k - 1 - i) mod b = v div b div b ^ (k - 1 - i) mod b" if "i < k" for i
  proof -
    have "Suc k - 1 - i = Suc (k - 1 - i)" using that by simp
    then show ?thesis by (simp add: div_mult2_eq)
  qed
  then show ?thesis by (simp add: based_def)
qed

lemma foldl_based: "v < b ^ k \<Longrightarrow> foldl (\<lambda>v x. v * b + x) (0::nat) (based b k v) = v"
proof (induction k arbitrary: v)
  case (Suc k)
  then have "v div b < b ^ k" by (simp add: less_mult_imp_div_less mult.commute)
  then show ?case using Suc.IH by (simp add: based_Suc)
qed (simp add: based_def)

lemma addr_value_with: "v < 2 ^ BitLen a \<Longrightarrow> addr_value (with_value a v) = v"
  using foldl_based [of v 256 4] foldl_based [of v 65536 8] by (cases a) simp_all

lemma withoutZone_facts [simp]:
  "BitLen (withoutZone a) = BitLen a" "addr_value (withoutZone a) = addr_value a"
  "BitLen (with_value a v) = BitLen a" "zone_of (withoutZone a) = []"
  "leading (withoutZone a) = leading a" "Is4In6 (withoutZone a) = Is4In6 a"
  "withoutZone (withoutZone a) = withoutZone a" "wf_addr (withoutZone a) = wf_addr a"
  by (cases a; simp add: leading_def fun_eq_iff)+

lemma Contains_PrefixFrom:
  "Prefix_Contains (PrefixFrom ip bits) a \<longleftrightarrow>
     0 \<le> bits \<and> bits \<le> int (BitLen ip) \<and> zone_of a = [] \<and> BitLen ip = BitLen a
     \<and> leading a bits = leading ip bits"
  by (auto simp: Prefix_Contains_def PrefixFrom_def Prefix_IsValid_def)

lemma Contains_Masked:
  assumes "wf_addr (pfx_Addr p)" "0 \<le> pfx_Bits p" "pfx_Bits p \<le> int (BitLen (pfx_Addr p))"
  shows "Prefix_Contains (Masked p) a \<longleftrightarrow> Prefix_Contains p a"
proof -
  let ?ip = "pfx_Addr p" and ?k = "BitLen (pfx_Addr p) - nat (pfx_Bits p)"
  have "leading ?ip (pfx_Bits p) * 2 ^ ?k \<le> addr_value ?ip" by (simp add: leading_def)
  then have v: "leading ?ip (pfx_Bits p) * 2 ^ ?k < 2 ^ BitLen ?ip"
    using addr_value_less [OF assms(1)] by linarith
  then have "leading (with_value ?ip (leading ?ip (pfx_Bits p) * 2 ^ ?k)) (pfx_Bits p) = leading ?ip (pfx_Bits p)"
    by (simp add: leading_def addr_value_with)
  then have "Prefix_Contains (Masked p) a \<longleftrightarrow>
      zone_of a = [] \<and> BitLen ?ip = BitLen a \<and> leading a (pfx_Bits p) = leading ?ip (pfx_Bits p)"
    using assms(2,3) by (simp add: Masked_def Let_def Contains_PrefixFrom)
  then show ?thesis using assms(2) by (auto simp: Prefix_Contains_def Prefix_IsValid_def)
qed

lemma ParsePrefix_Some:
  assumes "ParsePrefix s = Some p"
  shows "wf_addr (pfx_Addr p)" "0 \<le> pfx_Bits p" "pfx_Bits p \<le> int (BitLen (pfx_Addr p))"
    "zone_of (pfx_Addr p) = []"
  using assms by (auto simp: ParsePrefix_def PrefixFrom_def dest!: ParseAddr_wf split: option.splits if_splits prod.splits)

lemma normalizeAddr_wf: "wf_addr a \<Longrightarrow> wf_addr (normalizeAddr a)"
  by (simp add: normalizeAddr_eq normalizeIPAddr_wf)

lemma Is4In6_BitLen: "Is4In6 a \<Longrightarrow> BitLen a = 128 \<and> BitLen (Unmap a) = 32 \<and> normalizeAddr a = Unmap a"
  by (cases a) (auto simp: normalizeAddr_def)

text \<open>
  What an entry of \<open>trusted_proxies\<close> stands for, by its text: the leading bits of an address, an
  IPv4-mapped one read as the IPv4 address it maps.
\<close>

definition listed_network :: "string \<Rightarrow> (Addr \<times> int) option" where
  "listed_network value0 =
     (let v = TrimSpace value0
      in if CHR ''/'' \<in> set v then
           map_option (\<lambda>p. if Is4In6 (pfx_Addr p) then (Unmap (pfx_Addr p), pfx_Bits p - 96)
                            else (pfx_Addr p, pfx_Bits p)) (ParsePrefix v)
         else map_option (\<lambda>a. (normalizeIPAddr a, int (BitLen (normalizeIPAddr a)))) (ParseAddr v))"

definition covers :: "string \<Rightarrow> Addr \<Rightarrow> bool" where
  "covers v a \<longleftrightarrow>
     (case listed_network v of
        None \<Rightarrow> False
      | Some (b, n) \<Rightarrow> zone_of a = [] \<and> BitLen a = BitLen b \<and> leading a n = leading b n)"

lemma normalizeTrustedProxyPrefix_Some:
  assumes p: "ParsePrefix s = Some p"
  shows "normalizeTrustedProxyPrefix p =
    (if isValidTrustedProxyPrefix p then
       Some (Masked (PrefixFrom (normalizeAddr (pfx_Addr p))
         (if Is4In6 (pfx_Addr p) then pfx_Bits p - 96 else pfx_Bits p)))
     else None)"
  using ParsePrefix_Some [OF p] Is4In6_BitLen [of "pfx_Addr p"]
  by (auto simp: normalizeTrustedProxyPrefix_def isValidTrustedProxyPrefix_def Let_def PrefixFrom_def
      Prefix_IsValid_def normalizeAddr_def split: if_splits)

lemma parseTrustedProxy_prefix:
  assumes p: "ParsePrefix s = Some p" and v: "isValidTrustedProxyPrefix p"
    and n: "n = (if Is4In6 (pfx_Addr p) then pfx_Bits p - 96 else pfx_Bits p)"
  shows "Prefix_Contains (Masked (PrefixFrom (normalizeAddr (pfx_Addr p)) n)) a \<longleftrightarrow>
    zone_of a = [] \<and> BitLen a = BitLen (normalizeAddr (pfx_Addr p))
    \<and> leading a n = leading (normalizeAddr (pfx_Addr p)) n"
proof -
  note f = ParsePrefix_Some [OF p] and wf = normalizeAddr_wf [OF ParsePrefix_Some(1) [OF p]]
  have b: "0 \<le> n" "n \<le> int (BitLen (normalizeAddr (pfx_Addr p)))"
    using f v n Is4In6_BitLen [of "pfx_Addr p"]
    by (auto simp: isValidTrustedProxyPrefix_def normalizeAddr_def split: if_splits)
  have "Prefix_Contains (Masked (PrefixFrom (normalizeAddr (pfx_Addr p)) n)) a \<longleftrightarrow>
      Prefix_Contains (PrefixFrom (normalizeAddr (pfx_Addr p)) n) a"
    by (rule Contains_Masked) (use b wf in \<open>auto simp: PrefixFrom_def\<close>)
  then show ?thesis using b by (auto simp: Contains_PrefixFrom)
qed

lemma parseTrustedProxy_valid: "(\<exists>p. parseTrustedProxy v = Inr p) \<longleftrightarrow> isValidTrustedProxy v"
  by (auto simp: parseTrustedProxy_def isValidTrustedProxy_def Let_def normalizeTrustedProxyPrefix_Some
      split: option.splits if_splits)

lemma parseTrustedProxy_covers:
  assumes "parseTrustedProxy v = Inr p"
  shows "Prefix_Contains p a \<longleftrightarrow> covers v a"
proof (cases "CHR ''/'' \<in> set (TrimSpace v)")
  case True
  then obtain q where q: "ParsePrefix (TrimSpace v) = Some q"
    and n: "normalizeTrustedProxyPrefix q = Some p"
    using assms by (auto simp: parseTrustedProxy_def Let_def split: option.splits if_splits)
  then have ok: "isValidTrustedProxyPrefix q" by (auto simp: normalizeTrustedProxyPrefix_Some split: if_splits)
  let ?n = "if Is4In6 (pfx_Addr q) then pfx_Bits q - 96 else pfx_Bits q"
  have p: "p = Masked (PrefixFrom (normalizeAddr (pfx_Addr q)) ?n)"
    using n ok by (simp add: normalizeTrustedProxyPrefix_Some [OF q])
  show ?thesis using parseTrustedProxy_prefix [OF q ok refl, of a] True q
    by (auto simp: p covers_def listed_network_def Let_def normalizeAddr_def)
next
  case False
  then obtain b where "ParseAddr (TrimSpace v) = Some b"
    "p = PrefixFrom (normalizeAddr b) (int (BitLen (normalizeAddr b)))"
    using assms by (auto simp: parseTrustedProxy_def Let_def split: option.splits if_splits)
  then show ?thesis using False
    by (auto simp: covers_def listed_network_def Contains_PrefixFrom normalizeAddr_eq)
qed

lemma newTrustedProxySet_valid:
  "(\<exists>ps. newTrustedProxySet vs = Inr ps) \<longleftrightarrow> list_all isValidTrustedProxy vs"
  by (induction vs) (auto simp flip: parseTrustedProxy_valid)

lemma newTrustedProxySet_covers:
  assumes "newTrustedProxySet vs = Inr ps"
  shows "proxies_contain ps a \<longleftrightarrow> (\<exists>v \<in> set vs. covers v (normalizeAddr a))"
  using assms by (induction vs arbitrary: ps) (auto simp: proxies_contain_def parseTrustedProxy_covers)

lemma parseIPFromAddress_canonical:
  assumes "parseIPFromAddress s = Some a"
  shows "canonical_ip (Addr_String a) = Some (Addr_String a)" "normalizeAddr a = a"
proof -
  obtain t b where b: "ParseAddr t = Some b" "a = normalizeIPAddr b"
    using assms by (auto simp: parseIPFromAddress_def Let_def normalizeAddr_eq split: option.splits if_splits bind_splits)
  then show "canonical_ip (Addr_String a) = Some (Addr_String a)"
    by (simp add: canonical_ip_def ParseAddr_canonical normalizeIPAddr_idem)
  show "normalizeAddr a = a" using b by (simp add: normalizeAddr_eq normalizeIPAddr_idem)
qed


text \<open>
  C39. Only a trusted proxy can speak for another address: the list of trusted proxies is accepted
  exactly when each entry passes the check of the configuration; if no entry covers the peer, the
  headers of the request are ignored and the caller is the peer; and whatever the headers say, the
  caller is the canonical text of an address, so that an address written in two ways is counted as
  one, unless the peer itself has no address.
\<close>

theorem caller_ip_trust:
  assumes "list_all isValidTrustedProxy vs"
  shows "\<exists>ps. newTrustedProxySet vs = Inr ps
    \<and> (\<forall>a. parseIPFromAddress remote = Some a \<longrightarrow> \<not> (\<exists>v \<in> set vs. covers v a) \<longrightarrow>
         resolve_caller ps remote forwardedFor realIP = Addr_String a)
    \<and> (if parseIPFromAddress remote = None
       then resolve_caller ps remote forwardedFor realIP = TrimSpace remote
       else canonical_ip (resolve_caller ps remote forwardedFor realIP)
              = Some (resolve_caller ps remote forwardedFor realIP))"
proof -
  obtain ps where ps: "newTrustedProxySet vs = Inr ps" using assms newTrustedProxySet_valid by blast
  have header: "firstHeaderIP h = Some a \<Longrightarrow> canonical_ip (Addr_String a) = Some (Addr_String a)" for h a
    by (auto simp: firstHeaderIP_def parseIPFromAddress_canonical split: if_splits)
  show ?thesis
    using newTrustedProxySet_covers [OF ps] header parseIPFromAddress_canonical
    by (intro exI [of _ ps]) (auto simp: ps resolve_caller_def split: option.splits)
qed

lemma caller_ip_trust_witness:
  "\<exists>ps. newTrustedProxySet [''10.0.0.0/8'', ''::1''] = Inr ps
    \<and> resolve_caller ps ''11.0.0.1:80'' ''1.2.3.4'' [] = ''11.0.0.1''
    \<and> resolve_caller ps ''[::FFFF:10.1.2.3]:80'' ''1.2.3.4'' [] = ''1.2.3.4''"
proof -
  have v: "list_all isValidTrustedProxy [''10.0.0.0/8'', ''::1'']" by code_simp
  have a: "parseIPFromAddress ''11.0.0.1:80'' = Some (Addr4 [11, 0, 0, 1])" by code_simp
  have n: "\<not> covers ''10.0.0.0/8'' (Addr4 [11, 0, 0, 1])" "\<not> covers ''::1'' (Addr4 [11, 0, 0, 1])"
    by code_simp+
  obtain ps where ps: "newTrustedProxySet [''10.0.0.0/8'', ''::1''] = Inr ps"
    "resolve_caller ps ''11.0.0.1:80'' ''1.2.3.4'' [] = Addr_String (Addr4 [11, 0, 0, 1])"
    using caller_ip_trust [OF v, of "''11.0.0.1:80''" "''1.2.3.4''" "[]"] a n by auto
  have "(case newTrustedProxySet [''10.0.0.0/8'', ''::1''] of Inl _ \<Rightarrow> False | Inr ps \<Rightarrow>
      resolve_caller ps ''[::FFFF:10.1.2.3]:80'' ''1.2.3.4'' [] = ''1.2.3.4'')" by code_simp
  moreover have "Addr_String (Addr4 [11, 0, 0, 1]) = ''11.0.0.1''" by code_simp
  ultimately show ?thesis using ps by auto
qed

end
