(* ===== verification/ConfigValidation.thy ===== *)
theory ConfigValidation
  imports Config TemplateRender Base64 CallerIP Suppression Sha256
begin

text \<open>
  The validation of the configuration, \<open>internal/config/validation.go\<close>. A validation step adds
  warnings and errors to the report; here every step returns what it adds, and the steps of a
  component are joined in the order of the code. The maps the validator fills while it goes (accounts,
  channels, application codes, key hashes) are threaded through the loops. The template engines, the
  YAML decoder and the file system are arguments, as in the theories that model their use.
\<close>

section \<open>Reports\<close>

record ValidationError =
  ve_Code :: string
  ve_Path :: string
  ve_Message :: string

record ValidationReport =
  rep_Warnings :: "ValidationWarning list"
  rep_Errors :: "ValidationError list"

record ValidationOptions =
  vo_StrictPlainSecrets :: bool

definition no_report :: ValidationReport where
  "no_report = \<lparr>rep_Warnings = [], rep_Errors = []\<rparr>"

definition addError :: "string \<Rightarrow> string \<Rightarrow> string \<Rightarrow> ValidationReport" where
  "addError code path message =
     \<lparr>rep_Warnings = [], rep_Errors = [\<lparr>ve_Code = code, ve_Path = path, ve_Message = message\<rparr>]\<rparr>"

definition join_reports :: "ValidationReport list \<Rightarrow> ValidationReport" where
  "join_reports rs = \<lparr>rep_Warnings = concat (List.map rep_Warnings rs), rep_Errors = concat (List.map rep_Errors rs)\<rparr>"

text \<open>\<open>if cond { v.addError(...) }\<close>\<close>

definition error_if :: "bool \<Rightarrow> string \<Rightarrow> string \<Rightarrow> string \<Rightarrow> ValidationReport" where
  "error_if b code path message = (if b then addError code path message else no_report)"

definition HasErrors :: "ValidationReport \<Rightarrow> bool" where
  "HasErrors r \<longleftrightarrow> rep_Errors r \<noteq> []"

text \<open>\<open>fmt.Sprintf("%s[%d]", path, index)\<close>, and the body of a loop over a list with its index.\<close>

definition indexed :: "string \<Rightarrow> nat \<Rightarrow> string" where
  "indexed path i = path @ ''['' @ decimal i @ '']''"

definition each_indexed :: "(nat \<Rightarrow> 'a \<Rightarrow> ValidationReport) \<Rightarrow> 'a list \<Rightarrow> ValidationReport" where
  "each_indexed step xs = join_reports (List.map (\<lambda>(i, x). step i x) (zip [0..<length xs] xs))"

lemma rep_Errors_simps [simp]:
  "rep_Errors no_report = []" "rep_Errors (addError c p m) \<noteq> []"
  "rep_Errors (error_if b c p m) = [] \<longleftrightarrow> \<not> b"
  "rep_Errors (join_reports rs) = [] \<longleftrightarrow> (\<forall>r \<in> set rs. rep_Errors r = [])"
  by (auto simp: no_report_def addError_def error_if_def join_reports_def)

lemma rep_Errors_each [simp]:
  "rep_Errors (each_indexed step xs) = [] \<longleftrightarrow> (\<forall>i < length xs. rep_Errors (step i (xs ! i)) = [])"
proof
  assume l: "rep_Errors (each_indexed step xs) = []"
  show "\<forall>i < length xs. rep_Errors (step i (xs ! i)) = []"
  proof (intro allI impI)
    fix i assume "i < length xs"
    then have "(i, xs ! i) \<in> set (zip [0..<length xs] xs)"
      by (auto simp: set_zip intro!: exI [of _ i])
    then show "rep_Errors (step i (xs ! i)) = []" using l by (fastforce simp: each_indexed_def)
  qed
next
  assume "\<forall>i < length xs. rep_Errors (step i (xs ! i)) = []"
  then show "rep_Errors (each_indexed step xs) = []" by (auto simp: each_indexed_def set_zip)
qed

section \<open>Formats\<close>

definition maxMVPAttemptsPerMessage :: int where "maxMVPAttemptsPerMessage = 3"
definition maxMVPRetryBackoffSeconds :: int where "maxMVPRetryBackoffSeconds = 300"

text \<open>The pattern \<open>[a-z0-9]([a-z0-9_-]{0,62}[a-z0-9])?\<close>, anchored at both ends.\<close>

definition identifierPattern :: "string \<Rightarrow> bool" where
  "identifierPattern s =
     (case s of
        [] \<Rightarrow> False
      | c # rest \<Rightarrow>
          lower_or_digit c
          \<and> (rest = []
             \<or> length rest - 1 \<le> 62
               \<and> list_all (\<lambda>x. lower_or_digit x \<or> x = CHR ''_'' \<or> x = CHR ''-'') (butlast rest)
               \<and> lower_or_digit (last rest)))"

text \<open>The pattern \<open>[a-z]{2,3}-[A-Z]{2}\<close>, anchored at both ends.\<close>

definition isValidLocale :: "string \<Rightarrow> bool" where
  "isValidLocale s \<longleftrightarrow>
     list_ex (\<lambda>n. length s = n + 3 \<and> list_all is_lower (take n s) \<and> s ! n = CHR ''-''
       \<and> list_all is_upper (drop (n + 1) s)) [2, 3]"

definition isVisibleASCIIWithoutWhitespaceSecret :: "string \<Rightarrow> bool" where
  "isVisibleASCIIWithoutWhitespaceSecret v \<longleftrightarrow> v \<noteq> [] \<and> list_all (\<lambda>r. \<not> (r < 33 \<or> 126 < r)) (runes v)"

definition isValidResendWebhookSecretValue :: "string \<Rightarrow> bool" where
  "isValidResendWebhookSecretValue v0 =
     (let v = TrimPrefix (TrimSpace v0) ''whsec_''
      in if v = [] then False
         else if StdEncoding_Decode v \<notin> {None, Some []} then True
         else if RawStdEncoding_Decode v \<notin> {None, Some []} then True
         else False)"

definition route_label :: "string \<Rightarrow> bool" where
  "route_label label \<longleftrightarrow>
     \<not> (label = [] \<or> 63 < length label)
     \<and> list_all (\<lambda>i. (is_lower (label ! i) \<or> is_digit (label ! i) \<or> label ! i = CHR ''-'')
         \<and> (i = 0 \<or> i = length label - 1 \<longrightarrow> is_lower (label ! i) \<or> is_digit (label ! i))) [0..<length label]"

definition isValidRouteDomain :: "string \<Rightarrow> bool" where
  "isValidRouteDomain v \<longleftrightarrow>
     \<not> (v = [] \<or> 253 < length v \<or> TrimSpace v \<noteq> v \<or> v \<noteq> ToLower v \<or> \<not> isASCII v)
     \<and> list_all route_label (split_at CHR ''.'' v)"

definition providerAPIKeyUsesHTTPHeader :: "Provider \<Rightarrow> bool" where
  "providerAPIKeyUsesHTTPHeader p \<longleftrightarrow> p = ProviderResend \<or> p = ProviderBrevo"

definition templateKey :: "string \<Rightarrow> string \<Rightarrow> string" where
  "templateKey code locale = code @ char_of (0 :: nat) # locale"

section \<open>Server, runtime, defaults and logging\<close>

definition validateServer :: "ServerConfig \<Rightarrow> ValidationReport" where
  "validateServer s = join_reports
     [error_if (server_Listen s = []) ''server_listen_required'' ''server.listen'' ''server.listen is required'',
      error_if (server_ReadTimeoutSeconds s \<le> 0) ''server_timeout_invalid'' ''server.read_timeout_seconds''
        ''server.read_timeout_seconds must be greater than 0'',
      error_if (server_ReadHeaderTimeoutSeconds s \<le> 0) ''server_timeout_invalid''
        ''server.read_header_timeout_seconds'' ''server.read_header_timeout_seconds must be greater than 0'',
      error_if (server_WriteTimeoutSeconds s \<le> 0) ''server_timeout_invalid'' ''server.write_timeout_seconds''
        ''server.write_timeout_seconds must be greater than 0'',
      error_if (server_IdleTimeoutSeconds s \<le> 0) ''server_timeout_invalid'' ''server.idle_timeout_seconds''
        ''server.idle_timeout_seconds must be greater than 0'',
      each_indexed (\<lambda>i proxy. error_if (\<not> isValidTrustedProxy proxy) ''trusted_proxy_invalid''
        (indexed ''server.trusted_proxies'' i) ''trusted proxy must be an IP address or CIDR prefix'')
        (server_TrustedProxies s)]"

definition requireValue :: "string \<Rightarrow> string \<Rightarrow> string list \<Rightarrow> ValidationReport" where
  "requireValue path v allowed =
     error_if (v \<notin> set allowed) ''runtime_invalid'' path (path @ '' must be one of '' @ join '', '' allowed)"

definition validateRuntime :: "RuntimeConfig \<Rightarrow> ValidationReport" where
  "validateRuntime r = join_reports
     [requireValue ''runtime.config_store'' (runtime_ConfigStore r) [''file''],
      requireValue ''runtime.queue'' (runtime_Queue r) [''memory''],
      requireValue ''runtime.rate_limiter'' (runtime_RateLimiter r) [''memory''],
      requireValue ''runtime.message_log'' (runtime_MessageLog r) [''file''],
      requireValue ''runtime.stats'' (runtime_Stats r) [''off'', ''file''],
      requireValue ''runtime.suppression'' (runtime_Suppression r) [''file'']]"

text \<open>The checks that a value of \<open>defaults\<close> is positive.\<close>

definition positive_default :: "string \<Rightarrow> int \<Rightarrow> ValidationReport" where
  "positive_default path v = error_if (v \<le> 0) ''default_invalid'' path (path @ '' must be greater than 0'')"

definition validate_backoff :: "nat \<Rightarrow> int \<Rightarrow> ValidationReport" where
  "validate_backoff index backoffSeconds =
     (let path = indexed ''defaults.retry_backoff_seconds'' index
      in if backoffSeconds < 0 \<or> maxMVPRetryBackoffSeconds < backoffSeconds then
           addError ''retry_backoff_invalid'' path ''defaults.retry_backoff_seconds values must be between 0 and 300''
         else error_if (index = 0 \<and> backoffSeconds \<noteq> 0) ''retry_backoff_invalid'' path
           ''defaults.retry_backoff_seconds[0] must be 0'')"

definition validateDefaults :: "DefaultsConfig \<Rightarrow> ValidationReport" where
  "validateDefaults d = join_reports
     [positive_default ''defaults.provider_timeout_seconds'' (defaults_ProviderTimeoutSeconds d),
      error_if (defaults_MaxAttemptsPerMessage d \<le> 0
          \<or> maxMVPAttemptsPerMessage < defaults_MaxAttemptsPerMessage d) ''default_invalid''
        ''defaults.max_attempts_per_message'' ''defaults.max_attempts_per_message must be between 1 and 3'',
      error_if (int (length (defaults_RetryBackoffSeconds d)) \<noteq> defaults_MaxAttemptsPerMessage d)
        ''retry_backoff_invalid'' ''defaults.retry_backoff_seconds''
        ''defaults.retry_backoff_seconds length must equal defaults.max_attempts_per_message'',
      each_indexed validate_backoff (defaults_RetryBackoffSeconds d),
      positive_default ''defaults.memory_queue_size'' (defaults_MemoryQueueSize d),
      positive_default ''defaults.worker_concurrency'' (defaults_WorkerConcurrency d),
      positive_default ''defaults.idempotency_cache_size'' (defaults_IdempotencyCacheSize d),
      positive_default ''defaults.idempotency_ttl_hours'' (defaults_IdempotencyTTLHours d),
      positive_default ''defaults.max_request_body_bytes'' (defaults_MaxRequestBodyBytes d),
      positive_default ''defaults.max_template_var_bytes'' (defaults_MaxTemplateVarBytes d),
      positive_default ''defaults.max_context_bytes'' (defaults_MaxContextBytes d)]"

definition validateLogging :: "LoggingConfig \<Rightarrow> ValidationReport" where
  "validateLogging l = join_reports
     [error_if (logging_Dir l = []) ''logging_dir_required'' ''logging.dir'' ''logging.dir is required'',
      error_if (logging_MaxFileSizeMB l \<le> 0) ''logging_invalid'' ''logging.max_file_size_mb''
        ''logging.max_file_size_mb must be greater than 0'',
      error_if (logging_MaxBackups l < 1) ''logging_invalid'' ''logging.max_backups''
        ''logging.max_backups must be at least 1'']"

section \<open>Identifiers and secrets\<close>

definition validateIdentifier :: "string \<Rightarrow> string \<Rightarrow> ValidationReport" where
  "validateIdentifier path v = error_if (\<not> identifierPattern v) ''identifier_invalid'' path
     ''identifier must be 1 to 64 characters and contain only lowercase letters, digits, underscores, and hyphens''"

text \<open>The text of an error.\<close>

fun error_text :: "go_error \<Rightarrow> string" where
  "error_text (Errorf s) = s"
| "error_text (Wrapf s e) = s @ '': '' @ error_text e"
| "error_text _ = []"

definition secret_warning :: "ValidationOptions \<Rightarrow> string \<Rightarrow> ValidationWarning \<Rightarrow> ValidationReport" where
  "secret_warning options path warning =
     (if vo_StrictPlainSecrets options \<and> warn_Code warning = ''plain_secret_ref'' then
        addError ''plain_secret_ref_forbidden'' path ''plain secret references are forbidden in strict validation''
      else \<lparr>rep_Warnings = [warning\<lparr>warn_Path := path\<rparr>], rep_Errors = []\<rparr>)"

text \<open>The resolved secret, if there is one, and what is reported.\<close>

definition resolveSecretRef ::
    "SecretResolver \<Rightarrow> ValidationOptions \<Rightarrow> string \<Rightarrow> string \<Rightarrow> ResolvedSecret option \<times> ValidationReport" where
  "resolveSecretRef resolver options path ref =
     (if TrimSpace ref = [] then (None, addError ''secret_ref_required'' path ''secret reference is required'')
      else case resolver ref of
             Inl e \<Rightarrow> (None, addError ''secret_ref_invalid'' path (error_text e))
           | Inr resolved \<Rightarrow>
               let warned = join_reports (List.map (secret_warning options path) (secret_Warnings resolved))
               in if secret_Value resolved = [] then
                    (None, join_reports [warned, addError ''secret_value_empty'' path ''secret value must not be empty''])
                  else (Some resolved, warned))"

definition validateSecretRef ::
    "SecretResolver \<Rightarrow> ValidationOptions \<Rightarrow> string \<Rightarrow> string \<Rightarrow> ResolvedSecret option \<times> ValidationReport" where
  "validateSecretRef resolver options path ref = resolveSecretRef resolver options path ref"

definition validateBearerSecretRef ::
    "SecretResolver \<Rightarrow> ValidationOptions \<Rightarrow> string \<Rightarrow> string \<Rightarrow> ValidationReport" where
  "validateBearerSecretRef resolver options path ref =
     (case validateSecretRef resolver options path ref of
        (Some resolved, r) \<Rightarrow>
          join_reports [r, error_if (\<not> isVisibleASCIIWithoutWhitespaceSecret (secret_Value resolved))
            ''secret_value_invalid'' path ''webhook bearer secret value must be visible ASCII without whitespace'']
      | (None, r) \<Rightarrow> r)"

definition validateWebhooks :: "SecretResolver \<Rightarrow> ValidationOptions \<Rightarrow> WebhookConfig \<Rightarrow> ValidationReport" where
  "validateWebhooks resolver options w =
     (if \<not> webhook_Enabled w then no_report
      else if TrimSpace (webhook_SharedSecretRef w) = [] \<and> TrimSpace (webhook_ResendSecretRef w) = []
          \<and> TrimSpace (webhook_BrevoTokenRef w) = [] then
        addError ''secret_ref_required'' ''webhooks''
          ''at least one webhook secret reference is required when webhooks are enabled''
      else join_reports
        [if TrimSpace (webhook_SharedSecretRef w) \<noteq> [] then
           validateBearerSecretRef resolver options ''webhooks.shared_secret_ref'' (webhook_SharedSecretRef w)
         else no_report,
         if TrimSpace (webhook_ResendSecretRef w) \<noteq> [] then
           (case validateSecretRef resolver options ''webhooks.resend_secret_ref'' (webhook_ResendSecretRef w) of
              (Some resolved, r) \<Rightarrow>
                join_reports [r, error_if (\<not> isValidResendWebhookSecretValue (secret_Value resolved))
                  ''resend_webhook_secret_invalid'' ''webhooks.resend_secret_ref''
                  ''resend webhook secret must be a non-empty whsec_ or base64 Svix secret'']
            | (None, r) \<Rightarrow> r)
         else no_report,
         if TrimSpace (webhook_BrevoTokenRef w) \<noteq> [] then
           validateBearerSecretRef resolver options ''webhooks.brevo_token_ref'' (webhook_BrevoTokenRef w)
         else no_report])"

section \<open>Provider accounts and channels\<close>

definition credential :: "ProviderAccountConfig \<Rightarrow> string \<Rightarrow> string" where
  "credential account name = (case map_of (pac_Credentials account) name of None \<Rightarrow> [] | Some ref \<Rightarrow> ref)"

definition validate_credential ::
    "SecretResolver \<Rightarrow> ValidationOptions \<Rightarrow> string \<Rightarrow> Provider \<Rightarrow> string \<times> string \<Rightarrow> ValidationReport" where
  "validate_credential resolver options path provider nr =
     (case nr of (name, ref) \<Rightarrow>
        let credentialPath = path @ ''.credentials.'' @ name
        in case validateSecretRef resolver options credentialPath ref of
             (Some resolved, r) \<Rightarrow>
               join_reports [r, error_if (name = ''api_key'' \<and> providerAPIKeyUsesHTTPHeader provider
                   \<and> \<not> isVisibleASCIIWithoutWhitespaceSecret (secret_Value resolved))
                 ''secret_value_invalid'' credentialPath
                 ''provider api key secret value must be visible ASCII without whitespace'']
           | (None, r) \<Rightarrow> r)"

type_synonym accounts_map = "string \<rightharpoonup> ProviderAccountConfig"
type_synonym channels_map = "string \<rightharpoonup> ProviderChannelConfig"

fun validate_accounts ::
    "SecretResolver \<Rightarrow> ValidationOptions \<Rightarrow> nat \<Rightarrow> ProviderAccountConfig list \<Rightarrow> accounts_map
     \<Rightarrow> accounts_map \<times> ValidationReport" where
  "validate_accounts resolver options index [] m = (m, no_report)"
| "validate_accounts resolver options index (account # accounts) m =
     (let path = indexed ''provider_accounts'' index;
          known = (pac_Code account \<noteq> [] \<and> m (pac_Code account) \<noteq> None);
          m' = (if pac_Code account \<noteq> [] \<and> \<not> known then m(pac_Code account \<mapsto> account) else m);
          r = join_reports
            [validateIdentifier (path @ ''.code'') (pac_Code account),
             error_if known ''provider_account_duplicate'' (path @ ''.code'') ''provider account code must be unique'',
             error_if (\<not> Provider_IsValid (pac_Provider account)) ''provider_invalid'' (path @ ''.provider'')
               ''provider must be one of mock, resend, or brevo'',
             join_reports (List.map (validate_credential resolver options path (pac_Provider account))
               (pac_Credentials account))]
      in case validate_accounts resolver options (Suc index) accounts m' of
           (m'', r') \<Rightarrow> (m'', join_reports [r, r']))"

definition validateProviderAccounts ::
    "SecretResolver \<Rightarrow> ValidationOptions \<Rightarrow> ProviderAccountConfig list \<Rightarrow> accounts_map \<times> ValidationReport" where
  "validateProviderAccounts resolver options accounts = validate_accounts resolver options 0 accounts Map.empty"

definition validateFromDomain :: "string \<Rightarrow> string \<Rightarrow> string \<Rightarrow> ValidationReport" where
  "validateFromDomain path from_addr senderDomain =
     (if senderDomain = [] then addError ''sender_domain_required'' path ''sender_domain is required''
      else case AddrSpecEmailDomain from_addr of
             None \<Rightarrow> addError ''from_invalid'' path ''from must be a valid email address''
           | Some fromDomain \<Rightarrow>
               error_if (\<not> EqualFold fromDomain senderDomain) ''from_domain_mismatch'' path
                 ''from domain must equal sender_domain'')"

definition validateSMTP ::
    "SecretResolver \<Rightarrow> ValidationOptions \<Rightarrow> string \<Rightarrow> ProviderChannelConfig \<Rightarrow> ProviderAccountConfig option
     \<Rightarrow> ValidationReport" where
  "validateSMTP resolver options path channel account = join_reports
     [(case pcc_SMTP channel of
         Some smtp \<Rightarrow>
           if smtpc_PasswordRef smtp \<noteq> []
           then snd (validateSecretRef resolver options (path @ ''.smtp.password_ref'') (smtpc_PasswordRef smtp))
           else no_report
       | None \<Rightarrow> no_report),
      (if pcc_Transport channel \<noteq> TransportSMTP then
         error_if (pcc_SMTP channel \<noteq> None) ''smtp_invalid'' (path @ ''.smtp'')
           ''smtp settings are only allowed for smtp transport''
       else case pcc_SMTP channel of
              None \<Rightarrow> addError ''smtp_required'' (path @ ''.smtp'') ''smtp settings are required for smtp transport''
            | Some smtp \<Rightarrow> join_reports
                [error_if (smtpc_Host smtp = []) ''smtp_invalid'' (path @ ''.smtp.host'') ''smtp.host is required'',
                 error_if (smtpc_Port smtp \<noteq> 587) ''smtp_invalid'' (path @ ''.smtp.port'') ''smtp.port must be 587'',
                 error_if (smtpc_Username smtp = []) ''smtp_invalid'' (path @ ''.smtp.username'')
                   ''smtp.username is required'',
                 error_if (smtpc_PasswordRef smtp = [] \<and>
                     (case account of None \<Rightarrow> False | Some a \<Rightarrow> TrimSpace (credential a ''api_key'') = []))
                   ''secret_ref_required'' (path @ ''.smtp.password_ref'')
                   ''smtp.password_ref is required when provider account credentials.api_key is missing''])]"

text \<open>The zero value that a missing account is.\<close>

definition zero_account :: ProviderAccountConfig where
  "zero_account = \<lparr>pac_Code = [], pac_Provider = Provider_of [], pac_Enabled = None, pac_Credentials = []\<rparr>"

definition validate_channel ::
    "SecretResolver \<Rightarrow> ValidationOptions \<Rightarrow> accounts_map \<Rightarrow> string \<Rightarrow> bool \<Rightarrow> ProviderChannelConfig
     \<Rightarrow> ValidationReport" where
  "validate_channel resolver options accountsByCode path known channel =
     (let found = accountsByCode (pcc_Account channel);
          account = (case found of None \<Rightarrow> zero_account | Some a \<Rightarrow> a)
      in join_reports
        [validateIdentifier (path @ ''.code'') (pcc_Code channel),
         error_if known ''provider_channel_duplicate'' (path @ ''.code'') ''provider channel code must be unique'',
         (if pcc_Account channel = [] then
            addError ''provider_account_required'' (path @ ''.account'') ''provider channel account is required''
          else if found = None then
            addError ''provider_account_not_found'' (path @ ''.account'')
              ''provider channel account must reference an existing provider account''
          else join_reports
            [error_if (\<not> SupportsTransport (pac_Provider account) (pcc_Transport channel)) ''transport_invalid''
               (path @ ''.transport'') ''provider channel transport is not supported by the provider'',
             error_if (EnabledValue (pcc_Enabled channel) \<and> \<not> EnabledValue (pac_Enabled account))
               ''provider_account_disabled'' (path @ ''.account'')
               ''enabled provider channel cannot reference a disabled provider account'']),
         error_if (\<not> Transport_IsValid (pcc_Transport channel)) ''transport_invalid'' (path @ ''.transport'')
           ''transport must be api or smtp'',
         error_if (pcc_Transport channel = TransportAPI \<and> providerAPIKeyUsesHTTPHeader (pac_Provider account)
             \<and> TrimSpace (credential account ''api_key'') = []) ''secret_ref_required'' (path @ ''.account'')
           ''api transport provider channel requires provider account credentials.api_key'',
         error_if (\<not> IsSafeEmailDisplayName (pcc_FromName channel)) ''from_name_invalid'' (path @ ''.from_name'')
           ''from_name must not contain control characters'',
         validateFromDomain (path @ ''.from'') (pcc_From channel) (pcc_SenderDomain channel),
         validateSMTP resolver options path channel found])"

text \<open>The loop keeps the channels by their code and the codes of the channels that can be used.\<close>

fun validate_channels ::
    "SecretResolver \<Rightarrow> ValidationOptions \<Rightarrow> accounts_map \<Rightarrow> nat \<Rightarrow> ProviderChannelConfig list \<Rightarrow> channels_map
     \<Rightarrow> string list \<Rightarrow> channels_map \<times> string list \<times> ValidationReport" where
  "validate_channels resolver options accountsByCode index [] m usable = (m, usable, no_report)"
| "validate_channels resolver options accountsByCode index (channel # channels) m usable =
     (let path = indexed ''provider_channels'' index;
          known = (pcc_Code channel \<noteq> [] \<and> m (pcc_Code channel) \<noteq> None);
          m' = (if pcc_Code channel \<noteq> [] \<and> \<not> known then m(pcc_Code channel \<mapsto> channel) else m);
          r = validate_channel resolver options accountsByCode path known channel;
          usable' = (if pcc_Code channel \<noteq> [] \<and> EnabledValue (pcc_Enabled channel)
                        \<and> (case accountsByCode (pcc_Account channel) of
                             None \<Rightarrow> False | Some a \<Rightarrow> EnabledValue (pac_Enabled a))
                     then pcc_Code channel # usable else usable)
      in case validate_channels resolver options accountsByCode (Suc index) channels m' usable' of
           (m'', usable'', r') \<Rightarrow> (m'', usable'', join_reports [r, r']))"

definition validateProviderChannels ::
    "SecretResolver \<Rightarrow> ValidationOptions \<Rightarrow> accounts_map \<Rightarrow> ProviderChannelConfig list
     \<Rightarrow> channels_map \<times> string list \<times> ValidationReport" where
  "validateProviderChannels resolver options accountsByCode channels =
     validate_channels resolver options accountsByCode 0 channels Map.empty []"

section \<open>Applications\<close>

text \<open>The locales of the application, and the report.\<close>

fun validate_locales :: "string \<Rightarrow> nat \<Rightarrow> string list \<Rightarrow> string list \<Rightarrow> string list \<times> ValidationReport" where
  "validate_locales appPath index [] allowed = (allowed, no_report)"
| "validate_locales appPath index (locale # locales) allowed =
     (let path = indexed (appPath @ ''.allowed_locales'') index
      in if \<not> isValidLocale locale then
           (case validate_locales appPath (Suc index) locales allowed of (a, r) \<Rightarrow>
              (a, join_reports [addError ''locale_invalid'' path
                ''allowed locale must use language-region format such as en-US'', r]))
         else if locale \<in> set allowed then
           (case validate_locales appPath (Suc index) locales allowed of (a, r) \<Rightarrow>
              (a, join_reports [addError ''locale_duplicate'' path
                ''allowed locale must be unique within an app'', r]))
         else validate_locales appPath (Suc index) locales (locale # allowed))"

definition validateAppLocales :: "string \<Rightarrow> AppConfig \<Rightarrow> string list \<times> ValidationReport" where
  "validateAppLocales appPath app =
     (case validate_locales appPath 0 (ac_AllowedLocales app) [] of
        (allowed, r) \<Rightarrow> (allowed, join_reports
          [r,
           error_if (\<not> isValidLocale (ac_DefaultLocale app)) ''locale_invalid'' (appPath @ ''.default_locale'')
             ''default locale must use language-region format such as en-US'',
           error_if (ac_DefaultLocale app \<notin> set allowed) ''default_locale_not_allowed''
             (appPath @ ''.default_locale'') ''app default_locale must be included in allowed_locales'']))"

text \<open>The paths where key hashes were first seen, across all applications.\<close>

type_synonym hash_paths = "string \<rightharpoonup> string"

fun validate_api_keys ::
    "SecretResolver \<Rightarrow> ValidationOptions \<Rightarrow> string \<Rightarrow> nat \<Rightarrow> APIKeyConfig list \<Rightarrow> string list \<Rightarrow> hash_paths
     \<Rightarrow> hash_paths \<times> ValidationReport" where
  "validate_api_keys resolver options appPath index [] names paths = (paths, no_report)"
| "validate_api_keys resolver options appPath index (key # keys) names paths =
     (let path = indexed (appPath @ ''.api_keys'') index;
          r1 = join_reports
            [validateIdentifier (path @ ''.name'') (akc_Name key),
             error_if (akc_Name key \<noteq> [] \<and> akc_Name key \<in> set names) ''api_key_duplicate'' (path @ ''.name'')
               ''api key name must be unique within an app''];
          names' = (if akc_Name key \<noteq> [] then akc_Name key # names else names);
          step = (case resolveSecretRef resolver options (path @ ''.key_ref'') (akc_KeyRef key) of
                    (None, r2) \<Rightarrow> (paths, r2)
                  | (Some resolved, r2) \<Rightarrow>
                      let r3 = error_if (\<not> IsValidAPIKeyValue (secret_Value resolved)) ''api_key_value_invalid''
                                 (path @ ''.key_ref'')
                                 ''api key secret value must be 24 to 128 visible ASCII bytes without whitespace'';
                          keyHash = APIKeyHash (secret_Value resolved)
                      in (case paths keyHash of
                            Some firstPath \<Rightarrow>
                              (paths, join_reports [r2, r3, addError ''api_key_value_duplicate'' (path @ ''.key_ref'')
                                 (''api key secret value must be unique across all apps; first used at '' @ firstPath)])
                          | None \<Rightarrow> (paths(keyHash \<mapsto> path @ ''.key_ref''), join_reports [r2, r3])))
      in case step of (paths', r) \<Rightarrow>
           (case validate_api_keys resolver options appPath (Suc index) keys names' paths' of
              (paths'', r') \<Rightarrow> (paths'', join_reports [r1, r, r'])))"

definition validateAPIKeys ::
    "SecretResolver \<Rightarrow> ValidationOptions \<Rightarrow> string \<Rightarrow> AppConfig \<Rightarrow> hash_paths \<Rightarrow> hash_paths \<times> ValidationReport" where
  "validateAPIKeys resolver options appPath app paths =
     validate_api_keys resolver options appPath 0 (ac_APIKeys app) [] paths"

definition parse_error :: "template_engine \<Rightarrow> string \<Rightarrow> string \<Rightarrow> bool" where
  "parse_error engine name source = (case engine name source of Inl _ \<Rightarrow> True | Inr _ \<Rightarrow> False)"

definition validateTextTemplate :: "template_engine \<Rightarrow> string \<Rightarrow> string \<Rightarrow> string \<Rightarrow> ValidationReport" where
  "validateTextTemplate engine path code source =
     error_if (parse_error engine path source) code path ''template text must parse successfully''"

definition validateHTMLTemplate :: "template_engine \<Rightarrow> string \<Rightarrow> string \<Rightarrow> ValidationReport" where
  "validateHTMLTemplate engine path source =
     error_if (parse_error engine path source) ''template_html_body_invalid'' path
       ''template html_body must parse successfully''"

definition validate_template ::
    "template_engine \<Rightarrow> template_engine \<Rightarrow> string \<Rightarrow> string list \<Rightarrow> bool \<Rightarrow> TemplateConfig \<Rightarrow> ValidationReport" where
  "validate_template text_engine html_engine path allowed known tmpl = join_reports
     [validateIdentifier (path @ ''.code'') (tc_Code tmpl),
      error_if (\<not> isValidLocale (tc_Locale tmpl)) ''locale_invalid'' (path @ ''.locale'')
        ''template locale must use language-region format such as en-US'',
      error_if (tc_Locale tmpl \<notin> set allowed) ''template_locale_not_allowed'' (path @ ''.locale'')
        ''template locale must be included in app allowed_locales'',
      (if tc_Subject tmpl = [] then
         addError ''template_subject_required'' (path @ ''.subject'') ''template subject is required''
       else join_reports
         [error_if (\<not> IsSafeEmailHeaderValue (tc_Subject tmpl)) ''template_subject_invalid'' (path @ ''.subject'')
            ''template subject must not contain control characters'',
          validateTextTemplate text_engine (path @ ''.subject'') ''template_subject_invalid'' (tc_Subject tmpl)]),
      error_if (tc_HTMLBody tmpl = [] \<and> tc_TextBody tmpl = []) ''template_body_required'' path
        ''template must define html_body or text_body'',
      (if tc_HTMLBody tmpl \<noteq> [] then validateHTMLTemplate html_engine (path @ ''.html_body'') (tc_HTMLBody tmpl)
       else no_report),
      (if tc_TextBody tmpl \<noteq> [] then
         validateTextTemplate text_engine (path @ ''.text_body'') ''template_text_body_invalid'' (tc_TextBody tmpl)
       else no_report),
      each_indexed (\<lambda>i name. error_if (\<not> IsTemplateVarName name) ''template_required_var_invalid''
        (indexed (path @ ''.required_vars'') i)
        ''required var name must match send request variable name rules'') (tc_RequiredVars tmpl),
      error_if known ''template_duplicate'' (path @ ''.code'')
        ''template code and locale must be unique within an app'']"

type_synonym templates_map = "string \<rightharpoonup> TemplateConfig"

fun validate_templates ::
    "template_engine \<Rightarrow> template_engine \<Rightarrow> string \<Rightarrow> string list \<Rightarrow> nat \<Rightarrow> TemplateConfig list \<Rightarrow> templates_map
     \<Rightarrow> templates_map \<times> ValidationReport" where
  "validate_templates text_engine html_engine appPath allowed index [] m = (m, no_report)"
| "validate_templates text_engine html_engine appPath allowed index (tmpl # tmpls) m =
     (let key = templateKey (tc_Code tmpl) (tc_Locale tmpl);
          named = (tc_Code tmpl \<noteq> [] \<and> tc_Locale tmpl \<noteq> []);
          known = (named \<and> m key \<noteq> None);
          r = validate_template text_engine html_engine (indexed (appPath @ ''.templates'') index) allowed known tmpl
      in case validate_templates text_engine html_engine appPath allowed (Suc index) tmpls
                (if named \<and> \<not> known then m(key \<mapsto> tmpl) else m) of
           (m', r') \<Rightarrow> (m', join_reports [r, r']))"

definition validateTemplates ::
    "template_engine \<Rightarrow> template_engine \<Rightarrow> string \<Rightarrow> AppConfig \<Rightarrow> string list \<Rightarrow> templates_map \<times> ValidationReport" where
  "validateTemplates text_engine html_engine appPath app allowed =
     validate_templates text_engine html_engine appPath allowed 0 (ac_Templates app) Map.empty"

definition validateRateLimit :: "string \<Rightarrow> RateLimitConfig \<Rightarrow> ValidationReport" where
  "validateRateLimit path limit = join_reports
     [error_if (rlc_SameEmailPerMinute limit \<le> 0) ''rate_limit_invalid'' (path @ ''.same_email_per_minute'')
        ''same_email_per_minute must be greater than 0'',
      error_if (rlc_SameEmailPerDay limit \<le> 0) ''rate_limit_invalid'' (path @ ''.same_email_per_day'')
        ''same_email_per_day must be greater than 0'',
      error_if (rlc_SameUserIPPerHour limit \<le> 0) ''rate_limit_invalid'' (path @ ''.same_user_ip_per_hour'')
        ''same_user_ip_per_hour must be greater than 0'',
      error_if (rlc_SameCallerIPPerHour limit \<le> 0) ''rate_limit_invalid'' (path @ ''.same_caller_ip_per_hour'')
        ''same_caller_ip_per_hour must be greater than 0'']"

fun validate_route ::
    "channels_map \<Rightarrow> string list \<Rightarrow> string \<Rightarrow> nat \<Rightarrow> string list \<Rightarrow> (string \<times> nat) list \<Rightarrow> ValidationReport" where
  "validate_route channelsByCode usable path index [] seen = no_report"
| "validate_route channelsByCode usable path index (code # codes) seen =
     (let channelPath = indexed path index
      in case map_of seen code of
           Some firstIndex \<Rightarrow> join_reports
             [addError ''route_channel_duplicate'' channelPath
                (''route policy entry repeats provider channel from index '' @ decimal firstIndex),
              validate_route channelsByCode usable path (Suc index) codes seen]
         | None \<Rightarrow> join_reports
             [(case channelsByCode code of
                 None \<Rightarrow> addError ''route_channel_not_found'' channelPath
                   ''route policy references a missing provider channel''
               | Some channel \<Rightarrow>
                   if \<not> EnabledValue (pcc_Enabled channel) then
                     addError ''route_channel_disabled'' channelPath
                       ''route policy references a disabled provider channel''
                   else error_if (code \<notin> set usable) ''route_channel_unavailable'' channelPath
                     ''route policy references a provider channel whose account is unavailable''),
              validate_route channelsByCode usable path (Suc index) codes ((code, index) # seen)])"

definition validateRoutePolicy ::
    "channels_map \<Rightarrow> string list \<Rightarrow> string \<Rightarrow> RoutePolicyConfig \<Rightarrow> ValidationReport" where
  "validateRoutePolicy channelsByCode usable path policy = join_reports
     [error_if (map_of policy RoutePolicyWildcard = None) ''route_policy_missing_wildcard'' path
        ''route_policy must include the * fallback route'',
      join_reports (List.map (\<lambda>(routeKey, channels). join_reports
        [error_if (routeKey = [] \<or> (routeKey \<noteq> RoutePolicyWildcard \<and> \<not> isValidRouteDomain routeKey))
           ''route_domain_invalid'' path ''route key must be a recipient domain or *'',
         error_if (channels = []) ''route_policy_empty'' (path @ ''.'' @ routeKey)
           ''route policy entry must include at least one provider channel'',
         validate_route channelsByCode usable (path @ ''.'' @ routeKey) 0 channels []]) policy)]"

fun validate_scenes ::
    "channels_map \<Rightarrow> string list \<Rightarrow> string \<Rightarrow> AppConfig \<Rightarrow> templates_map \<Rightarrow> nat \<Rightarrow> SceneConfig list \<Rightarrow> string list
     \<Rightarrow> ValidationReport" where
  "validate_scenes channelsByCode usable appPath app templates index [] codes = no_report"
| "validate_scenes channelsByCode usable appPath app templates index (scene # scenes) codes =
     (let path = indexed (appPath @ ''.scenes'') index
      in join_reports
        [validateIdentifier (path @ ''.code'') (sc_Code scene),
         error_if (sc_Code scene \<noteq> [] \<and> sc_Code scene \<in> set codes) ''scene_duplicate'' (path @ ''.code'')
           ''scene code must be unique within an app'',
         (if sc_Template scene = [] then
            addError ''scene_template_required'' (path @ ''.template'') ''scene template is required''
          else case templates (templateKey (sc_Template scene) (ac_DefaultLocale app)) of
                 None \<Rightarrow> addError ''scene_template_not_found'' (path @ ''.template'')
                   ''scene template must exist in the same app for app default_locale''
               | Some defaultTemplate \<Rightarrow>
                   error_if (\<not> EnabledValue (tc_Enabled defaultTemplate)) ''scene_template_disabled''
                     (path @ ''.template'') ''scene template default locale version must be enabled''),
         validateRateLimit (path @ ''.rate_limit'') (sc_RateLimit scene),
         validateRoutePolicy channelsByCode usable (path @ ''.route_policy'') (sc_RoutePolicy scene),
         validate_scenes channelsByCode usable appPath app templates (Suc index) scenes
           (if sc_Code scene \<noteq> [] then sc_Code scene # codes else codes)])"

definition validateScenes ::
    "channels_map \<Rightarrow> string list \<Rightarrow> string \<Rightarrow> AppConfig \<Rightarrow> templates_map \<Rightarrow> ValidationReport" where
  "validateScenes channelsByCode usable appPath app templates =
     validate_scenes channelsByCode usable appPath app templates 0 (ac_Scenes app) []"

fun validate_apps ::
    "SecretResolver \<Rightarrow> ValidationOptions \<Rightarrow> template_engine \<Rightarrow> template_engine \<Rightarrow> channels_map \<Rightarrow> string list
     \<Rightarrow> nat \<Rightarrow> AppConfig list \<Rightarrow> string list \<Rightarrow> hash_paths \<Rightarrow> string list \<times> ValidationReport" where
  "validate_apps resolver options text_engine html_engine channelsByCode usable index [] codes paths =
     (codes, no_report)"
| "validate_apps resolver options text_engine html_engine channelsByCode usable index (app # apps) codes paths =
     (let appPath = indexed ''apps'' index;
          r1 = join_reports
            [validateIdentifier (appPath @ ''.code'') (ac_Code app),
             error_if (ac_Code app \<noteq> [] \<and> ac_Code app \<in> set codes) ''app_duplicate'' (appPath @ ''.code'')
               ''app code must be unique'',
             error_if (ac_APIKeys app = []) ''api_key_required'' (appPath @ ''.api_keys'')
               ''app must define at least one api key'',
             error_if (ac_Templates app = []) ''template_required'' (appPath @ ''.templates'')
               ''app must define at least one template'',
             error_if (ac_Scenes app = []) ''scene_required'' (appPath @ ''.scenes'')
               ''app must define at least one scene''];
          codes' = (if ac_Code app \<noteq> [] \<and> ac_Code app \<notin> set codes then ac_Code app # codes else codes)
      in case validateAppLocales appPath app of (allowed, r2) \<Rightarrow>
         (case validateAPIKeys resolver options appPath app paths of (paths', r3) \<Rightarrow>
         (case validateTemplates text_engine html_engine appPath app allowed of (templates, r4) \<Rightarrow>
         (case validate_apps resolver options text_engine html_engine channelsByCode usable (Suc index) apps
                 codes' paths' of (codes'', r6) \<Rightarrow>
            (codes'', join_reports
               [r1, r2, r3, r4, validateScenes channelsByCode usable appPath app templates, r6])))))"

definition validateApps ::
    "SecretResolver \<Rightarrow> ValidationOptions \<Rightarrow> template_engine \<Rightarrow> template_engine \<Rightarrow> channels_map \<Rightarrow> string list
     \<Rightarrow> AppConfig list \<Rightarrow> string list \<times> ValidationReport" where
  "validateApps resolver options text_engine html_engine channelsByCode usable apps =
     (case validate_apps resolver options text_engine html_engine channelsByCode usable 0 apps [] Map.empty of
        (codes, r) \<Rightarrow>
          (codes, join_reports [error_if (apps = []) ''app_required'' ''apps'' ''at least one app is required'', r]))"

section \<open>The suppression file\<close>

text \<open>What reading it meets: the files, the error of a read, and the YAML decoder.\<close>

record suppression_env =
  se_files :: file_system
  se_read_error :: "go_error option"
  se_yaml :: "string \<Rightarrow> suppressionYAML yaml_read \<times> unit yaml_read"

definition decodeSuppressionFile :: "suppression_env \<Rightarrow> string \<Rightarrow> suppressionYAML result" where
  "decodeSuppressionFile env data =
     (case fst (se_yaml env data) of
        End_of_file \<Rightarrow> Inr []
      | Read_error e \<Rightarrow> Inl e
      | Document entries \<Rightarrow>
          (case snd (se_yaml env data) of
             End_of_file \<Rightarrow> Inr entries
           | Document _ \<Rightarrow> Inl (Errorf ''suppression file must contain a single YAML document'')
           | Read_error e \<Rightarrow> Inl e))"

definition suppressionEntryKey :: "string \<Rightarrow> string \<Rightarrow> string" where
  "suppressionEntryKey appCode normalizedEmail = appCode @ char_of (0 :: nat) # normalizedEmail"

definition entry_path :: "nat \<Rightarrow> string" where
  "entry_path index = indexed ''suppression.entries'' index"

fun validate_entries ::
    "string list \<Rightarrow> nat \<Rightarrow> suppressionYAML \<Rightarrow> (string \<times> nat) list \<Rightarrow> ValidationReport" where
  "validate_entries appCodes index [] seen = no_report"
| "validate_entries appCodes index (entry # entries) seen =
     (let appCode = TrimSpace (y_App entry);
          normalized = NormalizeAddrSpecEmail (TrimSpace (y_Email entry));
          keyed = (appCode \<noteq> [] \<and> identifierPattern appCode);
          key = suppressionEntryKey appCode (case normalized of None \<Rightarrow> [] | Some n \<Rightarrow> n)
      in join_reports
        [(if appCode = [] then
            addError ''suppression_app_required'' (entry_path index @ ''.app'') ''suppression app is required''
          else if \<not> identifierPattern appCode then
            addError ''suppression_app_invalid'' (entry_path index @ ''.app'')
              ''suppression app must match an existing App code''
          else error_if (appCode \<notin> set appCodes) ''suppression_app_not_found'' (entry_path index @ ''.app'')
            ''suppression app must reference an existing App''),
         (case normalized of
            None \<Rightarrow> addError ''suppression_email_invalid'' (entry_path index @ ''.email'')
              ''suppression email must be a valid single addr-spec''
          | Some _ \<Rightarrow>
              (case (if keyed then map_of seen key else None) of
                 Some firstIndex \<Rightarrow> addError ''suppression_duplicate'' (entry_path index)
                   (''suppression entry duplicates entries['' @ decimal firstIndex @ ''] for the same App and email'')
               | None \<Rightarrow> no_report)),
         error_if (\<not> SuppressionReason_IsValid (SuppressionReason_of (y_Reason entry)))
           ''suppression_reason_invalid'' (entry_path index @ ''.reason'')
           ''suppression reason must be hard_bounce, complaint, or manual'',
         validate_entries appCodes (Suc index) entries
           (if normalized \<noteq> None \<and> keyed \<and> map_of seen key = None then (key, index) # seen else seen)])"

definition validateSuppressionFile :: "suppression_env \<Rightarrow> string list \<Rightarrow> string \<Rightarrow> ValidationReport" where
  "validateSuppressionFile env appCodes path =
     (if path = [] then no_report
      else case se_files env path of
             None \<Rightarrow> no_report
           | Some data \<Rightarrow>
               (case se_read_error env of
                  Some _ \<Rightarrow> addError ''suppression_file_unreadable'' ''suppression'' ''suppression file could not be read''
                | None \<Rightarrow>
                    (case decodeSuppressionFile env data of
                       Inl _ \<Rightarrow> addError ''suppression_file_invalid'' ''suppression'' ''suppression file must be valid YAML''
                     | Inr entries \<Rightarrow> validate_entries appCodes 0 entries [])))"

section \<open>The whole configuration\<close>

text \<open>What validation works with beside the configuration.\<close>

record validation_env =
  val_resolver :: SecretResolver
  val_options :: ValidationOptions
  val_text :: template_engine
  val_html :: template_engine
  val_suppression :: suppression_env

definition validate :: "validation_env \<Rightarrow> Config \<Rightarrow> ValidationReport" where
  "validate env cfg =
     (case validateProviderAccounts (val_resolver env) (val_options env) (cfg_ProviderAccounts cfg) of
        (accounts, r1) \<Rightarrow>
        (case validateProviderChannels (val_resolver env) (val_options env) accounts (cfg_ProviderChannels cfg) of
           (channels, usable, r2) \<Rightarrow>
           (case validateApps (val_resolver env) (val_options env) (val_text env) (val_html env) channels usable
                   (cfg_Apps cfg) of
              (codes, r3) \<Rightarrow> join_reports
                [validateServer (cfg_Server cfg), validateRuntime (cfg_Runtime cfg),
                 validateDefaults (cfg_Defaults cfg), validateLogging (cfg_Logging cfg), r1, r2, r3,
                 validateWebhooks (val_resolver env) (val_options env) (cfg_Webhooks cfg),
                 validateSuppressionFile (val_suppression env) codes (cfg_SuppressionFile cfg)])))"

definition ValidateWithOptions :: "validation_env \<Rightarrow> Config option \<Rightarrow> ValidationReport" where
  "ValidateWithOptions env cfg =
     (case cfg of None \<Rightarrow> addError ''config_missing'' [] ''config is required'' | Some c \<Rightarrow> validate env c)"

definition Validate :: "validation_env \<Rightarrow> Config option \<Rightarrow> ValidationReport" where
  "Validate env cfg = ValidateWithOptions (env\<lparr>val_options := \<lparr>vo_StrictPlainSecrets = False\<rparr>\<rparr>) cfg"

end
