(* ===== verification/Auth.thy ===== *)
theory Auth
  imports Config Sha256
begin

text \<open>
  Authentication and the errors of the API: \<open>internal/api/auth.go\<close>, \<open>webhook_auth.go\<close> and \<open>errors.go\<close>.
  The HTTP handlers around them are not modelled; an answer is the status code with the error code and
  the message of the body.
\<close>

section \<open>Bearer tokens\<close>

text \<open>\<open>strings.Fields\<close>: the runs of runes that are not white space.\<close>

fun span_field :: "string \<Rightarrow> string \<times> string" where
  "span_field [] = ([], [])"
| "span_field (c # cs) =
     (case decodeRune (c # cs) of (r, n) \<Rightarrow>
        if IsSpace r then ([], c # cs)
        else (case span_field (drop (n - 1) cs) of (f, rest) \<Rightarrow> (take n (c # cs) @ f, rest)))"

lemma span_field_length: "length (snd (span_field s)) \<le> length s"
proof (induction s rule: span_field.induct)
  case (2 c cs)
  obtain r n where d: "decodeRune (c # cs) = (r, n)" by (cases "decodeRune (c # cs)")
  then show ?case using 2 [OF d [symmetric]]
    by (auto split: prod.splits)
qed simp

lemma trimLeft_length: "length (trimLeft s) \<le> length s"
proof (induction s rule: trimLeft.induct)
  case (2 c cs)
  obtain r n where d: "decodeRune (c # cs) = (r, n)" by (cases "decodeRune (c # cs)")
  then show ?case using 2 [OF d [symmetric]]
    by (auto split: prod.splits)
qed simp

lemma span_field_less:
  assumes "span_field (trimLeft s) = (f, rest)" "f \<noteq> []"
  shows "length rest < length s"
proof -
  obtain c cs where c: "trimLeft s = c # cs" using assms by (cases "trimLeft s") auto
  obtain r n where d: "decodeRune (c # cs) = (r, n)" by (cases "decodeRune (c # cs)")
  have "\<not> IsSpace r" using assms c d by (auto split: if_splits)
  then have "rest = snd (span_field (drop (n - 1) cs))"
    using assms c d by (auto split: prod.splits)
  then have "length rest < length (trimLeft s)"
    using span_field_length [of "drop (n - 1) cs"] c by simp
  then show ?thesis using trimLeft_length [of s] by simp
qed

function Fields :: "string \<Rightarrow> string list" where
  "Fields s =
     (if trimLeft s = [] then []
      else (case span_field (trimLeft s) of (f, rest) \<Rightarrow>
              if f = [] then [] else f # Fields rest))"
  by pat_completeness auto
termination
  by (relation "measure length") (auto dest: span_field_less [OF sym])

declare Fields.simps [simp del]

definition parseBearerToken :: "string \<Rightarrow> string option" where
  "parseBearerToken header =
     (case Fields header of
        [scheme, token] \<Rightarrow>
          if \<not> EqualFold scheme ''Bearer'' then None
          else if token = [] \<or> (\<exists>c \<in> set token. c = CHR '' '' \<or> byte c \<in> {9, 10, 13 :: nat}) then None
          else Some token
      | _ \<Rightarrow> None)"

section \<open>API keys\<close>

record AuthContext =
  auth_App :: App
  auth_APIKey :: APIKeyMetadata

text \<open>\<open>apps[i].api_keys[j]\<close>\<close>

definition key_path :: "nat \<Rightarrow> nat \<Rightarrow> string" where
  "key_path i j = ''apps['' @ decimal i @ ''].api_keys['' @ decimal j @ '']''"

fun resolve_keys ::
    "SecretResolver \<Rightarrow> nat \<Rightarrow> nat \<Rightarrow> APIKeyConfig list \<Rightarrow> (string \<rightharpoonup> string)
     \<Rightarrow> (APIKeyMetadata list \<times> (string \<rightharpoonup> string)) result" where
  "resolve_keys resolver i j [] seen = Inr ([], seen)"
| "resolve_keys resolver i j (key # keys) seen =
     (case resolver (akc_KeyRef key) of
        Inl e \<Rightarrow> Inl (Wrapf (''resolve api key '' @ key_path i j) e)
      | Inr resolved \<Rightarrow>
          if \<not> IsValidAPIKeyValue (secret_Value resolved) then
            Inl (Errorf (''api key '' @ key_path i j @ '' has invalid value''))
          else let keyHash = APIKeyHash (secret_Value resolved)
               in case seen keyHash of
                    Some firstPath \<Rightarrow>
                      Inl (Errorf (''api key '' @ key_path i j @ '' duplicates '' @ firstPath))
                  | None \<Rightarrow>
                      and_then (resolve_keys resolver i (Suc j) keys (seen(keyHash \<mapsto> key_path i j)))
                        (\<lambda>(metadata, seen').
                          Inr (\<lparr>key_Name = akc_Name key, key_Enabled = EnabledValue (akc_Enabled key),
                                key_KeyHash = keyHash\<rparr> # metadata, seen')))"

fun resolve_apps ::
    "SecretResolver \<Rightarrow> nat \<Rightarrow> AppConfig list \<Rightarrow> (string \<rightharpoonup> string) \<Rightarrow> App list result" where
  "resolve_apps resolver i [] seen = Inr []"
| "resolve_apps resolver i (app # apps) seen =
     and_then (resolve_keys resolver i 0 (ac_APIKeys app) seen) (\<lambda>(apiKeys, seen').
     and_then (resolve_apps resolver (Suc i) apps seen') (\<lambda>rest.
       Inr (DomainAppFromConfig app apiKeys # rest)))"

definition NewAuthenticator :: "AppConfig list \<Rightarrow> SecretResolver \<Rightarrow> App list result" where
  "NewAuthenticator apps resolver = resolve_apps resolver 0 apps Map.empty"

definition unauthorized :: go_error where
  "unauthorized = AuthError ErrorCodeUnauthorized ''unauthorized''"

text \<open>The two loops of \<open>AuthenticateHeader\<close>: the first key whose hash is the hash of the token.\<close>

fun match_key :: "App \<Rightarrow> string \<Rightarrow> APIKeyMetadata list \<Rightarrow> AuthContext result option" where
  "match_key app keyHash [] = None"
| "match_key app keyHash (key # keys) =
     (if \<not> ConstantTimeEqualHex (key_KeyHash key) keyHash then match_key app keyHash keys
      else if \<not> key_Enabled key then Some (Inl unauthorized)
      else if \<not> app_Enabled app then Some (Inl (AuthError ErrorCodeAppDisabled ''app disabled''))
      else Some (Inr \<lparr>auth_App = app, auth_APIKey = key\<rparr>))"

fun match_app :: "string \<Rightarrow> App list \<Rightarrow> AuthContext result option" where
  "match_app keyHash [] = None"
| "match_app keyHash (app # apps) =
     (case match_key app keyHash (app_APIKeys app) of
        Some r \<Rightarrow> Some r
      | None \<Rightarrow> match_app keyHash apps)"

definition AuthenticateHeader :: "App list \<Rightarrow> string \<Rightarrow> AuthContext result" where
  "AuthenticateHeader apps header =
     (case parseBearerToken header of
        None \<Rightarrow> Inl unauthorized
      | Some apiKey \<Rightarrow>
          if \<not> IsValidAPIKeyValue apiKey then Inl unauthorized
          else case match_app (APIKeyHash apiKey) apps of
                 Some r \<Rightarrow> r
               | None \<Rightarrow> Inl unauthorized)"

section \<open>The webhook receiver\<close>

record webhookAuthenticator =
  wa_enabled :: bool
  wa_secretHash :: string

definition newWebhookAuthenticator :: "WebhookConfig \<Rightarrow> SecretResolver \<Rightarrow> webhookAuthenticator result" where
  "newWebhookAuthenticator webhooks resolver =
     (if \<not> webhook_Enabled webhooks \<or> TrimSpace (webhook_SharedSecretRef webhooks) = [] then
        Inr \<lparr>wa_enabled = False, wa_secretHash = []\<rparr>
      else and_then (wrapped ''resolve webhook shared secret'' (resolver (webhook_SharedSecretRef webhooks)))
             (\<lambda>resolved. Inr \<lparr>wa_enabled = True, wa_secretHash = APIKeyHash (secret_Value resolved)\<rparr>))"

definition authenticate :: "webhookAuthenticator \<Rightarrow> string \<Rightarrow> unit result" where
  "authenticate a header =
     (if \<not> wa_enabled a then Inl (AuthError ErrorCodeWebhookDisabled ''webhook receiver disabled'')
      else case parseBearerToken header of
             None \<Rightarrow> Inl unauthorized
           | Some secret \<Rightarrow>
               if \<not> ConstantTimeEqualHex (APIKeyHash secret) (wa_secretHash a) then Inl unauthorized
               else Inr ())"

section \<open>The answer to an error\<close>

definition classifyAPIError :: "go_error \<Rightarrow> ErrorCode \<times> string" where
  "classifyAPIError err =
     (case root_error err of
        APIError code message \<Rightarrow> (code, message)
      | RequestValidationError code message \<Rightarrow> (code, message)
      | RenderError code message \<Rightarrow> (code, message)
      | RouteSelectionError code message \<Rightarrow> (code, message)
      | IdempotencyConflictError code \<Rightarrow> (code, ''idempotency conflict'')
      | RateLimitExceededError code _ _ _ _ \<Rightarrow> (code, ''request rate limited'')
      | QueueFullError code \<Rightarrow> (code, ''queue is full'')
      | AuthError code message \<Rightarrow> (code, message)
      | _ \<Rightarrow> (ErrorCodeInternal, ''internal error''))"

definition statusForErrorCode :: "ErrorCode \<Rightarrow> nat" where
  "statusForErrorCode code =
     (if code = ErrorCodeUnauthorized then 401
      else if code = ErrorCodeAppDisabled \<or> code = ErrorCodeSceneDisabled then 403
      else if code = ErrorCodeSceneNotFound \<or> code = ErrorCodeMessageNotFound then 404
      else if code = ErrorCodeWebhookDisabled then 503
      else if code = ErrorCodeIdempotencyConflict then 409
      else if code = ErrorCodeRequestTooLarge then 413
      else if code = ErrorCodeUnsupportedMediaType then 415
      else if code = ErrorCodeRateLimited then 429
      else if code = ErrorCodeQueueFull then 503
      else if code = ErrorCodeInternal then 500
      else 422)"

text \<open>\<open>writeAPIError\<close>: the status and the fields of the body.\<close>

record errorPayload =
  ep_Code :: ErrorCode
  ep_Message :: string
  ep_RequestID :: string

definition writeAPIError :: "string \<Rightarrow> go_error \<Rightarrow> nat \<times> errorPayload" where
  "writeAPIError requestID err =
     (case classifyAPIError err of (code, message) \<Rightarrow>
        (statusForErrorCode code, \<lparr>ep_Code = code, ep_Message = message, ep_RequestID = requestID\<rparr>))"

text \<open>\<open>writeAuthError\<close>, used by the middleware: it looks at the error itself, not along its wrappings.\<close>

definition writeAuthError :: "go_error \<Rightarrow> nat \<times> errorPayload" where
  "writeAuthError err =
     (case err of
        AuthError code message \<Rightarrow>
          (if code = ErrorCodeAppDisabled then 403 else 401,
           \<lparr>ep_Code = code, ep_Message = message, ep_RequestID = []\<rparr>)
      | _ \<Rightarrow> (401, \<lparr>ep_Code = ErrorCodeUnauthorized, ep_Message = ''unauthorized'', ep_RequestID = []\<rparr>))"

section \<open>A request as the handlers read it\<close>

text \<open>
  The header is the function \<open>Header.Get\<close>. \<open>hr_Body\<close> is what can be read of the body, \<open>hr_BodyError\<close>
  whether reading then fails.
\<close>

record http_request =
  hr_Header :: "string \<Rightarrow> string"
  hr_RemoteAddr :: string
  hr_Body :: string
  hr_BodyError :: bool

text \<open>\<open>io.ReadAll(io.LimitReader(body, max+1))\<close> and the check of the length behind it.\<close>

definition read_body :: "int \<Rightarrow> http_request \<Rightarrow> string result" where
  "read_body maxBytes rq =
     (let body = take (nat (maxBytes + 1)) (hr_Body rq)
      in if (hr_BodyError rq \<and> int (length (hr_Body rq)) < maxBytes + 1) \<or> maxBytes < int (length body) then
           Inl (RequestValidationError ErrorCodeRequestTooLarge ''request body is too large'')
         else Inr body)"

section \<open>The header of a token\<close>

text \<open>Words of visible ASCII characters.\<close>

definition word :: "string \<Rightarrow> bool" where
  "word s \<longleftrightarrow> s \<noteq> [] \<and> (\<forall>c \<in> set s. 32 < byte c \<and> byte c < (127 :: nat))"

lemma not_space_visible: "32 < r \<Longrightarrow> r < 127 \<Longrightarrow> \<not> IsSpace r"
  by (auto simp: IsSpace_def)

lemma decodeRune_visible: "byte c < (128 :: nat) \<Longrightarrow> decodeRune (c # cs) = (byte c, 1)"
  by (simp add: decodeRune_def head_rune_ascii)

lemma span_field_word:
  "(\<forall>c \<in> set w. 32 < byte c \<and> byte c < (127 :: nat)) \<Longrightarrow> rest = [] \<or> hd rest = CHR '' '' \<Longrightarrow>
   span_field (w @ rest) = (w, rest)"
proof (induction w)
  case Nil
  then show ?case by (cases rest) (auto simp: decodeRune_visible IsSpace_def)
next
  case (Cons c w)
  then show ?case by (simp add: decodeRune_visible not_space_visible)
qed

lemma trimLeft_word: "word w \<Longrightarrow> trimLeft (w @ rest) = w @ rest"
  by (cases w) (auto simp: word_def decodeRune_visible not_space_visible)

lemma Fields_word:
  assumes "word w" "rest = [] \<or> hd rest = CHR '' ''"
  shows "Fields (w @ rest) = w # Fields rest"
proof -
  have "w \<noteq> []" "\<forall>c \<in> set w. 32 < byte c \<and> byte c < (127 :: nat)"
    using assms(1) by (simp_all add: word_def)
  then show ?thesis
    using span_field_word [of w rest] trimLeft_word [OF assms(1), of rest] assms(2)
    by (subst Fields.simps) simp
qed

lemma Fields_two: "word a \<Longrightarrow> word b \<Longrightarrow> Fields (a @ CHR '' '' # b) = [a, b]"
proof -
  assume a: "word a" "word b"
  have "trimLeft (CHR '' '' # b) = b"
    using trimLeft_word [OF a(2), of "[]"] by (simp add: decodeRune_visible IsSpace_def)
  then have "Fields (CHR '' '' # b) = Fields b"
    using trimLeft_word [OF a(2), of "[]"] by (subst (1 2) Fields.simps) simp
  moreover have "Fields b = [b]"
    using Fields_word [OF a(2), of "[]"] by (simp add: Fields.simps [of "[]"])
  ultimately show ?thesis using Fields_word [OF a(1), of "CHR '' '' # b"] by simp
qed

lemma api_key_word: "IsValidAPIKeyValue v \<Longrightarrow> word v"
proof -
  assume v: "IsValidAPIKeyValue v"
  then have "v \<noteq> []" by (auto simp: IsValidAPIKeyValue_def MinAPIKeyBytes_def)
  then show ?thesis using v by (force simp: word_def IsValidAPIKeyValue_bytes)
qed

lemma parseBearerToken_word:
  assumes "word v"
  shows "parseBearerToken (''Bearer '' @ v) = Some v"
proof -
  have "word ''Bearer''" by (simp add: word_def)
  from Fields_two [OF this assms] have f: "Fields (''Bearer '' @ v) = [''Bearer'', v]" by simp
  have "\<not> (v = [] \<or> (\<exists>c \<in> set v. c = CHR '' '' \<or> byte c \<in> {9, 10, 13 :: nat}))"
    using assms by (force simp: word_def)
  then show ?thesis unfolding parseBearerToken_def f by (simp add: EqualFold_def)
qed

end
