(* ===== verification/ProviderResolver.thy ===== *)
theory ProviderResolver
  imports Config Worker
begin

text \<open>
  \<open>internal/worker/provider_resolver.go\<close>: the accounts and channels of the configuration bound to the
  adapter that sends through them; and \<open>internal/provider/mock.go\<close> with \<open>envelope.go\<close>. The adapters
  with a network, one for SMTP and one for each HTTP API, are arguments here.
\<close>

section \<open>The mock provider and the envelope\<close>

text \<open>The error of the context, if it is done, comes from the environment.\<close>

definition MockProvider_Send :: "go_error option \<Rightarrow> SendRequest \<Rightarrow> SendResult result" where
  "MockProvider_Send ctx_err request =
     (case ctx_err of
        Some e \<Rightarrow> Inl e
      | None \<Rightarrow>
          if chan_Transport (sq_Channel request) \<noteq> TransportAPI then
            Inr (ChannelFailure ErrorCodeProviderUnavailable ''mock provider only supports api transport'')
          else if msg_MessageID (sq_Message request) = [] then
            Inr (MessagePermanentFailure ErrorCodeInternal ''message id is required'')
          else Inr (Accepted (''mock_'' @ msg_MessageID (sq_Message request))))"

definition mock_provider :: "(duration \<Rightarrow> ('s, go_error option) state) \<Rightarrow> 's Provider_send" where
  "mock_provider ctx_err timeout request =
     do { e \<leftarrow> ctx_err timeout; State_Monad.return (MockProvider_Send e request) }"

record providerEnvelope =
  env_from :: string
  env_to :: string

text \<open>The envelope, or the result that ends the attempt.\<close>

definition normalizeProviderEnvelope :: "SendRequest \<Rightarrow> SendResult + providerEnvelope" where
  "normalizeProviderEnvelope request =
     (let to = TrimSpace (msg_ToEmail (sq_Message request));
          from_addr = TrimSpace (chan_From (sq_Channel request))
      in if \<not> IsAddrSpecEmail to then
           Inl (MessagePermanentFailure ErrorCodeInvalidRecipient ''recipient invalid'')
         else if \<not> IsAddrSpecEmail from_addr then
           Inl (ChannelFailure ErrorCodeProviderUnavailable ''provider sender invalid'')
         else if \<not> IsSafeEmailDisplayName (chan_FromName (sq_Channel request)) then
           Inl (ChannelFailure ErrorCodeProviderUnavailable ''provider sender name invalid'')
         else Inr \<lparr>env_from = from_addr, env_to = to\<rparr>)"

section \<open>The resolver\<close>

record 's adapters =
  ad_mock :: "'s Provider_send"
  ad_smtp :: "'s Provider_send"
  ad_resend :: "'s Provider_send"
  ad_brevo :: "'s Provider_send"

definition providerAdapterFor :: "'s adapters \<Rightarrow> Provider \<Rightarrow> Transport \<Rightarrow> 's Provider_send result" where
  "providerAdapterFor ad provider transport =
     (if provider = ProviderMock \<and> transport = TransportAPI then Inr (ad_mock ad)
      else if provider = ProviderResend \<and> transport = TransportAPI then Inr (ad_resend ad)
      else if provider = ProviderBrevo \<and> transport = TransportAPI then Inr (ad_brevo ad)
      else if (provider = ProviderResend \<or> provider = ProviderBrevo) \<and> transport = TransportSMTP then
        Inr (ad_smtp ad)
      else Inl (Errorf ''provider with transport is not wired''))"

definition domainSMTPSettings :: "SMTPConfig option \<Rightarrow> SMTPSettings option" where
  "domainSMTPSettings settings =
     map_option (\<lambda>s. \<lparr>smtp_Host = smtpc_Host s, smtp_Port = smtpc_Port s, smtp_Username = smtpc_Username s,
       smtp_PasswordRef = smtpc_PasswordRef s\<rparr>) settings"

definition account_from_config :: "ProviderAccountConfig \<Rightarrow> ProviderAccount" where
  "account_from_config a =
     \<lparr>acct_Code = pac_Code a, acct_Provider = pac_Provider a, acct_Enabled = EnabledValue (pac_Enabled a),
      acct_CredentialRefs = map_of (pac_Credentials a)\<rparr>"

definition channel_from_config :: "ProviderChannelConfig \<Rightarrow> ProviderChannel" where
  "channel_from_config c =
     \<lparr>chan_Code = pcc_Code c, chan_Account = pcc_Account c, chan_Transport = pcc_Transport c,
      chan_Enabled = EnabledValue (pcc_Enabled c), chan_SenderDomain = pcc_SenderDomain c,
      chan_FromName = pcc_FromName c, chan_From = pcc_From c, chan_SMTP = domainSMTPSettings (pcc_SMTP c)\<rparr>"

text \<open>The map of the accounts: of two with one code the later counts.\<close>

fun accounts_by_code :: "ProviderAccountConfig list \<Rightarrow> (string \<rightharpoonup> ProviderAccount) \<Rightarrow> string \<rightharpoonup> ProviderAccount" where
  "accounts_by_code [] m = m"
| "accounts_by_code (a # as) m = accounts_by_code as (m(pac_Code a \<mapsto> account_from_config a))"

fun channel_runtimes ::
    "'s adapters \<Rightarrow> (string \<rightharpoonup> ProviderAccount) \<Rightarrow> ProviderChannelConfig list
     \<Rightarrow> 's ProviderChannelRuntime list result" where
  "channel_runtimes ad accounts [] = Inr []"
| "channel_runtimes ad accounts (c # cs) =
     (case accounts (pcc_Account c) of
        None \<Rightarrow> Inl (Errorf ''provider channel references missing account'')
      | Some account \<Rightarrow>
          (case providerAdapterFor ad (acct_Provider account) (pcc_Transport c) of
             Inl e \<Rightarrow> Inl (Wrapf ''provider channel'' e)
           | Inr adapter \<Rightarrow>
               and_then (channel_runtimes ad accounts cs) (\<lambda>rts.
                 Inr (\<lparr>rt_Account = account, rt_Channel = channel_from_config c,
                        rt_Provider = Some adapter\<rparr> # rts))))"

definition NewProviderResolverFromConfig ::
    "'s adapters \<Rightarrow> Config.Config option \<Rightarrow> (string \<rightharpoonup> 's ProviderChannelRuntime) result" where
  "NewProviderResolverFromConfig ad cfg =
     (case cfg of
        None \<Rightarrow> Inl (Errorf ''config is required'')
      | Some c \<Rightarrow>
          and_then (channel_runtimes ad (accounts_by_code (cfg_ProviderAccounts c) Map.empty)
            (cfg_ProviderChannels c)) (\<lambda>rts. Inr (NewStaticProviderResolver rts)))"

section \<open>Facts\<close>

lemma SupportsTransport_adapter:
  "SupportsTransport p t \<Longrightarrow> \<exists>adapter. providerAdapterFor ad p t = Inr adapter"
  by (cases p) (auto simp: SupportsTransport_def providerAdapterFor_def)

lemma accounts_by_code_lookup:
  assumes "distinct (map pac_Code as)"
  shows "accounts_by_code as m code =
     (case find (\<lambda>a. pac_Code a = code) as of Some a \<Rightarrow> Some (account_from_config a) | None \<Rightarrow> m code)"
  using assms
proof (induction as arbitrary: m)
  case (Cons a as)
  have "find (\<lambda>b. pac_Code b = pac_Code a) as = None"
    unfolding find_None_iff using Cons.prems by (metis distinct.simps(2) image_eqI list.map(2) list.set_map)
  then show ?case using Cons by (auto split: option.split)
qed simp

lemma channel_runtimes_ok:
  assumes "\<And>c. c \<in> set cs \<Longrightarrow> \<exists>a. accounts (pcc_Account c) = Some a
      \<and> SupportsTransport (acct_Provider a) (pcc_Transport c)"
  shows "\<exists>rts. channel_runtimes ad accounts cs = Inr rts
    \<and> list_all2 (\<lambda>c rt. rt_Channel rt = channel_from_config c \<and> accounts (pcc_Account c) = Some (rt_Account rt)
        \<and> rt_Provider rt \<noteq> None) cs rts"
  using assms
proof (induction cs)
  case (Cons c cs)
  obtain a where a: "accounts (pcc_Account c) = Some a" "SupportsTransport (acct_Provider a) (pcc_Transport c)"
    using Cons.prems [of c] by auto
  obtain adapter where "providerAdapterFor ad (acct_Provider a) (pcc_Transport c) = Inr adapter"
    using SupportsTransport_adapter [OF a(2)] by blast
  moreover obtain rts where "channel_runtimes ad accounts cs = Inr rts"
     "list_all2 (\<lambda>c rt. rt_Channel rt = channel_from_config c \<and> accounts (pcc_Account c) = Some (rt_Account rt)
        \<and> rt_Provider rt \<noteq> None) cs rts"
    using Cons.IH Cons.prems by auto
  ultimately show ?case using a by auto
qed simp

lemma static_resolver_lookup:
  "distinct (map (chan_Code \<circ> rt_Channel) rts) \<Longrightarrow> rt \<in> set rts \<Longrightarrow>
   NewStaticProviderResolver rts (chan_Code (rt_Channel rt)) = Some rt"
proof (induction rts)
  case (Cons x xs)
  have "NewStaticProviderResolver xs code = None" if "code \<notin> chan_Code ` rt_Channel ` set xs" for code
    using that by (induction xs) (auto simp: map_add_def split: option.split)
  then show ?case using Cons by (auto simp: map_add_def image_comp split: option.split)
qed simp

end
