(* ===== verification/ConfigFacts.thy ===== *)
theory ConfigFacts
  imports ConfigValidation Auth ProviderResolver
begin

text \<open>
  What a report without errors says of a configuration: facts of each loop of \<open>validation.go\<close>, in the
  form the constructors of the runtime need them.
\<close>

section \<open>Formats\<close>

lemma lower_or_digit_iff: "lower_or_digit c \<longleftrightarrow> is_lower c \<or> is_digit c"
  by (simp add: lower_or_digit_def)

lemma identifierPattern_eq: "identifierPattern s = isRequestIdentifier s"
proof -
  have "identifierPattern s = isValidSuppressionAppCode s"
    by (auto simp: identifierPattern_def isValidSuppressionAppCode_def list_all_iff split: list.split)
  then show ?thesis by (simp add: isValidSuppressionAppCode_eq)
qed

lemma length_two: "length l = 2 \<Longrightarrow> \<exists>x y. l = [x, y]"
  by (auto simp: length_Suc_conv numeral_2_eq_2)

lemma isValidLocale_eq: "isValidLocale s = isRequestLocaleFormat s"
proof (cases "length s = 5 \<or> length s = 6")
  case False
  then show ?thesis by (auto simp: isValidLocale_def isRequestLocaleFormat_def)
next
  case True
  define n where "n = length s - 3"
  have n: "length s = n + 3" "n = 2 \<or> n = 3" using True by (auto simp: n_def)
  have "length (drop (n + 1) s) = 2" using n by simp
  then obtain x y where d: "drop (n + 1) s = [x, y]" using length_two by blast
  have xy: "x = s ! (n + 1)" "y = s ! (n + 2)"
    using arg_cong [OF d, of "\<lambda>l. l ! 0"] arg_cong [OF d, of "\<lambda>l. l ! 1"] n by simp_all
  have "isValidLocale s \<longleftrightarrow> list_all is_lower (take n s) \<and> s ! n = CHR ''-'' \<and> is_upper x \<and> is_upper y"
    using n d by (auto simp: isValidLocale_def)
  moreover have "isRequestLocaleFormat s \<longleftrightarrow>
      list_all is_lower (take n s) \<and> s ! n = CHR ''-'' \<and> is_upper x \<and> is_upper y"
    using n True xy by (auto simp: isRequestLocaleFormat_def Let_def list_all_iff n_def)
  ultimately show ?thesis by simp
qed

lemma route_label_eq: "route_label l = isAddrSpecLabel l"
proof (cases "l = []")
  case False
  have "hd l = l ! 0" "last l = l ! (length l - 1)" using False by (simp_all add: hd_conv_nth last_conv_nth)
  then show ?thesis using False
    by (fastforce simp: route_label_def isAddrSpecLabel_def list_all_iff lower_or_digit_def all_set_conv_all_nth)
qed (simp add: route_label_def isAddrSpecLabel_def)

text \<open>The domains a route can be set for are the domains a recipient can have.\<close>

lemma label_lower: "isAddrSpecLabel l \<Longrightarrow> ToLower l = l"
proof -
  assume "isAddrSpecLabel l"
  then have "\<forall>c \<in> set l. \<not> is_upper c"
    by (auto simp: isAddrSpecLabel_def lower_or_digit_def char_between_def)
  then show ?thesis by (simp add: ToLower_def lower_char_def map_idI)
qed

lemma isValidRouteDomain_eq: "isValidRouteDomain v \<longleftrightarrow> isAddrSpecDomain v \<and> ToLower v = v"
  by (auto simp: isValidRouteDomain_def isAddrSpecDomain_def list_all_iff route_label_eq)

section \<open>Secrets\<close>

lemma resolveSecretRef_ok:
  assumes "rep_Errors (snd (resolveSecretRef resolver options path ref)) = []"
  obtains resolved where "resolver ref = Inr resolved" "secret_Value resolved \<noteq> []"
    "fst (resolveSecretRef resolver options path ref) = Some resolved"
  using assms by (auto simp: resolveSecretRef_def Let_def split: if_splits sum.splits)

lemma validateBearerSecretRef_ok:
  assumes "rep_Errors (validateBearerSecretRef resolver options path ref) = []"
  obtains resolved where "resolver ref = Inr resolved" "secret_Value resolved \<noteq> []"
    "isVisibleASCIIWithoutWhitespaceSecret (secret_Value resolved)"
proof -
  let ?r = "resolveSecretRef resolver options path ref"
  have e: "rep_Errors (snd ?r) = []"
    using assms by (auto simp: validateBearerSecretRef_def validateSecretRef_def split: prod.splits option.splits)
  obtain resolved where r: "resolver ref = Inr resolved" "secret_Value resolved \<noteq> []" "fst ?r = Some resolved"
    using resolveSecretRef_ok [OF e] by blast
  then show thesis using assms that
    by (auto simp: validateBearerSecretRef_def validateSecretRef_def split: prod.splits)
qed

section \<open>Accounts and channels\<close>

lemma map_add_Cons:
  assumes "m' = m(k x \<mapsto> x) ++ map_of (map (\<lambda>y. (k y, y)) ys)" "\<And>y. y \<in> set ys \<Longrightarrow> k y \<noteq> k x"
  shows "m' = m ++ map_of (map (\<lambda>y. (k y, y)) (x # ys))"
proof -
  have "k x \<notin> dom (map_of (map (\<lambda>y. (k y, y)) ys))"
    by (auto simp: dom_map_of_conv_image_fst) (metis assms(2))
  then have "m' = (m ++ map_of (map (\<lambda>y. (k y, y)) ys))(k x \<mapsto> x)"
    unfolding assms(1) by (rule map_add_upd_left)
  then show ?thesis by simp
qed

lemma validate_accounts_ok:
  assumes "validate_accounts resolver options i accounts m = (m', r)" "rep_Errors r = []"
  shows "(\<forall>a \<in> set accounts. identifierPattern (pac_Code a) \<and> Provider_IsValid (pac_Provider a)
           \<and> m (pac_Code a) = None)
    \<and> distinct (map pac_Code accounts)
    \<and> m' = m ++ map_of (map (\<lambda>a. (pac_Code a, a)) accounts)"
  using assms
proof (induction accounts arbitrary: i m m' r)
  case (Cons a accounts)
  let ?m = "m(pac_Code a \<mapsto> a)"
  have id: "identifierPattern (pac_Code a)" and prov: "Provider_IsValid (pac_Provider a)"
    and fresh: "\<not> (pac_Code a \<noteq> [] \<and> m (pac_Code a) \<noteq> None)"
    using Cons.prems by (auto simp: Let_def validateIdentifier_def split: prod.splits)
  have "pac_Code a \<noteq> []" using id by (auto simp: identifierPattern_def)
  then have new: "m (pac_Code a) = None" using fresh by simp
  obtain r' where rest: "validate_accounts resolver options (Suc i) accounts ?m = (m', r')" "rep_Errors r' = []"
    using Cons.prems \<open>pac_Code a \<noteq> []\<close> new by (auto simp: Let_def split: prod.splits)
  note ih = Cons.IH [OF rest]
  have other: "pac_Code b \<noteq> pac_Code a \<and> m (pac_Code b) = None" if "b \<in> set accounts" for b
    using ih that by (force split: if_splits)
  moreover have "m' = m ++ map_of (map (\<lambda>a. (pac_Code a, a)) (a # accounts))"
  proof (rule map_add_Cons)
    show "m' = m(pac_Code a \<mapsto> a) ++ map_of (map (\<lambda>a. (pac_Code a, a)) accounts)" using ih by blast
  qed (use other in blast)
  moreover have "pac_Code a \<notin> pac_Code ` set accounts" by (metis other imageE)
  moreover from this have "distinct (map pac_Code (a # accounts))" using ih by simp
  moreover have "\<forall>b \<in> set (a # accounts). identifierPattern (pac_Code b) \<and> Provider_IsValid (pac_Provider b)
      \<and> m (pac_Code b) = None"
    using ih id prov new other by auto
  ultimately show ?case by blast
qed simp

definition channel_usable :: "accounts_map \<Rightarrow> ProviderChannelConfig \<Rightarrow> bool" where
  "channel_usable accounts c \<longleftrightarrow> EnabledValue (pcc_Enabled c)
     \<and> (case accounts (pcc_Account c) of None \<Rightarrow> False | Some a \<Rightarrow> EnabledValue (pac_Enabled a))"

lemma validate_channel_ok:
  assumes "rep_Errors (validate_channel resolver options accounts path known c) = []"
  shows "identifierPattern (pcc_Code c)" "\<not> known"
    "\<exists>a. accounts (pcc_Account c) = Some a \<and> SupportsTransport (pac_Provider a) (pcc_Transport c)
       \<and> (EnabledValue (pcc_Enabled c) \<longrightarrow> EnabledValue (pac_Enabled a))"
    "IsSafeEmailDisplayName (pcc_FromName c)" "IsAddrSpecEmail (pcc_From c)"
  using assms
  by (auto simp: validate_channel_def Let_def validateIdentifier_def validateFromDomain_def IsAddrSpecEmail_def
      split: if_splits option.splits)

lemma validate_channels_ok:
  assumes "validate_channels resolver options accounts i channels m usable = (m', usable', r)" "rep_Errors r = []"
  shows "(\<forall>c \<in> set channels. identifierPattern (pcc_Code c) \<and> m (pcc_Code c) = None
           \<and> (\<exists>path. rep_Errors (validate_channel resolver options accounts path False c) = []))
    \<and> distinct (map pcc_Code channels)
    \<and> m' = m ++ map_of (map (\<lambda>c. (pcc_Code c, c)) channels)
    \<and> set usable' = set usable \<union> pcc_Code ` {c \<in> set channels. channel_usable accounts c}"
  using assms
proof (induction channels arbitrary: i m usable m' usable' r)
  case (Cons c channels)
  let ?known = "pcc_Code c \<noteq> [] \<and> m (pcc_Code c) \<noteq> None"
  let ?usable = "if pcc_Code c \<noteq> [] \<and> channel_usable accounts c then pcc_Code c # usable else usable"
  have head: "rep_Errors (validate_channel resolver options accounts (indexed ''provider_channels'' i) ?known c) = []"
    using Cons.prems by (auto simp: Let_def split: prod.splits)
  note h = validate_channel_ok [OF head]
  have ne: "pcc_Code c \<noteq> []" using h(1) by (auto simp: identifierPattern_def)
  then have new: "m (pcc_Code c) = None" using h(2) by simp
  obtain r' where rest: "validate_channels resolver options accounts (Suc i) channels (m(pcc_Code c \<mapsto> c)) ?usable
      = (m', usable', r')" "rep_Errors r' = []"
    using Cons.prems ne new unfolding validate_channels.simps Let_def channel_usable_def
    by (auto split: prod.splits)
  note ih = Cons.IH [OF rest]
  have other: "pcc_Code b \<noteq> pcc_Code c \<and> m (pcc_Code b) = None" if "b \<in> set channels" for b
    using ih that by (force split: if_splits)
  have one: "\<exists>path. rep_Errors (validate_channel resolver options accounts path False c) = []"
    using head new by auto
  have "m' = m ++ map_of (map (\<lambda>c. (pcc_Code c, c)) (c # channels))"
  proof (rule map_add_Cons)
    show "m' = m(pcc_Code c \<mapsto> c) ++ map_of (map (\<lambda>c. (pcc_Code c, c)) channels)" using ih by blast
  qed (use other in blast)
  moreover have "set usable' = set usable \<union> pcc_Code ` {x \<in> set (c # channels). channel_usable accounts x}"
    using ih ne by auto
  moreover have "pcc_Code c \<notin> pcc_Code ` set channels" by (metis other imageE)
  moreover from this have "distinct (map pcc_Code (c # channels))" using ih by simp
  moreover have "\<forall>b \<in> set (c # channels). identifierPattern (pcc_Code b) \<and> m (pcc_Code b) = None
      \<and> (\<exists>path. rep_Errors (validate_channel resolver options accounts path False b) = [])"
    using ih h(1) new other one by auto
  ultimately show ?case by blast
qed simp

section \<open>Applications\<close>

text \<open>The keys are resolved again when the authenticator is built, with the same outcome.\<close>

lemma validate_api_keys_ok:
  assumes "validate_api_keys resolver options appPath j keys names paths = (paths', r)" "rep_Errors r = []"
    and "dom paths = dom seen"
  shows "\<exists>metadata seen'. resolve_keys resolver i k keys seen = Inr (metadata, seen') \<and> dom paths' = dom seen'"
  using assms
proof (induction keys arbitrary: j k names paths paths' r seen)
  case (Cons key keys)
  let ?path = "indexed (appPath @ ''.api_keys'') j"
  let ?r = "resolveSecretRef resolver options (?path @ ''.key_ref'') (akc_KeyRef key)"
  have e: "rep_Errors (snd ?r) = []"
    using Cons.prems(1,2) by (auto simp: Let_def split: prod.splits option.splits)
  obtain resolved where r: "resolver (akc_KeyRef key) = Inr resolved" "fst ?r = Some resolved"
    using resolveSecretRef_ok [OF e] by blast
  let ?h = "APIKeyHash (secret_Value resolved)"
  have ok: "IsValidAPIKeyValue (secret_Value resolved)" "paths ?h = None"
    using Cons.prems(1,2) r(2) by (auto simp: Let_def split: prod.splits option.splits)
  obtain names' r' where rest: "validate_api_keys resolver options appPath (Suc j) keys names'
      (paths(?h \<mapsto> ?path @ ''.key_ref'')) = (paths', r')" "rep_Errors r' = []"
    using Cons.prems(1,2) r(2) ok(2) by (auto simp: Let_def split: prod.splits)
  have seen: "seen ?h = None" using ok(2) Cons.prems(3) by (metis domIff)
  have "dom (paths(?h \<mapsto> ?path @ ''.key_ref'')) = dom (seen(?h \<mapsto> key_path i k))"
    using Cons.prems(3) by simp
  from Cons.IH [OF rest this, of "Suc k"] obtain metadata seen' where
    "resolve_keys resolver i (Suc k) keys (seen(?h \<mapsto> key_path i k)) = Inr (metadata, seen')"
    "dom paths' = dom seen'"
    by blast
  then show ?case using r(1) ok(1) seen by (simp add: Let_def)
qed simp

lemma templateKey_inject:
  assumes "templateKey a l = templateKey b k" "char_of (0 :: nat) \<notin> set b" "char_of (0 :: nat) \<notin> set k"
  shows "a = b \<and> l = k"
  using assms by (auto simp: templateKey_def append_eq_append_conv2 append_eq_Cons_conv Cons_eq_append_conv)

lemma no_nul:
  "identifierPattern s \<Longrightarrow> char_of (0 :: nat) \<notin> set s" "isValidLocale l \<Longrightarrow> char_of (0 :: nat) \<notin> set l"
proof -
  show "identifierPattern s \<Longrightarrow> char_of (0 :: nat) \<notin> set s"
    using app_code_chars(1) [of s "char_of (0 :: nat)"]
    by (auto simp: identifierPattern_eq isValidSuppressionAppCode_eq of_char_of)
  assume "isValidLocale l"
  then obtain n where n: "length l = n + 3" "list_all is_lower (take n l)" "l ! n = CHR ''-''"
      "list_all is_upper (drop (n + 1) l)"
    by (auto simp: isValidLocale_def)
  then have "l = take n l @ [CHR ''-''] @ drop (n + 1) l"
    by (metis Cons_nth_drop_Suc Suc_eq_plus1 append_Cons append_Nil append_take_drop_id less_add_same_cancel1 zero_less_numeral)
  moreover have "char_of (0 :: nat) \<notin> set (take n l)" "char_of (0 :: nat) \<notin> set (drop (n + 1) l)"
    using n(2,4) by (auto simp: list_all_iff char_between_def)
  moreover have "char_of (0 :: nat) \<noteq> CHR ''-''" by code_simp
  ultimately show "char_of (0 :: nat) \<notin> set l"
    by (metis Un_iff empty_iff empty_set insert_iff list.simps(15) set_append)
qed

lemma validate_templates_ok:
  assumes "validate_templates te he appPath allowed i tmpls m = (m', r)" "rep_Errors r = []" "m' key = Some t"
  shows "m key = Some t \<or> (t \<in> set tmpls \<and> key = templateKey (tc_Code t) (tc_Locale t)
    \<and> identifierPattern (tc_Code t) \<and> isValidLocale (tc_Locale t))"
  using assms
proof (induction tmpls arbitrary: i m m' r)
  case (Cons x xs)
  have ok: "identifierPattern (tc_Code x)" "isValidLocale (tc_Locale x)"
    using Cons.prems(1,2) by (auto simp: Let_def validate_template_def validateIdentifier_def split: prod.splits)
  obtain m1 r' where rest: "validate_templates te he appPath allowed (Suc i) xs m1 = (m', r')" "rep_Errors r' = []"
      "m1 = m \<or> m1 = m(templateKey (tc_Code x) (tc_Locale x) \<mapsto> x)"
    using Cons.prems(1,2) by (auto simp: Let_def split: prod.splits if_splits)
  from Cons.IH [OF rest(1,2) Cons.prems(3)] show ?case using rest(3) ok by (auto split: if_splits)
qed simp

text \<open>What a route of the policy needs: channels, each once, all of them usable.\<close>

lemma validate_route_ok:
  "rep_Errors (validate_route channels usable path i codes seen) = [] \<Longrightarrow>
   distinct codes \<and> (\<forall>code \<in> set codes. map_of seen code = None \<and> code \<in> set usable
     \<and> (\<exists>ch. channels code = Some ch \<and> EnabledValue (pcc_Enabled ch)))"
proof (induction codes arbitrary: i seen)
  case (Cons code codes)
  have new: "map_of seen code = None" using Cons.prems by (auto simp: Let_def split: option.splits)
  then have rest: "rep_Errors (validate_route channels usable path (Suc i) codes ((code, i) # seen)) = []"
    using Cons.prems by (simp add: Let_def)
  have "\<exists>ch. channels code = Some ch \<and> EnabledValue (pcc_Enabled ch)" "code \<in> set usable"
    using Cons.prems new by (auto simp: Let_def split: option.splits if_splits)
  then show ?case using Cons.IH [OF rest] new by (auto split: if_splits)
qed simp

definition policy_ok :: "channels_map \<Rightarrow> string list \<Rightarrow> RoutePolicyConfig \<Rightarrow> bool" where
  "policy_ok channels usable policy \<longleftrightarrow>
     map_of policy RoutePolicyWildcard \<noteq> None
     \<and> (\<forall>(k, codes) \<in> set policy. codes \<noteq> [] \<and> distinct codes
          \<and> (\<forall>code \<in> set codes. code \<in> set usable \<and> (\<exists>ch. channels code = Some ch \<and> EnabledValue (pcc_Enabled ch))))"

lemma validateRoutePolicy_ok:
  "rep_Errors (validateRoutePolicy channels usable path policy) = [] \<Longrightarrow> policy_ok channels usable policy"
  by (fastforce simp: validateRoutePolicy_def policy_ok_def dest: validate_route_ok)

definition scene_ok :: "channels_map \<Rightarrow> string list \<Rightarrow> AppConfig \<Rightarrow> SceneConfig \<Rightarrow> bool" where
  "scene_ok channels usable app scene \<longleftrightarrow>
     policy_ok channels usable (sc_RoutePolicy scene)
     \<and> (\<exists>t \<in> set (ac_Templates app). tc_Code t = sc_Template scene \<and> tc_Locale t = ac_DefaultLocale app
          \<and> EnabledValue (tc_Enabled t))
     \<and> 0 < rlc_SameEmailPerMinute (sc_RateLimit scene) \<and> 0 < rlc_SameEmailPerDay (sc_RateLimit scene)
     \<and> 0 < rlc_SameUserIPPerHour (sc_RateLimit scene) \<and> 0 < rlc_SameCallerIPPerHour (sc_RateLimit scene)"

lemma validate_scenes_ok:
  assumes "rep_Errors (validate_scenes channels usable appPath app templates i scenes codes) = []"
    and t: "validate_templates te he appPath allowed 0 (ac_Templates app) Map.empty = (templates, r)"
      "rep_Errors r = []"
  shows "\<forall>scene \<in> set scenes. scene_ok channels usable app scene"
  using assms(1)
proof (induction scenes arbitrary: i codes)
  case (Cons scene scenes)
  obtain t where t1: "templates (templateKey (sc_Template scene) (ac_DefaultLocale app)) = Some t"
      "EnabledValue (tc_Enabled t)"
    using Cons.prems by (auto simp: Let_def split: if_splits option.splits)
  from validate_templates_ok [OF t t1(1)] have
    "t \<in> set (ac_Templates app)" "identifierPattern (tc_Code t)" "isValidLocale (tc_Locale t)"
    and key: "templateKey (sc_Template scene) (ac_DefaultLocale app) = templateKey (tc_Code t) (tc_Locale t)"
    by auto
  moreover from this have "sc_Template scene = tc_Code t \<and> ac_DefaultLocale app = tc_Locale t"
    using templateKey_inject [OF key no_nul(1) no_nul(2)] by blast
  ultimately have "scene_ok channels usable app scene"
    using Cons.prems t1(2) unfolding scene_ok_def
    by (auto simp: Let_def validateRateLimit_def dest: validateRoutePolicy_ok)
  moreover have "\<forall>scene \<in> set scenes. scene_ok channels usable app scene"
    by (rule Cons.IH) (use Cons.prems in \<open>auto simp: Let_def\<close>)
  ultimately show ?case by simp
qed simp

lemma validate_apps_ok:
  assumes "validate_apps resolver options te he channels usable i apps codes paths = (codes', r)" "rep_Errors r = []"
    and "dom paths = dom seen"
  shows "(\<exists>as. resolve_apps resolver k apps seen = Inr as)
    \<and> (\<forall>app \<in> set apps. \<forall>scene \<in> set (ac_Scenes app). scene_ok channels usable app scene)"
  using assms
proof (induction apps arbitrary: i k codes paths seen codes' r)
  case (Cons app apps)
  let ?path = "indexed ''apps'' i"
  obtain allowed r2 paths' r3 templates r4 codes1 r6 where
    l: "validateAppLocales ?path app = (allowed, r2)" and
    keys: "validateAPIKeys resolver options ?path app paths = (paths', r3)" "rep_Errors r3 = []" and
    ts: "validateTemplates te he ?path app allowed = (templates, r4)" "rep_Errors r4 = []" and
    sc: "rep_Errors (validateScenes channels usable ?path app templates) = []" and
    rest: "validate_apps resolver options te he channels usable (Suc i) apps codes1 paths' = (codes', r6)"
      "rep_Errors r6 = []"
    using Cons.prems(1,2) by (auto simp: Let_def split: prod.splits)
  obtain metadata seen' where k: "resolve_keys resolver k 0 (ac_APIKeys app) seen = Inr (metadata, seen')"
      "dom paths' = dom seen'"
    using validate_api_keys_ok [OF keys(1) [unfolded validateAPIKeys_def] keys(2) Cons.prems(3)] by blast
  from Cons.IH [OF rest k(2), of "Suc k"] obtain as where "resolve_apps resolver (Suc k) apps seen' = Inr as"
    "\<forall>app \<in> set apps. \<forall>scene \<in> set (ac_Scenes app). scene_ok channels usable app scene" by blast
  moreover have "\<forall>scene \<in> set (ac_Scenes app). scene_ok channels usable app scene"
    using validate_scenes_ok [OF sc [unfolded validateScenes_def] ts(1) [unfolded validateTemplates_def] ts(2)] .
  ultimately show ?case using k(1) by simp
qed simp

section \<open>The suppression file\<close>

lemma validate_entries_ok:
  assumes "rep_Errors (validate_entries appCodes i entries seen) = []"
    and "\<And>key. map_of seen key = None \<longleftrightarrow> map_of m key = None"
  shows "\<exists>m'. load_entries j entries m = Inr m'"
  using assms
proof (induction entries arbitrary: i j seen m)
  case (Cons y ys)
  let ?app = "TrimSpace (y_App y)"
  have app: "?app \<noteq> []" "identifierPattern ?app" and reason: "SuppressionReason_IsValid (SuppressionReason_of (y_Reason y))"
    using Cons.prems(1) by (auto simp: Let_def split: if_splits)
  obtain n where n: "NormalizeAddrSpecEmail (TrimSpace (y_Email y)) = Some n"
    using Cons.prems(1) by (auto simp: Let_def split: option.splits)
  let ?key = "suppressionEntryKey ?app n"
  have new: "map_of seen ?key = None"
    using Cons.prems(1) n app by (auto simp: Let_def split: option.splits)
  have rest: "rep_Errors (validate_entries appCodes (Suc i) ys ((?key, i) # seen)) = []"
    using Cons.prems(1) n app new by (simp add: Let_def)
  let ?m = "AList.update ?key \<lparr>sup_AppCode = ?app, sup_Email = TrimSpace (y_Email y), sup_NormalizedEmail = n,
      sup_Reason = SuppressionReason_of (y_Reason y)\<rparr> m"
  have "map_of ((?key, i) # seen) key = None \<longleftrightarrow> map_of ?m key = None" for key
    using Cons.prems(2) [of key] by (simp add: update_conv)
  from Cons.IH [OF rest this, of "Suc j"] show ?case
    using app reason n new Cons.prems(2) [of ?key]
    by (simp add: Let_def suppressionKey_def suppressionEntryKey_def identifierPattern_eq isValidSuppressionAppCode_eq)
qed simp

lemma validateSuppressionFile_ok:
  assumes "rep_Errors (validateSuppressionFile env appCodes path) = []"
  shows "\<exists>store. LoadSuppressionStore (se_yaml env) (se_read_error env) path (se_files env) = Inr store"
proof -
  have decode: "decodeSuppressionFile env data = decodeSuppressionYAML (fst (se_yaml env data)) (snd (se_yaml env data))"
    for data by (simp add: decodeSuppressionFile_def decodeSuppressionYAML_def)
  show ?thesis
    using assms validate_entries_ok [of appCodes 0 _ "[]" "[]" 0]
    by (fastforce simp: LoadSuppressionStore_def validateSuppressionFile_def decode
        split: if_splits option.splits sum.splits)
qed

end
