(* ===== verification/NativeWebhooks.thy ===== *)
theory NativeWebhooks
  imports Auth Base64 Request ProviderEvents
begin

text \<open>
  The webhooks of the providers themselves: \<open>internal/api/resend_webhook.go\<close>, whose requests carry a
  signature of Svix, and \<open>internal/api/brevo_webhook.go\<close>, whose requests carry a bearer token. Both are
  translated into the event the generic webhook accepts and applied by it.
\<close>

section \<open>HMAC-SHA256\<close>

text \<open>\<open>crypto/hmac\<close> over \<open>crypto/sha256\<close>, with its block of 64 bytes.\<close>

definition hmac_key :: "nat list \<Rightarrow> nat list" where
  "hmac_key key = (let k = (if 64 < length key then sha256 key else key) in k @ replicate (64 - length k) 0)"

definition xor_byte :: "nat \<Rightarrow> nat \<Rightarrow> nat" where
  "xor_byte x y = unat (of_nat x XOR of_nat y :: 8 word)"

definition hmac_sha256 :: "nat list \<Rightarrow> nat list \<Rightarrow> nat list" where
  "hmac_sha256 key message =
     (let k = hmac_key key
      in sha256 (map (xor_byte 92) k @ sha256 (map (xor_byte 54) k @ message)))"

section \<open>Resend\<close>

definition resendWebhookTolerance :: duration where "resendWebhookTolerance = 5 * Minute"

record resendWebhookVerifier =
  rv_enabled :: bool
  rv_secret :: string

definition decodeSvixSecret :: "string \<Rightarrow> string result" where
  "decodeSvixSecret v0 =
     (let v = TrimPrefix (TrimSpace v0) ''whsec_''
      in case (case StdEncoding_Decode v of Some bs \<Rightarrow> Some bs | None \<Rightarrow> RawStdEncoding_Decode v) of
           None \<Rightarrow> Inl (Errorf ''decode resend webhook secret'')
         | Some secret \<Rightarrow>
             if secret = [] then Inl (Errorf ''decode resend webhook secret: empty secret'') else Inr secret)"

definition newResendWebhookVerifier :: "WebhookConfig \<Rightarrow> SecretResolver \<Rightarrow> resendWebhookVerifier result" where
  "newResendWebhookVerifier webhooks resolver =
     (if \<not> webhook_Enabled webhooks \<or> TrimSpace (webhook_ResendSecretRef webhooks) = [] then
        Inr \<lparr>rv_enabled = False, rv_secret = []\<rparr>
      else and_then (wrapped ''resolve resend webhook secret'' (resolver (webhook_ResendSecretRef webhooks)))
             (\<lambda>resolved. and_then (decodeSvixSecret (secret_Value resolved))
             (\<lambda>secret. Inr \<lparr>rv_enabled = True, rv_secret = secret\<rparr>)))"

text \<open>The values that follow a \<open>v1\<close> in the list of the signature header.\<close>

fun values_after_v1 :: "string list \<Rightarrow> string list" where
  "values_after_v1 (t # v # ts) =
     (if t = ''v1'' then v # values_after_v1 (v # ts) else values_after_v1 (v # ts))"
| "values_after_v1 _ = []"

definition svixV1SignatureValues :: "string \<Rightarrow> string list" where
  "svixV1SignatureValues header =
     values_after_v1 (Fields (List.map (\<lambda>c. if c = CHR '','' then CHR '' '' else c) header))"

text \<open>\<open>strconv.ParseInt(s, 10, 64)\<close>: an optional sign and digits.\<close>

definition ParseInt :: "string \<Rightarrow> int option" where
  "ParseInt s = parse_int64 (if HasPrefix s ''+'' then (if HasPrefix s ''+-'' then [] else drop 1 s) else s)"

definition bytes_of :: "string \<Rightarrow> nat list" where
  "bytes_of s = List.map byte s"

definition verify :: "resendWebhookVerifier \<Rightarrow> go_time \<Rightarrow> (string \<Rightarrow> string) \<Rightarrow> string \<Rightarrow> unit result" where
  "verify v verifiedAt header body =
     (let id = TrimSpace (header ''svix-id'');
          timestamp = TrimSpace (header ''svix-timestamp'');
          signature = TrimSpace (header ''svix-signature'')
      in if id = [] \<or> timestamp = [] \<or> signature = [] then Inl unauthorized
         else case ParseInt timestamp of
                None \<Rightarrow> Inl unauthorized
              | Some seconds \<Rightarrow>
                  if seconds * Second < verifiedAt - resendWebhookTolerance
                     \<or> verifiedAt + resendWebhookTolerance < seconds * Second then Inl unauthorized
                  else
                    let expected = hmac_sha256 (bytes_of (rv_secret v))
                          (bytes_of (id @ ''.'' @ timestamp @ ''.'' @ body))
                    in if list_ex (\<lambda>encoded. case StdEncoding_Decode encoded of
                                      None \<Rightarrow> False
                                    | Some actual \<Rightarrow> bytes_of actual = expected)
                            (svixV1SignatureValues signature)
                       then Inr () else Inl unauthorized)"

text \<open>
  Decoding into nested structs. A member that is an object goes into the struct of its field, and the
  objects of several members of one name into the same struct; a list of strings is decoded into the
  slice the field already has, so that a \<open>null\<close> leaves what an earlier list put there.
\<close>

fun object_step :: "json_members option \<Rightarrow> json \<Rightarrow> json_members option" where
  "object_step acc JNull = acc"
| "object_step acc (JObject ms) = map_option (\<lambda>ms0. ms0 @ ms) acc"
| "object_step acc v = None"

definition object_field :: "string \<Rightarrow> json_members \<Rightarrow> json_members option" where
  "object_field name ms = foldl object_step (Some []) (members_named name ms)"

text \<open>The cells of the slice, those behind its length too.\<close>

fun string_cells :: "json list \<Rightarrow> string list \<Rightarrow> string list option" where
  "string_cells [] cells = Some cells"
| "string_cells (JString s # vs) cells = map_option ((#) s) (string_cells vs (tl cells))"
| "string_cells (JNull # vs) cells =
     map_option ((#) (if cells = [] then [] else hd cells)) (string_cells vs (tl cells))"
| "string_cells (v # vs) cells = None"

fun strings_step :: "(string list \<times> nat) option \<Rightarrow> json \<Rightarrow> (string list \<times> nat) option" where
  "strings_step acc JNull = map_option (\<lambda>_. ([], 0)) acc"
| "strings_step acc (JArray vs) =
     (case acc of
        None \<Rightarrow> None
      | Some (cells, n) \<Rightarrow>
          if vs = [] then Some ([], 0)
          else map_option (\<lambda>cells'. (cells', length vs)) (string_cells vs cells))"
| "strings_step acc v = None"

definition strings_field :: "string \<Rightarrow> json_members \<Rightarrow> string list option" where
  "strings_field name ms =
     map_option (\<lambda>(cells, n). take n cells) (foldl strings_step (Some ([], 0)) (members_named name ms))"

record resendWebhookPayload =
  rp_Type :: string
  rp_EmailID :: string
  rp_To :: "string list"
  rp_TagApp :: string
  rp_TagMessageID :: string
  rp_TagProviderAccount :: string
  rp_TagProviderChannel :: string
  rp_CreatedAt :: string

definition resend_payload :: "json_members \<Rightarrow> resendWebhookPayload option" where
  "resend_payload ms = do {
     typ \<leftarrow> string_field ''type'' ms;
     data \<leftarrow> object_field ''data'' ms;
     created \<leftarrow> string_field ''created_at'' ms;
     email_id \<leftarrow> string_field ''email_id'' data;
     to \<leftarrow> strings_field ''to'' data;
     tags \<leftarrow> object_field ''tags'' data;
     app \<leftarrow> string_field ''app'' tags;
     message_id \<leftarrow> string_field ''message_id'' tags;
     account \<leftarrow> string_field ''provider_account'' tags;
     channel \<leftarrow> string_field ''provider_channel'' tags;
     Some \<lparr>rp_Type = typ, rp_EmailID = email_id, rp_To = to, rp_TagApp = app, rp_TagMessageID = message_id,
        rp_TagProviderAccount = account, rp_TagProviderChannel = channel, rp_CreatedAt = created\<rparr>
   }"

definition mapResendEventType :: "string \<Rightarrow> ProviderEventType option" where
  "mapResendEventType v =
     (if v = ''email.delivered'' then Some ProviderEventDelivered
      else if v = ''email.bounced'' then Some ProviderEventBounced
      else if v = ''email.complained'' then Some ProviderEventComplained
      else None)"

fun firstNonEmptyString :: "string list \<Rightarrow> string" where
  "firstNonEmptyString [] = []"
| "firstNonEmptyString (v # vs) = (if TrimSpace v \<noteq> [] then TrimSpace v else firstNonEmptyString vs)"

definition source_payload :: "string \<Rightarrow> string" where
  "source_payload name =
     [CHR ''{'', quote_char] @ ''source'' @ [quote_char, CHR '':'', quote_char] @ name @ [quote_char, CHR ''}'']"

definition resend_event :: "resendWebhookPayload \<Rightarrow> ProviderEventType \<Rightarrow> ProviderEvent" where
  "resend_event p eventType =
     \<lparr>ev_MessageID = TrimSpace (rp_TagMessageID p), ev_AppCode = TrimSpace (rp_TagApp p),
      ev_Provider = ProviderResend,
      ev_ProviderAccountCode = TrimSpace (rp_TagProviderAccount p),
      ev_ProviderChannelCode = TrimSpace (rp_TagProviderChannel p),
      ev_ProviderMessageID = TrimSpace (rp_EmailID p), ev_EventType = eventType,
      ev_RecipientEmail = firstNonEmptyString (rp_To p), ev_EventPayload = source_payload ''resend'',
      ev_OccurredAt = TrimSpace (rp_CreatedAt p)\<rparr>"

text \<open>The checks that follow in both decoders.\<close>

definition check_native_event :: "ProviderEvent \<Rightarrow> ProviderEvent result" where
  "check_native_event event =
     (if ev_AppCode event = [] \<or> ev_MessageID event = [] then
        Inl (invalid_json ''app and message_id tags are required'')
      else if \<not> isValidIdentifierFilter (ev_AppCode event) then Inl (invalid_json ''app is invalid'')
      else if \<not> isValidMessageIDValue (ev_MessageID event) then Inl (invalid_json ''message_id is invalid'')
      else and_then (validateProviderEventIdentity (Some event)) (\<lambda>event.
             and_then (validateProviderEventRecipientEmail event) (\<lambda>_. Inr event)))"

definition decodeResendWebhookEvent :: "string \<Rightarrow> ProviderEvent result" where
  "decodeResendWebhookEvent body =
     (case json_decode body of
        None \<Rightarrow> Inl (invalid_json ''request body must be a JSON object'')
      | Some (v, rest) \<Rightarrow>
          (case Option.bind (struct_members (Some v)) resend_payload of
             None \<Rightarrow> Inl (invalid_json ''request body must be a JSON object'')
           | Some payload \<Rightarrow>
               if skip_ws rest \<noteq> [] then
                 Inl (invalid_json ''request body must contain a single JSON object'')
               else case mapResendEventType (rp_Type payload) of
                      None \<Rightarrow> Inl (invalid_json ''event_type is invalid'')
                    | Some eventType \<Rightarrow> check_native_event (resend_event payload eventType)))"

definition processResendProviderEvent ::
    "resendWebhookVerifier \<Rightarrow> int \<Rightarrow> go_time \<Rightarrow> event_env \<Rightarrow> http_request \<Rightarrow> event_world
     \<Rightarrow> providerEventResponse result \<times> event_world" where
  "processResendProviderEvent hook maxBytes now env rq world =
     (if \<not> rv_enabled hook then
        (Inl (AuthError ErrorCodeWebhookDisabled ''resend webhook receiver disabled''), world)
      else
        case and_then (validateContentType (hr_Header rq ''Content-Type'')) (\<lambda>_.
             and_then (read_body maxBytes rq) (\<lambda>body.
             and_then (verify hook now (hr_Header rq) body) (\<lambda>_.
               decodeResendWebhookEvent body))) of
          Inl e \<Rightarrow> (Inl e, world)
        | Inr event \<Rightarrow> applyProviderEvent env event world)"

section \<open>Brevo\<close>

record brevoWebhookVerifier =
  bv_enabled :: bool
  bv_tokenHash :: string

definition newBrevoWebhookVerifier :: "WebhookConfig \<Rightarrow> SecretResolver \<Rightarrow> brevoWebhookVerifier result" where
  "newBrevoWebhookVerifier webhooks resolver =
     (if \<not> webhook_Enabled webhooks \<or> TrimSpace (webhook_BrevoTokenRef webhooks) = [] then
        Inr \<lparr>bv_enabled = False, bv_tokenHash = []\<rparr>
      else and_then (wrapped ''resolve brevo webhook token'' (resolver (webhook_BrevoTokenRef webhooks)))
             (\<lambda>resolved. Inr \<lparr>bv_enabled = True, bv_tokenHash = APIKeyHash (secret_Value resolved)\<rparr>))"

definition brevo_authenticate :: "brevoWebhookVerifier \<Rightarrow> string \<Rightarrow> unit result" where
  "brevo_authenticate v header =
     (if \<not> bv_enabled v then Inl (AuthError ErrorCodeWebhookDisabled ''webhook receiver disabled'')
      else case parseBearerToken header of
             None \<Rightarrow> Inl unauthorized
           | Some token \<Rightarrow>
               if \<not> ConstantTimeEqualHex (APIKeyHash token) (bv_tokenHash v) then Inl unauthorized
               else Inr ())"

text \<open>\<open>json.Unmarshal\<close> of a text into a new \<open>[]string\<close>.\<close>

definition unmarshal_strings :: "string \<Rightarrow> string list option" where
  "unmarshal_strings raw =
     (case json_unmarshal raw of
        Some JNull \<Rightarrow> Some []
      | Some (JArray vs) \<Rightarrow> string_cells vs []
      | _ \<Rightarrow> None)"

text \<open>\<open>brevoWebhookTags.UnmarshalJSON\<close>: a list, one text, or a list written as a text.\<close>

definition brevo_tags :: "string \<Rightarrow> string list option" where
  "brevo_tags data0 =
     (let data = TrimSpace data0
      in if data = ''null'' then Some []
         else case unmarshal_strings data of
                Some vs \<Rightarrow> Some vs
              | None \<Rightarrow>
                  (case unmarshal_string data of
                     None \<Rightarrow> None
                   | Some single0 \<Rightarrow>
                       let single = TrimSpace single0
                       in if single = [] then Some []
                          else case (if HasPrefix single ''['' then unmarshal_strings single else None) of
                                 Some encoded \<Rightarrow> Some encoded
                               | None \<Rightarrow> Some [single]))"

definition raw_named :: "string \<Rightarrow> json_members \<Rightarrow> string list" where
  "raw_named name ms = List.map (\<lambda>(k, t, v). t) (filter (\<lambda>(k, t, v). fold_name k = fold_name name) ms)"

definition tag_field :: "string \<Rightarrow> json_members \<Rightarrow> string list option" where
  "tag_field name ms =
     foldl (\<lambda>acc t. if acc = None then None else brevo_tags t) (Some []) (raw_named name ms)"

record brevoWebhookPayload =
  bp_Event :: string
  bp_MessageID :: string
  bp_EventTS :: int
  bp_Email :: string
  bp_Tag :: "string list"
  bp_Tags :: "string list"

text \<open>\<open>date\<close> is decoded and not used.\<close>

definition brevo_payload :: "json_members \<Rightarrow> brevoWebhookPayload option" where
  "brevo_payload ms = do {
     event \<leftarrow> string_field ''event'' ms;
     message_id \<leftarrow> string_field ''message-id'' ms;
     date \<leftarrow> string_field ''date'' ms;
     ts \<leftarrow> int_field ''ts_event'' ms;
     email \<leftarrow> string_field ''email'' ms;
     tag \<leftarrow> tag_field ''tag'' ms;
     tags \<leftarrow> strings_field ''tags'' ms;
     Some \<lparr>bp_Event = event, bp_MessageID = message_id, bp_EventTS = ts, bp_Email = email,
        bp_Tag = tag, bp_Tags = tags\<rparr>
   }"

definition combinedBrevoTags :: "brevoWebhookPayload \<Rightarrow> string list" where
  "combinedBrevoTags p = bp_Tag p @ bp_Tags p"

text \<open>\<open>strings.Cut\<close> at a colon.\<close>

definition cut_colon :: "string \<Rightarrow> (string \<times> string) option" where
  "cut_colon s =
     (if CHR '':'' \<in> set s
      then Some (takeWhile ((\<noteq>) CHR '':'') s, drop 1 (dropWhile ((\<noteq>) CHR '':'') s)) else None)"

fun parse_brevo_tags :: "string list \<Rightarrow> (string \<rightharpoonup> string) \<Rightarrow> string \<rightharpoonup> string" where
  "parse_brevo_tags [] m = m"
| "parse_brevo_tags (tag # tags) m =
     parse_brevo_tags tags
       (case cut_colon (TrimSpace tag) of
          None \<Rightarrow> m
        | Some (name0, v0) \<Rightarrow>
            let name = TrimSpace name0; v = TrimSpace v0
            in if name = [] \<or> v = [] \<or> m name \<noteq> None then m else m(name \<mapsto> v))"

definition parseBrevoMetadataTags :: "string list \<Rightarrow> string \<rightharpoonup> string" where
  "parseBrevoMetadataTags tags = parse_brevo_tags tags Map.empty"

definition mapBrevoEventType :: "string \<Rightarrow> ProviderEventType option" where
  "mapBrevoEventType v0 =
     (let v = TrimSpace v0
      in if v = ''delivered'' then Some ProviderEventDelivered
         else if v = ''hardBounce'' \<or> v = ''hard_bounce'' \<or> v = ''invalid_email'' then Some ProviderEventBounced
         else if v = ''spam'' then Some ProviderEventComplained
         else None)"

definition formatBrevoEventTimestamp :: "int \<Rightarrow> string" where
  "formatBrevoEventTimestamp v = (if v \<le> 0 then [] else format_time (v * Second))"

definition tag_value :: "(string \<rightharpoonup> string) \<Rightarrow> string \<Rightarrow> string" where
  "tag_value m name = (case m name of None \<Rightarrow> [] | Some v \<Rightarrow> v)"

definition brevo_event :: "brevoWebhookPayload \<Rightarrow> ProviderEventType \<Rightarrow> ProviderEvent" where
  "brevo_event p eventType =
     (let m = parseBrevoMetadataTags (combinedBrevoTags p)
      in \<lparr>ev_MessageID = tag_value m ''message_id'', ev_AppCode = tag_value m ''app'',
          ev_Provider = ProviderBrevo,
          ev_ProviderAccountCode = tag_value m ''provider_account'',
          ev_ProviderChannelCode = tag_value m ''provider_channel'',
          ev_ProviderMessageID = TrimSpace (bp_MessageID p), ev_EventType = eventType,
          ev_RecipientEmail = TrimSpace (bp_Email p), ev_EventPayload = source_payload ''brevo'',
          ev_OccurredAt = formatBrevoEventTimestamp (bp_EventTS p)\<rparr>)"

definition decodeBrevoWebhookEvent :: "string \<Rightarrow> ProviderEvent result" where
  "decodeBrevoWebhookEvent body =
     (case json_decode body of
        None \<Rightarrow> Inl (invalid_json ''request body must be a JSON object'')
      | Some (v, rest) \<Rightarrow>
          (case Option.bind (struct_members (Some v)) brevo_payload of
             None \<Rightarrow> Inl (invalid_json ''request body must be a JSON object'')
           | Some payload \<Rightarrow>
               if skip_ws rest \<noteq> [] then
                 Inl (invalid_json ''request body must contain a single JSON object'')
               else case mapBrevoEventType (bp_Event payload) of
                      None \<Rightarrow> Inl (invalid_json ''event is invalid'')
                    | Some eventType \<Rightarrow> check_native_event (brevo_event payload eventType)))"

definition processBrevoProviderEvent ::
    "brevoWebhookVerifier \<Rightarrow> int \<Rightarrow> event_env \<Rightarrow> http_request \<Rightarrow> event_world
     \<Rightarrow> providerEventResponse result \<times> event_world" where
  "processBrevoProviderEvent hook maxBytes env rq world =
     (if \<not> bv_enabled hook then
        (Inl (AuthError ErrorCodeWebhookDisabled ''brevo webhook receiver disabled''), world)
      else
        case and_then (brevo_authenticate hook (hr_Header rq ''Authorization'')) (\<lambda>_.
             and_then (validateContentType (hr_Header rq ''Content-Type'')) (\<lambda>_.
             and_then (read_body maxBytes rq) (\<lambda>body. decodeBrevoWebhookEvent body))) of
          Inl e \<Rightarrow> (Inl e, world)
        | Inr event \<Rightarrow> applyProviderEvent env event world)"

section \<open>The generic webhook\<close>

definition processProviderEvent ::
    "webhookAuthenticator \<Rightarrow> int \<Rightarrow> event_env \<Rightarrow> http_request \<Rightarrow> event_world
     \<Rightarrow> providerEventResponse result \<times> event_world" where
  "processProviderEvent hook maxBytes env rq world =
     (case and_then (authenticate hook (hr_Header rq ''Authorization'')) (\<lambda>_.
           and_then (validateContentType (hr_Header rq ''Content-Type'')) (\<lambda>_.
           and_then (read_body maxBytes rq) (\<lambda>body. decodeProviderEventRequest body))) of
        Inl e \<Rightarrow> (Inl e, world)
      | Inr event \<Rightarrow> applyProviderEvent env event world)"

section \<open>Who may report an event\<close>

text \<open>The request is signed with the secret, at a time near enough.\<close>

definition resend_signed :: "resendWebhookVerifier \<Rightarrow> go_time \<Rightarrow> (string \<Rightarrow> string) \<Rightarrow> string \<Rightarrow> bool" where
  "resend_signed v now header body \<longleftrightarrow>
     TrimSpace (header ''svix-id'') \<noteq> []
     \<and> (\<exists>seconds. ParseInt (TrimSpace (header ''svix-timestamp'')) = Some seconds
          \<and> \<bar>seconds * Second - now\<bar> \<le> 5 * Minute)
     \<and> (\<exists>encoded mac. encoded \<in> set (svixV1SignatureValues (TrimSpace (header ''svix-signature'')))
          \<and> StdEncoding_Decode encoded = Some mac
          \<and> bytes_of mac = hmac_sha256 (bytes_of (rv_secret v))
              (bytes_of (TrimSpace (header ''svix-id'') @ ''.'' @ TrimSpace (header ''svix-timestamp'')
                 @ ''.'' @ body)))"

text \<open>The header carries a bearer token of that hash.\<close>

definition bears :: "string \<Rightarrow> string \<Rightarrow> bool" where
  "bears tokenHash header \<longleftrightarrow>
     (\<exists>token. parseBearerToken header = Some token \<and> APIKeyHash token = tokenHash)"

lemma ParseInt_Nil: "ParseInt [] = None"
  by (simp add: ParseInt_def parse_int64_def HasPrefix_def)

lemma svix_Nil: "svixV1SignatureValues [] = []"
  by (simp add: svixV1SignatureValues_def Fields.simps)

lemma verify_iff: "verify v now header body = Inr u \<longleftrightarrow> resend_signed v now header body"
proof (cases "TrimSpace (header ''svix-id'') = [] \<or> TrimSpace (header ''svix-timestamp'') = []
    \<or> TrimSpace (header ''svix-signature'') = []")
  case True
  then show ?thesis by (auto simp: verify_def resend_signed_def Let_def ParseInt_Nil svix_Nil)
next
  case False
  show ?thesis
  proof (cases "ParseInt (TrimSpace (header ''svix-timestamp''))")
    case None
    then show ?thesis by (simp add: verify_def resend_signed_def Let_def)
  next
    case (Some seconds)
    have near: "\<not> (seconds * Second < now - resendWebhookTolerance \<or> now + resendWebhookTolerance < seconds * Second)
        \<longleftrightarrow> \<bar>seconds * Second - now\<bar> \<le> 5 * Minute"
      by (auto simp: resendWebhookTolerance_def)
    show ?thesis using False Some near
      by (auto simp: verify_def resend_signed_def Let_def list_ex_iff split: option.splits if_splits)
  qed
qed

lemma verify_error: "verify v now header body = Inl e \<Longrightarrow> e = unauthorized"
  by (auto simp: verify_def Let_def split: if_splits option.splits)

lemma native_event_checked:
  "check_native_event ev = Inr e \<Longrightarrow> Provider_IsValid (ev_Provider ev) \<Longrightarrow>
   ProviderEventType_IsValid (ev_EventType ev) \<Longrightarrow> check_event ev = Inr e"
  by (auto simp: check_native_event_def check_event_def split: if_splits)

lemma identity_provider:
  "validateProviderEventIdentity (Some ev) = Inr e \<Longrightarrow> ev_Provider e = ev_Provider ev"
  by (auto simp: validateProviderEventIdentity_def Let_def split: if_splits sum.splits)

lemma decodeResend_checked:
  assumes "decodeResendWebhookEvent body = Inr e"
  shows "\<exists>ev. check_event ev = Inr e \<and> ev_Provider e = ProviderResend"
proof -
  obtain p t where "check_native_event (resend_event p t) = Inr e" "mapResendEventType (rp_Type p) = Some t"
    using assms by (auto simp: decodeResendWebhookEvent_def split: option.splits prod.splits if_splits)
  moreover from this have "ev_Provider e = ProviderResend"
    by (auto simp: check_native_event_def resend_event_def dest: identity_provider split: if_splits)
  ultimately show ?thesis using native_event_checked [of "resend_event p t" e]
    by (auto simp: resend_event_def mapResendEventType_def split: if_splits)
qed

lemma decodeBrevo_checked:
  assumes "decodeBrevoWebhookEvent body = Inr e"
  shows "\<exists>ev. check_event ev = Inr e \<and> ev_Provider e = ProviderBrevo"
proof -
  obtain p t where "check_native_event (brevo_event p t) = Inr e" "mapBrevoEventType (bp_Event p) = Some t"
    using assms by (auto simp: decodeBrevoWebhookEvent_def split: option.splits prod.splits if_splits)
  moreover from this have "ev_Provider e = ProviderBrevo"
    by (auto simp: check_native_event_def brevo_event_def Let_def dest: identity_provider split: if_splits)
  ultimately show ?thesis using native_event_checked [of "brevo_event p t" e]
    by (auto simp: brevo_event_def mapBrevoEventType_def Let_def split: if_splits)
qed

lemma resend_route:
  "(\<exists>e. processResendProviderEvent rv m now env rq world = (Inl e, world))
      \<or> (rv_enabled rv \<and> resend_signed rv now (hr_Header rq) (take (nat (m + 1)) (hr_Body rq))
         \<and> (\<exists>ev e. check_event ev = Inr e \<and> ev_Provider e = ProviderResend
             \<and> processResendProviderEvent rv m now env rq world = applyProviderEvent env e world))"
proof (cases "rv_enabled rv")
  case True
  show ?thesis
  proof (cases "and_then (validateContentType (hr_Header rq ''Content-Type'')) (\<lambda>_.
           and_then (read_body m rq) (\<lambda>body.
           and_then (verify rv now (hr_Header rq) body) (\<lambda>_. decodeResendWebhookEvent body)))")
    case (Inl e)
    then show ?thesis using True by (auto simp: processResendProviderEvent_def)
  next
    case (Inr event)
    then obtain body where b: "read_body m rq = Inr body" "verify rv now (hr_Header rq) body = Inr ()"
        "decodeResendWebhookEvent body = Inr event"
      by auto
    from b(1) have "body = take (nat (m + 1)) (hr_Body rq)"
      by (auto simp: read_body_def Let_def split: if_splits)
    moreover have "processResendProviderEvent rv m now env rq world = applyProviderEvent env event world"
      unfolding processResendProviderEvent_def Inr using True by simp
    ultimately show ?thesis using True b(2) decodeResend_checked [OF b(3)] verify_iff by metis
  qed
qed (simp add: processResendProviderEvent_def)

lemma brevo_route:
  "(\<exists>e. processBrevoProviderEvent bv m env rq world = (Inl e, world))
      \<or> (bv_enabled bv \<and> bears (bv_tokenHash bv) (hr_Header rq ''Authorization'')
         \<and> (\<exists>ev e. check_event ev = Inr e \<and> ev_Provider e = ProviderBrevo
             \<and> processBrevoProviderEvent bv m env rq world = applyProviderEvent env e world))"
proof (cases "bv_enabled bv")
  case True
  show ?thesis
  proof (cases "and_then (brevo_authenticate bv (hr_Header rq ''Authorization'')) (\<lambda>_.
           and_then (validateContentType (hr_Header rq ''Content-Type'')) (\<lambda>_.
           and_then (read_body m rq) (\<lambda>body. decodeBrevoWebhookEvent body)))")
    case (Inl e)
    then show ?thesis using True by (auto simp: processBrevoProviderEvent_def)
  next
    case (Inr event)
    then obtain body where b: "brevo_authenticate bv (hr_Header rq ''Authorization'') = Inr ()"
        "decodeBrevoWebhookEvent body = Inr event"
      by auto
    from b(1) have "bears (bv_tokenHash bv) (hr_Header rq ''Authorization'')"
      by (auto simp: brevo_authenticate_def bears_def ConstantTimeEqualHex_eq split: if_splits option.splits)
    moreover have "processBrevoProviderEvent bv m env rq world = applyProviderEvent env event world"
      unfolding processBrevoProviderEvent_def Inr using True by simp
    ultimately show ?thesis using True decodeBrevo_checked [OF b(2)] by metis
  qed
qed (simp add: processBrevoProviderEvent_def)

lemma generic_route:
  "(\<exists>e. processProviderEvent wa m env rq world = (Inl e, world))
      \<or> (wa_enabled wa \<and> bears (wa_secretHash wa) (hr_Header rq ''Authorization'')
         \<and> (\<exists>ev e. check_event ev = Inr e
             \<and> processProviderEvent wa m env rq world = applyProviderEvent env e world))"
proof (cases "and_then (authenticate wa (hr_Header rq ''Authorization'')) (\<lambda>_.
           and_then (validateContentType (hr_Header rq ''Content-Type'')) (\<lambda>_.
           and_then (read_body m rq) (\<lambda>body. decodeProviderEventRequest body)))")
  case (Inl e)
  then show ?thesis by (auto simp: processProviderEvent_def)
next
  case (Inr event)
  then obtain body where b: "authenticate wa (hr_Header rq ''Authorization'') = Inr ()"
      "decodeProviderEventRequest body = Inr event"
    by auto
  from b(1) have "wa_enabled wa \<and> bears (wa_secretHash wa) (hr_Header rq ''Authorization'')"
    by (auto simp: authenticate_def bears_def ConstantTimeEqualHex_eq split: if_splits option.splits)
  moreover have "\<exists>ev. check_event ev = Inr event"
    using b(2) by (auto simp: decodeProviderEventRequest_def split: option.splits prod.splits if_splits)
  moreover have "processProviderEvent wa m env rq world = applyProviderEvent env event world"
    unfolding processProviderEvent_def Inr by simp
  ultimately show ?thesis by metis
qed

text \<open>
  C9. No webhook changes anything unless the request is authenticated: the generic one by the shared
  token, Brevo's by its token, Resend's by an HMAC over identifier, time stamp and body that is at most
  five minutes away from the clock; and a request so signed is never refused for it. What
  reaches the log, the suppression list and the statistics is then an event of that provider which
  passes the checks of the generic webhook. In every other case the answer is an error and the world
  is as before.
\<close>

theorem webhooks_authenticated:
  "(verify rv now (hr_Header rq) body = Inr () \<longleftrightarrow> resend_signed rv now (hr_Header rq) body)
   \<and> ((\<exists>e. processResendProviderEvent rv m now env rq world = (Inl e, world))
      \<or> (rv_enabled rv \<and> resend_signed rv now (hr_Header rq) (take (nat (m + 1)) (hr_Body rq))
         \<and> (\<exists>ev e. check_event ev = Inr e \<and> ev_Provider e = ProviderResend
             \<and> processResendProviderEvent rv m now env rq world = applyProviderEvent env e world)))
   \<and> ((\<exists>e. processBrevoProviderEvent bv m env rq world = (Inl e, world))
      \<or> (bv_enabled bv \<and> bears (bv_tokenHash bv) (hr_Header rq ''Authorization'')
         \<and> (\<exists>ev e. check_event ev = Inr e \<and> ev_Provider e = ProviderBrevo
             \<and> processBrevoProviderEvent bv m env rq world = applyProviderEvent env e world)))
   \<and> ((\<exists>e. processProviderEvent wa m env rq world = (Inl e, world))
      \<or> (wa_enabled wa \<and> bears (wa_secretHash wa) (hr_Header rq ''Authorization'')
         \<and> (\<exists>ev e. check_event ev = Inr e
             \<and> processProviderEvent wa m env rq world = applyProviderEvent env e world)))"
  by (intro conjI verify_iff resend_route brevo_route generic_route)

end
