(* ===== verification/Runtime.thy ===== *)
theory Runtime
  imports ConfigFacts NativeWebhooks Idempotency RateLimiter MessageLog
begin

text \<open>
  The start of the process: \<open>NewRuntime\<close> and \<open>newStatsSink\<close> of \<open>internal/api/runtime.go\<close> and the worker
  that \<open>runServe\<close> of \<open>cmd/muxmail/main.go\<close> builds beside it. The options of \<open>NewRuntime\<close>, which replace
  parts of it in tests, are left out, and so are the HTTP server and the close of what was opened when
  a later step fails. The theorem says that a configuration the validation accepts can be served.
\<close>

section \<open>The runtime\<close>

text \<open>What the start meets outside: the directories and the files of the logs.\<close>

record startup_env =
  su_validation :: validation_env
  su_log_directory :: "go_error option"
  su_log_open :: "log_name \<Rightarrow> open_env"
  su_stats_directory :: "go_error option"
  su_stats_open :: open_env

record Runtime =
  run_auth :: "App list"
  run_messageLog :: MessageLog
  run_stats :: StatsSink
  run_queue :: MemoryQueue
  run_idempotent :: IdempotencyCache
  run_suppressed :: SuppressionStore
  run_callerIP :: "Prefix list"
  run_webhook :: webhookAuthenticator
  run_resendHook :: resendWebhookVerifier
  run_brevoHook :: brevoWebhookVerifier
  run_rateLimit :: counters
  run_defaults :: DefaultsConfig

text \<open>\<open>ValidationErrorList.Error\<close>\<close>

definition ValidationErrorList_text :: "ValidationError list \<Rightarrow> string" where
  "ValidationErrorList_text l =
     (case l of
        [e] \<Rightarrow> ''configuration validation failed: '' @ ve_Message e
      | _ \<Rightarrow> ''configuration validation failed: '' @ decimal (length l) @ '' errors'')"

definition ValidationReport_Err :: "ValidationReport \<Rightarrow> go_error option" where
  "ValidationReport_Err r =
     (if \<not> HasErrors r then None else Some (Errorf (ValidationErrorList_text (rep_Errors r))))"

definition log_bytes :: "Config.Config \<Rightarrow> int" where
  "log_bytes cfg = int64 (int64 (logging_MaxFileSizeMB (cfg_Logging cfg) * 1024) * 1024)"

definition newStatsSink :: "startup_env \<Rightarrow> Config.Config \<Rightarrow> log_files \<Rightarrow> StatsSink result \<times> log_files" where
  "newStatsSink env cfg fs =
     (let mode = runtime_Stats (cfg_Runtime cfg)
      in if mode = ''off'' then (Inr NoopStatsSink, fs)
         else if mode = ''file'' then
           (case NewFileStatsSink (su_stats_directory env) (su_stats_open env) (logging_Dir (cfg_Logging cfg))
                   (log_bytes cfg) (logging_MaxBackups (cfg_Logging cfg)) fs of
              (Inl e, fs') \<Rightarrow> (Inl (Wrapf ''initialize stats sink'' e), fs')
            | (Inr sink, fs') \<Rightarrow> (Inr sink, fs'))
         else (Inl (Errorf (''unsupported stats mode: '' @ mode)), fs))"

text \<open>What is built after the logs are open; \<open>time.Duration(h) * time.Hour\<close> may wrap around.\<close>

definition runtime_parts ::
    "startup_env \<Rightarrow> Config.Config \<Rightarrow> App list \<Rightarrow> MessageLog \<Rightarrow> StatsSink \<Rightarrow> Runtime result" where
  "runtime_parts env cfg auth mlog sink =
     (let resolver = val_resolver (su_validation env); sup = val_suppression (su_validation env);
          d = cfg_Defaults cfg
      in and_then (wrapped ''initialize memory queue'' (NewMemoryQueue (defaults_MemoryQueueSize d))) (\<lambda>queue.
         and_then (wrapped ''initialize idempotency cache''
           (NewIdempotencyCache (defaults_IdempotencyCacheSize d)
              (int64 (defaults_IdempotencyTTLHours d * Hour)))) (\<lambda>idempotent.
         and_then (wrapped ''initialize suppression store''
           (LoadSuppressionStore (se_yaml sup) (se_read_error sup) (cfg_SuppressionFile cfg) (se_files sup)))
           (\<lambda>suppressed.
         and_then (wrapped ''initialize caller IP resolver''
           (newTrustedProxySet (server_TrustedProxies (cfg_Server cfg)))) (\<lambda>callerIP.
         and_then (wrapped ''initialize webhook authenticator''
           (newWebhookAuthenticator (cfg_Webhooks cfg) resolver)) (\<lambda>webhook.
         and_then (wrapped ''initialize resend webhook verifier''
           (newResendWebhookVerifier (cfg_Webhooks cfg) resolver)) (\<lambda>resendHook.
         and_then (wrapped ''initialize brevo webhook verifier''
           (newBrevoWebhookVerifier (cfg_Webhooks cfg) resolver)) (\<lambda>brevoHook.
           Inr \<lparr>run_auth = auth, run_messageLog = mlog, run_stats = sink, run_queue = queue,
             run_idempotent = idempotent, run_suppressed = suppressed, run_callerIP = callerIP,
             run_webhook = webhook, run_resendHook = resendHook, run_brevoHook = brevoHook,
             run_rateLimit = [], run_defaults = d\<rparr>))))))))"

definition NewRuntime ::
    "startup_env \<Rightarrow> Config.Config option \<Rightarrow> log_disk \<Rightarrow> log_files \<Rightarrow> Runtime result \<times> log_disk \<times> log_files" where
  "NewRuntime env cfg0 disk fs =
     (case ValidationReport_Err (Validate (su_validation env) cfg0) of
        Some e \<Rightarrow> (Inl e, disk, fs)
      | None \<Rightarrow>
          (let cfg = the cfg0
           in case wrapped ''initialize authenticator''
                     (NewAuthenticator (cfg_Apps cfg) (val_resolver (su_validation env))) of
                Inl e \<Rightarrow> (Inl e, disk, fs)
              | Inr auth \<Rightarrow>
                  (case NewMessageLog (su_log_directory env) (su_log_open env)
                          \<lparr>lcf_Dir = logging_Dir (cfg_Logging cfg), lcf_MaxBytes = log_bytes cfg,
                           lcf_MaxBackups = logging_MaxBackups (cfg_Logging cfg),
                           lcf_EventsEnabled = webhook_Enabled (cfg_Webhooks cfg)\<rparr> disk of
                     (Inl e, disk') \<Rightarrow> (Inl (Wrapf ''initialize message log'' e), disk', fs)
                   | (Inr mlog, disk') \<Rightarrow>
                       (case newStatsSink env cfg fs of
                          (Inl e, fs') \<Rightarrow> (Inl e, disk', fs')
                        | (Inr sink, fs') \<Rightarrow> (runtime_parts env cfg auth mlog sink, disk', fs')))))"

text \<open>The worker of \<open>runServe\<close>, with the queue, the logs and the statistics as it reaches them.\<close>

definition serve_worker ::
    "('s, go_time) state \<Rightarrow> 's worker_queue \<Rightarrow> 's worker_log \<Rightarrow> 's stats_record
     \<Rightarrow> (go_error \<Rightarrow> ('s, unit) state) \<Rightarrow> 's adapters \<Rightarrow> Config.Config option \<Rightarrow> DefaultsConfig
     \<Rightarrow> 's Worker result" where
  "serve_worker clock queue wlog stats handler ad cfg d =
     and_then (NewProviderResolverFromConfig ad cfg) (\<lambda>resolver.
       NewWorker clock
         \<lparr>wc_Queue = Some queue, wc_MessageLog = Some wlog, wc_Stats = Some stats,
          wc_ProviderResolver = Some resolver, wc_MaxAttemptsPerMessage = defaults_MaxAttemptsPerMessage d,
          wc_RetryBackoffSeconds = defaults_RetryBackoffSeconds d,
          wc_ProviderTimeout = int64 (defaults_ProviderTimeoutSeconds d * Second),
          wc_WorkerConcurrency = defaults_WorkerConcurrency d, wc_Now = None, wc_ErrorHandler = Some handler\<rparr>)"

section \<open>A validated configuration can be served\<close>

text \<open>The sizes that do not wrap around when they become bytes and nanoseconds.\<close>

definition sizes_in_range :: "Config.Config \<Rightarrow> bool" where
  "sizes_in_range cfg \<longleftrightarrow>
     logging_MaxFileSizeMB (cfg_Logging cfg) < 2 ^ 43
     \<and> defaults_IdempotencyTTLHours (cfg_Defaults cfg) \<le> 2562047
     \<and> defaults_ProviderTimeoutSeconds (cfg_Defaults cfg) \<le> 9223372036"

text \<open>The parts of the report of a validated configuration.\<close>

lemma validate_parts:
  assumes "rep_Errors (Validate env (Some cfg)) = []"
  obtains options accounts r1 channels usable r2 codes r3 where
    "rep_Errors (validateServer (cfg_Server cfg)) = []" "rep_Errors (validateRuntime (cfg_Runtime cfg)) = []"
    "rep_Errors (validateDefaults (cfg_Defaults cfg)) = []" "rep_Errors (validateLogging (cfg_Logging cfg)) = []"
    "validate_accounts (val_resolver env) options 0 (cfg_ProviderAccounts cfg) Map.empty = (accounts, r1)"
    "rep_Errors r1 = []"
    "validate_channels (val_resolver env) options accounts 0 (cfg_ProviderChannels cfg) Map.empty []
       = (channels, usable, r2)" "rep_Errors r2 = []"
    "validate_apps (val_resolver env) options (val_text env) (val_html env) channels usable 0 (cfg_Apps cfg)
       [] Map.empty = (codes, r3)" "rep_Errors r3 = []"
    "rep_Errors (validateWebhooks (val_resolver env) options (cfg_Webhooks cfg)) = []"
    "rep_Errors (validateSuppressionFile (val_suppression env) codes (cfg_SuppressionFile cfg)) = []"
proof -
  let ?o = "\<lparr>vo_StrictPlainSecrets = False\<rparr>"
  obtain accounts r1 where 1: "validateProviderAccounts (val_resolver env) ?o (cfg_ProviderAccounts cfg) = (accounts, r1)"
    by fastforce
  obtain channels usable r2 where 2: "validateProviderChannels (val_resolver env) ?o accounts
      (cfg_ProviderChannels cfg) = (channels, usable, r2)" using prod_cases3 by blast
  obtain codes r3 where 3: "validateApps (val_resolver env) ?o (val_text env) (val_html env) channels usable
      (cfg_Apps cfg) = (codes, r3)" by fastforce
  obtain r3' where 4: "validate_apps (val_resolver env) ?o (val_text env) (val_html env) channels usable 0
      (cfg_Apps cfg) [] Map.empty = (codes, r3')" "rep_Errors r3 = [] \<Longrightarrow> rep_Errors r3' = []"
    using 3 by (auto simp: validateApps_def split: prod.splits)
  show thesis
    using assms 1 2 3 4
    by (intro that [of ?o accounts r1 channels usable r2 codes r3'])
      (auto simp: Validate_def ValidateWithOptions_def validate_def validateProviderAccounts_def
        validateProviderChannels_def)
qed

lemma decodeSvixSecret_ok:
  assumes "isValidResendWebhookSecretValue v"
  shows "\<exists>s. decodeSvixSecret v = Inr s"
proof -
  have empty: "base64_chars True s = Some [] \<Longrightarrow> s = []" for s
    by (induction True s rule: base64_chars.induct)
      (auto simp: base64_two_def base64_three_def base64_four_def split: if_splits option.splits)
  let ?v = "TrimPrefix (TrimSpace v) ''whsec_''"
  show ?thesis
  proof (cases "StdEncoding_Decode ?v")
    case None
    then show ?thesis using assms
      by (cases "RawStdEncoding_Decode ?v") (auto simp: isValidResendWebhookSecretValue_def decodeSvixSecret_def Let_def
          split: if_splits)
  next
    case (Some bs)
    have "bs \<noteq> []"
    proof
      assume "bs = []"
      then have "base64_text ?v = []" using Some empty by (simp add: StdEncoding_Decode_def)
      then have "RawStdEncoding_Decode ?v = Some []" by (simp add: RawStdEncoding_Decode_def)
      then show False using assms Some \<open>bs = []\<close>
        by (simp add: isValidResendWebhookSecretValue_def Let_def split: if_splits)
    qed
    then show ?thesis using Some by (simp add: decodeSvixSecret_def Let_def)
  qed
qed

lemma bearer_resolves:
  "rep_Errors (validateBearerSecretRef resolver options path ref) = [] \<Longrightarrow> \<exists>resolved. resolver ref = Inr resolved"
  using validateBearerSecretRef_ok by metis

lemma validateWebhooks_ok:
  assumes "rep_Errors (validateWebhooks resolver options w) = []"
  shows "\<exists>a. newWebhookAuthenticator w resolver = Inr a"
    "\<exists>v. newResendWebhookVerifier w resolver = Inr v"
    "\<exists>v. newBrevoWebhookVerifier w resolver = Inr v"
proof -
  let ?parts = "webhook_Enabled w"
  have parts: "TrimSpace (webhook_SharedSecretRef w) \<noteq> [] \<Longrightarrow>
      rep_Errors (validateBearerSecretRef resolver options ''webhooks.shared_secret_ref'' (webhook_SharedSecretRef w)) = []"
    "TrimSpace (webhook_BrevoTokenRef w) \<noteq> [] \<Longrightarrow>
      rep_Errors (validateBearerSecretRef resolver options ''webhooks.brevo_token_ref'' (webhook_BrevoTokenRef w)) = []"
    if "webhook_Enabled w"
    using assms that by (auto simp: validateWebhooks_def split: if_splits)
  show "\<exists>a. newWebhookAuthenticator w resolver = Inr a"
    using parts(1) by (auto simp: newWebhookAuthenticator_def wrapped_def dest!: bearer_resolves)
  show "\<exists>v. newBrevoWebhookVerifier w resolver = Inr v"
    using parts(2) by (auto simp: newBrevoWebhookVerifier_def wrapped_def dest!: bearer_resolves)
  show "\<exists>v. newResendWebhookVerifier w resolver = Inr v"
  proof (cases "webhook_Enabled w \<and> TrimSpace (webhook_ResendSecretRef w) \<noteq> []")
    case True
    let ?r = "resolveSecretRef resolver options ''webhooks.resend_secret_ref'' (webhook_ResendSecretRef w)"
    have e: "rep_Errors (snd ?r) = []"
      "\<And>resolved. fst ?r = Some resolved \<Longrightarrow> isValidResendWebhookSecretValue (secret_Value resolved)"
      using assms True
      by (auto simp: validateWebhooks_def validateSecretRef_def split: if_splits prod.splits option.splits)
    obtain resolved where r: "resolver (webhook_ResendSecretRef w) = Inr resolved" "fst ?r = Some resolved"
      using resolveSecretRef_ok [OF e(1)] by blast
    then show ?thesis using decodeSvixSecret_ok [OF e(2) [OF r(2)]] True
      by (auto simp: newResendWebhookVerifier_def wrapped_def)
  qed (auto simp: newResendWebhookVerifier_def)
qed

lemma runtime_parts_ok:
  assumes "rep_Errors (Validate (su_validation env) (Some cfg)) = []" "sizes_in_range cfg"
  shows "\<exists>rt. runtime_parts env cfg auth mlog sink = Inr rt"
  using assms(1)
proof (rule validate_parts)
  fix options accounts r1 channels usable r2 codes r3
  assume server: "rep_Errors (validateServer (cfg_Server cfg)) = []"
    and defaults: "rep_Errors (validateDefaults (cfg_Defaults cfg)) = []"
    and hooks: "rep_Errors (validateWebhooks (val_resolver (su_validation env)) options (cfg_Webhooks cfg)) = []"
    and sup: "rep_Errors (validateSuppressionFile (val_suppression (su_validation env)) codes
      (cfg_SuppressionFile cfg)) = []"
  have d: "0 < defaults_MemoryQueueSize (cfg_Defaults cfg)" "0 < defaults_IdempotencyCacheSize (cfg_Defaults cfg)"
      "0 < defaults_IdempotencyTTLHours (cfg_Defaults cfg)"
    using defaults by (auto simp: validateDefaults_def positive_default_def)
  have ttl: "0 < int64 (defaults_IdempotencyTTLHours (cfg_Defaults cfg) * Hour)"
    using d(3) assms(2) by (subst int64_id) (auto simp: sizes_in_range_def)
  have "list_all isValidTrustedProxy (server_TrustedProxies (cfg_Server cfg))"
    using server by (auto simp: validateServer_def list_all_length)
  then obtain ps where "newTrustedProxySet (server_TrustedProxies (cfg_Server cfg)) = Inr ps"
    using newTrustedProxySet_valid by blast
  then show ?thesis
    using d ttl validateWebhooks_ok [OF hooks] validateSuppressionFile_ok [OF sup]
    by (auto simp: runtime_parts_def Let_def wrapped_def NewMemoryQueue_def NewIdempotencyCache_def)
qed

text \<open>The logs open when the system calls succeed.\<close>

lemma log_bytes_pos:
  assumes "rep_Errors (validateLogging (cfg_Logging cfg)) = []" "sizes_in_range cfg"
  shows "0 < log_bytes cfg" "1 \<le> logging_MaxBackups (cfg_Logging cfg)" "logging_Dir (cfg_Logging cfg) \<noteq> []"
proof -
  have m: "0 < logging_MaxFileSizeMB (cfg_Logging cfg)" "logging_MaxFileSizeMB (cfg_Logging cfg) < 2 ^ 43"
    using assms by (auto simp: validateLogging_def sizes_in_range_def)
  have "int64 (logging_MaxFileSizeMB (cfg_Logging cfg) * 1024) = logging_MaxFileSizeMB (cfg_Logging cfg) * 1024"
    by (rule int64_id) (use m in simp_all)
  moreover have "int64 (logging_MaxFileSizeMB (cfg_Logging cfg) * 1024 * 1024)
      = logging_MaxFileSizeMB (cfg_Logging cfg) * 1024 * 1024"
    by (rule int64_id) (use m in simp_all)
  ultimately show "0 < log_bytes cfg" using m by (simp add: log_bytes_def)
  show "1 \<le> logging_MaxBackups (cfg_Logging cfg)" "logging_Dir (cfg_Logging cfg) \<noteq> []"
    using assms by (auto simp: validateLogging_def)
qed

lemma newJSONLWriter_calm:
  "0 < maxBytes \<Longrightarrow> 1 \<le> maxBackups \<Longrightarrow> \<exists>w fs'. newJSONLWriter None calm_open maxBytes maxBackups fs = (Inr w, fs')"
  by (auto simp: newJSONLWriter_def jsonl_open_def calm_open_def Let_def)

definition logs_open :: "startup_env \<Rightarrow> bool" where
  "logs_open env \<longleftrightarrow> su_log_directory env = None \<and> su_stats_directory env = None
     \<and> su_log_open env = (\<lambda>_. calm_open) \<and> su_stats_open env = calm_open"

lemma NewMessageLog_calm:
  assumes "0 < lcf_MaxBytes c" "1 \<le> lcf_MaxBackups c" "lcf_Dir c \<noteq> []"
  shows "\<exists>l disk'. NewMessageLog None (\<lambda>_. calm_open) c disk = (Inr l, disk')"
  using newJSONLWriter_calm [OF assms(1,2)] assms(3)
  by (auto simp: NewMessageLog_def Let_def split: prod.split sum.split)
    (metis Inr_not_Inl prod.inject)+

lemma newStatsSink_result:
  assumes "rep_Errors (validateRuntime (cfg_Runtime cfg)) = []"
  shows "(\<exists>e. fst (newStatsSink env cfg fs) = Inl (Wrapf ''initialize stats sink'' e))
    \<or> (\<exists>sink. fst (newStatsSink env cfg fs) = Inr sink)"
    "logs_open env \<Longrightarrow> 0 < log_bytes cfg \<Longrightarrow> 1 \<le> logging_MaxBackups (cfg_Logging cfg) \<Longrightarrow>
     logging_Dir (cfg_Logging cfg) \<noteq> [] \<Longrightarrow> \<exists>sink. fst (newStatsSink env cfg fs) = Inr sink"
proof -
  have mode: "runtime_Stats (cfg_Runtime cfg) = ''off'' \<or> runtime_Stats (cfg_Runtime cfg) = ''file''"
    using assms by (auto simp: validateRuntime_def requireValue_def)
  then show "(\<exists>e. fst (newStatsSink env cfg fs) = Inl (Wrapf ''initialize stats sink'' e))
    \<or> (\<exists>sink. fst (newStatsSink env cfg fs) = Inr sink)"
    by (auto simp: newStatsSink_def split: prod.split sum.split)
  assume "logs_open env" "0 < log_bytes cfg" "1 \<le> logging_MaxBackups (cfg_Logging cfg)"
    "logging_Dir (cfg_Logging cfg) \<noteq> []"
  then show "\<exists>sink. fst (newStatsSink env cfg fs) = Inr sink"
    using mode newJSONLWriter_calm [of "log_bytes cfg" "logging_MaxBackups (cfg_Logging cfg)" fs]
    by (auto simp: newStatsSink_def NewFileStatsSink_def logs_open_def)
qed

lemma NewRuntime_result:
  assumes "rep_Errors (Validate (su_validation env) (Some cfg)) = []" "sizes_in_range cfg"
  shows "case NewRuntime env (Some cfg) disk fs of
      (Inr rt, _) \<Rightarrow> True
    | (Inl e, _) \<Rightarrow> \<not> logs_open env
        \<and> (\<exists>e'. e = Wrapf ''initialize message log'' e' \<or> e = Wrapf ''initialize stats sink'' e')"
  using assms(1)
proof (rule validate_parts)
  fix options accounts r1 channels usable r2 codes r3
  assume logging: "rep_Errors (validateLogging (cfg_Logging cfg)) = []"
    and runtime: "rep_Errors (validateRuntime (cfg_Runtime cfg)) = []"
    and apps: "validate_apps (val_resolver (su_validation env)) options (val_text (su_validation env))
      (val_html (su_validation env)) channels usable 0 (cfg_Apps cfg) [] Map.empty = (codes, r3)" "rep_Errors r3 = []"
  obtain auth where auth: "NewAuthenticator (cfg_Apps cfg) (val_resolver (su_validation env)) = Inr auth"
    using validate_apps_ok [OF apps, of Map.empty 0] by (auto simp: NewAuthenticator_def)
  have ok: "ValidationReport_Err (Validate (su_validation env) (Some cfg)) = None"
    using assms(1) by (simp add: ValidationReport_Err_def HasErrors_def)
  let ?c = "\<lparr>lcf_Dir = logging_Dir (cfg_Logging cfg), lcf_MaxBytes = log_bytes cfg,
     lcf_MaxBackups = logging_MaxBackups (cfg_Logging cfg), lcf_EventsEnabled = webhook_Enabled (cfg_Webhooks cfg)\<rparr>"
  note pos = log_bytes_pos [OF logging assms(2)]
  have calm: "\<exists>l disk'. NewMessageLog (su_log_directory env) (su_log_open env) ?c disk = (Inr l, disk')"
    if "logs_open env" using that NewMessageLog_calm [of ?c disk] pos by (simp add: logs_open_def)
  obtain m disk' where m: "NewMessageLog (su_log_directory env) (su_log_open env) ?c disk = (m, disk')" by fastforce
  obtain st fs' where st: "newStatsSink env cfg fs = (st, fs')" by fastforce
  show ?thesis
  proof (cases m)
    case (Inl e)
    then show ?thesis using calm ok auth m by (auto simp: NewRuntime_def wrapped_def)
  next
    case (Inr mlog)
    show ?thesis
    proof (cases st)
      case (Inl e)
      then show ?thesis using Inr ok auth m st newStatsSink_result [OF runtime, of env fs] pos
        by (auto simp: NewRuntime_def wrapped_def)
    next
      case (Inr sink)
      then show ?thesis using \<open>m = Inr mlog\<close> ok auth m st runtime_parts_ok [OF assms, of auth mlog sink]
        by (auto simp: NewRuntime_def wrapped_def)
    qed
  qed
qed

text \<open>A channel through which a message can be sent: the worker does not skip it.\<close>

definition deliverable :: "(string \<rightharpoonup> 's ProviderChannelRuntime) \<Rightarrow> string \<Rightarrow> bool" where
  "deliverable R code \<longleftrightarrow>
     (\<exists>rt. R code = Some rt \<and> hasRuntimeAttemptMetadata code (Some rt) \<and> chan_Enabled (rt_Channel rt)
        \<and> acct_Enabled (rt_Account rt) \<and> rt_Provider rt \<noteq> None)"

lemma map_of_find: "map_of (map (\<lambda>a. (k a, a)) as) code = find (\<lambda>a. k a = code) as"
  by (induction as) auto

lemma list_all2_left: "list_all2 P xs ys \<Longrightarrow> x \<in> set xs \<Longrightarrow> \<exists>y \<in> set ys. P x y"
  by (induction rule: list_all2_induct) auto

lemma resolver_deliverable:
  assumes a: "validate_accounts resolver options 0 (cfg_ProviderAccounts cfg) Map.empty = (accounts, r1)"
      "rep_Errors r1 = []"
    and c: "validate_channels resolver options accounts 0 (cfg_ProviderChannels cfg) Map.empty []
       = (channels, usable, r2)" "rep_Errors r2 = []"
  obtains R where "NewProviderResolverFromConfig ad (Some cfg) = Inr R"
    "\<And>code. code \<in> set usable \<Longrightarrow> code \<noteq> [] \<and> deliverable R code"
proof -
  note A = validate_accounts_ok [OF a] and C = validate_channels_ok [OF c]
  have A': "distinct (map pac_Code (cfg_ProviderAccounts cfg))"
      "accounts = map_of (map (\<lambda>a. (pac_Code a, a)) (cfg_ProviderAccounts cfg))"
    using A by (blast, metis empty_map_add)
  have C': "distinct (map pcc_Code (cfg_ProviderChannels cfg))"
      "set usable = pcc_Code ` {c \<in> set (cfg_ProviderChannels cfg). channel_usable accounts c}"
    using C by (blast, metis empty_set sup_bot_left)
  let ?acc = "accounts_by_code (cfg_ProviderAccounts cfg) Map.empty"
  have acc: "?acc code = Some (account_from_config b)" "pac_Code b = code"
      "identifierPattern code" "Provider_IsValid (pac_Provider b)"
    if "accounts code = Some b" for code b
  proof -
    have f: "find (\<lambda>a. pac_Code a = code) (cfg_ProviderAccounts cfg) = Some b"
      using A'(2) that by (simp add: map_of_find)
    then show "?acc code = Some (account_from_config b)"
      by (simp only: accounts_by_code_lookup [OF A'(1)] option.case)
    have b: "b \<in> set (cfg_ProviderAccounts cfg)" "pac_Code b = code"
      using f unfolding find_Some_iff by (metis nth_mem)+
    then show "pac_Code b = code" by simp
    show "identifierPattern code" "Provider_IsValid (pac_Provider b)" using b A by metis+
  qed
  have ch: "\<exists>b. accounts (pcc_Account c) = Some b \<and> SupportsTransport (pac_Provider b) (pcc_Transport c)
      \<and> (EnabledValue (pcc_Enabled c) \<longrightarrow> EnabledValue (pac_Enabled b))"
    if m: "c \<in> set (cfg_ProviderChannels cfg)" for c
  proof -
    obtain path where "rep_Errors (validate_channel resolver options accounts path False c) = []"
      using conjunct1 [OF C] m by blast
    then show ?thesis by (rule validate_channel_ok(3))
  qed
  have "\<exists>x. ?acc (pcc_Account c) = Some x \<and> SupportsTransport (acct_Provider x) (pcc_Transport c)"
    if m: "c \<in> set (cfg_ProviderChannels cfg)" for c
  proof -
    obtain b where b: "accounts (pcc_Account c) = Some b" "SupportsTransport (pac_Provider b) (pcc_Transport c)"
      using ch [OF m] by meson
    have "acct_Provider (account_from_config b) = pac_Provider b" by (simp add: account_from_config_def)
    then show ?thesis using acc(1) [OF b(1)] b(2) by metis
  qed
  then obtain rts where rts: "channel_runtimes ad ?acc (cfg_ProviderChannels cfg) = Inr rts"
      "list_all2 (\<lambda>c rt. rt_Channel rt = channel_from_config c \<and> ?acc (pcc_Account c) = Some (rt_Account rt)
         \<and> rt_Provider rt \<noteq> None) (cfg_ProviderChannels cfg) rts"
    using channel_runtimes_ok by blast
  have codes: "map (chan_Code \<circ> rt_Channel) rts = map pcc_Code (cfg_ProviderChannels cfg)"
    using rts(2) by (induction rule: list_all2_induct) (auto simp: channel_from_config_def)
  have "code \<noteq> [] \<and> deliverable (NewStaticProviderResolver rts) code" if u: "code \<in> set usable" for code
  proof -
    obtain c where c: "c \<in> set (cfg_ProviderChannels cfg)" "code = pcc_Code c" "channel_usable accounts c"
      using C'(2) u by blast
    obtain b where b: "accounts (pcc_Account c) = Some b" "SupportsTransport (pac_Provider b) (pcc_Transport c)"
        "EnabledValue (pcc_Enabled c)" "EnabledValue (pac_Enabled b)"
      using ch [OF c(1)] c(3) by (auto simp: channel_usable_def)
    obtain rt where rt: "rt \<in> set rts" "rt_Channel rt = channel_from_config c"
        "?acc (pcc_Account c) = Some (rt_Account rt)" "rt_Provider rt \<noteq> None"
      using list_all2_left [OF rts(2) c(1)] by blast
    have acct: "rt_Account rt = account_from_config b" using rt(3) acc(1) [OF b(1)] by simp
    have code: "chan_Code (rt_Channel rt) = code" using rt(2) c(2) by (simp add: channel_from_config_def)
    have look: "NewStaticProviderResolver rts code = Some rt"
      using static_resolver_lookup [of rts rt] rt(1) codes C'(1) code by simp
    have "identifierPattern code" using conjunct1 [OF C] c(1,2) by simp
    then have names: "code \<noteq> []" "pac_Code b \<noteq> []"
      using acc(2,3) [OF b(1)] by (auto simp: identifierPattern_def)
    have "deliverable (NewStaticProviderResolver rts) code"
      unfolding deliverable_def
      by (intro exI [of _ rt])
        (use look names acct code rt b acc(2,4) [OF b(1)] SupportsTransport_valid [OF b(2)] in
          \<open>simp add: hasRuntimeAttemptMetadata_def channel_from_config_def account_from_config_def\<close>)
    then show ?thesis using names by simp
  qed
  then show thesis using rts(1) that by (simp add: NewProviderResolverFromConfig_def)
qed

text \<open>A scene finds a template for every locale and a usable channel for every recipient.\<close>

lemma scene_ok_template:
  assumes "scene_ok channels usable app scene"
  shows "\<exists>t l. resolveTemplate (DomainAppFromConfig app keys) (scene_from_config scene) loc = Inr (t, l)"
proof -
  let ?app = "DomainAppFromConfig app keys" and ?scene = "scene_from_config scene"
  obtain t where "t \<in> set (ac_Templates app)" "tc_Code t = sc_Template scene" "tc_Locale t = ac_DefaultLocale app"
      "EnabledValue (tc_Enabled t)"
    using assms unfolding scene_ok_def by meson
  then have "findEnabledTemplate (app_Templates ?app) (scene_Template ?scene) (app_DefaultLocale ?app) \<noteq> None"
    unfolding findEnabledTemplate_None
    by (auto simp: DomainAppFromConfig_def scene_from_config_def template_from_config_def)
  then show ?thesis by (auto simp: resolveTemplate_def Let_def split: option.split)
qed

lemma scene_ok_route:
  assumes "scene_ok channels usable app scene" "RecipientDomain to = Some rd" "0 < n"
    and "\<And>code. code \<in> set usable \<Longrightarrow> code \<noteq> []"
  shows "\<exists>sel. SelectRoute (scene_from_config scene) to n = Inr sel \<and> Channels sel \<noteq> []
    \<and> set (Channels sel) \<subseteq> set usable"
proof -
  have p: "map_of (sc_RoutePolicy scene) RoutePolicyWildcard \<noteq> None"
    "\<And>k codes. map_of (sc_RoutePolicy scene) k = Some codes \<Longrightarrow> codes \<noteq> [] \<and> set codes \<subseteq> set usable"
    using assms(1) by (auto simp: scene_ok_def policy_ok_def dest!: map_of_SomeD)
  have c: "uniqueAndTruncateChannels codes n \<noteq> [] \<and> set (uniqueAndTruncateChannels codes n) \<subseteq> set usable"
    if cs: "codes \<noteq> []" "set codes \<subseteq> set usable" for codes
  proof -
    have "filter (\<lambda>ch. ch \<noteq> []) codes = codes" using cs assms(4) by (auto simp: filter_id_conv)
    then show ?thesis using cs assms(3) by (auto simp: uniqueAndTruncateChannels_spec dest!: in_set_takeD)
  qed
  have policy: "scene_RoutePolicy (scene_from_config scene) = map_of (sc_RoutePolicy scene)"
    by (simp add: scene_from_config_def DomainRoutePolicy_def)
  obtain codes where codes: "(case map_of (sc_RoutePolicy scene) rd of Some channels \<Rightarrow> Some channels
      | None \<Rightarrow> map_of (sc_RoutePolicy scene) RoutePolicyWildcard) = Some codes"
    using p(1) by (cases "map_of (sc_RoutePolicy scene) rd") auto
  then have "codes \<noteq> []" "set codes \<subseteq> set usable" using p(2) by (auto split: option.splits)
  then show ?thesis using c [of codes] codes assms(2)
    by (cases "map_of (sc_RoutePolicy scene) rd") (simp_all add: SelectRoute_def policy Let_def)
qed

lemma serve_worker_ok:
  assumes "NewProviderResolverFromConfig ad cfg = Inr R" "0 < defaults_MaxAttemptsPerMessage d"
    "0 < defaults_ProviderTimeoutSeconds d" "defaults_ProviderTimeoutSeconds d \<le> 9223372036"
  shows "\<exists>w. serve_worker clock queue wlog stats handler ad cfg d = Inr w
    \<and> w_resolver w = R \<and> 0 < w_maxAttempts w \<and> 0 < w_providerTimeout w"
proof -
  have "int64 (defaults_ProviderTimeoutSeconds d * Second) = defaults_ProviderTimeoutSeconds d * Second"
    by (rule int64_id) (use assms in simp_all)
  then show ?thesis using assms by (simp add: serve_worker_def NewWorker_def)
qed

text \<open>
  Outside \<open>sizes_in_range\<close> a configuration may pass the validation and not be served as it says: a
  lifetime of 2562048 hours is negative in nanoseconds, one of 5124096 hours is under half an hour.
\<close>

lemma ttl_overflow:
  "int64 (2562048 * Hour) < 0" "NewIdempotencyCache 10 (int64 (2562048 * Hour)) \<noteq> Inr c"
  "0 < int64 (5124096 * Hour)" "int64 (5124096 * Hour) < 30 * Minute"
  by code_simp+

section \<open>Properties\<close>

text \<open>
  C8. A configuration that \<open>Validate\<close> reports no error for can be served. The provider resolver and
  the worker are built. \<open>NewRuntime\<close> fails only when a log cannot be opened, never if the files open.
  Every scene has a template for every locale a request may name and a route for every recipient, and
  every channel of the route resolves to an enabled channel of an enabled account with an adapter.
\<close>

theorem validated_config_serves:
  assumes "rep_Errors (Validate (su_validation env) (Some cfg)) = []" "sizes_in_range cfg"
  shows "(\<exists>R w. NewProviderResolverFromConfig ad (Some cfg) = Inr R
       \<and> serve_worker clock queue wlog stats handler ad (Some cfg) (cfg_Defaults cfg) = Inr w \<and> w_resolver w = R
       \<and> (\<forall>app \<in> set (cfg_Apps cfg). \<forall>scene \<in> set (ac_Scenes app). \<forall>keys loc to rd.
            (\<exists>t l. resolveTemplate (DomainAppFromConfig app keys) (scene_from_config scene) loc = Inr (t, l))
            \<and> (RecipientDomain to = Some rd \<longrightarrow>
                 (\<exists>sel. SelectRoute (scene_from_config scene) to (w_maxAttempts w) = Inr sel \<and> Channels sel \<noteq> []
                    \<and> (\<forall>code \<in> set (Channels sel). deliverable R code)))))
    \<and> (case NewRuntime env (Some cfg) disk fs of
         (Inr rt, _) \<Rightarrow> True
       | (Inl e, _) \<Rightarrow> \<not> logs_open env
           \<and> (\<exists>e'. e = Wrapf ''initialize message log'' e' \<or> e = Wrapf ''initialize stats sink'' e'))"
proof -
  obtain options accounts r1 channels usable r2 codes r3 where p:
    "rep_Errors (validateDefaults (cfg_Defaults cfg)) = []"
    "validate_accounts (val_resolver (su_validation env)) options 0 (cfg_ProviderAccounts cfg) Map.empty
       = (accounts, r1)" "rep_Errors r1 = []"
    "validate_channels (val_resolver (su_validation env)) options accounts 0 (cfg_ProviderChannels cfg) Map.empty []
       = (channels, usable, r2)" "rep_Errors r2 = []"
    "validate_apps (val_resolver (su_validation env)) options (val_text (su_validation env))
       (val_html (su_validation env)) channels usable 0 (cfg_Apps cfg) [] Map.empty = (codes, r3)"
    "rep_Errors r3 = []"
    by (rule validate_parts [OF assms(1)])
  obtain R where R: "NewProviderResolverFromConfig ad (Some cfg) = Inr R"
    "\<And>code. code \<in> set usable \<Longrightarrow> code \<noteq> [] \<and> deliverable R code"
    by (rule resolver_deliverable [OF p(2-5)]) blast
  obtain w where w: "serve_worker clock queue wlog stats handler ad (Some cfg) (cfg_Defaults cfg) = Inr w"
      "w_resolver w = R" "0 < w_maxAttempts w"
  proof -
    have "0 < defaults_MaxAttemptsPerMessage (cfg_Defaults cfg)"
      "0 < defaults_ProviderTimeoutSeconds (cfg_Defaults cfg)"
      "defaults_ProviderTimeoutSeconds (cfg_Defaults cfg) \<le> 9223372036"
      using p(1) assms(2) by (auto simp: validateDefaults_def positive_default_def sizes_in_range_def)
    from serve_worker_ok [OF R(1) this, of clock queue wlog stats handler] show thesis using that by blast
  qed
  have scenes: "scene_ok channels usable app scene"
    if "app \<in> set (cfg_Apps cfg)" "scene \<in> set (ac_Scenes app)" for app scene
    using conjunct2 [OF validate_apps_ok [OF p(6,7), of Map.empty]] that by simp
  have "\<exists>sel. SelectRoute (scene_from_config scene) to (w_maxAttempts w) = Inr sel \<and> Channels sel \<noteq> []
      \<and> (\<forall>code \<in> set (Channels sel). deliverable R code)"
    if "app \<in> set (cfg_Apps cfg)" "scene \<in> set (ac_Scenes app)" "RecipientDomain to = Some rd" for app scene to rd
    using scene_ok_route [OF scenes [OF that(1,2)] that(3) w(3)] R(2) by blast
  then show ?thesis
    using R(1) w(1,2) scenes scene_ok_template NewRuntime_result [OF assms, of disk fs] by blast
qed

text \<open>A small configuration: one mock account and channel, one application with a key, a template and a scene.\<close>

definition sample_app :: AppConfig where
  "sample_app = \<lparr>ac_Code = ''shop'', ac_Name = ''Shop'', ac_Enabled = None, ac_DefaultLocale = ''en-US'',
     ac_AllowedLocales = [''en-US'', ''de-DE''],
     ac_APIKeys = [\<lparr>akc_Name = ''main'', akc_Enabled = None, akc_KeyRef = ''env:KEY''\<rparr>],
     ac_Templates = [\<lparr>tc_Code = ''code'', tc_Locale = ''en-US'', tc_Enabled = None, tc_Subject = ''Code'',
       tc_RequiredVars = [''code''], tc_HTMLBody = [], tc_TextBody = ''code''\<rparr>],
     ac_Scenes = [\<lparr>sc_Code = ''login'', sc_Name = ''Login'', sc_Enabled = None, sc_Template = ''code'',
       sc_RateLimit = \<lparr>rlc_SameEmailPerMinute = 1, rlc_SameEmailPerDay = 10, rlc_SameUserIPPerHour = 20,
         rlc_SameCallerIPPerHour = 100\<rparr>,
       sc_RoutePolicy = [(''*'', [''main'']), (''x.co'', [''main''])]\<rparr>]\<rparr>"

definition sample_config :: Config.Config where
  "sample_config = applyDefaults \<lparr>cfg_SourcePath = [], cfg_BaseDir = [], cfg_SuppressionFile = [],
     cfg_Server = \<lparr>server_Listen = [], server_ReadTimeoutSeconds = 0, server_ReadHeaderTimeoutSeconds = 0,
       server_WriteTimeoutSeconds = 0, server_IdleTimeoutSeconds = 0, server_TrustedProxies = []\<rparr>,
     cfg_Runtime = \<lparr>runtime_ConfigStore = [], runtime_Queue = [], runtime_RateLimiter = [],
       runtime_MessageLog = [], runtime_Stats = [], runtime_Suppression = []\<rparr>,
     cfg_Defaults = \<lparr>defaults_ProviderTimeoutSeconds = 0, defaults_MaxAttemptsPerMessage = 0,
       defaults_RetryBackoffSeconds = [], defaults_MemoryQueueSize = 0, defaults_WorkerConcurrency = 0,
       defaults_IdempotencyCacheSize = 0, defaults_IdempotencyTTLHours = 0, defaults_MaxRequestBodyBytes = 0,
       defaults_MaxTemplateVarBytes = 0, defaults_MaxContextBytes = 0\<rparr>,
     cfg_Apps = [sample_app],
     cfg_ProviderAccounts = [\<lparr>pac_Code = ''mock'', pac_Provider = ProviderMock, pac_Enabled = None,
       pac_Credentials = []\<rparr>],
     cfg_ProviderChannels = [\<lparr>pcc_Code = ''main'', pcc_Account = ''mock'', pcc_Transport = TransportAPI,
       pcc_Enabled = None, pcc_SenderDomain = ''x.co'', pcc_FromName = ''Shop'', pcc_From = ''no@x.co'',
       pcc_SMTP = None\<rparr>],
     cfg_Webhooks = \<lparr>webhook_Enabled = False, webhook_SharedSecretRef = [], webhook_ResendSecretRef = [],
       webhook_BrevoTokenRef = []\<rparr>,
     cfg_Logging = \<lparr>logging_Dir = [], logging_MaxFileSizeMB = 0, logging_MaxBackups = 0\<rparr>\<rparr>"

definition sample_env :: startup_env where
  "sample_env =
     \<lparr>su_validation = \<lparr>
        val_resolver = (\<lambda>ref. if ref = ''env:KEY''
          then Inr \<lparr>secret_Value = ''0123456789abcdefghijklmn'', secret_Warnings = []\<rparr>
          else Inl (Errorf ''unknown'')),
        val_options = \<lparr>vo_StrictPlainSecrets = False\<rparr>,
        val_text = (\<lambda>name source. Inr (\<lambda>vars. Inr source)),
        val_html = (\<lambda>name source. Inr (\<lambda>vars. Inr source)),
        val_suppression = \<lparr>se_files = Map.empty, se_read_error = None, se_yaml = (\<lambda>_. (End_of_file, End_of_file))\<rparr>\<rparr>,
      su_log_directory = None, su_log_open = (\<lambda>_. calm_open), su_stats_directory = None,
      su_stats_open = calm_open\<rparr>"

lemma sample_config_parts:
  "rep_Errors (validateServer (cfg_Server sample_config)) = []"
  "rep_Errors (validateRuntime (cfg_Runtime sample_config)) = []"
  "rep_Errors (validateDefaults (cfg_Defaults sample_config)) = []"
  "rep_Errors (validateLogging (cfg_Logging sample_config)) = []"
  "sizes_in_range sample_config"
  by code_simp+

lemma sample_config_names: "identifierPattern ''shop''" "identifierPattern ''main''" "identifierPattern ''code''"
  "identifierPattern ''login''" "identifierPattern ''mock''" "isValidLocale ''en-US''" "isValidLocale ''de-DE''"
  "isValidRouteDomain ''x.co''" "IsValidAPIKeyValue ''0123456789abcdefghijklmn''" "IsTemplateVarName ''code''"
  "IsSafeEmailHeaderValue ''Code''" "IsSafeEmailDisplayName ''Shop''" "AddrSpecEmailDomain ''no@x.co'' = Some ''x.co''"
  "EqualFold ''x.co'' ''x.co''" "TrimSpace ''env:KEY'' = ''env:KEY''"
  by code_simp+

lemma sample_config_fields:
  "cfg_Apps sample_config = [sample_app]" "cfg_Webhooks sample_config = \<lparr>webhook_Enabled = False,
     webhook_SharedSecretRef = [], webhook_ResendSecretRef = [], webhook_BrevoTokenRef = []\<rparr>"
  "cfg_ProviderAccounts sample_config = [\<lparr>pac_Code = ''mock'', pac_Provider = ProviderMock, pac_Enabled = None,
       pac_Credentials = []\<rparr>]"
  "cfg_ProviderChannels sample_config = [\<lparr>pcc_Code = ''main'', pcc_Account = ''mock'',
       pcc_Transport = TransportAPI, pcc_Enabled = None, pcc_SenderDomain = ''x.co'', pcc_FromName = ''Shop'',
       pcc_From = ''no@x.co'', pcc_SMTP = None\<rparr>]"
  by (simp_all add: sample_config_def applyDefaults_def)

lemmas validators = validateIdentifier_def validateAppLocales_def
  validateAPIKeys_def resolveSecretRef_def validateTemplates_def validateScenes_def validate_template_def
  validateTextTemplate_def parse_error_def validateRateLimit_def validateRoutePolicy_def

lemma sample_config_apps:
  assumes "resolver ''env:KEY'' = Inr \<lparr>secret_Value = ''0123456789abcdefghijklmn'', secret_Warnings = []\<rparr>"
    "te = (\<lambda>name source. Inr (\<lambda>vars. Inr source))" "channels ''main'' = Some ch" "pcc_Enabled ch = None"
  shows "rep_Errors (snd (validate_apps resolver options te he channels [''main''] i [sample_app] [] Map.empty)) = []"
  by (simp add: sample_app_def validators sample_config_names Let_def EnabledValue_def assms RoutePolicyWildcard_def)

lemma sample_config_valid: "rep_Errors (Validate (su_validation sample_env) (Some sample_config)) = []"
  by (simp add: Validate_def ValidateWithOptions_def sample_config_parts sample_config_fields sample_config_names Let_def
     validate_def validateProviderAccounts_def validateProviderChannels_def validateIdentifier_def
     validate_channel_def validateFromDomain_def validateSMTP_def validateApps_def validateSuppressionFile_def
     SupportsTransport_def EnabledValue_def providerAPIKeyUsesHTTPHeader_def validateWebhooks_def
     case_prod_beta sample_config_apps sample_env_def del: validate_apps.simps)

definition sample_adapters :: "nat adapters" where
  "sample_adapters = \<lparr>ad_mock = sample_send, ad_smtp = sample_send, ad_resend = sample_send,
     ad_brevo = sample_send\<rparr>"

lemma validated_config_serves_witness:
  "(\<exists>R w. NewProviderResolverFromConfig sample_adapters (Some sample_config) = Inr R
       \<and> serve_worker (State_Monad.return 0) (w_queue sample_worker) (w_messageLog sample_worker)
           (w_stats sample_worker) (\<lambda>_. State_Monad.return ()) sample_adapters (Some sample_config)
           (cfg_Defaults sample_config) = Inr w
       \<and> (\<exists>sel. SelectRoute (scene_from_config (hd (ac_Scenes sample_app))) ''bob@x.co'' (w_maxAttempts w) = Inr sel
            \<and> Channels sel \<noteq> [] \<and> (\<forall>code \<in> set (Channels sel). deliverable R code)))
   \<and> (\<exists>rt rest. NewRuntime sample_env (Some sample_config) (\<lambda>_. Map.empty) Map.empty = (Inr rt, rest))"
proof -
  have opens: "logs_open sample_env" by (simp add: logs_open_def sample_env_def)
  have scene: "hd (ac_Scenes sample_app) \<in> set (ac_Scenes sample_app)" "sample_app \<in> set (cfg_Apps sample_config)"
    by (simp_all add: sample_app_def sample_config_fields)
  have to: "RecipientDomain ''bob@x.co'' = Some ''x.co''" by code_simp
  note serves = validated_config_serves [OF sample_config_valid sample_config_parts(5), of sample_adapters "State_Monad.return 0"
    "w_queue sample_worker" "w_messageLog sample_worker" "w_stats sample_worker" "\<lambda>_. State_Monad.return ()"
    "\<lambda>_. Map.empty" Map.empty]
  have "\<exists>rt rest. NewRuntime sample_env (Some sample_config) (\<lambda>_. Map.empty) Map.empty = (Inr rt, rest)"
    using conjunct2 [OF serves] opens by (auto split: prod.splits sum.splits)
  then show ?thesis using conjunct1 [OF serves] scene to by blast
qed

end
