(* ===== verification/Fingerprint.thy ===== *)
theory Fingerprint
  imports Request Sha256 Complex_Main
begin

text \<open>
  Identifiers and the request fingerprint of \<open>internal/domain/helpers.go\<close>: \<open>newPrefixedID\<close>, the
  canonical form of a JSON number (\<open>canonicalJSONNumber\<close> with its helpers), the canonical request and
  its hash. \<open>big.Int\<close> is \<^typ>\<open>int\<close>.
\<close>

section \<open>Identifiers\<close>

definition requestIDPrefix :: string where "requestIDPrefix = ''req_''"
definition messageIDPrefix :: string where "messageIDPrefix = ''msg_''"
definition idBodyLength :: nat where "idBodyLength = 26"
definition crockfordBase32Alphabet :: string where
  "crockfordBase32Alphabet = ''0123456789ABCDEFGHJKMNPQRSTVWXYZ''"

text \<open>Each call of \<open>rand.Int\<close> below 32 gives an index or an error; \<open>draws i\<close> is the i-th.\<close>

fun id_body :: "(nat \<Rightarrow> nat result) \<Rightarrow> nat \<Rightarrow> nat \<Rightarrow> string result" where
  "id_body draws i 0 = Inr []"
| "id_body draws i (Suc n) =
     (case draws i of
        Inl e \<Rightarrow> Inl (Wrapf ''generate id'' e)
      | Inr index \<Rightarrow>
          and_then (id_body draws (Suc i) n) (\<lambda>rest. Inr (crockfordBase32Alphabet ! index # rest)))"

definition newPrefixedID :: "(nat \<Rightarrow> nat result) \<Rightarrow> string \<Rightarrow> string result" where
  "newPrefixedID draws prfx = and_then (id_body draws 0 idBodyLength) (\<lambda>body. Inr (prfx @ body))"

definition NewRequestID :: "(nat \<Rightarrow> nat result) \<Rightarrow> string result" where
  "NewRequestID draws = newPrefixedID draws requestIDPrefix"

definition NewMessageID :: "(nat \<Rightarrow> nat result) \<Rightarrow> string result" where
  "NewMessageID draws = newPrefixedID draws messageIDPrefix"

section \<open>Numbers\<close>

abbreviation isDecimalDigit :: "char \<Rightarrow> bool" where "isDecimalDigit \<equiv> is_digit"

text \<open>
  The scan of \<open>canonicalJSONNumber\<close>: the sign, the digits before and after the point and the exponent,
  or \<open>None\<close> for the error.
\<close>

definition number_sign :: "string \<Rightarrow> bool \<times> string" where
  "number_sign s = (case s of c # t \<Rightarrow> if c = CHR ''-'' then (True, t) else (False, s) | [] \<Rightarrow> (False, s))"

definition number_integer :: "string \<Rightarrow> (string \<times> string) option" where
  "number_integer s =
     (case s of
        [] \<Rightarrow> None
      | c # t \<Rightarrow>
          if c = CHR ''0'' then (if t \<noteq> [] \<and> isDecimalDigit (hd t) then None else Some ([c], t))
          else if isDecimalDigit c then Some (takeWhile isDecimalDigit s, dropWhile isDecimalDigit s)
          else None)"

definition number_fraction :: "string \<Rightarrow> (string \<times> string) option" where
  "number_fraction s =
     (case s of
        [] \<Rightarrow> Some ([], s)
      | c # t \<Rightarrow>
          if c \<noteq> CHR ''.'' then Some ([], s)
          else if takeWhile isDecimalDigit t = [] then None
          else Some (takeWhile isDecimalDigit t, dropWhile isDecimalDigit t))"

definition number_exponent :: "string \<Rightarrow> (int \<times> string) option" where
  "number_exponent s =
     (case s of
        [] \<Rightarrow> Some (0, s)
      | c # t \<Rightarrow>
          if c \<noteq> CHR ''e'' \<and> c \<noteq> CHR ''E'' then Some (0, s)
          else let neg = (t \<noteq> [] \<and> hd t = CHR ''-'');
                   u = (if t \<noteq> [] \<and> (hd t = CHR ''+'' \<or> hd t = CHR ''-'') then tl t else t);
                   ds = takeWhile isDecimalDigit u
               in if ds = [] then None
                  else Some (if neg then - int (digits_value ds) else int (digits_value ds),
                             dropWhile isDecimalDigit u))"

definition number_parts :: "string \<Rightarrow> (bool \<times> string \<times> string \<times> int) option" where
  "number_parts s0 =
     (case number_sign s0 of (negative, s1) \<Rightarrow>
        (case number_integer s1 of
           None \<Rightarrow> None
         | Some (integerPart, s2) \<Rightarrow>
             (case number_fraction s2 of
                None \<Rightarrow> None
              | Some (fractionPart, s3) \<Rightarrow>
                  (case number_exponent s3 of
                     None \<Rightarrow> None
                   | Some (expo, s4) \<Rightarrow>
                       if s4 \<noteq> [] then None else Some (negative, integerPart, fractionPart, expo)))))"

text \<open>The loops that move trailing zeros of the digits into the exponent.\<close>

function strip_fraction_zeros :: "string \<Rightarrow> int \<Rightarrow> string \<times> int" where
  "strip_fraction_zeros digits expo =
     (if expo < 0 \<and> HasSuffix digits ''0'' then strip_fraction_zeros (butlast digits) (expo + 1)
      else (digits, expo))"
  by pat_completeness auto
termination
  by (relation "measure (\<lambda>(digits, _). length digits)") (auto simp: HasSuffix_def)

function canonicalScientificParts :: "string \<Rightarrow> int \<Rightarrow> string \<times> int" where
  "canonicalScientificParts digits expo =
     (if HasSuffix digits ''0'' then canonicalScientificParts (butlast digits) (expo + 1)
      else (digits, expo))"
  by pat_completeness auto
termination
  by (relation "measure (\<lambda>(digits, _). length digits)") (auto simp: HasSuffix_def)

declare strip_fraction_zeros.simps [simp del] canonicalScientificParts.simps [simp del]

definition canonicalScientificNumber :: "string \<Rightarrow> int \<Rightarrow> string" where
  "canonicalScientificNumber digits0 expo0 =
     (case canonicalScientificParts digits0 expo0 of
        (digits, expo) \<Rightarrow> if expo = 0 then digits else digits @ ''e'' @ Itoa expo)"

definition boundedBigIntToInt :: "int \<Rightarrow> int \<Rightarrow> int option" where
  "boundedBigIntToInt v maxv =
     (if v < 0 \<or> 2 ^ 63 \<le> v then None else if maxv < v then None else Some v)"

text \<open>What is written after the sign.\<close>

definition number_body :: "string \<Rightarrow> int \<Rightarrow> string" where
  "number_body digits expo =
     (if 0 < expo then
        (case boundedBigIntToInt (snd (canonicalScientificParts digits expo)) defaultMaxTemplateVarBytes of
           None \<Rightarrow> canonicalScientificNumber digits expo
         | Some _ \<Rightarrow>
             (case boundedBigIntToInt expo defaultMaxTemplateVarBytes of
                None \<Rightarrow> canonicalScientificNumber digits expo
              | Some padding \<Rightarrow> digits @ replicate (nat padding) CHR ''0''))
      else if expo = 0 then digits
      else case boundedBigIntToInt (- expo) (defaultMaxTemplateVarBytes + int (length digits)) of
             None \<Rightarrow> canonicalScientificNumber digits expo
           | Some places \<Rightarrow>
               if places < int (length digits) then
                 let split = length digits - nat places
                 in take split digits @ ''.'' @ drop split digits
               else let padding = places - int (length digits)
                    in if defaultMaxTemplateVarBytes < padding then canonicalScientificNumber digits expo
                       else ''0.'' @ replicate (nat padding) CHR ''0'' @ digits)"

definition canonicalJSONNumber :: "string \<Rightarrow> string result" where
  "canonicalJSONNumber source =
     (case number_parts source of
        None \<Rightarrow> Inl (Errorf ''invalid JSON number'')
      | Some (negative, integerPart, fractionPart, parsed) \<Rightarrow>
          let digits = dropWhile ((=) CHR ''0'') (integerPart @ fractionPart)
          in if digits = [] then Inr ''0''
             else case strip_fraction_zeros digits (parsed - int (length fractionPart)) of
                    (digits, expo) \<Rightarrow> Inr ((if negative then ''-'' else []) @ number_body digits expo))"

section \<open>The canonical request\<close>

fun writeCanonicalValue :: "json \<Rightarrow> string result" where
  "writeCanonicalValue (JString s) = Inr (json_quote s)"
| "writeCanonicalValue (JBool b) = Inr (if b then ''true'' else ''false'')"
| "writeCanonicalValue (JNumber t) = canonicalJSONNumber t"
| "writeCanonicalValue _ = Inl (Errorf ''unsupported value type'')"

text \<open>The members in the order of the keys; the first value that cannot be written ends the loop.\<close>

fun canonical_members :: "vars_map \<Rightarrow> string list \<Rightarrow> (string \<times> string) list result" where
  "canonical_members vars [] = Inr []"
| "canonical_members vars (k # ks) =
     (case writeCanonicalValue (the (map_of vars k)) of
        Inl e \<Rightarrow> Inl (Wrapf (''canonical var '' @ k) e)
      | Inr t \<Rightarrow> and_then (canonical_members vars ks) (\<lambda>ms. Inr ((k, t) # ms)))"

definition writeCanonicalVars :: "vars_map \<Rightarrow> string result" where
  "writeCanonicalVars vars =
     and_then (canonical_members vars (sort (keys_of vars))) (\<lambda>ms. Inr (object_text ms))"

definition canonicalRequestJSON :: "string \<Rightarrow> string \<Rightarrow> vars_map \<Rightarrow> string result" where
  "canonicalRequestJSON normalizedToEmail locale vars =
     and_then (writeCanonicalVars vars) (\<lambda>v.
       Inr (''{'' @ [quote_char] @ ''locale'' @ [quote_char] @ '':'' @ json_quote locale
            @ '','' @ [quote_char] @ ''to'' @ [quote_char] @ '':'' @ json_quote normalizedToEmail
            @ '','' @ [quote_char] @ ''vars'' @ [quote_char] @ '':'' @ v @ ''}''))"

definition RequestFingerprint :: "string \<Rightarrow> string \<Rightarrow> vars_map \<Rightarrow> string result" where
  "RequestFingerprint normalizedToEmail locale vars =
     and_then (canonicalRequestJSON normalizedToEmail locale vars) (\<lambda>canonical. Inr (sha256Hex canonical))"


section \<open>Facts on digits\<close>

lemma digits_value_append: "digits_value (xs @ ys) = digits_value xs * 10 ^ length ys + digits_value ys"
proof (induction ys rule: rev_induct)
  case Nil
  then show ?case by (simp add: digits_value_def)
next
  case (snoc y ys)
  have "digits_value (xs @ ys @ [y]) = digits_value (xs @ ys) * 10 + (byte y - 48)"
    using digits_value_snoc [of "xs @ ys" y] by simp
  then show ?case using snoc by (simp add: algebra_simps)
qed

lemma digits_value_zeros [simp]: "digits_value (replicate k CHR ''0'') = 0"
proof (induction k)
  case (Suc k)
  have "replicate (Suc k) CHR ''0'' = replicate k CHR ''0'' @ [CHR ''0'']" by (simp add: replicate_append_same)
  then show ?case using Suc by (simp del: replicate_Suc)
qed (simp add: digits_value_def)

lemma digits_value_Nil [simp]: "digits_value [] = 0"
  by (simp add: digits_value_def)

lemma digits_value_trim: "digits_value (dropWhile ((=) CHR ''0'') ds) = digits_value ds"
proof (induction ds)
  case (Cons c ds)
  have "digits_value (c # ds) = digits_value [c] * 10 ^ length ds + digits_value ds"
    using digits_value_append [of "[c]" ds] by simp
  then show ?case using Cons by (auto simp: digits_value_def)
qed simp

definition leading_digits :: "string \<Rightarrow> bool" where
  "leading_digits d \<longleftrightarrow> d \<noteq> [] \<and> (\<forall>c \<in> set d. is_digit c) \<and> hd d \<noteq> CHR ''0''"

lemma is_digit_byte: "is_digit c \<longleftrightarrow> 48 \<le> byte c \<and> byte c \<le> 57"
  by (simp add: char_between_def)

lemma byte_zero_char: "byte CHR ''0'' = (48 :: nat)"
  by simp

lemma digit_of_byte:
  assumes "is_digit c"
  shows "digit_of (n * 10 + (byte c - 48)) = c"
proof -
  have b: "byte c - 48 < (10 :: nat)" "48 + (byte c - 48) = (byte c :: nat)"
    using assms by (auto simp: is_digit_byte)
  then have "(n * 10 + (byte c - 48)) mod 10 = byte c - 48" by (metis mod_less mod_mult_self3)
  then show ?thesis by (intro byte_eqD) (simp add: byte_digit_of b(2))
qed

lemma byte_zero: "byte c = (48 :: nat) \<longleftrightarrow> c = CHR ''0''"
  by (metis byte_eqD byte_zero_char)

lemma decimal_digits_value: "leading_digits d \<Longrightarrow> decimal (digits_value d) = d \<and> 0 < digits_value d"
proof (induction d rule: rev_induct)
  case (snoc c d)
  have c: "is_digit c" "byte c - 48 < 10" using snoc.prems by (auto simp: leading_digits_def is_digit_byte)
  show ?case
  proof (cases "d = []")
    case True
    then have "byte c \<noteq> 48" using snoc.prems by (auto simp: leading_digits_def byte_zero)
    then have "0 < byte c - 48" using c by (auto simp: is_digit_byte)
    then show ?thesis using True c digit_of_byte [of c 0] by (simp add: digits_value_def decimal.simps)
  next
    case False
    then have "leading_digits d" using snoc.prems by (auto simp: leading_digits_def)
    then have IH: "decimal (digits_value d) = d" "0 < digits_value d" using snoc.IH by auto
    then show ?thesis using c digit_of_byte [OF c(1), of "digits_value d"]
      by (subst decimal.simps) auto
  qed
qed (simp add: leading_digits_def)

lemma HasSuffix_zero: "HasSuffix d ''0'' \<longleftrightarrow> d \<noteq> [] \<and> last d = CHR ''0''"
  by (cases d rule: rev_cases) (auto simp: HasSuffix_def Suc_le_eq)

lemma last_digit_dvd:
  assumes "leading_digits d" "\<not> HasSuffix d ''0''"
  shows "\<not> 10 dvd digits_value d"
proof -
  obtain d0 c where d: "d = d0 @ [c]" using assms(1) by (cases d rule: rev_cases) (auto simp: leading_digits_def)
  then have c: "is_digit c" "byte c \<noteq> 48" using assms by (auto simp: leading_digits_def HasSuffix_zero byte_zero)
  then have b: "byte c - 48 < (10 :: nat)" "0 < byte c - (48 :: nat)" by (auto simp: is_digit_byte)
  then have "(digits_value d0 * 10 + (byte c - 48)) mod 10 = byte c - 48"
    by (metis mod_less mod_mult_self3)
  then show ?thesis using b(2) by (simp add: d dvd_eq_mod_eq_0)
qed

section \<open>The normal form of a number\<close>

lemma canonicalScientificParts_spec:
  assumes "canonicalScientificParts d e = (d', e')"
  shows "\<exists>k. d = d' @ replicate k CHR ''0'' \<and> e' = e + int k \<and> \<not> HasSuffix d' ''0''"
  using assms
proof (induction d e rule: canonicalScientificParts.induct)
  case (1 d e)
  show ?case
  proof (cases "HasSuffix d ''0''")
    case True
    then obtain k where k: "butlast d = d' @ replicate k CHR ''0''" "e' = e + 1 + int k" "\<not> HasSuffix d' ''0''"
      using 1 by (auto simp: canonicalScientificParts.simps [of d e])
    have "d = butlast d @ [CHR ''0'']" using True by (metis HasSuffix_zero append_butlast_last_id)
    also have "\<dots> = d' @ replicate (Suc k) CHR ''0''" unfolding k(1) by (simp add: replicate_append_same)
    finally show ?thesis using k by (intro exI [of _ "Suc k"]) simp
  next
    case False
    then show ?thesis using 1(2) by (intro exI [of _ 0]) (simp add: canonicalScientificParts.simps [of d e])
  qed
qed

lemma canonicalScientificParts_zeros:
  "canonicalScientificParts (d @ replicate k CHR ''0'') e = canonicalScientificParts d (e + int k)"
proof (induction k arbitrary: e)
  case (Suc k)
  have "d @ replicate (Suc k) CHR ''0'' = (d @ replicate k CHR ''0'') @ [CHR ''0'']"
    by (simp add: replicate_append_same)
  then have "canonicalScientificParts (d @ replicate (Suc k) CHR ''0'') e
      = canonicalScientificParts ((d @ replicate k CHR ''0'') @ [CHR ''0'']) e" by (simp only:)
  also have "\<dots> = canonicalScientificParts (d @ replicate k CHR ''0'') (e + 1)"
    by (subst canonicalScientificParts.simps) (simp add: HasSuffix_zero butlast_append)
  also have "\<dots> = canonicalScientificParts d (e + int (Suc k))" using Suc [of "e + 1"] by (simp add: algebra_simps)
  finally show ?case .
qed simp

lemma canonicalScientificParts_fix: "\<not> HasSuffix d ''0'' \<Longrightarrow> canonicalScientificParts d e = (d, e)"
  by (simp add: canonicalScientificParts.simps [of d e])

lemma strip_fraction_zeros_spec:
  assumes "strip_fraction_zeros d e = (d', e')"
  shows "\<exists>k. d = d' @ replicate k CHR ''0'' \<and> e' = e + int k \<and> (e' < 0 \<longrightarrow> \<not> HasSuffix d' ''0'')"
  using assms
proof (induction d e rule: strip_fraction_zeros.induct)
  case (1 d e)
  show ?case
  proof (cases "e < 0 \<and> HasSuffix d ''0''")
    case True
    then obtain k where k: "butlast d = d' @ replicate k CHR ''0''" "e' = e + 1 + int k"
        "e' < 0 \<longrightarrow> \<not> HasSuffix d' ''0''"
      using 1 by (auto simp: strip_fraction_zeros.simps [of d e])
    have "d = butlast d @ [CHR ''0'']" using True by (metis HasSuffix_zero append_butlast_last_id)
    also have "\<dots> = d' @ replicate (Suc k) CHR ''0''" unfolding k(1) by (simp add: replicate_append_same)
    finally show ?thesis using k by (intro exI [of _ "Suc k"]) simp
  next
    case False
    then show ?thesis using 1(2)
      by (intro exI [of _ 0]) (auto simp: strip_fraction_zeros.simps [of d e] split: if_splits)
  qed
qed

text \<open>Within the limit of 8192 digits the text depends on the normal form alone.\<close>

lemma number_body_normal:
  assumes "canonicalScientificParts d e = (d', e')" "int (length d) \<le> defaultMaxTemplateVarBytes"
    and "e < 0 \<longrightarrow> \<not> HasSuffix d ''0''" "d' \<noteq> []"
  shows "number_body d e = number_body d' e'"
proof -
  obtain k where k: "d = d' @ replicate k CHR ''0''" "e' = e + int k" "\<not> HasSuffix d' ''0''"
    using canonicalScientificParts_spec [OF assms(1)] by auto
  have fix': "canonicalScientificParts d' e' = (d', e')" using k(3) by (rule canonicalScientificParts_fix)
  have sci: "canonicalScientificNumber d e = canonicalScientificNumber d' e'"
    by (simp add: canonicalScientificNumber_def assms(1) fix')
  consider "e < 0" | "k = 0" | "0 \<le> e" "0 < k" by linarith
  then show ?thesis
  proof cases
    case 1
    then have "d' = d" "e' = e" using assms(1,3) canonicalScientificParts_fix by auto
    then show ?thesis by simp
  next
    case 2
    then show ?thesis using k by simp
  next
    case 3
    have bound: "int k \<le> defaultMaxTemplateVarBytes" using assms(2) k(1) by simp
    have zeros: "d @ replicate (nat e) CHR ''0'' = d' @ replicate (nat e') CHR ''0''"
      using 3 k(1,2) by (simp add: nat_add_distrib replicate_add [symmetric] add.commute)
    show ?thesis
    proof (cases "e = 0")
      case True
      then show ?thesis using 3 k bound fix' assms(1) zeros
        by (simp add: number_body_def boundedBigIntToInt_def defaultMaxTemplateVarBytes_def)
    next
      case False
      then have pos: "0 < e" "0 < e'" using 3 k by auto
      show ?thesis
      proof (cases "defaultMaxTemplateVarBytes < e'")
        case True
        then show ?thesis using pos assms(1) fix' sci
          by (simp add: number_body_def boundedBigIntToInt_def)
      next
        case False
        then show ?thesis using pos assms(1) fix' zeros k(2)
          by (simp add: number_body_def boundedBigIntToInt_def defaultMaxTemplateVarBytes_def)
      qed
    qed
  qed
qed


section \<open>The value of a number\<close>

text \<open>The rational number a JSON number denotes.\<close>

definition number_value :: "string \<Rightarrow> rat" where
  "number_value s =
     (case number_parts s of
        None \<Rightarrow> 0
      | Some (negative, i, f, e) \<Rightarrow>
          (if negative then -1 else 1) * of_nat (digits_value (i @ f)) * power_int 10 (e - int (length f)))"

lemma digit_facts': "is_digit c \<Longrightarrow> c \<noteq> CHR ''-'' \<and> c \<noteq> CHR ''+'' \<and> c \<noteq> CHR ''.'' \<and> c \<noteq> CHR ''e'' \<and> c \<noteq> CHR ''E''"
  by (auto simp: char_between_def)

lemma number_exponent_Itoa:
  "number_exponent ([] :: string) = Some (0, [])"
  "number_exponent (CHR ''e'' # Itoa e) = Some (e, [])"
proof -
  show "number_exponent ([] :: string) = Some (0, [])" by (simp add: number_exponent_def)
  have all: "takeWhile is_digit (decimal n) = decimal n" "dropWhile is_digit (decimal n) = []" for n
    using decimal_digits by (simp_all add: takeWhile_eq_all_conv)
  have hd: "is_digit (hd (decimal n))" for n
    by (rule decimal_digits [of _ n]) simp
  show "number_exponent (CHR ''e'' # Itoa e) = Some (e, [])"
  proof (cases "e < 0")
    case True
    then show ?thesis
      by (simp add: number_exponent_def Itoa_def Let_def all del: takeWhile_eq_all_conv dropWhile_eq_Nil_conv)
  next
    case False
    then show ?thesis using digit_facts' [OF hd [of "nat e"]]
      by (simp add: number_exponent_def Itoa_def Let_def all del: takeWhile_eq_all_conv dropWhile_eq_Nil_conv)
  qed
qed

text \<open>A number written from its parts.\<close>

lemma number_parts_written:
  assumes i: "leading_digits i \<or> i = ''0''" and f: "\<forall>c \<in> set f. is_digit c"
    and ex: "ex = [] \<and> e = 0 \<or> ex = CHR ''e'' # Itoa e"
  shows "number_parts ((if neg then ''-'' else []) @ i @ (if f = [] then [] else CHR ''.'' # f) @ ex)
    = Some (neg, i, f, e)"
proof -
  have "is_digit CHR ''0''" by (simp add: char_between_def)
  then obtain c t where ct: "i = c # t" "is_digit c" "\<forall>x \<in> set t. is_digit x" "c = CHR ''0'' \<Longrightarrow> t = []"
    using i by (cases i) (auto simp: leading_digits_def)
  have expo: "number_exponent ex = Some (e, [])" using ex number_exponent_Itoa by auto
  have tail: "ex = [] \<or> hd ex = CHR ''e''" using ex by auto
  then have ex_digit: "takeWhile is_digit ex = []" "dropWhile is_digit ex = ex"
    by (cases ex; auto simp: char_between_def)+
  let ?r = "(if f = [] then [] else CHR ''.'' # f) @ ex"
  have r_digit: "takeWhile is_digit ?r = []" "dropWhile is_digit ?r = ?r" "?r \<noteq> [] \<Longrightarrow> \<not> is_digit (hd ?r)"
    using tail ex_digit by (cases "f = []"; cases ex; auto simp: char_between_def)+
  have sign: "number_sign ((if neg then ''-'' else []) @ i @ ?r) = (neg, i @ ?r)"
    using ct digit_facts' [of c] by (auto simp: number_sign_def)
  have whole: "number_integer (i @ ?r) = Some (i, ?r)"
  proof (cases "c = CHR ''0''")
    case True
    then show ?thesis using ct r_digit(3) by (auto simp: number_integer_def)
  next
    case False
    have "\<forall>x \<in> set i. is_digit x" using ct by auto
    then show ?thesis using ct False r_digit(1,2)
      by (simp add: number_integer_def takeWhile_append dropWhile_append)
  qed
  have frac: "number_fraction ?r = Some (f, ex)"
  proof (cases "f = []")
    case True
    then show ?thesis using tail by (cases ex) (auto simp: number_fraction_def)
  next
    case False
    then show ?thesis using f ex_digit by (simp add: number_fraction_def takeWhile_append dropWhile_append)
  qed
  show ?thesis by (simp add: number_parts_def sign whole frac expo)
qed

lemma number_value_written:
  assumes "leading_digits i \<or> i = ''0''" "\<forall>c \<in> set f. is_digit c" "ex = [] \<and> e = 0 \<or> ex = CHR ''e'' # Itoa e"
  shows "number_value ((if neg then ''-'' else []) @ i @ (if f = [] then [] else CHR ''.'' # f) @ ex)
    = (if neg then -1 else 1) * of_nat (digits_value (i @ f)) * power_int 10 (e - int (length f))"
  unfolding number_value_def number_parts_written [OF assms] by simp

definition signed :: "bool \<Rightarrow> rat" where
  "signed neg = (if neg then -1 else 1)"

text \<open>The text written for a normal form denotes the number.\<close>

lemma number_body_value:
  assumes d: "leading_digits d" "\<not> HasSuffix d ''0''"
  shows "number_value ((if neg then ''-'' else []) @ number_body d e)
    = signed neg * of_nat (digits_value d) * power_int 10 e"
    and "number_parts ((if neg then ''-'' else []) @ number_body d e) \<noteq> None"
proof -
  let ?sgn = "if neg then ''-'' else []"
  note fix' = canonicalScientificParts_fix [OF d(2)]
  have digits: "\<forall>c \<in> set d. is_digit c" "d \<noteq> []" using d(1) by (auto simp: leading_digits_def)
  consider (whole) ex x where "number_body d e = d @ ex" "ex = [] \<and> x = 0 \<or> ex = CHR ''e'' # Itoa x" "x = e"
    | (padded) k where "number_body d e = d @ replicate k CHR ''0''" "e = int k"
    | (split) k where "0 < k" "k < length d" "number_body d e = take k d @ ''.'' @ drop k d"
        "e = int k - int (length d)"
    | (small) k where "number_body d e = ''0.'' @ replicate k CHR ''0'' @ d" "e = - int (length d + k)"
  proof -
    have sci: thesis if "number_body d e = canonicalScientificNumber d e"
      using that whole [of "if e = 0 then [] else CHR ''e'' # Itoa e" e]
      by (auto simp: canonicalScientificNumber_def fix')
    consider "number_body d e = canonicalScientificNumber d e" | "0 \<le> e" "number_body d e = d @ replicate (nat e) CHR ''0''"
      | "e < 0" "- e < int (length d)" "number_body d e = take (length d - nat (- e)) d @ ''.'' @ drop (length d - nat (- e)) d"
      | "e < 0" "int (length d) \<le> - e" "number_body d e = ''0.'' @ replicate (nat (- e - int (length d))) CHR ''0'' @ d"
    proof -
      consider "0 < e" | "e = 0" | "e < 0" "- e < int (length d)" | "e < 0" "int (length d) \<le> - e" by linarith
      then show ?thesis
      proof cases
        case 1
        then have "number_body d e = canonicalScientificNumber d e
            \<or> number_body d e = d @ replicate (nat e) CHR ''0''"
          by (simp add: number_body_def boundedBigIntToInt_def split: option.split)
        then show ?thesis using that(1,2) 1 by auto
      next
        case 2
        then show ?thesis using that(2) by (simp add: number_body_def)
      next
        case 3
        then have "number_body d e = canonicalScientificNumber d e
            \<or> number_body d e = take (length d - nat (- e)) d @ ''.'' @ drop (length d - nat (- e)) d"
          by (simp add: number_body_def boundedBigIntToInt_def Let_def)
        then show ?thesis using that(1,3) 3 by auto
      next
        case 4
        then have "number_body d e = canonicalScientificNumber d e
            \<or> number_body d e = ''0.'' @ replicate (nat (- e - int (length d))) CHR ''0'' @ d"
          by (simp add: number_body_def boundedBigIntToInt_def Let_def)
        then show ?thesis using that(1,4) 4 by auto
      qed
    qed
    then show thesis
    proof cases
      case 1 then show thesis by (rule sci)
    next
      case 2 then show thesis using padded [of "nat e"] by simp
    next
      case 3
      then show thesis using split [of "length d - nat (- e)"] by auto
    next
      case 4 then show thesis using small [of "nat (- e - int (length d))"] by auto
    qed
  qed
  then have "number_value (?sgn @ number_body d e) = signed neg * of_nat (digits_value d) * power_int 10 e
    \<and> number_parts (?sgn @ number_body d e) \<noteq> None"
  proof cases
    case whole
    then show ?thesis
      using number_value_written [of d "[]" ex x neg] number_parts_written [of d "[]" ex x neg] d
      by (simp add: signed_def)
  next
    case padded
    have "leading_digits (d @ replicate k CHR ''0'')" using d(1) by (auto simp: leading_digits_def char_between_def)
    then show ?thesis
      using padded number_value_written [of "d @ replicate k CHR ''0''" "[]" "[]" 0 neg]
        number_parts_written [of "d @ replicate k CHR ''0''" "[]" "[]" 0 neg]
      by (simp add: signed_def digits_value_append)
  next
    case split
    have "leading_digits (take k d)" "drop k d \<noteq> []" "\<forall>c \<in> set (drop k d). is_digit c"
      using split(1,2) d(1) by (auto simp: leading_digits_def dest: in_set_takeD in_set_dropD)
    then show ?thesis
      using split number_value_written [of "take k d" "drop k d" "[]" 0 neg]
        number_parts_written [of "take k d" "drop k d" "[]" 0 neg]
      by (simp add: signed_def)
  next
    case small
    have "\<forall>c \<in> set (replicate k CHR ''0'' @ d). is_digit c" using digits by (auto simp: char_between_def)
    moreover have "digits_value (''0'' @ replicate k CHR ''0'' @ d) = digits_value d"
    proof -
      have "''0'' @ replicate k CHR ''0'' @ d = replicate (Suc k) CHR ''0'' @ d" by simp
      then show ?thesis by (simp only: digits_value_append digits_value_zeros mult_0 add_0)
    qed
    moreover have sw: "- int k - int (length d) = - int (length d) - int k" by simp
    ultimately show ?thesis
      using small digits number_value_written [of "''0''" "replicate k CHR ''0'' @ d" "[]" 0 neg]
        number_parts_written [of "''0''" "replicate k CHR ''0'' @ d" "[]" 0 neg]
      by (simp add: signed_def sw)
  qed
  then show "number_value (?sgn @ number_body d e) = signed neg * of_nat (digits_value d) * power_int 10 e"
    "number_parts (?sgn @ number_body d e) \<noteq> None" by blast+
qed


lemma is_digit_zero: "is_digit CHR ''0''"
  by (simp add: char_between_def)

lemma number_parts_shape:
  assumes "number_parts s = Some (neg, i, f, e)"
  shows "\<forall>c \<in> set (i @ f). is_digit c" "length (i @ f) \<le> length s"
proof -
  obtain s1 s2 s3 where p: "number_sign s = (neg, s1)" "number_integer s1 = Some (i, s2)"
    "number_fraction s2 = Some (f, s3)"
    using assms by (auto simp: number_parts_def split: prod.splits option.splits if_splits)
  have s1: "length s1 \<le> length s" using p(1) by (auto simp: number_sign_def split: list.splits if_splits)
  have i: "\<forall>c \<in> set i. is_digit c" "s1 = i @ s2"
    using p(2) by (auto simp: number_integer_def is_digit_zero dest: set_takeWhileD split: list.splits if_splits)
  have f: "\<forall>c \<in> set f. is_digit c" "length f \<le> length s2"
    using p(3) length_takeWhile_le [of is_digit "tl s2"]
    by (auto simp: number_fraction_def dest: set_takeWhileD split: list.splits if_splits)
  show "\<forall>c \<in> set (i @ f). is_digit c" "length (i @ f) \<le> length s" using s1 i f by auto
qed

lemma canonical_normal:
  assumes "number_parts s \<noteq> None" "int (length s) \<le> defaultMaxTemplateVarBytes"
  obtains (zero) "canonicalJSONNumber s = Inr ''0''" "number_value s = 0"
    | (nonzero) neg d e where "leading_digits d" "\<not> HasSuffix d ''0''"
        "canonicalJSONNumber s = Inr ((if neg then ''-'' else []) @ number_body d e)"
        "number_value s = signed neg * of_nat (digits_value d) * power_int 10 e"
proof -
  obtain neg i f x where p: "number_parts s = Some (neg, i, f, x)" using assms(1) by auto
  let ?D = "dropWhile ((=) CHR ''0'') (i @ f)"
  let ?x = "x - int (length f)"
  have val: "number_value s = signed neg * of_nat (digits_value ?D) * power_int 10 ?x"
    by (simp add: number_value_def p digits_value_trim signed_def)
  show thesis
  proof (cases "?D = []")
    case True
    have "canonicalJSONNumber s = Inr ''0''" by (simp only: canonicalJSONNumber_def p option.case prod.case Let_def True refl if_True)
    moreover have "number_value s = 0" unfolding val True by simp
    ultimately show thesis by (rule zero)
  next
    case False
    have "\<forall>c \<in> set ?D. is_digit c" using number_parts_shape(1) [OF p] by (meson set_dropWhileD)
    moreover have "hd ?D \<noteq> CHR ''0''" using hd_dropWhile [OF False] by metis
    ultimately have D: "leading_digits ?D" using False by (simp add: leading_digits_def)
    obtain d1 e1 where st: "strip_fraction_zeros ?D ?x = (d1, e1)" by (cases "strip_fraction_zeros ?D ?x") auto
    obtain k1 where k1: "?D = d1 @ replicate k1 CHR ''0''" "e1 = ?x + int k1" "e1 < 0 \<longrightarrow> \<not> HasSuffix d1 ''0''"
      using strip_fraction_zeros_spec [OF st] by auto
    obtain d e where nm: "canonicalScientificParts d1 e1 = (d, e)" by (cases "canonicalScientificParts d1 e1") auto
    obtain k where k: "d1 = d @ replicate k CHR ''0''" "e = e1 + int k" "\<not> HasSuffix d ''0''"
      using canonicalScientificParts_spec [OF nm] by auto
    have Dd: "?D = d @ replicate (k + k1) CHR ''0''" "e = ?x + int (k + k1)"
      using k1 k by (simp_all add: replicate_add)
    have "d \<noteq> []"
    proof
      assume "d = []"
      then have "?D = replicate (k + k1) CHR ''0''" using Dd(1) by simp
      then show False using D by (cases "k + k1") (auto simp: leading_digits_def)
    qed
    then have d: "leading_digits d" using D unfolding Dd(1) by (simp add: leading_digits_def)
    have "length d1 \<le> length ?D" using k1(1) by simp
    also have "\<dots> \<le> length s" using number_parts_shape(2) [OF p] length_dropWhile_le le_trans by blast
    finally have "int (length d1) \<le> defaultMaxTemplateVarBytes" using assms(2) by simp
    from number_body_normal [OF nm this k1(3) \<open>d \<noteq> []\<close>]
    have "canonicalJSONNumber s = Inr ((if neg then ''-'' else []) @ number_body d e)"
      using False st by (simp only: canonicalJSONNumber_def p option.case prod.case Let_def if_False)
    moreover have "number_value s = signed neg * of_nat (digits_value d) * power_int 10 e"
      unfolding val Dd(1) by (simp add: digits_value_append Dd(2) power_int_add power_add)
    ultimately show thesis using nonzero d k(3) by blast
  qed
qed

lemma decimal_scale:
  assumes "of_nat m * power_int 10 e = (of_nat n * power_int 10 e' :: rat)" "e \<le> e'" "\<not> 10 dvd m"
  shows "e = e' \<and> m = n"
proof -
  obtain k where k: "e' = e + int k" using assms(2) zle_iff_zadd by blast
  then have "of_nat m = (of_nat (n * 10 ^ k) :: rat)" using assms(1) by (simp add: power_int_add)
  then have m: "m = n * 10 ^ k" by (metis of_nat_eq_iff)
  then have "k = 0" using assms(3) by (cases k) auto
  then show ?thesis using m k by simp
qed

lemma normal_form_unique:
  assumes "signed neg * of_nat m * power_int 10 e = signed neg' * of_nat n * power_int 10 e'"
    and "0 < m" "0 < n" "\<not> 10 dvd m" "\<not> 10 dvd n"
  shows "neg = neg' \<and> m = n \<and> e = e'"
proof -
  have pos: "(0 :: rat) < of_nat m * power_int 10 e" "(0 :: rat) < of_nat n * power_int 10 e'"
    using assms(2,3) by (simp_all add: zero_less_power_int)
  have eq: "signed neg * (of_nat m * power_int 10 e) = signed neg' * (of_nat n * power_int 10 e')"
    using assms(1) by (simp add: mult.assoc)
  have "neg = neg'" using eq pos by (auto simp: signed_def split: if_splits)
  then have "of_nat m * power_int 10 e = (of_nat n * power_int 10 e' :: rat)"
    using eq by (auto simp: signed_def split: if_splits)
  then have "m = n \<and> e = e'"
    using decimal_scale [of m e n e'] decimal_scale [of n e' m e] assms(4,5) by (cases "e \<le> e'") auto
  then show ?thesis using \<open>neg = neg'\<close> by simp
qed

lemma number_value_zero: "number_value ''0'' = 0" "number_parts ''0'' \<noteq> None"
  by code_simp+

text \<open>The canonical text denotes the number, and equal numbers have one canonical text.\<close>

lemma canonicalJSONNumber_value:
  assumes "number_parts s \<noteq> None" "int (length s) \<le> defaultMaxTemplateVarBytes"
  obtains t where "canonicalJSONNumber s = Inr t" "number_value t = number_value s" "number_parts t \<noteq> None"
proof (cases rule: canonical_normal [OF assms])
  case 1
  then show thesis using that number_value_zero by simp
next
  case (2 neg d e)
  then show thesis using that number_body_value [OF 2(1,2)] by simp
qed

lemma canonicalJSONNumber_unique:
  assumes "number_parts s \<noteq> None" "int (length s) \<le> defaultMaxTemplateVarBytes"
    and "number_parts s' \<noteq> None" "int (length s') \<le> defaultMaxTemplateVarBytes"
    and "number_value s = number_value s'"
  shows "canonicalJSONNumber s = canonicalJSONNumber s'"
proof -
  have nz: "signed neg * of_nat (digits_value d) * power_int 10 e \<noteq> 0" if "leading_digits d" for neg d e
    using decimal_digits_value [OF that] by (simp add: signed_def)
  show ?thesis
  proof (cases rule: canonical_normal [OF assms(1,2)])
    case 1
    note s = 1
    show ?thesis
    proof (cases rule: canonical_normal [OF assms(3,4)])
      case 1
      then show ?thesis using s by simp
    next
      case (2 neg d e)
      then show ?thesis using s assms(5) nz [OF 2(1)] by simp
    qed
  next
    case (2 neg d e)
    note s = 2
    show ?thesis
    proof (cases rule: canonical_normal [OF assms(3,4)])
      case 1
      then show ?thesis using s assms(5) nz [OF s(1)] by simp
    next
      case (2 neg' d' e')
      have "neg = neg' \<and> digits_value d = digits_value d' \<and> e = e'"
        using assms(5) decimal_digits_value [OF s(1)] decimal_digits_value [OF 2(1)]
          last_digit_dvd [OF s(1,2)] last_digit_dvd [OF 2(1,2)]
        by (intro normal_form_unique) (simp_all add: s(4) 2(4))
      moreover from this have "d = d'"
        using decimal_digits_value [OF s(1)] decimal_digits_value [OF 2(1)] by metis
      ultimately show ?thesis using s(3) 2(3) by simp
    qed
  qed
qed


section \<open>The grammar of numbers\<close>

text \<open>What the scanner of JSON accepts is what \<open>canonicalJSONNumber\<close> accepts.\<close>

definition exponent_text :: "string \<Rightarrow> bool" where
  "exponent_text ex \<longleftrightarrow> ex = [] \<or>
     (\<exists>c sg ds. ex = c # sg @ ds \<and> (c = CHR ''e'' \<or> c = CHR ''E'') \<and> (sg = [] \<or> sg = ''+'' \<or> sg = ''-'')
        \<and> ds \<noteq> [] \<and> (\<forall>x \<in> set ds. is_digit x))"

definition number_text :: "string \<Rightarrow> bool" where
  "number_text s \<longleftrightarrow>
     (\<exists>sg i f ex. s = sg @ i @ (if f = [] then [] else CHR ''.'' # f) @ ex \<and> (sg = [] \<or> sg = ''-'')
        \<and> (leading_digits i \<or> i = ''0'') \<and> (\<forall>x \<in> set f. is_digit x) \<and> exponent_text ex)"

lemma digit_span:
  assumes "\<forall>x \<in> set ds. is_digit x" "rest = [] \<or> \<not> is_digit (hd rest)"
  shows "takeWhile is_digit (ds @ rest) = ds" "dropWhile is_digit (ds @ rest) = rest"
proof -
  have r: "takeWhile is_digit rest = []" "dropWhile is_digit rest = rest"
    using assms(2) by (cases rest; simp)+
  show "takeWhile is_digit (ds @ rest) = ds" "dropWhile is_digit (ds @ rest) = rest"
    using assms(1) r by (simp_all add: takeWhile_append dropWhile_append)
qed

lemma exponent_text_hd: "exponent_text ex \<Longrightarrow> ex = [] \<or> (hd ex = CHR ''e'' \<or> hd ex = CHR ''E'')"
  by (auto simp: exponent_text_def)

lemma not_digit_chars [simp]:
  "\<not> is_digit CHR ''.''" "\<not> is_digit CHR ''e''" "\<not> is_digit CHR ''E''" "\<not> is_digit CHR '',''"
  "\<not> is_digit CHR ''}''" "\<not> is_digit CHR ''+''" "\<not> is_digit CHR ''-''"
  by (simp_all add: char_between_def)

text \<open>Reading the three pieces with what may follow them.\<close>

lemma number_pieces:
  assumes "leading_digits i \<or> i = ''0''" "r = [] \<or> \<not> is_digit (hd r)"
  shows "number_integer (i @ r) = Some (i, r)" "scan_integer (i @ r) = Some (i, r)"
proof -
  obtain c t where ct: "i = c # t" "is_digit c" "\<forall>x \<in> set i. is_digit x" "c = CHR ''0'' \<Longrightarrow> t = []"
    using assms(1) is_digit_zero by (cases i) (auto simp: leading_digits_def)
  show "number_integer (i @ r) = Some (i, r)" "scan_integer (i @ r) = Some (i, r)"
    using digit_span [OF ct(3) assms(2)] ct(1,2,4) assms(2)
    by (cases "c = CHR ''0''"; auto simp: number_integer_def scan_integer_def)+
qed

lemma fraction_pieces:
  assumes "\<forall>x \<in> set f. is_digit x" "r = [] \<or> \<not> is_digit (hd r) \<and> hd r \<noteq> CHR ''.''"
  shows "number_fraction ((if f = [] then [] else CHR ''.'' # f) @ r) = Some (f, r)"
    "scan_fraction ((if f = [] then [] else CHR ''.'' # f) @ r) = Some (if f = [] then [] else CHR ''.'' # f, r)"
  using digit_span [OF assms(1), of r] assms(2)
  by (cases "f = []"; cases r; auto simp: number_fraction_def scan_fraction_def)+

lemma exponent_pieces:
  assumes "exponent_text ex" "r = [] \<or> (hd r = CHR '','' \<or> hd r = CHR ''}'')"
  shows "scan_exponent (ex @ r) = Some (ex, r)" "r = [] \<Longrightarrow> \<exists>e. number_exponent ex = Some (e, [])"
proof -
  have "scan_exponent (ex @ r) = Some (ex, r) \<and> (r = [] \<longrightarrow> (\<exists>e. number_exponent ex = Some (e, [])))"
  proof (cases "ex = []")
    case True
    then show ?thesis using assms(2) by (cases r) (auto simp: scan_exponent_def number_exponent_def)
  next
    case False
    then obtain c sg ds where ex: "ex = c # sg @ ds" "c = CHR ''e'' \<or> c = CHR ''E''"
      "sg = [] \<or> sg = ''+'' \<or> sg = ''-''" "ds \<noteq> []" "\<forall>x \<in> set ds. is_digit x"
      using assms(1) by (auto simp: exponent_text_def)
    have r: "r = [] \<or> \<not> is_digit (hd r)" using assms(2) by auto
    obtain x xs where x: "ds = x # xs" using ex(4) by (cases ds) auto
    have nx: "x \<noteq> CHR ''+''" "x \<noteq> CHR ''-''" using ex(5) x digit_facts' by auto
    have sp: "takeWhile is_digit (ds @ r) = ds" "dropWhile is_digit (ds @ r) = r"
      using digit_span [OF ex(5) r] by auto
    have sp2: "takeWhile is_digit ds = ds" "dropWhile is_digit ds = []"
      using digit_span [OF ex(5), of "[]"] by auto
    have "scan_exponent (ex @ r) = Some (ex, r)"
      using ex(1-4) sp nx unfolding x by (auto simp: scan_exponent_def)
    moreover have "\<exists>e. number_exponent ex = Some (e, [])"
      using ex sp2 nx unfolding x by (auto simp: number_exponent_def Let_def)
    ultimately show ?thesis by blast
  qed
  then show "scan_exponent (ex @ r) = Some (ex, r)" "r = [] \<Longrightarrow> \<exists>e. number_exponent ex = Some (e, [])"
    by blast+
qed

lemma number_text_reads:
  assumes "number_text s"
  shows "number_parts s \<noteq> None" "hd r = CHR '','' \<or> hd r = CHR ''}'' \<Longrightarrow> r \<noteq> [] \<Longrightarrow> scan_number (s @ r) = Some (s, r)"
proof -
  obtain sg i f ex where s: "s = sg @ i @ (if f = [] then [] else CHR ''.'' # f) @ ex" "sg = [] \<or> sg = ''-''"
    "leading_digits i \<or> i = ''0''" "\<forall>x \<in> set f. is_digit x" "exponent_text ex"
    using assms by (auto simp: number_text_def)
  obtain c t where ct: "i = c # t" "c \<noteq> CHR ''-''"
    using s(3) by (cases i) (auto simp: leading_digits_def dest: digit_facts')
  have ex: "ex @ u = [] \<or> \<not> is_digit (hd (ex @ u)) \<and> hd (ex @ u) \<noteq> CHR ''.''"
    if "u = [] \<or> (hd u = CHR '','' \<or> hd u = CHR ''}'')" for u
    using exponent_text_hd [OF s(5)] that by (cases ex) auto
  have fr: "(if f = [] then [] else CHR ''.'' # f) @ ex @ u = []
      \<or> \<not> is_digit (hd ((if f = [] then [] else CHR ''.'' # f) @ ex @ u))"
    if "u = [] \<or> (hd u = CHR '','' \<or> hd u = CHR ''}'')" for u
    using ex [OF that] by (cases "f = []") auto
  have "number_sign s = (sg = ''-'', i @ (if f = [] then [] else CHR ''.'' # f) @ ex)"
    using s(1,2) ct by (auto simp: number_sign_def)
  moreover have "number_integer (i @ (if f = [] then [] else CHR ''.'' # f) @ ex)
      = Some (i, (if f = [] then [] else CHR ''.'' # f) @ ex)"
    using number_pieces(1) [OF s(3) fr [of "[]"]] by simp
  moreover have "number_fraction ((if f = [] then [] else CHR ''.'' # f) @ ex) = Some (f, ex)"
    using fraction_pieces(1) [OF s(4) ex [of "[]"]] by simp
  moreover obtain e where "number_exponent ex = Some (e, [])"
    using exponent_pieces(2) [OF s(5), of "[]"] by auto
  ultimately show "number_parts s \<noteq> None" by (simp add: number_parts_def)
  show "scan_number (s @ r) = Some (s, r)" if r: "hd r = CHR '','' \<or> hd r = CHR ''}''" "r \<noteq> []"
  proof -
    have r': "r = [] \<or> (hd r = CHR '','' \<or> hd r = CHR ''}'')" using r by simp
    have "scan_integer (i @ (if f = [] then [] else CHR ''.'' # f) @ ex @ r)
        = Some (i, (if f = [] then [] else CHR ''.'' # f) @ ex @ r)"
      using number_pieces(2) [OF s(3) fr [OF r']] by simp
    moreover have "scan_fraction ((if f = [] then [] else CHR ''.'' # f) @ ex @ r)
        = Some (if f = [] then [] else CHR ''.'' # f, ex @ r)"
      using fraction_pieces(2) [OF s(4) ex [OF r']] by simp
    moreover have "scan_exponent (ex @ r) = Some (ex, r)" using exponent_pieces(1) [OF s(5) r'] .
    ultimately show ?thesis using s(1,2) ct by (auto simp: scan_number_def)
  qed
qed

lemma scan_exponent_text:
  assumes "scan_exponent s = Some (ex, rest)"
  shows "exponent_text ex"
proof (cases s)
  case Nil
  then show ?thesis using assms by (simp add: scan_exponent_def exponent_text_def)
next
  case (Cons c t)
  obtain sg u where su: "(case t of x # u \<Rightarrow> if x = CHR ''+'' \<or> x = CHR ''-'' then ([x], u) else ([], t)
      | [] \<Rightarrow> ([], t)) = (sg, u)" by (cases "case t of x # u \<Rightarrow> if x = CHR ''+'' \<or> x = CHR ''-''
      then ([x], u) else ([], t) | [] \<Rightarrow> ([], t)")
  then have sg: "sg = [] \<or> sg = ''+'' \<or> sg = ''-''" by (auto split: list.splits if_splits)
  show ?thesis
  proof (cases "c = CHR ''e'' \<or> c = CHR ''E''")
    case True
    then have "takeWhile is_digit u \<noteq> []" "ex = c # sg @ takeWhile is_digit u"
      using assms unfolding Cons scan_exponent_def list.case su prod.case Let_def
      by (simp_all split: if_splits)
    then show ?thesis using True sg unfolding exponent_text_def by (blast dest: set_takeWhileD)
  next
    case False
    then show ?thesis using assms by (simp add: Cons scan_exponent_def exponent_text_def)
  qed
qed

lemma scan_number_text:
  assumes "scan_number s = Some (t, rest)"
  shows "number_text t"
proof -
  define sg where "sg = (case s of c # _ \<Rightarrow> if c = CHR ''-'' then [c] else [] | [] \<Rightarrow> [])"
  obtain s1 i s2 fr s3 ex where p: "scan_integer s1 = Some (i, s2)" "scan_fraction s2 = Some (fr, s3)"
    "scan_exponent s3 = Some (ex, rest)" "t = sg @ i @ fr @ ex"
    using assms by (auto simp: scan_number_def sg_def split: prod.splits option.splits list.splits if_splits)
  have "leading_digits i \<or> i = ''0''"
    using p(1) by (auto simp: scan_integer_def leading_digits_def dest: set_takeWhileD split: list.splits if_splits)
  moreover obtain f where "fr = (if f = [] then [] else CHR ''.'' # f)" "\<forall>x \<in> set f. is_digit x"
  proof -
    have "fr = (if takeWhile is_digit (tl fr) = [] then [] else CHR ''.'' # takeWhile is_digit (tl fr))"
      using p(2) by (auto simp: scan_fraction_def split: list.splits if_splits)
    then show thesis by (rule that) (auto dest: set_takeWhileD)
  qed
  moreover have "exponent_text ex" using p(3) by (rule scan_exponent_text)
  moreover have "sg = [] \<or> sg = ''-''" by (auto simp: sg_def split: list.splits)
  ultimately show ?thesis unfolding number_text_def p(4)
    by (intro exI [of _ sg] exI [of _ i] exI [of _ f] exI [of _ ex]) simp
qed

end
