(* ===== verification/JsonFacts.thy ===== *)
theory JsonFacts
  imports Json
begin

text \<open>
  What the decoder of JSON delivers: strings and names are valid UTF-8, and a number is the text the
  scanner read, no longer than its source.
\<close>

lemma byte_char_of: "n < 256 \<Longrightarrow> byte (char_of n) = n"
  by (simp add: of_char_of)

lemma encodeRune_three:
  assumes "x < 16" "y < 64" "z < 64" "x = 0 \<Longrightarrow> 32 \<le> y" "x = 13 \<Longrightarrow> y < 32"
  shows "head_rune (char_of (224 + x) # char_of (128 + y) # char_of (128 + z) # t) = Some (x * 4096 + y * 64 + z, 3)"
proof -
  have b: "byte (char_of (224 + x)) = 224 + x" "byte (char_of (128 + y)) = 128 + y"
    "byte (char_of (128 + z)) = 128 + z" using assms(1-3) by (simp_all add: byte_char_of)
  obtain lo hi where f: "first_byte (224 + x) = Some (3, lo, hi)" "lo \<le> 128 + y" "128 + y \<le> hi"
    using assms by (cases "x = 0"; cases "x = 13") (auto simp: first_byte_def)
  show ?thesis using f assms(3) unfolding head_rune_def list.case b by (simp add: continuation_def)
qed

lemma encodeRune_four:
  assumes "w < 5" "x < 64" "y < 64" "z < 64" "w = 0 \<Longrightarrow> 16 \<le> x" "w = 4 \<Longrightarrow> x < 16"
  shows "head_rune (char_of (240 + w) # char_of (128 + x) # char_of (128 + y) # char_of (128 + z) # t)
    = Some (w * 262144 + x * 4096 + y * 64 + z, 4)"
proof -
  have b: "byte (char_of (240 + w)) = 240 + w" "byte (char_of (128 + x)) = 128 + x"
    "byte (char_of (128 + y)) = 128 + y" "byte (char_of (128 + z)) = 128 + z"
    using assms(1-4) by (simp_all add: byte_char_of)
  obtain lo hi where f: "first_byte (240 + w) = Some (4, lo, hi)" "lo \<le> 128 + x" "128 + x \<le> hi"
    using assms by (cases "w = 0"; cases "w = 4") (auto simp: first_byte_def)
  show ?thesis using f assms(3,4) unfolding head_rune_def list.case b by (simp add: continuation_def)
qed

lemma encodeRune_two:
  assumes "2 \<le> x" "x < 32" "y < 64"
  shows "head_rune (char_of (192 + x) # char_of (128 + y) # t) = Some (x * 64 + y, 2)"
proof -
  have b: "byte (char_of (192 + x)) = 192 + x" "byte (char_of (128 + y)) = 128 + y"
    using assms by (simp_all add: byte_char_of)
  have f: "first_byte (192 + x) = Some (2, 128, 191)" using assms by (simp add: first_byte_def)
  show ?thesis using assms unfolding head_rune_def list.case b f by simp
qed

lemma base64: "(q :: nat) = q div 4096 * 4096 + q div 64 mod 64 * 64 + q mod 64"
proof -
  have "q div 4096 = q div 64 div 64" by (simp flip: div_mult2_eq)
  then show ?thesis using div_mult_mod_eq [of q 64] div_mult_mod_eq [of "q div 64" 64] by linarith
qed

text \<open>Every encoded rune is read back with its length.\<close>

lemma head_rune_encodeRune: "\<exists>q. head_rune (encodeRune r @ t) = Some (q, length (encodeRune r))"
proof -
  define q where "q = (if 55296 \<le> r \<and> r < 57344 \<or> 1114111 < r then RuneError else r)"
  have q: "q \<le> 1114111" "\<not> (55296 \<le> q \<and> q < 57344)" by (auto simp: q_def RuneError_def)
  consider "q < 128" | "128 \<le> q" "q < 2048" | "2048 \<le> q" "q < 65536" | "65536 \<le> q" by linarith
  then show ?thesis
  proof cases
    case 1
    then have "encodeRune r = [char_of q]" by (simp add: encodeRune_def q_def [symmetric] Let_def)
    then show ?thesis using 1 by (simp add: head_rune_ascii of_char_of)
  next
    case 2
    then have e: "encodeRune r = [char_of (192 + q div 64), char_of (128 + q mod 64)]"
      by (simp add: encodeRune_def q_def [symmetric] Let_def)
    have "2 \<le> q div 64" "q div 64 < 32" "q mod 64 < 64" using 2 by auto
    then show ?thesis using encodeRune_two [of "q div 64" "q mod 64" t] by (simp add: e)
  next
    case 3
    then have e: "encodeRune r = [char_of (224 + q div 4096), char_of (128 + q div 64 mod 64), char_of (128 + q mod 64)]"
      by (simp add: encodeRune_def q_def [symmetric] Let_def)
    define x y z where d: "x = q div 4096" "y = q div 64 mod 64" "z = q mod 64"
    have eq: "q = x * 4096 + y * 64 + z" "y < 64" "z < 64" using base64 [of q] by (simp_all add: d)
    then have "x < 16" "x = 0 \<Longrightarrow> 32 \<le> y" "x = 13 \<Longrightarrow> y < 32" using 3 q by auto
    then show ?thesis using encodeRune_three [of x y z t] eq(2,3) by (simp add: e flip: d)
  next
    case 4
    then have e: "encodeRune r = [char_of (240 + q div 262144), char_of (128 + q div 4096 mod 64),
        char_of (128 + q div 64 mod 64), char_of (128 + q mod 64)]"
      by (simp add: encodeRune_def q_def [symmetric] Let_def)
    define w x y z where d: "w = q div 262144" "x = q div 4096 mod 64" "y = q div 64 mod 64" "z = q mod 64"
    have "q div 4096 = w * 64 + x" "q div 262144 = q div 4096 div 64" "x < 64"
      using div_mult_mod_eq [of "q div 4096" 64] by (simp_all add: d flip: div_mult2_eq)
    then have eq: "q = w * 262144 + x * 4096 + y * 64 + z" "x < 64" "y < 64" "z < 64"
      using base64 [of q] by (simp_all add: d(3,4))
    then have "w < 5" "w = 0 \<Longrightarrow> 16 \<le> x" "w = 4 \<Longrightarrow> x < 16" using 4 q by auto
    then show ?thesis using encodeRune_four [of w x y z t] eq(2-4) by (simp add: e flip: d)
  qed
qed

lemma ValidString_encodeRune: "ValidString (encodeRune r @ t) \<longleftrightarrow> ValidString t"
proof -
  obtain q where "head_rune (encodeRune r @ t) = Some (q, length (encodeRune r))"
    using head_rune_encodeRune by blast
  from ValidString_head [OF this] show ?thesis by simp
qed

lemma ValidString_ascii_Cons: "byte c < 128 \<Longrightarrow> ValidString (c # t) \<longleftrightarrow> ValidString t"
  by (simp add: head_rune_ascii)

lemma json_escape_valid:
  "json_escape s = Some (out, rest) \<Longrightarrow> ValidString t \<Longrightarrow> ValidString (out @ t)"
  by (auto simp: json_escape_def json_unicode_def ValidString_encodeRune ValidString_ascii_Cons
      split: list.splits if_splits option.splits prod.splits simp del: ValidString.simps)

text \<open>A decoded string is valid UTF-8.\<close>

lemma json_string_valid: "json_string s = Some (v, rest) \<Longrightarrow> ValidString v"
proof (induction s arbitrary: v rule: json_string.induct)
  case (2 c cs)
  consider (e) "c = quote_char" | (esc) "c = backslash" "c \<noteq> quote_char"
    | (ascii) "c \<noteq> quote_char" "c \<noteq> backslash" "32 \<le> byte c" "byte c < 128"
    | (bad) "c \<noteq> quote_char" "c \<noteq> backslash" "128 \<le> byte c" "head_rune (c # cs) = None"
    | (high) r n where "c \<noteq> quote_char" "c \<noteq> backslash" "128 \<le> byte c" "head_rune (c # cs) = Some (r, n)"
    using 2(5) by (cases "head_rune (c # cs)") (auto split: if_splits)
  then show ?case
  proof cases
    case e
    then show ?thesis using 2(5) by simp
  next
    case esc
    then obtain out u w where "json_escape cs = Some (out, u)" "json_string u = Some (w, rest)" "v = out @ w"
      using 2(5) by (auto simp: apfst_def map_prod_def split: option.splits prod.splits)
    then show ?thesis using 2(1) esc json_escape_valid by simp
  next
    case ascii
    then obtain w where w: "json_string cs = Some (w, rest)" "v = c # w"
      using 2(5) by (auto simp: apfst_def map_prod_def split: prod.splits)
    then show ?thesis using 2(2) ascii by (simp add: ValidString_ascii_Cons del: ValidString.simps)
  next
    case bad
    then obtain w where w: "json_string cs = Some (w, rest)" "v = encodeRune RuneError @ w"
      using 2(5) by (auto simp: apfst_def map_prod_def split: prod.splits)
    then show ?thesis using 2(3) bad by (simp add: ValidString_encodeRune)
  next
    case high
    then obtain w where w: "json_string (drop (n - 1) cs) = Some (w, rest)" "v = take n (c # cs) @ w"
      using 2(5) by (auto simp: apfst_def map_prod_def split: prod.splits)
    then show ?thesis using 2(4) high ValidString_append by simp
  qed
qed simp

section \<open>Scanned values\<close>

lemma scan_number_length: "scan_number s = Some (t, rest) \<Longrightarrow> length t \<le> length s"
proof -
  assume s: "scan_number s = Some (t, rest)"
  obtain sg s1 i s2 fr s3 ex where p: "scan_integer s1 = Some (i, s2)" "scan_fraction s2 = Some (fr, s3)"
    "scan_exponent s3 = Some (ex, rest)" "t = sg @ i @ fr @ ex" "length sg + length s1 = length s"
    using s by (auto simp: scan_number_def split: prod.splits option.splits list.splits if_splits)
  have tw: "length (takeWhile is_digit u) + length (dropWhile is_digit u) = length u" for u
    by (metis length_append takeWhile_dropWhile_id)
  have "length i + length s2 = length s1" using p(1) tw [of s1]
    by (auto simp: scan_integer_def split: list.splits if_splits)
  moreover have "length fr + length s3 = length s2" using p(2) tw [of "tl s2"]
    by (auto simp: scan_fraction_def split: list.splits if_splits)
  moreover have "length ex \<le> length s3" using p(3)
    by (auto simp: scan_exponent_def length_takeWhile_le Let_def le_SucI split: list.splits if_splits)
  ultimately show ?thesis using p(4,5) by simp
qed

definition scanned :: "nat \<Rightarrow> json \<Rightarrow> bool" where
  "scanned m v =
     (case v of
        JString s \<Rightarrow> ValidString s
      | JNumber t \<Rightarrow> length t \<le> m \<and> (\<exists>s rest. scan_number s = Some (t, rest))
      | _ \<Rightarrow> True)"

lemma scan_literal_value: "scan_literal p v s = Some (w, rest) \<Longrightarrow> w = v"
  by (induction p v s rule: scan_literal.induct) (auto split: if_splits)

lemma scanned_mono: "scanned m v \<Longrightarrow> m \<le> n \<Longrightarrow> scanned n v"
  by (auto simp: scanned_def split: json.splits)

lemma json_value_scanned: "json_value n d s = Some (v, rest) \<Longrightarrow> scanned (length s) v"
proof (cases n)
  case (Suc n')
  assume v: "json_value n d s = Some (v, rest)"
  have len: "length (skip_ws s) \<le> length s" by (rule skip_ws_shorter)
  obtain c t where ct: "skip_ws s = c # t" using v by (cases "skip_ws s") (auto simp: Suc json_step)
  have num: "scan_number (c # t) = Some (u, rest) \<Longrightarrow> length u \<le> length s" for u
    using scan_number_length [of "c # t" u rest] len ct by simp
  from v consider (str) w where "json_string t = Some (w, rest)" "v = JString w"
    | (num) w where "scan_number (c # t) = Some (w, rest)" "v = JNumber w"
    | (other) "\<And>m. scanned m v"
    unfolding Suc json_step ct list.case
    by (auto simp: scanned_def map_option_apfst_Some dest!: scan_literal_value split: if_splits list.splits)
  then show ?thesis
  proof cases
    case str
    then show ?thesis by (auto simp: scanned_def json_string_valid)
  next
    case num
    then show ?thesis using scan_number_length [OF num(1)] len ct by (auto simp: scanned_def)
  next
    case other
    then show ?thesis .
  qed
qed simp

lemma json_members_scanned:
  "json_members n d s = Some (ms, rest) \<Longrightarrow> (k, raw, v) \<in> set ms \<Longrightarrow> ValidString k \<and> scanned (length s) v"
proof (induction n arbitrary: s ms)
  case (Suc n)
  obtain c t k' r c2 r2 v' r3 c4 r4 where p: "skip_ws s = c # t" "json_string t = Some (k', r)"
    "skip_ws r = c2 # r2" "json_value n d (skip_ws r2) = Some (v', r3)" "skip_ws r3 = c4 # r4"
    and ms: "(\<exists>t'. ms = [(k', t', v')]) \<or> (\<exists>t' ms'. ms = (k', t', v') # ms' \<and> json_members n d r4 = Some (ms', rest))"
    using Suc.prems(1) unfolding json_step
    by (auto simp: map_option_apfst_Some Let_def split: list.splits if_splits option.splits prod.splits)
  have len: "length t < length s" "length r < length t" "length r2 < length r"
    using skip_ws_shorter [of s] skip_ws_shorter [of r] p(1,3) json_string_shorter [OF p(2)] by auto
  have l2: "length (skip_ws r2) \<le> length s" "length r4 \<le> length s"
    using len skip_ws_shorter [of r2] skip_ws_shorter [of r3] p(5) json_shorter(1) [OF p(4)] by auto
  have "ValidString k'" "scanned (length s) v'"
    using json_string_valid [OF p(2)] scanned_mono [OF json_value_scanned [OF p(4)] l2(1)] by auto
  moreover have "ValidString k \<and> scanned (length s) v"
    if "json_members n d r4 = Some (ms', rest)" "(k, raw, v) \<in> set ms'" for ms'
    using Suc.IH [OF that] scanned_mono l2(2) by blast
  ultimately show ?case using ms Suc.prems(2) by auto
qed simp

lemma json_decode_scanned:
  assumes "json_decode s = Some (JObject ms, rest)" "(k, raw, v) \<in> set ms"
  shows "ValidString k \<and> scanned (length s) v"
proof -
  obtain n where n: "2 * length s + 2 = Suc n" by simp
  obtain t where "skip_ws s = CHR ''{'' # t" "ms = [] \<or> json_members n 1 (skip_ws t) = Some (ms, rest)"
    using assms(1) unfolding json_decode_def n json_step
    by (auto simp: map_option_apfst_Some dest!: scan_literal_value split: list.splits if_splits)
  then have m: "json_members n 1 (skip_ws t) = Some (ms, rest)" "length (skip_ws t) \<le> length s"
    using assms(2) skip_ws_shorter [of s] skip_ws_shorter [of t] by auto
  show ?thesis using json_members_scanned [OF m(1) assms(2)] scanned_mono [OF _ m(2)] by blast
qed

end
