(* ===== verification/FingerprintKey.thy ===== *)
theory FingerprintKey
  imports Fingerprint JsonFacts
begin

text \<open>
  The canonical request as a key: two accepted requests have the same canonical text exactly when they
  ask for the same mail, so that the idempotency cache can tell a repeated request from another one
  under the same key.
\<close>

section \<open>When two requests ask for the same\<close>

fun same_value :: "json \<Rightarrow> json \<Rightarrow> bool" where
  "same_value (JString s) (JString t) \<longleftrightarrow> s = t"
| "same_value (JBool a) (JBool b) \<longleftrightarrow> a = b"
| "same_value (JNumber s) (JNumber t) \<longleftrightarrow> number_value s = number_value t"
| "same_value _ _ \<longleftrightarrow> False"

definition same_vars :: "vars_map \<Rightarrow> vars_map \<Rightarrow> bool" where
  "same_vars vars vars' \<longleftrightarrow>
     (\<forall>k. rel_option same_value (map_of vars k) (map_of vars' k))"

section \<open>Reading the canonical text\<close>

lemma reads_number: "number_text t \<Longrightarrow> reads t (JNumber t)"
proof -
  assume t: "number_text t"
  then obtain x xs where x: "t = x # xs" "is_digit x \<or> x = CHR ''-''"
    unfolding number_text_def leading_digits_def using is_digit_zero
    by (metis append_Cons append_Nil list.collapse list.set_intros(1))
  have ne: "x \<noteq> quote_char" "x \<noteq> CHR ''{''" "x \<noteq> CHR ''[''" "x \<noteq> CHR ''t''" "x \<noteq> CHR ''f''"
    "x \<noteq> CHR ''n''" "\<not> json_space x" using x(2) digit_facts [of x] by auto
  show ?thesis unfolding reads_def
  proof (intro conjI allI impI)
    fix n d c rest
    assume "2 * length (t @ c # rest) + 2 \<le> n" and c: "c = CHR '','' \<or> c = CHR ''}''"
    then obtain m where n: "n = Suc m" by (cases n) auto
    show "json_value n d (t @ c # rest) = Some (JNumber t, c # rest)"
      using number_text_reads(2) [OF t, of "c # rest"] c ne
      unfolding n json_step x(1) by (auto simp: skip_ws_unspaced)
  qed (use x ne in auto)
qed

lemma reads_bool: "reads (if b then ''true'' else ''false'') (JBool b)"
  unfolding reads_def
proof (intro conjI allI impI)
  fix n d c rest
  assume "2 * length ((if b then ''true'' else ''false'') @ c # rest) + 2 \<le> n"
  then obtain m where n: "n = Suc m" by (cases n) auto
  show "json_value n d ((if b then ''true'' else ''false'') @ c # rest) = Some (JBool b, c # rest)"
    unfolding n json_step by (simp add: skip_ws_unspaced json_space_def)
qed (simp_all add: json_space_def)

text \<open>A value of an accepted request, its canonical text, and what that text reads as.\<close>

definition plain :: "json \<Rightarrow> bool" where
  "plain v \<longleftrightarrow> scanned (nat defaultMaxTemplateVarBytes) v
     \<and> (case v of JString _ \<Rightarrow> True | JBool _ \<Rightarrow> True | JNumber _ \<Rightarrow> True | _ \<Rightarrow> False)"

lemma number_exponent_text:
  assumes "number_exponent s = Some (e, [])"
  shows "exponent_text s"
proof (cases s)
  case Nil
  then show ?thesis by (simp add: exponent_text_def)
next
  case (Cons c t)
  define sg where "sg = (if t \<noteq> [] \<and> (hd t = CHR ''+'' \<or> hd t = CHR ''-'') then [hd t] else [])"
  define u where "u = (if t \<noteq> [] \<and> (hd t = CHR ''+'' \<or> hd t = CHR ''-'') then tl t else t)"
  have t: "t = sg @ u" by (auto simp: sg_def u_def)
  have "c = CHR ''e'' \<or> c = CHR ''E''" "takeWhile is_digit u \<noteq> []" "dropWhile is_digit u = []"
    using assms unfolding Cons number_exponent_def list.case u_def [symmetric] Let_def
    by (auto split: if_splits)
  moreover from this have "u = takeWhile is_digit u" by (metis append_Nil2 takeWhile_dropWhile_id)
  moreover have "sg = [] \<or> sg = ''+'' \<or> sg = ''-''" by (auto simp: sg_def)
  ultimately show ?thesis unfolding exponent_text_def Cons t by (metis set_takeWhileD)
qed

lemma number_parts_text:
  assumes "number_parts s \<noteq> None"
  shows "number_text s"
proof -
  obtain neg s1 i s2 f s3 e where p: "number_sign s = (neg, s1)" "number_integer s1 = Some (i, s2)"
    "number_fraction s2 = Some (f, s3)" "number_exponent s3 = Some (e, [])"
    using assms by (auto simp: number_parts_def split: prod.splits option.splits if_splits)
  have "s = (if neg then ''-'' else []) @ s1"
    using p(1) by (auto simp: number_sign_def split: list.splits if_splits)
  moreover have "s1 = i @ s2" "leading_digits i \<or> i = ''0''"
    using p(2) by (auto simp: number_integer_def leading_digits_def dest: set_takeWhileD split: list.splits if_splits)
  moreover have "s2 = (if f = [] then [] else CHR ''.'' # f) @ s3" "\<forall>x \<in> set f. is_digit x"
    using p(3) by (auto simp: number_fraction_def dest: set_takeWhileD split: list.splits if_splits)
  moreover have "exponent_text s3" by (rule number_exponent_text [OF p(4)])
  ultimately show ?thesis unfolding number_text_def
    by (intro exI [of _ "if neg then ''-'' else []"] exI [of _ i] exI [of _ f] exI [of _ s3]) simp
qed

lemma plain_number:
  assumes "plain (JNumber t)"
  shows "number_parts t \<noteq> None" "int (length t) \<le> defaultMaxTemplateVarBytes"
  using assms scan_number_text number_text_reads(1)
  by (fastforce simp: plain_def scanned_def defaultMaxTemplateVarBytes_def)+

lemma canonical_value:
  assumes "plain v"
  shows "\<exists>t w. writeCanonicalValue v = Inr t \<and> reads t w \<and> same_value v w"
proof (cases v)
  case (JString s)
  then have "json_repair s = s" using assms by (simp add: plain_def scanned_def json_repair_valid)
  then show ?thesis using JString reads_quote [of s] by auto
next
  case (JBool b)
  then show ?thesis using reads_bool [of b] by auto
next
  case (JNumber s)
  obtain t where "canonicalJSONNumber s = Inr t" "number_value t = number_value s" "number_parts t \<noteq> None"
    using canonicalJSONNumber_value plain_number assms JNumber by metis
  then show ?thesis using JNumber reads_number [OF number_parts_text, of t]
    by (intro exI [of _ t] exI [of _ "JNumber t"]) simp
qed (use assms in \<open>auto simp: plain_def\<close>)

lemma reads_unique:
  assumes "reads t v" "reads t w"
  shows "v = w"
proof -
  define n where "n = 2 * length (t @ ''}'') + 2"
  have r: "json_value n 0 (t @ ''}'') = Some (u, ''}'')" if "reads t u" for u
    using that unfolding reads_def n_def by blast
  have "Some (v, ''}'') = Some (w, ''}'')" by (rule trans [OF sym [OF r [OF assms(1)]] r [OF assms(2)]])
  then show ?thesis by simp
qed

lemma same_value_sym: "same_value v w \<Longrightarrow> same_value w v"
  by (induction v w rule: same_value.induct) auto

lemma same_value_trans: "same_value u v \<Longrightarrow> same_value v w \<Longrightarrow> same_value u w"
  by (cases "(u, v)" rule: same_value.cases; cases w; simp)

lemma canonical_value_same:
  assumes "plain v" "plain v'"
  shows "writeCanonicalValue v = writeCanonicalValue v' \<longleftrightarrow> same_value v v'"
proof
  assume eq: "writeCanonicalValue v = writeCanonicalValue v'"
  obtain t w where t: "writeCanonicalValue v = Inr t" "reads t w" "same_value v w"
    using canonical_value [OF assms(1)] by blast
  obtain t' w' where t': "writeCanonicalValue v' = Inr t'" "reads t' w'" "same_value v' w'"
    using canonical_value [OF assms(2)] by blast
  have "w = w'" using eq t t' reads_unique by auto
  then show "same_value v v'" using t(3) t'(3) same_value_sym same_value_trans by blast
next
  assume "same_value v v'"
  then show "writeCanonicalValue v = writeCanonicalValue v'"
  proof (cases "(v, v')" rule: same_value.cases)
    case (3 s t)
    then show ?thesis
      using \<open>same_value v v'\<close> assms plain_number [of s] plain_number [of t] canonicalJSONNumber_unique [of s t] by simp
  qed auto
qed

section \<open>The members in order\<close>

definition plain_vars :: "vars_map \<Rightarrow> bool" where
  "plain_vars vars \<longleftrightarrow> wf_alist vars \<and> (\<forall>(k, v) \<in> set vars. ValidString k \<and> plain v)"

definition canonical_text :: "json \<Rightarrow> string" where
  "canonical_text v = (case writeCanonicalValue v of Inr t \<Rightarrow> t | Inl _ \<Rightarrow> [])"

definition canonical_pairs :: "vars_map \<Rightarrow> (string \<times> string) list" where
  "canonical_pairs vars = map (\<lambda>k. (k, canonical_text (the (map_of vars k)))) (sort (keys_of vars))"

lemma plain_vars_lookup:
  assumes "plain_vars vars" "k \<in> set (keys_of vars)"
  shows "ValidString k" "plain (the (map_of vars k))" "map_of vars k \<noteq> None"
proof -
  obtain v where v: "map_of vars k = Some v" using assms(2) by (metis map_of_eq_None_iff option.exhaust set_map)
  then have "(k, v) \<in> set vars" by (rule map_of_SomeD)
  then show "ValidString k" "plain (the (map_of vars k))" "map_of vars k \<noteq> None"
    using assms(1) v by (auto simp: plain_vars_def)
qed

lemma canonical_members_plain:
  assumes "plain_vars vars" "set ks \<subseteq> set (keys_of vars)"
  shows "canonical_members vars ks = Inr (map (\<lambda>k. (k, canonical_text (the (map_of vars k)))) ks)"
  using assms(2)
proof (induction ks)
  case (Cons k ks)
  obtain t where "writeCanonicalValue (the (map_of vars k)) = Inr t"
    using canonical_value plain_vars_lookup(2) [OF assms(1)] Cons.prems by (metis insert_subset list.simps(15))
  then show ?case using Cons by (simp add: canonical_text_def)
qed simp

lemma writeCanonicalVars_plain:
  "plain_vars vars \<Longrightarrow> writeCanonicalVars vars = Inr (object_text (canonical_pairs vars))"
  using canonical_members_plain [of vars "sort (keys_of vars)"]
  by (simp add: writeCanonicalVars_def canonical_pairs_def)

text \<open>The text of the variables can be read back, whatever follows it.\<close>

lemma canonical_pairs_decode:
  assumes "plain_vars vars"
  shows "\<exists>ms. json_decode (object_text (canonical_pairs vars) @ rest) = Some (JObject ms, rest)
    \<and> map (\<lambda>(k, t, v). (k, t)) ms = canonical_pairs vars"
proof (cases "canonical_pairs vars = []")
  case True
  have "json_decode (''{}'' @ rest) = Some (JObject [], rest)"
    by (simp add: json_decode_def json_step eval_nat_numeral skip_ws_unspaced maxNestingDepth_def)
  then show ?thesis using True by (auto simp: object_text_def)
next
  case False
  define val where "val = (\<lambda>t. SOME w. reads t w)"
  define ms where "ms = map (\<lambda>(k, t). (k, t, val t)) (canonical_pairs vars)"
  have reads: "reads t (val t)" if "(k, t) \<in> set (canonical_pairs vars)" for k t
  proof -
    from that obtain v where v: "plain v" "t = canonical_text v"
      using plain_vars_lookup(2) [OF assms] by (auto simp: canonical_pairs_def)
    then obtain w where "reads t w" using canonical_value [of v] by (auto simp: canonical_text_def)
    then show ?thesis unfolding val_def by (rule someI)
  qed
  have keys: "json_repair k = k" if "(k, t) \<in> set (canonical_pairs vars)" for k t
    using that plain_vars_lookup(1) [OF assms] by (force simp: canonical_pairs_def json_repair_valid)
  have ms': "map (\<lambda>(k, t, v). (k, t)) ms = canonical_pairs vars"
    by (simp add: ms_def comp_def case_prod_beta)
  have "map (\<lambda>(k, t, v). (json_repair k, t, v)) ms = ms"
    using keys by (auto simp: ms_def comp_def case_prod_beta intro!: map_cong)
  moreover have "ms \<noteq> []" "\<forall>(k, t, v) \<in> set ms. reads t v" using False reads by (auto simp: ms_def)
  ultimately show ?thesis using json_object_roundtrip [of ms rest] ms' by auto
qed


lemma object_text_same:
  assumes "plain_vars vars" "plain_vars vars'"
  shows "object_text (canonical_pairs vars) @ rest = object_text (canonical_pairs vars') @ rest'
    \<longleftrightarrow> canonical_pairs vars = canonical_pairs vars' \<and> rest = rest'"
proof
  assume eq: "object_text (canonical_pairs vars) @ rest = object_text (canonical_pairs vars') @ rest'"
  obtain ms where ms: "json_decode (object_text (canonical_pairs vars) @ rest) = Some (JObject ms, rest)"
    "map (\<lambda>(k, t, v). (k, t)) ms = canonical_pairs vars"
    using canonical_pairs_decode [OF assms(1), of rest] by blast
  obtain ms' where ms': "json_decode (object_text (canonical_pairs vars') @ rest') = Some (JObject ms', rest')"
    "map (\<lambda>(k, t, v). (k, t)) ms' = canonical_pairs vars'"
    using canonical_pairs_decode [OF assms(2), of rest'] by blast
  have "Some (JObject ms, rest) = Some (JObject ms', rest')"
    using ms(1) ms'(1) eq by metis
  then show "canonical_pairs vars = canonical_pairs vars' \<and> rest = rest'" using ms(2) ms'(2) by simp
qed simp

lemma canonical_pairs_same:
  assumes "plain_vars vars" "plain_vars vars'"
  shows "canonical_pairs vars = canonical_pairs vars' \<longleftrightarrow> same_vars vars vars'"
proof -
  have text_same: "canonical_text v = canonical_text v' \<longleftrightarrow> same_value v v'" if plain: "plain v" "plain v'" for v v'
    using canonical_value [OF plain(1)] canonical_value [OF plain(2)] canonical_value_same [OF plain]
    by (auto simp: canonical_text_def)
  note lk = plain_vars_lookup [OF assms(1)] and lk' = plain_vars_lookup [OF assms(2)]
  show ?thesis
  proof
    assume eq: "canonical_pairs vars = canonical_pairs vars'"
    have "sort (keys_of vars) = map fst (canonical_pairs vars)" "sort (keys_of vars') = map fst (canonical_pairs vars')"
      by (simp_all add: canonical_pairs_def comp_def)
    then have "sort (keys_of vars) = sort (keys_of vars')" using eq by simp
    then have keys: "set (keys_of vars) = set (keys_of vars')" by (metis set_sort)
    have val: "canonical_text (the (map_of vars k)) = canonical_text (the (map_of vars' k))"
      if "k \<in> set (keys_of vars)" for k
    proof -
      have "k \<in> set (sort (keys_of vars'))" using that keys by simp
      then show ?thesis using eq \<open>sort (keys_of vars) = sort (keys_of vars')\<close>
        unfolding canonical_pairs_def by (metis (no_types, lifting) map_eq_conv prod.inject)
    qed
    show "same_vars vars vars'" unfolding same_vars_def
    proof
      fix k
      show "rel_option same_value (map_of vars k) (map_of vars' k)"
      proof (cases "k \<in> set (keys_of vars)")
        case True
        then have k': "k \<in> set (keys_of vars')" using keys by simp
        have "same_value (the (map_of vars k)) (the (map_of vars' k))"
          using text_same [OF lk(2) [OF True] lk'(2) [OF k']] val [OF True] by simp
        then show ?thesis using lk(3) [OF True] lk'(3) [OF k'] by auto
      next
        case False
        then have "map_of vars k = None" "map_of vars' k = None" using keys by (simp_all add: map_of_eq_None_iff)
        then show ?thesis by simp
      qed
    qed
  next
    assume same: "same_vars vars vars'"
    then have none: "map_of vars k = None \<longleftrightarrow> map_of vars' k = None" for k
      unfolding same_vars_def by (metis option.rel_distinct(1,2) option.exhaust)
    then have keys: "set (keys_of vars) = set (keys_of vars')"
      by (auto simp: map_of_eq_None_iff)
    have "distinct (keys_of vars)" "distinct (keys_of vars')"
      using assms by (auto simp: plain_vars_def wf_alist_def)
    then have "sort (keys_of vars) = sort (keys_of vars')" using keys
      by (intro sorted_distinct_set_unique) auto
    moreover have "canonical_text (the (map_of vars k)) = canonical_text (the (map_of vars' k))"
      if "k \<in> set (keys_of vars)" for k
    proof -
      have k': "k \<in> set (keys_of vars')" using that keys by simp
      have "same_value (the (map_of vars k)) (the (map_of vars' k))"
        using same lk(3) [OF that] lk'(3) [OF k'] unfolding same_vars_def
        by (metis option.rel_sel)
      then show ?thesis using text_same [OF lk(2) [OF that] lk'(2) [OF k']] by simp
    qed
    ultimately show "canonical_pairs vars = canonical_pairs vars'"
      using keys unfolding canonical_pairs_def by (auto intro!: map_cong)
  qed
qed

text \<open>A quoted string is read back with what follows it.\<close>

lemma json_quote_same:
  assumes "json_quote s @ u = json_quote s' @ u'" "ValidString s" "ValidString s'"
  shows "s = s' \<and> u = u'"
proof -
  have eq: "json_body s @ quote_char # u = json_body s' @ quote_char # u'"
    using assms(1) by (simp add: json_quote_def)
  have "Some (s, u) = Some (s', u')"
    using json_string_body [of s u] json_string_body [of s' u'] json_repair_valid assms(2,3) eq by metis
  then show ?thesis by simp
qed

lemma canonicalRequestJSON_same:
  assumes "plain_vars vars" "plain_vars vars'" "ValidString to" "ValidString to'" "ValidString loc" "ValidString loc'"
  shows "\<exists>c c'. canonicalRequestJSON to loc vars = Inr c \<and> canonicalRequestJSON to' loc' vars' = Inr c'
    \<and> (c = c' \<longleftrightarrow> to = to' \<and> loc = loc' \<and> same_vars vars vars')"
proof -
  let ?rest = "\<lambda>vars. object_text (canonical_pairs vars) @ ''}''"
  let ?to = "\<lambda>to vars. json_quote to @ '','' @ [quote_char] @ ''vars'' @ [quote_char] @ '':'' @ ?rest vars"
  let ?loc = "\<lambda>loc to vars. json_quote loc @ '','' @ [quote_char] @ ''to'' @ [quote_char] @ '':'' @ ?to to vars"
  let ?c = "\<lambda>loc to vars. ''{'' @ [quote_char] @ ''locale'' @ [quote_char] @ '':'' @ ?loc loc to vars"
  have c: "canonicalRequestJSON to loc vars = Inr (?c loc to vars)"
    "canonicalRequestJSON to' loc' vars' = Inr (?c loc' to' vars')"
    by (simp_all add: canonicalRequestJSON_def writeCanonicalVars_plain assms(1,2))
  have "to = to' \<and> loc = loc' \<and> same_vars vars vars'" if "?c loc to vars = ?c loc' to' vars'"
  proof -
    have l: "?loc loc to vars = ?loc loc' to' vars'" using that by simp
    then have "loc = loc'" "?to to vars = ?to to' vars'" using json_quote_same [OF l assms(5,6)] by auto
    moreover have "to = to'" "?rest vars = ?rest vars'"
      using json_quote_same [OF calculation(2) assms(3,4)] by auto
    ultimately show ?thesis using object_text_same [OF assms(1,2)] canonical_pairs_same [OF assms(1,2)] by blast
  qed
  moreover have "?c loc to vars = ?c loc' to' vars'" if "to = to'" "loc = loc'" "same_vars vars vars'"
    using that canonical_pairs_same [OF assms(1,2)] by simp
  ultimately show ?thesis using c by blast
qed


section \<open>Accepted requests\<close>

lemma any_object_members: "(k, v) \<in> set (any_object ms) \<Longrightarrow> \<exists>t. (k, t, v) \<in> set ms"
proof -
  have "(k, v) \<in> set (foldl (\<lambda>m (k, t, v). AList.update k v m) m0 ms) \<Longrightarrow>
      (k, v) \<in> set m0 \<or> (\<exists>t. (k, t, v) \<in> set ms)" for m0
  proof (induction ms arbitrary: m0)
    case (Cons m ms)
    obtain k' t' v' where m: "m = (k', t', v')" by (cases m)
    have "(k, v) \<in> set (AList.update k' v' m0) \<Longrightarrow> (k, v) \<in> set m0 \<or> (k = k' \<and> v = v')"
      by (induction m0) (auto split: if_splits)
    then show ?case using Cons.IH [of "AList.update k' v' m0"] Cons.prems by (auto simp: m)
  qed simp
  then show "(k, v) \<in> set (any_object ms) \<Longrightarrow> \<exists>t. (k, t, v) \<in> set ms" by (fastforce simp: any_object_def)
qed

lemma validateVarsField_plain:
  assumes "validateVarsField raw n = Inr vars" "n \<le> defaultMaxTemplateVarBytes"
  shows "plain_vars vars"
proof (cases "raw = []")
  case True
  then show ?thesis using assms(1) by (simp add: validateVarsField_def plain_vars_def)
next
  case False
  then have len: "int (length raw) \<le> n" and d: "decodeObject raw = Some vars"
    using assms(1) by (auto simp: validateVarsField_def split: if_splits option.splits)
  obtain ms rest where ms: "json_decode raw = Some (JObject ms, rest)" "vars = any_object ms"
    using d by (auto simp: decodeObject_def split: option.splits prod.splits json.splits if_splits)
  have f: "flat_vars vars" using assms(1) by (rule validateVarsField_Inr)
  have "ValidString k \<and> plain v" if mem: "(k, v) \<in> set vars" for k v
  proof -
    obtain t where "(k, t, v) \<in> set ms" using mem ms(2) any_object_members by blast
    from json_decode_scanned [OF ms(1) this] have "ValidString k" "scanned (length raw) v" by auto
    moreover have "validateFlatJSONValue v maxTemplateVarStringBytes" using f mem by (auto simp: flat_vars_def)
    moreover have "length raw \<le> nat defaultMaxTemplateVarBytes" using len assms(2) by simp
    ultimately show ?thesis using scanned_mono by (cases v) (auto simp: plain_def)
  qed
  then show ?thesis using decodeObject_wf [OF d] by (auto simp: plain_vars_def)
qed

lemma accepted_request_plain:
  assumes "ValidateSendRequest inp options = Inr r"
    and "opt_MaxTemplateVarBytes (applySendRequestValidationDefaults options) \<le> defaultMaxTemplateVarBytes"
  shows "plain_vars (sr_Vars r)" "ValidString (sr_NormalizedToEmail r)"
proof -
  obtain raw t where "validateVarsField t (opt_MaxTemplateVarBytes (applySendRequestValidationDefaults options))
        = Inr (sr_Vars r)" "validateRecipientField raw = Inr (sr_To r, sr_NormalizedToEmail r)"
    using assms(1) by (auto simp: ValidateSendRequest_def Let_def split: if_splits prod.splits)
  then show "plain_vars (sr_Vars r)" "ValidString (sr_NormalizedToEmail r)"
    using validateVarsField_plain [OF _ assms(2)] NormalizeAddrSpecEmail_facts(3) [OF validateRecipientField_Inr]
    by (auto simp: isVisibleASCIIWithoutWhitespace_def)
qed

text \<open>Beyond the limit the text is not canonical: a whole number of more than 8192 digits keeps its zeros.\<close>

lemma long_numbers_differ:
  "canonicalJSONNumber (''1'' @ replicate 9000 CHR ''0'') \<noteq> canonicalJSONNumber ''1e9000''"
proof -
  let ?d = "''1'' @ replicate 9000 CHR ''0''"
  have "leading_digits ?d" by (auto simp: leading_digits_def char_between_def)
  then have "number_parts ?d = Some (False, ?d, [], 0)"
    using number_parts_written [of ?d "[]" "[]" 0 False] by simp
  moreover have "dropWhile ((=) CHR ''0'') ?d = ?d" by simp
  moreover have "strip_fraction_zeros ?d 0 = (?d, 0)" by (simp add: strip_fraction_zeros.simps)
  ultimately have "canonicalJSONNumber ?d = Inr ?d" by (simp add: canonicalJSONNumber_def number_body_def)
  moreover have "canonicalJSONNumber ''1e9000'' = Inr ''1e9000''" by code_simp
  moreover have "length ?d \<noteq> length ''1e9000''" by simp
  ultimately show ?thesis by (metis sum.inject(2))
qed

section \<open>Properties\<close>

text \<open>
  C38. The fingerprint tells requests apart by what they ask for: the canonical texts of two accepted
  requests are equal exactly when the recipient, the locale and the variables are the same, where
  variables are compared by name in any order and numbers by their value, however written; the
  fingerprint is the SHA-256 of that text. This holds for the default limit on the variables; beyond
  8192 bytes two spellings of one number may differ.
\<close>

theorem fingerprint_identity:
  assumes "ValidateSendRequest inp options = Inr r" "ValidateSendRequest inp' options = Inr r'"
    and "opt_MaxTemplateVarBytes (applySendRequestValidationDefaults options) \<le> 8192"
    and "ValidString loc" "ValidString loc'"
  shows "\<exists>c c'.
      canonicalRequestJSON (sr_NormalizedToEmail r) loc (sr_Vars r) = Inr c
    \<and> canonicalRequestJSON (sr_NormalizedToEmail r') loc' (sr_Vars r') = Inr c'
    \<and> RequestFingerprint (sr_NormalizedToEmail r) loc (sr_Vars r) = Inr (sha256Hex c)
    \<and> RequestFingerprint (sr_NormalizedToEmail r') loc' (sr_Vars r') = Inr (sha256Hex c')
    \<and> (c = c' \<longleftrightarrow> sr_NormalizedToEmail r = sr_NormalizedToEmail r' \<and> loc = loc'
         \<and> same_vars (sr_Vars r) (sr_Vars r'))"
proof -
  have "opt_MaxTemplateVarBytes (applySendRequestValidationDefaults options) \<le> defaultMaxTemplateVarBytes"
    using assms(3) by (simp add: defaultMaxTemplateVarBytes_def)
  then show ?thesis
    using canonicalRequestJSON_same [OF accepted_request_plain(1) [OF assms(1)] accepted_request_plain(1) [OF assms(2)]
        accepted_request_plain(2) [OF assms(1)] accepted_request_plain(2) [OF assms(2)] assms(4,5)]
    by (auto simp: RequestFingerprint_def)
qed

text \<open>Two bodies of one request: another order of the members, white space, another spelling of 1.5.\<close>

definition sample_options :: SendRequestValidationOptions where
  "sample_options = \<lparr>opt_MaxRequestBodyBytes = 0, opt_MaxTemplateVarBytes = 0, opt_MaxContextBytes = 0\<rparr>"

definition sample_input :: "string \<Rightarrow> string \<Rightarrow> SendRequestValidationInput" where
  "sample_input a b =
     \<lparr>in_ContentType = ''application/json'', in_IdempotencyKey = ''k1'',
      in_Body = object_text [(''scene'', json_quote ''login''), (''to'', json_quote ''a@x.co''),
        (''vars'', object_text [(a, ''1.5''), (b, ''15e-1'')])],
      in_AllowedLocales = []\<rparr>"

lemma fingerprint_identity_witness:
  "\<exists>c. canonicalRequestJSON ''a@x.co'' ''en-US'' [(''m'', JNumber ''1.5''), (''n'', JNumber ''15e-1'')] = Inr c
     \<and> canonicalRequestJSON ''a@x.co'' ''en-US'' [(''n'', JNumber ''1.5''), (''m'', JNumber ''15e-1'')] = Inr c"
proof -
  have r: "\<exists>r. ValidateSendRequest (sample_input a b) sample_options = Inr r
      \<and> sr_NormalizedToEmail r = ''a@x.co'' \<and> sr_Vars r = [(a, JNumber ''1.5''), (b, JNumber ''15e-1'')]"
    if "(a, b) = (''m'', ''n'') \<or> (a, b) = (''n'', ''m'')" for a b
  proof -
    have "(case ValidateSendRequest (sample_input a b) sample_options of Inl _ \<Rightarrow> False | Inr r \<Rightarrow>
        sr_NormalizedToEmail r = ''a@x.co'' \<and> sr_Vars r = [(a, JNumber ''1.5''), (b, JNumber ''15e-1'')])"
      using that by (elim disjE; simp only: prod.inject; elim conjE; hypsubst; code_simp)
    then show ?thesis by (auto split: sum.splits)
  qed
  obtain r where r1: "ValidateSendRequest (sample_input ''m'' ''n'') sample_options = Inr r"
    "sr_NormalizedToEmail r = ''a@x.co''" "sr_Vars r = [(''m'', JNumber ''1.5''), (''n'', JNumber ''15e-1'')]"
    using r [of "''m''" "''n''"] by auto
  obtain r' where r2: "ValidateSendRequest (sample_input ''n'' ''m'') sample_options = Inr r'"
    "sr_NormalizedToEmail r' = ''a@x.co''" "sr_Vars r' = [(''n'', JNumber ''1.5''), (''m'', JNumber ''15e-1'')]"
    using r [of "''n''" "''m''"] by auto
  have lim: "opt_MaxTemplateVarBytes (applySendRequestValidationDefaults sample_options) \<le> 8192" by code_simp
  have v: "ValidString ''en-US''" by code_simp
  have "number_value ''1.5'' = number_value ''15e-1''" by code_simp
  then have "same_vars [(''m'', JNumber ''1.5''), (''n'', JNumber ''15e-1'')] [(''n'', JNumber ''1.5''), (''m'', JNumber ''15e-1'')]"
    by (simp add: same_vars_def)
  then show ?thesis using fingerprint_identity [OF r1(1) r2(1) lim v v] r1(2,3) r2(2,3) by auto
qed

end
