(* ===== verification/Send.thy ===== *)
theory Send
  imports Runtime CallerIP FingerprintKey
begin

text \<open>
  \<open>POST /v1/send\<close>: \<open>internal/api/send.go\<close>. The handler checks the request, reserves its idempotency
  key, a slot of the queue and the counters of the rate limits, writes the message to the log and
  commits; the deferred functions of the code, which give back what was reserved when a later step
  fails, are written out at each return, the last deferred first. The state is the \<open>Runtime\<close> of
  \<open>runtime.go\<close> with the files of its logs. One request runs from start to end, but the shutdown may
  close the queue while the message is written.
\<close>

section \<open>The world\<close>

record send_world =
  sd_runtime :: Runtime
  sd_disk :: log_disk
  sd_stats :: log_files

text \<open>
  What a request meets outside: the template engines, the random bytes of the message id, the clock at
  each reading, the outcome of the appends, and whether the queue is closed before the commit.
\<close>

record send_env =
  sv_text :: template_engine
  sv_html :: template_engine
  sv_draws :: "nat \<Rightarrow> nat result"
  sv_reserve_time :: go_time
  sv_allow_time :: go_time
  sv_message_time :: go_time
  sv_commit_time :: go_time
  sv_failed_time :: go_time
  sv_complete_time :: go_time
  sv_stats_time :: go_time
  sv_append :: append_env
  sv_failed_append :: append_env
  sv_stats_append :: append_env
  sv_stats_line :: "go_time \<Rightarrow> StatsRecord \<Rightarrow> string"
  sv_shutdown :: bool

record sendResponse =
  sresp_RequestID :: string
  sresp_MessageID :: string
  sresp_Status :: MessageStatus

section \<open>The request\<close>

definition validateSendContentType :: "string \<Rightarrow> unit result" where
  "validateSendContentType contentType =
     (let refused = Inl (RequestValidationError ErrorCodeUnsupportedMediaType
                           ''content type must be application/json'')
      in if TrimSpace contentType = [] then refused
         else case ParseMediaType contentType of
                None \<Rightarrow> refused
              | Some mediaType \<Rightarrow> if \<not> EqualFold mediaType ''application/json'' then refused else Inr ())"

text \<open>
  \<open>decoder.Decode(&raw)\<close> into a map takes an object or \<open>null\<close>; the second \<open>Decode\<close> has to meet the end.
\<close>

definition decodeSendJSONObject :: "string \<Rightarrow> raw_map result" where
  "decodeSendJSONObject body =
     (case json_decode body of
        None \<Rightarrow> Inl (RequestValidationError ErrorCodeInvalidJSON ''request body must be a JSON object'')
      | Some (v, rest) \<Rightarrow>
          if \<not> (case v of JObject _ \<Rightarrow> True | JNull \<Rightarrow> True | _ \<Rightarrow> False) then
            Inl (RequestValidationError ErrorCodeInvalidJSON ''request body must be a JSON object'')
          else if skip_ws rest \<noteq> [] then
            Inl (RequestValidationError ErrorCodeInvalidJSON ''request body must contain a single JSON object'')
          else (case v of
                  JObject ms \<Rightarrow> Inr (raw_object ms)
                | _ \<Rightarrow> Inl (RequestValidationError ErrorCodeInvalidJSON ''request body must be a JSON object'')))"

definition extractSceneCode :: "raw_map \<Rightarrow> string result" where
  "extractSceneCode raw =
     (case map_of raw ''scene'' of
        None \<Rightarrow> Inl (RequestValidationError ErrorCodeInvalidJSON ''scene is required'')
      | Some v \<Rightarrow>
          (case unmarshal_string v of
             None \<Rightarrow> Inl (RequestValidationError ErrorCodeInvalidJSON ''scene must be a string'')
           | Some scene \<Rightarrow>
               if scene = [] then Inl (RequestValidationError ErrorCodeInvalidJSON ''scene is required'')
               else if \<not> isValidIdentifierFilter scene then
                 Inl (RequestValidationError ErrorCodeInvalidJSON ''scene is invalid'')
               else Inr scene))"

fun find_scene :: "Scene list \<Rightarrow> string \<Rightarrow> Scene result" where
  "find_scene [] code = Inl (APIError ErrorCodeSceneNotFound ''scene not found'')"
| "find_scene (scene # scenes) code =
     (if scene_Code scene \<noteq> code then find_scene scenes code
      else if \<not> scene_Enabled scene then Inl (APIError ErrorCodeSceneDisabled ''scene disabled'')
      else Inr scene)"

definition findSceneByCode :: "App \<Rightarrow> string \<Rightarrow> Scene result" where
  "findSceneByCode app code = find_scene (app_Scenes app) code"

text \<open>What the first part of \<open>processSend\<close>, which changes nothing, hands to the second.\<close>

record checked_request =
  cr_auth :: AuthContext
  cr_scene :: Scene
  cr_request :: Request.SendRequest
  cr_rendered :: RenderedMail
  cr_fingerprint :: string
  cr_hash :: string

definition check_send :: "send_env \<Rightarrow> Runtime \<Rightarrow> http_request \<Rightarrow> checked_request result" where
  "check_send env rt rq =
     and_then (AuthenticateHeader (run_auth rt) (hr_Header rq ''Authorization'')) (\<lambda>auth.
     and_then (validateSendContentType (hr_Header rq ''Content-Type'')) (\<lambda>_.
     and_then (read_body (defaults_MaxRequestBodyBytes (run_defaults rt)) rq) (\<lambda>body.
     and_then (decodeSendJSONObject body) (\<lambda>raw.
     and_then (extractSceneCode raw) (\<lambda>sceneCode.
     and_then (findSceneByCode (auth_App auth) sceneCode) (\<lambda>scene.
     and_then (ValidateSendRequest
         \<lparr>in_ContentType = hr_Header rq ''Content-Type'', in_IdempotencyKey = hr_Header rq ''Idempotency-Key'',
          in_Body = body, in_AllowedLocales = app_AllowedLocales (auth_App auth)\<rparr>
         \<lparr>opt_MaxRequestBodyBytes = defaults_MaxRequestBodyBytes (run_defaults rt),
          opt_MaxTemplateVarBytes = defaults_MaxTemplateVarBytes (run_defaults rt),
          opt_MaxContextBytes = defaults_MaxContextBytes (run_defaults rt)\<rparr>) (\<lambda>request.
     and_then (Render (sv_text env) (sv_html env) (auth_App auth) scene request) (\<lambda>rendered.
     and_then (wrapped ''build request fingerprint''
         (RequestFingerprint (sr_NormalizedToEmail request) (RenderedMail.rm_Locale rendered) (sr_Vars request)))
       (\<lambda>fingerprint.
       Inr \<lparr>cr_auth = auth, cr_scene = scene, cr_request = request, cr_rendered = rendered,
            cr_fingerprint = fingerprint,
            cr_hash = IdempotencyHash (app_Code (auth_App auth)) (scene_Code scene)
              (sr_IdempotencyKey request)\<rparr>)))))))))"

section \<open>The deferred functions and the statistics\<close>

abbreviation set_idem :: "IdempotencyCache \<Rightarrow> send_world \<Rightarrow> send_world" where
  "set_idem c w \<equiv> w\<lparr>sd_runtime := (sd_runtime w)\<lparr>run_idempotent := c\<rparr>\<rparr>"

abbreviation set_queue :: "MemoryQueue \<Rightarrow> send_world \<Rightarrow> send_world" where
  "set_queue q w \<equiv> w\<lparr>sd_runtime := (sd_runtime w)\<lparr>run_queue := q\<rparr>\<rparr>"

abbreviation set_rates :: "counters \<Rightarrow> send_world \<Rightarrow> send_world" where
  "set_rates m w \<equiv> w\<lparr>sd_runtime := (sd_runtime w)\<lparr>run_rateLimit := m\<rparr>\<rparr>"

definition release_idempotency :: "IdempotencyReservation option \<Rightarrow> send_world \<Rightarrow> send_world" where
  "release_idempotency r w = set_idem (snd (Idempotency.Release r (run_idempotent (sd_runtime w)))) w"

definition release_queue :: "QueueReservation option \<Rightarrow> send_world \<Rightarrow> send_world" where
  "release_queue r w = set_queue (snd (MemoryQueue.Release r (run_queue (sd_runtime w)))) w"

definition rollback_rates :: "RateLimitDecision \<Rightarrow> send_world \<Rightarrow> send_world" where
  "rollback_rates d w = set_rates (Rollback d (run_rateLimit (sd_runtime w))) w"

definition record_metric :: "send_env \<Rightarrow> checked_request \<Rightarrow> string \<Rightarrow> send_world \<Rightarrow> send_world" where
  "record_metric env cr metric w =
     (case Record_stats (sv_stats_append env) (sv_stats_line env) (sv_stats_time env)
             \<lparr>st_Timestamp = zero_time, st_AppCode = app_Code (auth_App (cr_auth cr)),
              st_SceneCode = scene_Code (cr_scene cr), st_ProviderChannelCode = [],
              st_Transport = NoTransport, st_Metric = metric, st_Value = float64_of_int 1\<rparr>
             (run_stats (sd_runtime w)) (sd_stats w) of
        (_, sink, fs) \<Rightarrow> w\<lparr>sd_runtime := (sd_runtime w)\<lparr>run_stats := sink\<rparr>, sd_stats := fs\<rparr>)"

section \<open>The transaction\<close>

definition append_message ::
    "append_env \<Rightarrow> go_time \<Rightarrow> Message \<Rightarrow> send_world \<Rightarrow> unit result \<times> send_world" where
  "append_message aenv now message w =
     (case AppendMessage aenv json_quote (format_time now) message (run_messageLog (sd_runtime w)) (sd_disk w) of
        (r, l, disk) \<Rightarrow> (r, w\<lparr>sd_runtime := (sd_runtime w)\<lparr>run_messageLog := l\<rparr>, sd_disk := disk\<rparr>))"

definition commitInitialQueueTask ::
    "send_env \<Rightarrow> QueueReservation option \<Rightarrow> Message \<Rightarrow> send_world
     \<Rightarrow> unit result \<times> QueueReservation option \<times> send_world" where
  "commitInitialQueueTask env reservation message w =
     (case Commit (sv_commit_time env) \<lparr>task_Message = message, task_AttemptNo = 1, task_AvailableAt = zero_time\<rparr>
             reservation (run_queue (sd_runtime w)) of
        (Inr _, r, q) \<Rightarrow> (Inr (), r, set_queue q w)
      | (Inl e, r, q) \<Rightarrow>
          let failed = message\<lparr>msg_Status := MessageStatusFailed, msg_ErrorCode := ErrorCodeInternal,
                msg_ErrorMessage := ''queue commit failed''\<rparr>
          in (case append_message (sv_failed_append env) (sv_failed_time env) failed (set_queue q w) of
                (Inl _, w') \<Rightarrow> (Inl (Wrapf ''commit queued message'' e), r, w')
              | (Inr _, w') \<Rightarrow> (Inl e, r, w')))"

definition send_message ::
    "string \<Rightarrow> checked_request \<Rightarrow> RouteSelection \<Rightarrow> string \<Rightarrow> string \<Rightarrow> Message" where
  "send_message requestID cr selection callerIP messageID =
     (let app = auth_App (cr_auth cr); request = cr_request cr; rendered = cr_rendered cr
      in zero_Message\<lparr>msg_RequestID := requestID, msg_BusinessRequestID := sr_BusinessRequestID request,
        msg_MessageID := messageID, msg_AppCode := app_Code app,
        msg_APIKeyName := key_Name (auth_APIKey (cr_auth cr)), msg_SceneCode := scene_Code (cr_scene cr),
        msg_ToEmail := sr_To request, msg_NormalizedToEmail := sr_NormalizedToEmail request,
        msg_ToDomain := RecipientDomain_of selection,
        msg_ToHash := ToHash (app_Code app) (sr_NormalizedToEmail request),
        msg_Locale := RenderedMail.rm_Locale rendered, msg_Subject := RenderedMail.rm_Subject rendered,
        msg_HTMLBody := RenderedMail.rm_HTMLBody rendered, msg_TextBody := RenderedMail.rm_TextBody rendered,
        msg_ProviderChannels := Channels selection, msg_Status := MessageStatusQueued,
        msg_IdempotencyHash := cr_hash cr, msg_RequestFingerprint := cr_fingerprint cr,
        msg_CallerIP := callerIP, msg_UserIP := sr_UserIP request,
        msg_UserIDHash := UserIDHash (app_Code app) (sr_UserID request)\<rparr>)"

text \<open>After the three reservations: the message id, the log, the commit, and the idempotency entry.\<close>

definition shut_down :: "send_env \<Rightarrow> send_world \<Rightarrow> send_world" where
  "shut_down env w = (if sv_shutdown env then set_queue (Close (run_queue (sd_runtime w))) w else w)"

definition commit_send ::
    "send_env \<Rightarrow> string \<Rightarrow> checked_request \<Rightarrow> RouteSelection \<Rightarrow> string \<Rightarrow> RateLimitDecision
     \<Rightarrow> QueueReservation option \<Rightarrow> IdempotencyReservation option \<Rightarrow> send_world
     \<Rightarrow> sendResponse result \<times> send_world" where
  "commit_send env requestID cr selection callerIP decision qr ir w =
     (let undo = (\<lambda>qr. release_idempotency ir \<circ> release_queue qr \<circ> rollback_rates decision)
      in case wrapped ''generate message id'' (NewMessageID (sv_draws env)) of
           Inl e \<Rightarrow> (Inl e, undo qr w)
         | Inr messageID \<Rightarrow>
             let message = send_message requestID cr selection callerIP messageID
             in (case append_message (sv_append env) (sv_message_time env) message w of
                   (Inl e, w1) \<Rightarrow> (Inl (Wrapf ''append queued message'' e), undo qr w1)
                 | (Inr _, w1) \<Rightarrow>
                     (case commitInitialQueueTask env qr message (shut_down env w1) of
                        (Inl e, qr', w2) \<Rightarrow> (Inl e, undo qr' w2)
                      | (Inr _, _, w2) \<Rightarrow>
                          (case CompleteQueued (sv_complete_time env) messageID ir (run_idempotent (sd_runtime w2)) of
                             (Inl e, ir', c) \<Rightarrow> (Inl e, release_idempotency ir' (set_idem c w2))
                           | (Inr _, _, c) \<Rightarrow>
                               (Inr \<lparr>sresp_RequestID = requestID, sresp_MessageID = messageID,
                                     sresp_Status = MessageStatusQueued\<rparr>,
                                record_metric env cr MetricMessagesQueued (set_idem c w2))))))"

text \<open>With the idempotency key reserved: the suppression list, the route, the queue slot and the limits.\<close>

definition reserved_send ::
    "send_env \<Rightarrow> string \<Rightarrow> http_request \<Rightarrow> checked_request \<Rightarrow> IdempotencyReservation option \<Rightarrow> send_world
     \<Rightarrow> sendResponse result \<times> send_world" where
  "reserved_send env requestID rq cr ir w =
     (let rt = sd_runtime w; app = auth_App (cr_auth cr); request = cr_request cr
      in case Contains_suppressed (app_Code app) (sr_NormalizedToEmail request) (Some (run_suppressed rt)) of
           Some entry \<Rightarrow>
             (Inl (RequestValidationError ErrorCodeSuppressedRecipient
                (''recipient is suppressed: '' @ text_of_SuppressionReason (sup_Reason entry))),
              release_idempotency ir w)
         | None \<Rightarrow>
             (case SelectRoute (cr_scene cr) (sr_NormalizedToEmail request)
                     (defaults_MaxAttemptsPerMessage (run_defaults rt)) of
                Inl e \<Rightarrow> (Inl e, release_idempotency ir w)
              | Inr selection \<Rightarrow>
                  let callerIP = resolve_caller (run_callerIP rt) (hr_RemoteAddr rq)
                        (hr_Header rq ''X-Forwarded-For'') (hr_Header rq ''X-Real-IP'')
                  in (case MemoryQueue.Reserve (run_queue rt) of
                        (Inl e, q) \<Rightarrow>
                          let w1 = set_queue q w;
                              w2 = (case root_error e of
                                      QueueFullError _ \<Rightarrow> record_metric env cr MetricRequestsQueueFull w1
                                    | _ \<Rightarrow> w1)
                          in (Inl e, release_idempotency ir w2)
                      | (Inr qr, q) \<Rightarrow>
                          (case Allow (sv_allow_time env)
                                  \<lparr>rl_AppCode = app_Code app, rl_SceneCode = scene_Code (cr_scene cr),
                                   rl_NormalizedToEmail = sr_NormalizedToEmail request,
                                   rl_UserIP = sr_UserIP request, rl_CallerIP = callerIP,
                                   rl_Policy = scene_RateLimit (cr_scene cr)\<rparr> (run_rateLimit rt) of
                             (_, Some e, m) \<Rightarrow>
                               (Inl e, release_idempotency ir (release_queue (Some qr)
                                  (record_metric env cr MetricRequestsRateLimited (set_rates m (set_queue q w)))))
                           | (decision, None, m) \<Rightarrow>
                               commit_send env requestID cr selection callerIP decision (Some qr) ir
                                 (set_rates m (set_queue q w))))))"

definition processSend ::
    "send_env \<Rightarrow> http_request \<Rightarrow> string \<Rightarrow> send_world \<Rightarrow> sendResponse result \<times> send_world" where
  "processSend env rq requestID w =
     (case check_send env (sd_runtime w) rq of
        Inl e \<Rightarrow> (Inl e, w)
      | Inr cr \<Rightarrow>
          (case Idempotency.Reserve (sv_reserve_time env) (app_Code (auth_App (cr_auth cr)))
                  (scene_Code (cr_scene cr)) (cr_hash cr) (cr_fingerprint cr) (run_idempotent (sd_runtime w)) of
             (Inl e, c) \<Rightarrow> (Inl e, set_idem c w)
           | (Inr (ir, decision), c) \<Rightarrow>
               if idec_State decision = IdempotencyDecisionReplay then
                 (Inr \<lparr>sresp_RequestID = requestID, sresp_MessageID = idec_MessageID decision,
                       sresp_Status = MessageStatusQueued\<rparr>,
                  record_metric env cr MetricRequestsIdempotentReplay (set_idem c w))
               else reserved_send env requestID rq cr ir (set_idem c w)))"

text \<open>\<open>handleSend\<close>: the method, the request id, and the answer.\<close>

datatype send_answer = Not_found | Failed_answer nat errorPayload | Accepted_answer sendResponse

definition handleSend ::
    "send_env \<Rightarrow> (nat \<Rightarrow> nat result) \<Rightarrow> string \<Rightarrow> http_request \<Rightarrow> send_world \<Rightarrow> send_answer \<times> send_world" where
  "handleSend env draws http_method rq w =
     (case wrapped ''generate request id'' (NewRequestID draws) of
        Inl e \<Rightarrow> (case writeAPIError [] e of (status, payload) \<Rightarrow> (Failed_answer status payload, w))
      | Inr requestID \<Rightarrow>
          if http_method \<noteq> ''POST'' then (Not_found, w)
          else case processSend env rq requestID w of
                 (Inl e, w') \<Rightarrow>
                   (case writeAPIError requestID e of (status, payload) \<Rightarrow> (Failed_answer status payload, w'))
               | (Inr response, w') \<Rightarrow> (Accepted_answer response, w'))"

section \<open>Reservations\<close>

text \<open>
  What the three reservations of a request share: an attempt is refused or granted, and what is granted
  can be given back; either way the state holds afterwards what it held before.
\<close>

locale reservable =
  fixes ok :: "'s \<Rightarrow> bool"
    and keeps :: "'s \<Rightarrow> 's \<Rightarrow> bool"
    and acquire :: "'s \<Rightarrow> 'r option \<times> 's"
    and give_back :: "'r \<Rightarrow> 's \<Rightarrow> 's"
  assumes keeps_refl: "keeps s s"
    and keeps_trans: "keeps s t \<Longrightarrow> keeps t u \<Longrightarrow> keeps s u"
    and refused: "ok s \<Longrightarrow> acquire s = (None, s') \<Longrightarrow> keeps s s' \<and> ok s'"
    and granted: "ok s \<Longrightarrow> acquire s = (Some r, s') \<Longrightarrow> ok s'"
    and given_back: "ok s \<Longrightarrow> acquire s = (Some r, s') \<Longrightarrow> keeps s (give_back r s') \<and> ok (give_back r s')"
begin

text \<open>Any number of requests that fail leave nothing behind.\<close>

lemma failed_attempts:
  assumes "\<And>s. attempt s = (case acquire s of (None, s') \<Rightarrow> s' | (Some r, s') \<Rightarrow> give_back r s')"
  shows "ok s \<Longrightarrow> keeps s ((attempt ^^ n) s) \<and> ok ((attempt ^^ n) s)"
proof (induction n)
  case (Suc n)
  let ?s = "(attempt ^^ n) s"
  have s: "ok ?s" "keeps s ?s" using Suc by auto
  obtain r s' where a: "acquire ?s = (r, s')" by fastforce
  have "keeps ?s (attempt ?s) \<and> ok (attempt ?s)"
    using refused [OF s(1)] given_back [OF s(1)] a by (cases r) (simp_all add: assms)
  then show ?case using s(2) keeps_trans by auto
qed (simp add: keeps_refl)

end

text \<open>A slot of the queue: the queue is exactly as before.\<close>

definition slot_acquire :: "MemoryQueue \<Rightarrow> QueueReservation option \<times> MemoryQueue" where
  "slot_acquire q =
     (case MemoryQueue.Reserve q of (Inl _, q') \<Rightarrow> (None, q') | (Inr r, q') \<Rightarrow> (Some r, q'))"

lemma Reserve_Release:
  assumes "0 \<le> q_pending q" "MemoryQueue.Reserve q = (Inr r, q')"
  shows "MemoryQueue.Release (Some r) q' = (Some (r\<lparr>res_used := True\<rparr>), q)" "0 \<le> q_pending q'"
  using assms by (auto simp: MemoryQueue.Reserve_def MemoryQueue.Release_def drop_slot_def split: if_splits)

lemma Reserve_refused: "MemoryQueue.Reserve q = (Inl e, q') \<Longrightarrow> q' = q"
  by (auto simp: MemoryQueue.Reserve_def split: if_splits)

interpretation queue_slot: reservable "\<lambda>q. 0 \<le> q_pending q" "(=)" slot_acquire
  "\<lambda>r q. snd (MemoryQueue.Release (Some r) q)"
proof
  fix q q' :: MemoryQueue and r
  assume q: "0 \<le> q_pending q"
  show "q = q' \<and> 0 \<le> q_pending q'" if "slot_acquire q = (None, q')"
    using that q Reserve_refused [of q] by (auto simp: slot_acquire_def split: prod.splits sum.splits)
  assume "slot_acquire q = (Some r, q')"
  then have "MemoryQueue.Reserve q = (Inr r, q')"
    by (auto simp: slot_acquire_def split: prod.splits sum.splits)
  from Reserve_Release [OF q this] q
  show "0 \<le> q_pending q'"
    "q = snd (MemoryQueue.Release (Some r) q') \<and> 0 \<le> q_pending (snd (MemoryQueue.Release (Some r) q'))"
    by simp_all
qed auto

text \<open>The counters: those of running windows are as before, expired ones may be gone.\<close>

definition rates_ok :: "counters \<Rightarrow> bool" where
  "rates_ok m \<longleftrightarrow> wf_alist m
     \<and> (\<forall>k c. map_of m k = Some c \<longrightarrow> 1 \<le> rc_Count c \<and> rc_ExpiresAt c = window_end k)"

definition rates_kept :: "go_time \<Rightarrow> counters \<Rightarrow> counters \<Rightarrow> bool" where
  "rates_kept now m m' \<longleftrightarrow> map_of m' \<subseteq>\<^sub>m map_of m
     \<and> (\<forall>k c. map_of m k = Some c \<longrightarrow> now < rc_ExpiresAt c \<longrightarrow> map_of m' k = Some c)"

definition rates_acquire ::
    "go_time \<Rightarrow> RateLimitRequest \<Rightarrow> counters \<Rightarrow> RateLimitDecision option \<times> counters" where
  "rates_acquire now request m =
     (case Allow now request m of (_, Some _, m') \<Rightarrow> (None, m') | (d, None, m') \<Rightarrow> (Some d, m'))"

lemma rates_kept_expired: "rates_ok m \<Longrightarrow> rates_kept now m (deleteExpired now m) \<and> rates_ok (deleteExpired now m)"
  by (auto simp: rates_kept_def rates_ok_def map_le_def map_of_deleteExpired split: option.splits if_splits)

lemma rl_inv_rates_ok: "rl_inv s \<Longrightarrow> rates_ok (rls_counters s)"
  by (fastforce simp: rl_inv_def rates_ok_def)

lemma Allow_Rollback:
  assumes ok: "rates_ok m" and allow: "Allow now request m = (d, None, m')"
  shows "map_of (Rollback d m') = map_of (deleteExpired now m)" "wf_alist (Rollback d m')" "rates_ok m'"
proof -
  let ?m = "deleteExpired now m" and ?cs = "rate_checks request now"
  have ok1: "rates_ok ?m" using rates_kept_expired [OF ok] by simp
  obtain d: "m' = consume request ?cs ?m" "dec_Allowed d"
      "dec_consumed d = map (\<lambda>c. check_key c request) ?cs"
    using allow by (cases rule: Allow_cases [of request now m]) auto
  have wf: "wf_alist m'" using ok1 d(1) by (simp add: rates_ok_def)
  have new: "map_of m' k = (case find (\<lambda>c. check_key c request = k) ?cs of None \<Rightarrow> map_of ?m k
      | Some c \<Rightarrow> Some \<lparr>rc_Count = count_of ?m k + 1, rc_ExpiresAt = window_end k\<rparr>)" for k
  proof (cases "find (\<lambda>c. check_key c request = k) ?cs")
    case (Some c)
    then have "c \<in> set ?cs" "check_key c request = k" by (auto simp: find_Some_iff)
    then have "ck_expiresAt c = window_end k" using rate_checks_good [of c request now] by (simp add: good_check_def)
    then show ?thesis using map_of_consume [OF rate_check_keys_distinct, of request now ?m k] d(1) Some by simp
  qed (use map_of_consume [OF rate_check_keys_distinct, of request now ?m k] d(1) in simp)
  have mem: "find (\<lambda>c. check_key c request = k) ?cs = None \<longleftrightarrow> k \<notin> set (dec_consumed d)" for k
    by (auto simp: find_None_iff d(3))
  have nonempty: "dec_consumed d \<noteq> []" using d(3) by (simp add: rate_checks_def Let_def)
  show "rates_ok m'"
    using wf ok1 new by (force simp: rates_ok_def lookup_counter_def split: option.splits)
  show "wf_alist (Rollback d m')" using wf by (simp add: Rollback_def)
  show "map_of (Rollback d m') = map_of ?m"
  proof
    fix k
    show "map_of (Rollback d m') k = map_of ?m k"
    proof (cases "find (\<lambda>c. check_key c request = k) ?cs")
      case None
      then show ?thesis
        using mem [of k] new [of k] map_of_rollback_keys [OF wf, of "dec_consumed d" k] d(2,3) nonempty
          rate_check_keys_distinct [of request now]
        by (simp add: Rollback_def)
    next
      case (Some c)
      then have k: "k \<in> set (dec_consumed d)" using mem [of k] by simp
      have old: "1 \<le> rc_Count x \<and> rc_ExpiresAt x = window_end k" if "map_of ?m k = Some x" for x
        using ok1 that by (simp add: rates_ok_def)
      show ?thesis
        using k Some new [of k] map_of_rollback_keys [OF wf, of "dec_consumed d" k] d(2,3) nonempty old
          rate_check_keys_distinct [of request now]
        by (cases "map_of ?m k") (auto simp: Rollback_def lookup_counter_def)
    qed
  qed
qed

interpretation rate_window: reservable rates_ok "rates_kept now" "rates_acquire now request" Rollback for now request
proof
  fix m m' m'' :: counters and d
  show "rates_kept now m m" by (simp add: rates_kept_def)
  show "rates_kept now m m' \<Longrightarrow> rates_kept now m' m'' \<Longrightarrow> rates_kept now m m''"
    by (auto simp: rates_kept_def intro: map_le_trans)
  assume ok: "rates_ok m"
  show "rates_kept now m m' \<and> rates_ok m'" if "rates_acquire now request m = (None, m')"
  proof -
    have "m' = deleteExpired now m"
      using that by (cases rule: Allow_cases [of request now m]) (simp_all add: rates_acquire_def)
    then show ?thesis using rates_kept_expired [OF ok] by simp
  qed
  assume "rates_acquire now request m = (Some d, m')"
  then have a: "Allow now request m = (d, None, m')"
    by (auto simp: rates_acquire_def split: prod.splits option.splits)
  note r = Allow_Rollback [OF ok a]
  show "rates_ok m'" by (fact r)
  show "rates_kept now m (Rollback d m') \<and> rates_ok (Rollback d m')"
    using rates_kept_expired [OF ok, of now] r(2) unfolding rates_kept_def rates_ok_def r(1) by blast
qed

text \<open>
  An idempotency key: no entry appears and no pending one disappears; a queued one may have expired or
  been evicted for the reservation.
\<close>

definition idem_kept :: "IdempotencyCache \<Rightarrow> IdempotencyCache \<Rightarrow> bool" where
  "idem_kept c c' \<longleftrightarrow> map_of (ic_entries c') \<subseteq>\<^sub>m map_of (ic_entries c) \<and> pending_keys c' = pending_keys c
     \<and> ic_ttl c' = ic_ttl c \<and> ic_limit c' = ic_limit c"

definition idem_acquire ::
    "go_time \<Rightarrow> string \<Rightarrow> string \<Rightarrow> string \<Rightarrow> string \<Rightarrow> IdempotencyCache
     \<Rightarrow> IdempotencyReservation option \<times> IdempotencyCache" where
  "idem_acquire now a sc h f c =
     (case Idempotency.Reserve now a sc h f c of
        (Inr (Some r, _), c') \<Rightarrow> (Some r, c')
      | (_, c') \<Rightarrow> (None, c'))"

definition idem_release :: "IdempotencyReservation \<Rightarrow> IdempotencyCache \<Rightarrow> IdempotencyCache" where
  "idem_release r c = snd (Idempotency.Release (Some r) c)"

lemma idem_kept_expire: "cache_ok c \<Longrightarrow> idem_kept c (expire now c)"
  by (auto simp: idem_kept_def map_le_def cache_ok_def map_of_expire split: option.splits if_splits)

text \<open>What a granted reservation comes to, and what releasing it gives.\<close>

lemma Reserve_granted:
  assumes ok: "cache_ok c" and res: "Idempotency.Reserve now a sc h f c = (Inr (Some r, dec), c')"
  defines "key \<equiv> newIdempotencyKey a sc h"
  shows "r = \<lparr>ir_key = key, ir_used = False\<rparr>" "dec = new_decision"
    "map_of (ic_entries c') key = Some (pending_entry now f)" "cache_ok c'"
    "map_of (ic_entries (expire now c)) key = None"
    "ic_ttl c' = ic_ttl c" "ic_limit c' = ic_limit c"
    "idem_kept c (idem_release r c')" "cache_ok (idem_release r c')"
proof -
  let ?c1 = "expire now c"
  have ok1: "cache_ok ?c1" "idem_kept c ?c1" using ok by (simp_all add: idem_kept_expire)
  have wf1: "wf_alist (ic_entries ?c1)" using ok1 by (simp add: cache_ok_def)
  define m where "m = AList.update key (pending_entry now f) (ic_entries ?c1)"
  have absent: "map_of (ic_entries ?c1) key = None \<and> dec = new_decision
      \<and> r = \<lparr>ir_key = key, ir_used = False\<rparr> \<and> int (length (ic_entries c')) \<le> ic_limit c
      \<and> (c' = ?c1\<lparr>ic_entries := m\<rparr>
         \<or> (\<exists>j e. c' = ?c1\<lparr>ic_entries := AList.delete j m\<rparr> \<and> j \<noteq> key
              \<and> map_of (ic_entries ?c1) j = Some e \<and> \<not> pending e))"
    using res
    by (cases rule: Reserve_cases [OF ok refl refl, of now a sc h f]) (auto simp: key_def m_def)
  then show r: "r = \<lparr>ir_key = key, ir_used = False\<rparr>" and "dec = new_decision"
    and "map_of (ic_entries (expire now c)) key = None"
    by auto
  show e: "map_of (ic_entries c') key = Some (pending_entry now f)"
    using absent by (auto simp: m_def update_conv' delete_conv')
  show "cache_ok c'" and lim: "ic_ttl c' = ic_ttl c" "ic_limit c' = ic_limit c"
    using absent ok1(1) by (auto simp: cache_ok_def m_def)
  have rel: "idem_release r c' = c'\<lparr>ic_entries := AList.delete key (ic_entries c')\<rparr>"
    using r e by (simp add: idem_release_def Idempotency.Release_def pending_entry_def)
  show "cache_ok (idem_release r c')"
    using \<open>cache_ok c'\<close> unfolding rel by (auto simp: cache_ok_def intro: order_trans [OF of_nat_mono [OF length_delete_le]])
  have le: "map_of (ic_entries (idem_release r c')) \<subseteq>\<^sub>m map_of (ic_entries ?c1)"
    using absent unfolding rel by (auto simp: map_le_def m_def update_conv' delete_conv' split: if_splits)
  have "pending_keys (idem_release r c') = pending_keys ?c1"
    using absent unfolding rel pending_keys_def
    by (auto simp: m_def update_conv' delete_conv' split: if_splits)
  then show "idem_kept c (idem_release r c')"
    using le ok1(2) lim rel by (auto simp: idem_kept_def intro: map_le_trans)
qed

lemma Reserve_not_granted:
  assumes ok: "cache_ok c" and res: "Idempotency.Reserve now a sc h f c = (r, c')"
    and "\<And>x d. r \<noteq> Inr (Some x, d)"
  shows "c' = expire now c"
  using res assms(3)
  by (cases rule: Reserve_cases [OF ok refl refl, of now a sc h f]) auto

interpretation idem_key: reservable cache_ok idem_kept "idem_acquire now a sc h f" idem_release for now a sc h f
proof
  fix c c' c'' :: IdempotencyCache and r
  show "idem_kept c c" by (simp add: idem_kept_def)
  show "idem_kept c c' \<Longrightarrow> idem_kept c' c'' \<Longrightarrow> idem_kept c c''"
    by (auto simp: idem_kept_def intro: map_le_trans)
  assume ok: "cache_ok c"
  show "idem_kept c c' \<and> cache_ok c'" if "idem_acquire now a sc h f c = (None, c')"
  proof -
    have "c' = expire now c"
      using that Reserve_not_granted [OF ok, of now a sc h f]
      by (auto simp: idem_acquire_def split: prod.splits sum.splits option.splits)
    then show ?thesis using ok by (simp add: idem_kept_expire)
  qed
  assume "idem_acquire now a sc h f c = (Some r, c')"
  then obtain d where "Idempotency.Reserve now a sc h f c = (Inr (Some r, d), c')"
    by (auto simp: idem_acquire_def split: prod.splits sum.splits option.splits)
  note g = Reserve_granted [OF ok this]
  show "cache_ok c'" "idem_kept c (idem_release r c') \<and> cache_ok (idem_release r c')" using g(4,8,9) by simp_all
qed

section \<open>A request that fails\<close>

text \<open>The steps that write to the logs and the statistics leave the rest of the runtime alone.\<close>

definition same_state :: "Runtime \<Rightarrow> Runtime \<Rightarrow> bool" where
  "same_state rt rt' \<longleftrightarrow>
     rt' = rt\<lparr>run_messageLog := run_messageLog rt', run_stats := run_stats rt'\<rparr>"

lemma same_state_fields:
  "same_state rt rt' \<Longrightarrow> run_queue rt' = run_queue rt \<and> run_rateLimit rt' = run_rateLimit rt
     \<and> run_idempotent rt' = run_idempotent rt \<and> run_suppressed rt' = run_suppressed rt
     \<and> run_auth rt' = run_auth rt \<and> run_defaults rt' = run_defaults rt \<and> run_callerIP rt' = run_callerIP rt"
  by (cases rt; cases rt') (simp add: same_state_def)

lemma append_message_state: "same_state (sd_runtime w) (sd_runtime (snd (append_message a now message w)))"
  by (auto simp: append_message_def same_state_def split: prod.split)

lemma record_metric_state: "same_state (sd_runtime w) (sd_runtime (record_metric env cr metric w))"
  by (auto simp: record_metric_def same_state_def split: prod.split)

lemma record_metric_log [simp]:
  "run_messageLog (sd_runtime (record_metric env cr metric w)) = run_messageLog (sd_runtime w)"
  "sd_disk (record_metric env cr metric w) = sd_disk w"
  by (auto simp: record_metric_def split: prod.split)

lemmas append_message_fields = same_state_fields [OF append_message_state]
lemmas record_metric_fields [simp] = same_state_fields [OF record_metric_state]

text \<open>The state a request needs, which the operations of the three parts keep.\<close>

definition send_ok :: "Runtime \<Rightarrow> bool" where
  "send_ok rt \<longleftrightarrow> 0 \<le> q_pending (run_queue rt) \<and> rates_ok (run_rateLimit rt) \<and> cache_ok (run_idempotent rt)"

text \<open>What a request that fails leaves behind, beside its lines in the logs.\<close>

definition given_back :: "send_env \<Rightarrow> Runtime \<Rightarrow> Runtime \<Rightarrow> bool" where
  "given_back env rt rt' \<longleftrightarrow>
     (run_queue rt' = run_queue rt \<or> sv_shutdown env \<and> run_queue rt' = Close (run_queue rt))
     \<and> rates_kept (sv_allow_time env) (run_rateLimit rt) (run_rateLimit rt')
     \<and> idem_kept (run_idempotent rt) (run_idempotent rt')
     \<and> run_suppressed rt' = run_suppressed rt \<and> run_auth rt' = run_auth rt \<and> run_defaults rt' = run_defaults rt
     \<and> send_ok rt'"

lemmas deferred_defs = release_idempotency_def release_queue_def rollback_rates_def

text \<open>The commit: it fails only if the queue was closed, and the slot is then gone.\<close>

lemma commit_task:
  assumes "commitInitialQueueTask env (Some r) message w = (res, qr, w')" "\<not> res_used r"
  shows "case res of
      Inl e \<Rightarrow> q_closed (run_queue (sd_runtime w)) \<and> qr = Some (r\<lparr>res_used := True\<rparr>)
        \<and> same_state (sd_runtime (set_queue (drop_slot (run_queue (sd_runtime w))) w)) (sd_runtime w')
        \<and> (e = ErrMemoryQueueClosed \<or> e = Wrapf ''commit queued message'' ErrMemoryQueueClosed)
    | Inr _ \<Rightarrow> \<not> q_closed (run_queue (sd_runtime w))
        \<and> Commit (sv_commit_time env) \<lparr>task_Message = message, task_AttemptNo = 1, task_AvailableAt = zero_time\<rparr>
            (Some r) (run_queue (sd_runtime w)) = (Inr (), qr, run_queue (sd_runtime w'))
        \<and> w' = set_queue (run_queue (sd_runtime w')) w"
proof (cases "q_closed (run_queue (sd_runtime w))")
  case True
  let ?w = "set_queue (drop_slot (run_queue (sd_runtime w))) w"
  let ?failed = "message\<lparr>msg_Status := MessageStatusFailed, msg_ErrorCode := ErrorCodeInternal,
      msg_ErrorMessage := ''queue commit failed''\<rparr>"
  obtain x w1 where a: "append_message (sv_failed_append env) (sv_failed_time env) ?failed ?w = (x, w1)" by fastforce
  have st: "same_state (sd_runtime ?w) (sd_runtime w1)"
    using append_message_state [of ?w "sv_failed_append env" "sv_failed_time env" ?failed] a by simp
  have c: "Commit now task (Some r) (run_queue (sd_runtime w)) = (Inl ErrMemoryQueueClosed, Some (r\<lparr>res_used := True\<rparr>),
      drop_slot (run_queue (sd_runtime w)))" for now task
    using True assms(2) by (simp add: Commit_def CommitDelayed_def)
  show ?thesis using assms(1) True st a by (cases x) (auto simp: commitInitialQueueTask_def c Let_def)
next
  case False
  obtain q where "Commit (sv_commit_time env) \<lparr>task_Message = message, task_AttemptNo = 1,
      task_AvailableAt = zero_time\<rparr> (Some r) (run_queue (sd_runtime w)) = (Inr (), Some (r\<lparr>res_used := True\<rparr>), q)"
    using False assms(2) by (simp add: Commit_def CommitDelayed_def Let_def)
  then show ?thesis using assms(1) False by (auto simp: commitInitialQueueTask_def Let_def)
qed

text \<open>The deferred functions, run from a state whose queue and counters are those of the reservations.\<close>

lemma undo_given_back:
  assumes ok: "send_ok rt" and idem: "Idempotency.Reserve t a sc h f (run_idempotent rt) = (Inr (Some ir, dec), c)"
    and rates: "Allow (sv_allow_time env) request (run_rateLimit rt) = (d, None, m)"
    and w: "run_rateLimit (sd_runtime w) = m" "run_idempotent (sd_runtime w) = c"
      "run_suppressed (sd_runtime w) = run_suppressed rt" "run_auth (sd_runtime w) = run_auth rt"
      "run_defaults (sd_runtime w) = run_defaults rt"
    and queue: "snd (MemoryQueue.Release qr (run_queue (sd_runtime w))) = run_queue rt
      \<or> sv_shutdown env \<and> snd (MemoryQueue.Release qr (run_queue (sd_runtime w))) = Close (run_queue rt)"
  shows "given_back env rt (sd_runtime (release_idempotency (Some ir) (release_queue qr (rollback_rates d w))))"
proof -
  note g = Reserve_granted [OF _ idem]
  have "rates_kept (sv_allow_time env) (run_rateLimit rt) (Rollback d m) \<and> rates_ok (Rollback d m)"
    using rate_window.given_back [of "run_rateLimit rt" "sv_allow_time env" request d m] ok rates
    by (simp add: send_ok_def rates_acquire_def)
  moreover have "0 \<le> q_pending (snd (MemoryQueue.Release qr (run_queue (sd_runtime w))))"
    using queue ok by (auto simp: send_ok_def Close_def)
  ultimately show ?thesis
    using g(8,9) ok queue w by (simp add: given_back_def deferred_defs idem_release_def send_ok_def)
qed

lemma NewMessageID_nonempty: "NewMessageID draws = Inr i \<Longrightarrow> i \<noteq> []"
  by (auto simp: NewMessageID_def newPrefixedID_def messageIDPrefix_def)

lemma CompleteQueued_pending:
  assumes "map_of (ic_entries c) key = Some (pending_entry now f)" "msg \<noteq> []"
  shows "CompleteQueued t msg (Some \<lparr>ir_key = key, ir_used = False\<rparr>) c =
    (Inr (), Some \<lparr>ir_key = key, ir_used = True\<rparr>,
     c\<lparr>ic_entries := AList.update key (queued_entry t f msg) (ic_entries c)\<rparr>)"
  using assms by (simp add: CompleteQueued_def Let_def complete_entry pending_entry_def queued_entry_def)

text \<open>The state in which the three reservations are held.\<close>

definition all_reserved ::
    "send_env \<Rightarrow> Runtime \<Rightarrow> checked_request \<Rightarrow> RateLimitRequest \<Rightarrow> QueueReservation
     \<Rightarrow> IdempotencyReservation \<Rightarrow> RateLimitDecision \<Rightarrow> send_world \<Rightarrow> bool" where
  "all_reserved env rt cr request qr ir d w \<longleftrightarrow>
     MemoryQueue.Reserve (run_queue rt) = (Inr qr, run_queue (sd_runtime w))
     \<and> Allow (sv_allow_time env) request (run_rateLimit rt) = (d, None, run_rateLimit (sd_runtime w))
     \<and> Idempotency.Reserve (sv_reserve_time env) (app_Code (auth_App (cr_auth cr))) (scene_Code (cr_scene cr))
         (cr_hash cr) (cr_fingerprint cr) (run_idempotent rt)
       = (Inr (Some ir, new_decision), run_idempotent (sd_runtime w))
     \<and> run_suppressed (sd_runtime w) = run_suppressed rt \<and> run_auth (sd_runtime w) = run_auth rt
     \<and> run_defaults (sd_runtime w) = run_defaults rt"

lemma all_reserved_state:
  "all_reserved env rt cr request qr ir d w \<Longrightarrow> same_state (sd_runtime w) (sd_runtime w') \<Longrightarrow>
   all_reserved env rt cr request qr ir d w'"
  by (auto simp: all_reserved_def dest: same_state_fields)

lemma all_reserved_undo:
  assumes "send_ok rt" "all_reserved env rt cr request qr ir d w"
  shows "given_back env rt (sd_runtime (release_idempotency (Some ir) (release_queue (Some qr) (rollback_rates d w))))"
  using assms Reserve_Release [of "run_queue rt" qr]
  by (intro undo_given_back [OF assms(1)]) (auto simp: all_reserved_def send_ok_def)

definition send_key :: "checked_request \<Rightarrow> idempotencyKey" where
  "send_key cr = newIdempotencyKey (app_Code (auth_App (cr_auth cr))) (scene_Code (cr_scene cr)) (cr_hash cr)"

lemma complete_reserved:
  assumes ok: "send_ok rt" and r: "all_reserved env rt cr request qr ir d w"
    and i: "NewMessageID (sv_draws env) = Inr messageID" and c: "c = run_idempotent (sd_runtime w)"
  shows "CompleteQueued (sv_complete_time env) messageID (Some ir) c =
    (Inr (), Some \<lparr>ir_key = send_key cr, ir_used = True\<rparr>,
     c\<lparr>ic_entries := AList.update (send_key cr) (queued_entry (sv_complete_time env) (cr_fingerprint cr) messageID)
        (ic_entries c)\<rparr>)"
proof -
  have g: "cache_ok (run_idempotent rt)"
    "Idempotency.Reserve (sv_reserve_time env) (app_Code (auth_App (cr_auth cr))) (scene_Code (cr_scene cr))
       (cr_hash cr) (cr_fingerprint cr) (run_idempotent rt) = (Inr (Some ir, new_decision), c)"
    using ok r c by (auto simp: send_ok_def all_reserved_def)
  note granted = Reserve_granted [OF g, folded send_key_def]
  show ?thesis unfolding granted(1)
    by (rule CompleteQueued_pending [OF granted(3) NewMessageID_nonempty [OF i]])
qed

lemma commit_send_error:
  assumes ok: "send_ok rt" and r: "all_reserved env rt cr request qr ir d w"
    and e: "commit_send env requestID cr selection callerIP d (Some qr) (Some ir) w = (Inl e, w')"
  shows "given_back env rt (sd_runtime w')"
proof (cases "NewMessageID (sv_draws env)")
  case (Inl x)
  then show ?thesis using e all_reserved_undo [OF ok r] by (auto simp: commit_send_def wrapped_def)
next
  case (Inr messageID)
  let ?message = "send_message requestID cr selection callerIP messageID"
  obtain x w1 where a: "append_message (sv_append env) (sv_message_time env) ?message w = (x, w1)" by fastforce
  have st: "same_state (sd_runtime w) (sd_runtime w1)"
    using append_message_state [of w "sv_append env" "sv_message_time env" ?message] a by simp
  note r1 = all_reserved_state [OF r st]
  show ?thesis
  proof (cases x)
    case (Inl y)
    then show ?thesis using e Inr a all_reserved_undo [OF ok r1] by (auto simp: commit_send_def wrapped_def)
  next
    case appended: (Inr u)
    have q: "MemoryQueue.Reserve (run_queue rt) = (Inr qr, run_queue (sd_runtime w1))" using r1 by (simp add: all_reserved_def)
    then have unused: "\<not> res_used qr" by (auto simp: MemoryQueue.Reserve_def split: if_splits)
    obtain res qr' w2 where c: "commitInitialQueueTask env (Some qr) ?message (shut_down env w1) = (res, qr', w2)"
      using prod_cases3 by blast
    note task = commit_task [OF c unused]
    show ?thesis
    proof (cases res)
      case (Inl z)
      then have closed: "q_closed (run_queue (sd_runtime (shut_down env w1)))" "qr' = Some (qr\<lparr>res_used := True\<rparr>)"
          "same_state (sd_runtime (set_queue (drop_slot (run_queue (sd_runtime (shut_down env w1)))) (shut_down env w1)))
             (sd_runtime w2)"
        using task by auto
      have open_q: "run_queue (sd_runtime w1) = (run_queue rt)\<lparr>q_pending := q_pending (run_queue rt) + 1\<rparr>"
          "\<not> q_closed (run_queue rt)"
        using q by (auto simp: MemoryQueue.Reserve_def split: if_splits)
      then have sd: "sv_shutdown env" using closed(1) by (auto simp: shut_down_def split: if_splits)
      have f: "run_queue (sd_runtime w2) = Close (run_queue rt)" "run_rateLimit (sd_runtime w2) = run_rateLimit (sd_runtime w1)"
        "run_idempotent (sd_runtime w2) = run_idempotent (sd_runtime w1)"
        "run_suppressed (sd_runtime w2) = run_suppressed (sd_runtime w1)"
        "run_auth (sd_runtime w2) = run_auth (sd_runtime w1)" "run_defaults (sd_runtime w2) = run_defaults (sd_runtime w1)"
        using same_state_fields [OF closed(3)] open_q sd by (simp_all add: shut_down_def Close_def drop_slot_def)
      have w': "w' = release_idempotency (Some ir) (release_queue qr' (rollback_rates d w2))"
        using e Inr a appended c Inl by (auto simp: commit_send_def wrapped_def)
      show ?thesis unfolding w'
        by (rule undo_given_back [OF ok, where c = "run_idempotent (sd_runtime w1)" and m = "run_rateLimit (sd_runtime w1)"])
          (use r1 f sd closed(2) in \<open>auto simp: all_reserved_def MemoryQueue.Release_def\<close>)
    next
      case (Inr z)
      then have "run_idempotent (sd_runtime w2) = run_idempotent (sd_runtime w1)"
        using task by (cases w2) (auto simp: shut_down_def split: if_splits)
      from complete_reserved [OF ok r1 \<open>NewMessageID (sv_draws env) = Inr messageID\<close> this]
      have "fst (CompleteQueued (sv_complete_time env) messageID (Some ir) (run_idempotent (sd_runtime w2))) = Inr ()"
        by simp
      then show ?thesis using e \<open>NewMessageID (sv_draws env) = Inr messageID\<close> a appended c Inr
        by (auto simp: commit_send_def wrapped_def split: prod.splits sum.splits)
    qed
  qed
qed

section \<open>A request that succeeds\<close>

text \<open>The queue with the first attempt of a message behind the ready tasks, due at once.\<close>

definition with_first_attempt :: "go_time \<Rightarrow> Message \<Rightarrow> MemoryQueue \<Rightarrow> MemoryQueue" where
  "with_first_attempt now message q =
     (let seq = int64 (q_nextSeq q + 1)
      in q\<lparr>q_pending := q_pending q + 1, q_nextSeq := seq,
           q_ready := q_ready q @ [\<lparr>qt_task = \<lparr>task_Message = message, task_AttemptNo = 1, task_AvailableAt = now\<rparr>,
             qt_readyAt = now, qt_sequence = seq, qt_available = now\<rparr>]\<rparr>)"

lemma with_first_attempt_queue: "with_first_attempt now message q \<noteq> q"
proof
  assume "with_first_attempt now message q = q"
  then have "length (q_ready (with_first_attempt now message q)) = length (q_ready q)" by simp
  then show False by (simp add: with_first_attempt_def Let_def)
qed

text \<open>What a queued message changes.\<close>

definition queued_message ::
    "send_env \<Rightarrow> string \<Rightarrow> checked_request \<Rightarrow> Message \<Rightarrow> send_world \<Rightarrow> send_world \<Rightarrow> bool" where
  "queued_message env requestID cr message w w' \<longleftrightarrow>
     (let rt = sd_runtime w; rt' = sd_runtime w'; request = cr_request cr
      in NewMessageID (sv_draws env) = Inr (msg_MessageID message)
         \<and> (\<exists>selection callerIP. SelectRoute (cr_scene cr) (sr_NormalizedToEmail request)
                (defaults_MaxAttemptsPerMessage (run_defaults rt)) = Inr selection
              \<and> message = send_message requestID cr selection callerIP (msg_MessageID message))
         \<and> Contains_suppressed (app_Code (auth_App (cr_auth cr))) (sr_NormalizedToEmail request)
             (Some (run_suppressed rt)) = None
         \<and> run_queue rt' = with_first_attempt (sv_commit_time env) message (run_queue rt)
         \<and> (\<exists>d request. Allow (sv_allow_time env) request (run_rateLimit rt) = (d, None, run_rateLimit rt'))
         \<and> map_of (ic_entries (run_idempotent rt')) (send_key cr)
             = Some (queued_entry (sv_complete_time env) (cr_fingerprint cr) (msg_MessageID message))
         \<and> map_of (ic_entries (expire (sv_reserve_time env) (run_idempotent rt))) (send_key cr) = None
         \<and> AppendMessage (sv_append env) json_quote (format_time (sv_message_time env)) message
             (run_messageLog rt) (sd_disk w) = (Inr (), run_messageLog rt', sd_disk w')
         \<and> send_ok rt' \<and> ic_ttl (run_idempotent rt') = ic_ttl (run_idempotent rt)
         \<and> run_auth rt' = run_auth rt \<and> run_defaults rt' = run_defaults rt
         \<and> run_suppressed rt' = run_suppressed rt)"

lemma commit_send_success:
  assumes ok: "send_ok rt" and r: "all_reserved env rt cr request qr ir d w"
    and e: "commit_send env requestID cr selection callerIP d (Some qr) (Some ir) w = (Inr resp, w')"
  obtains messageID where "NewMessageID (sv_draws env) = Inr messageID"
    "resp = \<lparr>sresp_RequestID = requestID, sresp_MessageID = messageID, sresp_Status = MessageStatusQueued\<rparr>"
    "run_queue (sd_runtime w') = with_first_attempt (sv_commit_time env)
       (send_message requestID cr selection callerIP messageID) (run_queue rt)"
    "run_rateLimit (sd_runtime w') = run_rateLimit (sd_runtime w)"
    "run_idempotent (sd_runtime w') = (run_idempotent (sd_runtime w))\<lparr>ic_entries := AList.update (send_key cr)
       (queued_entry (sv_complete_time env) (cr_fingerprint cr) messageID) (ic_entries (run_idempotent (sd_runtime w)))\<rparr>"
    "AppendMessage (sv_append env) json_quote (format_time (sv_message_time env))
       (send_message requestID cr selection callerIP messageID) (run_messageLog (sd_runtime w)) (sd_disk w)
       = (Inr (), run_messageLog (sd_runtime w'), sd_disk w')"
    "run_suppressed (sd_runtime w') = run_suppressed rt" "run_auth (sd_runtime w') = run_auth rt"
    "run_defaults (sd_runtime w') = run_defaults rt"
proof (cases "NewMessageID (sv_draws env)")
  case (Inl x)
  then show thesis using e by (simp add: commit_send_def wrapped_def)
next
  case (Inr messageID)
  let ?message = "send_message requestID cr selection callerIP messageID"
  obtain x w1 where a: "append_message (sv_append env) (sv_message_time env) ?message w = (x, w1)" by fastforce
  have st: "same_state (sd_runtime w) (sd_runtime w1)"
    using append_message_state [of w "sv_append env" "sv_message_time env" ?message] a by simp
  note r1 = all_reserved_state [OF r st] and f = same_state_fields [OF st]
  have x: "x = Inr ()" using e Inr a by (cases x) (simp_all add: commit_send_def wrapped_def)
  have q: "MemoryQueue.Reserve (run_queue rt) = (Inr qr, run_queue (sd_runtime w1))" using r1 by (simp add: all_reserved_def)
  then have unused: "\<not> res_used qr" and q1: "run_queue (sd_runtime w1) = (run_queue rt)\<lparr>q_pending := q_pending (run_queue rt) + 1\<rparr>"
    by (auto simp: MemoryQueue.Reserve_def split: if_splits)
  obtain res qr' w2 where c: "commitInitialQueueTask env (Some qr) ?message (shut_down env w1) = (res, qr', w2)"
    using prod_cases3 by blast
  note task = commit_task [OF c unused]
  have res: "res = Inr ()" using e Inr a x c by (cases res) (simp_all add: commit_send_def wrapped_def)
  have "\<not> q_closed (run_queue (sd_runtime (shut_down env w1)))" using task res by simp
  then have sd: "shut_down env w1 = w1" by (auto simp: shut_down_def Close_def split: if_splits)
  have w2: "run_queue (sd_runtime w2) = with_first_attempt (sv_commit_time env) ?message (run_queue rt)"
      "w2 = set_queue (run_queue (sd_runtime w2)) w1"
    using task res unused unfolding sd q1
    by (auto simp: Commit_def CommitDelayed_def Let_def with_first_attempt_def split: if_splits)
  have idem: "run_idempotent (sd_runtime w2) = run_idempotent (sd_runtime w)"
      "run_rateLimit (sd_runtime w2) = run_rateLimit (sd_runtime w)"
      "run_suppressed (sd_runtime w2) = run_suppressed (sd_runtime w)" "run_auth (sd_runtime w2) = run_auth (sd_runtime w)"
      "run_defaults (sd_runtime w2) = run_defaults (sd_runtime w)"
      "run_messageLog (sd_runtime w2) = run_messageLog (sd_runtime w1)" "sd_disk w2 = sd_disk w1"
    using f by (subst w2(2), simp)+
  note complete = complete_reserved [OF ok r Inr refl]
  have result: "resp = \<lparr>sresp_RequestID = requestID, sresp_MessageID = messageID, sresp_Status = MessageStatusQueued\<rparr>"
      "w' = record_metric env cr MetricMessagesQueued (set_idem ((run_idempotent (sd_runtime w))\<lparr>ic_entries :=
         AList.update (send_key cr) (queued_entry (sv_complete_time env) (cr_fingerprint cr) messageID)
           (ic_entries (run_idempotent (sd_runtime w)))\<rparr>) w2)"
    using e Inr a x c res complete by (simp_all add: commit_send_def wrapped_def idem)
  have log: "AppendMessage (sv_append env) json_quote (format_time (sv_message_time env)) ?message
      (run_messageLog (sd_runtime w)) (sd_disk w) = (Inr (), run_messageLog (sd_runtime w1), sd_disk w1)"
    using a x by (auto simp: append_message_def split: prod.splits)
  show thesis
    by (rule that [OF Inr]) (use result(2) w2(1) idem log r in \<open>simp_all add: all_reserved_def result(1)\<close>)
qed

section \<open>The whole request\<close>

text \<open>A request that ends before the commit has at most its idempotency key and its slot to give back.\<close>

lemma early_given_back:
  assumes ok: "send_ok rt" and idem: "Idempotency.Reserve t a sc h f (run_idempotent rt) = (Inr (Some ir, dec), c)"
    and w: "run_idempotent (sd_runtime w) = c" "run_queue (sd_runtime w) = run_queue rt"
      "rates_kept (sv_allow_time env) (run_rateLimit rt) (run_rateLimit (sd_runtime w))"
      "rates_ok (run_rateLimit (sd_runtime w))"
      "run_suppressed (sd_runtime w) = run_suppressed rt" "run_auth (sd_runtime w) = run_auth rt"
      "run_defaults (sd_runtime w) = run_defaults rt"
  shows "given_back env rt (sd_runtime (release_idempotency (Some ir) w))"
  using Reserve_granted(8,9) [OF _ idem] ok w
  by (simp add: given_back_def release_idempotency_def idem_release_def send_ok_def)

text \<open>The request to the rate limiter.\<close>

definition rate_request :: "Runtime \<Rightarrow> http_request \<Rightarrow> checked_request \<Rightarrow> RateLimitRequest" where
  "rate_request rt rq cr =
     \<lparr>rl_AppCode = app_Code (auth_App (cr_auth cr)), rl_SceneCode = scene_Code (cr_scene cr),
      rl_NormalizedToEmail = sr_NormalizedToEmail (cr_request cr), rl_UserIP = sr_UserIP (cr_request cr),
      rl_CallerIP = resolve_caller (run_callerIP rt) (hr_RemoteAddr rq) (hr_Header rq ''X-Forwarded-For'')
        (hr_Header rq ''X-Real-IP''), rl_Policy = scene_RateLimit (cr_scene cr)\<rparr>"

lemma reserved_send_outcome:
  assumes ok: "send_ok (sd_runtime w)"
    and idem: "Idempotency.Reserve (sv_reserve_time env) (app_Code (auth_App (cr_auth cr)))
        (scene_Code (cr_scene cr)) (cr_hash cr) (cr_fingerprint cr) (run_idempotent (sd_runtime w))
      = (Inr (Some ir, new_decision), c)"
    and run: "reserved_send env requestID rq cr (Some ir) (set_idem c w) = (res, w')"
  shows "case res of
      Inl e \<Rightarrow> given_back env (sd_runtime w) (sd_runtime w')
    | Inr resp \<Rightarrow> \<exists>message. queued_message env requestID cr message w w'
        \<and> resp = \<lparr>sresp_RequestID = requestID, sresp_MessageID = msg_MessageID message,
                  sresp_Status = MessageStatusQueued\<rparr>"
proof -
  let ?rt = "sd_runtime w" and ?request = "rate_request (sd_runtime w) rq cr"
  let ?sup = "Contains_suppressed (app_Code (auth_App (cr_auth cr))) (sr_NormalizedToEmail (cr_request cr))
      (Some (run_suppressed ?rt))"
  let ?route = "SelectRoute (cr_scene cr) (sr_NormalizedToEmail (cr_request cr))
      (defaults_MaxAttemptsPerMessage (run_defaults ?rt))"
  have rates_refl: "rates_kept (sv_allow_time env) (run_rateLimit ?rt) (run_rateLimit ?rt)"
    by (simp add: rates_kept_def)
  have rok: "rates_ok (run_rateLimit ?rt)" using ok by (simp add: send_ok_def)
  note early = early_given_back [OF ok idem, of _ env]
  obtain qres q where q: "MemoryQueue.Reserve (run_queue ?rt) = (qres, q)" by fastforce
  obtain d x m where allow: "Allow (sv_allow_time env) ?request (run_rateLimit ?rt) = (d, x, m)"
    using prod_cases3 by blast
  note r = run [unfolded reserved_send_def Let_def]
  show ?thesis
  proof (cases ?sup)
    case (Some entry)
    then show ?thesis using r early [of "set_idem c w"] rates_refl rok by auto
  next
    case sup: None
    show ?thesis
    proof (cases ?route)
      case (Inl e)
      then show ?thesis using r sup early [of "set_idem c w"] rates_refl rok by auto
    next
      case route: (Inr selection)
      show ?thesis
      proof (cases qres)
        case (Inl e)
        have "q = run_queue ?rt" using Reserve_refused q Inl by blast
        then show ?thesis
          using r sup route q Inl rates_refl rok
            early [of "set_queue q (set_idem c w)"]
            early [of "record_metric env cr MetricRequestsQueueFull (set_queue q (set_idem c w))"]
          by (cases "root_error e") auto
      next
        case slot: (Inr qr)
        note rel = Reserve_Release [of "run_queue ?rt" qr q]
        show ?thesis
        proof (cases x)
          case (Some e)
          have "rates_acquire (sv_allow_time env) ?request (run_rateLimit ?rt) = (None, m)"
            using allow Some by (simp add: rates_acquire_def)
          then have m: "rates_kept (sv_allow_time env) (run_rateLimit ?rt) m" "rates_ok m"
            using rate_window.refused [OF rok] by blast+
          have freed: "snd (MemoryQueue.Release (Some qr) q) = run_queue ?rt" using rel q slot ok by (simp add: send_ok_def)
          have "w' = release_idempotency (Some ir) (release_queue (Some qr)
              (record_metric env cr MetricRequestsRateLimited (set_rates m (set_queue q (set_idem c w)))))" "res = Inl e"
            using r sup route q slot allow Some by (simp_all add: rate_request_def)
          then show ?thesis
            using early [of "release_queue (Some qr)
              (record_metric env cr MetricRequestsRateLimited (set_rates m (set_queue q (set_idem c w))))"] freed m
            by (simp add: release_queue_def)
        next
          case None
          define callerIP where "callerIP = rl_CallerIP ?request"
          let ?w = "set_rates m (set_queue q (set_idem c w))"
          have all: "all_reserved env ?rt cr ?request qr ir d ?w"
            using q slot allow None idem by (simp add: all_reserved_def)
          have commit: "commit_send env requestID cr selection callerIP d (Some qr) (Some ir) ?w = (res, w')"
            using r sup route q slot allow None by (simp add: rate_request_def callerIP_def)
          show ?thesis
          proof (cases res)
            case (Inl e)
            then show ?thesis using commit_send_error [OF ok all] commit by simp
          next
            case (Inr resp)
            obtain messageID where s: "NewMessageID (sv_draws env) = Inr messageID"
              "resp = \<lparr>sresp_RequestID = requestID, sresp_MessageID = messageID, sresp_Status = MessageStatusQueued\<rparr>"
              "run_queue (sd_runtime w') = with_first_attempt (sv_commit_time env)
                 (send_message requestID cr selection callerIP messageID) (run_queue ?rt)"
              "run_rateLimit (sd_runtime w') = m"
              "run_idempotent (sd_runtime w') = c\<lparr>ic_entries := AList.update (send_key cr)
                 (queued_entry (sv_complete_time env) (cr_fingerprint cr) messageID) (ic_entries c)\<rparr>"
              "AppendMessage (sv_append env) json_quote (format_time (sv_message_time env))
                 (send_message requestID cr selection callerIP messageID) (run_messageLog ?rt) (sd_disk w)
                 = (Inr (), run_messageLog (sd_runtime w'), sd_disk w')"
              "run_suppressed (sd_runtime w') = run_suppressed ?rt" "run_auth (sd_runtime w') = run_auth ?rt"
              "run_defaults (sd_runtime w') = run_defaults ?rt"
              using commit_send_success [OF ok all commit [unfolded Inr]] by auto
            note g = Reserve_granted [OF _ idem, folded send_key_def]
            have c: "cache_ok c" "ic_ttl c = ic_ttl (run_idempotent ?rt)"
              "map_of (ic_entries (expire (sv_reserve_time env) (run_idempotent ?rt))) (send_key cr) = None"
              "map_of (ic_entries c) (send_key cr) \<noteq> None"
              using g(3-6) ok by (auto simp: send_ok_def)
            have present: "length (AList.update (send_key cr) y (ic_entries c)) = length (ic_entries c)" for y
              using c(4) by (simp add: length_update)
            have "send_ok (sd_runtime w')"
              using ok s(3,4,5) c(1) Allow_Rollback(3) [OF rok allow [unfolded None]] present
              by (auto simp: send_ok_def with_first_attempt_def Let_def cache_ok_def)
            moreover have "msg_MessageID (send_message requestID cr selection callerIP messageID) = messageID"
              by (simp add: send_message_def Let_def)
            ultimately have "queued_message env requestID cr (send_message requestID cr selection callerIP messageID) w w'"
              unfolding queued_message_def Let_def using s sup route allow None c
              by (auto simp: update_conv')
            then show ?thesis using Inr s(2) by (auto simp: send_message_def Let_def)
          qed
        qed
      qed
    qed
  qed
qed

text \<open>The answer to a request that was made before: the message of then, and only the statistics change.\<close>

definition replayed ::
    "send_env \<Rightarrow> string \<Rightarrow> checked_request \<Rightarrow> sendResponse \<Rightarrow> send_world \<Rightarrow> send_world \<Rightarrow> bool" where
  "replayed env requestID cr resp w w' \<longleftrightarrow>
     (\<exists>e. map_of (ic_entries (run_idempotent (sd_runtime w'))) (send_key cr) = Some e \<and> \<not> pending e
        \<and> ie_RequestFingerprint e = cr_fingerprint cr
        \<and> resp = \<lparr>sresp_RequestID = requestID, sresp_MessageID = ie_MessageID e, sresp_Status = MessageStatusQueued\<rparr>)
     \<and> run_idempotent (sd_runtime w') = expire (sv_reserve_time env) (run_idempotent (sd_runtime w))
     \<and> (\<exists>sink. sd_runtime w' = (sd_runtime w)\<lparr>run_idempotent := run_idempotent (sd_runtime w'), run_stats := sink\<rparr>)
     \<and> sd_disk w' = sd_disk w"

lemma record_metric_runtime:
  "\<exists>sink. sd_runtime (record_metric env cr metric w) = (sd_runtime w)\<lparr>run_stats := sink\<rparr>"
  by (auto simp: record_metric_def split: prod.split)

lemma processSend_cases:
  assumes ok: "send_ok (sd_runtime w)" and run: "processSend env rq requestID w = (res, w')"
  shows "case res of
      Inl e \<Rightarrow> given_back env (sd_runtime w) (sd_runtime w')
    | Inr resp \<Rightarrow> \<exists>cr. check_send env (sd_runtime w) rq = Inr cr
        \<and> (replayed env requestID cr resp w w'
           \<or> (\<exists>message. queued_message env requestID cr message w w'
                \<and> resp = \<lparr>sresp_RequestID = requestID, sresp_MessageID = msg_MessageID message,
                          sresp_Status = MessageStatusQueued\<rparr>))"
proof (cases "check_send env (sd_runtime w) rq")
  case (Inl e)
  then show ?thesis using run ok
    by (auto simp: processSend_def given_back_def rates_kept_def idem_kept_def)
next
  case check: (Inr cr)
  let ?rt = "sd_runtime w" and ?t = "sv_reserve_time env"
  let ?c1 = "expire ?t (run_idempotent ?rt)"
  have cok: "cache_ok (run_idempotent ?rt)" using ok by (simp add: send_ok_def)
  have gave: "given_back env ?rt (sd_runtime (set_idem ?c1 w))"
    using ok idem_kept_expire [OF cok] by (simp add: given_back_def rates_kept_def send_ok_def)
  show ?thesis
  proof (cases rule: Reserve_cases [OF cok refl refl, of ?t "app_Code (auth_App (cr_auth cr))"
        "scene_Code (cr_scene cr)" "cr_hash cr" "cr_fingerprint cr"])
    case (1 e)
    then show ?thesis using run check gave by (auto simp: processSend_def)
  next
    case (2 e)
    let ?w = "record_metric env cr MetricRequestsIdempotentReplay (set_idem ?c1 w)"
    have w': "w' = ?w" "res = Inr \<lparr>sresp_RequestID = requestID, sresp_MessageID = ie_MessageID e,
        sresp_Status = MessageStatusQueued\<rparr>"
      using 2 run check by (auto simp: processSend_def)
    obtain sink where "sd_runtime ?w = (sd_runtime (set_idem ?c1 w))\<lparr>run_stats := sink\<rparr>"
      using record_metric_runtime by blast
    then have "replayed env requestID cr (projr res) w w'"
      using 2 w' by (auto simp: replayed_def send_key_def intro!: exI [of _ sink])
    then show ?thesis using w'(2) check by auto
  next
    case 3
    then show ?thesis using run check gave by (auto simp: processSend_def)
  next
    case 4
    then show ?thesis
      using reserved_send_outcome [OF ok 4(3), of requestID rq res w'] run check
      by (cases res) (auto simp: processSend_def new_decision_def)
  next
    case (5 j e)
    then show ?thesis
      using reserved_send_outcome [OF ok 5(7), of requestID rq res w'] run check
      by (cases res) (auto simp: processSend_def new_decision_def)
  qed
qed

text \<open>What the handler checks does not depend on what other requests change.\<close>

lemma check_send_same:
  "run_auth rt' = run_auth rt \<Longrightarrow> run_defaults rt' = run_defaults rt \<Longrightarrow> sv_text env' = sv_text env \<Longrightarrow>
   sv_html env' = sv_html env \<Longrightarrow> check_send env' rt' rq = check_send env rt rq"
  by (simp add: check_send_def)

lemma queued_then_replayed:
  assumes q: "queued_message env id1 cr message w w1" and check: "check_send env (sd_runtime w) rq = Inr cr"
    and engines: "sv_text env' = sv_text env" "sv_html env' = sv_html env"
    and t: "sv_reserve_time env' < sv_complete_time env + ic_ttl (run_idempotent (sd_runtime w))"
  shows "\<exists>w2. processSend env' rq id2 w1 = (Inr \<lparr>sresp_RequestID = id2, sresp_MessageID = msg_MessageID message,
      sresp_Status = MessageStatusQueued\<rparr>, w2) \<and> sd_disk w2 = sd_disk w1
    \<and> run_queue (sd_runtime w2) = run_queue (sd_runtime w1) \<and> run_rateLimit (sd_runtime w2) = run_rateLimit (sd_runtime w1)"
proof -
  let ?c = "run_idempotent (sd_runtime w1)"
  have f: "map_of (ic_entries ?c) (send_key cr)
        = Some (queued_entry (sv_complete_time env) (cr_fingerprint cr) (msg_MessageID message))"
      "ic_ttl ?c = ic_ttl (run_idempotent (sd_runtime w))" "cache_ok ?c"
      "run_auth (sd_runtime w1) = run_auth (sd_runtime w)" "run_defaults (sd_runtime w1) = run_defaults (sd_runtime w)"
    using q by (auto simp: queued_message_def Let_def send_ok_def)
  have "check_send env' (sd_runtime w1) rq = Inr cr"
    using check_send_same [OF f(4,5) engines] check by simp
  moreover have "map_of (ic_entries (expire (sv_reserve_time env') ?c)) (send_key cr)
        = Some (queued_entry (sv_complete_time env) (cr_fingerprint cr) (msg_MessageID message))"
    using f(1,2,3) t by (simp add: cache_ok_def map_of_expire queued_entry_def)
  ultimately show ?thesis
    by (simp add: processSend_def Idempotency.Reserve_def Let_def queued_entry_def flip: send_key_def)
qed

lemma queued_then_conflict:
  assumes q: "queued_message env id1 cr message w w1" and check: "check_send env' (sd_runtime w1) rq' = Inr cr'"
    and "send_key cr' = send_key cr" "cr_fingerprint cr' \<noteq> cr_fingerprint cr"
    and t: "sv_reserve_time env' < sv_complete_time env + ic_ttl (run_idempotent (sd_runtime w))"
  shows "fst (processSend env' rq' id2 w1) = Inl IdempotencyConflict"
proof -
  let ?c = "run_idempotent (sd_runtime w1)"
  have "map_of (ic_entries (expire (sv_reserve_time env') ?c)) (send_key cr)
        = Some (queued_entry (sv_complete_time env) (cr_fingerprint cr) (msg_MessageID message))"
    using q t by (auto simp: queued_message_def Let_def send_ok_def cache_ok_def map_of_expire queued_entry_def)
  then show ?thesis using assms(3,4) check
    by (simp add: processSend_def Idempotency.Reserve_def Let_def queued_entry_def flip: send_key_def)
qed

section \<open>Internal errors\<close>

definition internal :: "go_error \<Rightarrow> bool" where
  "internal e \<longleftrightarrow> fst (classifyAPIError e) = ErrorCodeInternal"

named_theorems not_internal \<open>the errors of the checks are answered as errors of the client\<close>

lemma client_error_not_internal [not_internal]: "client_error e \<Longrightarrow> \<not> internal e"
  by (auto simp: client_error_def internal_def classifyAPIError_def)

lemma not_internal_errors [simp]:
  "internal (RequestValidationError code msg) \<longleftrightarrow> code = ErrorCodeInternal"
  "internal (APIError code msg) \<longleftrightarrow> code = ErrorCodeInternal"
  "internal (AuthError code msg) \<longleftrightarrow> code = ErrorCodeInternal"
  "internal (RenderError code msg) \<longleftrightarrow> code = ErrorCodeInternal"
  "internal (RouteSelectionError code msg) \<longleftrightarrow> code = ErrorCodeInternal"
  "internal (QueueFullError code) \<longleftrightarrow> code = ErrorCodeInternal"
  "internal (IdempotencyConflictError code) \<longleftrightarrow> code = ErrorCodeInternal"
  "internal (RateLimitExceededError code rule l n s) \<longleftrightarrow> code = ErrorCodeInternal"
  by (simp_all add: internal_def classifyAPIError_def)

lemma match_key_error: "match_key app h keys = Some (Inl e) \<Longrightarrow> \<not> internal e"
  by (induction keys) (auto simp: unauthorized_def split: if_splits)

lemma match_app_error: "match_app h apps = Some (Inl e) \<Longrightarrow> \<not> internal e"
  by (induction apps) (auto dest: match_key_error split: option.splits)

lemma AuthenticateHeader_error [not_internal]: "AuthenticateHeader apps header = Inl e \<Longrightarrow> \<not> internal e"
  by (auto simp: AuthenticateHeader_def unauthorized_def dest: match_app_error split: option.splits if_splits)

lemma content_type_error [not_internal]: "validateSendContentType t = Inl e \<Longrightarrow> \<not> internal e"
  by (auto simp: validateSendContentType_def Let_def split: option.splits if_splits)

lemma read_body_error [not_internal]: "read_body n rq = Inl e \<Longrightarrow> \<not> internal e"
  by (auto simp: read_body_def Let_def split: if_splits)

lemma decode_error [not_internal]: "decodeSendJSONObject body = Inl e \<Longrightarrow> \<not> internal e"
  by (auto simp: decodeSendJSONObject_def split: option.splits prod.splits if_splits json.splits)

lemma scene_code_error [not_internal]: "extractSceneCode raw = Inl e \<Longrightarrow> \<not> internal e"
  by (auto simp: extractSceneCode_def split: option.splits if_splits)

lemma find_scene_error [not_internal]: "findSceneByCode app code = Inl e \<Longrightarrow> \<not> internal e"
proof -
  have "find_scene scenes code = Inl e \<Longrightarrow> \<not> internal e" for scenes
    by (induction scenes) (auto split: if_splits)
  then show "findSceneByCode app code = Inl e \<Longrightarrow> \<not> internal e" by (simp add: findSceneByCode_def)
qed

lemma validate_error [not_internal]: "ValidateSendRequest inp options = Inl e \<Longrightarrow> \<not> internal e"
  by (rule client_error_not_internal) (rule ValidateSendRequest_error)

lemma render_not_internal [not_internal]: "Render te he app scene request = Inl e \<Longrightarrow> \<not> internal e"
  by (drule Render_error) auto

lemma route_error [not_internal]: "SelectRoute scene to n = Inl e \<Longrightarrow> \<not> internal e"
  by (auto simp: SelectRoute_def routeSelectionError_def Let_def split: option.splits if_splits)

text \<open>The fingerprint of a checked request never fails for the default limit on the variables.\<close>

lemma fingerprint_total:
  assumes "ValidateSendRequest inp options = Inr r"
    and "opt_MaxTemplateVarBytes (applySendRequestValidationDefaults options) \<le> defaultMaxTemplateVarBytes"
  shows "\<forall>to loc. \<exists>c. RequestFingerprint to loc (sr_Vars r) = Inr c"
  using accepted_request_plain(1) [OF assms]
  by (simp add: RequestFingerprint_def canonicalRequestJSON_def writeCanonicalVars_plain)

lemma check_send_error:
  assumes "check_send env rt rq = Inl e" "defaults_MaxTemplateVarBytes (run_defaults rt) \<le> 8192"
  shows "\<not> internal e"
proof
  assume i: "internal e"
  have lim: "opt_MaxTemplateVarBytes (applySendRequestValidationDefaults
      \<lparr>opt_MaxRequestBodyBytes = a, opt_MaxTemplateVarBytes = defaults_MaxTemplateVarBytes (run_defaults rt),
       opt_MaxContextBytes = b\<rparr>) \<le> defaultMaxTemplateVarBytes" for a b
    using assms(2) by (simp add: applySendRequestValidationDefaults_def defaultMaxTemplateVarBytes_def)
  show False using assms(1) i
    by (auto simp: check_send_def and_then_Inl_iff wrapped_def dest: not_internal
        dest!: fingerprint_total [OF _ lim] split: sum.splits)
qed

text \<open>What is behind an internal error: a resource that is used up or closed, or a call that failed.\<close>

definition internal_cause :: "send_env \<Rightarrow> send_world \<Rightarrow> bool" where
  "internal_cause env w \<longleftrightarrow>
     (\<forall>x \<in> set (ic_entries (expire (sv_reserve_time env) (run_idempotent (sd_runtime w)))). pending (snd x))
       \<and> int (length (ic_entries (expire (sv_reserve_time env) (run_idempotent (sd_runtime w)))))
           = ic_limit (run_idempotent (sd_runtime w))
     \<or> q_closed (run_queue (sd_runtime w)) \<or> sv_shutdown env
     \<or> (\<exists>app \<in> set (run_auth (sd_runtime w)). \<exists>scene \<in> set (app_Scenes app).
          let p = scene_RateLimit scene
          in SameEmailPerMinute p \<le> 0 \<or> SameEmailPerDay p \<le> 0 \<or> SameUserIPPerHour p \<le> 0
             \<or> SameCallerIPPerHour p \<le> 0)
     \<or> (\<exists>e. NewMessageID (sv_draws env) = Inl e)
     \<or> (\<exists>e message. fst (append_message (sv_append env) (sv_message_time env) message w) = Inl e)"

lemma find_scene_in: "find_scene scenes code = Inr scene \<Longrightarrow> scene \<in> set scenes"
  by (induction scenes) (auto split: if_splits)

lemma match_key_app: "match_key app h keys = Some (Inr a) \<Longrightarrow> auth_App a = app"
  by (induction keys) (auto split: if_splits)

lemma match_app_app: "match_app h apps = Some (Inr a) \<Longrightarrow> auth_App a \<in> set apps"
  by (induction apps) (auto dest: match_key_app split: option.splits)

lemma check_send_scene:
  "check_send env rt rq = Inr cr \<Longrightarrow>
   auth_App (cr_auth cr) \<in> set (run_auth rt) \<and> cr_scene cr \<in> set (app_Scenes (auth_App (cr_auth cr)))"
  by (auto simp: check_send_def AuthenticateHeader_def findSceneByCode_def dest: find_scene_in match_app_app
      split: option.splits if_splits)

text \<open>The outcome of the append depends on the log alone.\<close>

lemma append_message_cong:
  "run_messageLog (sd_runtime w) = run_messageLog (sd_runtime w') \<Longrightarrow> sd_disk w = sd_disk w' \<Longrightarrow>
   fst (append_message a now message w) = fst (append_message a now message w')"
  by (auto simp: append_message_def split: prod.split)

lemma commit_send_internal:
  assumes ok: "send_ok rt" and r: "all_reserved env rt cr request qr ir d w"
    and e: "commit_send env requestID cr selection callerIP d (Some qr) (Some ir) w = (Inl e, w')"
  shows "(\<exists>e. NewMessageID (sv_draws env) = Inl e)
    \<or> (\<exists>e message. fst (append_message (sv_append env) (sv_message_time env) message w) = Inl e)
    \<or> sv_shutdown env"
proof (cases "NewMessageID (sv_draws env)")
  case (Inr messageID)
  let ?message = "send_message requestID cr selection callerIP messageID"
  obtain x w1 where a: "append_message (sv_append env) (sv_message_time env) ?message w = (x, w1)" by fastforce
  have st: "same_state (sd_runtime w) (sd_runtime w1)"
    using append_message_state [of w "sv_append env" "sv_message_time env" ?message] a by simp
  note r1 = all_reserved_state [OF r st]
  have q: "MemoryQueue.Reserve (run_queue rt) = (Inr qr, run_queue (sd_runtime w1))" using r1 by (simp add: all_reserved_def)
  then have q1: "\<not> res_used qr \<and> \<not> q_closed (run_queue rt)
      \<and> run_queue (sd_runtime w1) = (run_queue rt)\<lparr>q_pending := q_pending (run_queue rt) + 1\<rparr>"
    by (auto simp: MemoryQueue.Reserve_def split: if_splits)
  then have unused: "\<not> res_used qr" and opened: "\<not> q_closed (run_queue (sd_runtime w1))" by simp_all
  show ?thesis
  proof (rule ccontr)
    assume n: "\<not> ?thesis"
    have x: "x = Inr ()" using n a by (cases x) (metis fst_conv, simp)
    have sd: "shut_down env w1 = w1" using n by (simp add: shut_down_def)
    obtain res qr' w2 where c: "commitInitialQueueTask env (Some qr) ?message w1 = (res, qr', w2)"
      using prod_cases3 by blast
    note task = commit_task [OF c unused]
    have res: "res = Inr ()" using task opened by (cases res) auto
    then have "run_idempotent (sd_runtime w2) = run_idempotent (sd_runtime w1)"
      using task by (cases w2) auto
    from complete_reserved [OF ok r1 Inr this] show False
      using e Inr a x c res sd by (simp add: commit_send_def wrapped_def)
  qed
qed auto

lemma Allow_internal:
  assumes "Allow now request m = (d, Some e, m')" "internal e"
  shows "let p = rl_Policy request in SameEmailPerMinute p \<le> 0 \<or> SameEmailPerDay p \<le> 0 \<or> SameUserIPPerHour p \<le> 0
    \<or> SameCallerIPPerHour p \<le> 0"
proof (cases rule: Allow_cases [of request now m])
  case (config e')
  then obtain c where "find (\<lambda>c. ck_limit c \<le> 0) (rate_checks request now) = Some c"
    by (auto simp: buildRateLimitChecks_def split: option.splits)
  then have "c \<in> set (rate_checks request now)" "ck_limit c \<le> 0" by (auto simp: find_Some_iff)
  then show ?thesis by (auto simp: rate_checks_def Let_def split: if_splits)
qed (use assms in auto)

lemma reserved_send_internal:
  assumes ok: "send_ok (sd_runtime w)"
    and scene: "auth_App (cr_auth cr) \<in> set (run_auth (sd_runtime w))"
      "cr_scene cr \<in> set (app_Scenes (auth_App (cr_auth cr)))"
    and idem: "Idempotency.Reserve (sv_reserve_time env) (app_Code (auth_App (cr_auth cr)))
        (scene_Code (cr_scene cr)) (cr_hash cr) (cr_fingerprint cr) (run_idempotent (sd_runtime w))
      = (Inr (Some ir, new_decision), c)"
    and run: "reserved_send env requestID rq cr (Some ir) (set_idem c w) = (Inl e, w')" and i: "internal e"
  shows "internal_cause env w"
proof -
  let ?rt = "sd_runtime w" and ?request = "rate_request (sd_runtime w) rq cr"
  let ?sup = "Contains_suppressed (app_Code (auth_App (cr_auth cr))) (sr_NormalizedToEmail (cr_request cr))
      (Some (run_suppressed ?rt))"
  let ?route = "SelectRoute (cr_scene cr) (sr_NormalizedToEmail (cr_request cr))
      (defaults_MaxAttemptsPerMessage (run_defaults ?rt))"
  obtain qres q where q: "MemoryQueue.Reserve (run_queue ?rt) = (qres, q)" by fastforce
  obtain d x m where allow: "Allow (sv_allow_time env) ?request (run_rateLimit ?rt) = (d, x, m)"
    using prod_cases3 by blast
  note r = run [unfolded reserved_send_def Let_def]
  have sup: "?sup = None" using r i by (cases ?sup) auto
  obtain selection where route: "?route = Inr selection"
    using r i sup route_error by (cases ?route) auto
  show ?thesis
  proof (cases qres)
    case (Inl e')
    then have "e = e'" using r sup route q by simp
    then have "q_closed (run_queue ?rt)"
      using q Inl i by (auto simp: MemoryQueue.Reserve_def split: if_splits)
    then show ?thesis by (simp add: internal_cause_def)
  next
    case slot: (Inr qr)
    show ?thesis
    proof (cases x)
      case (Some e')
      then have "e = e'" using r sup route q slot allow by (simp add: rate_request_def)
      then have "let p = scene_RateLimit (cr_scene cr) in SameEmailPerMinute p \<le> 0 \<or> SameEmailPerDay p \<le> 0
          \<or> SameUserIPPerHour p \<le> 0 \<or> SameCallerIPPerHour p \<le> 0"
        using Allow_internal [OF allow [unfolded Some]] i by (simp add: rate_request_def)
      then show ?thesis using scene unfolding internal_cause_def by blast
    next
      case None
      let ?w = "set_rates m (set_queue q (set_idem c w))"
      have all: "all_reserved env ?rt cr ?request qr ir d ?w"
        using q slot allow None idem by (simp add: all_reserved_def)
      have "commit_send env requestID cr selection (rl_CallerIP ?request) d (Some qr) (Some ir) ?w = (Inl e, w')"
        using r sup route q slot allow None by (simp add: rate_request_def)
      from commit_send_internal [OF ok all this] show ?thesis
        using append_message_cong [of ?w w] by (auto simp: internal_cause_def)
    qed
  qed
qed

section \<open>Requests that are accepted\<close>

lemma send_accepts:
  assumes ok: "send_ok (sd_runtime w)" and check: "check_send env (sd_runtime w) rq = Inr cr"
    and new: "map_of (ic_entries (expire (sv_reserve_time env) (run_idempotent (sd_runtime w)))) (send_key cr) = None"
      "int (length (ic_entries (expire (sv_reserve_time env) (run_idempotent (sd_runtime w)))))
         < ic_limit (run_idempotent (sd_runtime w))"
    and sup: "Contains_suppressed (app_Code (auth_App (cr_auth cr))) (sr_NormalizedToEmail (cr_request cr))
      (Some (run_suppressed (sd_runtime w))) = None"
    and route: "SelectRoute (cr_scene cr) (sr_NormalizedToEmail (cr_request cr))
      (defaults_MaxAttemptsPerMessage (run_defaults (sd_runtime w))) = Inr selection"
    and room: "\<not> q_closed (run_queue (sd_runtime w))"
      "q_pending (run_queue (sd_runtime w)) < q_capacity (run_queue (sd_runtime w))"
    and allow: "Allow (sv_allow_time env) (rate_request (sd_runtime w) rq cr) (run_rateLimit (sd_runtime w)) = (d, None, m)"
    and calls: "NewMessageID (sv_draws env) = Inr i" "\<not> sv_shutdown env"
      "\<And>message. fst (append_message (sv_append env) (sv_message_time env) message w) = Inr ()"
  shows "\<exists>resp w1. processSend env rq requestID w = (Inr resp, w1) \<and> run_queue (sd_runtime w1) \<noteq> run_queue (sd_runtime w)"
proof -
  let ?rt = "sd_runtime w"
  have cok: "cache_ok (run_idempotent ?rt)" using ok by (simp add: send_ok_def)
  obtain ir c where idem: "Idempotency.Reserve (sv_reserve_time env) (app_Code (auth_App (cr_auth cr)))
        (scene_Code (cr_scene cr)) (cr_hash cr) (cr_fingerprint cr) (run_idempotent ?rt) = (Inr (Some ir, new_decision), c)"
    using new
    by (cases rule: Reserve_cases [OF cok refl refl, of "sv_reserve_time env" "app_Code (auth_App (cr_auth cr))"
        "scene_Code (cr_scene cr)" "cr_hash cr" "cr_fingerprint cr"]) (auto simp: send_key_def)
  obtain qr q where q: "MemoryQueue.Reserve (run_queue ?rt) = (Inr qr, q)"
    using room by (simp add: MemoryQueue.Reserve_def)
  let ?w = "set_rates m (set_queue q (set_idem c w))"
  let ?ip = "rl_CallerIP (rate_request ?rt rq cr)"
  have all: "all_reserved env ?rt cr (rate_request ?rt rq cr) qr ir d ?w"
    using q allow idem by (simp add: all_reserved_def)
  obtain res w1 where c: "commit_send env requestID cr selection ?ip d (Some qr) (Some ir) ?w = (res, w1)" by fastforce
  have run: "processSend env rq requestID w = (res, w1)"
    using check idem sup route q allow c
    by (simp add: processSend_def reserved_send_def Let_def new_decision_def rate_request_def)
  have log: "fst (append_message (sv_append env) (sv_message_time env) message ?w) = Inr ()" for message
    using append_message_cong [of ?w w] calls(3) by simp
  obtain resp where res: "res = Inr resp"
  proof (cases res)
    case (Inl e)
    from commit_send_internal [OF ok all c [unfolded Inl]] calls(1,2) log show thesis by auto
  qed
  have "run_queue (sd_runtime w1) \<noteq> run_queue ?rt"
    by (rule commit_send_success [OF ok all c [unfolded res]])
      (simp add: with_first_attempt_queue)
  then show ?thesis using run res by blast
qed

section \<open>An example\<close>

text \<open>The application of \<open>sample_config\<close> with its key, and a request for its scene.\<close>

definition sample_send_app :: App where
  "sample_send_app = DomainAppFromConfig sample_app
     [\<lparr>key_Name = ''main'', key_Enabled = True, key_KeyHash = APIKeyHash ''0123456789abcdefghijklmn''\<rparr>]"

definition sample_send_world :: send_world where
  "sample_send_world =
     (let writer = \<lparr>jw_maxBytes = 1000, jw_maxBackups = 1, jw_open = True, jw_failed = None, jw_currentSize = 0\<rparr>
      in \<lparr>sd_runtime = \<lparr>run_auth = [sample_send_app],
           run_messageLog = \<lparr>ml_messages = writer, ml_attempts = writer, ml_events = None\<rparr>,
           run_stats = NoopStatsSink, run_queue = MemoryQueue.sample_queue,
           run_idempotent = \<lparr>ic_ttl = 60, ic_limit = 2, ic_entries = []\<rparr>,
           run_suppressed = NewEmptySuppressionStore, run_callerIP = [],
           run_webhook = \<lparr>wa_enabled = False, wa_secretHash = []\<rparr>,
           run_resendHook = \<lparr>rv_enabled = False, rv_secret = []\<rparr>,
           run_brevoHook = \<lparr>bv_enabled = False, bv_tokenHash = []\<rparr>,
           run_rateLimit = [], run_defaults = cfg_Defaults sample_config\<rparr>,
          sd_disk = (\<lambda>_. Map.empty), sd_stats = Map.empty\<rparr>)"

definition sample_send_env :: send_env where
  "sample_send_env =
     \<lparr>sv_text = (\<lambda>name source. Inr (\<lambda>vars. Inr source)), sv_html = (\<lambda>name source. Inr (\<lambda>vars. Inr source)),
      sv_draws = (\<lambda>_. Inr 7), sv_reserve_time = 1, sv_allow_time = 2, sv_message_time = 3, sv_commit_time = 4,
      sv_failed_time = 5, sv_complete_time = 6, sv_stats_time = 7, sv_append = calm, sv_failed_append = calm,
      sv_stats_append = calm, sv_stats_line = (\<lambda>_ _. []), sv_shutdown = False\<rparr>"

definition sample_http :: http_request where
  "sample_http =
     \<lparr>hr_Header = (\<lambda>name. if name = ''Authorization'' then ''Bearer 0123456789abcdefghijklmn''
        else if name = ''Content-Type'' then ''application/json''
        else if name = ''Idempotency-Key'' then ''order-1'' else []),
      hr_RemoteAddr = ''192.0.2.7:4711'',
      hr_Body = object_text [(''scene'', json_quote ''login''), (''to'', json_quote ''bob@x.co''),
        (''vars'', object_text [(''code'', json_quote ''1234'')])],
      hr_BodyError = False\<rparr>"

lemma sample_send_ok: "send_ok (sd_runtime sample_send_world)"
  by (simp add: sample_send_world_def send_ok_def MemoryQueue.sample_queue_def rates_ok_def cache_ok_def Let_def)

lemma sample_auth:
  "AuthenticateHeader [sample_send_app] ''Bearer 0123456789abcdefghijklmn'' = Inr \<lparr>auth_App = sample_send_app,
     auth_APIKey = \<lparr>key_Name = ''main'', key_Enabled = True, key_KeyHash = APIKeyHash ''0123456789abcdefghijklmn''\<rparr>\<rparr>"
proof -
  have v: "IsValidAPIKeyValue ''0123456789abcdefghijklmn''" by code_simp
  have "parseBearerToken (''Bearer '' @ ''0123456789abcdefghijklmn'') = Some ''0123456789abcdefghijklmn''"
    by (rule parseBearerToken_word [OF api_key_word [OF v]])
  then have p: "parseBearerToken ''Bearer 0123456789abcdefghijklmn'' = Some ''0123456789abcdefghijklmn''" by simp
  show ?thesis
    by (simp add: AuthenticateHeader_def p v sample_send_app_def DomainAppFromConfig_def sample_app_def
        EnabledValue_def ConstantTimeEqualHex_eq del: APIKeyHash_def)
qed

lemma sample_send_request:
  "\<exists>r. ValidateSendRequest
      \<lparr>in_ContentType = ''application/json'', in_IdempotencyKey = ''order-1'', in_Body = hr_Body sample_http,
       in_AllowedLocales = [''en-US'', ''de-DE'']\<rparr>
      \<lparr>opt_MaxRequestBodyBytes = 65536, opt_MaxTemplateVarBytes = 8192, opt_MaxContextBytes = 4096\<rparr> = Inr r
    \<and> sr_NormalizedToEmail r = ''bob@x.co'' \<and> sr_Locale r = [] \<and> sr_Vars r = [(''code'', JString ''1234'')]
    \<and> sr_UserIP r = []"
proof -
  have "(case ValidateSendRequest
      \<lparr>in_ContentType = ''application/json'', in_IdempotencyKey = ''order-1'', in_Body = hr_Body sample_http,
       in_AllowedLocales = [''en-US'', ''de-DE'']\<rparr>
      \<lparr>opt_MaxRequestBodyBytes = 65536, opt_MaxTemplateVarBytes = 8192, opt_MaxContextBytes = 4096\<rparr> of
      Inl _ \<Rightarrow> False | Inr r \<Rightarrow> sr_NormalizedToEmail r = ''bob@x.co'' \<and> sr_Locale r = []
        \<and> sr_Vars r = [(''code'', JString ''1234'')] \<and> sr_UserIP r = [])"
    by code_simp
  then show ?thesis by (auto split: sum.splits)
qed

lemma sample_body:
  "validateSendContentType ''application/json'' = Inr ()" "read_body 65536 sample_http = Inr (hr_Body sample_http)"
  "(case decodeSendJSONObject (hr_Body sample_http) of Inl _ \<Rightarrow> False | Inr raw \<Rightarrow> extractSceneCode raw = Inr ''login'')"
  by code_simp+

lemma sample_defaults:
  "defaults_MaxRequestBodyBytes (cfg_Defaults sample_config) = 65536"
  "defaults_MaxTemplateVarBytes (cfg_Defaults sample_config) = 8192"
  "defaults_MaxContextBytes (cfg_Defaults sample_config) = 4096"
  "defaults_MaxAttemptsPerMessage (cfg_Defaults sample_config) = 3"
  by code_simp+

lemma sample_fields:
  "run_auth (sd_runtime sample_send_world) = [sample_send_app]"
  "run_defaults (sd_runtime sample_send_world) = cfg_Defaults sample_config"
  "run_queue (sd_runtime sample_send_world) = MemoryQueue.sample_queue"
  "run_idempotent (sd_runtime sample_send_world) = \<lparr>ic_ttl = 60, ic_limit = 2, ic_entries = []\<rparr>"
  "run_suppressed (sd_runtime sample_send_world) = NewEmptySuppressionStore"
  "run_rateLimit (sd_runtime sample_send_world) = []" "run_callerIP (sd_runtime sample_send_world) = []"
  by (simp_all add: sample_send_world_def Let_def)

lemma sample_check:
  "\<exists>cr. check_send sample_send_env (sd_runtime sample_send_world) sample_http = Inr cr
     \<and> cr_scene cr = scene_from_config (hd (ac_Scenes sample_app)) \<and> sr_NormalizedToEmail (cr_request cr) = ''bob@x.co''
     \<and> sr_UserIP (cr_request cr) = [] \<and> cr_auth cr = \<lparr>auth_App = sample_send_app, auth_APIKey =
         \<lparr>key_Name = ''main'', key_Enabled = True, key_KeyHash = APIKeyHash ''0123456789abcdefghijklmn''\<rparr>\<rparr>"
proof -
  obtain r where r: "ValidateSendRequest
      \<lparr>in_ContentType = ''application/json'', in_IdempotencyKey = ''order-1'', in_Body = hr_Body sample_http,
       in_AllowedLocales = [''en-US'', ''de-DE'']\<rparr>
      \<lparr>opt_MaxRequestBodyBytes = 65536, opt_MaxTemplateVarBytes = 8192, opt_MaxContextBytes = 4096\<rparr> = Inr r"
    "sr_NormalizedToEmail r = ''bob@x.co''" "sr_Locale r = []" "sr_Vars r = [(''code'', JString ''1234'')]"
    "sr_UserIP r = []"
    using sample_send_request by blast
  obtain raw where raw: "decodeSendJSONObject (hr_Body sample_http) = Inr raw" "extractSceneCode raw = Inr ''login''"
    using sample_body(3) by (auto split: sum.splits)
  have header: "hr_Header sample_http ''Authorization'' = ''Bearer 0123456789abcdefghijklmn''"
    "hr_Header sample_http ''Content-Type'' = ''application/json''" "hr_Header sample_http ''Idempotency-Key'' = ''order-1''"
    by (simp_all add: sample_http_def)
  have scene: "findSceneByCode sample_send_app ''login'' = Inr (scene_from_config (hd (ac_Scenes sample_app)))"
    "app_AllowedLocales sample_send_app = [''en-US'', ''de-DE'']"
    by (simp_all add: findSceneByCode_def sample_send_app_def DomainAppFromConfig_def sample_app_def scene_from_config_def
        EnabledValue_def)
  have subject: "TrimSpace ''Code'' \<noteq> []" "IsSafeEmailHeaderValue ''Code''" by code_simp+
  obtain m where m: "Render (sv_text sample_send_env) (sv_html sample_send_env) sample_send_app
      (scene_from_config (hd (ac_Scenes sample_app))) r = Inr m"
    using subject r(3,4)
    by (auto simp: Render_def resolveTemplate_def sample_send_app_def DomainAppFromConfig_def sample_app_def
        scene_from_config_def template_from_config_def EnabledValue_def requireVars_def render_template_def
        render_body_def sample_send_env_def Let_def)
  have lim: "opt_MaxTemplateVarBytes (applySendRequestValidationDefaults
      \<lparr>opt_MaxRequestBodyBytes = 65536, opt_MaxTemplateVarBytes = 8192, opt_MaxContextBytes = 4096\<rparr>)
      \<le> defaultMaxTemplateVarBytes"
    by code_simp
  obtain f where f: "RequestFingerprint (sr_NormalizedToEmail r) (RenderedMail.rm_Locale m) (sr_Vars r) = Inr f"
    using fingerprint_total [OF r(1) lim] by blast
  show ?thesis
    using r m f raw scene
    by (simp add: check_send_def sample_fields sample_defaults header sample_auth sample_body(1,2) wrapped_def)
qed

lemma sample_sent:
  "\<exists>resp w1. processSend sample_send_env sample_http ''req_1'' sample_send_world = (Inr resp, w1)
     \<and> run_queue (sd_runtime w1) \<noteq> run_queue (sd_runtime sample_send_world)"
proof -
  obtain cr where cr: "check_send sample_send_env (sd_runtime sample_send_world) sample_http = Inr cr"
    "cr_scene cr = scene_from_config (hd (ac_Scenes sample_app))" "sr_NormalizedToEmail (cr_request cr) = ''bob@x.co''"
    "sr_UserIP (cr_request cr) = []" "auth_App (cr_auth cr) = sample_send_app"
    using sample_check by auto
  have "\<exists>sel. SelectRoute (scene_from_config (hd (ac_Scenes sample_app))) ''bob@x.co'' 3 = Inr sel"
    by (rule exI [of _ "\<lparr>RecipientDomain_of = ''x.co'', Channels = [''main'']\<rparr>"]) code_simp
  then obtain selection where sel: "SelectRoute (cr_scene cr) (sr_NormalizedToEmail (cr_request cr))
      (defaults_MaxAttemptsPerMessage (run_defaults (sd_runtime sample_send_world))) = Inr selection"
    using cr(2,3) by (auto simp: sample_fields sample_defaults)
  have limits: "scene_RateLimit (cr_scene cr) = \<lparr>SameEmailPerMinute = 1, SameEmailPerDay = 10, SameUserIPPerHour = 20,
      SameCallerIPPerHour = 100\<rparr>"
    by (simp add: cr(2) scene_from_config_def sample_app_def DomainRateLimitPolicy_def)
  have "\<exists>d m. Allow 2 (rate_request (sd_runtime sample_send_world) sample_http cr) [] = (d, None, m)"
    by (simp add: Allow_def buildRateLimitChecks_def rate_checks_def rate_request_def cr(3,4) limits Let_def
        lookup_counter_def deleteExpired_def)
  then obtain d m where allow: "Allow (sv_allow_time sample_send_env) (rate_request (sd_runtime sample_send_world)
      sample_http cr) (run_rateLimit (sd_runtime sample_send_world)) = (d, None, m)"
    by (auto simp: sample_fields sample_send_env_def)
  have "\<exists>i. NewMessageID (sv_draws sample_send_env) = Inr i"
    by (rule exI [of _ "''msg_'' @ replicate 26 (CHR ''7'')"]) code_simp
  then obtain i where i: "NewMessageID (sv_draws sample_send_env) = Inr i" by blast
  have log: "fst (append_message (sv_append sample_send_env) (sv_message_time sample_send_env) message sample_send_world)
      = Inr ()" for message
  proof -
    have w: "writer_ok (ml_messages (run_messageLog (sd_runtime sample_send_world))) (sd_disk sample_send_world Messages_log)"
      by (simp add: sample_send_world_def Let_def writer_ok_def content_def)
    show ?thesis
      by (rule append_calm [OF w, of "encodeMessageRecord json_quote (format_time (sv_message_time sample_send_env)) message"])
        (simp_all add: append_message_def AppendMessage_def sample_send_env_def)
  qed
  show ?thesis
    by (rule send_accepts [OF sample_send_ok cr(1) _ _ _ sel _ _ allow i _ log])
      (simp_all add: sample_fields expire_def Contains_suppressed_def NewEmptySuppressionStore_def sample_send_env_def
        MemoryQueue.sample_queue_def)
qed

section \<open>Properties\<close>

text \<open>
  C1. A request to send is a transaction. If it fails, whatever the step, the queue has the free slots it
  had (or is closed, if the shutdown closed it), every counter of a running window is as before, no
  idempotency entry has appeared and no pending one is gone. If it succeeds, it either answers a
  request made before with the same fingerprint, with the message of then, or it has done all of the
  following once: a first attempt of the new message is at the end of the ready tasks, the counters
  are consumed, the message is appended to the log, and the key is bound to the message.
\<close>

theorem send_transaction:
  assumes "send_ok (sd_runtime w)"
  shows "case processSend env rq requestID w of
      (Inl e, w') \<Rightarrow> given_back env (sd_runtime w) (sd_runtime w')
    | (Inr resp, w') \<Rightarrow> \<exists>cr. check_send env (sd_runtime w) rq = Inr cr
        \<and> (replayed env requestID cr resp w w'
           \<or> (\<exists>message. queued_message env requestID cr message w w'
                \<and> resp = \<lparr>sresp_RequestID = requestID, sresp_MessageID = msg_MessageID message,
                          sresp_Status = MessageStatusQueued\<rparr>))"
  using processSend_cases [OF assms, of env rq requestID]
  by (cases "processSend env rq requestID w"; cases "fst (processSend env rq requestID w)") auto

lemma send_transaction_witness:
  "\<exists>cr message w1. queued_message sample_send_env ''req_1'' cr message sample_send_world w1"
proof -
  obtain resp w1 where run: "processSend sample_send_env sample_http ''req_1'' sample_send_world = (Inr resp, w1)"
    "run_queue (sd_runtime w1) \<noteq> run_queue (sd_runtime sample_send_world)"
    using sample_sent by blast
  then obtain cr where "replayed sample_send_env ''req_1'' cr resp sample_send_world w1
      \<or> (\<exists>message. queued_message sample_send_env ''req_1'' cr message sample_send_world w1)"
    using send_transaction [OF sample_send_ok, of sample_send_env sample_http "''req_1''"] by auto
  moreover have "\<not> replayed sample_send_env ''req_1'' cr resp sample_send_world w1"
    using run(2) by (auto simp: replayed_def)
  ultimately show ?thesis by blast
qed

text \<open>
  C2. Sending is idempotent. Once a message is queued, the same request, repeated within the lifetime of the
  key and checked by the same configuration, is answered with the same message and changes neither the
  queue nor the counters nor the log; a request with the same key and another fingerprint is a conflict.
\<close>

theorem send_idempotent:
  assumes "send_ok (sd_runtime w)" "processSend env rq id1 w = (Inr r1, w1)"
    and "run_queue (sd_runtime w1) \<noteq> run_queue (sd_runtime w)"
    and "sv_text env' = sv_text env" "sv_html env' = sv_html env"
    and "sv_reserve_time env' < sv_complete_time env + ic_ttl (run_idempotent (sd_runtime w))"
  shows "(\<exists>w2. processSend env' rq id2 w1 = (Inr \<lparr>sresp_RequestID = id2, sresp_MessageID = sresp_MessageID r1,
        sresp_Status = MessageStatusQueued\<rparr>, w2) \<and> sd_disk w2 = sd_disk w1
      \<and> run_queue (sd_runtime w2) = run_queue (sd_runtime w1)
      \<and> run_rateLimit (sd_runtime w2) = run_rateLimit (sd_runtime w1))
    \<and> (\<forall>rq' cr cr'. check_send env (sd_runtime w) rq = Inr cr \<longrightarrow> check_send env' (sd_runtime w1) rq' = Inr cr' \<longrightarrow>
        send_key cr' = send_key cr \<longrightarrow> cr_fingerprint cr' \<noteq> cr_fingerprint cr \<longrightarrow>
        fst (processSend env' rq' id2 w1) = Inl IdempotencyConflict)"
proof -
  obtain cr message where q: "check_send env (sd_runtime w) rq = Inr cr" "queued_message env id1 cr message w w1"
    "sresp_MessageID r1 = msg_MessageID message"
    using processSend_cases [OF assms(1,2)] assms(3) by (auto simp: replayed_def)
  show ?thesis
    using queued_then_replayed [OF q(2,1) assms(4-6)] queued_then_conflict [OF q(2) _ _ _ assms(6)] q(1,3) by auto
qed

lemma send_idempotent_witness:
  "\<exists>r1 w1 r2 w2. processSend sample_send_env sample_http ''req_1'' sample_send_world = (Inr r1, w1)
     \<and> processSend (sample_send_env\<lparr>sv_reserve_time := 50\<rparr>) sample_http ''req_2'' w1 = (Inr r2, w2)
     \<and> sresp_MessageID r2 = sresp_MessageID r1 \<and> run_queue (sd_runtime w2) = run_queue (sd_runtime w1)"
proof -
  obtain r1 w1 where run: "processSend sample_send_env sample_http ''req_1'' sample_send_world = (Inr r1, w1)"
    "run_queue (sd_runtime w1) \<noteq> run_queue (sd_runtime sample_send_world)"
    using sample_sent by blast
  have "sv_reserve_time (sample_send_env\<lparr>sv_reserve_time := 50\<rparr>)
      < sv_complete_time sample_send_env + ic_ttl (run_idempotent (sd_runtime sample_send_world))"
    by (simp add: sample_send_env_def sample_fields)
  from send_idempotent [OF sample_send_ok run _ _ this, of "''req_2''"] run(1) show ?thesis by auto
qed

text \<open>
  C40. A well-kept service answers no request to send with an internal error: with the default limit on the
  variables, a status 500 means that the idempotency cache is full of requests still in progress, that the
  queue is closed, that a scene has a limit that is not positive (which the validation refuses), that the
  random source failed or that the message could not be written.
\<close>

theorem send_internal_error:
  assumes "send_ok (sd_runtime w)" "defaults_MaxTemplateVarBytes (run_defaults (sd_runtime w)) \<le> 8192"
    and "handleSend env draws http_method rq w = (Failed_answer 500 payload, w')"
  shows "(\<exists>e. NewRequestID draws = Inl e) \<or> internal_cause env w"
proof (cases "NewRequestID draws")
  case (Inr requestID)
  obtain e where e: "processSend env rq requestID w = (Inl e, w')" "statusForErrorCode (fst (classifyAPIError e)) = 500"
    using assms(3) Inr by (auto simp: handleSend_def wrapped_def writeAPIError_def split: if_splits prod.splits sum.splits)
  then have i: "internal e" by (auto simp: statusForErrorCode_def internal_def split: if_splits)
  obtain cr where check: "check_send env (sd_runtime w) rq = Inr cr"
    using e(1) i check_send_error [OF _ assms(2)] by (cases "check_send env (sd_runtime w) rq") (auto simp: processSend_def)
  note scene = check_send_scene [OF check]
  have cok: "cache_ok (run_idempotent (sd_runtime w))" using assms(1) by (simp add: send_ok_def)
  have "internal_cause env w"
  proof (cases rule: Reserve_cases [OF cok refl refl, of "sv_reserve_time env" "app_Code (auth_App (cr_auth cr))"
        "scene_Code (cr_scene cr)" "cr_hash cr" "cr_fingerprint cr"])
    case 1
    then show ?thesis using e(1) i check by (auto simp: processSend_def IdempotencyConflict_def)
  next
    case 2
    then show ?thesis using e(1) check by (simp add: processSend_def)
  next
    case 3
    then show ?thesis by (simp add: internal_cause_def)
  next
    case 4
    then show ?thesis
      using reserved_send_internal [OF assms(1) _ _ 4(3) _ i] e(1) check scene by (auto simp: processSend_def new_decision_def)
  next
    case (5 j x)
    then show ?thesis
      using reserved_send_internal [OF assms(1) _ _ 5(7) _ i] e(1) check scene by (auto simp: processSend_def new_decision_def)
  qed
  then show ?thesis ..
qed blast

text \<open>The random source fails before the request has an id.\<close>

lemma send_internal_error_witness:
  "(\<exists>payload. handleSend sample_send_env (\<lambda>_. Inl (Errorf ''no entropy'')) ''POST'' sample_http sample_send_world
     = (Failed_answer 500 payload, sample_send_world))
   \<and> ((\<exists>e. NewRequestID (\<lambda>_. Inl (Errorf ''no entropy'')) = Inl e) \<or> internal_cause sample_send_env sample_send_world)"
proof -
  have failed: "\<exists>payload. handleSend sample_send_env (\<lambda>_. Inl (Errorf ''no entropy'')) ''POST'' sample_http
      sample_send_world = (Failed_answer 500 payload, sample_send_world)"
    by (simp add: handleSend_def NewRequestID_def newPrefixedID_def idBodyLength_def eval_nat_numeral wrapped_def writeAPIError_def
        classifyAPIError_def statusForErrorCode_def split: prod.splits)
  then obtain payload where answer: "handleSend sample_send_env (\<lambda>_. Inl (Errorf ''no entropy'')) ''POST'' sample_http
      sample_send_world = (Failed_answer 500 payload, sample_send_world)" by blast
  have vars: "defaults_MaxTemplateVarBytes (run_defaults (sd_runtime sample_send_world)) \<le> 8192"
    by (simp add: sample_fields(2) sample_defaults(2))
  show ?thesis using failed send_internal_error [OF sample_send_ok vars answer] by (rule conjI)
qed

end
