(* ===== verification/MailText.thy ===== *)
theory MailText
  imports Base64 Email Json
begin

text \<open>
  The text of a mail: the parts of \<open>mime\<close>, \<open>net/mail\<close>, \<open>net/textproto\<close>, \<open>mime/multipart\<close> and
  \<open>encoding/base64\<close> that \<open>internal/provider/smtp.go\<close> and \<open>resend.go\<close> call, as far as they call them.
\<close>

section \<open>Base64\<close>

definition base64_char :: "nat \<Rightarrow> char" where
  "base64_char n = base64_alphabet ! n"

text \<open>\<open>base64.StdEncoding.EncodeToString\<close>\<close>

fun StdEncoding_EncodeToString :: "string \<Rightarrow> string" where
  "StdEncoding_EncodeToString [] = []"
| "StdEncoding_EncodeToString [a] =
     [base64_char (byte a div 4), base64_char (byte a mod 4 * 16), CHR ''='', CHR ''='']"
| "StdEncoding_EncodeToString [a, b] =
     [base64_char (byte a div 4), base64_char (byte a mod 4 * 16 + byte b div 16),
      base64_char (byte b mod 16 * 4), CHR ''='']"
| "StdEncoding_EncodeToString (a # b # c # rest) =
     base64_char (byte a div 4) # base64_char (byte a mod 4 * 16 + byte b div 16)
     # base64_char (byte b mod 16 * 4 + byte c div 64) # base64_char (byte c mod 64)
     # StdEncoding_EncodeToString rest"

definition EncodedLen :: "nat \<Rightarrow> nat" where
  "EncodedLen n = (n + 2) div 3 * 4"

section \<open>Encoded words\<close>

text \<open>\<open>mime.WordEncoder\<close> with the charset \<open>utf-8\<close>: Q encoding for most texts, B encoding for some names.\<close>

definition needsEncoding :: "string \<Rightarrow> bool" where
  "needsEncoding s \<longleftrightarrow> (\<exists>c \<in> set s. (byte c < 32 \<or> 126 < byte c) \<and> byte c \<noteq> (9 :: nat))"

definition maxEncodedWordLen :: nat where "maxEncodedWordLen = 75"
definition maxContentLen :: nat where
  "maxContentLen = maxEncodedWordLen - length ''=?UTF-8?q?'' - length ''?=''"
definition maxBase64Len :: nat where "maxBase64Len = maxContentLen div 4 * 3"

definition openWord :: "char \<Rightarrow> string" where "openWord e = ''=?utf-8?'' @ [e] @ ''?''"
definition closeWord :: string where "closeWord = ''?=''"
definition splitWord :: "char \<Rightarrow> string" where "splitWord e = closeWord @ '' '' @ openWord e"

definition upper_hex :: "nat \<Rightarrow> char" where
  "upper_hex n = ''0123456789ABCDEF'' ! n"

definition q_plain :: "char \<Rightarrow> bool" where
  "q_plain c \<longleftrightarrow> char_between CHR '' '' CHR ''~'' c \<and> c \<noteq> CHR ''='' \<and> c \<noteq> CHR ''?'' \<and> c \<noteq> CHR ''_''"

definition q_char :: "char \<Rightarrow> string" where
  "q_char c =
     (if c = CHR '' '' then ''_''
      else if q_plain c then [c]
      else [CHR ''='', upper_hex (byte c div 16), upper_hex (byte c mod 16)])"

definition writeQString :: "string \<Rightarrow> string" where
  "writeQString s = concat (map q_char s)"

text \<open>The length of the next piece, a plain character or the bytes of a rune, and of its encoding.\<close>

definition q_piece :: "string \<Rightarrow> nat \<times> nat" where
  "q_piece s = (if q_plain (hd s) then (1, 1) else (snd (decodeRune s), 3 * snd (decodeRune s)))"

fun qEncode :: "nat \<Rightarrow> string \<Rightarrow> string" where
  "qEncode currentLen [] = []"
| "qEncode currentLen (c # cs) =
     (case q_piece (c # cs) of
        (runeLen, encLen) \<Rightarrow>
          (if maxContentLen < currentLen + encLen then splitWord CHR ''q'' else [])
          @ writeQString (take runeLen (c # cs))
          @ qEncode ((if maxContentLen < currentLen + encLen then 0 else currentLen) + encLen)
              (drop (runeLen - 1) cs))"

definition QEncoding_Encode :: "string \<Rightarrow> string" where
  "QEncoding_Encode s = (if needsEncoding s then openWord CHR ''q'' @ qEncode 0 s @ closeWord else s)"

text \<open>The chunks of the B encoding: whole runes, at most \<^const>\<open>maxBase64Len\<close> bytes each.\<close>

fun b_chunks :: "string \<Rightarrow> string \<Rightarrow> string list" where
  "b_chunks chunk [] = [chunk]"
| "b_chunks chunk (c # cs) =
     (let runeLen = snd (decodeRune (c # cs));
          piece = take runeLen (c # cs);
          rest = drop (runeLen - 1) cs
      in if length chunk + runeLen \<le> maxBase64Len then b_chunks (chunk @ piece) rest
         else chunk # b_chunks piece rest)"

fun b_words :: "string list \<Rightarrow> string" where
  "b_words [] = []"
| "b_words [w] = StdEncoding_EncodeToString w"
| "b_words (w # v # ws) = StdEncoding_EncodeToString w @ splitWord CHR ''b'' @ b_words (v # ws)"

definition bEncode :: "string \<Rightarrow> string" where
  "bEncode s = (if EncodedLen (length s) \<le> maxContentLen then StdEncoding_EncodeToString s
                else b_words (b_chunks [] s))"

definition BEncoding_Encode :: "string \<Rightarrow> string" where
  "BEncoding_Encode s = (if needsEncoding s then openWord CHR ''b'' @ bEncode s @ closeWord else s)"

section \<open>Addresses\<close>

text \<open>\<open>(&mail.Address{Name: ..., Address: ...}).String()\<close>\<close>

record Address =
  addr_Name :: string
  addr_Address :: string

definition isMultibyte :: "nat \<Rightarrow> bool" where "isMultibyte r \<longleftrightarrow> 128 \<le> r"
definition isVchar :: "nat \<Rightarrow> bool" where "isVchar r \<longleftrightarrow> 33 \<le> r \<and> r \<le> 126 \<or> isMultibyte r"
definition isWSP :: "nat \<Rightarrow> bool" where "isWSP r \<longleftrightarrow> r = 32 \<or> r = 9"
definition isQtext :: "nat \<Rightarrow> bool" where "isQtext r \<longleftrightarrow> r \<noteq> 92 \<and> r \<noteq> 34 \<and> isVchar r"

definition is_atext_rune :: "nat \<Rightarrow> bool" where
  "is_atext_rune r \<longleftrightarrow> r \<notin> {46, 40, 41, 91, 93, 59, 64, 92, 44, 60, 62, 34, 58} \<and> isVchar r"

definition quoteString :: "string \<Rightarrow> string" where
  "quoteString s =
     [quote_char] @ concat (map (\<lambda>r. if isQtext r \<or> isWSP r then encodeRune r
                                     else if isVchar r then backslash # encodeRune r
                                     else []) (runes s)) @ [quote_char]"

text \<open>
  The scan of the local part: a dot needs a byte before it that is no dot, and one after it. The
  positions are those of the bytes; \<open>before\<close> is the byte before the rune.
\<close>

fun local_needs_quote :: "char option \<Rightarrow> string \<Rightarrow> bool" where
  "local_needs_quote before [] = False"
| "local_needs_quote before (c # cs) =
     (let (r, n) = decodeRune (c # cs)
      in if is_atext_rune r then local_needs_quote (Some (last (take n (c # cs)))) (drop (n - 1) cs)
         else if r = 46 \<and> before \<noteq> None \<and> before \<noteq> Some CHR ''.'' \<and> cs \<noteq> []
         then local_needs_quote (Some c) (drop (n - 1) cs)
         else True)"

definition cut_last_at :: "string \<Rightarrow> string \<times> string" where
  "cut_last_at s =
     (if CHR ''@'' \<in> set s
      then (let n = length (takeWhile (\<lambda>c. c \<noteq> CHR ''@'') (rev s)) in (take (length s - n - 1) s, drop (length s - n) s))
      else (s, []))"

definition allPrintable :: "string \<Rightarrow> bool" where
  "allPrintable name \<longleftrightarrow> \<not> (\<exists>r \<in> set (runes name). (\<not> isVchar r \<and> \<not> isWSP r) \<or> isMultibyte r)"

definition name_specials :: string where
  "name_specials = CHR 0x22 # CHR 0x27 # ''#$%&(),.:;<>@[]^`{|}~''"

definition Address_String :: "Address \<Rightarrow> string" where
  "Address_String a =
     (let (local_part, domain_part) = cut_last_at (addr_Address a);
          quoted = (if local_needs_quote None local_part then quoteString local_part else local_part);
          s = ''<'' @ quoted @ ''@'' @ domain_part @ ''>'';
          name = addr_Name a
      in if name = [] then s
         else if allPrintable name then quoteString name @ '' '' @ s
         else if ContainsAny name name_specials then BEncoding_Encode name @ '' '' @ s
         else QEncoding_Encode name @ '' '' @ s)"

section \<open>Reading it back\<close>

text \<open>The first place a separator occurs: the text before it and the text behind it.\<close>

fun cut_sep :: "string \<Rightarrow> string \<Rightarrow> (string \<times> string) option" where
  "cut_sep sep [] = (if sep = [] then Some ([], []) else None)"
| "cut_sep sep (c # cs) =
     (if HasPrefix (c # cs) sep then Some ([], drop (length sep) (c # cs))
      else map_option (apfst ((#) c)) (cut_sep sep cs))"

text \<open>The text of a Q encoded word, and a sequence of such words (RFC 2047).\<close>

definition upper_hex_value :: "char \<Rightarrow> nat option" where
  "upper_hex_value c = (if is_digit c then Some (byte c - 48)
     else if char_between CHR ''A'' CHR ''F'' c then Some (byte c - 55) else None)"

fun q_decode :: "string \<Rightarrow> string option" where
  "q_decode [] = Some []"
| "q_decode (c # cs) =
     (if c = CHR ''_'' then map_option ((#) CHR '' '') (q_decode cs)
      else if c = CHR ''='' then
        (case cs of
           h # l # rest \<Rightarrow>
             (case (upper_hex_value h, upper_hex_value l) of
                (Some x, Some y) \<Rightarrow> map_option ((#) (char_of (16 * x + y))) (q_decode rest)
              | _ \<Rightarrow> None)
         | _ \<Rightarrow> None)
      else map_option ((#) c) (q_decode cs))"

lemma cut_sep_length: "cut_sep (x # xs) s = Some (a, b) \<Longrightarrow> length b < length s"
  by (induction "x # xs" s arbitrary: a rule: cut_sep.induct) (auto split: if_splits)

function read_words :: "string \<Rightarrow> string option" where
  "read_words s =
     (if \<not> HasPrefix s (openWord CHR ''q'') then None
      else case cut_sep closeWord (drop 10 s) of
             None \<Rightarrow> None
           | Some (t, rest) \<Rightarrow>
               (case rest of
                  [] \<Rightarrow> q_decode t
                | c # others \<Rightarrow>
                    if c \<noteq> CHR '' '' then None
                    else (case (q_decode t, read_words others) of
                            (Some a, Some b) \<Rightarrow> Some (a @ b)
                          | _ \<Rightarrow> None)))"
  by pat_completeness auto
termination
  by (relation "measure length") (auto simp: closeWord_def dest!: cut_sep_length)

declare read_words.simps [simp del]

section \<open>Lemmas\<close>

lemma byte_less: "byte c < 256"
  by (rule nat_of_char_less_256)

lemma base64_char_facts:
  assumes "n < 64"
  shows "base64_value (base64_char n) = Some n" "base64_char n \<noteq> CHR ''=''" "base64_char n \<noteq> CHR ''-''"
    "33 \<le> byte (base64_char n)" "byte (base64_char n) < 127"
proof -
  show "base64_value (base64_char n) = Some n"
    unfolding base64_char_def by (rule base64_value_alphabet [OF assms])
  have "list_all (\<lambda>c. c \<noteq> CHR ''='' \<and> c \<noteq> CHR ''-'' \<and> 33 \<le> byte c \<and> byte c < 127) base64_alphabet" by code_simp
  moreover have "length base64_alphabet = 64" by code_simp
  ultimately have "base64_char n \<noteq> CHR ''='' \<and> base64_char n \<noteq> CHR ''-'' \<and> 33 \<le> byte (base64_char n)
      \<and> byte (base64_char n) < 127"
    using assms unfolding base64_char_def list_all_iff by (metis nth_mem)
  then show "base64_char n \<noteq> CHR ''=''" "base64_char n \<noteq> CHR ''-''" "33 \<le> byte (base64_char n)"
    "byte (base64_char n) < 127" by simp_all
qed

subsection \<open>Base64\<close>

lemma byte_parts:
  "byte c div 4 < (64 :: nat)" "byte c div 16 < (16 :: nat)" "byte c div 64 < (4 :: nat)"
  "byte c div 16 div 16 = (0 :: nat)" "byte c div 64 div 4 = (0 :: nat)"
  "byte c div 16 mod 16 = (byte c div 16 :: nat)" "byte c div 64 mod 4 = (byte c div 64 :: nat)"
  using byte_less [of c] by (simp_all add: div_less_iff_less_mult)

lemma sextet_less:
  fixes a x :: nat
  shows "x < 16 \<Longrightarrow> a mod 4 * 16 + x < 64" "x < 4 \<Longrightarrow> a mod 16 * 4 + x < 64" "a mod 4 * 16 < 64"
    "a mod 16 * 4 < 64" "a mod 64 < 64"
proof -
  have m: "a mod 4 < 4" "a mod 16 < 16" by simp_all
  then show "x < 16 \<Longrightarrow> a mod 4 * 16 + x < 64" "x < 4 \<Longrightarrow> a mod 16 * 4 + x < 64" "a mod 4 * 16 < 64"
    "a mod 16 * 4 < 64" "a mod 64 < 64" by linarith+
qed

lemmas byte_bits = byte_parts sextet_less sextet_less(1) [OF byte_parts(2)] sextet_less(2) [OF byte_parts(3)]

lemma base64_round: "base64_chars True (StdEncoding_EncodeToString s) = Some s"
  by (induction s rule: StdEncoding_EncodeToString.induct)
    (simp_all add: base64_two_def base64_three_def base64_four_def base64_char_facts byte_bits)

text \<open>The characters of the encoding: printable, and no hyphen.\<close>

lemma base64_set:
  "c \<in> set (StdEncoding_EncodeToString s) \<Longrightarrow> 33 \<le> byte c \<and> byte c < 127 \<and> c \<noteq> CHR ''-''"
  by (induction s rule: StdEncoding_EncodeToString.induct) (auto simp: base64_char_facts byte_bits)

lemma base64_text_id: "\<forall>c \<in> set s. 33 \<le> byte c \<Longrightarrow> base64_text s = s"
  unfolding base64_text_def by (rule filter_True) auto

theorem base64_roundtrip: "StdEncoding_Decode (StdEncoding_EncodeToString s) = Some s"
  using base64_set by (simp add: StdEncoding_Decode_def base64_text_id base64_round)

subsection \<open>Cutting\<close>

text \<open>A separator is found where it stands when it occurs nowhere before.\<close>

lemma cut_found:
  assumes "sep \<noteq> []" "\<And>a1 a2. a = a1 @ a2 \<Longrightarrow> a2 \<noteq> [] \<Longrightarrow> \<not> HasPrefix (a2 @ sep @ b) sep"
  shows "cut_sep sep (a @ sep @ b) = Some (a, b)"
  using assms(2)
proof (induction a)
  case Nil
  then show ?case using assms(1) by (cases sep) (auto simp: HasPrefix_def)
next
  case (Cons c a)
  have "\<not> HasPrefix ((c # a) @ sep @ b) sep" using Cons.prems [of "[]" "c # a"] by simp
  moreover have "cut_sep sep (a @ sep @ b) = Some (a, b)"
    using Cons.prems [of "c # _"] by (intro Cons.IH) auto
  ultimately show ?case by simp
qed

lemma cut_first:
  assumes "x \<notin> set a"
  shows "cut_sep (x # xs) (a @ (x # xs) @ b) = Some (a, b)"
proof (rule cut_found)
  fix a1 a2
  assume a: "a = a1 @ a2" "a2 \<noteq> []"
  then show "\<not> HasPrefix (a2 @ (x # xs) @ b) (x # xs)"
    using assms by (cases a2) (auto simp: HasPrefix_def)
qed simp

subsection \<open>Encoded words\<close>

lemma upper_hex_value: "n < 16 \<Longrightarrow> upper_hex_value (upper_hex n) = Some n"
proof -
  have "list_all (\<lambda>n. upper_hex_value (upper_hex n) = Some n) [0..<16]" by code_simp
  then show "n < 16 \<Longrightarrow> ?thesis" by (simp add: list_all_iff)
qed

lemma upper_hex_facts: "n < 16 \<Longrightarrow> char_between CHR ''0'' CHR ''F'' (upper_hex n) \<and> upper_hex n \<noteq> CHR ''?''"
proof -
  have "list_all (\<lambda>n. char_between CHR ''0'' CHR ''F'' (upper_hex n) \<and> upper_hex n \<noteq> CHR ''?'') [0..<16]" by code_simp
  then show "n < 16 \<Longrightarrow> ?thesis" by (simp add: list_all_iff)
qed

lemma nibbles: "byte c div 16 < (16 :: nat)" "byte c mod 16 < (16 :: nat)"
  "16 * (byte c div 16) + byte c mod 16 = (byte c :: nat)"
  by (simp_all add: byte_parts)

lemma q_decode_char: "q_decode (q_char c @ rest) = map_option ((#) c) (q_decode rest)"
  by (auto simp: q_char_def q_plain_def upper_hex_value nibbles)

lemma q_decode_text: "q_decode (writeQString s @ rest) = map_option ((@) s) (q_decode rest)"
proof (induction s)
  case (Cons c s)
  have "writeQString (c # s) @ rest = q_char c @ writeQString s @ rest" by (simp add: writeQString_def)
  then show ?case using Cons by (simp add: q_decode_char option.map_comp comp_def)
qed (simp add: writeQString_def option.map_ident)

lemma upper_hex_byte: "n < 16 \<Longrightarrow> 48 \<le> byte (upper_hex n) \<and> byte (upper_hex n) \<le> 70 \<and> upper_hex n \<noteq> CHR ''?''"
  using upper_hex_facts [of n] by (simp add: char_between_def)

lemma q_char_set: "x \<in> set (q_char c) \<Longrightarrow> 33 \<le> byte x \<and> byte x < 127 \<and> x \<noteq> CHR ''?''"
proof (cases "q_plain c \<and> c \<noteq> CHR '' ''")
  case True
  assume x: "x \<in> set (q_char c)"
  have "byte c \<noteq> 32" using True byte_eqD [of c "CHR '' ''"] by auto
  then show ?thesis using True x by (auto simp: q_char_def q_plain_def char_between_def)
next
  case False
  assume x: "x \<in> set (q_char c)"
  have "x = CHR ''_'' \<or> x = CHR ''='' \<or> x = upper_hex (byte c div 16) \<or> x = upper_hex (byte c mod 16)"
    using x False by (auto simp: q_char_def split: if_splits)
  then show ?thesis using upper_hex_byte [OF nibbles(1) [of c]] upper_hex_byte [OF nibbles(2) [of c]] by auto
qed

lemma writeQString_set: "x \<in> set (writeQString s) \<Longrightarrow> 33 \<le> byte x \<and> byte x < 127 \<and> x \<noteq> CHR ''?''"
  by (auto simp: writeQString_def dest: q_char_set)

lemma length_q_char: "length (q_char c) \<le> 3" "q_plain c \<Longrightarrow> length (q_char c) = 1"
  by (auto simp: q_char_def)

lemma length_writeQString: "length (writeQString s) \<le> 3 * length s"
proof (induction s)
  case (Cons c s)
  then show ?case using length_q_char(1) [of c] by (simp add: writeQString_def)
qed (simp add: writeQString_def)

text \<open>The words of the encoding: whole pieces of the text, each short enough.\<close>

definition q_join :: "string list \<Rightarrow> string" where
  "q_join ts = concat (map (\<lambda>t. splitWord CHR ''q'' @ writeQString t) ts)"

lemma q_piece_bounds:
  assumes "q_piece (c # cs) = (n, l)"
  shows "1 \<le> n" "n \<le> length (c # cs)" "length (writeQString (take n (c # cs))) \<le> l" "l \<le> 12"
proof -
  have d: "1 \<le> snd (decodeRune (c # cs))" "snd (decodeRune (c # cs)) \<le> 4"
    "snd (decodeRune (c # cs)) \<le> length (c # cs)"
    using head_rune_len [of "c # cs"] by (auto simp: decodeRune_def split: option.splits)
  have nl: "n = 1 \<and> l = 1 \<or> n = snd (decodeRune (c # cs)) \<and> l = 3 * n"
    using assms by (cases "q_plain c") (simp_all add: q_piece_def)
  show "1 \<le> n" using nl d(1) by linarith
  show "n \<le> length (c # cs)" using nl d(3) by auto
  show "l \<le> 12" using nl d(2) by linarith
  show "length (writeQString (take n (c # cs))) \<le> l"
  proof (cases "q_plain c")
    case True
    then show ?thesis using assms by (auto simp: q_piece_def writeQString_def length_q_char)
  next
    case False
    then have "l = 3 * n" using assms by (auto simp: q_piece_def)
    moreover have "length (take n (c # cs)) \<le> n" by simp
    ultimately show ?thesis using length_writeQString [of "take n (c # cs)"] by linarith
  qed
qed

lemma qEncode_words:
  "cur \<le> maxContentLen \<Longrightarrow>
   \<exists>t ts. qEncode cur s = writeQString t @ q_join ts \<and> s = concat (t # ts)
     \<and> cur + length (writeQString t) \<le> maxContentLen
     \<and> (\<forall>u \<in> set ts. length (writeQString u) \<le> maxContentLen)"
proof (induction cur s rule: qEncode.induct)
  case (1 cur)
  then show ?case by (intro exI [of _ "[]"]) (simp add: q_join_def writeQString_def)
next
  case (2 cur c cs)
  obtain n l where p: "q_piece (c # cs) = (n, l)" by fastforce
  note b = q_piece_bounds [OF p]
  let ?piece = "take n (c # cs)" and ?rest = "drop (n - 1) cs"
  let ?cur = "(if maxContentLen < cur + l then 0 else cur) + l"
  have whole: "c # cs = ?piece @ ?rest" using b(1) by (cases n) auto
  have "?cur \<le> maxContentLen" using b(4) by (simp add: maxContentLen_def maxEncodedWordLen_def)
  then obtain t ts where IH: "qEncode ?cur ?rest = writeQString t @ q_join ts" "?rest = concat (t # ts)"
    "?cur + length (writeQString t) \<le> maxContentLen" "\<forall>u \<in> set ts. length (writeQString u) \<le> maxContentLen"
    using "2.IH" [OF p [symmetric]] by blast
  have app: "writeQString (?piece @ t) = writeQString ?piece @ writeQString t" by (simp add: writeQString_def)
  show ?case
  proof (cases "maxContentLen < cur + l")
    case True
    then show ?thesis using p IH(1,3,4) b(3) "2.prems" whole IH(2)
      by (intro exI [of _ "[]"] exI [of _ "(?piece @ t) # ts"]) (auto simp: q_join_def app, auto simp: writeQString_def)
  next
    case False
    then show ?thesis using p IH(1,3,4) b(3) whole IH(2)
      by (intro exI [of _ "?piece @ t"] exI [of _ ts]) (auto simp: app)
  qed
qed

lemma read_words_step:
  assumes "CHR ''?'' \<notin> set t"
  shows "read_words (openWord CHR ''q'' @ t @ closeWord) = q_decode t"
    "read_words (openWord CHR ''q'' @ t @ splitWord CHR ''q'' @ u) =
       (case (q_decode t, read_words (openWord CHR ''q'' @ u)) of (Some a, Some b) \<Rightarrow> Some (a @ b) | _ \<Rightarrow> None)"
proof -
  have p: "HasPrefix (openWord CHR ''q'' @ x) (openWord CHR ''q'')" "drop 10 (openWord CHR ''q'' @ x) = x" for x
    by (simp_all add: openWord_def HasPrefix_def)
  have c: "cut_sep closeWord (t @ closeWord @ r) = Some (t, r)" for r
    unfolding closeWord_def using assms by (rule cut_first)
  show "read_words (openWord CHR ''q'' @ t @ closeWord) = q_decode t"
    using c [of "[]"] by (subst read_words.simps) (simp add: p del: drop_append)
  show "read_words (openWord CHR ''q'' @ t @ splitWord CHR ''q'' @ u) =
      (case (q_decode t, read_words (openWord CHR ''q'' @ u)) of (Some a, Some b) \<Rightarrow> Some (a @ b) | _ \<Rightarrow> None)"
    using c [of "'' '' @ openWord CHR ''q'' @ u"]
    by (subst read_words.simps) (simp add: p splitWord_def del: drop_append)
qed

lemma read_words_join:
  "read_words (openWord CHR ''q'' @ writeQString t @ q_join ts @ closeWord) = Some (concat (t # ts))"
proof (induction ts arbitrary: t)
  case Nil
  have "CHR ''?'' \<notin> set (writeQString t)" using writeQString_set by blast
  then show ?case using read_words_step(1) q_decode_text [of t "[]"] by (simp add: q_join_def)
next
  case (Cons u us)
  have "CHR ''?'' \<notin> set (writeQString t)" using writeQString_set by blast
  moreover have "q_join (u # us) @ closeWord = splitWord CHR ''q'' @ (writeQString u @ q_join us @ closeWord)"
    by (simp add: q_join_def)
  ultimately show ?case using read_words_step(2) Cons q_decode_text [of t "[]"] by simp
qed

lemma QEncoding_words:
  assumes "needsEncoding s"
  obtains t ts where "QEncoding_Encode s = openWord CHR ''q'' @ writeQString t @ q_join ts @ closeWord"
    "s = concat (t # ts)" "\<forall>u \<in> set (t # ts). length (writeQString u) \<le> maxContentLen"
proof -
  obtain t ts where "qEncode 0 s = writeQString t @ q_join ts" "s = concat (t # ts)"
    "0 + length (writeQString t) \<le> maxContentLen" "\<forall>u \<in> set ts. length (writeQString u) \<le> maxContentLen"
    using qEncode_words [of 0 s] by blast
  then show thesis using assms by (intro that [of t ts]) (auto simp: QEncoding_Encode_def)
qed

theorem QEncoding_roundtrip: "needsEncoding s \<Longrightarrow> read_words (QEncoding_Encode s) = Some s"
  by (metis QEncoding_words read_words_join)

text \<open>Every word stays within the 75 characters of RFC 2047.\<close>

definition encoded_words :: "string \<Rightarrow> string list" where
  "encoded_words s = split_at (CHR '' '') s"

theorem QEncoding_word_length:
  assumes "needsEncoding s" "w \<in> set (encoded_words (QEncoding_Encode s))"
  shows "length w \<le> maxEncodedWordLen"
proof -
  obtain t ts where q: "QEncoding_Encode s = openWord CHR ''q'' @ writeQString t @ q_join ts @ closeWord"
    "\<forall>u \<in> set (t # ts). length (writeQString u) \<le> maxContentLen"
    using QEncoding_words [OF assms(1)] by metis
  let ?word = "\<lambda>t. openWord CHR ''q'' @ writeQString t @ closeWord"
  have ns: "CHR '' '' \<notin> set (?word t)" for t
    using writeQString_set [of "CHR '' ''" t] by (auto simp: openWord_def closeWord_def)
  have "split_at (CHR '' '') (openWord CHR ''q'' @ writeQString t @ q_join ts @ closeWord) = map ?word (t # ts)"
  proof (induction ts arbitrary: t)
    case Nil
    then show ?case using ns [of t] by (simp add: q_join_def split_at_absent)
  next
    case (Cons u us)
    have w: "openWord CHR ''q'' @ writeQString t @ q_join (u # us) @ closeWord
        = ?word t @ CHR '' '' # (openWord CHR ''q'' @ writeQString u @ q_join us @ closeWord)"
      by (simp add: q_join_def splitWord_def)
    show ?case unfolding w split_at_append [OF ns] Cons by simp
  qed
  then have "w \<in> ?word ` set (t # ts)" using assms(2) q(1) by (simp only: encoded_words_def set_map)
  then show ?thesis using q(2)
    by (auto simp: openWord_def closeWord_def maxContentLen_def maxEncodedWordLen_def)
qed

subsection \<open>Header values\<close>

text \<open>What a header line may hold: printable ASCII and tabs, so no line break.\<close>

definition header_text :: "string \<Rightarrow> bool" where
  "header_text v \<longleftrightarrow> (\<forall>c \<in> set v. byte c = (9 :: nat) \<or> 32 \<le> byte c \<and> byte c < 127)"

lemma header_text_append [simp]:
  "header_text [] \<longleftrightarrow> True" "header_text (u @ v) \<longleftrightarrow> header_text u \<and> header_text v"
  "header_text (c # v) \<longleftrightarrow> (byte c = (9 :: nat) \<or> 32 \<le> byte c \<and> byte c < 127) \<and> header_text v"
  by (auto simp: header_text_def)

lemma header_text_words [simp]: "header_text (writeQString t)" "header_text (StdEncoding_EncodeToString t)"
  using writeQString_set [of _ t] base64_set [of _ t] by (fastforce simp: header_text_def)+

lemma header_text_frame [simp]: "header_text closeWord" "header_text (openWord CHR ''q'')" "header_text (openWord CHR ''b'')"
  "header_text (splitWord CHR ''q'')" "header_text (splitWord CHR ''b'')"
  by (simp_all add: closeWord_def openWord_def splitWord_def)

lemma header_text_join [simp]: "header_text (q_join ts)" "header_text (b_words ws)"
proof -
  show "header_text (q_join ts)" by (induction ts) (simp_all add: q_join_def)
  show "header_text (b_words ws)" by (induction ws rule: b_words.induct) simp_all
qed

lemma header_text_plain: "\<not> needsEncoding s \<Longrightarrow> header_text s"
  by (fastforce simp: needsEncoding_def header_text_def)

theorem header_text_encoded: "header_text (QEncoding_Encode s)" "header_text (BEncoding_Encode s)"
proof -
  show "header_text (QEncoding_Encode s)"
  proof (cases "needsEncoding s")
    case True
    then show ?thesis by (rule QEncoding_words) simp
  qed (simp add: QEncoding_Encode_def header_text_plain)
  show "header_text (BEncoding_Encode s)"
    by (simp add: BEncoding_Encode_def bEncode_def header_text_plain)
qed

subsection \<open>Addresses\<close>

lemma isAtext_rune: "isAtext c \<Longrightarrow> c \<noteq> CHR ''.'' \<Longrightarrow> is_atext_rune (byte c)"
  using byte_eqD [of c "CHR ''.''"] by (auto simp: isAtext_def is_atext_rune_def isVchar_def)

lemma decodeRune_atext: "isAtext c \<Longrightarrow> decodeRune (c # cs) = (byte c, 1)"
  by (simp add: isAtext_def decodeRune_def head_rune_ascii)

lemma local_unquoted:
  assumes "\<forall>c \<in> set l. isAtext c" "\<not> Contains l ''..''" "\<not> HasSuffix l ''.''"
    and "before = None \<or> before = Some CHR ''.'' \<Longrightarrow> \<not> HasPrefix l ''.''"
  shows "\<not> local_needs_quote before l"
  using assms
proof (induction l arbitrary: before)
  case (Cons c l)
  have suffix: "l = [] \<longrightarrow> c \<noteq> CHR ''.''" "l \<noteq> [] \<longrightarrow> \<not> HasSuffix l ''.''"
    using Cons.prems(3) by (auto simp: HasSuffix_def) (cases l rule: rev_cases; force)+
  have IH: "\<not> local_needs_quote (Some c) l"
    using Cons.prems(1,2) suffix by (intro Cons.IH) (cases l; auto simp: HasPrefix_def HasSuffix_def)+
  show ?case
  proof (cases "c = CHR ''.''")
    case True
    then have "HasPrefix (c # l) ''.''" by (simp add: HasPrefix_def)
    then have "\<not> (before = None \<or> before = Some CHR ''.'')" using Cons.prems(4) by blast
    then have "before \<noteq> None \<and> before \<noteq> Some CHR ''.''" unfolding de_Morgan_disj .
    then show ?thesis using IH suffix Cons.prems(1) True
      by (simp add: decodeRune_atext is_atext_rune_def)
  next
    case False
    then show ?thesis using IH Cons.prems(1) by (simp add: decodeRune_atext isAtext_rune)
  qed
qed simp

lemma cut_last_at_found: "CHR ''@'' \<notin> set d \<Longrightarrow> cut_last_at (l @ CHR ''@'' # d) = (l, d)"
  by (simp add: cut_last_at_def takeWhile_append Let_def)

text \<open>An accepted address is written as it is, in angle brackets behind the name.\<close>

definition name_phrase :: "string \<Rightarrow> string" where
  "name_phrase name =
     (if name = [] then []
      else (if allPrintable name then quoteString name
            else if ContainsAny name name_specials then BEncoding_Encode name
            else QEncoding_Encode name) @ '' '')"

lemma Address_String_form:
  assumes "addr_spec_form a l d"
  shows "Address_String \<lparr>addr_Name = name, addr_Address = a\<rparr> = name_phrase name @ ''<'' @ a @ ''>''"
proof -
  note f = addr_spec_form_checks [OF assms]
  have a: "a = l @ CHR ''@'' # d" and l: "isAddrSpecLocalPart l" using assms by (simp_all add: addr_spec_form_def)
  have "\<not> isAtext (CHR ''@'')" by code_simp
  moreover have "\<forall>c \<in> set d. isAtext c"
    using assms isAddrSpecDomain_chars by (auto simp: addr_spec_form_def)
  ultimately have "CHR ''@'' \<notin> set d" by blast
  moreover have "\<not> local_needs_quote None l"
    using l local_part_char_atext by (intro local_unquoted) (auto simp: isAddrSpecLocalPart_def)
  ultimately show ?thesis
    by (simp add: Address_String_def name_phrase_def a cut_last_at_found Let_def)
qed

lemma header_text_quote:
  assumes "allPrintable name"
  shows "header_text (quoteString name)"
proof -
  have r: "isQtext r \<or> isWSP r \<or> isVchar r \<Longrightarrow> r < 128 \<Longrightarrow> header_text (encodeRune r)" for r
    by (auto simp: isQtext_def isWSP_def isVchar_def isMultibyte_def encodeRune_def of_char_of)
  have "r < 128" if "r \<in> set (runes name)" for r using assms that by (auto simp: allPrintable_def isMultibyte_def)
  then have "header_text (concat (map (\<lambda>r. if isQtext r \<or> isWSP r then encodeRune r
      else if isVchar r then backslash # encodeRune r else []) rs))" if "set rs \<subseteq> set (runes name)" for rs
    using that r by (induction rs) auto
  then show ?thesis by (simp add: quoteString_def)
qed

lemma header_text_phrase: "header_text (name_phrase name)"
  by (simp add: name_phrase_def header_text_quote header_text_encoded)

lemma header_text_address:
  assumes "addr_spec_form a l d"
  shows "header_text a" "header_text (Address_String \<lparr>addr_Name = name, addr_Address = a\<rparr>)"
proof -
  show "header_text a"
    using addr_spec_form_checks(9) [OF assms] by (force simp: header_text_def isAtext_def)
  then show "header_text (Address_String \<lparr>addr_Name = name, addr_Address = a\<rparr>)"
    by (simp add: Address_String_form [OF assms] header_text_phrase)
qed

end
