(* ===== verification/SmtpTransport.thy ===== *)
theory SmtpTransport
  imports MailText ProviderResolver
begin

text \<open>
  \<open>internal/provider/smtp.go\<close> and \<open>secrets.go\<close>: the mail that is built for a message and the session in
  which it is handed to the server. The client of \<open>net/smtp\<close> is the answers it gives to the calls of
  the code, one after the other; each may depend on the calls before it.
\<close>

section \<open>Secrets\<close>

text \<open>The interface \<open>SecretResolver\<close>; \<open>None\<close> is a missing resolver.\<close>

type_synonym secret_lookup = "string \<Rightarrow> string result"

definition StaticSecretResolver_ResolveSecret :: "(string \<rightharpoonup> string) \<Rightarrow> secret_lookup" where
  "StaticSecretResolver_ResolveSecret r ref =
     (case r ref of None \<Rightarrow> Inl (Errorf ''secret reference not found'') | Some v \<Rightarrow> Inr v)"

definition isVisibleASCIIWithoutWhitespaceSecret :: "string \<Rightarrow> bool" where
  "isVisibleASCIIWithoutWhitespaceSecret v \<longleftrightarrow> v \<noteq> [] \<and> (\<forall>r \<in> set (runes v). \<not> (r < 33 \<or> 126 < r))"

section \<open>The message\<close>

text \<open>\<open>textproto.MIMEHeader\<close>: the values of each key, in the canonical spelling of the key.\<close>

type_synonym MIMEHeader = "(string \<times> string list) list"

definition upper_char :: "char \<Rightarrow> char" where
  "upper_char c = (if is_lower c then char_of (byte c - 32) else c)"

fun canonical_key :: "bool \<Rightarrow> string \<Rightarrow> string" where
  "canonical_key upper [] = []"
| "canonical_key upper (c # cs) =
     (if upper then upper_char c else lower_char c) # canonical_key (c = CHR ''-'') cs"

definition CanonicalMIMEHeaderKey :: "string \<Rightarrow> string" where
  "CanonicalMIMEHeaderKey = canonical_key True"

definition header_Set :: "string \<Rightarrow> string \<Rightarrow> MIMEHeader \<Rightarrow> MIMEHeader" where
  "header_Set key v h = AList.update (CanonicalMIMEHeaderKey key) [v] h"

definition header_Values :: "MIMEHeader \<Rightarrow> string \<Rightarrow> string list" where
  "header_Values h key = (case map_of h (CanonicalMIMEHeaderKey key) of None \<Rightarrow> [] | Some vs \<Rightarrow> vs)"

definition CRLF :: string where "CRLF = [CHR 0x0D, CHR 0x0A]"

definition header_lines :: "string \<Rightarrow> string list \<Rightarrow> string" where
  "header_lines key vs = concat (map (\<lambda>v. key @ '': '' @ v @ CRLF) vs)"

definition header_order :: "string list" where
  "header_order = [''From'', ''To'', ''Subject'', ''MIME-Version'', ''Content-Type'', ''Content-Transfer-Encoding'']"

definition writeHeaders :: "MIMEHeader \<Rightarrow> string" where
  "writeHeaders h = concat (map (\<lambda>key. header_lines key (header_Values h key)) header_order)"

text \<open>\<open>writeBase64Body\<close>: lines of 76 characters.\<close>

function base64_lines :: "string \<Rightarrow> string" where
  "base64_lines encoded =
     (if 76 < length encoded then take 76 encoded @ CRLF @ base64_lines (drop 76 encoded)
      else encoded @ CRLF)"
  by pat_completeness auto
termination by (relation "measure length") auto

declare base64_lines.simps [simp del]

definition writeBase64Body :: "string \<Rightarrow> string" where
  "writeBase64Body body = base64_lines (StdEncoding_EncodeToString body)"

text \<open>
  \<open>multipart.Writer\<close> on a buffer: a part opens with the delimiter and its header in the order of the
  keys. Writing to a buffer never fails.
\<close>

definition multipart_header :: "MIMEHeader \<Rightarrow> string" where
  "multipart_header h = concat (map (\<lambda>key. header_lines key (the (map_of h key))) (sort (map fst h)))"

definition CreatePart :: "string \<Rightarrow> bool \<Rightarrow> MIMEHeader \<Rightarrow> string" where
  "CreatePart boundary is_first h =
     (if is_first then ''--'' @ boundary @ CRLF else CRLF @ ''--'' @ boundary @ CRLF)
     @ multipart_header h @ CRLF"

definition multipart_Close :: "string \<Rightarrow> string" where
  "multipart_Close boundary = CRLF @ ''--'' @ boundary @ ''--'' @ CRLF"

definition part_headers :: "string \<Rightarrow> MIMEHeader" where
  "part_headers content_type =
     header_Set ''Content-Transfer-Encoding'' ''base64'' (header_Set ''Content-Type'' content_type [])"

definition text_plain :: string where "text_plain = ''text/plain; charset='' @ quote_char # ''utf-8'' @ [quote_char]"
definition text_html :: string where "text_html = ''text/html; charset='' @ quote_char # ''utf-8'' @ [quote_char]"

definition buildMultipartAlternative :: "string \<Rightarrow> MIMEHeader \<Rightarrow> string \<Rightarrow> string \<Rightarrow> string" where
  "buildMultipartAlternative boundary headers textBody htmlBody =
     writeHeaders (header_Set ''Content-Type''
       (''multipart/alternative; boundary='' @ quote_char # boundary @ [quote_char]) headers) @ CRLF
     @ CreatePart boundary True (part_headers text_plain) @ writeBase64Body textBody
     @ CreatePart boundary False (part_headers text_html) @ writeBase64Body htmlBody
     @ multipart_Close boundary"

definition buildSinglepart :: "MIMEHeader \<Rightarrow> string \<Rightarrow> string" where
  "buildSinglepart headers body = writeHeaders headers @ CRLF @ writeBase64Body body"

text \<open>\<open>boundary\<close> is the random one of the multipart writer.\<close>

definition buildMIMEMessage :: "string \<Rightarrow> SendRequest \<Rightarrow> providerEnvelope \<Rightarrow> string result" where
  "buildMIMEMessage boundary request envelope =
     (let from_text = Address_String \<lparr>addr_Name = chan_FromName (sq_Channel request), addr_Address = env_from envelope\<rparr>;
          html = msg_HTMLBody (sq_Message request);
          plain = msg_TextBody (sq_Message request);
          headers = header_Set ''MIME-Version'' ''1.0''
            (header_Set ''Subject'' (QEncoding_Encode (msg_Subject (sq_Message request)))
            (header_Set ''To'' (env_to envelope) (header_Set ''From'' from_text [])));
          single = (\<lambda>content_type. header_Set ''Content-Transfer-Encoding'' ''base64''
            (header_Set ''Content-Type'' content_type headers))
      in if html \<noteq> [] \<and> plain \<noteq> [] then Inr (buildMultipartAlternative boundary headers plain html)
         else if html \<noteq> [] then Inr (buildSinglepart (single text_html) html)
         else if plain \<noteq> [] then Inr (buildSinglepart (single text_plain) plain)
         else Inl (Errorf ''message body is required''))"

section \<open>The session\<close>

text \<open>The calls of the client, with what each hands to the server.\<close>

datatype smtp_call =
    Dial string
  | Greeting string
  | Hello string
  | StartTLS "string \<times> nat"
  | PlainAuth string string string
  | Mail_from string
  | Rcpt_to string
  | Data
  | Write_data string
  | Close_data
  | Quit
  | Close_conn

text \<open>An error of a call: the reply of the server with its code, or any other.\<close>

datatype smtp_error = Reply_error int | Other_error

record smtp_env =
  se_ctx :: "go_error option"
  se_boundary :: string
  se_answer :: "smtp_call list \<Rightarrow> smtp_error option"

text \<open>\<open>tls.Config\<close> is the server name and the minimal version; 771 is TLS 1.2.\<close>

definition VersionTLS12 :: nat where "VersionTLS12 = 771"

record SMTPTransport =
  st_secrets :: "secret_lookup option"
  st_tlsConfig :: "(string \<times> nat) option"
  st_requirePort :: bool

definition NewSMTPTransport :: "secret_lookup option \<Rightarrow> SMTPTransport" where
  "NewSMTPTransport secrets = \<lparr>st_secrets = secrets, st_tlsConfig = None, st_requirePort = True\<rparr>"

definition WithSMTPTLSConfig :: "(string \<times> nat) option \<Rightarrow> SMTPTransport \<Rightarrow> SMTPTransport" where
  "WithSMTPTLSConfig config t = t\<lparr>st_tlsConfig := config\<rparr>"

definition WithoutSMTPPortRequirement :: "SMTPTransport \<Rightarrow> SMTPTransport" where
  "WithoutSMTPPortRequirement t = t\<lparr>st_requirePort := False\<rparr>"

datatype smtpStage =
  StageConnect | StageStartTLS | StageAuth | StageMailFrom | StageRcptTo | StageData | StageQuit

definition classifySMTPError :: "smtp_error \<Rightarrow> smtpStage \<Rightarrow> SendResult" where
  "classifySMTPError err stage =
     (let other = TemporaryFailure ErrorCodeProviderUnavailable ''smtp request failed''
      in case err of
           Other_error \<Rightarrow> other
         | Reply_error code \<Rightarrow>
             if 400 \<le> code \<and> code \<le> 499 then TemporaryFailure ErrorCodeProviderUnavailable ''smtp temporary failure''
             else if 500 \<le> code \<and> code \<le> 599 then
               (if stage \<in> {StageConnect, StageStartTLS, StageAuth, StageMailFrom} then
                  ChannelFailure ErrorCodeProviderUnavailable ''smtp channel failure''
                else if stage = StageRcptTo then
                  MessagePermanentFailure ErrorCodeInvalidRecipient ''smtp recipient rejected''
                else if stage = StageData then
                  MessagePermanentFailure ErrorCodeProviderUnavailable ''smtp message rejected''
                else MessagePermanentFailure ErrorCodeProviderUnavailable ''smtp permanent failure'')
             else other)"

definition smtpResult :: "smtp_error option \<Rightarrow> smtpStage \<Rightarrow> SendResult option" where
  "smtpResult err stage = map_option (\<lambda>e. classifySMTPError e stage) err"

definition smtp_password :: "SMTPTransport \<Rightarrow> SendRequest \<Rightarrow> string result" where
  "smtp_password t request =
     (let ref0 = (case chan_SMTP (sq_Channel request) of None \<Rightarrow> [] | Some s \<Rightarrow> smtp_PasswordRef s);
          ref = (if ref0 = [] then (case acct_CredentialRefs (sq_Account request) ''api_key'' of
                   None \<Rightarrow> [] | Some r \<Rightarrow> r) else ref0)
      in case st_secrets t of
           Some resolve \<Rightarrow> if ref = [] then Inl (Errorf ''smtp password reference is required'') else resolve ref
         | None \<Rightarrow> Inl (Errorf ''smtp password reference is required''))"

text \<open>One call: it is added to the trace and answered.\<close>

definition smtp_do :: "smtp_env \<Rightarrow> smtp_call \<Rightarrow> smtp_call list \<Rightarrow> smtp_error option \<times> smtp_call list" where
  "smtp_do env call trace = (se_answer env (trace @ [call]), trace @ [call])"

text \<open>The calls of the code that are checked by \<open>smtpResult\<close>, in turn.\<close>

fun smtp_steps ::
    "smtp_env \<Rightarrow> (smtp_call \<times> smtpStage) list \<Rightarrow> smtp_call list \<Rightarrow> SendResult option \<times> smtp_call list" where
  "smtp_steps env [] trace = (None, trace)"
| "smtp_steps env ((call, stage) # steps) trace =
     (case smtp_do env call trace of
        (err, trace') \<Rightarrow>
          (case smtpResult err stage of
             Some result \<Rightarrow> (Some result, trace')
           | None \<Rightarrow> smtp_steps env steps trace'))"

text \<open>\<open>openClient\<close>: a connection whose greeting fails is closed at once.\<close>

definition openClient :: "smtp_env \<Rightarrow> string \<Rightarrow> string \<Rightarrow> smtp_error option \<times> smtp_call list" where
  "openClient env address host =
     (case smtp_do env (Dial address) [] of
        (Some e, trace) \<Rightarrow> (Some e, trace)
      | (None, trace) \<Rightarrow>
          (case smtp_do env (Greeting host) trace of
             (Some e, trace') \<Rightarrow> (Some e, trace' @ [Close_conn])
           | (None, trace') \<Rightarrow> (None, trace')))"

definition JoinHostPort :: "string \<Rightarrow> int \<Rightarrow> string" where
  "JoinHostPort host port =
     (if CHR '':'' \<in> set host then ''['' @ host @ '']:'' @ Itoa port else host @ '':'' @ Itoa port)"

text \<open>The message, once the server has accepted the envelope.\<close>

definition smtp_data :: "smtp_env \<Rightarrow> string \<Rightarrow> smtp_call list \<Rightarrow> SendResult \<times> smtp_call list" where
  "smtp_data env message trace =
     (case smtp_do env Data trace of
        (Some e, t1) \<Rightarrow> (classifySMTPError e StageData, t1)
      | (None, t1) \<Rightarrow>
          (case smtp_do env (Write_data message) t1 of
             (Some e, t2) \<Rightarrow>
               (TemporaryFailure ErrorCodeProviderUnavailable ''smtp data write failed'', snd (smtp_do env Close_data t2))
           | (None, t2) \<Rightarrow>
               (case smtp_do env Close_data t2 of
                  (Some e, t3) \<Rightarrow> (classifySMTPError e StageData, t3)
                | (None, t3) \<Rightarrow> (Accepted [], snd (smtp_do env Quit t3)))))"

definition smtp_session ::
    "SMTPTransport \<Rightarrow> smtp_env \<Rightarrow> SMTPSettings \<Rightarrow> providerEnvelope \<Rightarrow> string \<Rightarrow> string
     \<Rightarrow> SendResult \<times> smtp_call list" where
  "smtp_session t env settings envelope password message =
     (case openClient env (JoinHostPort (smtp_Host settings) (smtp_Port settings)) (smtp_Host settings) of
        (Some e, trace) \<Rightarrow> (classifySMTPError e StageConnect, trace)
      | (None, trace) \<Rightarrow>
          (case smtp_steps env
              [(Hello ''localhost'', StageConnect),
               (StartTLS (case st_tlsConfig t of None \<Rightarrow> (smtp_Host settings, VersionTLS12) | Some c \<Rightarrow> c), StageStartTLS),
               (PlainAuth (smtp_Username settings) password (smtp_Host settings), StageAuth),
               (Mail_from (env_from envelope), StageMailFrom),
               (Rcpt_to (env_to envelope), StageRcptTo)] trace of
             (Some result, trace') \<Rightarrow> (result, trace' @ [Close_conn])
           | (None, trace') \<Rightarrow> apsnd (\<lambda>tr. tr @ [Close_conn]) (smtp_data env message trace')))"

definition SMTPTransport_Send :: "SMTPTransport \<Rightarrow> smtp_env \<Rightarrow> SendRequest \<Rightarrow> SendResult result \<times> smtp_call list" where
  "SMTPTransport_Send t env request =
     (let fail = (\<lambda>message. (Inr (ChannelFailure ErrorCodeProviderUnavailable message), []))
      in case se_ctx env of
           Some e \<Rightarrow> (Inl e, [])
         | None \<Rightarrow>
             if chan_Transport (sq_Channel request) \<noteq> TransportSMTP then fail ''smtp transport required''
             else case chan_SMTP (sq_Channel request) of
                    None \<Rightarrow> fail ''smtp configuration invalid''
                  | Some settings \<Rightarrow>
                      if smtp_Host settings = [] \<or> smtp_Port settings = 0 \<or> smtp_Username settings = [] then
                        fail ''smtp configuration invalid''
                      else if st_requirePort t \<and> smtp_Port settings \<noteq> 587 then fail ''smtp port must be 587''
                      else case normalizeProviderEnvelope request of
                             Inl result \<Rightarrow> (Inr result, [])
                           | Inr envelope \<Rightarrow>
                               (case smtp_password t request of
                                  Inl e \<Rightarrow> fail ''smtp password unavailable''
                                | Inr password \<Rightarrow>
                                    (case buildMIMEMessage (se_boundary env) request envelope of
                                       Inl e \<Rightarrow> (Inr (MessagePermanentFailure ErrorCodeInternal ''smtp message build failed''), [])
                                     | Inr message \<Rightarrow>
                                         apfst Inr (smtp_session t env settings envelope password message))))"

text \<open>The adapter of the worker: the context and the network come from the environment.\<close>

definition smtp_provider :: "SMTPTransport \<Rightarrow> (duration \<Rightarrow> ('s, smtp_env) state) \<Rightarrow> 's Provider_send" where
  "smtp_provider t network timeout request =
     do { env \<leftarrow> network timeout; State_Monad.return (fst (SMTPTransport_Send t env request)) }"

section \<open>Reading a mail\<close>

text \<open>
  What a mail program makes of a message: the header lines up to the empty line, and the body, which is
  Base64 text or a sequence of parts between delimiters, each with a header of its own.
\<close>

lemma cut_CRLF_length: "cut_sep (CRLF @ t) s = Some (a, b) \<Longrightarrow> length b < length s"
  unfolding CRLF_def append.simps by (rule cut_sep_length)

lemmas cut_shorter = cut_CRLF_length cut_CRLF_length [where t = "[]", unfolded append_Nil2]

function read_headers :: "string \<Rightarrow> ((string \<times> string) list \<times> string) option" where
  "read_headers s =
     (case cut_sep CRLF s of
        None \<Rightarrow> None
      | Some (line, rest) \<Rightarrow>
          if line = [] then Some ([], rest)
          else (case cut_sep '': '' line of
                  None \<Rightarrow> None
                | Some (k, v) \<Rightarrow> map_option (apfst ((#) (k, v))) (read_headers rest)))"
  by pat_completeness auto
termination by (relation "measure length") (auto dest!: cut_shorter)

function read_parts :: "string \<Rightarrow> string \<Rightarrow> ((string \<times> string) list \<times> string) list option" where
  "read_parts boundary s =
     (case cut_sep (CRLF @ ''--'' @ boundary) s of
        None \<Rightarrow> None
      | Some (part, rest) \<Rightarrow>
          (case read_headers part of
             None \<Rightarrow> None
           | Some (hs, encoded) \<Rightarrow>
               (case StdEncoding_Decode encoded of
                  None \<Rightarrow> None
                | Some body \<Rightarrow>
                    if HasPrefix rest ''--'' then Some [(hs, body)]
                    else (case cut_sep CRLF rest of
                            None \<Rightarrow> None
                          | Some (_, others) \<Rightarrow> map_option ((#) (hs, body)) (read_parts boundary others)))))"
  by pat_completeness auto
termination by (relation "measure (length \<circ> snd)") (auto dest!: cut_shorter)

declare read_headers.simps [simp del] read_parts.simps [simp del]

definition content_type_of :: "(string \<times> string) list \<Rightarrow> string" where
  "content_type_of hs = (case map_of hs ''Content-Type'' of None \<Rightarrow> [] | Some ct \<Rightarrow> ct)"

definition read_mail :: "string \<Rightarrow> ((string \<times> string) list \<times> (string \<times> string) list) option" where
  "read_mail m =
     (case read_headers m of
        None \<Rightarrow> None
      | Some (hs, body) \<Rightarrow>
          (case cut_sep (''boundary='' @ [quote_char]) (content_type_of hs) of
             None \<Rightarrow> map_option (\<lambda>b. (hs, [(content_type_of hs, b)])) (StdEncoding_Decode body)
           | Some (_, r) \<Rightarrow>
               (case cut_sep [quote_char] r of
                  None \<Rightarrow> None
                | Some (boundary, _) \<Rightarrow>
                    (case cut_sep (''--'' @ boundary @ CRLF) body of
                       None \<Rightarrow> None
                     | Some (_, rest) \<Rightarrow>
                         map_option (\<lambda>ps. (hs, map (\<lambda>(phs, b). (content_type_of phs, b)) ps))
                           (read_parts boundary rest)))))"

subsection \<open>Lines\<close>

definition text_lines :: "string list \<Rightarrow> string" where
  "text_lines ls = concat (map (\<lambda>l. l @ CRLF) ls)"

definition one_line :: "string \<Rightarrow> bool" where
  "one_line l \<longleftrightarrow> CHR 0x0D \<notin> set l"

lemma header_text_one_line: "header_text v \<Longrightarrow> one_line v"
  by (fastforce simp: header_text_def one_line_def of_char_of)

lemma read_headers_lines:
  assumes "\<forall>(k, v) \<in> set hs. k \<noteq> [] \<and> CHR '':'' \<notin> set k \<and> one_line k \<and> one_line v"
  shows "read_headers (concat (map (\<lambda>(k, v). k @ '': '' @ v @ CRLF) hs) @ CRLF @ body) = Some (hs, body)"
  using assms
proof (induction hs)
  case Nil
  have "cut_sep CRLF ([] @ CRLF @ body) = Some ([], body)" unfolding CRLF_def by (rule cut_first) simp
  then show ?case by (simp add: read_headers.simps)
next
  case (Cons h hs)
  obtain k v where h: "h = (k, v)" by (cases h)
  have kv: "k \<noteq> []" "CHR '':'' \<notin> set k" "one_line k" "one_line v" using Cons.prems h by auto
  let ?rest = "concat (map (\<lambda>(k, v). k @ '': '' @ v @ CRLF) hs) @ CRLF @ body"
  have "CHR 0x0D \<notin> set (k @ '': '' @ v)" using kv by (auto simp: one_line_def)
  then have "cut_sep CRLF ((k @ '': '' @ v) @ CRLF @ ?rest) = Some (k @ '': '' @ v, ?rest)"
    unfolding CRLF_def by (rule cut_first)
  moreover have "cut_sep '': '' (k @ '': '' @ v) = Some (k, v)" using kv(2) by (rule cut_first)
  ultimately show ?case using Cons kv(1) h by (subst read_headers.simps) simp
qed

text \<open>The delimiter is not found in lines that do not start with hyphens.\<close>

lemma map_apfst: "map_option (apfst f) (map_option (apfst g) x) = map_option (apfst (f \<circ> g)) x"
  by (cases x) auto

lemma cut_skip:
  assumes "x \<notin> set l"
  shows "cut_sep (x # xs) (l @ t) = map_option (apfst ((@) l)) (cut_sep (x # xs) t)"
  using assms
proof (induction l)
  case Nil
  then show ?case by (cases "cut_sep (x # xs) t") auto
next
  case (Cons c l)
  then have "\<not> HasPrefix (c # l @ t) (x # xs)" by (auto simp: HasPrefix_def)
  moreover have "apfst ((#) c) \<circ> apfst ((@) l) = apfst ((@) (c # l))" by (auto simp: fun_eq_iff)
  ultimately show ?case using Cons by (cases "cut_sep (x # xs) t") auto
qed

lemma cut_line:
  assumes "one_line l" "\<not> HasPrefix t ''--''"
  shows "cut_sep (CRLF @ ''--'' @ b) (l @ CRLF @ t) = map_option (apfst ((@) (l @ CRLF))) (cut_sep (CRLF @ ''--'' @ b) t)"
proof -
  have "\<not> HasPrefix (CRLF @ t) (CRLF @ ''--'' @ b)"
    using assms(2) by (cases t rule: list.exhaust; cases "tl t") (auto simp: HasPrefix_def CRLF_def)
  then have "cut_sep (CRLF @ ''--'' @ b) (CRLF @ t) = map_option (apfst ((@) CRLF)) (cut_sep (CRLF @ ''--'' @ b) t)"
    by (cases "cut_sep (CRLF @ ''--'' @ b) t") (auto simp: CRLF_def HasPrefix_def)
  moreover have "cut_sep (CRLF @ ''--'' @ b) (l @ CRLF @ t)
      = map_option (apfst ((@) l)) (cut_sep (CRLF @ ''--'' @ b) (CRLF @ t))"
    using cut_skip [of "CHR 0x0D" l "CHR 0x0A # ''--'' @ b" "CRLF @ t"] assms(1) by (simp add: CRLF_def one_line_def)
  ultimately show ?thesis by (cases "cut_sep (CRLF @ ''--'' @ b) t") auto
qed

lemma cut_lines:
  assumes "\<forall>l \<in> set ls. one_line l \<and> \<not> HasPrefix l ''--''"
  shows "cut_sep (CRLF @ ''--'' @ b) (text_lines ls @ CRLF @ ''--'' @ b @ rest) = Some (text_lines ls, rest)"
  using assms
proof (induction ls)
  case Nil
  show ?case using cut_first [of "CHR 0x0D" "[]" "CHR 0x0A # ''--'' @ b" rest] by (simp add: text_lines_def CRLF_def)
next
  case (Cons l ls)
  let ?t = "text_lines ls @ CRLF @ ''--'' @ b @ rest"
  have "\<not> HasPrefix ?t ''--''"
  proof (cases ls)
    case Nil
    then show ?thesis by (auto simp: text_lines_def HasPrefix_def CRLF_def)
  next
    case (Cons k ks)
    then have "\<not> HasPrefix k ''--''" using Cons.prems by simp
    then show ?thesis
      using Cons by (cases k rule: list.exhaust; cases "tl k") (auto simp: text_lines_def HasPrefix_def CRLF_def)
  qed
  then show ?case using cut_line [of l ?t b] Cons by (simp add: text_lines_def)
qed

subsection \<open>Base64 bodies\<close>

function line_chunks :: "string \<Rightarrow> string list" where
  "line_chunks e = (if 76 < length e then take 76 e # line_chunks (drop 76 e) else [e])"
  by pat_completeness auto
termination by (relation "measure length") auto

declare line_chunks.simps [simp del]

lemma base64_lines_chunks: "base64_lines e = text_lines (line_chunks e)"
proof (induction e rule: line_chunks.induct)
  case (1 e)
  then show ?case by (simp add: base64_lines.simps [of e] line_chunks.simps [of e] text_lines_def)
qed

lemma concat_line_chunks: "concat (line_chunks e) = e" "l \<in> set (line_chunks e) \<Longrightarrow> set l \<subseteq> set e \<and> length l \<le> 76"
proof (induction e rule: line_chunks.induct)
  case (1 e)
  { case 1
    then show ?case using "1.IH"(1) by (simp add: line_chunks.simps [of e]) }
  { case 2
    then show ?case using "1.IH"(2) set_take_subset [of 76 e] set_drop_subset [of 76 e]
      by (auto simp: line_chunks.simps [of e] split: if_splits) }
qed

lemma base64_text_lines:
  "\<forall>c \<in> set (concat ls). 33 \<le> byte c \<Longrightarrow> base64_text (text_lines ls) = concat ls"
proof (induction ls)
  case (Cons l ls)
  have split: "base64_text (u @ v) = base64_text u @ base64_text v" for u v by (simp add: base64_text_def)
  have "base64_text CRLF = []" by code_simp
  then show ?case using Cons by (simp add: text_lines_def split base64_text_id)
qed (simp add: text_lines_def base64_text_def)

lemma body_lines:
  "\<forall>l \<in> set (line_chunks (StdEncoding_EncodeToString b)). one_line l \<and> \<not> HasPrefix l ''--'' \<and> length l \<le> 76"
proof
  fix l assume l: "l \<in> set (line_chunks (StdEncoding_EncodeToString b))"
  have "33 \<le> byte c \<and> c \<noteq> CHR ''-''" if "c \<in> set l" for c
    using concat_line_chunks(2) [OF l] base64_set [of c b] that by blast
  then have "CHR 0x0D \<notin> set l" "CHR ''-'' \<notin> set l" by force+
  then show "one_line l \<and> \<not> HasPrefix l ''--'' \<and> length l \<le> 76"
    using concat_line_chunks(2) [OF l] by (cases l) (auto simp: one_line_def HasPrefix_def)
qed

theorem body_roundtrip: "StdEncoding_Decode (writeBase64Body b) = Some b"
proof -
  have "base64_text (writeBase64Body b) = StdEncoding_EncodeToString b"
    using base64_text_lines [of "line_chunks (StdEncoding_EncodeToString b)"] base64_set [of _ b]
    by (simp add: writeBase64Body_def base64_lines_chunks concat_line_chunks(1) del: set_concat)
  then show ?thesis by (simp add: StdEncoding_Decode_def base64_round)
qed

subsection \<open>The header\<close>

lemma canonical_keys [simp]:
  "CanonicalMIMEHeaderKey ''From'' = ''From''" "CanonicalMIMEHeaderKey ''To'' = ''To''"
  "CanonicalMIMEHeaderKey ''Subject'' = ''Subject''" "CanonicalMIMEHeaderKey ''MIME-Version'' = ''Mime-Version''"
  "CanonicalMIMEHeaderKey ''Content-Type'' = ''Content-Type''"
  "CanonicalMIMEHeaderKey ''Content-Transfer-Encoding'' = ''Content-Transfer-Encoding''"
  by code_simp+

definition mail_header :: "SendRequest \<Rightarrow> providerEnvelope \<Rightarrow> (string \<times> string) list" where
  "mail_header request envelope =
     [(''From'', name_phrase (chan_FromName (sq_Channel request)) @ ''<'' @ env_from envelope @ ''>''),
      (''To'', env_to envelope), (''Subject'', QEncoding_Encode (msg_Subject (sq_Message request))),
      (''MIME-Version'', ''1.0'')]"

definition header_block :: "(string \<times> string) list \<Rightarrow> string" where
  "header_block hs = concat (map (\<lambda>(k, v). k @ '': '' @ v @ CRLF) hs)"

lemma writeHeaders_mail:
  "writeHeaders (header_Set ''Content-Type'' ct (header_Set ''MIME-Version'' v (header_Set ''Subject'' s
     (header_Set ''To'' t (header_Set ''From'' f [])))))
   = header_block [(''From'', f), (''To'', t), (''Subject'', s), (''MIME-Version'', v), (''Content-Type'', ct)]"
  "writeHeaders (header_Set ''Content-Transfer-Encoding'' cte (header_Set ''Content-Type'' ct
     (header_Set ''MIME-Version'' v (header_Set ''Subject'' s (header_Set ''To'' t (header_Set ''From'' f []))))))
   = header_block [(''From'', f), (''To'', t), (''Subject'', s), (''MIME-Version'', v), (''Content-Type'', ct),
       (''Content-Transfer-Encoding'', cte)]"
  by (simp_all add: writeHeaders_def header_order_def header_Values_def header_Set_def header_lines_def header_block_def)

lemma part_header_block:
  "multipart_header (part_headers ct) = header_block [(''Content-Transfer-Encoding'', ''base64''), (''Content-Type'', ct)]"
proof -
  have order: "sort (map fst (part_headers ct)) = [''Content-Transfer-Encoding'', ''Content-Type'']"
  proof -
    have "map fst (part_headers ct) = [''Content-Type'', ''Content-Transfer-Encoding'']"
      by (simp add: part_headers_def header_Set_def)
    moreover have "sort [''Content-Type'', ''Content-Transfer-Encoding'']
        = [''Content-Transfer-Encoding'', ''Content-Type'' :: string]" by code_simp
    ultimately show ?thesis by simp
  qed
  show ?thesis
    by (simp add: multipart_header_def order header_lines_def header_block_def)
      (simp add: part_headers_def header_Set_def)
qed

lemma envelope_header:
  assumes "normalizeProviderEnvelope request = Inr envelope"
  shows "Address_String \<lparr>addr_Name = chan_FromName (sq_Channel request), addr_Address = env_from envelope\<rparr>
      = name_phrase (chan_FromName (sq_Channel request)) @ ''<'' @ env_from envelope @ ''>''"
    and "\<forall>(k, v) \<in> set (mail_header request envelope). k \<noteq> [] \<and> CHR '':'' \<notin> set k \<and> one_line k \<and> header_text v"
proof -
  have valid: "IsAddrSpecEmail (env_from envelope)" "IsAddrSpecEmail (env_to envelope)"
    "TrimSpace (env_from envelope) = env_from envelope" "TrimSpace (env_to envelope) = env_to envelope"
    using assms by (auto simp: normalizeProviderEnvelope_def Let_def TrimSpace_idem split: if_splits)
  have form: "\<exists>l d. addr_spec_form a l d" if "IsAddrSpecEmail a" "TrimSpace a = a" for a
    using that AddrSpecEmailDomain_Some [of a] by (auto simp: IsAddrSpecEmail_def)
  obtain fl fd tl td where f: "addr_spec_form (env_from envelope) fl fd" "addr_spec_form (env_to envelope) tl td"
    using form valid by meson
  show "Address_String \<lparr>addr_Name = chan_FromName (sq_Channel request), addr_Address = env_from envelope\<rparr>
      = name_phrase (chan_FromName (sq_Channel request)) @ ''<'' @ env_from envelope @ ''>''"
    by (rule Address_String_form [OF f(1)])
  show "\<forall>(k, v) \<in> set (mail_header request envelope). k \<noteq> [] \<and> CHR '':'' \<notin> set k \<and> one_line k \<and> header_text v"
    using header_text_address(1) [OF f(1)] header_text_address(1) [OF f(2)]
    by (simp add: mail_header_def one_line_def header_text_phrase header_text_encoded)
qed

subsection \<open>The message\<close>

text \<open>The bodies a message carries, the plain text first.\<close>

definition mail_parts :: "Message \<Rightarrow> (string \<times> string) list" where
  "mail_parts m =
     (if msg_TextBody m = [] then [] else [(text_plain, msg_TextBody m)])
     @ (if msg_HTMLBody m = [] then [] else [(text_html, msg_HTMLBody m)])"

definition boundary_text :: "string \<Rightarrow> bool" where
  "boundary_text b \<longleftrightarrow> (\<forall>c \<in> set b. is_digit c \<or> char_between CHR ''a'' CHR ''f'' c)"

lemma boundary_chars:
  assumes "boundary_text b"
  shows "CHR 0x0D \<notin> set b" "quote_char \<notin> set b" "header_text b"
  using assms by (auto simp: boundary_text_def char_between_def header_text_def)

lemma content_types:
  "header_text text_plain" "header_text text_html"
  "cut_sep (''boundary='' @ [quote_char]) text_plain = None" "cut_sep (''boundary='' @ [quote_char]) text_html = None"
  by code_simp+

lemma read_block:
  assumes "\<forall>(k, v) \<in> set hs. k \<noteq> [] \<and> CHR '':'' \<notin> set k \<and> one_line k \<and> header_text v"
  shows "read_headers (header_block hs @ CRLF @ body) = Some (hs, body)"
  unfolding header_block_def by (rule read_headers_lines) (use assms header_text_one_line in blast)

lemma read_single:
  assumes "normalizeProviderEnvelope request = Inr envelope" "ct = text_plain \<or> ct = text_html"
  shows "read_mail (header_block (mail_header request envelope @ [(''Content-Type'', ct),
      (''Content-Transfer-Encoding'', ''base64'')]) @ CRLF @ writeBase64Body body)
    = Some (mail_header request envelope @ [(''Content-Type'', ct), (''Content-Transfer-Encoding'', ''base64'')],
        [(ct, body)])"
proof -
  let ?hs = "mail_header request envelope @ [(''Content-Type'', ct), (''Content-Transfer-Encoding'', ''base64'')]"
  have h: "read_headers (header_block ?hs @ CRLF @ writeBase64Body body) = Some (?hs, writeBase64Body body)"
    using envelope_header(2) [OF assms(1)] assms(2) content_types(1,2)
    by (intro read_block) (auto simp: one_line_def)
  have ct: "content_type_of ?hs = ct" by (simp add: content_type_of_def mail_header_def)
  show ?thesis using assms(2) content_types(3,4) body_roundtrip [of body] unfolding read_mail_def h option.case prod.case ct
    by auto
qed

lemma read_part:
  assumes "header_text ct"
  shows "cut_sep (CRLF @ ''--'' @ b) (header_block [(''Content-Transfer-Encoding'', ''base64''), (''Content-Type'', ct)]
      @ CRLF @ writeBase64Body body @ CRLF @ ''--'' @ b @ rest)
    = Some (header_block [(''Content-Transfer-Encoding'', ''base64''), (''Content-Type'', ct)] @ CRLF @ writeBase64Body body, rest)"
    "read_headers (header_block [(''Content-Transfer-Encoding'', ''base64''), (''Content-Type'', ct)] @ CRLF @ writeBase64Body body)
    = Some ([(''Content-Transfer-Encoding'', ''base64''), (''Content-Type'', ct)], writeBase64Body body)"
proof -
  let ?ls = "(''Content-Transfer-Encoding: base64'') # (''Content-Type: '' @ ct) # [] # line_chunks (StdEncoding_EncodeToString body)"
  have block: "header_block [(''Content-Transfer-Encoding'', ''base64''), (''Content-Type'', ct)] @ CRLF @ writeBase64Body body
      = text_lines ?ls"
    by (simp add: header_block_def text_lines_def writeBase64Body_def base64_lines_chunks)
  have "\<forall>l \<in> set ?ls. one_line l \<and> \<not> HasPrefix l ''--''"
    using body_lines [of body] header_text_one_line [OF assms] by (auto simp: one_line_def HasPrefix_def)
  from cut_lines [OF this, of b rest]
  show "cut_sep (CRLF @ ''--'' @ b) (header_block [(''Content-Transfer-Encoding'', ''base64''), (''Content-Type'', ct)]
      @ CRLF @ writeBase64Body body @ CRLF @ ''--'' @ b @ rest)
    = Some (header_block [(''Content-Transfer-Encoding'', ''base64''), (''Content-Type'', ct)] @ CRLF @ writeBase64Body body, rest)"
    unfolding block [symmetric] append_assoc .
  show "read_headers (header_block [(''Content-Transfer-Encoding'', ''base64''), (''Content-Type'', ct)] @ CRLF @ writeBase64Body body)
    = Some ([(''Content-Transfer-Encoding'', ''base64''), (''Content-Type'', ct)], writeBase64Body body)"
    using assms by (intro read_block) (simp add: one_line_def)
qed

lemma read_alternative:
  assumes "normalizeProviderEnvelope request = Inr envelope" "boundary_text b"
  shows "read_mail (header_block (mail_header request envelope @ [(''Content-Type'',
        ''multipart/alternative; boundary='' @ quote_char # b @ [quote_char])]) @ CRLF
      @ CreatePart b True (part_headers text_plain) @ writeBase64Body plain
      @ CreatePart b False (part_headers text_html) @ writeBase64Body html @ multipart_Close b)
    = Some (mail_header request envelope @ [(''Content-Type'', ''multipart/alternative; boundary='' @ quote_char # b @ [quote_char])],
        [(text_plain, plain), (text_html, html)])"
proof -
  let ?ct = "''multipart/alternative; boundary='' @ quote_char # b @ [quote_char]"
  let ?hs = "mail_header request envelope @ [(''Content-Type'', ?ct)]"
  let ?second = "header_block [(''Content-Transfer-Encoding'', ''base64''), (''Content-Type'', text_html)] @ CRLF
      @ writeBase64Body html @ CRLF @ ''--'' @ b @ ''--'' @ CRLF"
  let ?parts = "header_block [(''Content-Transfer-Encoding'', ''base64''), (''Content-Type'', text_plain)] @ CRLF
      @ writeBase64Body plain @ CRLF @ ''--'' @ b @ CRLF @ ?second"
  let ?body = "''--'' @ b @ CRLF @ ?parts"
  have body: "CreatePart b True (part_headers text_plain) @ writeBase64Body plain
      @ CreatePart b False (part_headers text_html) @ writeBase64Body html @ multipart_Close b = ?body"
    by (simp add: CreatePart_def part_header_block multipart_Close_def)
  have h: "read_headers (header_block ?hs @ CRLF @ ?body) = Some (?hs, ?body)"
    using envelope_header(2) [OF assms(1)] boundary_chars(3) [OF assms(2)]
    by (intro read_block) (auto simp: one_line_def)
  have ct: "content_type_of ?hs = ?ct" by (simp add: content_type_of_def mail_header_def)
  have c1: "cut_sep (''boundary='' @ [quote_char]) ?ct = Some (''multipart/alternative; '', b @ [quote_char])"
    using cut_first [of "CHR ''b''" "''multipart/alternative; ''" "''oundary='' @ [quote_char]" "b @ [quote_char]"] by simp
  have c2: "cut_sep [quote_char] (b @ [quote_char]) = Some (b, [])"
    using cut_first [OF boundary_chars(2) [OF assms(2)], of "[]" "[]"] by simp
  have c3: "cut_sep (''--'' @ b @ CRLF) ?body = Some ([], ?parts)"
    using cut_first [of "CHR ''-''" "[]" "''-'' @ b @ CRLF" ?parts] by simp
  have c4: "cut_sep CRLF (CRLF @ ?second) = Some ([], ?second)"
    using cut_first [of "CHR 0x0D" "[]" "[CHR 0x0A]" ?second] by (simp add: CRLF_def)
  have p2: "read_parts b ?second = Some [([(''Content-Transfer-Encoding'', ''base64''), (''Content-Type'', text_html)], html)]"
    using read_part(1) [OF content_types(2), of b html "''--'' @ CRLF"] read_part(2) [OF content_types(2), of html] body_roundtrip [of html]
    by (subst read_parts.simps) (simp add: HasPrefix_def)
  have nd: "\<not> HasPrefix (CRLF @ x) ''--''" for x by (simp add: HasPrefix_def CRLF_def)
  have p1: "read_parts b ?parts = Some [([(''Content-Transfer-Encoding'', ''base64''), (''Content-Type'', text_plain)], plain),
      ([(''Content-Transfer-Encoding'', ''base64''), (''Content-Type'', text_html)], html)]"
    using read_part(1) [OF content_types(1), of b plain "CRLF @ ?second"] read_part(2) [OF content_types(1), of plain] body_roundtrip [of plain] c4 p2 nd
    by (subst read_parts.simps) simp
  show ?thesis
    unfolding body read_mail_def h option.case prod.case ct c1 c2 c3 p1 by (simp add: content_type_of_def)
qed

lemma message_cases:
  assumes env: "normalizeProviderEnvelope request = Inr envelope" and b: "boundary_text boundary"
    and m: "buildMIMEMessage boundary request envelope = Inr m"
  shows "\<exists>types. read_mail m = Some (mail_header request envelope @ types, mail_parts (sq_Message request))
    \<and> set (map fst types) \<subseteq> {''Content-Type'', ''Content-Transfer-Encoding''}"
proof -
  let ?html = "msg_HTMLBody (sq_Message request)" and ?plain = "msg_TextBody (sq_Message request)"
  note from_text = envelope_header(1) [OF env]
  note block = writeHeaders_mail mail_header_def [symmetric]
  consider (both) "?html \<noteq> []" "?plain \<noteq> []" | (html) "?html \<noteq> []" "?plain = []" | (plain) "?html = []" "?plain \<noteq> []"
    using m by (auto simp: buildMIMEMessage_def Let_def split: if_splits)
  then show ?thesis
  proof cases
    case both
    then have "m = header_block (mail_header request envelope @ [(''Content-Type'',
        ''multipart/alternative; boundary='' @ quote_char # boundary @ [quote_char])]) @ CRLF
      @ CreatePart boundary True (part_headers text_plain) @ writeBase64Body ?plain
      @ CreatePart boundary False (part_headers text_html) @ writeBase64Body ?html @ multipart_Close boundary"
      using m by (simp add: buildMIMEMessage_def from_text buildMultipartAlternative_def writeHeaders_mail mail_header_def)
    then show ?thesis using read_alternative [OF env b] both by (auto simp: mail_parts_def)
  next
    case html
    then have "m = header_block (mail_header request envelope @ [(''Content-Type'', text_html),
        (''Content-Transfer-Encoding'', ''base64'')]) @ CRLF @ writeBase64Body ?html"
      using m by (simp add: buildMIMEMessage_def from_text buildSinglepart_def writeHeaders_mail mail_header_def)
    then show ?thesis using read_single [OF env, of text_html] html by (auto simp: mail_parts_def)
  next
    case plain
    then have "m = header_block (mail_header request envelope @ [(''Content-Type'', text_plain),
        (''Content-Transfer-Encoding'', ''base64'')]) @ CRLF @ writeBase64Body ?plain"
      using m by (simp add: buildMIMEMessage_def from_text buildSinglepart_def writeHeaders_mail mail_header_def)
    then show ?thesis using read_single [OF env, of text_plain] plain by (auto simp: mail_parts_def)
  qed
qed

section \<open>The session as one sequence\<close>

text \<open>
  The calls of a session in which everything is accepted, each with what it means when it is refused,
  and the first call that is refused.
\<close>

definition session_plan ::
    "SMTPTransport \<Rightarrow> SMTPSettings \<Rightarrow> providerEnvelope \<Rightarrow> string \<Rightarrow> string \<Rightarrow> smtp_call list" where
  "session_plan t settings envelope password message =
     [Dial (JoinHostPort (smtp_Host settings) (smtp_Port settings)), Greeting (smtp_Host settings), Hello ''localhost'',
      StartTLS (case st_tlsConfig t of None \<Rightarrow> (smtp_Host settings, VersionTLS12) | Some c \<Rightarrow> c),
      PlainAuth (smtp_Username settings) password (smtp_Host settings), Mail_from (env_from envelope),
      Rcpt_to (env_to envelope), Data, Write_data message, Close_data]"

fun refused :: "smtp_env \<Rightarrow> smtp_call list \<Rightarrow> smtp_call list \<Rightarrow> (smtp_call list \<times> smtp_call \<times> smtp_error) option" where
  "refused env trace [] = None"
| "refused env trace (c # cs) =
     (case se_answer env (trace @ [c]) of
        Some e \<Rightarrow> Some (trace @ [c], c, e)
      | None \<Rightarrow> refused env (trace @ [c]) cs)"

definition stage_of :: "smtp_call \<Rightarrow> smtpStage" where
  "stage_of c = (case c of StartTLS _ \<Rightarrow> StageStartTLS | PlainAuth _ _ _ \<Rightarrow> StageAuth | Mail_from _ \<Rightarrow> StageMailFrom
     | Rcpt_to _ \<Rightarrow> StageRcptTo | Data \<Rightarrow> StageData | Close_data \<Rightarrow> StageData | _ \<Rightarrow> StageConnect)"

definition refusal :: "smtp_call \<Rightarrow> smtp_error \<Rightarrow> SendResult" where
  "refusal c e = (case c of Write_data _ \<Rightarrow> TemporaryFailure ErrorCodeProviderUnavailable ''smtp data write failed''
     | _ \<Rightarrow> classifySMTPError e (stage_of c))"

definition after_refusal :: "smtp_call \<Rightarrow> smtp_call list" where
  "after_refusal c = (case c of Dial _ \<Rightarrow> [] | Write_data _ \<Rightarrow> [Close_data, Close_conn] | _ \<Rightarrow> [Close_conn])"

lemma smtp_session_plan:
  "smtp_session t env settings envelope password message =
     (case refused env [] (session_plan t settings envelope password message) of
        None \<Rightarrow> (Accepted [], session_plan t settings envelope password message @ [Quit, Close_conn])
      | Some (trace, c, e) \<Rightarrow> (refusal c e, trace @ after_refusal c))"
  by (simp add: smtp_session_def session_plan_def openClient_def smtp_do_def smtpResult_def smtp_data_def refusal_def
      after_refusal_def stage_of_def split: option.split)

text \<open>A refused sequence is a prefix of the plan whose earlier calls were all accepted.\<close>

lemma refused_prefix:
  "refused env trace cs = Some (tr, c, e) \<Longrightarrow> \<exists>us vs. cs = us @ c # vs \<and> tr = trace @ us @ [c]
     \<and> se_answer env tr = Some e \<and> (\<forall>k < length us. se_answer env (trace @ take (Suc k) us) = None)"
proof (induction env trace cs rule: refused.induct)
  case (2 env trace d cs)
  show ?case
  proof (cases "se_answer env (trace @ [d])")
    case None
    then obtain us vs where u: "cs = us @ c # vs" "tr = (trace @ [d]) @ us @ [c]" "se_answer env tr = Some e"
      "\<forall>k < length us. se_answer env ((trace @ [d]) @ take (Suc k) us) = None" using 2 by auto
    have "se_answer env (trace @ take (Suc k) (d # us)) = None" if "k < length (d # us)" for k
      using u(4) None that by (cases k) auto
    then show ?thesis using u by (intro exI [of _ "d # us"] exI [of _ vs]) auto
  next
    case (Some e')
    then show ?thesis using 2(2) by (intro exI [of _ "[]"] exI [of _ cs]) auto
  qed
qed simp

lemma refused_none:
  "refused env trace cs = None \<Longrightarrow> k < length cs \<Longrightarrow> se_answer env (trace @ take (Suc k) cs) = None"
proof (induction env trace cs arbitrary: k rule: refused.induct)
  case (2 env trace d cs)
  then show ?case by (cases k) (auto split: option.splits)
qed simp

lemma failed_kinds [simp]:
  "\<not> IsAccepted (TemporaryFailure c m)" "\<not> IsAccepted (ChannelFailure c m)" "\<not> IsAccepted (MessagePermanentFailure c m)"
  "IsAccepted (Accepted i)"
  by (simp_all add: IsAccepted_def TemporaryFailure_def ChannelFailure_def MessagePermanentFailure_def Failed_def
      Accepted_def)

lemma classify_failed [simp]: "\<not> IsAccepted (classifySMTPError e stage)"
  by (cases e) (simp_all add: classifySMTPError_def Let_def)

lemma refusal_failed [simp]: "\<not> IsAccepted (refusal c e)"
  by (cases c) (simp_all add: refusal_def)

lemma envelope_failed: "normalizeProviderEnvelope request = Inl r \<Longrightarrow> \<not> IsAccepted r"
  by (auto simp: normalizeProviderEnvelope_def Let_def split: if_splits)

lemma apfst_Inr: "apfst Inr x = (Inr r, trace) \<longleftrightarrow> x = (r, trace)"
  by (cases x) auto

text \<open>The calls of a session are those of the plan up to the first one that is refused.\<close>

definition follows_plan ::
    "smtp_env \<Rightarrow> smtp_call list \<Rightarrow> SendResult \<Rightarrow> smtp_call list \<Rightarrow> bool" where
  "follows_plan env plan r trace \<longleftrightarrow>
     (\<exists>us vs. plan = us @ vs \<and> us \<noteq> [] \<and> list_all (\<lambda>k. se_answer env (take k us) = None) [1..<length us]
        \<and> (if IsAccepted r then vs = [] \<and> se_answer env us = None \<and> trace = us @ [Quit, Close_conn]
           else \<exists>e. se_answer env us = Some e \<and> r = refusal (last us) e \<and> trace = us @ after_refusal (last us)))"

lemma session_follows:
  assumes "smtp_session t env settings envelope password message = (r, trace)"
  shows "follows_plan env (session_plan t settings envelope password message) r trace"
proof (cases "refused env [] (session_plan t settings envelope password message)")
  case None
  let ?plan = "session_plan t settings envelope password message"
  have a: "se_answer env (take (Suc k) ?plan) = None" if "k < length ?plan" for k
    using refused_none [OF None that] by simp
  have n: "length ?plan = 10" by (simp add: session_plan_def)
  have "se_answer env (take k ?plan) = None" if "k \<in> set [1..<length ?plan]" for k
    using a [of "k - 1"] that by auto
  then have "list_all (\<lambda>k. se_answer env (take k ?plan) = None) [1..<length ?plan]"
    unfolding list_all_iff by blast
  moreover have "se_answer env ?plan = None" using a [of 9] n by simp
  ultimately show ?thesis
    using assms None n unfolding smtp_session_plan follows_plan_def by (intro exI [of _ ?plan] exI [of _ "[]"]) auto
next
  case (Some x)
  obtain tr c e where x: "x = (tr, c, e)" by (cases x)
  obtain us vs where u: "session_plan t settings envelope password message = us @ c # vs" "tr = us @ [c]"
    "se_answer env tr = Some e" "\<forall>k < length us. se_answer env (take (Suc k) us) = None"
    using refused_prefix [OF Some [unfolded x]] by auto
  have "se_answer env (take k (us @ [c])) = None" if "k \<in> set [1..<length (us @ [c])]" for k
    using u(4) [rule_format, of "k - 1"] that by auto
  then have "list_all (\<lambda>k. se_answer env (take k (us @ [c])) = None) [1..<length (us @ [c])]"
    unfolding list_all_iff by blast
  moreover have run: "r = refusal c e" "trace = tr @ after_refusal c" using assms Some x by (simp_all add: smtp_session_plan)
  moreover have "\<not> IsAccepted r" by (simp add: run(1))
  ultimately show ?thesis
    unfolding follows_plan_def u(1) using u(2,3) by (intro exI [of _ "us @ [c]"] exI [of _ vs]) simp
qed

lemma after_refusal_calls: "set (after_refusal c) \<subseteq> {Close_data, Close_conn}"
  by (cases c) (auto simp: after_refusal_def)

lemma follows_split:
  assumes "follows_plan env plan r trace"
  obtains us vs tail where "plan = us @ vs" "us \<noteq> []" "list_all (\<lambda>k. se_answer env (take k us) = None) [1..<length us]"
    "trace = us @ tail" "set tail \<subseteq> {Close_data, Close_conn, Quit}"
proof (cases "IsAccepted r")
  case True
  then show thesis using assms that [of plan "[]" "[Quit, Close_conn]"] by (simp add: follows_plan_def)
next
  case False
  then obtain us vs where "plan = us @ vs" "us \<noteq> []" "list_all (\<lambda>k. se_answer env (take k us) = None) [1..<length us]"
    "trace = us @ after_refusal (last us)"
    using assms by (auto simp: follows_plan_def)
  then show thesis using after_refusal_calls [of "last us"] by (intro that [of us vs "after_refusal (last us)"]) auto
qed

text \<open>Where a call of the plan stands in the trace, all calls before it were accepted.\<close>

lemma follows_before:
  assumes f: "follows_plan env plan r trace" and t: "trace = u @ c # v" and c: "c \<notin> {Close_data, Close_conn, Quit}"
    and "u \<noteq> []"
  shows "se_answer env u = None \<and> (\<exists>w. plan = u @ c # w)"
proof -
  obtain us vs tail where p: "plan = us @ vs" "us \<noteq> []" "list_all (\<lambda>k. se_answer env (take k us) = None) [1..<length us]"
    "trace = us @ tail" "set tail \<subseteq> {Close_data, Close_conn, Quit}"
    by (rule follows_split [OF f])
  have "c \<notin> set tail" using p(5) c by blast
  then have "length u < length us"
    using p(4) t by (metis append_eq_append_conv_if in_set_conv_decomp linorder_not_less list.sel(1) append_Cons)
  then obtain w where w: "us = u @ c # w"
    using p(4) t by (auto simp: append_eq_append_conv2 Cons_eq_append_conv)
  then have "length u \<in> set [1..<length us]" "take (length u) us = u" using \<open>u \<noteq> []\<close> by (auto simp: Suc_le_eq)
  then have "se_answer env u = None" using p(3) unfolding list_all_iff by metis
  then show ?thesis using w p(1) by simp
qed

section \<open>An example\<close>

text \<open>A subject with a letter outside ASCII and a line break that tries to add a header line.\<close>

definition sample_mail :: SendRequest where
  "sample_mail =
     \<lparr>sq_Message = zero_Message\<lparr>msg_ToEmail := ''bob@x.co'', msg_Subject := ''Gr'' @ [CHR 0xC3, CHR 0xBC] @ CRLF @ ''Bcc: eve'',
        msg_TextBody := ''Hello'', msg_HTMLBody := ''<b>Hello</b>''\<rparr>,
      sq_Account = \<lparr>acct_Code = ''a'', acct_Provider = ProviderBrevo, acct_Enabled = True, acct_CredentialRefs = Map.empty\<rparr>,
      sq_Channel = zero_channel\<lparr>chan_Transport := TransportSMTP, chan_From := ''shop@y.org'', chan_FromName := ''Shop'',
        chan_SMTP := Some \<lparr>smtp_Host = ''smtp.y.org'', smtp_Port = 587, smtp_Username = ''u'', smtp_PasswordRef = ''env:P''\<rparr>\<rparr>,
      sq_Attempt = 1\<rparr>"

definition sample_smtp_env :: smtp_env where
  "sample_smtp_env = \<lparr>se_ctx = None, se_boundary = ''0a1b'', se_answer = (\<lambda>_. None)\<rparr>"

lemma sample_envelope: "normalizeProviderEnvelope sample_mail = Inr \<lparr>env_from = ''shop@y.org'', env_to = ''bob@x.co''\<rparr>"
  by code_simp

lemma sample_mail_channel:
  "chan_Transport (sq_Channel sample_mail) = TransportSMTP"
  "chan_SMTP (sq_Channel sample_mail)
     = Some \<lparr>smtp_Host = ''smtp.y.org'', smtp_Port = 587, smtp_Username = ''u'', smtp_PasswordRef = ''env:P''\<rparr>"
  "se_ctx sample_smtp_env = None" "se_answer sample_smtp_env = (\<lambda>_. None)"
  by (simp_all add: sample_mail_def sample_smtp_env_def)

lemma sample_mail_built: "\<exists>m. buildMIMEMessage b sample_mail envelope = Inr m"
  by (simp add: buildMIMEMessage_def sample_mail_def zero_Message_def)

section \<open>Properties\<close>

text \<open>
  C25. What is sent over SMTP is the message. The mail built for a request is read back with the sender, the
  recipient, the subject and the bodies of the message and no other header line, whatever bytes the
  subject, the sender name and the bodies hold; the encoded words of the subject stay within 75
  characters. The only message that gives no mail is one without a body.
\<close>

theorem mail_reads_back:
  assumes "normalizeProviderEnvelope request = Inr envelope" "boundary_text boundary"
  shows "case buildMIMEMessage boundary request envelope of
      Inl _ \<Rightarrow> mail_parts (sq_Message request) = []
    | Inr m \<Rightarrow> \<exists>hs. read_mail m = Some (hs, mail_parts (sq_Message request))
        \<and> set (map fst hs) \<subseteq> {''From'', ''To'', ''Subject'', ''MIME-Version'', ''Content-Type'', ''Content-Transfer-Encoding''}
        \<and> map_of hs ''From'' = Some (name_phrase (chan_FromName (sq_Channel request)) @ ''<'' @ env_from envelope @ ''>'')
        \<and> map_of hs ''To'' = Some (env_to envelope)
        \<and> (\<exists>s. map_of hs ''Subject'' = Some s
            \<and> (if needsEncoding (msg_Subject (sq_Message request))
               then read_words s = Some (msg_Subject (sq_Message request))
                 \<and> list_all (\<lambda>w. length w \<le> maxEncodedWordLen) (encoded_words s)
               else s = msg_Subject (sq_Message request)))"
proof (cases "buildMIMEMessage boundary request envelope")
  case (Inl e)
  then show ?thesis by (auto simp: buildMIMEMessage_def Let_def mail_parts_def split: if_splits)
next
  case (Inr m)
  obtain types where types: "read_mail m = Some (mail_header request envelope @ types, mail_parts (sq_Message request))"
    "set (map fst types) \<subseteq> {''Content-Type'', ''Content-Transfer-Encoding''}"
    using message_cases [OF assms Inr] by blast
  let ?s = "msg_Subject (sq_Message request)"
  have "if needsEncoding ?s then read_words (QEncoding_Encode ?s) = Some ?s
      \<and> list_all (\<lambda>w. length w \<le> maxEncodedWordLen) (encoded_words (QEncoding_Encode ?s)) else QEncoding_Encode ?s = ?s"
  proof (cases "needsEncoding ?s")
    case True
    then show ?thesis using QEncoding_word_length by (simp add: QEncoding_roundtrip list_all_iff)
  qed (simp add: QEncoding_Encode_def)
  then show ?thesis using types Inr by (auto simp: mail_header_def)
qed

lemma mail_reads_back_witness:
  "\<exists>m hs s. buildMIMEMessage ''0a1b'' sample_mail \<lparr>env_from = ''shop@y.org'', env_to = ''bob@x.co''\<rparr> = Inr m
     \<and> read_mail m = Some (hs, [(text_plain, ''Hello''), (text_html, ''<b>Hello</b>'')])
     \<and> map_of hs ''Subject'' = Some s \<and> read_words s = Some (''Gr'' @ [CHR 0xC3, CHR 0xBC] @ CRLF @ ''Bcc: eve'')
     \<and> map_of hs ''Bcc'' = None"
proof -
  have boundary: "boundary_text ''0a1b''" by code_simp
  obtain m where m: "buildMIMEMessage ''0a1b'' sample_mail \<lparr>env_from = ''shop@y.org'', env_to = ''bob@x.co''\<rparr> = Inr m"
    using sample_mail_built by blast
  have parts: "mail_parts (sq_Message sample_mail) = [(text_plain, ''Hello''), (text_html, ''<b>Hello</b>'')]"
    "needsEncoding (msg_Subject (sq_Message sample_mail))"
    "msg_Subject (sq_Message sample_mail) = ''Gr'' @ [CHR 0xC3, CHR 0xBC] @ CRLF @ ''Bcc: eve''" by code_simp+
  obtain hs s where hs: "read_mail m = Some (hs, mail_parts (sq_Message sample_mail))"
    "set (map fst hs) \<subseteq> {''From'', ''To'', ''Subject'', ''MIME-Version'', ''Content-Type'', ''Content-Transfer-Encoding''}"
    "map_of hs ''Subject'' = Some s" "read_words s = Some (msg_Subject (sq_Message sample_mail))"
    using mail_reads_back [OF sample_envelope boundary] parts(2) unfolding m sum.case by auto
  moreover have "map_of hs ''Bcc'' = None" using hs(2) by (auto simp: map_of_eq_None_iff)
  ultimately show ?thesis using m parts(1,3) by auto
qed

text \<open>The requests that no session can serve, before any network call is made.\<close>

definition smtp_unsendable :: "SMTPTransport \<Rightarrow> smtp_env \<Rightarrow> SendRequest \<Rightarrow> bool" where
  "smtp_unsendable t env request \<longleftrightarrow>
     chan_Transport (sq_Channel request) \<noteq> TransportSMTP
   \<or> (case chan_SMTP (sq_Channel request) of
        None \<Rightarrow> True
      | Some settings \<Rightarrow> smtp_Host settings = [] \<or> smtp_Port settings = 0 \<or> smtp_Username settings = []
          \<or> st_requirePort t \<and> smtp_Port settings \<noteq> 587)
   \<or> (\<exists>result. normalizeProviderEnvelope request = Inl result)
   \<or> (\<exists>e. smtp_password t request = Inl e)
   \<or> (\<exists>envelope e. normalizeProviderEnvelope request = Inr envelope
         \<and> buildMIMEMessage (se_boundary env) request envelope = Inl e)"

lemma Send_cases:
  assumes "SMTPTransport_Send t env request = (Inr r, trace)"
  shows "smtp_unsendable t env request \<and> trace = [] \<and> \<not> IsAccepted r \<or>
    \<not> smtp_unsendable t env request \<and>
    (\<exists>settings envelope password message. chan_SMTP (sq_Channel request) = Some settings
       \<and> normalizeProviderEnvelope request = Inr envelope \<and> smtp_password t request = Inr password
       \<and> buildMIMEMessage (se_boundary env) request envelope = Inr message
       \<and> smtp_session t env settings envelope password message = (r, trace))"
  using assms
  by (auto simp: SMTPTransport_Send_def smtp_unsendable_def Let_def apfst_Inr dest: envelope_failed
      split: option.splits if_splits sum.splits)

text \<open>
  C19. The SMTP session. A request without usable settings, envelope, password or mail makes no network call
  at all, and every other request makes the calls of its plan, in its order, up to the first refusal,
  which decides the result. A message counts as accepted only when every call up to the end of the data
  was accepted, and then the envelope and the mail were those of the message. The password is sent only after the server has accepted STARTTLS, the mail only
  after it has accepted the password and both addresses, and at most once; and a connection that was
  opened is closed.
\<close>

theorem smtp_session_order:
  assumes "SMTPTransport_Send t env request = (Inr r, trace)"
  shows "(IsAccepted r \<longleftrightarrow> Quit \<in> set trace)
    \<and> (\<forall>u user password host v. trace = u @ PlainAuth user password host # v \<longrightarrow>
         se_answer env u = None \<and> (\<exists>config. last u = StartTLS config))
    \<and> (if smtp_unsendable t env request then trace = [] \<and> \<not> IsAccepted r
       else \<exists>settings envelope password message.
          chan_SMTP (sq_Channel request) = Some settings \<and> smtp_password t request = Inr password
        \<and> normalizeProviderEnvelope request = Inr envelope
        \<and> buildMIMEMessage (se_boundary env) request envelope = Inr message
        \<and> follows_plan env (session_plan t settings envelope password message) r trace)"
proof (cases "smtp_unsendable t env request")
  case True
  then show ?thesis using Send_cases [OF assms] by auto
next
  case False
  then obtain settings envelope password message where c: "chan_SMTP (sq_Channel request) = Some settings"
    "smtp_password t request = Inr password" "normalizeProviderEnvelope request = Inr envelope"
    "buildMIMEMessage (se_boundary env) request envelope = Inr message"
    "follows_plan env (session_plan t settings envelope password message) r trace"
    using Send_cases [OF assms] session_follows by metis
  let ?plan = "session_plan t settings envelope password message"
  have q: "Quit \<notin> set ?plan" by (simp add: session_plan_def)
  have "IsAccepted r \<longleftrightarrow> Quit \<in> set trace"
    using c(5) q after_refusal_calls by (auto simp: follows_plan_def split: if_splits) blast+
  moreover have "se_answer env u = None \<and> (\<exists>config. last u = StartTLS config)"
    if split: "trace = u @ PlainAuth user pw host # v" for u user pw host v
  proof -
    obtain us vs tail where "?plan = us @ vs" "us \<noteq> []" "trace = us @ tail"
      by (rule follows_split [OF c(5)])
    then have "hd trace = hd ?plan" by simp
    then have "u \<noteq> []" using split by (auto simp: session_plan_def)
    then obtain w where "se_answer env u = None" "?plan = u @ PlainAuth user pw host # w"
      using follows_before [OF c(5) split] by auto
    then show ?thesis by (auto simp: session_plan_def Cons_eq_append_conv)
  qed
  ultimately show ?thesis using c False by auto
qed

lemma smtp_session_order_witness:
  "\<exists>trace. SMTPTransport_Send (NewSMTPTransport (Some (\<lambda>_. Inr ''secret''))) sample_smtp_env sample_mail
      = (Inr (Accepted []), trace)
     \<and> Quit \<in> set trace"
proof -
  let ?t = "NewSMTPTransport (Some (\<lambda>_. Inr ''secret''))"
  obtain m where m: "buildMIMEMessage (se_boundary sample_smtp_env) sample_mail
      \<lparr>env_from = ''shop@y.org'', env_to = ''bob@x.co''\<rparr> = Inr m" using sample_mail_built by blast
  have p: "smtp_password ?t sample_mail = Inr ''secret''" by (simp add: smtp_password_def NewSMTPTransport_def sample_mail_def)
  have "\<exists>trace. SMTPTransport_Send ?t sample_smtp_env sample_mail = (Inr (Accepted []), trace)"
    by (simp add: SMTPTransport_Send_def sample_envelope p m sample_mail_channel smtp_session_plan session_plan_def)
  then show ?thesis using smtp_session_order [of ?t sample_smtp_env sample_mail "Accepted []"] by auto
qed

end
