(* ===== verification/JsonText.thy ===== *)
theory JsonText
  imports JsonFacts
begin

text \<open>
  JSON texts with arrays and nested objects, as \<open>json.Marshal\<close> writes the requests to the mail services,
  and their reading: a text reads as a value at a depth when the scanner finds it there, whatever
  separator or closing bracket follows.
\<close>

fun elements_text :: "string list \<Rightarrow> string" where
  "elements_text [] = []"
| "elements_text [t] = t"
| "elements_text (t # u # ts) = t @ '','' @ elements_text (u # ts)"

definition array_text :: "string list \<Rightarrow> string" where
  "array_text ts = ''['' @ elements_text ts @ '']''"

definition reads_at :: "nat \<Rightarrow> string \<Rightarrow> json \<Rightarrow> bool" where
  "reads_at d t v \<longleftrightarrow> t \<noteq> [] \<and> \<not> json_space (hd t)
     \<and> (\<forall>n c rest. 2 * length (t @ c # rest) + 2 \<le> n \<longrightarrow> c \<in> set '',}]'' \<longrightarrow>
          json_value n d (t @ c # rest) = Some (v, c # rest))"

lemma reads_atD:
  assumes "reads_at d t v" "2 * length (t @ c # rest) + 2 \<le> n" "c \<in> set '',}]''"
  shows "json_value n d (t @ c # rest) = Some (v, c # rest)"
  using assms unfolding reads_at_def by blast

lemma reads_at_hd:
  assumes "reads_at d t v"
  obtains x xs where "t = x # xs" "\<not> json_space x"
  using assms by (cases t) (auto simp: reads_at_def)

lemma spaces [simp]: "\<not> json_space (CHR '']'')" "\<not> json_space (CHR ''['')"
  by (simp_all add: json_space_def)

lemma reads_at_quote: "reads_at d (json_quote s) (JString (json_repair s))"
  unfolding reads_at_def
proof (intro conjI allI impI)
  fix n c rest
  assume "2 * length (json_quote s @ c # rest) + 2 \<le> n"
  then obtain m where n: "n = Suc m" by (cases n) auto
  show "json_value n d (json_quote s @ c # rest) = Some (JString (json_repair s), c # rest)"
    unfolding n json_step json_quote_def by (simp add: skip_ws_unspaced json_string_body)
qed (simp_all add: json_quote_def)

text \<open>The elements of an array and the members of an object, up to the closing bracket.\<close>

lemma json_elements_text:
  assumes "ts \<noteq> []" "list_all2 (reads_at d) ts vs"
    and "2 * length (elements_text ts @ CHR '']'' # rest) + 3 \<le> n"
  shows "json_elements n d (elements_text ts @ CHR '']'' # rest) = Some (vs, rest)"
  using assms
proof (induction ts arbitrary: vs n)
  case (Cons t ts)
  obtain v vs' where vs: "vs = v # vs'" "reads_at d t v" "list_all2 (reads_at d) ts vs'"
    using Cons.prems(2) by (auto simp: list_all2_Cons1)
  obtain n' where n: "n = Suc n'" using Cons.prems(3) by (cases n) auto
  show ?case
  proof (cases ts)
    case Nil
    have "json_value n' d (t @ CHR '']'' # rest) = Some (v, CHR '']'' # rest)"
      using Cons.prems(3) Nil by (intro reads_atD [OF vs(2)]) (auto simp: n)
    then show ?thesis using Nil vs by (simp add: n json_step skip_ws_unspaced)
  next
    case (Cons u us)
    let ?rest = "elements_text ts @ CHR '']'' # rest"
    have whole: "elements_text (t # ts) @ CHR '']'' # rest = t @ CHR '','' # ?rest" using Cons by simp
    have "json_value n' d (t @ CHR '','' # ?rest) = Some (v, CHR '','' # ?rest)"
      using Cons.prems(3) unfolding whole by (intro reads_atD [OF vs(2)]) (auto simp: n)
    moreover have "json_elements n' d ?rest = Some (vs', rest)"
      using Cons.prems(3) Cons vs(3) unfolding whole by (intro Cons.IH) (auto simp: n)
    ultimately show ?thesis unfolding whole vs(1) by (simp add: n json_step skip_ws_unspaced)
  qed
qed simp

lemma json_members_at:
  assumes "ms \<noteq> []" "\<forall>(k, t, v) \<in> set ms. reads_at d t v"
    and "2 * length (members_text (map (\<lambda>(k, t, v). (k, t)) ms) @ CHR ''}'' # rest) + 1 \<le> n"
  shows "json_members n d (members_text (map (\<lambda>(k, t, v). (k, t)) ms) @ CHR ''}'' # rest)
    = Some (map (\<lambda>(k, t, v). (json_repair k, t, v)) ms, rest)"
  using assms
proof (induction ms arbitrary: n)
  case (Cons m ms)
  obtain k t v where m: "m = (k, t, v)" by (cases m)
  have r: "reads_at d t v" using Cons.prems(2) m by simp
  obtain x xs where t: "t = x # xs" "\<not> json_space x" by (rule reads_at_hd [OF r])
  obtain n' where n: "n = Suc n'" using Cons.prems(3) by (cases n) auto
  show ?case
  proof (cases "ms = []")
    case True
    have "json_value n' d (t @ CHR ''}'' # rest) = Some (v, CHR ''}'' # rest)"
      using Cons.prems(3) True by (intro reads_atD [OF r]) (auto simp: m n json_quote_def)
    then show ?thesis using True t
      by (simp add: m n json_step json_quote_def json_string_body skip_ws_unspaced Let_def)
  next
    case False
    let ?more = "members_text (map (\<lambda>(k, t, v). (k, t)) ms)"
    have more: "members_text (map (\<lambda>(k, t, v). (k, t)) (m # ms)) = json_quote k @ '':'' @ t @ '','' @ ?more"
      using False by (cases ms) (auto simp: m)
    have "json_value n' d (t @ CHR '','' # ?more @ CHR ''}'' # rest)
        = Some (v, CHR '','' # ?more @ CHR ''}'' # rest)"
      using Cons.prems(3) unfolding more by (intro reads_atD [OF r]) (auto simp: n json_quote_def)
    moreover have "json_members n' d (?more @ CHR ''}'' # rest)
        = Some (map (\<lambda>(k, t, v). (json_repair k, t, v)) ms, rest)"
      using Cons.prems(2,3) False unfolding more by (intro Cons.IH) (auto simp: n json_quote_def)
    ultimately show ?thesis using t unfolding more
      by (simp add: m n json_step json_quote_def json_string_body skip_ws_unspaced Let_def)
  qed
qed simp

lemma elements_text_hd:
  assumes "ts \<noteq> []" "list_all2 (reads_at d) ts vs"
  shows "\<exists>x xs. elements_text ts = x # xs \<and> \<not> json_space x \<and> x \<noteq> CHR '']''"
proof -
  obtain t us where ts: "ts = t # us" using assms(1) by (cases ts) auto
  obtain v where r: "reads_at d t v" using assms(2) ts by (auto simp: list_all2_Cons1)
  obtain x xs where t: "t = x # xs" "\<not> json_space x" by (rule reads_at_hd [OF r])
  have "x \<noteq> CHR '']''"
  proof
    assume x: "x = CHR '']''"
    have "json_value (Suc (2 * length (t @ '','') + 2)) d (t @ '','') = Some (v, '','')"
      using reads_atD [OF r, of "CHR '',''" "[]"] by simp
    then show False unfolding t(1) x json_step by (simp add: skip_ws_unspaced scan_number_def scan_integer_def char_between_def)
  qed
  moreover have "\<exists>ys. elements_text ts = x # ys" using t(1) by (cases us) (auto simp: ts)
  ultimately show ?thesis using t(2) by blast
qed

lemma array_value:
  assumes "list_all2 (reads_at (Suc d)) ts vs" "d < maxNestingDepth" "2 * length (array_text ts @ rest) + 2 \<le> n"
  shows "json_value n d (array_text ts @ rest) = Some (JArray vs, rest)"
proof -
  obtain m where n: "n = Suc m" using assms(3) by (cases n) auto
  show ?thesis
  proof (cases "ts = []")
    case True
    then show ?thesis using assms(1,2) by (simp add: n json_step array_text_def skip_ws_unspaced)
  next
    case False
    obtain x xs where x: "elements_text ts = x # xs" "\<not> json_space x" "x \<noteq> CHR '']''"
      using elements_text_hd [OF False assms(1)] by blast
    have "json_elements m (Suc d) (elements_text ts @ CHR '']'' # rest) = Some (vs, rest)"
      using assms(3) by (intro json_elements_text [OF False assms(1)]) (simp add: n array_text_def)
    then show ?thesis using assms(2) x by (simp add: n json_step array_text_def skip_ws_unspaced)
  qed
qed

lemma object_value:
  assumes "ms \<noteq> []" "\<forall>(k, t, v) \<in> set ms. reads_at (Suc d) t v" "d < maxNestingDepth"
    and "2 * length (object_text (map (\<lambda>(k, t, v). (k, t)) ms) @ rest) + 2 \<le> n"
  shows "json_value n d (object_text (map (\<lambda>(k, t, v). (k, t)) ms) @ rest)
    = Some (JObject (map (\<lambda>(k, t, v). (json_repair k, t, v)) ms), rest)"
proof -
  obtain m where n: "n = Suc m" using assms(4) by (cases n) auto
  obtain xs where xs: "members_text (map (\<lambda>(k, t, v). (k, t)) ms) = quote_char # xs"
    using members_text_hd [of "map (\<lambda>(k, t, v). (k, t)) ms"] assms(1) by auto
  have "json_members m (Suc d) (members_text (map (\<lambda>(k, t, v). (k, t)) ms) @ CHR ''}'' # rest)
      = Some (map (\<lambda>(k, t, v). (json_repair k, t, v)) ms, rest)"
    using assms(4) by (intro json_members_at [OF assms(1,2)]) (simp add: n object_text_def)
  then show ?thesis using assms(3) by (simp add: n json_step object_text_def skip_ws_unspaced xs)
qed

lemma reads_at_array:
  assumes "list_all2 (reads_at (Suc d)) ts vs" "d < maxNestingDepth"
  shows "reads_at d (array_text ts) (JArray vs)"
proof (subst reads_at_def, intro conjI allI impI)
  fix n c rest
  assume "2 * length (array_text ts @ c # rest) + 2 \<le> n"
  then show "json_value n d (array_text ts @ c # rest) = Some (JArray vs, c # rest)"
    by (rule array_value [OF assms])
qed (simp_all add: array_text_def)

lemma reads_at_object:
  assumes "ms \<noteq> []" "\<forall>(k, t, v) \<in> set ms. reads_at (Suc d) t v" "d < maxNestingDepth"
  shows "reads_at d (object_text (map (\<lambda>(k, t, v). (k, t)) ms)) (JObject (map (\<lambda>(k, t, v). (json_repair k, t, v)) ms))"
proof (subst reads_at_def, intro conjI allI impI)
  fix n c rest
  assume "2 * length (object_text (map (\<lambda>(k, t, v). (k, t)) ms) @ c # rest) + 2 \<le> n"
  then show "json_value n d (object_text (map (\<lambda>(k, t, v). (k, t)) ms) @ c # rest)
      = Some (JObject (map (\<lambda>(k, t, v). (json_repair k, t, v)) ms), c # rest)"
    by (rule object_value [OF assms])
qed (simp_all add: object_text_def)

theorem object_unmarshal:
  assumes "ms \<noteq> []" "\<forall>(k, t, v) \<in> set ms. reads_at 1 t v"
  shows "json_unmarshal (object_text (map (\<lambda>(k, t, v). (k, t)) ms))
    = Some (JObject (map (\<lambda>(k, t, v). (json_repair k, t, v)) ms))"
proof -
  have "json_decode (object_text (map (\<lambda>(k, t, v). (k, t)) ms))
      = Some (JObject (map (\<lambda>(k, t, v). (json_repair k, t, v)) ms), [])"
    unfolding json_decode_def using object_value [OF assms(1), of 0 "[]"] assms(2)
    by (simp add: maxNestingDepth_def)
  then show ?thesis by (simp add: json_unmarshal_def)
qed

end
