(* ===== verification/HttpAdapters.thy ===== *)
theory HttpAdapters
  imports SmtpTransport JsonText NativeWebhooks
begin

text \<open>
  \<open>internal/provider/resend.go\<close> and \<open>brevo.go\<close>: the request to the mail service, the reading of its
  answer and the classification of its errors. The HTTP client, the clock, and the parsing and printing
  of URLs and of HTTP dates are arguments.
\<close>

section \<open>The network\<close>

record url =
  url_Scheme :: string
  url_Host :: string
  url_Path :: string
  url_RawQuery :: string
  url_Fragment :: string

record http_call =
  hc_Method :: string
  hc_URL :: string
  hc_Header :: "(string \<times> string) list"
  hc_Body :: string

record http_reply =
  rp_StatusCode :: int
  rp_RetryAfter :: string
  rp_Body :: string

record http_env =
  he_ctx :: "go_error option"
  he_parse_url :: "string \<Rightarrow> url result"
  he_url_text :: "url \<Rightarrow> string"
  he_new_request :: "string \<Rightarrow> go_error option"
  he_do :: "http_call \<Rightarrow> http_reply result"
  he_now :: go_time
  he_parse_time :: "string \<Rightarrow> go_time option"

text \<open>A provider that sends over HTTP: its secrets and its base URL.\<close>

record api_provider =
  ap_secrets :: "secret_lookup option"
  ap_baseURL :: string

definition trim_right :: "char \<Rightarrow> string \<Rightarrow> string" where
  "trim_right c s = rev (dropWhile (\<lambda>x. x = c) (rev s))"

definition api_key :: "api_provider \<Rightarrow> Worker.SendRequest \<Rightarrow> string result" where
  "api_key p request =
     (case (ap_secrets p, acct_CredentialRefs (sq_Account request) ''api_key'') of
        (Some resolve, Some ref) \<Rightarrow> if ref = [] then Inl (Errorf ''api key reference is required'') else resolve ref
      | _ \<Rightarrow> Inl (Errorf ''api key reference is required''))"

definition email_endpoint :: "http_env \<Rightarrow> string \<Rightarrow> api_provider \<Rightarrow> string result" where
  "email_endpoint env path p =
     (case he_parse_url env (ap_baseURL p) of
        Inl e \<Rightarrow> Inl e
      | Inr base \<Rightarrow>
          if url_Scheme base = [] \<or> url_Host base = [] then Inl (Errorf ''base URL must include scheme and host'')
          else Inr (he_url_text env (base\<lparr>url_Path := trim_right CHR ''/'' (url_Path base) @ path,
                 url_RawQuery := [], url_Fragment := []\<rparr>)))"

section \<open>Retry-After\<close>

definition retryAfterSecondsUntil :: "go_time \<Rightarrow> go_time \<Rightarrow> int" where
  "retryAfterSecondsUntil now retryAt =
     (let d = time_Sub retryAt now
      in if d \<le> 0 then 0 else quot (int64 (d + Second - Nanosecond)) Second)"

definition parseRetryAfterSeconds :: "http_env \<Rightarrow> string \<Rightarrow> int" where
  "parseRetryAfterSeconds env text0 =
     (let t = TrimSpace text0;
          date = (case he_parse_time env t of None \<Rightarrow> 0 | Some retryAt \<Rightarrow> retryAfterSecondsUntil (he_now env) retryAt)
      in if t = [] then 0
         else case ParseInt t of
                Some seconds \<Rightarrow> if 0 < seconds then seconds else date
              | None \<Rightarrow> date)"

section \<open>Hints in an error message\<close>

text \<open>
  \<open>strings.ToLower\<close> rune by rune, as far as words in ASCII can tell: beside the capitals only the dotted
  capital I and the Kelvin sign become ASCII letters.
\<close>

definition lower_rune :: "nat \<Rightarrow> nat" where
  "lower_rune r =
     (if 65 \<le> r \<and> r \<le> 90 then r + 32 else if r = 304 then 105 else if r = 8490 then 107 else r)"

definition lowered :: "string \<Rightarrow> nat list" where
  "lowered s = map lower_rune (runes s)"

fun occurs :: "nat list \<Rightarrow> nat list \<Rightarrow> bool" where
  "occurs w [] \<longleftrightarrow> w = []"
| "occurs w (x # xs) \<longleftrightarrow> take (length w) (x # xs) = w \<or> occurs w xs"

definition mentions :: "string \<Rightarrow> string \<Rightarrow> bool" where
  "mentions s hint = occurs (map byte hint) (lowered s)"

definition named :: "string \<Rightarrow> string \<Rightarrow> bool" where
  "named s hint \<longleftrightarrow> lowered s = map byte hint"

definition containsSenderConfigurationHint :: "string \<Rightarrow> bool" where
  "containsSenderConfigurationHint message \<longleftrightarrow> mentions message ''from'' \<or> mentions message ''sender''"

definition containsDomainVerificationHint :: "string \<Rightarrow> bool" where
  "containsDomainVerificationHint message \<longleftrightarrow> mentions message ''domain'' \<and> mentions message ''verif''"

definition containsBrevoDomainFailure :: "string \<Rightarrow> bool" where
  "containsBrevoDomainFailure message \<longleftrightarrow> (mentions message ''domain'' \<or> mentions message ''sender'')
     \<and> (mentions message ''verif'' \<or> mentions message ''unauthor'' \<or> mentions message ''not allowed'')"

text \<open>
  A string field of an answer whose decoding error is ignored: a value of another type leaves the field
  as it is.
\<close>

fun lenient_step :: "string \<Rightarrow> json \<Rightarrow> string" where
  "lenient_step acc (JString s) = s"
| "lenient_step acc v = acc"

definition lenient_field :: "string \<Rightarrow> json_members \<Rightarrow> string" where
  "lenient_field name ms = foldl lenient_step [] (members_named name ms)"

definition first_object :: "string \<Rightarrow> json_members option" where
  "first_object body = struct_members (map_option fst (json_decode body))"

section \<open>Resend\<close>

record resendTag =
  tag_Name :: string
  tag_Value :: string

record resendEmailPayload =
  rs_From :: string
  rs_To :: "string list"
  rs_Subject :: string
  rs_HTML :: string
  rs_Text :: string
  rs_Tags :: "resendTag list"

definition buildResendPayload :: "Worker.SendRequest \<Rightarrow> providerEnvelope \<Rightarrow> resendEmailPayload result" where
  "buildResendPayload request envelope =
     (let m = sq_Message request
      in if msg_HTMLBody m = [] \<and> msg_TextBody m = [] then Inl (Errorf ''message body is required'')
         else if msg_Subject m = [] then Inl (Errorf ''message subject is required'')
         else Inr \<lparr>rs_From = Address_String \<lparr>addr_Name = chan_FromName (sq_Channel request),
                     addr_Address = env_from envelope\<rparr>,
                   rs_To = [env_to envelope], rs_Subject = msg_Subject m, rs_HTML = msg_HTMLBody m,
                   rs_Text = msg_TextBody m,
                   rs_Tags = [\<lparr>tag_Name = ''app'', tag_Value = msg_AppCode m\<rparr>,
                     \<lparr>tag_Name = ''message_id'', tag_Value = msg_MessageID m\<rparr>,
                     \<lparr>tag_Name = ''provider_account'', tag_Value = acct_Code (sq_Account request)\<rparr>,
                     \<lparr>tag_Name = ''provider_channel'', tag_Value = chan_Code (sq_Channel request)\<rparr>]\<rparr>)"

text \<open>\<open>json.Marshal\<close>: the members in the order of the struct, the empty ones left out where the tag says so.\<close>

definition omitempty :: "string \<Rightarrow> string \<Rightarrow> (string \<times> string) list" where
  "omitempty name s = (if s = [] then [] else [(name, json_quote s)])"

definition resend_tag_text :: "resendTag \<Rightarrow> string" where
  "resend_tag_text t = object_text [(''name'', json_quote (tag_Name t)), (''value'', json_quote (tag_Value t))]"

definition resend_payload_text :: "resendEmailPayload \<Rightarrow> string" where
  "resend_payload_text p = object_text
     ([(''from'', json_quote (rs_From p)), (''to'', array_text (map json_quote (rs_To p))),
       (''subject'', json_quote (rs_Subject p))]
      @ omitempty ''html'' (rs_HTML p) @ omitempty ''text'' (rs_Text p)
      @ (if rs_Tags p = [] then [] else [(''tags'', array_text (map resend_tag_text (rs_Tags p)))]))"

record resendErrorResponse =
  re_Name :: string
  re_Message :: string

definition readResendError :: "http_reply \<Rightarrow> resendErrorResponse" where
  "readResendError reply =
     (case first_object (rp_Body reply) of
        None \<Rightarrow> \<lparr>re_Name = [], re_Message = []\<rparr>
      | Some ms \<Rightarrow> \<lparr>re_Name = lenient_field ''name'' ms, re_Message = lenient_field ''message'' ms\<rparr>)"

definition classifyResendHTTPFailure :: "int \<Rightarrow> resendErrorResponse \<Rightarrow> SendResult" where
  "classifyResendHTTPFailure statusCode e =
     (let channel = ChannelFailure ErrorCodeProviderUnavailable ''resend channel failure''
      in if statusCode = 429 \<or> 500 \<le> statusCode then
           TemporaryFailure ErrorCodeProviderUnavailable ''resend temporary failure''
         else if statusCode = 401 \<or> statusCode = 403 then channel
         else if named (re_Name e) ''invalid_api_key'' \<or> named (re_Name e) ''missing_api_key''
           \<or> named (re_Name e) ''restricted_api_key'' then channel
         else if named (re_Name e) ''invalid_from_address'' \<or> named (re_Name e) ''invalid_access'' then channel
         else if containsSenderConfigurationHint (re_Message e) then channel
         else if containsDomainVerificationHint (re_Message e) then channel
         else if statusCode = 400 \<or> statusCode = 422 then
           MessagePermanentFailure ErrorCodeInvalidRecipient ''resend message rejected''
         else TemporaryFailure ErrorCodeProviderUnavailable ''resend request failed'')"

definition with_retry_hint :: "http_env \<Rightarrow> http_reply \<Rightarrow> SendResult \<Rightarrow> SendResult" where
  "with_retry_hint env reply result =
     (let retryAfter = parseRetryAfterSeconds env (rp_RetryAfter reply)
      in if 0 < retryAfter then WithRetryAfter result retryAfter else result)"

definition decodeResendResponse :: "http_env \<Rightarrow> http_reply \<Rightarrow> SendResult" where
  "decodeResendResponse env reply =
     (if 200 \<le> rp_StatusCode reply \<and> rp_StatusCode reply \<le> 299 then
        (case first_object (rp_Body reply) of
           None \<Rightarrow> Accepted []
         | Some ms \<Rightarrow> (case string_field ''id'' ms of None \<Rightarrow> Accepted [] | Some i \<Rightarrow> Accepted i))
      else with_retry_hint env reply (classifyResendHTTPFailure (rp_StatusCode reply) (readResendError reply)))"

definition NewResendAPIProvider :: "secret_lookup option \<Rightarrow> api_provider" where
  "NewResendAPIProvider secrets = \<lparr>ap_secrets = secrets, ap_baseURL = ''https://api.resend.com''\<rparr>"

definition WithBaseURL :: "string \<Rightarrow> api_provider \<Rightarrow> api_provider" where
  "WithBaseURL base p = (if TrimSpace base \<noteq> [] then p\<lparr>ap_baseURL := trim_right CHR ''/'' base\<rparr> else p)"

text \<open>\<open>Send\<close>: its result, and the request that was made.\<close>

definition ResendAPIProvider_Send ::
    "api_provider \<Rightarrow> http_env \<Rightarrow> Worker.SendRequest \<Rightarrow> SendResult result \<times> http_call option" where
  "ResendAPIProvider_Send p env request =
     (let fail = (\<lambda>message. (Inr (ChannelFailure ErrorCodeProviderUnavailable message), None))
      in case he_ctx env of
           Some e \<Rightarrow> (Inl e, None)
         | None \<Rightarrow>
             if acct_Provider (sq_Account request) \<noteq> ProviderResend \<or> chan_Transport (sq_Channel request) \<noteq> TransportAPI
             then fail ''resend api transport required''
             else case normalizeProviderEnvelope request of
                    Inl result \<Rightarrow> (Inr result, None)
                  | Inr envelope \<Rightarrow>
                      (case api_key p request of
                         Inl e \<Rightarrow> fail ''resend api key unavailable''
                       | Inr apiKey \<Rightarrow>
                           if \<not> isVisibleASCIIWithoutWhitespaceSecret apiKey then fail ''resend api key invalid''
                           else case buildResendPayload request envelope of
                                  Inl e \<Rightarrow> (Inr (MessagePermanentFailure ErrorCodeInternal ''resend message build failed''), None)
                                | Inr payload \<Rightarrow>
                                    (case email_endpoint env ''/emails'' p of
                                       Inl e \<Rightarrow> fail ''resend endpoint invalid''
                                     | Inr endpoint \<Rightarrow>
                                         if he_new_request env endpoint \<noteq> None then fail ''resend request build failed''
                                         else (let call = \<lparr>hc_Method = ''POST'', hc_URL = endpoint,
                                                 hc_Header = [(''Authorization'', ''Bearer '' @ apiKey),
                                                   (''Content-Type'', ''application/json''), (''Accept'', ''application/json'')]
                                                   @ (if msg_MessageID (sq_Message request) = [] then []
                                                      else [(''Idempotency-Key'', msg_MessageID (sq_Message request))]),
                                                 hc_Body = resend_payload_text payload\<rparr>
                                               in (Inr (case he_do env call of
                                                     Inl e \<Rightarrow> TemporaryFailure ErrorCodeProviderUnavailable ''resend request failed''
                                                   | Inr reply \<Rightarrow> decodeResendResponse env reply), Some call)))))"

section \<open>Brevo\<close>

record brevoAddress =
  ba_Name :: string
  ba_Email :: string

record brevoEmailPayload =
  be_Sender :: brevoAddress
  be_To :: "brevoAddress list"
  be_Subject :: string
  be_HTMLContent :: string
  be_TextContent :: string
  be_Tags :: "string list"

definition buildBrevoPayload :: "Worker.SendRequest \<Rightarrow> providerEnvelope \<Rightarrow> brevoEmailPayload result" where
  "buildBrevoPayload request envelope =
     (let m = sq_Message request
      in if msg_HTMLBody m = [] \<and> msg_TextBody m = [] then Inl (Errorf ''message body is required'')
         else if msg_Subject m = [] then Inl (Errorf ''message subject is required'')
         else Inr \<lparr>be_Sender = \<lparr>ba_Name = chan_FromName (sq_Channel request), ba_Email = env_from envelope\<rparr>,
                   be_To = [\<lparr>ba_Name = [], ba_Email = env_to envelope\<rparr>], be_Subject = msg_Subject m,
                   be_HTMLContent = msg_HTMLBody m, be_TextContent = msg_TextBody m,
                   be_Tags = [''app:'' @ msg_AppCode m, ''message_id:'' @ msg_MessageID m,
                     ''provider_account:'' @ acct_Code (sq_Account request),
                     ''provider_channel:'' @ chan_Code (sq_Channel request)]\<rparr>)"

definition brevo_address_text :: "brevoAddress \<Rightarrow> string" where
  "brevo_address_text a = object_text (omitempty ''name'' (ba_Name a) @ [(''email'', json_quote (ba_Email a))])"

definition brevo_payload_text :: "brevoEmailPayload \<Rightarrow> string" where
  "brevo_payload_text p = object_text
     ([(''sender'', brevo_address_text (be_Sender p)), (''to'', array_text (map brevo_address_text (be_To p))),
       (''subject'', json_quote (be_Subject p))]
      @ omitempty ''htmlContent'' (be_HTMLContent p) @ omitempty ''textContent'' (be_TextContent p)
      @ (if be_Tags p = [] then [] else [(''tags'', array_text (map json_quote (be_Tags p)))]))"

record brevoErrorResponse =
  br_Code :: string
  br_Message :: string

definition readBrevoError :: "http_reply \<Rightarrow> brevoErrorResponse" where
  "readBrevoError reply =
     (case first_object (rp_Body reply) of
        None \<Rightarrow> \<lparr>br_Code = [], br_Message = []\<rparr>
      | Some ms \<Rightarrow> \<lparr>br_Code = lenient_field ''code'' ms, br_Message = lenient_field ''message'' ms\<rparr>)"

definition classifyBrevoHTTPFailure :: "int \<Rightarrow> brevoErrorResponse \<Rightarrow> SendResult" where
  "classifyBrevoHTTPFailure statusCode e =
     (let channel = ChannelFailure ErrorCodeProviderUnavailable ''brevo channel failure''
      in if statusCode = 408 \<or> statusCode = 429 \<or> 500 \<le> statusCode then
           TemporaryFailure ErrorCodeProviderUnavailable ''brevo temporary failure''
         else if statusCode = 401 \<or> statusCode = 403 \<or> statusCode = 402 then channel
         else if mentions (br_Code e) ''unauthorized'' \<or> mentions (br_Code e) ''permission'' then channel
         else if containsSenderConfigurationHint (br_Code e) \<or> containsSenderConfigurationHint (br_Message e) then channel
         else if containsBrevoDomainFailure (br_Message e) then channel
         else if statusCode = 400 \<or> statusCode = 422 then
           MessagePermanentFailure ErrorCodeInvalidRecipient ''brevo message rejected''
         else TemporaryFailure ErrorCodeProviderUnavailable ''brevo request failed'')"

definition decodeBrevoResponse :: "http_env \<Rightarrow> http_reply \<Rightarrow> SendResult" where
  "decodeBrevoResponse env reply =
     (if 200 \<le> rp_StatusCode reply \<and> rp_StatusCode reply \<le> 299 then
        (case first_object (rp_Body reply) of
           None \<Rightarrow> Accepted []
         | Some ms \<Rightarrow>
             (case (string_field ''messageId'' ms, strings_field ''messageIds'' ms) of
                (Some i, Some ids) \<Rightarrow>
                  if i \<noteq> [] then Accepted i
                  else if ids \<noteq> [] \<and> hd ids \<noteq> [] then Accepted (hd ids)
                  else Accepted []
              | _ \<Rightarrow> Accepted []))
      else with_retry_hint env reply (classifyBrevoHTTPFailure (rp_StatusCode reply) (readBrevoError reply)))"

definition NewBrevoAPIProvider :: "secret_lookup option \<Rightarrow> api_provider" where
  "NewBrevoAPIProvider secrets = \<lparr>ap_secrets = secrets, ap_baseURL = ''https://api.brevo.com/v3''\<rparr>"

definition BrevoAPIProvider_Send ::
    "api_provider \<Rightarrow> http_env \<Rightarrow> Worker.SendRequest \<Rightarrow> SendResult result \<times> http_call option" where
  "BrevoAPIProvider_Send p env request =
     (let fail = (\<lambda>message. (Inr (ChannelFailure ErrorCodeProviderUnavailable message), None))
      in case he_ctx env of
           Some e \<Rightarrow> (Inl e, None)
         | None \<Rightarrow>
             if acct_Provider (sq_Account request) \<noteq> ProviderBrevo \<or> chan_Transport (sq_Channel request) \<noteq> TransportAPI
             then fail ''brevo api transport required''
             else case normalizeProviderEnvelope request of
                    Inl result \<Rightarrow> (Inr result, None)
                  | Inr envelope \<Rightarrow>
                      (case api_key p request of
                         Inl e \<Rightarrow> fail ''brevo api key unavailable''
                       | Inr apiKey \<Rightarrow>
                           if \<not> isVisibleASCIIWithoutWhitespaceSecret apiKey then fail ''brevo api key invalid''
                           else case buildBrevoPayload request envelope of
                                  Inl e \<Rightarrow> (Inr (MessagePermanentFailure ErrorCodeInternal ''brevo message build failed''), None)
                                | Inr payload \<Rightarrow>
                                    (case email_endpoint env ''/smtp/email'' p of
                                       Inl e \<Rightarrow> fail ''brevo endpoint invalid''
                                     | Inr endpoint \<Rightarrow>
                                         if he_new_request env endpoint \<noteq> None then fail ''brevo request build failed''
                                         else (let call = \<lparr>hc_Method = ''POST'', hc_URL = endpoint,
                                                 hc_Header = [(''api-key'', apiKey), (''Content-Type'', ''application/json''),
                                                   (''Accept'', ''application/json'')],
                                                 hc_Body = brevo_payload_text payload\<rparr>
                                               in (Inr (case he_do env call of
                                                     Inl e \<Rightarrow> TemporaryFailure ErrorCodeProviderUnavailable ''brevo request failed''
                                                   | Inr reply \<Rightarrow> decodeBrevoResponse env reply), Some call)))))"

text \<open>The adapters of the worker.\<close>

definition api_adapter ::
    "(http_env \<Rightarrow> Worker.SendRequest \<Rightarrow> SendResult result \<times> http_call option) \<Rightarrow> (duration \<Rightarrow> ('s, http_env) state)
     \<Rightarrow> 's Provider_send" where
  "api_adapter send network timeout request =
     do { env \<leftarrow> network timeout; State_Monad.return (fst (send env request)) }"

text \<open>The adapters the resolver of the worker builds: all of them resolve secrets as the configuration does.\<close>

definition configSecretResolverAdapter_ResolveSecret :: "SecretResolver \<Rightarrow> secret_lookup" where
  "configSecretResolverAdapter_ResolveSecret resolver ref = map_sum id secret_Value (resolver ref)"

definition wired_adapters ::
    "SecretResolver \<Rightarrow> (duration \<Rightarrow> ('s, go_error option) state) \<Rightarrow> (duration \<Rightarrow> ('s, smtp_env) state)
     \<Rightarrow> (duration \<Rightarrow> ('s, http_env) state) \<Rightarrow> 's adapters" where
  "wired_adapters resolver ctx smtp_net http_net =
     (let secrets = Some (configSecretResolverAdapter_ResolveSecret resolver)
      in \<lparr>ad_mock = mock_provider ctx, ad_smtp = smtp_provider (NewSMTPTransport secrets) smtp_net,
          ad_resend = api_adapter (ResendAPIProvider_Send (NewResendAPIProvider secrets)) http_net,
          ad_brevo = api_adapter (BrevoAPIProvider_Send (NewBrevoAPIProvider secrets)) http_net\<rparr>)"

section \<open>What the adapters share\<close>

text \<open>
  The contract of a service: it is called once or not at all, a call that is not made is a failure, and
  the reading of an answer accepts exactly the statuses 200 to 299.
\<close>

locale http_service =
  fixes send :: "http_env \<Rightarrow> Worker.SendRequest \<Rightarrow> SendResult result \<times> http_call option"
    and decode :: "http_env \<Rightarrow> http_reply \<Rightarrow> SendResult"
  assumes not_called: "send env request = (Inr r, None) \<Longrightarrow> \<not> IsAccepted r \<and> sr_RetryAfterSeconds r = 0"
    and called: "send env request = (x, Some c) \<Longrightarrow>
      (\<exists>e m. he_do env c = Inl e \<and> x = Inr (TemporaryFailure ErrorCodeProviderUnavailable m))
      \<or> (\<exists>reply. he_do env c = Inr reply \<and> x = Inr (decode env reply))"
    and decode_accepts: "IsAccepted (decode env reply) \<longleftrightarrow> 200 \<le> rp_StatusCode reply \<and> rp_StatusCode reply \<le> 299"
    and decode_hint: "0 \<le> sr_RetryAfterSeconds (decode env reply)
      \<and> (IsAccepted (decode env reply) \<longrightarrow> sr_RetryAfterSeconds (decode env reply) = 0)"
begin

lemma accepts_exactly:
  assumes "send env request = (Inr r, call)"
  shows "(IsAccepted r \<longleftrightarrow> (\<exists>c reply. call = Some c \<and> he_do env c = Inr reply
        \<and> 200 \<le> rp_StatusCode reply \<and> rp_StatusCode reply \<le> 299))
    \<and> 0 \<le> sr_RetryAfterSeconds r \<and> (IsAccepted r \<longrightarrow> sr_RetryAfterSeconds r = 0)"
proof (cases call)
  case None
  then show ?thesis using assms not_called [of env request r] by simp
next
  case (Some c)
  from called [OF assms [unfolded Some]] show ?thesis
  proof (elim disjE exE conjE)
    fix e m
    assume "he_do env c = Inl e" "Inr r = Inr (TemporaryFailure ErrorCodeProviderUnavailable m)"
    then show ?thesis using Some by simp (simp add: TemporaryFailure_def Failed_def)
  next
    fix reply
    assume a: "he_do env c = Inr reply" "Inr r = Inr (decode env reply)"
    then show ?thesis using Some decode_accepts [of env reply] decode_hint [of env reply] by auto
  qed
qed

end

lemma failure_hints [simp]:
  "sr_RetryAfterSeconds (TemporaryFailure c m) = 0" "sr_RetryAfterSeconds (ChannelFailure c m) = 0"
  "sr_RetryAfterSeconds (MessagePermanentFailure c m) = 0" "sr_RetryAfterSeconds (Accepted i) = 0"
  by (simp_all add: TemporaryFailure_def ChannelFailure_def MessagePermanentFailure_def Failed_def Accepted_def)

lemma envelope_hint: "normalizeProviderEnvelope request = Inl r \<Longrightarrow> sr_RetryAfterSeconds r = 0"
  by (auto simp: normalizeProviderEnvelope_def Let_def split: if_splits)

lemma retry_hint:
  "\<not> IsAccepted result \<Longrightarrow> \<not> IsAccepted (with_retry_hint env reply result)"
  "sr_RetryAfterSeconds result = 0 \<Longrightarrow> 0 \<le> sr_RetryAfterSeconds (with_retry_hint env reply result)"
  by (simp_all add: with_retry_hint_def Let_def WithRetryAfter_def IsAccepted_def)

lemma classify_http_failed [simp]:
  "\<not> IsAccepted (classifyResendHTTPFailure s e)" "sr_RetryAfterSeconds (classifyResendHTTPFailure s e) = 0"
  "\<not> IsAccepted (classifyBrevoHTTPFailure s b)" "sr_RetryAfterSeconds (classifyBrevoHTTPFailure s b) = 0"
  by (simp_all add: classifyResendHTTPFailure_def classifyBrevoHTTPFailure_def Let_def)

lemma decode_resend:
  "IsAccepted (decodeResendResponse env reply) \<longleftrightarrow> 200 \<le> rp_StatusCode reply \<and> rp_StatusCode reply \<le> 299"
  "0 \<le> sr_RetryAfterSeconds (decodeResendResponse env reply)
    \<and> (IsAccepted (decodeResendResponse env reply) \<longrightarrow> sr_RetryAfterSeconds (decodeResendResponse env reply) = 0)"
  by (auto simp: decodeResendResponse_def retry_hint split: option.split)

lemma decode_brevo:
  "IsAccepted (decodeBrevoResponse env reply) \<longleftrightarrow> 200 \<le> rp_StatusCode reply \<and> rp_StatusCode reply \<le> 299"
  "0 \<le> sr_RetryAfterSeconds (decodeBrevoResponse env reply)
    \<and> (IsAccepted (decodeBrevoResponse env reply) \<longrightarrow> sr_RetryAfterSeconds (decodeBrevoResponse env reply) = 0)"
  by (auto simp: decodeBrevoResponse_def retry_hint split: option.split)

lemma Resend_call:
  assumes "ResendAPIProvider_Send p env request = (x, Some c)"
  shows "\<exists>envelope apiKey payload endpoint. normalizeProviderEnvelope request = Inr envelope
    \<and> api_key p request = Inr apiKey \<and> isVisibleASCIIWithoutWhitespaceSecret apiKey
    \<and> buildResendPayload request envelope = Inr payload \<and> email_endpoint env ''/emails'' p = Inr endpoint
    \<and> c = \<lparr>hc_Method = ''POST'', hc_URL = endpoint,
          hc_Header = [(''Authorization'', ''Bearer '' @ apiKey), (''Content-Type'', ''application/json''),
            (''Accept'', ''application/json'')]
            @ (if msg_MessageID (sq_Message request) = [] then []
               else [(''Idempotency-Key'', msg_MessageID (sq_Message request))]),
          hc_Body = resend_payload_text payload\<rparr>
    \<and> x = Inr (case he_do env c of
          Inl e \<Rightarrow> TemporaryFailure ErrorCodeProviderUnavailable ''resend request failed''
        | Inr reply \<Rightarrow> decodeResendResponse env reply)"
  using assms unfolding ResendAPIProvider_Send_def Let_def
  by (auto split: option.splits if_splits sum.splits)

lemma Brevo_call:
  assumes "BrevoAPIProvider_Send p env request = (x, Some c)"
  shows "\<exists>envelope apiKey payload endpoint. normalizeProviderEnvelope request = Inr envelope
    \<and> api_key p request = Inr apiKey \<and> isVisibleASCIIWithoutWhitespaceSecret apiKey
    \<and> buildBrevoPayload request envelope = Inr payload \<and> email_endpoint env ''/smtp/email'' p = Inr endpoint
    \<and> c = \<lparr>hc_Method = ''POST'', hc_URL = endpoint,
          hc_Header = [(''api-key'', apiKey), (''Content-Type'', ''application/json''), (''Accept'', ''application/json'')],
          hc_Body = brevo_payload_text payload\<rparr>
    \<and> x = Inr (case he_do env c of
          Inl e \<Rightarrow> TemporaryFailure ErrorCodeProviderUnavailable ''brevo request failed''
        | Inr reply \<Rightarrow> decodeBrevoResponse env reply)"
  using assms unfolding BrevoAPIProvider_Send_def Let_def
  by (auto split: option.splits if_splits sum.splits)

lemma Resend_not_called:
  "ResendAPIProvider_Send p env request = (Inr r, None) \<Longrightarrow> \<not> IsAccepted r \<and> sr_RetryAfterSeconds r = 0"
  unfolding ResendAPIProvider_Send_def Let_def
  by (auto dest: envelope_failed envelope_hint split: option.splits if_splits sum.splits)

lemma Brevo_not_called:
  "BrevoAPIProvider_Send p env request = (Inr r, None) \<Longrightarrow> \<not> IsAccepted r \<and> sr_RetryAfterSeconds r = 0"
  unfolding BrevoAPIProvider_Send_def Let_def
  by (auto dest: envelope_failed envelope_hint split: option.splits if_splits sum.splits)

interpretation resend: http_service "ResendAPIProvider_Send p" decodeResendResponse for p
proof
  fix env request x c
  assume a: "ResendAPIProvider_Send p env request = (x, Some c)"
  show "(\<exists>e m. he_do env c = Inl e \<and> x = Inr (TemporaryFailure ErrorCodeProviderUnavailable m))
      \<or> (\<exists>reply. he_do env c = Inr reply \<and> x = Inr (decodeResendResponse env reply))"
    using Resend_call [OF a] by (cases "he_do env c") auto
qed (rule Resend_not_called decode_resend; assumption?)+

interpretation brevo: http_service "BrevoAPIProvider_Send p" decodeBrevoResponse for p
proof
  fix env request x c
  assume a: "BrevoAPIProvider_Send p env request = (x, Some c)"
  show "(\<exists>e m. he_do env c = Inl e \<and> x = Inr (TemporaryFailure ErrorCodeProviderUnavailable m))
      \<or> (\<exists>reply. he_do env c = Inr reply \<and> x = Inr (decodeBrevoResponse env reply))"
    using Brevo_call [OF a] by (cases "he_do env c") auto
qed (rule Brevo_not_called decode_brevo; assumption?)+

section \<open>The request as a JSON document\<close>

definition json_member :: "string \<Rightarrow> string \<Rightarrow> string \<times> string \<times> json" where
  "json_member name s = (name, json_quote s, JString (json_repair s))"

definition member_unless_empty :: "string \<Rightarrow> string \<Rightarrow> (string \<times> string \<times> json) list" where
  "member_unless_empty name s = (if s = [] then [] else [json_member name s])"

definition resend_tag_members :: "resendTag \<Rightarrow> json_members" where
  "resend_tag_members t = [json_member ''name'' (tag_Name t), json_member ''value'' (tag_Value t)]"

definition resend_members :: "resendEmailPayload \<Rightarrow> json_members" where
  "resend_members p =
     [json_member ''from'' (rs_From p),
      (''to'', array_text (map json_quote (rs_To p)), JArray (map (\<lambda>a. JString (json_repair a)) (rs_To p))),
      json_member ''subject'' (rs_Subject p)]
     @ member_unless_empty ''html'' (rs_HTML p) @ member_unless_empty ''text'' (rs_Text p)
     @ (if rs_Tags p = [] then []
        else [(''tags'', array_text (map resend_tag_text (rs_Tags p)),
               JArray (map (\<lambda>t. JObject (resend_tag_members t)) (rs_Tags p)))])"

definition brevo_address_members :: "brevoAddress \<Rightarrow> json_members" where
  "brevo_address_members a = member_unless_empty ''name'' (ba_Name a) @ [json_member ''email'' (ba_Email a)]"

definition brevo_members :: "brevoEmailPayload \<Rightarrow> json_members" where
  "brevo_members p =
     [(''sender'', brevo_address_text (be_Sender p), JObject (brevo_address_members (be_Sender p))),
      (''to'', array_text (map brevo_address_text (be_To p)),
       JArray (map (\<lambda>a. JObject (brevo_address_members a)) (be_To p))),
      json_member ''subject'' (be_Subject p)]
     @ member_unless_empty ''htmlContent'' (be_HTMLContent p) @ member_unless_empty ''textContent'' (be_TextContent p)
     @ (if be_Tags p = [] then []
        else [(''tags'', array_text (map json_quote (be_Tags p)),
               JArray (map (\<lambda>t. JString (json_repair t)) (be_Tags p)))])"

definition member_pairs :: "json_members \<Rightarrow> (string \<times> string) list" where
  "member_pairs ms = map (\<lambda>(k, t, v). (k, t)) ms"

definition plain_names :: "json_members \<Rightarrow> bool" where
  "plain_names ms \<longleftrightarrow> (\<forall>(k, t, v) \<in> set ms. ascii k)"

lemma member_simps [simp]:
  "member_pairs [] = []" "member_pairs (ms @ ns) = member_pairs ms @ member_pairs ns"
  "member_pairs ((k, t, v) # ms) = (k, t) # member_pairs ms" "member_pairs (json_member n s # ms) = (n, json_quote s) # member_pairs ms"
  "member_pairs (member_unless_empty n s) = omitempty n s"
  "plain_names []" "plain_names (ms @ ns) \<longleftrightarrow> plain_names ms \<and> plain_names ns"
  "plain_names ((k, t, v) # ms) \<longleftrightarrow> ascii k \<and> plain_names ms" "plain_names (json_member n s # ms) \<longleftrightarrow> ascii n \<and> plain_names ms"
  "plain_names (member_unless_empty n s) \<longleftrightarrow> s = [] \<or> ascii n"
  by (auto simp: member_pairs_def plain_names_def json_member_def member_unless_empty_def omitempty_def)

lemma repair_names: "plain_names ms \<Longrightarrow> map (\<lambda>(k, t, v). (json_repair k, t, v)) ms = ms"
  by (rule map_idI) (auto simp: plain_names_def dest!: bspec intro: json_repair_valid ValidString_ascii)

lemma reads_member [simp]: "reads_at d (json_quote s) (JString (json_repair s))"
  by (rule reads_at_quote)

lemma reads_object:
  assumes "ms \<noteq> []" "plain_names ms" "\<forall>(k, t, v) \<in> set ms. reads_at (Suc d) t v" "d < maxNestingDepth"
  shows "reads_at d (object_text (member_pairs ms)) (JObject ms)"
  using reads_at_object [OF assms(1,3,4)] unfolding member_pairs_def repair_names [OF assms(2)] .

lemma unmarshal_members:
  assumes "ms \<noteq> []" "plain_names ms" "\<forall>(k, t, v) \<in> set ms. reads_at 1 t v"
  shows "json_unmarshal (object_text (member_pairs ms)) = Some (JObject ms)"
  using object_unmarshal [OF assms(1,3)] unfolding member_pairs_def repair_names [OF assms(2)] .

lemma reads_strings: "d < maxNestingDepth \<Longrightarrow> reads_at d (array_text (map json_quote ss)) (JArray (map (\<lambda>s. JString (json_repair s)) ss))"
  by (rule reads_at_array) (simp_all add: list_all2_conv_all_nth)

lemma ascii_names:
  "ascii ''name''" "ascii ''value''" "ascii ''from''" "ascii ''to''" "ascii ''subject''" "ascii ''html''" "ascii ''text''"
  "ascii ''tags''" "ascii ''email''" "ascii ''sender''" "ascii ''htmlContent''" "ascii ''textContent''"
  by code_simp+

lemma depths: "1 < maxNestingDepth" "2 < maxNestingDepth" "Suc 0 < maxNestingDepth" "Suc (Suc 0) < maxNestingDepth"
  by (simp_all add: maxNestingDepth_def)

lemma reads_unless_empty:
  "(\<forall>(k, t, v) \<in> set (member_unless_empty n s). reads_at d t v)"
  by (simp add: member_unless_empty_def json_member_def)

lemma reads_brevo_address: "d < maxNestingDepth \<Longrightarrow> reads_at d (brevo_address_text a) (JObject (brevo_address_members a))"
proof -
  assume d: "d < maxNestingDepth"
  have "brevo_address_text a = object_text (member_pairs (brevo_address_members a))"
    by (simp add: brevo_address_text_def brevo_address_members_def)
  moreover have "reads_at d (object_text (member_pairs (brevo_address_members a))) (JObject (brevo_address_members a))"
    by (rule reads_object [OF _ _ _ d])
      (auto simp: brevo_address_members_def ascii_names json_member_def member_unless_empty_def)
  ultimately show ?thesis by simp
qed

lemma reads_resend_tag: "d < maxNestingDepth \<Longrightarrow> reads_at d (resend_tag_text t) (JObject (resend_tag_members t))"
proof -
  assume d: "d < maxNestingDepth"
  have "resend_tag_text t = object_text (member_pairs (resend_tag_members t))"
    by (simp add: resend_tag_text_def resend_tag_members_def)
  moreover have "reads_at d (object_text (member_pairs (resend_tag_members t))) (JObject (resend_tag_members t))"
    by (rule reads_object [OF _ _ _ d]) (auto simp: resend_tag_members_def ascii_names json_member_def)
  ultimately show ?thesis by simp
qed

lemma resend_text_reads: "json_unmarshal (resend_payload_text p) = Some (JObject (resend_members p))"
proof -
  have "resend_payload_text p = object_text (member_pairs (resend_members p))"
    by (simp add: resend_payload_text_def resend_members_def)
  moreover have "json_unmarshal (object_text (member_pairs (resend_members p))) = Some (JObject (resend_members p))"
  proof (rule unmarshal_members)
    have tags: "reads_at 1 (array_text (map resend_tag_text ts)) (JArray (map (\<lambda>t. JObject (resend_tag_members t)) ts))" for ts
      by (rule reads_at_array) (simp_all add: list_all2_conv_all_nth reads_resend_tag depths)
    show "\<forall>(k, t, v) \<in> set (resend_members p). reads_at 1 t v"
      using tags reads_strings [OF depths(1)]
      by (auto simp: resend_members_def json_member_def member_unless_empty_def)
  qed (auto simp: resend_members_def ascii_names)
  ultimately show ?thesis by simp
qed

lemma brevo_text_reads: "json_unmarshal (brevo_payload_text p) = Some (JObject (brevo_members p))"
proof -
  have "brevo_payload_text p = object_text (member_pairs (brevo_members p))"
    by (simp add: brevo_payload_text_def brevo_members_def)
  moreover have "json_unmarshal (object_text (member_pairs (brevo_members p))) = Some (JObject (brevo_members p))"
  proof (rule unmarshal_members)
    have addresses: "reads_at 1 (array_text (map brevo_address_text as)) (JArray (map (\<lambda>a. JObject (brevo_address_members a)) as))" for as
      by (rule reads_at_array) (simp_all add: list_all2_conv_all_nth reads_brevo_address depths)
    show "\<forall>(k, t, v) \<in> set (brevo_members p). reads_at 1 t v"
      using addresses reads_strings [OF depths(1)] reads_brevo_address [OF depths(1)]
      by (auto simp: brevo_members_def json_member_def member_unless_empty_def)
  qed (auto simp: brevo_members_def ascii_names)
  ultimately show ?thesis by simp
qed

section \<open>The tags come back\<close>

text \<open>The identifiers the webhook of Brevo hands back: the tags are read as they were sent.\<close>

definition tag_safe :: "string \<Rightarrow> bool" where
  "tag_safe v \<longleftrightarrow> v \<noteq> [] \<and> ascii v \<and> \<not> has_space v"

lemma TrimSpace_tag: "tag_safe v \<Longrightarrow> TrimSpace v = v"
  by (simp add: tag_safe_def TrimSpace_ascii)

lemma tag_safe_iff: "tag_safe v \<longleftrightarrow> v \<noteq> [] \<and> (\<forall>c \<in> set v. byte c < 128 \<and> \<not> IsSpace (byte c))"
proof (cases "ascii v")
  case True
  then show ?thesis by (auto simp: tag_safe_def has_space_def runes_ascii) (auto simp: ascii_def)
next
  case False
  then show ?thesis by (auto simp: tag_safe_def ascii_def)
qed

lemma parse_tag:
  assumes "tag_safe v" "tag_safe name" "CHR '':'' \<notin> set name" "m name = None"
  shows "parse_brevo_tags ((name @ '':'' @ v) # tags) m = parse_brevo_tags tags (m(name \<mapsto> v))"
proof -
  have "tag_safe (name @ '':'' @ v)"
    using assms(1,2) unfolding tag_safe_iff by (auto simp: IsSpace_def [of 58])
  then have "TrimSpace (name @ '':'' @ v) = name @ '':'' @ v" by (rule TrimSpace_tag)
  moreover have "cut_colon (name @ '':'' @ v) = Some (name, v)"
    using assms(3) by (auto simp: cut_colon_def takeWhile_append dropWhile_append)
  ultimately show ?thesis using assms by (auto simp: TrimSpace_tag Let_def) (auto simp: tag_safe_def)?
qed

lemma tag_names: "tag_safe ''app''" "tag_safe ''message_id''" "tag_safe ''provider_account''" "tag_safe ''provider_channel''"
  by code_simp+

lemma strings_cells: "cells = [] \<Longrightarrow> string_cells (map JString ss) cells = Some ss"
proof (induction ss arbitrary: cells)
  case (Cons s ss)
  then show ?case by simp
qed simp

lemma brevo_tags_back:
  assumes "buildBrevoPayload request envelope = Inr payload"
    and "list_all tag_safe [msg_AppCode (sq_Message request), msg_MessageID (sq_Message request),
          acct_Code (sq_Account request), chan_Code (sq_Channel request)]"
  shows "\<exists>tags. strings_field ''tags'' (brevo_members payload) = Some tags
    \<and> parseBrevoMetadataTags tags = [''app'' \<mapsto> msg_AppCode (sq_Message request),
        ''message_id'' \<mapsto> msg_MessageID (sq_Message request),
        ''provider_account'' \<mapsto> acct_Code (sq_Account request), ''provider_channel'' \<mapsto> chan_Code (sq_Channel request)]"
proof (intro exI conjI)
  have safe: "tag_safe (msg_AppCode (sq_Message request))" "tag_safe (msg_MessageID (sq_Message request))"
    "tag_safe (acct_Code (sq_Account request))" "tag_safe (chan_Code (sq_Channel request))"
    using assms(2) by simp_all
  have tags: "be_Tags payload = [''app'' @ '':'' @ msg_AppCode (sq_Message request),
      ''message_id'' @ '':'' @ msg_MessageID (sq_Message request),
      ''provider_account'' @ '':'' @ acct_Code (sq_Account request),
      ''provider_channel'' @ '':'' @ chan_Code (sq_Channel request)]"
    using assms(1) by (auto simp: buildBrevoPayload_def Let_def split: if_splits)
  have "json_repair t = t" if "t \<in> set (be_Tags payload)" for t
    using that assms(2) tag_names unfolding tags
    by (intro json_repair_valid ValidString_ascii) (auto simp: tag_safe_def ascii_def)
  then have same: "map (\<lambda>t. JString (json_repair t)) (be_Tags payload) = map JString (be_Tags payload)" by simp
  have names: "fold_name ''sender'' \<noteq> fold_name ''tags''" "fold_name ''to'' \<noteq> fold_name ''tags''"
    "fold_name ''subject'' \<noteq> fold_name ''tags''" "fold_name ''htmlContent'' \<noteq> fold_name ''tags''"
    "fold_name ''textContent'' \<noteq> fold_name ''tags''" by code_simp+
  have nonempty: "be_Tags payload \<noteq> []" by (simp add: tags)
  have "members_named ''tags'' (brevo_members payload) = [JArray (map JString (be_Tags payload))]"
    using names nonempty by (simp add: members_named_def brevo_members_def same json_member_def member_unless_empty_def)
  then show "strings_field ''tags'' (brevo_members payload) = Some (be_Tags payload)"
    by (simp add: strings_field_def strings_cells tags)
  show "parseBrevoMetadataTags (be_Tags payload) = [''app'' \<mapsto> msg_AppCode (sq_Message request),
        ''message_id'' \<mapsto> msg_MessageID (sq_Message request),
        ''provider_account'' \<mapsto> acct_Code (sq_Account request), ''provider_channel'' \<mapsto> chan_Code (sq_Channel request)]"
    unfolding tags parseBrevoMetadataTags_def
    by ((subst parse_tag, (rule safe tag_names)+, simp, simp)+, simp)
qed

text \<open>Why an API adapter does not call its service.\<close>

definition unsendable ::
    "Provider \<Rightarrow> string \<Rightarrow> api_provider \<Rightarrow> http_env \<Rightarrow> Worker.SendRequest \<Rightarrow> bool" where
  "unsendable provider path p env request \<longleftrightarrow>
     he_ctx env \<noteq> None \<or> acct_Provider (sq_Account request) \<noteq> provider
     \<or> chan_Transport (sq_Channel request) \<noteq> TransportAPI \<or> isl (normalizeProviderEnvelope request)
     \<or> (case api_key p request of Inl _ \<Rightarrow> True | Inr key \<Rightarrow> \<not> isVisibleASCIIWithoutWhitespaceSecret key)
     \<or> msg_HTMLBody (sq_Message request) = [] \<and> msg_TextBody (sq_Message request) = []
     \<or> msg_Subject (sq_Message request) = []
     \<or> (case email_endpoint env path p of Inl _ \<Rightarrow> True | Inr u \<Rightarrow> he_new_request env u \<noteq> None)"

lemma Resend_unsendable:
  "snd (ResendAPIProvider_Send p env request) = None \<longleftrightarrow> unsendable ProviderResend ''/emails'' p env request"
  unfolding ResendAPIProvider_Send_def unsendable_def Let_def
  by (auto simp: buildResendPayload_def Let_def split: option.splits sum.splits)

lemma Brevo_unsendable:
  "snd (BrevoAPIProvider_Send p env request) = None \<longleftrightarrow> unsendable ProviderBrevo ''/smtp/email'' p env request"
  unfolding BrevoAPIProvider_Send_def unsendable_def Let_def
  by (auto simp: buildBrevoPayload_def Let_def split: option.splits sum.splits)

lemma Resend_body:
  assumes "ResendAPIProvider_Send p env request = (x, Some c)"
  shows "\<exists>envelope. normalizeProviderEnvelope request = Inr envelope
     \<and> hc_Method c = ''POST'' \<and> email_endpoint env ''/emails'' p = Inr (hc_URL c)
     \<and> map_of (hc_Header c) ''Idempotency-Key'' = (if msg_MessageID (sq_Message request) = [] then None
          else Some (msg_MessageID (sq_Message request)))
     \<and> json_unmarshal (hc_Body c) = Some (JObject (resend_members
         \<lparr>rs_From = name_phrase (chan_FromName (sq_Channel request)) @ ''<'' @ env_from envelope @ ''>'',
          rs_To = [env_to envelope], rs_Subject = msg_Subject (sq_Message request),
          rs_HTML = msg_HTMLBody (sq_Message request), rs_Text = msg_TextBody (sq_Message request),
          rs_Tags = [\<lparr>tag_Name = ''app'', tag_Value = msg_AppCode (sq_Message request)\<rparr>,
            \<lparr>tag_Name = ''message_id'', tag_Value = msg_MessageID (sq_Message request)\<rparr>,
            \<lparr>tag_Name = ''provider_account'', tag_Value = acct_Code (sq_Account request)\<rparr>,
            \<lparr>tag_Name = ''provider_channel'', tag_Value = chan_Code (sq_Channel request)\<rparr>]\<rparr>))"
proof -
  obtain envelope payload where c: "normalizeProviderEnvelope request = Inr envelope"
      "buildResendPayload request envelope = Inr payload" "email_endpoint env ''/emails'' p = Inr (hc_URL c)"
      "hc_Method c = ''POST''" "hc_Body c = resend_payload_text payload"
      "map_of (hc_Header c) ''Idempotency-Key'' = (if msg_MessageID (sq_Message request) = [] then None
          else Some (msg_MessageID (sq_Message request)))"
    using Resend_call [OF assms] by (auto split: if_splits)
  note from_text = envelope_header(1) [OF c(1)]
  show ?thesis using c(2)
    by (intro exI [of _ envelope] conjI c(1,3,4,6))
      (auto simp: c(5) resend_text_reads buildResendPayload_def from_text Let_def split: if_splits)
qed

lemma Brevo_body:
  assumes "BrevoAPIProvider_Send p env request = (x, Some c)"
  shows "\<exists>envelope payload. normalizeProviderEnvelope request = Inr envelope
     \<and> hc_Method c = ''POST'' \<and> email_endpoint env ''/smtp/email'' p = Inr (hc_URL c)
     \<and> json_unmarshal (hc_Body c) = Some (JObject (brevo_members payload))
     \<and> payload = \<lparr>be_Sender = \<lparr>ba_Name = chan_FromName (sq_Channel request), ba_Email = env_from envelope\<rparr>,
          be_To = [\<lparr>ba_Name = [], ba_Email = env_to envelope\<rparr>], be_Subject = msg_Subject (sq_Message request),
          be_HTMLContent = msg_HTMLBody (sq_Message request), be_TextContent = msg_TextBody (sq_Message request),
          be_Tags = [''app:'' @ msg_AppCode (sq_Message request), ''message_id:'' @ msg_MessageID (sq_Message request),
            ''provider_account:'' @ acct_Code (sq_Account request), ''provider_channel:'' @ chan_Code (sq_Channel request)]\<rparr>
     \<and> (list_all tag_safe [msg_AppCode (sq_Message request), msg_MessageID (sq_Message request),
             acct_Code (sq_Account request), chan_Code (sq_Channel request)] \<longrightarrow>
           (\<exists>tags. strings_field ''tags'' (brevo_members payload) = Some tags
             \<and> parseBrevoMetadataTags tags = [''app'' \<mapsto> msg_AppCode (sq_Message request),
                 ''message_id'' \<mapsto> msg_MessageID (sq_Message request),
                 ''provider_account'' \<mapsto> acct_Code (sq_Account request),
                 ''provider_channel'' \<mapsto> chan_Code (sq_Channel request)]))"
proof -
  obtain envelope payload where c: "normalizeProviderEnvelope request = Inr envelope"
      "buildBrevoPayload request envelope = Inr payload" "email_endpoint env ''/smtp/email'' p = Inr (hc_URL c)"
      "hc_Method c = ''POST''" "hc_Body c = brevo_payload_text payload"
    using Brevo_call [OF assms] by auto
  have "payload = \<lparr>be_Sender = \<lparr>ba_Name = chan_FromName (sq_Channel request), ba_Email = env_from envelope\<rparr>,
      be_To = [\<lparr>ba_Name = [], ba_Email = env_to envelope\<rparr>], be_Subject = msg_Subject (sq_Message request),
      be_HTMLContent = msg_HTMLBody (sq_Message request), be_TextContent = msg_TextBody (sq_Message request),
      be_Tags = [''app:'' @ msg_AppCode (sq_Message request), ''message_id:'' @ msg_MessageID (sq_Message request),
        ''provider_account:'' @ acct_Code (sq_Account request), ''provider_channel:'' @ chan_Code (sq_Channel request)]\<rparr>"
    using c(2) by (auto simp: buildBrevoPayload_def Let_def split: if_splits)
  then show ?thesis using brevo_tags_back [OF c(2)]
    by (intro exI [of _ envelope] exI [of _ payload] conjI c(1,3,4)) (auto simp: c(5) brevo_text_reads)
qed

section \<open>Retry hints\<close>

text \<open>
  A date within the range of a duration gives the seconds up to it, rounded up; one further away, more
  than 292 years, overflows and gives no hint.
\<close>

lemma retryAfterSecondsUntil_reaches:
  assumes "0 < retryAt - now" "retryAt - now \<le> 2 ^ 63 - Second"
  shows "retryAt \<le> now + retryAfterSecondsUntil now retryAt * Second" "retryAfterSecondsUntil now retryAt * Second < retryAt - now + Second"
proof -
  have d: "time_Sub retryAt now = retryAt - now" using assms by (simp add: time_Sub_def)
  have i: "int64 (retryAt - now + Second - 1) = retryAt - now + Second - 1" using assms by (intro int64_id) simp_all
  have q: "quot (retryAt - now + Second - 1) Second = (retryAt - now + Second - 1) div Second"
    using assms by (simp add: quot_def)
  have "retryAfterSecondsUntil now retryAt = quot (int64 (retryAt - now + Second - 1)) Second"
    using assms(1) by (simp add: retryAfterSecondsUntil_def d)
  then have "retryAfterSecondsUntil now retryAt = (retryAt - now + Second - 1) div Second" unfolding i q .
  then show "retryAt \<le> now + retryAfterSecondsUntil now retryAt * Second" "retryAfterSecondsUntil now retryAt * Second < retryAt - now + Second"
    by linarith+
qed

lemma retryAfterSecondsUntil_far: "2 ^ 63 \<le> retryAt - now \<Longrightarrow> retryAfterSecondsUntil now retryAt < 0"
  by (simp add: retryAfterSecondsUntil_def time_Sub_def int64_def quot_def)

section \<open>An example\<close>

definition sample_api_mail :: "Provider \<Rightarrow> Worker.SendRequest" where
  "sample_api_mail provider =
     \<lparr>sq_Message = zero_Message\<lparr>msg_MessageID := ''msg_1'', msg_AppCode := ''shop'', msg_ToEmail := ''bob@x.co'',
        msg_Subject := ''Hello'', msg_TextBody := ''Hi''\<rparr>,
      sq_Account = \<lparr>acct_Code = ''acc'', acct_Provider = provider, acct_Enabled = True,
        acct_CredentialRefs = [''api_key'' \<mapsto> ''env:KEY'']\<rparr>,
      sq_Channel = zero_channel\<lparr>chan_Code := ''ch'', chan_Transport := TransportAPI, chan_From := ''shop@y.org''\<rparr>,
      sq_Attempt = 1\<rparr>"

text \<open>A client that knows the base URL and a service that accepts every request.\<close>

definition sample_http_env :: http_env where
  "sample_http_env =
     \<lparr>he_ctx = None,
      he_parse_url = (\<lambda>_. Inr \<lparr>url_Scheme = ''https'', url_Host = ''api.resend.com'', url_Path = [], url_RawQuery = [],
        url_Fragment = []\<rparr>),
      he_url_text = (\<lambda>u. url_Scheme u @ ''://'' @ url_Host u @ url_Path u), he_new_request = (\<lambda>_. None),
      he_do = (\<lambda>_. Inr \<lparr>rp_StatusCode = 200, rp_RetryAfter = [], rp_Body = object_text [(''id'', json_quote ''em_1'')]\<rparr>),
      he_now = 0, he_parse_time = (\<lambda>_. None)\<rparr>"

lemma sample_api_envelope:
  "normalizeProviderEnvelope (sample_api_mail provider) = Inr \<lparr>env_from = ''shop@y.org'', env_to = ''bob@x.co''\<rparr>"
  by code_simp

lemma sample_api_sent:
  "\<exists>c. ResendAPIProvider_Send (NewResendAPIProvider (Some (\<lambda>_. Inr ''key''))) sample_http_env (sample_api_mail ProviderResend)
     = (Inr (Accepted ''em_1''), Some c)"
proof -
  let ?p = "NewResendAPIProvider (Some (\<lambda>_. Inr ''key''))"
  have key: "api_key ?p (sample_api_mail ProviderResend) = Inr ''key''"
    "isVisibleASCIIWithoutWhitespaceSecret ''key''" by code_simp+
  have kind: "acct_Provider (sq_Account (sample_api_mail ProviderResend)) = ProviderResend"
    "chan_Transport (sq_Channel (sample_api_mail ProviderResend)) = TransportAPI"
    by (simp_all add: sample_api_mail_def)
  obtain payload where payload: "buildResendPayload (sample_api_mail ProviderResend)
      \<lparr>env_from = ''shop@y.org'', env_to = ''bob@x.co''\<rparr> = Inr payload"
    by (simp add: buildResendPayload_def sample_api_mail_def zero_Message_def)
  obtain endpoint where endpoint: "email_endpoint sample_http_env ''/emails'' ?p = Inr endpoint"
    by (simp add: email_endpoint_def sample_http_env_def)
  have body: "(case first_object (object_text [(''id'', json_quote ''em_1'')]) of None \<Rightarrow> None | Some ms \<Rightarrow> string_field ''id'' ms)
      = Some ''em_1''" by code_simp
  then have "decodeResendResponse sample_http_env \<lparr>rp_StatusCode = 200, rp_RetryAfter = [],
      rp_Body = object_text [(''id'', json_quote ''em_1'')]\<rparr> = Accepted ''em_1''"
    by (auto simp: decodeResendResponse_def split: option.splits)
  moreover have "he_do sample_http_env c = Inr \<lparr>rp_StatusCode = 200, rp_RetryAfter = [],
      rp_Body = object_text [(''id'', json_quote ''em_1'')]\<rparr>" "he_ctx sample_http_env = None"
    "he_new_request sample_http_env u = None" for c u by (simp_all add: sample_http_env_def)
  ultimately show ?thesis
    by (simp add: ResendAPIProvider_Send_def sample_api_envelope key kind payload endpoint Let_def)
qed

section \<open>Properties\<close>

text \<open>
  C30. A mail service counts as having accepted a message exactly when it answered the one request with a
  status from 200 to 299, whatever the body of the answer is; such a message is never sent again by the
  worker. A retry hint is never negative and comes only with a failure. A request is made only with the
  key of the account, which is printable, so that it cannot add a header line.
\<close>

theorem api_results_sound:
  assumes "send = ResendAPIProvider_Send p \<or> send = BrevoAPIProvider_Send p" "send env request = (Inr r, call)"
  shows "(IsAccepted r \<longleftrightarrow> (\<exists>c reply. call = Some c \<and> he_do env c = Inr reply
        \<and> 200 \<le> rp_StatusCode reply \<and> rp_StatusCode reply \<le> 299))
    \<and> 0 \<le> sr_RetryAfterSeconds r \<and> (IsAccepted r \<longrightarrow> sr_RetryAfterSeconds r = 0)
    \<and> (\<forall>c. call = Some c \<longrightarrow> (\<exists>key. api_key p request = Inr key \<and> header_text key
        \<and> hd (hc_Header c) \<in> {(''Authorization'', ''Bearer '' @ key), (''api-key'', key)}))"
proof -
  have visible: "header_text key" if "isVisibleASCIIWithoutWhitespaceSecret key" for key
  proof -
    have "(\<forall>r \<in> set (runes key). 33 \<le> r \<and> r \<le> 126) \<longleftrightarrow> (\<forall>c \<in> set key. 33 \<le> byte c \<and> byte c \<le> (126 :: nat))"
      by (rule runes_all_iff) simp
    then show ?thesis using that by (auto simp: isVisibleASCIIWithoutWhitespaceSecret_def header_text_def not_less)
  qed
  from assms(1) show ?thesis
  proof
    assume s: "send = ResendAPIProvider_Send p"
    show ?thesis using resend.accepts_exactly [OF assms(2) [unfolded s]] Resend_call [of p env request "Inr r"] visible assms(2) s
      by fastforce
  next
    assume s: "send = BrevoAPIProvider_Send p"
    show ?thesis using brevo.accepts_exactly [OF assms(2) [unfolded s]] Brevo_call [of p env request "Inr r"] visible assms(2) s
      by fastforce
  qed
qed

lemma api_results_sound_witness:
  "\<exists>c reply. ResendAPIProvider_Send (NewResendAPIProvider (Some (\<lambda>_. Inr ''key''))) sample_http_env
       (sample_api_mail ProviderResend) = (Inr (Accepted ''em_1''), Some c)
     \<and> he_do sample_http_env c = Inr reply \<and> 200 \<le> rp_StatusCode reply"
  using api_results_sound [OF disjI1 [OF refl]] sample_api_sent by fastforce

text \<open>
  C26. The request to a mail service carries the message. A service is not called only for one of the named
  reasons; else one POST goes to its endpoint, whose body is one JSON document, whatever bytes the
  message holds. It reads as an object with exactly the members of the service's API: the sender of the
  channel, the recipient, the subject and the bodies of the message, each invalid byte replaced, and
  tags with its App, its id, its account and its channel. To Resend the message id goes along as the
  idempotency key; from Brevo's tags its webhook reads back the identifiers they were made of.
\<close>

theorem api_request_reads:
  "(case ResendAPIProvider_Send p env request of
      (x, None) \<Rightarrow> unsendable ProviderResend ''/emails'' p env request
    | (x, Some c) \<Rightarrow> \<exists>envelope. normalizeProviderEnvelope request = Inr envelope
        \<and> hc_Method c = ''POST'' \<and> email_endpoint env ''/emails'' p = Inr (hc_URL c)
        \<and> map_of (hc_Header c) ''Idempotency-Key'' = (if msg_MessageID (sq_Message request) = [] then None
             else Some (msg_MessageID (sq_Message request)))
        \<and> json_unmarshal (hc_Body c) = Some (JObject (resend_members
            \<lparr>rs_From = name_phrase (chan_FromName (sq_Channel request)) @ ''<'' @ env_from envelope @ ''>'',
             rs_To = [env_to envelope], rs_Subject = msg_Subject (sq_Message request),
             rs_HTML = msg_HTMLBody (sq_Message request), rs_Text = msg_TextBody (sq_Message request),
             rs_Tags = [\<lparr>tag_Name = ''app'', tag_Value = msg_AppCode (sq_Message request)\<rparr>,
               \<lparr>tag_Name = ''message_id'', tag_Value = msg_MessageID (sq_Message request)\<rparr>,
               \<lparr>tag_Name = ''provider_account'', tag_Value = acct_Code (sq_Account request)\<rparr>,
               \<lparr>tag_Name = ''provider_channel'', tag_Value = chan_Code (sq_Channel request)\<rparr>]\<rparr>)))
   \<and> (case BrevoAPIProvider_Send p env request of
      (x, None) \<Rightarrow> unsendable ProviderBrevo ''/smtp/email'' p env request
    | (x, Some c) \<Rightarrow> \<exists>envelope payload. normalizeProviderEnvelope request = Inr envelope
        \<and> hc_Method c = ''POST'' \<and> email_endpoint env ''/smtp/email'' p = Inr (hc_URL c)
        \<and> json_unmarshal (hc_Body c) = Some (JObject (brevo_members payload))
        \<and> payload = \<lparr>be_Sender = \<lparr>ba_Name = chan_FromName (sq_Channel request), ba_Email = env_from envelope\<rparr>,
             be_To = [\<lparr>ba_Name = [], ba_Email = env_to envelope\<rparr>], be_Subject = msg_Subject (sq_Message request),
             be_HTMLContent = msg_HTMLBody (sq_Message request), be_TextContent = msg_TextBody (sq_Message request),
             be_Tags = [''app:'' @ msg_AppCode (sq_Message request), ''message_id:'' @ msg_MessageID (sq_Message request),
               ''provider_account:'' @ acct_Code (sq_Account request), ''provider_channel:'' @ chan_Code (sq_Channel request)]\<rparr>
        \<and> (list_all tag_safe [msg_AppCode (sq_Message request), msg_MessageID (sq_Message request),
              acct_Code (sq_Account request), chan_Code (sq_Channel request)] \<longrightarrow>
            (\<exists>tags. strings_field ''tags'' (brevo_members payload) = Some tags
              \<and> parseBrevoMetadataTags tags = [''app'' \<mapsto> msg_AppCode (sq_Message request),
                  ''message_id'' \<mapsto> msg_MessageID (sq_Message request),
                  ''provider_account'' \<mapsto> acct_Code (sq_Account request),
                  ''provider_channel'' \<mapsto> chan_Code (sq_Channel request)])))"
proof -
  obtain x y u v where sent: "ResendAPIProvider_Send p env request = (x, u)" "BrevoAPIProvider_Send p env request = (y, v)"
    by fastforce
  have none: "u = None \<Longrightarrow> unsendable ProviderResend ''/emails'' p env request"
    "v = None \<Longrightarrow> unsendable ProviderBrevo ''/smtp/email'' p env request"
    using Resend_unsendable [of p env request] Brevo_unsendable [of p env request] sent by simp_all
  show ?thesis
    unfolding sent prod.case
  proof (rule conjI, goal_cases)
    case 1
    show ?case
    proof (cases u)
      case (Some c)
      show ?thesis using Resend_body [OF sent(1) [unfolded Some]] unfolding Some option.case .
    qed (simp add: none)
  next
    case 2
    show ?case
    proof (cases v)
      case (Some c)
      show ?thesis using Brevo_body [OF sent(2) [unfolded Some]] unfolding Some option.case .
    qed (simp add: none)
  qed
qed

lemma api_request_reads_witness:
  "\<exists>c payload. snd (BrevoAPIProvider_Send (NewBrevoAPIProvider (Some (\<lambda>_. Inr ''key''))) sample_http_env
        (sample_api_mail ProviderBrevo)) = Some c
     \<and> json_unmarshal (hc_Body c) = Some (JObject (brevo_members payload))
     \<and> (\<exists>tags. strings_field ''tags'' (brevo_members payload) = Some tags \<and> parseBrevoMetadataTags tags ''message_id'' = Some ''msg_1'')"
proof -
  let ?p = "NewBrevoAPIProvider (Some (\<lambda>_. Inr ''key''))"
  have key: "api_key ?p (sample_api_mail ProviderBrevo) = Inr ''key''"
    "isVisibleASCIIWithoutWhitespaceSecret ''key''" by code_simp+
  have kind: "acct_Provider (sq_Account (sample_api_mail ProviderBrevo)) = ProviderBrevo"
    "chan_Transport (sq_Channel (sample_api_mail ProviderBrevo)) = TransportAPI"
    "he_ctx sample_http_env = None" "he_new_request sample_http_env u = None" for u
    by (simp_all add: sample_api_mail_def sample_http_env_def)
  obtain payload where payload: "buildBrevoPayload (sample_api_mail ProviderBrevo)
      \<lparr>env_from = ''shop@y.org'', env_to = ''bob@x.co''\<rparr> = Inr payload"
    by (simp add: buildBrevoPayload_def sample_api_mail_def zero_Message_def)
  obtain endpoint where endpoint: "email_endpoint sample_http_env ''/smtp/email'' ?p = Inr endpoint"
    by (simp add: email_endpoint_def sample_http_env_def)
  obtain x c where call: "BrevoAPIProvider_Send ?p sample_http_env (sample_api_mail ProviderBrevo) = (x, Some c)"
    by (simp add: BrevoAPIProvider_Send_def sample_api_envelope key kind payload endpoint Let_def)
  have safe: "list_all tag_safe [msg_AppCode (sq_Message (sample_api_mail ProviderBrevo)),
      msg_MessageID (sq_Message (sample_api_mail ProviderBrevo)), acct_Code (sq_Account (sample_api_mail ProviderBrevo)),
      chan_Code (sq_Channel (sample_api_mail ProviderBrevo))]"
    "msg_MessageID (sq_Message (sample_api_mail ProviderBrevo)) = ''msg_1''" by code_simp+
  show ?thesis
    using conjunct2 [OF api_request_reads [where p = ?p and env = sample_http_env and request = "sample_api_mail ProviderBrevo"]] safe
    unfolding call prod.case option.case by auto
qed

end
