(* ===== verification/Queries.thy ===== *)
theory Queries
  imports Send
begin

text \<open>
  The read side of the API: \<open>message_status.go\<close>, \<open>message_attempts.go\<close>, \<open>message_events.go\<close>,
  \<open>message_list.go\<close>, \<open>failed_message_list.go\<close>, \<open>provider_event_list.go\<close>, \<open>stats_summary.go\<close>,
  \<open>suppression_list.go\<close> and \<open>admin_config_summary.go\<close>. Each handler authenticates, parses its path or its
  query, asks a log or a store of the runtime and answers with the fields below; none changes anything.
  The parsed query string and the contents of the log files are arguments.
\<close>

section \<open>Requests and answers\<close>

record query_request =
  qr_Header :: "string \<Rightarrow> string"
  qr_Path :: string
  qr_Query :: "string \<Rightarrow> string"

text \<open>The files of the logs and the clock.\<close>

record query_env =
  qe_path :: "log_name \<Rightarrow> string"
  qe_open :: "log_name \<Rightarrow> nat \<Rightarrow> go_error option"
  qe_disk :: log_disk
  qe_stats_path :: string
  qe_stats_open :: "nat \<Rightarrow> go_error option"
  qe_stats_disk :: log_files
  qe_stats_codec :: stats_codec
  qe_now :: go_time

definition messages_view :: "query_env \<Rightarrow> Runtime \<Rightarrow> log_view" where
  "messages_view env rt = queryPaths (qe_open env Messages_log) (qe_path env Messages_log)
     (ml_messages (run_messageLog rt)) (qe_disk env Messages_log)"

definition attempts_view :: "query_env \<Rightarrow> Runtime \<Rightarrow> log_view" where
  "attempts_view env rt = queryPaths (qe_open env Attempts_log) (qe_path env Attempts_log)
     (ml_attempts (run_messageLog rt)) (qe_disk env Attempts_log)"

definition events_view :: "query_env \<Rightarrow> Runtime \<Rightarrow> log_view option" where
  "events_view env rt = map_option (\<lambda>w. queryPaths (qe_open env Events_log) (qe_path env Events_log) w
     (qe_disk env Events_log)) (ml_events (run_messageLog rt))"

definition stats_view :: "query_env \<Rightarrow> Runtime \<Rightarrow> log_view option" where
  "stats_view env rt =
     (case run_stats rt of
        NoopStatsSink \<Rightarrow> None
      | FileStatsSink w \<Rightarrow> Some (queryPaths (qe_stats_open env) (qe_stats_path env) w (qe_stats_disk env)))"

text \<open>The handlers around the queries are all alike.\<close>

datatype 'a query_answer = Query_not_found | Query_failed nat errorPayload | Query_answer 'a

definition query_handler :: "(nat \<Rightarrow> nat result) \<Rightarrow> string \<Rightarrow> 'a result \<Rightarrow> 'a query_answer" where
  "query_handler draws http_method response =
     (case wrapped ''generate request id'' (NewRequestID draws) of
        Inl e \<Rightarrow> (case writeAPIError [] e of (status, payload) \<Rightarrow> Query_failed status payload)
      | Inr requestID \<Rightarrow>
          if http_method \<noteq> ''GET'' then Query_not_found
          else (case response of
                  Inl e \<Rightarrow> (case writeAPIError requestID e of (status, payload) \<Rightarrow> Query_failed status payload)
                | Inr a \<Rightarrow> Query_answer a))"

definition invalid_query :: "string \<Rightarrow> 'a result" where
  "invalid_query message = Inl (RequestValidationError ErrorCodeInvalidQuery message)"

text \<open>The limit of a listing: 50 if none is given, at most 200.\<close>

definition query_limit :: "string \<Rightarrow> int result" where
  "query_limit raw =
     (let rawLimit = TrimSpace raw
      in if rawLimit = [] then Inr 50
         else case ParseInt rawLimit of
                None \<Rightarrow> invalid_query ''limit must be between 1 and 200''
              | Some parsedLimit \<Rightarrow>
                  if parsedLimit \<le> 0 \<or> 200 < parsedLimit then invalid_query ''limit must be between 1 and 200''
                  else Inr parsedLimit)"

section \<open>One message\<close>

record messageStatusResponse =
  mr_MessageID :: string
  mr_RequestID :: string
  mr_BusinessRequestID :: string
  mr_App :: string
  mr_Scene :: string
  mr_Status :: MessageStatus
  mr_Locale :: string
  mr_ToDomain :: string
  mr_ToHash :: string
  mr_ErrorCode :: ErrorCode
  mr_ErrorMessage :: string
  mr_UpdatedAt :: string

definition messageStatusFromSnapshot :: "MessageSnapshot \<Rightarrow> messageStatusResponse" where
  "messageStatusFromSnapshot s =
     \<lparr>mr_MessageID = ms_MessageID s, mr_RequestID = ms_RequestID s, mr_BusinessRequestID = ms_BusinessRequestID s,
      mr_App = ms_AppCode s, mr_Scene = ms_SceneCode s, mr_Status = ms_Status s, mr_Locale = ms_Locale s,
      mr_ToDomain = ms_ToDomain s, mr_ToHash = ms_ToHash s, mr_ErrorCode = ms_ErrorCode s,
      mr_ErrorMessage = ms_ErrorMessage s, mr_UpdatedAt = format_time (ms_Timestamp s)\<rparr>"

definition messageStatusPathPrefix :: string where "messageStatusPathPrefix = ''/v1/mail/messages/''"
definition messageAttemptsPathSuffix :: string where "messageAttemptsPathSuffix = ''/attempts''"
definition messageEventsPathSuffix :: string where "messageEventsPathSuffix = ''/events''"

definition messageIDFromPath :: "string \<Rightarrow> string option" where
  "messageIDFromPath path =
     (let messageID = TrimPrefix path messageStatusPathPrefix
      in if messageID = path \<or> \<not> isValidMessageIDValue messageID then None else Some messageID)"

definition messageIDFromAttemptsPath :: "string \<Rightarrow> string option" where
  "messageIDFromAttemptsPath path =
     (if \<not> HasSuffix path messageAttemptsPathSuffix then None
      else messageIDFromPath (TrimSuffix path messageAttemptsPathSuffix))"

definition messageIDFromEventsPath :: "string \<Rightarrow> string option" where
  "messageIDFromEventsPath path =
     (if \<not> HasSuffix path messageEventsPathSuffix then None
      else messageIDFromPath (TrimSuffix path messageEventsPathSuffix))"

definition message_not_found :: "'a result" where
  "message_not_found = Inl (APIError ErrorCodeMessageNotFound ''message not found'')"

text \<open>The snapshot of the message a path names, for the application of the key.\<close>

definition message_of_path ::
    "query_env \<Rightarrow> Runtime \<Rightarrow> string \<Rightarrow> AuthContext \<Rightarrow> string option \<Rightarrow> MessageSnapshot result" where
  "message_of_path env rt what auth messageID =
     (case messageID of
        None \<Rightarrow> message_not_found
      | Some m \<Rightarrow>
          (case FindLatestMessage go_codec (messages_view env rt) (app_Code (auth_App auth)) m of
             Inl e \<Rightarrow> Inl (Wrapf what e)
           | Inr None \<Rightarrow> message_not_found
           | Inr (Some snapshot) \<Rightarrow> Inr snapshot))"

definition processMessageStatus :: "query_env \<Rightarrow> Runtime \<Rightarrow> query_request \<Rightarrow> messageStatusResponse result" where
  "processMessageStatus env rt rq =
     and_then (AuthenticateHeader (run_auth rt) (qr_Header rq ''Authorization'')) (\<lambda>auth.
     and_then (message_of_path env rt ''find message status'' auth (messageIDFromPath (qr_Path rq))) (\<lambda>snapshot.
       Inr (messageStatusFromSnapshot snapshot)))"

record messageAttemptResponseEntry =
  ma_LoggedAt :: string
  ma_AttemptNo :: int
  ma_Provider :: Provider
  ma_ProviderAccount :: string
  ma_ProviderChannel :: string
  ma_Transport :: Transport
  ma_Status :: AttemptStatus
  ma_FailureClass :: FailureClass
  ma_ErrorCode :: ErrorCode
  ma_ErrorMessage :: string
  ma_ProviderMessageID :: string
  ma_DurationMS :: int

record messageAttemptsResponse =
  mas_MessageID :: string
  mas_App :: string
  mas_Attempts :: "messageAttemptResponseEntry list"

definition attempt_entry :: "AttemptSnapshot \<Rightarrow> messageAttemptResponseEntry" where
  "attempt_entry a =
     \<lparr>ma_LoggedAt = format_time (as_Timestamp a), ma_AttemptNo = as_AttemptNo a, ma_Provider = as_Provider a,
      ma_ProviderAccount = as_ProviderAccountCode a, ma_ProviderChannel = as_ProviderChannelCode a,
      ma_Transport = as_Transport a, ma_Status = as_Status a, ma_FailureClass = as_FailureClass a,
      ma_ErrorCode = as_ErrorCode a, ma_ErrorMessage = as_ErrorMessage a,
      ma_ProviderMessageID = as_ProviderMessageID a, ma_DurationMS = as_DurationMS a\<rparr>"

definition messageAttemptsFromSnapshots :: "MessageSnapshot \<Rightarrow> AttemptSnapshot list \<Rightarrow> messageAttemptsResponse" where
  "messageAttemptsFromSnapshots snapshot attempts =
     \<lparr>mas_MessageID = ms_MessageID snapshot, mas_App = ms_AppCode snapshot, mas_Attempts = map attempt_entry attempts\<rparr>"

definition processMessageAttempts :: "query_env \<Rightarrow> Runtime \<Rightarrow> query_request \<Rightarrow> messageAttemptsResponse result" where
  "processMessageAttempts env rt rq =
     and_then (AuthenticateHeader (run_auth rt) (qr_Header rq ''Authorization'')) (\<lambda>auth.
     and_then (message_of_path env rt ''find message for attempt query'' auth (messageIDFromAttemptsPath (qr_Path rq))) (\<lambda>snapshot.
     and_then (wrapped ''list message attempts'' (ListAttempts go_codec (attempts_view env rt) (app_Code (auth_App auth))
         (the (messageIDFromAttemptsPath (qr_Path rq))))) (\<lambda>attempts.
       Inr (messageAttemptsFromSnapshots snapshot attempts))))"

record messageEventResponseEntry =
  me_LoggedAt :: string
  me_Provider :: Provider
  me_ProviderAccount :: string
  me_ProviderChannel :: string
  me_ProviderMessageID :: string
  me_EventType :: ProviderEventType
  me_OccurredAt :: string

record messageEventsResponse =
  mes_MessageID :: string
  mes_App :: string
  mes_Events :: "messageEventResponseEntry list"

definition event_entry :: "ProviderEventSnapshot \<Rightarrow> messageEventResponseEntry" where
  "event_entry e =
     \<lparr>me_LoggedAt = format_time (es_Timestamp e), me_Provider = es_Provider e,
      me_ProviderAccount = es_ProviderAccountCode e, me_ProviderChannel = es_ProviderChannelCode e,
      me_ProviderMessageID = es_ProviderMessageID e, me_EventType = es_EventType e, me_OccurredAt = es_OccurredAt e\<rparr>"

definition messageEventsFromSnapshots :: "MessageSnapshot \<Rightarrow> ProviderEventSnapshot list \<Rightarrow> messageEventsResponse" where
  "messageEventsFromSnapshots snapshot events =
     \<lparr>mes_MessageID = ms_MessageID snapshot, mes_App = ms_AppCode snapshot, mes_Events = map event_entry events\<rparr>"

definition processMessageEvents :: "query_env \<Rightarrow> Runtime \<Rightarrow> query_request \<Rightarrow> messageEventsResponse result" where
  "processMessageEvents env rt rq =
     and_then (AuthenticateHeader (run_auth rt) (qr_Header rq ''Authorization'')) (\<lambda>auth.
     and_then (message_of_path env rt ''find message for event query'' auth (messageIDFromEventsPath (qr_Path rq))) (\<lambda>snapshot.
     and_then (wrapped ''list message provider events'' (ListProviderEvents go_codec (events_view env rt)
         (app_Code (auth_App auth)) (the (messageIDFromEventsPath (qr_Path rq))))) (\<lambda>events.
       Inr (messageEventsFromSnapshots snapshot events))))"

text \<open>\<open>handleMessageRoutes\<close>: which of the three handlers a path goes to.\<close>

datatype message_route = Route_events | Route_attempts | Route_status

definition handleMessageRoutes :: "string \<Rightarrow> message_route" where
  "handleMessageRoutes path =
     (if HasSuffix path messageEventsPathSuffix then Route_events
      else if HasSuffix path messageAttemptsPathSuffix then Route_attempts
      else Route_status)"

section \<open>Listings\<close>

record messageListResponse =
  ml_App :: string
  ml_Limit :: int
  ml_Messages :: "messageStatusResponse list"

definition parseMessageListFilter :: "query_request \<Rightarrow> MessageListFilter result" where
  "parseMessageListFilter rq =
     and_then (query_limit (qr_Query rq ''limit'')) (\<lambda>limit.
       let rawStatus = TrimSpace (qr_Query rq ''status'');
           status = (if rawStatus = [] then NoMessageStatus else MessageStatus_of rawStatus);
           scene = TrimSpace (qr_Query rq ''scene'')
       in if rawStatus \<noteq> [] \<and> \<not> MessageStatus_IsValid status then invalid_query ''status is invalid''
          else if scene \<noteq> [] \<and> \<not> isValidIdentifierFilter scene then invalid_query ''scene is invalid''
          else Inr \<lparr>mf_Limit = limit, mf_Status = status, mf_Scene = scene\<rparr>)"

definition list_messages ::
    "query_env \<Rightarrow> Runtime \<Rightarrow> string \<Rightarrow> AuthContext \<Rightarrow> MessageListFilter \<Rightarrow> messageListResponse result" where
  "list_messages env rt what auth flt =
     and_then (wrapped what (ListLatestMessages go_codec (messages_view env rt) (app_Code (auth_App auth)) flt)) (\<lambda>messages.
       Inr \<lparr>ml_App = app_Code (auth_App auth), ml_Limit = mf_Limit flt,
             ml_Messages = map messageStatusFromSnapshot messages\<rparr>)"

definition processMessageList :: "query_env \<Rightarrow> Runtime \<Rightarrow> query_request \<Rightarrow> messageListResponse result" where
  "processMessageList env rt rq =
     and_then (AuthenticateHeader (run_auth rt) (qr_Header rq ''Authorization'')) (\<lambda>auth.
     and_then (parseMessageListFilter rq) (\<lambda>flt.
       list_messages env rt ''list latest messages'' auth flt))"

definition processFailedMessageList :: "query_env \<Rightarrow> Runtime \<Rightarrow> query_request \<Rightarrow> messageListResponse result" where
  "processFailedMessageList env rt rq =
     and_then (AuthenticateHeader (run_auth rt) (qr_Header rq ''Authorization'')) (\<lambda>auth.
       if TrimSpace (qr_Query rq ''status'') \<noteq> [] then invalid_query ''status is not supported on failed message list''
       else and_then (parseMessageListFilter rq) (\<lambda>flt.
         list_messages env rt ''list failed messages'' auth (flt\<lparr>mf_Status := MessageStatusFailed\<rparr>)))"

record providerEventListEntry =
  pe_MessageID :: string
  pe_LoggedAt :: string
  pe_Provider :: Provider
  pe_ProviderAccount :: string
  pe_ProviderChannel :: string
  pe_ProviderMessageID :: string
  pe_EventType :: ProviderEventType
  pe_OccurredAt :: string

record providerEventListResponse =
  pel_App :: string
  pel_Limit :: int
  pel_Events :: "providerEventListEntry list"

definition event_list_entry :: "ProviderEventSnapshot \<Rightarrow> providerEventListEntry" where
  "event_list_entry e =
     \<lparr>pe_MessageID = es_MessageID e, pe_LoggedAt = format_time (es_Timestamp e), pe_Provider = es_Provider e,
      pe_ProviderAccount = es_ProviderAccountCode e, pe_ProviderChannel = es_ProviderChannelCode e,
      pe_ProviderMessageID = es_ProviderMessageID e, pe_EventType = es_EventType e, pe_OccurredAt = es_OccurredAt e\<rparr>"

definition parseProviderEventListFilter :: "query_request \<Rightarrow> ProviderEventListFilter result" where
  "parseProviderEventListFilter rq =
     and_then (query_limit (qr_Query rq ''limit'')) (\<lambda>limit.
       let rawProvider = TrimSpace (qr_Query rq ''provider'');
           provider = (if rawProvider = [] then NoProvider else Provider_of rawProvider);
           rawEventType = TrimSpace (qr_Query rq ''event_type'');
           eventType = (if rawEventType = [] then NoEventType else ProviderEventType_of rawEventType)
       in if rawProvider \<noteq> [] \<and> \<not> Provider_IsValid provider then invalid_query ''provider is invalid''
          else if rawEventType \<noteq> [] \<and> \<not> ProviderEventType_IsValid eventType then invalid_query ''event_type is invalid''
          else Inr \<lparr>pf_Limit = limit, pf_Provider = provider, pf_EventType = eventType\<rparr>)"

definition processProviderEventList :: "query_env \<Rightarrow> Runtime \<Rightarrow> query_request \<Rightarrow> providerEventListResponse result" where
  "processProviderEventList env rt rq =
     and_then (AuthenticateHeader (run_auth rt) (qr_Header rq ''Authorization'')) (\<lambda>auth.
     and_then (parseProviderEventListFilter rq) (\<lambda>flt.
     and_then (wrapped ''list recent provider events'' (ListRecentProviderEvents go_codec (events_view env rt)
         (app_Code (auth_App auth)) flt)) (\<lambda>events.
       Inr \<lparr>pel_App = app_Code (auth_App auth), pel_Limit = pf_Limit flt, pel_Events = map event_list_entry events\<rparr>)))"

record suppressionResponseItem =
  si_Email :: string
  si_NormalizedEmail :: string
  si_Reason :: SuppressionReason

record suppressionListResponse =
  sl_App :: string
  sl_Limit :: int
  sl_Suppressions :: "suppressionResponseItem list"

definition isValidSuppressionFilterEmail :: "string \<Rightarrow> bool" where
  "isValidSuppressionFilterEmail value = isValidSingleAddrSpecEmail value"

definition parseSuppressionListFilter :: "query_request \<Rightarrow> SuppressionListFilter result" where
  "parseSuppressionListFilter rq =
     and_then (query_limit (qr_Query rq ''limit'')) (\<lambda>limit.
       let rawReason = TrimSpace (qr_Query rq ''reason'');
           reason = (if rawReason = [] then NoReason else SuppressionReason_of rawReason);
           email = TrimSpace (qr_Query rq ''email'')
       in if rawReason \<noteq> [] \<and> \<not> SuppressionReason_IsValid reason then invalid_query ''reason is invalid''
          else if email \<noteq> [] \<and> \<not> isValidSuppressionFilterEmail email then invalid_query ''email is invalid''
          else Inr \<lparr>sf_Limit = limit, sf_Reason = reason, sf_Email = email\<rparr>)"

definition processSuppressionList :: "Runtime \<Rightarrow> query_request \<Rightarrow> suppressionListResponse result" where
  "processSuppressionList rt rq =
     and_then (AuthenticateHeader (run_auth rt) (qr_Header rq ''Authorization'')) (\<lambda>auth.
     and_then (parseSuppressionListFilter rq) (\<lambda>flt.
       Inr \<lparr>sl_App = app_Code (auth_App auth), sl_Limit = sf_Limit flt,
             sl_Suppressions = map (\<lambda>e. \<lparr>si_Email = sup_Email e, si_NormalizedEmail = sup_NormalizedEmail e,
                 si_Reason = sup_Reason e\<rparr>)
               (List_suppressed (app_Code (auth_App auth)) flt (Some (run_suppressed rt)))\<rparr>))"

section \<open>Statistics\<close>

record providerDurationSummaryEntry =
  de_ProviderChannel :: string
  de_Transport :: Transport
  de_Count :: int
  de_AverageMS :: float64
  de_TotalMS :: float64

record statsSummaryResponse =
  ssr_App :: string
  ssr_Window :: string
  ssr_Since :: string
  ssr_Until :: string
  ssr_Metrics :: "(string \<times> float64) list"
  ssr_ProviderDurations :: "providerDurationSummaryEntry list"

definition parseStatsWindow :: "string \<Rightarrow> (string \<times> duration) result" where
  "parseStatsWindow raw =
     (let value0 = TrimSpace raw; window = (if value0 = [] then ''24h'' else value0)
      in if window = ''1h'' then Inr (window, Hour)
         else if window = ''24h'' then Inr (window, 24 * Hour)
         else if window = ''7d'' then Inr (window, 7 * 24 * Hour)
         else invalid_query ''window must be 1h, 24h, or 7d'')"

definition statsSummaryFromLite :: "string \<Rightarrow> StatsSummary \<Rightarrow> statsSummaryResponse" where
  "statsSummaryFromLite window s =
     \<lparr>ssr_App = sm_AppCode s, ssr_Window = window, ssr_Since = format_time (sm_Since s),
      ssr_Until = format_time (sm_Until s), ssr_Metrics = sm_Metrics s,
      ssr_ProviderDurations = map (\<lambda>channel. (let d = the (map_of (sm_ProviderDurations s) channel)
          in \<lparr>de_ProviderChannel = pd_ProviderChannelCode d, de_Transport = pd_Transport d, de_Count = pd_Count d,
              de_AverageMS = pd_AverageMS d, de_TotalMS = pd_TotalMS d\<rparr>)) (sort (keys_of (sm_ProviderDurations s)))\<rparr>"

definition processStatsSummary :: "query_env \<Rightarrow> Runtime \<Rightarrow> query_request \<Rightarrow> statsSummaryResponse result" where
  "processStatsSummary env rt rq =
     and_then (AuthenticateHeader (run_auth rt) (qr_Header rq ''Authorization'')) (\<lambda>auth.
     and_then (parseStatsWindow (qr_Query rq ''window'')) (\<lambda>(windowName, windowDuration).
     and_then (wrapped ''summarize stats'' (Summary (qe_stats_codec env) (stats_view env rt) (app_Code (auth_App auth))
         (qe_now env - windowDuration) (qe_now env))) (\<lambda>summary.
       Inr (statsSummaryFromLite windowName summary))))"

section \<open>The configuration summary of the administration pages\<close>

record adminAPIKeySummary =
  ak_Name :: string
  ak_Enabled :: bool

record adminRateLimitSummary =
  ar_SameEmailPerMinute :: int
  ar_SameEmailPerDay :: int
  ar_SameUserIPPerHour :: int
  ar_SameCallerIPPerHour :: int

record adminSceneSummary =
  asc_Code :: string
  asc_Name :: string
  asc_Enabled :: bool
  asc_Template :: string
  asc_RateLimit :: adminRateLimitSummary
  asc_RoutePolicy :: RoutePolicy

record adminTemplateSummary =
  at_Code :: string
  at_Locale :: string
  at_Enabled :: bool
  at_Subject :: string
  at_RequiredVars :: "string list"
  at_HasHTML :: bool
  at_HasText :: bool

record adminAppSummary =
  aa_Code :: string
  aa_Name :: string
  aa_Enabled :: bool
  aa_DefaultLocale :: string
  aa_AllowedLocales :: "string list"
  aa_APIKeys :: "adminAPIKeySummary list"
  aa_Scenes :: "adminSceneSummary list"
  aa_Templates :: "adminTemplateSummary list"

record adminRuntimeSummary =
  art_ConfigStore :: string
  art_Queue :: string
  art_RateLimiter :: string
  art_MessageLog :: string
  art_Stats :: string
  art_Suppression :: string
  art_Webhooks :: bool

record adminDefaultsSummary =
  ad_ProviderTimeoutSeconds :: int
  ad_MaxAttemptsPerMessage :: int
  ad_RetryBackoffSeconds :: "int list"
  ad_MemoryQueueSize :: int
  ad_WorkerConcurrency :: int
  ad_IdempotencyCacheSize :: int
  ad_IdempotencyTTLHours :: int
  ad_MaxRequestBodyBytes :: int
  ad_MaxTemplateVarBytes :: int
  ad_MaxContextBytes :: int

record adminProviderAccountSummary =
  ap_Code :: string
  ap_Provider :: Provider
  ap_Enabled :: bool

record adminSMTPSummary =
  asm_Host :: string
  asm_Port :: int

record adminProviderChannelSummary =
  ach_Code :: string
  ach_Account :: string
  ach_Provider :: Provider
  ach_Transport :: Transport
  ach_Enabled :: bool
  ach_SenderDomain :: string
  ach_FromName :: string
  ach_From :: string
  ach_SMTP :: "adminSMTPSummary option"

record adminConfigSummaryResponse =
  acr_App :: adminAppSummary
  acr_Runtime :: adminRuntimeSummary
  acr_Defaults :: adminDefaultsSummary
  acr_ProviderAccounts :: "adminProviderAccountSummary list"
  acr_ProviderChannels :: "adminProviderChannelSummary list"

text \<open>The channels the scenes of an application route to, as a set: the loops range over the values of a map.\<close>

definition appRouteChannels :: "App \<Rightarrow> string set" where
  "appRouteChannels app =
     (\<Union>scene \<in> set (app_Scenes app). \<Union> (set ` ran (scene_RoutePolicy scene))) - {[]}"

definition adminRateLimitFromDomain :: "RateLimitPolicy \<Rightarrow> adminRateLimitSummary" where
  "adminRateLimitFromDomain p =
     \<lparr>ar_SameEmailPerMinute = SameEmailPerMinute p, ar_SameEmailPerDay = SameEmailPerDay p,
      ar_SameUserIPPerHour = SameUserIPPerHour p, ar_SameCallerIPPerHour = SameCallerIPPerHour p\<rparr>"

text \<open>A copy of a map whose values are copied.\<close>

definition copyRoutePolicy :: "RoutePolicy \<Rightarrow> RoutePolicy" where
  "copyRoutePolicy policy = (\<lambda>key. map_option (\<lambda>channels. channels) (policy key))"

definition admin_scene :: "Scene \<Rightarrow> adminSceneSummary" where
  "admin_scene s =
     \<lparr>asc_Code = scene_Code s, asc_Name = scene_Name s, asc_Enabled = scene_Enabled s, asc_Template = scene_Template s,
      asc_RateLimit = adminRateLimitFromDomain (scene_RateLimit s),
      asc_RoutePolicy = copyRoutePolicy (scene_RoutePolicy s)\<rparr>"

definition admin_template :: "Template \<Rightarrow> adminTemplateSummary" where
  "admin_template t =
     \<lparr>at_Code = tmpl_Code t, at_Locale = tmpl_Locale t, at_Enabled = tmpl_Enabled t, at_Subject = tmpl_Subject t,
      at_RequiredVars = tmpl_RequiredVars t, at_HasHTML = (tmpl_HTMLBody t \<noteq> []), at_HasText = (tmpl_TextBody t \<noteq> [])\<rparr>"

text \<open>
  \<open>sort.Slice\<close> leaves the order of equal elements open; the validated configuration has no two
  of the same code, and a stable sort stands for it here.
\<close>

definition adminAppFromDomain :: "App \<Rightarrow> adminAppSummary" where
  "adminAppFromDomain app =
     \<lparr>aa_Code = app_Code app, aa_Name = app_Name app, aa_Enabled = app_Enabled app,
      aa_DefaultLocale = app_DefaultLocale app, aa_AllowedLocales = app_AllowedLocales app,
      aa_APIKeys = sort_key ak_Name (map (\<lambda>k. \<lparr>ak_Name = key_Name k, ak_Enabled = key_Enabled k\<rparr>) (app_APIKeys app)),
      aa_Scenes = sort_key asc_Code (map admin_scene (app_Scenes app)),
      aa_Templates = sort_key (\<lambda>t. (at_Code t, at_Locale t)) (map admin_template (app_Templates app))\<rparr>"

definition adminRuntimeFromConfig :: "Config.Config \<Rightarrow> adminRuntimeSummary" where
  "adminRuntimeFromConfig cfg =
     (let r = cfg_Runtime cfg
      in \<lparr>art_ConfigStore = runtime_ConfigStore r, art_Queue = runtime_Queue r, art_RateLimiter = runtime_RateLimiter r,
          art_MessageLog = runtime_MessageLog r, art_Stats = runtime_Stats r, art_Suppression = runtime_Suppression r,
          art_Webhooks = webhook_Enabled (cfg_Webhooks cfg)\<rparr>)"

definition adminDefaultsFromConfig :: "DefaultsConfig \<Rightarrow> adminDefaultsSummary" where
  "adminDefaultsFromConfig d =
     \<lparr>ad_ProviderTimeoutSeconds = defaults_ProviderTimeoutSeconds d,
      ad_MaxAttemptsPerMessage = defaults_MaxAttemptsPerMessage d,
      ad_RetryBackoffSeconds = defaults_RetryBackoffSeconds d, ad_MemoryQueueSize = defaults_MemoryQueueSize d,
      ad_WorkerConcurrency = defaults_WorkerConcurrency d, ad_IdempotencyCacheSize = defaults_IdempotencyCacheSize d,
      ad_IdempotencyTTLHours = defaults_IdempotencyTTLHours d, ad_MaxRequestBodyBytes = defaults_MaxRequestBodyBytes d,
      ad_MaxTemplateVarBytes = defaults_MaxTemplateVarBytes d, ad_MaxContextBytes = defaults_MaxContextBytes d\<rparr>"

definition adminSMTPFromConfig :: "SMTPConfig option \<Rightarrow> adminSMTPSummary option" where
  "adminSMTPFromConfig smtp = (case smtp of None \<Rightarrow> None
      | Some s \<Rightarrow> Some \<lparr>asm_Host = smtpc_Host s, asm_Port = smtpc_Port s\<rparr>)"

text \<open>The map of the account providers, later accounts over earlier ones; a missing account has the empty provider.\<close>

definition accountProviders :: "ProviderAccountConfig list \<Rightarrow> string \<Rightarrow> Provider" where
  "accountProviders accounts code =
     (case map_of (rev (map (\<lambda>a. (pac_Code a, pac_Provider a)) accounts)) code of
        None \<Rightarrow> NoProvider | Some p \<Rightarrow> p)"

definition admin_channel :: "(string \<Rightarrow> Provider) \<Rightarrow> ProviderChannelConfig \<Rightarrow> adminProviderChannelSummary" where
  "admin_channel providers c =
     \<lparr>ach_Code = pcc_Code c, ach_Account = pcc_Account c, ach_Provider = providers (pcc_Account c),
      ach_Transport = pcc_Transport c, ach_Enabled = EnabledValue (pcc_Enabled c),
      ach_SenderDomain = pcc_SenderDomain c, ach_FromName = pcc_FromName c, ach_From = pcc_From c,
      ach_SMTP = adminSMTPFromConfig (pcc_SMTP c)\<rparr>"

definition admin_account :: "ProviderAccountConfig \<Rightarrow> adminProviderAccountSummary" where
  "admin_account a = \<lparr>ap_Code = pac_Code a, ap_Provider = pac_Provider a, ap_Enabled = EnabledValue (pac_Enabled a)\<rparr>"

text \<open>The answer for an application: its own part and the channels and accounts its scenes route to.\<close>

definition admin_summary :: "Config.Config \<Rightarrow> App \<Rightarrow> adminConfigSummaryResponse" where
  "admin_summary cfg app =
     (let visibleChannels = filter (\<lambda>c. pcc_Code c \<in> appRouteChannels app) (cfg_ProviderChannels cfg);
          visibleAccounts = set (map pcc_Account visibleChannels);
          channels = sort_key ach_Code (map (admin_channel (accountProviders (cfg_ProviderAccounts cfg))) visibleChannels);
          accounts = sort_key ap_Code (map admin_account
            (filter (\<lambda>a. pac_Code a \<in> visibleAccounts) (cfg_ProviderAccounts cfg)))
      in \<lparr>acr_App = adminAppFromDomain app, acr_Runtime = adminRuntimeFromConfig cfg,
          acr_Defaults = adminDefaultsFromConfig (cfg_Defaults cfg), acr_ProviderAccounts = accounts,
          acr_ProviderChannels = channels\<rparr>)"

definition processAdminConfigSummary :: "Config.Config \<Rightarrow> Runtime \<Rightarrow> query_request \<Rightarrow> adminConfigSummaryResponse result" where
  "processAdminConfigSummary cfg rt rq =
     and_then (AuthenticateHeader (run_auth rt) (qr_Header rq ''Authorization'')) (\<lambda>auth.
       Inr (admin_summary cfg (auth_App auth)))"

section \<open>The handlers\<close>

text \<open>Each with the random draws of its request id and the HTTP method.\<close>

definition handleMessageStatus ::
    "(nat \<Rightarrow> nat result) \<Rightarrow> string \<Rightarrow> query_env \<Rightarrow> Runtime \<Rightarrow> query_request \<Rightarrow> messageStatusResponse query_answer" where
  "handleMessageStatus draws http_method env rt rq = query_handler draws http_method (processMessageStatus env rt rq)"

definition handleMessageAttempts ::
    "(nat \<Rightarrow> nat result) \<Rightarrow> string \<Rightarrow> query_env \<Rightarrow> Runtime \<Rightarrow> query_request \<Rightarrow> messageAttemptsResponse query_answer" where
  "handleMessageAttempts draws http_method env rt rq = query_handler draws http_method (processMessageAttempts env rt rq)"

definition handleMessageEvents ::
    "(nat \<Rightarrow> nat result) \<Rightarrow> string \<Rightarrow> query_env \<Rightarrow> Runtime \<Rightarrow> query_request \<Rightarrow> messageEventsResponse query_answer" where
  "handleMessageEvents draws http_method env rt rq = query_handler draws http_method (processMessageEvents env rt rq)"

definition handleMessageList ::
    "(nat \<Rightarrow> nat result) \<Rightarrow> string \<Rightarrow> query_env \<Rightarrow> Runtime \<Rightarrow> query_request \<Rightarrow> messageListResponse query_answer" where
  "handleMessageList draws http_method env rt rq = query_handler draws http_method (processMessageList env rt rq)"

definition handleFailedMessageList ::
    "(nat \<Rightarrow> nat result) \<Rightarrow> string \<Rightarrow> query_env \<Rightarrow> Runtime \<Rightarrow> query_request \<Rightarrow> messageListResponse query_answer" where
  "handleFailedMessageList draws http_method env rt rq = query_handler draws http_method (processFailedMessageList env rt rq)"

definition handleProviderEventList ::
    "(nat \<Rightarrow> nat result) \<Rightarrow> string \<Rightarrow> query_env \<Rightarrow> Runtime \<Rightarrow> query_request \<Rightarrow> providerEventListResponse query_answer" where
  "handleProviderEventList draws http_method env rt rq = query_handler draws http_method (processProviderEventList env rt rq)"

definition handleStatsSummary ::
    "(nat \<Rightarrow> nat result) \<Rightarrow> string \<Rightarrow> query_env \<Rightarrow> Runtime \<Rightarrow> query_request \<Rightarrow> statsSummaryResponse query_answer" where
  "handleStatsSummary draws http_method env rt rq = query_handler draws http_method (processStatsSummary env rt rq)"

definition handleSuppressionList ::
    "(nat \<Rightarrow> nat result) \<Rightarrow> string \<Rightarrow> Runtime \<Rightarrow> query_request \<Rightarrow> suppressionListResponse query_answer" where
  "handleSuppressionList draws http_method rt rq = query_handler draws http_method (processSuppressionList rt rq)"

definition handleAdminConfigSummary ::
    "(nat \<Rightarrow> nat result) \<Rightarrow> string \<Rightarrow> Config.Config \<Rightarrow> Runtime \<Rightarrow> query_request \<Rightarrow> adminConfigSummaryResponse query_answer" where
  "handleAdminConfigSummary draws http_method cfg rt rq = query_handler draws http_method (processAdminConfigSummary cfg rt rq)"

section \<open>What an application can see\<close>

text \<open>The records of one application in the logs, or the error in reading a log.\<close>

definition own_records :: "query_env \<Rightarrow> Runtime \<Rightarrow> string \<Rightarrow>
    MessageSnapshot list result \<times> AttemptSnapshot list result \<times> ProviderEventSnapshot list result" where
  "own_records env rt app =
     (and_then (read_log ''message'' (decodeMessageSnapshot go_codec) (messages_view env rt))
        (\<lambda>xs. Inr (filter (\<lambda>s. ms_AppCode s = app) xs)),
      and_then (read_log ''attempt'' (decodeAttemptSnapshot go_codec) (attempts_view env rt))
        (\<lambda>xs. Inr (filter (\<lambda>s. as_AppCode s = app) xs)),
      case events_view env rt of
        None \<Rightarrow> Inr []
      | Some view \<Rightarrow> and_then (read_log ''provider event'' (decodeProviderEventQuerySnapshot go_codec) view)
          (\<lambda>xs. Inr (filter (\<lambda>s. es_AppCode s = app) xs)))"

lemma last_such_filter: "(\<And>x. P x \<Longrightarrow> Q x) \<Longrightarrow> last_such P (filter Q xs) = last_such P xs"
  by (induction xs rule: rev_induct) (auto simp: last_such_append last_such_def)

lemma fold_collect_own: "fold (collect_step a) (filter (\<lambda>s. ms_AppCode s = a) xs) acc = fold (collect_step a) xs acc"
  by (induction xs arbitrary: acc) (auto simp: collect_step_def)

lemma filter_own: "(\<And>x. P x \<Longrightarrow> Q x) \<Longrightarrow> filter P (filter Q xs) = filter P xs"
  by (auto simp: filter_filter intro: filter_cong)

definition event_listed :: "string \<Rightarrow> ProviderEventListFilter \<Rightarrow> ProviderEventSnapshot \<Rightarrow> bool" where
  "event_listed app flt e \<longleftrightarrow> es_AppCode e = app
     \<and> (pf_Provider flt = NoProvider \<or> es_Provider e = pf_Provider flt)
     \<and> (pf_EventType flt = NoEventType \<or> es_EventType e = pf_EventType flt)"

lemma ListRecentProviderEvents_eq:
  "ListRecentProviderEvents codec (Some fs) a flt =
     and_then (read_log ''provider event'' (decodeProviderEventQuerySnapshot codec) fs) (\<lambda>xs.
       Inr (cut (pf_Limit flt) (newest_first (\<lambda>e. (es_Timestamp e, es_MessageID e, es_ProviderMessageID e))
          (filter (event_listed a flt) xs))))"
proof -
  have "(\<lambda>e. \<not> (es_AppCode e \<noteq> a) \<and> \<not> (pf_Provider flt \<noteq> NoProvider \<and> es_Provider e \<noteq> pf_Provider flt)
      \<and> \<not> (pf_EventType flt \<noteq> NoEventType \<and> es_EventType e \<noteq> pf_EventType flt)) = event_listed a flt"
    by (auto simp: event_listed_def)
  then have "collect_batches (\<lambda>f. listRecentProviderEventsInPath codec f a flt) fs [] =
      and_then (read_log ''provider event'' (decodeProviderEventQuerySnapshot codec) fs) (\<lambda>xs.
        Inr ([] @ filter (event_listed a flt) xs))"
    by (intro batches_eq) (simp add: listRecentProviderEventsInPath_def scan_file_fold fold_event_step)
  then show ?thesis
    by (cases "read_log ''provider event'' (decodeProviderEventQuerySnapshot codec) fs")
      (simp_all add: ListRecentProviderEvents_def)
qed

lemma own_filters [simp]:
  "last_such (of_message a m) (filter (\<lambda>s. ms_AppCode s = a) xs) = last_such (of_message a m) xs"
  "filter (of_attempt a m) (filter (\<lambda>s. as_AppCode s = a) ys) = filter (of_attempt a m) ys"
  "filter (of_event a m) (filter (\<lambda>s. es_AppCode s = a) zs) = filter (of_event a m) zs"
  "filter (event_listed a flt) (filter (\<lambda>s. es_AppCode s = a) zs) = filter (event_listed a flt) zs"
     apply (rule last_such_filter, simp add: of_message_def)
    apply (rule filter_own, simp add: of_attempt_def)
   apply (rule filter_own, simp add: of_event_def)
  apply (rule filter_own, simp add: event_listed_def)
  done

text \<open>Each query as a function of the application's own records.\<close>

lemma own_FindLatestMessage:
  "FindLatestMessage go_codec (messages_view env rt) a m =
     and_then (fst (own_records env rt a)) (\<lambda>xs. Inr (last_such (of_message a m) xs))"
  by (cases "read_log ''message'' (decodeMessageSnapshot go_codec) (messages_view env rt)")
    (simp_all add: FindLatestMessage_eq own_records_def)

lemma own_ListLatestMessages:
  "ListLatestMessages go_codec (messages_view env rt) a flt =
     and_then (fst (own_records env rt a)) (\<lambda>xs. Inr (cut (mf_Limit flt)
       (newest_first (\<lambda>s. (ms_Timestamp s, ms_MessageID s)) (filter (message_hit flt)
          (map snd (fold (collect_step a) xs []))))))"
  by (cases "read_log ''message'' (decodeMessageSnapshot go_codec) (messages_view env rt)")
    (simp_all add: ListLatestMessages_def collect_loop_eq own_records_def fold_collect_own)

lemma own_ListAttempts:
  "ListAttempts go_codec (attempts_view env rt) a m =
     and_then (fst (snd (own_records env rt a))) (\<lambda>xs. Inr (filter (of_attempt a m) xs))"
  by (cases "read_log ''attempt'' (decodeAttemptSnapshot go_codec) (attempts_view env rt)")
    (auto simp: ListAttempts_eq own_records_def simp del: filter_filter)

lemma own_ListProviderEvents:
  "ListProviderEvents go_codec (events_view env rt) a m =
     and_then (snd (snd (own_records env rt a))) (\<lambda>xs. Inr (filter (of_event a m) xs))"
proof (cases "events_view env rt")
  case None
  then show ?thesis by (simp add: own_records_def ListProviderEvents_def)
next
  case (Some fs)
  then show ?thesis
    by (cases "read_log ''provider event'' (decodeProviderEventQuerySnapshot go_codec) fs")
      (auto simp: ListProviderEvents_eq own_records_def simp del: filter_filter)
qed

lemma own_ListRecentProviderEvents:
  "ListRecentProviderEvents go_codec (events_view env rt) a flt =
     and_then (snd (snd (own_records env rt a))) (\<lambda>xs. Inr (cut (pf_Limit flt)
       (newest_first (\<lambda>e. (es_Timestamp e, es_MessageID e, es_ProviderMessageID e)) (filter (event_listed a flt) xs))))"
proof (cases "events_view env rt")
  case None
  then show ?thesis by (simp add: own_records_def ListRecentProviderEvents_def newest_first_def cut_def)
next
  case (Some fs)
  then show ?thesis
    by (cases "read_log ''provider event'' (decodeProviderEventQuerySnapshot go_codec) fs")
      (auto simp: ListRecentProviderEvents_eq own_records_def simp del: filter_filter)
qed

lemmas own_queries = own_FindLatestMessage own_ListLatestMessages own_ListAttempts own_ListProviderEvents
  own_ListRecentProviderEvents

text \<open>A listing's limit.\<close>

lemma query_limit_range: "query_limit raw = Inr n \<Longrightarrow> 1 \<le> n \<and> n \<le> 200"
  by (auto simp: query_limit_def invalid_query_def Let_def split: if_splits option.splits)

section \<open>Properties\<close>

text \<open>
  C22. Apps are isolated: with the key of an App, the answers of the six queries over the logs are
  determined by that App's own records. Whatever the logs hold of other Apps, and whether it changes, the
  status, attempts and events of a message and the three listings are the same, errors included.
\<close>

theorem queries_isolated:
  assumes "AuthenticateHeader (run_auth rt) (qr_Header rq ''Authorization'') = Inr auth"
    and "run_auth rt' = run_auth rt"
    and "own_records env' rt' (app_Code (auth_App auth)) = own_records env rt (app_Code (auth_App auth))"
  shows "processMessageStatus env' rt' rq = processMessageStatus env rt rq
    \<and> processMessageAttempts env' rt' rq = processMessageAttempts env rt rq
    \<and> processMessageEvents env' rt' rq = processMessageEvents env rt rq
    \<and> processMessageList env' rt' rq = processMessageList env rt rq
    \<and> processFailedMessageList env' rt' rq = processFailedMessageList env rt rq
    \<and> processProviderEventList env' rt' rq = processProviderEventList env rt rq"
  unfolding processMessageStatus_def processMessageAttempts_def processMessageEvents_def processMessageList_def
    processFailedMessageList_def processProviderEventList_def list_messages_def message_of_path_def
  by (simp add: assms own_queries cong: option.case_cong)

text \<open>A log that another application has written to.\<close>

definition other_message :: Message where
  "other_message = zero_Message\<lparr>msg_MessageID := ''msg_7'', msg_AppCode := ''other'', msg_Status := MessageStatusSent\<rparr>"

definition own_message :: Message where
  "own_message = zero_Message\<lparr>msg_MessageID := ''msg_1'', msg_AppCode := ''shop'', msg_Status := MessageStatusFailed\<rparr>"

definition sample_query_env :: "Message list \<Rightarrow> query_env" where
  "sample_query_env ms =
     \<lparr>qe_path = (\<lambda>_. ''log''), qe_open = (\<lambda>_ _. None),
      qe_disk = (\<lambda>name. if name = Messages_log
        then [0 \<mapsto> records (map (\<lambda>m. message_line (0, m)) ms)] else Map.empty),
      qe_stats_path = ''stats'', qe_stats_open = (\<lambda>_. None), qe_stats_disk = Map.empty,
      qe_stats_codec = \<lparr>sc_record = (\<lambda>_. Inl (Errorf ''unread'')), sc_time = (\<lambda>_. Inr 0)\<rparr>, qe_now = 0\<rparr>"

definition sample_query :: "string \<Rightarrow> query_request" where
  "sample_query path = \<lparr>qr_Header = (\<lambda>name. if name = ''Authorization'' then ''Bearer 0123456789abcdefghijklmn'' else []),
     qr_Path = path, qr_Query = (\<lambda>_. [])\<rparr>"


lemma sample_log_read:
  assumes "\<forall>m \<in> set ms. message_loggable 0 m \<and> fits (message_line (0, m))"
  shows "read_log ''message'' (decodeMessageSnapshot go_codec)
    (messages_view (sample_query_env ms) (sd_runtime sample_send_world)) = Inr (map (logged_message 0) ms)"
proof -
  define w where "w = \<lparr>jw_maxBytes = 1000, jw_maxBackups = 1, jw_open = True, jw_failed = None, jw_currentSize = 0\<rparr>"
  define c where "c = (\<lambda>i :: nat. if i = 0 then map (\<lambda>m. message_line (0, m)) ms else [])"
  define fs where "fs = (\<lambda>i :: nat. if i = 0 then Some (records (c 0)) else None)"
  have view: "messages_view (sample_query_env ms) (sd_runtime sample_send_world) = queryPaths (\<lambda>_. None) ''log'' w fs"
    by (auto simp: messages_view_def sample_query_env_def sample_send_world_def Let_def w_def fs_def c_def intro!: arg_cong [of _ _ "queryPaths _ _ _"])
  have order: "concat (map c (query_order (jw_maxBackups w))) = map (\<lambda>m. message_line (0, m)) ms"
    by (simp add: query_order_def w_def c_def)
  have good: "plain_line (message_line (0, m))"
      "decodeMessageSnapshot go_codec (message_line (0, m)) = Inr (logged_message 0 m)" if "m \<in> set ms" for m
    using assms that message_codec.plain_enc [of "(0, m)"] message_codec.dec_enc [of "(0, m)"] by simp_all
  have "read_log ''message'' (decodeMessageSnapshot go_codec) (queryPaths (\<lambda>_. None) ''log'' w fs)
      = Inr (map (projr \<circ> decodeMessageSnapshot go_codec) (concat (map c (query_order (jw_maxBackups w)))))"
    by (rule read_query_paths) (auto simp: order good, auto simp: fs_def c_def content_def)
  then show ?thesis unfolding view order by (simp add: good)
qed

lemma sample_messages_good:
  "message_loggable 0 other_message" "fits (message_line (0, other_message))"
  "message_loggable 0 own_message" "fits (message_line (0, own_message))"
  "ms_AppCode (logged_message 0 other_message) = ''other''" "ms_MessageID (logged_message 0 other_message) = ''msg_7''"
  "ms_AppCode (logged_message 0 own_message) = ''shop''" "ms_MessageID (logged_message 0 own_message) = ''msg_1''"
  "ms_Status (logged_message 0 own_message) = MessageStatusFailed"
  by code_simp+

lemma sample_query_auth:
  "AuthenticateHeader (run_auth (sd_runtime sample_send_world)) (qr_Header (sample_query path) ''Authorization'')
     = Inr \<lparr>auth_App = sample_send_app,
         auth_APIKey = \<lparr>key_Name = ''main'', key_Enabled = True, key_KeyHash = APIKeyHash ''0123456789abcdefghijklmn''\<rparr>\<rparr>"
  "app_Code sample_send_app = ''shop''"
proof -
  have "qr_Header (sample_query path) ''Authorization'' = ''Bearer 0123456789abcdefghijklmn''"
    by (simp add: sample_query_def)
  then show "AuthenticateHeader (run_auth (sd_runtime sample_send_world)) (qr_Header (sample_query path) ''Authorization'')
     = Inr \<lparr>auth_App = sample_send_app,
         auth_APIKey = \<lparr>key_Name = ''main'', key_Enabled = True, key_KeyHash = APIKeyHash ''0123456789abcdefghijklmn''\<rparr>\<rparr>"
    by (simp only: sample_fields(1) sample_auth)
  have code: "app_Code (DomainAppFromConfig a keys) = ac_Code a" for a keys
    by (simp add: DomainAppFromConfig_def)
  show "app_Code sample_send_app = ''shop''"
    unfolding sample_send_app_def code by (simp add: sample_app_def)
qed

lemma queries_isolated_witness:
  "processMessageStatus (sample_query_env [other_message]) (sd_runtime sample_send_world)
       (sample_query ''/v1/mail/messages/msg_7'') = message_not_found
   \<and> fst (own_records (sample_query_env [other_message]) (sd_runtime sample_send_world) ''other'')
       = Inr [logged_message 0 other_message]"
proof -
  let ?rt = "sd_runtime sample_send_world" and ?rq = "sample_query ''/v1/mail/messages/msg_7''"
  have read: "read_log ''message'' (decodeMessageSnapshot go_codec) (messages_view (sample_query_env [other_message]) ?rt)
        = Inr [logged_message 0 other_message]"
      "read_log ''message'' (decodeMessageSnapshot go_codec) (messages_view (sample_query_env []) ?rt) = Inr []"
    using sample_log_read [of "[other_message]"] sample_log_read [of "[]"] by (simp_all add: sample_messages_good)
  have rest: "attempts_view (sample_query_env [other_message]) ?rt = attempts_view (sample_query_env []) ?rt"
      "events_view (sample_query_env [other_message]) ?rt = events_view (sample_query_env []) ?rt"
    by (simp_all add: attempts_view_def events_view_def sample_query_env_def)
  have own: "own_records (sample_query_env [other_message]) ?rt ''shop'' = own_records (sample_query_env []) ?rt ''shop''"
    by (simp add: own_records_def read rest sample_messages_good)
  have none: "processMessageStatus (sample_query_env []) ?rt ?rq = message_not_found"
  proof -
    have "messageIDFromPath (qr_Path ?rq) = Some ''msg_7''" by code_simp
    then show ?thesis
      by (simp add: processMessageStatus_def sample_query_auth message_of_path_def FindLatestMessage_eq read
          message_not_found_def del: APIKeyHash_def)
  qed
  have "processMessageStatus (sample_query_env [other_message]) ?rt ?rq = processMessageStatus (sample_query_env []) ?rt ?rq"
    using queries_isolated [OF sample_query_auth(1), of ?rt "sample_query_env [other_message]" "sample_query_env []"] own
    by (simp add: sample_query_auth(2) del: APIKeyHash_def)
  then show ?thesis using none read by (simp add: own_records_def sample_messages_good)
qed

text \<open>The path of a valid message id names that message.\<close>

lemma messageIDFromPath_status:
  "isValidMessageIDValue m \<Longrightarrow> messageIDFromPath (messageStatusPathPrefix @ m) = Some m"
  by (auto simp: messageIDFromPath_def TrimPrefix_def HasPrefix_def messageStatusPathPrefix_def)

lemma find_app: "FindLatestMessage codec fs a m = Inr (Some s) \<Longrightarrow> ms_AppCode s = a \<and> ms_MessageID s = m"
  by (cases "read_log ''message'' (decodeMessageSnapshot codec) fs")
    (auto simp: FindLatestMessage_eq of_message_def dest: last_such_Some)

lemma parse_limit: "parseMessageListFilter rq = Inr flt \<Longrightarrow> 1 \<le> mf_Limit flt \<and> mf_Limit flt \<le> 200"
  using query_limit_range
  by (cases "query_limit (qr_Query rq ''limit'')")
    (auto simp: parseMessageListFilter_def invalid_query_def Let_def split: if_splits)

lemma and_then_InrE:
  assumes "and_then m f = Inr y" obtains x where "m = Inr x" "f x = Inr y"
  using assms by (cases m) auto

lemma wrapped_InrD: "wrapped what m = Inr x \<Longrightarrow> m = Inr x"
  by (auto simp: wrapped_def split: sum.splits)



section \<open>The configuration summary\<close>

text \<open>
  A configuration without its secrets: no references to API keys, credentials, SMTP accounts or webhook
  secrets, and nothing of the Apps, the caller's own coming from its key.
\<close>

definition account_without_secrets :: "ProviderAccountConfig \<Rightarrow> ProviderAccountConfig" where
  "account_without_secrets a = a\<lparr>pac_Credentials := []\<rparr>"

definition channel_without_secrets :: "ProviderChannelConfig \<Rightarrow> ProviderChannelConfig" where
  "channel_without_secrets c =
     c\<lparr>pcc_SMTP := map_option (\<lambda>s. s\<lparr>smtpc_Username := [], smtpc_PasswordRef := []\<rparr>) (pcc_SMTP c)\<rparr>"

definition without_secrets :: "Config.Config \<Rightarrow> Config.Config" where
  "without_secrets cfg =
     cfg\<lparr>cfg_SourcePath := [], cfg_BaseDir := [], cfg_SuppressionFile := [], cfg_Apps := [],
        cfg_ProviderAccounts := map account_without_secrets (cfg_ProviderAccounts cfg),
        cfg_ProviderChannels := map channel_without_secrets (cfg_ProviderChannels cfg),
        cfg_Webhooks := (cfg_Webhooks cfg)\<lparr>webhook_SharedSecretRef := [], webhook_ResendSecretRef := [],
          webhook_BrevoTokenRef := []\<rparr>\<rparr>"

text \<open>An application without the hashes of its keys and the bodies of its templates.\<close>

definition public_template :: "Template \<Rightarrow> Template" where
  "public_template t =
     t\<lparr>tmpl_HTMLBody := (if tmpl_HTMLBody t = [] then [] else ''body''),
       tmpl_TextBody := (if tmpl_TextBody t = [] then [] else ''body'')\<rparr>"

definition public_app :: "App \<Rightarrow> App" where
  "public_app app =
     app\<lparr>app_APIKeys := map (\<lambda>k. k\<lparr>key_KeyHash := []\<rparr>) (app_APIKeys app),
        app_Templates := map public_template (app_Templates app)\<rparr>"

lemma admin_template_public [simp]: "admin_template (public_template t) = admin_template t"
  by (simp add: admin_template_def public_template_def)

lemma admin_app_public: "adminAppFromDomain (public_app app) = adminAppFromDomain app"
  by (simp add: adminAppFromDomain_def public_app_def comp_def)

lemma public_account_fields [simp]:
  "pac_Code (account_without_secrets a) = pac_Code a" "pac_Provider (account_without_secrets a) = pac_Provider a"
  "admin_account (account_without_secrets a) = admin_account a"
  by (simp_all add: account_without_secrets_def admin_account_def)

lemma public_channel_fields [simp]:
  "pcc_Code (channel_without_secrets c) = pcc_Code c" "pcc_Account (channel_without_secrets c) = pcc_Account c"
  "admin_channel providers (channel_without_secrets c) = admin_channel providers c"
  by (cases "pcc_SMTP c"; simp add: channel_without_secrets_def admin_channel_def adminSMTPFromConfig_def)+

lemma admin_summary_public: "admin_summary (without_secrets cfg) (public_app app) = admin_summary cfg app"
proof -
  have "appRouteChannels (public_app app) = appRouteChannels app"
    by (simp add: appRouteChannels_def public_app_def)
  moreover have "accountProviders (map account_without_secrets accounts) = accountProviders accounts" for accounts
    by (simp add: accountProviders_def fun_eq_iff comp_def)
  ultimately show ?thesis
    by (simp add: admin_summary_def Let_def without_secrets_def admin_app_public comp_def filter_map
        adminRuntimeFromConfig_def image_image)
qed

text \<open>
  C31. The configuration summary shows no secret: it is the same function of the configuration and the
  caller's App without any key hash, credential, secret reference, SMTP user or template body. It shows of the
  shared configuration only what the App routes to: the channels listed are those in a route policy of
  its scenes and the accounts those of these channels, each sorted by code; and only a bad key makes it
  fail.
\<close>

theorem summary_hides_secrets:
  "(case AuthenticateHeader (run_auth rt) (qr_Header rq ''Authorization'') of
      Inl e \<Rightarrow> processAdminConfigSummary cfg rt rq = Inl e
    | Inr auth \<Rightarrow> \<exists>r. processAdminConfigSummary cfg rt rq = Inr r
        \<and> r = admin_summary (without_secrets cfg) (public_app (auth_App auth))
        \<and> set (map ach_Code (acr_ProviderChannels r))
            = set (map pcc_Code (cfg_ProviderChannels cfg)) \<inter> appRouteChannels (auth_App auth)
        \<and> set (map ap_Code (acr_ProviderAccounts r))
            = set (map pac_Code (cfg_ProviderAccounts cfg)) \<inter> set (map ach_Account (acr_ProviderChannels r))
        \<and> sorted (map ach_Code (acr_ProviderChannels r)) \<and> sorted (map ap_Code (acr_ProviderAccounts r)))"
proof (cases "AuthenticateHeader (run_auth rt) (qr_Header rq ''Authorization'')")
  case (Inl e)
  then show ?thesis by (simp add: processAdminConfigSummary_def)
next
  case (Inr auth)
  let ?r = "admin_summary cfg (auth_App auth)"
  have "set (map ach_Code (acr_ProviderChannels ?r))
        = set (map pcc_Code (cfg_ProviderChannels cfg)) \<inter> appRouteChannels (auth_App auth)"
      "set (map ap_Code (acr_ProviderAccounts ?r))
        = set (map pac_Code (cfg_ProviderAccounts cfg)) \<inter> set (map ach_Account (acr_ProviderChannels ?r))"
    by (auto simp: admin_summary_def Let_def image_image admin_channel_def admin_account_def)
  moreover have "sorted (map ach_Code (acr_ProviderChannels ?r))" "sorted (map ap_Code (acr_ProviderAccounts ?r))"
    by (simp_all add: admin_summary_def Let_def)
  ultimately show ?thesis using Inr by (simp add: processAdminConfigSummary_def admin_summary_public)
qed

end
